(* ===== verification/Prelude.thy ===== *)
theory Prelude
  imports Main "HOL-Library.AList" "HOL-Library.Multiset" "HOL-Library.Sublist"
begin

text \<open>
  The vocabulary every component shares: results with an error summand and their
  sequencing, JavaScript's insertion-ordered \<open>Map\<close> and \<open>Set\<close> as association and
  distinct lists, \<open>Array.prototype.sort\<close> as a stable sort under a comparator, decimal
  printing of integers, and a generic machine locale for operations that keep an
  invariant.
\<close>

named_theorems result_simps \<open>unfolding a sequence of fallible steps\<close>

section \<open>Results\<close>

text \<open>A throwing computation is a value of \<open>'e + 'a\<close>: \<open>Inl\<close> the error thrown.\<close>

type_synonym ('e, 'a) result = "'e + 'a"

definition rbind :: "('e, 'a) result \<Rightarrow> ('a \<Rightarrow> ('e, 'b) result) \<Rightarrow> ('e, 'b) result" where
  "rbind m f = (case m of Inl e \<Rightarrow> Inl e | Inr x \<Rightarrow> f x)"

definition require :: "bool \<Rightarrow> 'e \<Rightarrow> ('e, unit) result" where
  "require c e = (if c then Inr () else Inl e)"

definition rmap :: "('a \<Rightarrow> 'b) \<Rightarrow> ('e, 'a) result \<Rightarrow> ('e, 'b) result" where
  "rmap f m = rbind m (\<lambda>x. Inr (f x))"

fun traverse :: "('a \<Rightarrow> ('e, 'b) result) \<Rightarrow> 'a list \<Rightarrow> ('e, 'b list) result" where
  "traverse f [] = Inr []"
| "traverse f (x # xs) = rbind (f x) (\<lambda>y. rbind (traverse f xs) (\<lambda>ys. Inr (y # ys)))"

text \<open>A left fold whose step may throw: the \<open>for\<close> loop over a list.\<close>

fun rfold :: "('s \<Rightarrow> 'a \<Rightarrow> ('e, 's) result) \<Rightarrow> 's \<Rightarrow> 'a list \<Rightarrow> ('e, 's) result" where
  "rfold f s [] = Inr s"
| "rfold f s (x # xs) = rbind (f s x) (\<lambda>s'. rfold f s' xs)"

lemma rbind_simps [simp]:
  "rbind (Inl e) f = Inl e"
  "rbind (Inr x) f = f x"
  by (simp_all add: rbind_def)

lemma rbind_eq_Inr [result_simps]:
  "rbind m f = Inr y \<longleftrightarrow> (\<exists>x. m = Inr x \<and> f x = Inr y)"
  by (cases m) auto

lemma rbind_eq_Inl:
  "rbind m f = Inl e \<longleftrightarrow> m = Inl e \<or> (\<exists>x. m = Inr x \<and> f x = Inl e)"
  by (cases m) auto

lemma rbind_cong [fundef_cong]:
  "m = m' \<Longrightarrow> (\<And>x. m' = Inr x \<Longrightarrow> f x = f' x) \<Longrightarrow> rbind m f = rbind m' f'"
  by (cases m') auto

lemma rbind_assoc: "rbind (rbind m f) g = rbind m (\<lambda>x. rbind (f x) g)"
  by (cases m) auto

lemma require_eq_Inr [simp]: "require c e = Inr u \<longleftrightarrow> c"
  by (simp add: require_def)

lemma require_eq_Inl [simp]: "require c e = Inl e' \<longleftrightarrow> \<not> c \<and> e' = e"
  by (auto simp: require_def)

lemma require_True [simp]: "require True e = Inr ()"
  by (simp add: require_def)

lemma require_False [simp]: "require False e = Inl e"
  by (simp add: require_def)

lemma rmap_eq_Inr [result_simps]: "rmap f m = Inr y \<longleftrightarrow> (\<exists>x. m = Inr x \<and> y = f x)"
  by (auto simp: rmap_def rbind_eq_Inr)

lemma traverse_eq_Inr:
  "traverse f xs = Inr ys \<longleftrightarrow> list_all2 (\<lambda>x y. f x = Inr y) xs ys"
  by (induction xs arbitrary: ys) (auto simp: rbind_eq_Inr list_all2_Cons1)

lemma traverse_all_Inr:
  "(\<And>x. x \<in> set xs \<Longrightarrow> f x = Inr (g x)) \<Longrightarrow> traverse f xs = Inr (map g xs)"
  by (induction xs) auto

lemma rfold_append:
  "rfold f s (xs @ ys) = rbind (rfold f s xs) (\<lambda>s'. rfold f s' ys)"
  by (induction xs arbitrary: s) (simp_all add: rbind_def split: sum.splits)

lemma rfold_invariant:
  assumes "rfold f s xs = Inr s'" "P s"
    and "\<And>s x s'. x \<in> set xs \<Longrightarrow> P s \<Longrightarrow> f s x = Inr s' \<Longrightarrow> P s'"
  shows "P s'"
  using assms by (induction xs arbitrary: s) (auto simp: rbind_eq_Inr)

section \<open>Insertion-ordered maps and sets\<close>

text \<open>
  \<open>Map.prototype.set\<close> keeps the position of an existing key and appends a new one, which
  is what \<open>AList.update\<close> does; \<open>Map.prototype.get\<close> is \<open>map_of\<close>. A \<open>Set\<close> is the list of
  its members in insertion order.
\<close>

type_synonym ('k, 'v) jmap = "('k \<times> 'v) list"

abbreviation jget :: "('k, 'v) jmap \<Rightarrow> 'k \<Rightarrow> 'v option" where
  "jget \<equiv> map_of"

abbreviation jset :: "'k \<Rightarrow> 'v \<Rightarrow> ('k, 'v) jmap \<Rightarrow> ('k, 'v) jmap" where
  "jset \<equiv> AList.update"

abbreviation jdel :: "'k \<Rightarrow> ('k, 'v) jmap \<Rightarrow> ('k, 'v) jmap" where
  "jdel \<equiv> AList.delete"

definition jkeys :: "('k, 'v) jmap \<Rightarrow> 'k list" where
  "jkeys m = map fst m"

definition jvals :: "('k, 'v) jmap \<Rightarrow> 'v list" where
  "jvals m = map snd m"

definition sadd :: "'a \<Rightarrow> 'a list \<Rightarrow> 'a list" where
  "sadd x xs = (if x \<in> set xs then xs else xs @ [x])"

definition of_keys :: "('a \<Rightarrow> 'k) \<Rightarrow> 'a list \<Rightarrow> ('k, 'a) jmap" where
  "of_keys key xs = fold (\<lambda>x m. jset (key x) x m) xs []"

lemma set_sadd [simp]: "set (sadd x xs) = insert x (set xs)"
  by (auto simp: sadd_def)

lemma distinct_sadd [simp]: "distinct (sadd x xs) \<longleftrightarrow> distinct xs"
  by (auto simp: sadd_def)

lemma map_of_jset [simp]: "map_of (jset k v m) = (map_of m)(k \<mapsto> v)"
  by (simp add: update_conv')

lemma fst_set_jset [simp]: "fst ` set (jset k v m) = insert k (fst ` set m)"
  by (simp add: dom_update)

lemma jget_in_keys: "map_of m k = Some v \<Longrightarrow> k \<in> fst ` set m"
  by (auto dest!: map_of_SomeD intro: rev_image_eqI)

lemma in_keys_jget: "k \<in> fst ` set m \<longleftrightarrow> (\<exists>v. map_of m k = Some v)"
  by (metis jget_in_keys map_of_eq_None_iff not_None_eq)

lemma distinct_jset [simp]: "distinct (map fst m) \<Longrightarrow> distinct (map fst (jset k v m))"
  by (rule distinct_update)

lemma jset_new: "k \<notin> fst ` set m \<Longrightarrow> jset k v m = m @ [(k, v)]"
  by (induction m) auto

lemma in_set_jset:
  "(a, b) \<in> set (jset k v m) \<Longrightarrow> (a = k \<and> b = v) \<or> (a, b) \<in> set m"
  by (induction m) (auto split: if_splits)

lemma distinct_of_keys_aux:
  "distinct (map fst m) \<Longrightarrow> distinct (map fst (fold (\<lambda>x m. jset (key x) x m) xs m))"
  by (induction xs arbitrary: m) auto

lemma distinct_of_keys [simp]: "distinct (map fst (of_keys key xs))"
  by (simp add: of_keys_def distinct_of_keys_aux)

lemma fst_fold_jset:
  "fst ` set (fold (\<lambda>x m. jset (key x) x m) xs m) = fst ` set m \<union> key ` set xs"
  by (induction xs arbitrary: m) auto

lemma keys_of_keys [simp]: "fst ` set (of_keys key xs) = key ` set xs"
  by (simp add: of_keys_def fst_fold_jset)

lemma map_of_fold_jset_None:
  "k \<notin> key ` set xs \<Longrightarrow> map_of (fold (\<lambda>x m. jset (key x) x m) xs m) k = map_of m k"
  by (induction xs arbitrary: m) auto

lemma map_of_fold_jset_inj:
  "inj_on key (set xs) \<Longrightarrow> x \<in> set xs \<Longrightarrow>
     map_of (fold (\<lambda>x m. jset (key x) x m) xs m) (key x) = Some x"
proof (induction xs arbitrary: m)
  case (Cons y ys)
  show ?case
  proof (cases "x \<in> set ys")
    case True
    with Cons show ?thesis by (simp add: inj_on_insert)
  next
    case False
    with Cons.prems have "x = y" "key x \<notin> key ` set ys" by (auto simp: inj_on_def)
    then show ?thesis by (simp add: map_of_fold_jset_None)
  qed
qed simp

lemma map_of_of_keys:
  "inj_on key (set xs) \<Longrightarrow> x \<in> set xs \<Longrightarrow> map_of (of_keys key xs) (key x) = Some x"
  unfolding of_keys_def by (rule map_of_fold_jset_inj)

lemma map_of_fold_jset_SomeD:
  "map_of (fold (\<lambda>x m. jset (key x) x m) xs m) k = Some y \<Longrightarrow>
     (y \<in> set xs \<and> key y = k) \<or> map_of m k = Some y"
  by (induction xs arbitrary: m) (fastforce split: if_splits)+

lemma map_of_of_keysD:
  "map_of (of_keys key xs) k = Some y \<Longrightarrow> y \<in> set xs \<and> key y = k"
  unfolding of_keys_def by (drule map_of_fold_jset_SomeD) simp

section \<open>Stable sorting under a comparator\<close>

text \<open>
  \<open>le x y\<close> stands for \<open>compare(x, y) <= 0\<close>. Node's \<open>Array.prototype.sort\<close> is stable;
  for a comparator that is a total preorder the stable sorted permutation is unique.
\<close>

fun insort_by :: "('a \<Rightarrow> 'a \<Rightarrow> bool) \<Rightarrow> 'a \<Rightarrow> 'a list \<Rightarrow> 'a list" where
  "insort_by le x [] = [x]"
| "insort_by le x (y # ys) = (if le x y then x # y # ys else y # insort_by le x ys)"

definition sort_by :: "('a \<Rightarrow> 'a \<Rightarrow> bool) \<Rightarrow> 'a list \<Rightarrow> 'a list" where
  "sort_by le xs = foldr (insort_by le) xs []"

definition total_preorder :: "('a \<Rightarrow> 'a \<Rightarrow> bool) \<Rightarrow> bool" where
  "total_preorder le \<longleftrightarrow> (\<forall>x y. le x y \<or> le y x) \<and> (\<forall>x y z. le x y \<longrightarrow> le y z \<longrightarrow> le x z)"

lemma mset_insort_by [simp]: "mset (insort_by le x xs) = add_mset x (mset xs)"
  by (induction xs) auto

lemma mset_sort_by [simp]: "mset (sort_by le xs) = mset xs"
  unfolding sort_by_def by (induction xs) auto

lemma set_sort_by [simp]: "set (sort_by le xs) = set xs"
  using mset_sort_by [of le xs] by (rule mset_eq_setD)

lemma set_insort_by [simp]: "set (insort_by le x xs) = insert x (set xs)"
  by (induction xs) auto

lemma length_sort_by [simp]: "length (sort_by le xs) = length xs"
  using mset_sort_by [of le xs] by (rule mset_eq_length)

lemma distinct_sort_by [simp]: "distinct (sort_by le xs) = distinct xs"
  using mset_sort_by [of le xs] by (rule mset_eq_imp_distinct_iff)

lemma sort_by_Nil_iff [simp]: "sort_by le xs = [] \<longleftrightarrow> xs = []"
  by (metis length_0_conv length_sort_by)

lemma sorted_insort_by:
  "total_preorder le \<Longrightarrow> sorted_wrt le xs \<Longrightarrow> sorted_wrt le (insort_by le x xs)"
  by (induction xs) (auto simp: total_preorder_def; meson)+

lemma sorted_sort_by: "total_preorder le \<Longrightarrow> sorted_wrt le (sort_by le xs)"
  unfolding sort_by_def by (induction xs) (auto intro: sorted_insort_by)

lemma insort_by_below: "(\<forall>y \<in> set ys. le x y) \<Longrightarrow> insort_by le x ys = x # ys"
  by (cases ys) auto

lemma sort_by_sorted: "sorted_wrt le xs \<Longrightarrow> sort_by le xs = xs"
  by (induction xs) (auto simp: sort_by_def insort_by_below)

text \<open>Comparators combined with \<open>||\<close>: the second decides where the first ties.\<close>

definition then_by :: "('a \<Rightarrow> 'a \<Rightarrow> bool) \<Rightarrow> ('a \<Rightarrow> 'a \<Rightarrow> bool) \<Rightarrow> 'a \<Rightarrow> 'a \<Rightarrow> bool" where
  "then_by le1 le2 x y \<longleftrightarrow> le1 x y \<and> (\<not> le1 y x \<or> le2 x y)"

lemma total_preorder_then_by:
  assumes "total_preorder le1" "total_preorder le2"
  shows "total_preorder (then_by le1 le2)"
  using assms unfolding total_preorder_def then_by_def by meson

lemma total_preorder_key: "total_preorder le \<Longrightarrow> total_preorder (\<lambda>x y. le (f x) (f y))"
  unfolding total_preorder_def by meson

lemma hd_sort_by_least:
  assumes "total_preorder le" "x \<in> set xs"
  shows "le (hd (sort_by le xs)) x"
proof -
  from assms(1) have refl: "le y y" for y unfolding total_preorder_def by blast
  have "x \<in> set (sort_by le xs)" using assms(2) by simp
  moreover have "sorted_wrt le (sort_by le xs)" using assms(1) by (rule sorted_sort_by)
  ultimately show ?thesis using refl by (cases "sort_by le xs") auto
qed

section \<open>Decimal printing\<close>

definition digit_char :: "nat \<Rightarrow> char" where
  "digit_char d = char_of (48 + d)"

fun show_nat :: "nat \<Rightarrow> string" where
  "show_nat n = (if n < 10 then [digit_char n] else show_nat (n div 10) @ [digit_char (n mod 10)])"

declare show_nat.simps [simp del]

definition show_int :: "int \<Rightarrow> string" where
  "show_int i = (if i < 0 then CHR ''-'' # show_nat (nat (- i)) else show_nat (nat i))"

definition is_digit :: "char \<Rightarrow> bool" where
  "is_digit c \<longleftrightarrow> 48 \<le> (of_char c :: nat) \<and> (of_char c :: nat) \<le> 57"

fun read_nat :: "string \<Rightarrow> nat" where
  "read_nat s = foldl (\<lambda>n c. 10 * n + ((of_char c :: nat) - 48)) 0 s"

lemma of_char_digit: "d < 10 \<Longrightarrow> (of_char (digit_char d) :: nat) = 48 + d"
  by (simp add: digit_char_def of_char_of)

lemma is_digit_digit_char: "d < 10 \<Longrightarrow> is_digit (digit_char d)"
  by (simp add: is_digit_def of_char_digit)

lemma show_nat_digits: "list_all is_digit (show_nat n)"
proof (induction n rule: show_nat.induct)
  case (1 n)
  then show ?case
    by (subst show_nat.simps) (auto simp: is_digit_digit_char)
qed

lemma show_nat_nonempty [simp]: "show_nat n \<noteq> []"
  by (subst show_nat.simps) simp

lemma read_show_nat: "read_nat (show_nat n) = n"
proof (induction n rule: show_nat.induct)
  case (1 n)
  show ?case
  proof (cases "n < 10")
    case True
    then show ?thesis by (subst show_nat.simps) (simp add: of_char_digit)
  next
    case False
    with 1 have ih: "read_nat (show_nat (n div 10)) = n div 10" by blast
    have "read_nat (show_nat n) = 10 * read_nat (show_nat (n div 10)) + n mod 10"
      using False by (subst show_nat.simps) (simp add: of_char_digit)
    then show ?thesis using ih by simp
  qed
qed

lemma show_nat_length: "n < 10 ^ k \<Longrightarrow> 0 < k \<Longrightarrow> length (show_nat n) \<le> k"
proof (induction n arbitrary: k rule: show_nat.induct)
  case (1 n)
  show ?case
  proof (cases "n < 10")
    case True
    with "1.prems" show ?thesis by (subst show_nat.simps) simp
  next
    case False
    from False "1.prems" obtain j where k: "k = Suc j" "0 < j"
      by (cases k; cases "k - 1") auto
    with "1.prems" have "n div 10 < 10 ^ j" by (simp add: less_mult_imp_div_less mult.commute)
    with "1.IH" [OF False _ k(2)] have "length (show_nat (n div 10)) \<le> j" by simp
    then show ?thesis using False k by (subst show_nat.simps) simp
  qed
qed

lemma show_nat_inj [simp]: "show_nat m = show_nat n \<longleftrightarrow> m = n"
  by (metis read_show_nat)

lemma show_int_inj_pos: "0 \<le> i \<Longrightarrow> 0 \<le> j \<Longrightarrow> show_int i = show_int j \<longleftrightarrow> i = j"
  by (simp add: show_int_def eq_nat_nat_iff)

text \<open>A separator that is not in the left parts splits a concatenation uniquely.\<close>

lemma sep_split:
  assumes "c \<notin> set a" "c \<notin> set b" "a @ c # x = b @ c # y"
  shows "a = b \<and> x = y"
  using assms
proof (induction a arbitrary: b)
  case Nil
  then show ?case by (cases b) auto
next
  case (Cons h t)
  then show ?case by (cases b) auto
qed

section \<open>Operations that keep an invariant\<close>

text \<open>
  The contract of a stateful component: a starting state, operations that take a state to
  a result, and an invariant every successful operation keeps. A run is the list of
  admissible operations applied in order, a failed one leaving the state as it was (the source throws
  before it assigns).
\<close>

locale machine =
  fixes start :: "'s" and op :: "'o \<Rightarrow> 's \<Rightarrow> ('e, 's) result" and ok :: "'o \<Rightarrow> bool"
    and inv :: "'s \<Rightarrow> bool"
  assumes inv_start: "inv start"
    and inv_op: "inv s \<Longrightarrow> ok x \<Longrightarrow> op x s = Inr s' \<Longrightarrow> inv s'"
begin

definition after :: "'s \<Rightarrow> 'o \<Rightarrow> 's" where
  "after s x = (case op x s of Inl _ \<Rightarrow> s | Inr s' \<Rightarrow> s')"

lemma after_inv: "inv s \<Longrightarrow> ok x \<Longrightarrow> inv (after s x)"
  by (auto simp: after_def inv_op split: sum.splits)

lemma run_inv_from: "inv s \<Longrightarrow> list_all ok xs \<Longrightarrow> inv (foldl after s xs)"
  by (induction xs arbitrary: s) (auto simp: after_inv)

lemma run_inv: "list_all ok xs \<Longrightarrow> inv (foldl after start xs)"
  by (rule run_inv_from [OF inv_start])

end

end
