(* ===== verification/Canonical_Json.thy ===== *)
theory Canonical_Json
  imports Prelude
begin

text \<open>
  Canonical JSON of \<open>src/research/artifacts/types.ts\<close> (\<open>canonicalJson\<close>,
  \<open>serializeCanonical\<close>, \<open>hashResearchArtifactContent\<close>): the text that content hashes are
  computed from. Values are the acyclic JavaScript values an artifact can carry; a finite
  number is an integer below \<open>10 ^ 21\<close> in magnitude, negative zero, or any other finite
  number represented by the decimal text \<open>Number::toString\<close> gives it. An object is the list
  of its own enumerable entries in \<open>Object.keys\<close> order. Characters are the UTF-16 code
  units below 256.
\<close>

section \<open>Values\<close>

datatype js =
    JNull
  | JBool bool
  | JInt int
  | JNegZero
  | JDec string
  | JNonFinite
  | JStr string
  | JArr "js list"
  | JObj "(string \<times> js) list"
  | JUndefined
  | JOther

text \<open>
  What the functions take from the platform: the hex digest of \<open>node:crypto\<close>'s SHA-256,
  \<open>localeCompare(_, "en") <= 0\<close> of the ICU collation, and whether \<open>Date.parse\<close> understands
  a text.
\<close>

record platform =
  pf_sha256 :: "string \<Rightarrow> string"
  pf_le :: "string \<Rightarrow> string \<Rightarrow> bool"
  pf_date_ok :: "string \<Rightarrow> bool"

section \<open>Strings\<close>

definition hex_char :: "nat \<Rightarrow> char" where
  "hex_char d = (if d < 10 then digit_char d else char_of (87 + d))"

definition escape_char :: "char \<Rightarrow> string" where
  "escape_char c =
     (if c = CHR 0x22 then [CHR 0x5C, CHR 0x22]
      else if c = CHR 0x5C then [CHR 0x5C, CHR 0x5C]
      else if c = CHR 0x08 then [CHR 0x5C, CHR ''b'']
      else if c = CHR 0x09 then [CHR 0x5C, CHR ''t'']
      else if c = CHR 0x0A then [CHR 0x5C, CHR ''n'']
      else if c = CHR 0x0C then [CHR 0x5C, CHR ''f'']
      else if c = CHR 0x0D then [CHR 0x5C, CHR ''r'']
      else if (of_char c :: nat) < 32
        then [CHR 0x5C, CHR ''u'', CHR ''0'', CHR ''0'',
              hex_char ((of_char c :: nat) div 16), hex_char ((of_char c :: nat) mod 16)]
      else [c])"

text \<open>\<open>JSON.stringify\<close> of a string.\<close>

definition json_quote :: "string \<Rightarrow> string" where
  "json_quote s = CHR 0x22 # concat (map escape_char s) @ [CHR 0x22]"

section \<open>Serialisation\<close>

datatype canon_error = Non_finite_number | Undefined_entry | Unsupported_value

definition join_comma :: "string list \<Rightarrow> string" where
  "join_comma xs = (case xs of [] \<Rightarrow> [] | y # ys \<Rightarrow> y @ concat (map (\<lambda>z. CHR '','' # z) ys))"

lemma traverse_cong [fundef_cong]:
  "xs = ys \<Longrightarrow> (\<And>x. x \<in> set ys \<Longrightarrow> f x = g x) \<Longrightarrow> traverse f xs = traverse g ys"
proof (induction xs arbitrary: ys)
  case (Cons x xs)
  then show ?case by (cases ys) (auto intro!: rbind_cong)
qed simp

lemma size_list_entry:
  "(k, v) \<in> set es \<Longrightarrow> size v < Suc (size_list (size_prod (\<lambda>x. 0) size) es)"
  by (induction es) auto

text \<open>
  The keys are sorted first, then the entries are serialised in that order, so that the
  first entry that throws is the one the code reports. The ancestor set of the source
  detects cyclic values, which this datatype does not have.
\<close>

function (sequential) serializeCanonical ::
  "(string \<Rightarrow> string \<Rightarrow> bool) \<Rightarrow> js \<Rightarrow> (canon_error, string) result" where
  "serializeCanonical le JNull = Inr ''null''"
| "serializeCanonical le (JStr s) = Inr (json_quote s)"
| "serializeCanonical le (JBool b) = Inr (if b then ''true'' else ''false'')"
| "serializeCanonical le (JInt i) = Inr (show_int i)"
| "serializeCanonical le JNegZero = Inr ''0''"
| "serializeCanonical le (JDec s) = Inr s"
| "serializeCanonical le JNonFinite = Inl Non_finite_number"
| "serializeCanonical le (JArr vs) =
     rbind (traverse (serializeCanonical le) vs)
       (\<lambda>ts. Inr (CHR ''['' # join_comma ts @ [CHR '']'']))"
| "serializeCanonical le (JObj es) =
     rbind (traverse (\<lambda>e. if snd e = JUndefined then Inl Undefined_entry
                          else rmap (\<lambda>t. json_quote (fst e) @ CHR '':'' # t)
                                 (serializeCanonical le (snd e)))
              (sort_by (\<lambda>e f. le (fst e) (fst f)) es))
       (\<lambda>ts. Inr (CHR ''{'' # join_comma ts @ [CHR ''}'']))"
| "serializeCanonical le JUndefined = Inl Unsupported_value"
| "serializeCanonical le JOther = Inl Unsupported_value"
  by pat_completeness auto
termination
proof (relation "measure (\<lambda>(le, v). size v)", goal_cases)
  case 1
  show ?case by simp
next
  case (2 le vs x)
  then show ?case by (induction vs) auto
next
  case (3 le es e)
  then have "(fst e, snd e) \<in> set es" by simp
  from size_list_entry [OF this] show ?case by simp
qed

definition canonicalJson :: "platform \<Rightarrow> js \<Rightarrow> (canon_error, string) result" where
  "canonicalJson pf v = serializeCanonical (pf_le pf) v"

definition hashResearchArtifactContent :: "platform \<Rightarrow> js \<Rightarrow> (canon_error, string) result" where
  "hashResearchArtifactContent pf v =
     rmap (\<lambda>t. ''sha256:'' @ pf_sha256 pf t) (canonicalJson pf v)"

section \<open>Which values serialise\<close>

fun js_ok :: "js \<Rightarrow> bool" where
  "js_ok (JArr vs) \<longleftrightarrow> list_all js_ok vs"
| "js_ok (JObj es) \<longleftrightarrow> list_all (\<lambda>e. js_ok (snd e)) es"
| "js_ok JNonFinite \<longleftrightarrow> False"
| "js_ok JUndefined \<longleftrightarrow> False"
| "js_ok JOther \<longleftrightarrow> False"
| "js_ok v \<longleftrightarrow> True"

lemma traverse_total:
  "(\<And>x. x \<in> set xs \<Longrightarrow> \<exists>y. f x = Inr y) \<Longrightarrow> \<exists>ys. traverse f xs = Inr ys"
  by (induction xs) fastforce+

lemma traverse_InrD: "traverse f xs = Inr ys \<Longrightarrow> x \<in> set xs \<Longrightarrow> \<exists>y. f x = Inr y"
  by (induction xs arbitrary: ys) (auto simp: rbind_eq_Inr)

lemma serialize_total: "js_ok v \<Longrightarrow> \<exists>t. serializeCanonical le v = Inr t"
proof (induction le v rule: serializeCanonical.induct)
  case (8 le vs)
  then have "\<exists>ts. traverse (serializeCanonical le) vs = Inr ts"
    by (intro traverse_total) (auto simp: list_all_iff)
  then show ?case by auto
next
  case (9 le es)
  have "\<exists>ts. traverse (\<lambda>e. if snd e = JUndefined then Inl Undefined_entry
                  else rmap (\<lambda>t. json_quote (fst e) @ CHR '':'' # t)
                                 (serializeCanonical le (snd e)))
              (sort_by (\<lambda>e f. le (fst e) (fst f)) es) = Inr ts"
  proof (rule traverse_total)
    fix e assume e: "e \<in> set (sort_by (\<lambda>e f. le (fst e) (fst f)) es)"
    then have "js_ok (snd e)" using 9 by (auto simp: list_all_iff)
    with "9.IH" [OF e] show "\<exists>y. (if snd e = JUndefined then Inl Undefined_entry
                  else rmap (\<lambda>t. json_quote (fst e) @ CHR '':'' # t)
                                 (serializeCanonical le (snd e))) = Inr y"
      by (cases "snd e = JUndefined") (auto simp: rmap_eq_Inr)
  qed
  then show ?case by auto
qed auto

lemma serialize_Inr_ok: "serializeCanonical le v = Inr t \<Longrightarrow> js_ok v"
proof (induction le v arbitrary: t rule: serializeCanonical.induct)
  case (8 le vs)
  then show ?case by (auto simp: list_all_iff rbind_eq_Inr dest: traverse_InrD)
next
  case (9 le es)
  show ?case
  proof (simp add: list_all_iff, rule ballI)
    fix e assume "e \<in> set es"
    then have e: "e \<in> set (sort_by (\<lambda>e f. le (fst e) (fst f)) es)" by simp
    with 9 obtain y where "(if snd e = JUndefined then Inl Undefined_entry
                  else rmap (\<lambda>t. json_quote (fst e) @ CHR '':'' # t)
                                 (serializeCanonical le (snd e))) = Inr y"
      by (auto simp: rbind_eq_Inr dest: traverse_InrD)
    with "9.IH" [OF e] show "js_ok (snd e)" by (auto simp: rmap_eq_Inr split: if_splits)
  qed
qed auto

lemma serialize_iff: "(\<exists>t. serializeCanonical le v = Inr t) \<longleftrightarrow> js_ok v"
  using serialize_total serialize_Inr_ok by blast

lemma hash_total: "js_ok v \<Longrightarrow> \<exists>h. hashResearchArtifactContent pf v = Inr h"
  using serialize_total [of v "pf_le pf"]
  by (auto simp: hashResearchArtifactContent_def canonicalJson_def rmap_eq_Inr)

section \<open>JSON.parse\<close>

text \<open>
  The recursive-descent reading of a JSON text. \<open>fuel\<close> bounds the nesting and the number of
  items; the length of the text is enough, since every call consumes a character. Entries of
  an object come back in property order: array-index keys ascending, then the others as
  first written, a repeated key keeping its last value.
\<close>

definition json_space :: "char \<Rightarrow> bool" where
  "json_space c \<longleftrightarrow> c \<in> {CHR 0x20, CHR 0x09, CHR 0x0A, CHR 0x0D}"

definition skip_ws :: "string \<Rightarrow> string" where
  "skip_ws s = dropWhile json_space s"

definition hex_value :: "char \<Rightarrow> nat option" where
  "hex_value c = (let n = (of_char c :: nat) in
     if 48 \<le> n \<and> n \<le> 57 then Some (n - 48)
     else if 97 \<le> n \<and> n \<le> 102 then Some (n - 87)
     else if 65 \<le> n \<and> n \<le> 70 then Some (n - 55) else None)"

definition simple_escape :: "char \<Rightarrow> char option" where
  "simple_escape c =
     (if c \<in> {CHR 0x22, CHR 0x5C, CHR ''/''} then Some c
      else if c = CHR ''b'' then Some (CHR 0x08) else if c = CHR ''f'' then Some (CHR 0x0C)
      else if c = CHR ''n'' then Some (CHR 0x0A) else if c = CHR ''r'' then Some (CHR 0x0D)
      else if c = CHR ''t'' then Some (CHR 0x09) else None)"

fun parse_chars :: "string \<Rightarrow> (string \<times> string) option" where
  "parse_chars [] = None"
| "parse_chars (c # cs) =
     (if c = CHR 0x22 then Some ([], cs)
      else if c = CHR 0x5C then
        (case cs of
           CHR ''u'' # a # b # d # e # r \<Rightarrow>
             (case (hex_value a, hex_value b, hex_value d, hex_value e) of
                (Some w, Some x, Some y, Some z) \<Rightarrow>
                  if 4096 * w + 256 * x + 16 * y + z < 256
                  then map_option (\<lambda>(s, r'). (char_of (16 * y + z) # s, r')) (parse_chars r)
                  else None
              | _ \<Rightarrow> None)
         | e # r \<Rightarrow>
             (case simple_escape e of None \<Rightarrow> None
              | Some d \<Rightarrow> map_option (\<lambda>(s, r'). (d # s, r')) (parse_chars r))
         | [] \<Rightarrow> None)
      else if (of_char c :: nat) < 32 then None
      else map_option (\<lambda>(s, r'). (c # s, r')) (parse_chars cs))"

definition number_char :: "char \<Rightarrow> bool" where
  "number_char c \<longleftrightarrow> is_digit c \<or> c \<in> {CHR ''-'', CHR ''+'', CHR ''.'', CHR ''e'', CHR ''E''}"

definition read_number :: "string \<Rightarrow> js option" where
  "read_number s =
     (if s = ''-0'' then Some JNegZero
      else if s \<noteq> [] \<and> list_all is_digit s \<and> (s = ''0'' \<or> hd s \<noteq> CHR ''0'') \<and> length s \<le> 21
        then Some (JInt (int (read_nat s)))
      else if length s \<ge> 2 \<and> hd s = CHR ''-'' \<and> list_all is_digit (tl s) \<and> hd (tl s) \<noteq> CHR ''0''
              \<and> length s \<le> 22
        then Some (JInt (- int (read_nat (tl s))))
      else if s \<noteq> [] \<and> (CHR ''.'' \<in> set s \<or> CHR ''e'' \<in> set s \<or> CHR ''E'' \<in> set s)
        then Some (JDec s)
      else None)"

definition is_index_key :: "string \<Rightarrow> bool" where
  "is_index_key k \<longleftrightarrow> k \<noteq> [] \<and> list_all is_digit k \<and> (k = ''0'' \<or> hd k \<noteq> CHR ''0'')
     \<and> read_nat k < 4294967295"

definition property_order :: "(string \<times> js) list \<Rightarrow> (string \<times> js) list" where
  "property_order es =
     sort_by (\<lambda>e f. read_nat (fst e) \<le> read_nat (fst f)) (filter (\<lambda>e. is_index_key (fst e)) es)
     @ filter (\<lambda>e. \<not> is_index_key (fst e)) es"

fun parse_value :: "nat \<Rightarrow> string \<Rightarrow> (js \<times> string) option"
  and parse_elements :: "nat \<Rightarrow> string \<Rightarrow> (js list \<times> string) option"
  and parse_members :: "nat \<Rightarrow> string \<Rightarrow> ((string \<times> js) list \<times> string) option" where
  "parse_value 0 s = None"
| "parse_value (Suc n) s =
     (let t = skip_ws s in
      if take 4 t = ''null'' then Some (JNull, drop 4 t)
      else if take 4 t = ''true'' then Some (JBool True, drop 4 t)
      else if take 5 t = ''false'' then Some (JBool False, drop 5 t)
      else case t of
        [] \<Rightarrow> None
      | c # r \<Rightarrow>
          if c = CHR 0x22 then map_option (\<lambda>(x, q). (JStr x, q)) (parse_chars r)
          else if c = CHR ''['' then
            (case skip_ws r of CHR '']'' # q \<Rightarrow> Some (JArr [], q)
             | _ \<Rightarrow> map_option (\<lambda>(vs, q). (JArr vs, q)) (parse_elements n r))
          else if c = CHR ''{'' then
            (case skip_ws r of CHR ''}'' # q \<Rightarrow> Some (JObj [], q)
             | _ \<Rightarrow> map_option (\<lambda>(es, q). (JObj (property_order
                       (foldl (\<lambda>m e. jset (fst e) (snd e) m) [] es)), q)) (parse_members n r))
          else map_option (\<lambda>v. (v, dropWhile number_char t)) (read_number (takeWhile number_char t)))"
| "parse_elements 0 s = None"
| "parse_elements (Suc n) s =
     (case parse_value n s of None \<Rightarrow> None
      | Some (v, r) \<Rightarrow>
          (case skip_ws r of
             CHR '','' # q \<Rightarrow> map_option (\<lambda>(vs, z). (v # vs, z)) (parse_elements n q)
           | CHR '']'' # q \<Rightarrow> Some ([v], q)
           | _ \<Rightarrow> None))"
| "parse_members 0 s = None"
| "parse_members (Suc n) s =
     (case skip_ws s of
        CHR 0x22 # r \<Rightarrow>
          (case parse_chars r of None \<Rightarrow> None
           | Some (k, q) \<Rightarrow>
               (case skip_ws q of
                  CHR '':'' # p \<Rightarrow>
                    (case parse_value n p of None \<Rightarrow> None
                     | Some (v, z) \<Rightarrow>
                         (case skip_ws z of
                            CHR '','' # y \<Rightarrow> map_option (\<lambda>(es, x). ((k, v) # es, x)) (parse_members n y)
                          | CHR ''}'' # y \<Rightarrow> Some ([(k, v)], y)
                          | _ \<Rightarrow> None))
                | _ \<Rightarrow> None))
      | _ \<Rightarrow> None)"

definition json_parse :: "string \<Rightarrow> js option" where
  "json_parse s =
     (case parse_value (2 * length s + 2) s of
        None \<Rightarrow> None
      | Some (v, r) \<Rightarrow> if skip_ws r = [] then Some v else None)"

section \<open>JSON.stringify with an indent of two, and its size in UTF-8\<close>

fun omitted :: "js \<Rightarrow> bool" where
  "omitted JUndefined = True"
| "omitted JOther = True"
| "omitted _ = False"

definition newline_indent :: "nat \<Rightarrow> string" where
  "newline_indent d = CHR 0x0A # replicate (2 * d) (CHR 0x20)"

fun pretty :: "nat \<Rightarrow> js \<Rightarrow> string" where
  "pretty d JNull = ''null''"
| "pretty d (JBool b) = (if b then ''true'' else ''false'')"
| "pretty d (JInt i) = show_int i"
| "pretty d JNegZero = ''0''"
| "pretty d (JDec s) = s"
| "pretty d JNonFinite = ''null''"
| "pretty d (JStr s) = json_quote s"
| "pretty d (JArr vs) =
     (if vs = [] then ''[]''
      else CHR ''['' # join_comma (map (\<lambda>v. newline_indent (Suc d) @ pretty (Suc d) v) vs)
           @ newline_indent d @ [CHR '']''])"
| "pretty d (JObj es) =
     (let ts = map (\<lambda>e. newline_indent (Suc d) @ json_quote (fst e) @ CHR '':'' # CHR 0x20
                          # pretty (Suc d) (snd e))
                 (filter (\<lambda>e. \<not> omitted (snd e)) es) in
      if ts = [] then ''{}''
      else CHR ''{'' # join_comma ts @ newline_indent d @ [CHR ''}''])"
| "pretty d JUndefined = ''null''"
| "pretty d JOther = ''null''"

definition utf8_length :: "string \<Rightarrow> nat" where
  "utf8_length s = sum_list (map (\<lambda>c. if (of_char c :: nat) < 128 then 1 else 2) s)"

section \<open>Date.prototype.toISOString\<close>

definition pad_left :: "nat \<Rightarrow> string \<Rightarrow> string" where
  "pad_left n s = replicate (n - length s) (CHR ''0'') @ s"

definition show_pad :: "nat \<Rightarrow> int \<Rightarrow> string" where
  "show_pad n i = pad_left n (show_nat (nat i))"

text \<open>Year, month and day of a day number counted from 1 January 1970.\<close>

definition civil_from_days :: "int \<Rightarrow> int \<times> int \<times> int" where
  "civil_from_days day =
     (let z = day + 719468;
          era = z div 146097;
          doe = z mod 146097;
          yoe = (doe - doe div 1460 + doe div 36524 - doe div 146096) div 365;
          doy = doe - (365 * yoe + yoe div 4 - yoe div 100);
          mp = (5 * doy + 2) div 153;
          d = doy - (153 * mp + 2) div 5 + 1;
          m = (if mp < 10 then mp + 3 else mp - 9);
          y = yoe + era * 400 + (if m \<le> 2 then 1 else 0)
      in (y, m, d))"

definition iso_year :: "int \<Rightarrow> string" where
  "iso_year y = (if 0 \<le> y \<and> y \<le> 9999 then show_pad 4 y
                 else if y < 0 then CHR ''-'' # show_pad 6 (- y) else CHR ''+'' # show_pad 6 y)"

definition iso_string :: "int \<Rightarrow> string" where
  "iso_string ms =
     (let day = ms div 86400000; t = ms mod 86400000 in
      case civil_from_days day of (y, m, d) \<Rightarrow>
        iso_year y @ CHR ''-'' # show_pad 2 m @ CHR ''-'' # show_pad 2 d @ CHR ''T''
        # show_pad 2 (t div 3600000) @ CHR '':'' # show_pad 2 (t div 60000 mod 60) @ CHR '':''
        # show_pad 2 (t div 1000 mod 60) @ CHR ''.'' # show_pad 3 (t mod 1000) @ [CHR ''Z''])"

end
