(* ===== verification/Artifact_Types.thy ===== *)
theory Artifact_Types
  imports Canonical_Json
begin

text \<open>
  \<open>src/research/artifacts/types.ts\<close>: artifact kinds, references, envelopes, the key of a
  revision and the constructor \<open>createResearchArtifact\<close> with its normalisation of
  parents, sources and producer. Dates the code keeps as ISO texts produced by
  \<open>Date.toISOString\<close> are milliseconds since the epoch here.
\<close>

section \<open>Enumerations\<close>

datatype artifact_kind =
    Evidence_pack | Candidate_portfolio | Literature_novelty_rescan | Challenge_report
  | Decision_record | Research_brief | Method_spec | Implementation_snapshot
  | Experiment_spec | Execution_grant | Run_attempt | Baseline_observation
  | Metric_observation | Figure_table | Citation_set | Manuscript_version | Render_run
  | Review_round | Finding | Revision_decision

datatype ref_kind = Stored artifact_kind | Claim_node

datatype artifact_status = Active | Stale | Superseded | Rejected | Archived

datatype relation = Derived_from | Uses | Supports | Challenges | Supersedes

datatype producer_kind = User | Agent | Tool | Import

datatype invalidation_reason =
  Upstream_changed | Evidence_withdrawn | Run_failed | Review_finding | Manual

fun kind_text :: "artifact_kind \<Rightarrow> string" where
  "kind_text Evidence_pack = ''evidence_pack''"
| "kind_text Candidate_portfolio = ''candidate_portfolio''"
| "kind_text Literature_novelty_rescan = ''literature_novelty_rescan''"
| "kind_text Challenge_report = ''challenge_report''"
| "kind_text Decision_record = ''decision_record''"
| "kind_text Research_brief = ''research_brief''"
| "kind_text Method_spec = ''method_spec''"
| "kind_text Implementation_snapshot = ''implementation_snapshot''"
| "kind_text Experiment_spec = ''experiment_spec''"
| "kind_text Execution_grant = ''execution_grant''"
| "kind_text Run_attempt = ''run_attempt''"
| "kind_text Baseline_observation = ''baseline_observation''"
| "kind_text Metric_observation = ''metric_observation''"
| "kind_text Figure_table = ''figure_table''"
| "kind_text Citation_set = ''citation_set''"
| "kind_text Manuscript_version = ''manuscript_version''"
| "kind_text Render_run = ''render_run''"
| "kind_text Review_round = ''review_round''"
| "kind_text Finding = ''finding''"
| "kind_text Revision_decision = ''revision_decision''"

fun ref_kind_text :: "ref_kind \<Rightarrow> string" where
  "ref_kind_text (Stored k) = kind_text k"
| "ref_kind_text Claim_node = ''claim''"

fun status_text :: "artifact_status \<Rightarrow> string" where
  "status_text Active = ''active''"
| "status_text Stale = ''stale''"
| "status_text Superseded = ''superseded''"
| "status_text Rejected = ''rejected''"
| "status_text Archived = ''archived''"

fun relation_text :: "relation \<Rightarrow> string" where
  "relation_text Derived_from = ''derived_from''"
| "relation_text Uses = ''uses''"
| "relation_text Supports = ''supports''"
| "relation_text Challenges = ''challenges''"
| "relation_text Supersedes = ''supersedes''"

fun reason_text :: "invalidation_reason \<Rightarrow> string" where
  "reason_text Upstream_changed = ''upstream_changed''"
| "reason_text Evidence_withdrawn = ''evidence_withdrawn''"
| "reason_text Run_failed = ''run_failed''"
| "reason_text Review_finding = ''review_finding''"
| "reason_text Manual = ''manual''"

section \<open>Records\<close>

record artifact_ref =
  ref_id :: string
  ref_revision :: int
  ref_kind :: ref_kind
  ref_hash :: string

record artifact_parent =
  par_relation :: relation
  par_artifact :: artifact_ref

record artifact_producer =
  prod_kind :: producer_kind
  prod_id :: "string option"
  prod_tool :: "string option"

record artifact_source =
  src_id :: string
  src_record :: "string option"
  src_locator :: "string option"
  src_retrieved :: "string option"
  src_hash :: "string option"

record artifact_invalidation =
  inval_at :: int
  inval_reason :: invalidation_reason
  inval_roots :: "artifact_ref list"

record envelope =
  art_id :: string
  art_revision :: int
  art_kind :: artifact_kind
  art_status :: artifact_status
  art_created :: int
  art_updated :: int
  art_hash :: string
  art_producer :: artifact_producer
  art_parents :: "artifact_parent list"
  art_sources :: "artifact_source list"
  art_invalidation :: "artifact_invalidation option"
  art_payload :: js

record create_input =
  ci_kind :: artifact_kind
  ci_payload :: js
  ci_producer :: artifact_producer
  ci_parents :: "artifact_parent list option"
  ci_sources :: "artifact_source list option"
  ci_id :: "string option"
  ci_revision :: "int option"
  ci_status :: "artifact_status option"
  ci_now :: int

section \<open>Keys and references\<close>

definition artifact_key :: "string \<Rightarrow> int \<Rightarrow> string" where
  "artifact_key i r = i @ CHR ''@'' # show_int r"

definition researchArtifactKey :: "artifact_ref \<Rightarrow> string" where
  "researchArtifactKey r = artifact_key (ref_id r) (ref_revision r)"

definition envelope_key :: "envelope \<Rightarrow> string" where
  "envelope_key a = artifact_key (art_id a) (art_revision a)"

definition toResearchArtifactRef :: "envelope \<Rightarrow> artifact_ref" where
  "toResearchArtifactRef a =
     \<lparr>ref_id = art_id a, ref_revision = art_revision a, ref_kind = Stored (art_kind a),
      ref_hash = art_hash a\<rparr>"

lemma key_of_ref [simp]: "researchArtifactKey (toResearchArtifactRef a) = envelope_key a"
  by (simp add: researchArtifactKey_def envelope_key_def toResearchArtifactRef_def)

section \<open>Scalar checks\<close>

datatype artifact_error =
    Bad_text string
  | Bad_identifier string
  | Bad_integer string
  | Bad_date string
  | Bad_hash string
  | Duplicate_parent string
  | Uncanonical canon_error

text \<open>The white space \<open>String.prototype.trim\<close> removes, below code unit 256.\<close>

definition is_space :: "char \<Rightarrow> bool" where
  "is_space c \<longleftrightarrow> (of_char c :: nat) \<in> {9, 10, 11, 12, 13, 32, 160}"

definition js_trim :: "string \<Rightarrow> string" where
  "js_trim s = rev (dropWhile is_space (rev (dropWhile is_space s)))"

definition text_ok :: "string \<Rightarrow> bool" where
  "text_ok v \<longleftrightarrow> js_trim v \<noteq> [] \<and> v = js_trim v \<and> CHR 0x00 \<notin> set v \<and> length v \<le> 16000"

definition requireText :: "string \<Rightarrow> string \<Rightarrow> (artifact_error, string) result" where
  "requireText v label = (if text_ok v then Inr v else Inl (Bad_text label))"

definition is_upper :: "char \<Rightarrow> bool" where
  "is_upper c \<longleftrightarrow> 65 \<le> (of_char c :: nat) \<and> (of_char c :: nat) \<le> 90"

definition is_lower :: "char \<Rightarrow> bool" where
  "is_lower c \<longleftrightarrow> 97 \<le> (of_char c :: nat) \<and> (of_char c :: nat) \<le> 122"

definition is_alnum :: "char \<Rightarrow> bool" where
  "is_alnum c \<longleftrightarrow> is_upper c \<or> is_lower c \<or> is_digit c"

text \<open>The pattern \<open>[A-Za-z0-9][A-Za-z0-9._:-]*\<close>, anchored at both ends.\<close>

definition id_char :: "char \<Rightarrow> bool" where
  "id_char c \<longleftrightarrow> is_alnum c \<or> c \<in> {CHR ''.'', CHR ''_'', CHR '':'', CHR ''-''}"

definition id_pattern :: "string \<Rightarrow> bool" where
  "id_pattern s = (case s of [] \<Rightarrow> False | c # cs \<Rightarrow> is_alnum c \<and> list_all id_char cs)"

definition requireIdentifier :: "string \<Rightarrow> string \<Rightarrow> (artifact_error, string) result" where
  "requireIdentifier v label =
     rbind (requireText v label)
       (\<lambda>n. if length n > 256 \<or> \<not> id_pattern n then Inl (Bad_identifier label) else Inr n)"

definition max_safe_integer :: int where
  "max_safe_integer = 9007199254740991"

definition requirePositiveInteger :: "int \<Rightarrow> string \<Rightarrow> (artifact_error, int) result" where
  "requirePositiveInteger v label =
     (if v > max_safe_integer \<or> v < 1 then Inl (Bad_integer label) else Inr v)"

definition is_hex :: "char \<Rightarrow> bool" where
  "is_hex c \<longleftrightarrow> is_digit c \<or> (97 \<le> (of_char c :: nat) \<and> (of_char c :: nat) \<le> 102)"

definition hash_ok :: "string \<Rightarrow> bool" where
  "hash_ok s \<longleftrightarrow> take 7 s = ''sha256:'' \<and> length (drop 7 s) = 64 \<and> list_all is_hex (drop 7 s)"

definition requireHash :: "string \<Rightarrow> string \<Rightarrow> (artifact_error, string) result" where
  "requireHash v label = (if hash_ok v then Inr v else Inl (Bad_hash label))"

definition requireIsoDate :: "platform \<Rightarrow> string \<Rightarrow> string \<Rightarrow> (artifact_error, string) result" where
  "requireIsoDate pf v label = (if pf_date_ok pf v then Inr v else Inl (Bad_date label))"

definition optional :: "('a \<Rightarrow> ('e, 'a) result) \<Rightarrow> 'a option \<Rightarrow> ('e, 'a option) result" where
  "optional f m = (case m of None \<Rightarrow> Inr None | Some x \<Rightarrow> rmap Some (f x))"

section \<open>Normalisation of references, parents, sources and producers\<close>

definition normalizeRef :: "artifact_ref \<Rightarrow> (artifact_error, artifact_ref) result" where
  "normalizeRef r =
     rbind (requireIdentifier (ref_id r) ''artifact reference ID'') (\<lambda>i.
     rbind (requirePositiveInteger (ref_revision r) ''artifact reference revision'') (\<lambda>n.
     rbind (requireHash (ref_hash r) ''artifact reference contentHash'') (\<lambda>h.
       Inr \<lparr>ref_id = i, ref_revision = n, ref_kind = ref_kind r, ref_hash = h\<rparr>)))"

definition parent_identity :: "relation \<Rightarrow> artifact_ref \<Rightarrow> string" where
  "parent_identity rel a = relation_text rel @ CHR '':'' # researchArtifactKey a"

fun normalize_parents_from ::
  "string list \<Rightarrow> artifact_parent list \<Rightarrow> (artifact_error, artifact_parent list) result" where
  "normalize_parents_from seen [] = Inr []"
| "normalize_parents_from seen (p # ps) =
     rbind (normalizeRef (par_artifact p)) (\<lambda>a.
       let identity = parent_identity (par_relation p) a in
       if identity \<in> set seen then Inl (Duplicate_parent identity)
       else rbind (normalize_parents_from (sadd identity seen) ps) (\<lambda>qs.
              Inr (\<lparr>par_relation = par_relation p, par_artifact = a\<rparr> # qs)))"

definition normalizeParents :: "artifact_parent list \<Rightarrow> (artifact_error, artifact_parent list) result" where
  "normalizeParents ps = normalize_parents_from [] ps"

definition normalizeSource :: "platform \<Rightarrow> artifact_source \<Rightarrow> (artifact_error, artifact_source) result" where
  "normalizeSource pf s =
     rbind (requireIdentifier (src_id s) ''source.sourceId'') (\<lambda>i.
     rbind (optional (\<lambda>v. requireText v ''source.recordId'') (src_record s)) (\<lambda>r.
     rbind (optional (\<lambda>v. requireText v ''source.locator'') (src_locator s)) (\<lambda>l.
     rbind (optional (\<lambda>v. requireIsoDate pf v ''source.retrievedAt'') (src_retrieved s)) (\<lambda>d.
     rbind (optional (\<lambda>v. requireHash v ''source.contentHash'') (src_hash s)) (\<lambda>h.
       Inr \<lparr>src_id = i, src_record = r, src_locator = l, src_retrieved = d, src_hash = h\<rparr>)))))"

definition normalizeSources ::
  "platform \<Rightarrow> artifact_source list \<Rightarrow> (artifact_error, artifact_source list) result" where
  "normalizeSources pf ss = traverse (normalizeSource pf) ss"

definition normalizeProducer :: "artifact_producer \<Rightarrow> (artifact_error, artifact_producer) result" where
  "normalizeProducer p =
     rbind (optional (\<lambda>v. requireText v ''producer.id'') (prod_id p)) (\<lambda>i.
     rbind (optional (\<lambda>v. requireText v ''producer.toolName'') (prod_tool p)) (\<lambda>t.
       Inr \<lparr>prod_kind = prod_kind p, prod_id = i, prod_tool = t\<rparr>))"

section \<open>The hashed content\<close>

definition ref_json :: "artifact_ref \<Rightarrow> js" where
  "ref_json r = JObj
     [(''artifactId'', JStr (ref_id r)), (''revision'', JInt (ref_revision r)),
      (''kind'', JStr (ref_kind_text (ref_kind r))), (''contentHash'', JStr (ref_hash r))]"

definition parent_json :: "artifact_parent \<Rightarrow> js" where
  "parent_json p = JObj
     [(''relation'', JStr (relation_text (par_relation p))), (''artifact'', ref_json (par_artifact p))]"

definition opt_entry :: "string \<Rightarrow> string option \<Rightarrow> (string \<times> js) list" where
  "opt_entry k m = (case m of None \<Rightarrow> [] | Some v \<Rightarrow> [(k, JStr v)])"

definition source_json :: "artifact_source \<Rightarrow> js" where
  "source_json s = JObj
     ((''sourceId'', JStr (src_id s)) # opt_entry ''recordId'' (src_record s)
      @ opt_entry ''locator'' (src_locator s) @ opt_entry ''retrievedAt'' (src_retrieved s)
      @ opt_entry ''contentHash'' (src_hash s))"

definition content_json ::
  "string \<Rightarrow> int \<Rightarrow> artifact_kind \<Rightarrow> artifact_parent list \<Rightarrow> artifact_source list \<Rightarrow> js \<Rightarrow> js" where
  "content_json i r k ps ss v = JObj
     [(''artifactId'', JStr i), (''revision'', JInt r), (''kind'', JStr (kind_text k)),
      (''parents'', JArr (map parent_json ps)), (''sources'', JArr (map source_json ss)),
      (''payload'', v)]"

definition lift_canon :: "(canon_error, 'a) result \<Rightarrow> (artifact_error, 'a) result" where
  "lift_canon m = (case m of Inl e \<Rightarrow> Inl (Uncanonical e) | Inr x \<Rightarrow> Inr x)"

section \<open>Creating an envelope\<close>

text \<open>
  \<open>uuid\<close> is the value of \<open>randomUUID()\<close>, used when no artifact identifier is supplied.
\<close>

definition createResearchArtifact ::
  "platform \<Rightarrow> string \<Rightarrow> create_input \<Rightarrow> (artifact_error, envelope) result" where
  "createResearchArtifact pf uuid input =
     rbind (requireIdentifier
              (case ci_id input of Some i \<Rightarrow> i
               | None \<Rightarrow> kind_text (ci_kind input) @ CHR ''-'' # uuid) ''artifactId'') (\<lambda>i.
     rbind (requirePositiveInteger
              (case ci_revision input of Some r \<Rightarrow> r | None \<Rightarrow> 1) ''revision'') (\<lambda>r.
     rbind (normalizeParents (case ci_parents input of Some ps \<Rightarrow> ps | None \<Rightarrow> [])) (\<lambda>ps.
     rbind (normalizeSources pf (case ci_sources input of Some ss \<Rightarrow> ss | None \<Rightarrow> [])) (\<lambda>ss.
     rbind (normalizeProducer (ci_producer input)) (\<lambda>pr.
     rbind (lift_canon (hashResearchArtifactContent pf
              (content_json i r (ci_kind input) ps ss (ci_payload input)))) (\<lambda>h.
       Inr \<lparr>art_id = i, art_revision = r, art_kind = ci_kind input,
            art_status = (case ci_status input of Some s \<Rightarrow> s | None \<Rightarrow> Active),
            art_created = ci_now input, art_updated = ci_now input, art_hash = h,
            art_producer = pr, art_parents = ps, art_sources = ss,
            art_invalidation = None, art_payload = ci_payload input\<rparr>))))))"

section \<open>Lemmas\<close>

lemma requireText_eq [simp]: "requireText v l = Inr w \<longleftrightarrow> text_ok v \<and> w = v"
  by (auto simp: requireText_def)

definition id_ok :: "string \<Rightarrow> bool" where
  "id_ok v \<longleftrightarrow> text_ok v \<and> length v \<le> 256 \<and> id_pattern v"

lemma requireIdentifier_eq [simp]: "requireIdentifier v l = Inr w \<longleftrightarrow> id_ok v \<and> w = v"
  by (auto simp: requireIdentifier_def rbind_eq_Inr id_ok_def)

definition revision_ok :: "int \<Rightarrow> bool" where
  "revision_ok r \<longleftrightarrow> 1 \<le> r \<and> r \<le> max_safe_integer"

lemma requirePositiveInteger_eq [simp]:
  "requirePositiveInteger v l = Inr w \<longleftrightarrow> revision_ok v \<and> w = v"
  by (auto simp: requirePositiveInteger_def revision_ok_def)

lemma requireHash_eq [simp]: "requireHash v l = Inr w \<longleftrightarrow> hash_ok v \<and> w = v"
  by (auto simp: requireHash_def)

lemma requireIsoDate_eq [simp]: "requireIsoDate pf v l = Inr w \<longleftrightarrow> pf_date_ok pf v \<and> w = v"
  by (auto simp: requireIsoDate_def)

text \<open>A check that returns its argument, applied to an optional field.\<close>

lemma optional_check:
  "(\<And>x y. f x = Inr y \<longleftrightarrow> P x \<and> y = x) \<Longrightarrow> optional f m = Inr n \<longleftrightarrow> pred_option P m \<and> n = m"
  by (cases m) (auto simp: optional_def rmap_eq_Inr)

definition ref_ok :: "artifact_ref \<Rightarrow> bool" where
  "ref_ok r \<longleftrightarrow> id_ok (ref_id r) \<and> revision_ok (ref_revision r) \<and> hash_ok (ref_hash r)"

lemma normalizeRef_eq [simp]: "normalizeRef r = Inr s \<longleftrightarrow> ref_ok r \<and> s = r"
  by (auto simp: normalizeRef_def rbind_eq_Inr ref_ok_def)

definition parents_ok :: "artifact_parent list \<Rightarrow> bool" where
  "parents_ok ps \<longleftrightarrow> (\<forall>p \<in> set ps. ref_ok (par_artifact p))
     \<and> distinct (map (\<lambda>p. parent_identity (par_relation p) (par_artifact p)) ps)"

lemma normalize_parents_from_eq:
  "normalize_parents_from seen ps = Inr qs \<longleftrightarrow>
     parents_ok ps \<and> qs = ps
     \<and> (\<forall>p \<in> set ps. parent_identity (par_relation p) (par_artifact p) \<notin> set seen)"
  by (induction ps arbitrary: seen qs)
     (auto simp: rbind_eq_Inr parents_ok_def Let_def image_iff)

lemma normalizeParents_eq [simp]: "normalizeParents ps = Inr qs \<longleftrightarrow> parents_ok ps \<and> qs = ps"
  by (simp add: normalizeParents_def normalize_parents_from_eq)

definition source_ok :: "platform \<Rightarrow> artifact_source \<Rightarrow> bool" where
  "source_ok pf s \<longleftrightarrow> id_ok (src_id s) \<and> pred_option text_ok (src_record s)
     \<and> pred_option text_ok (src_locator s) \<and> pred_option (pf_date_ok pf) (src_retrieved s)
     \<and> pred_option hash_ok (src_hash s)"

lemma normalizeSource_eq [simp]: "normalizeSource pf s = Inr t \<longleftrightarrow> source_ok pf s \<and> t = s"
  by (auto simp: normalizeSource_def rbind_eq_Inr source_ok_def
        optional_check [where P = text_ok] optional_check [where P = hash_ok]
        optional_check [where P = "pf_date_ok pf"])

lemma normalizeSources_eq [simp]:
  "normalizeSources pf ss = Inr ts \<longleftrightarrow> (\<forall>s \<in> set ss. source_ok pf s) \<and> ts = ss"
  unfolding normalizeSources_def
  by (induction ss arbitrary: ts) (auto simp: rbind_eq_Inr)

definition producer_ok :: "artifact_producer \<Rightarrow> bool" where
  "producer_ok p \<longleftrightarrow> pred_option text_ok (prod_id p) \<and> pred_option text_ok (prod_tool p)"

lemma normalizeProducer_eq [simp]: "normalizeProducer p = Inr q \<longleftrightarrow> producer_ok p \<and> q = p"
  by (auto simp: normalizeProducer_def rbind_eq_Inr producer_ok_def
        optional_check [where P = text_ok])

lemma lift_canon_eq [simp]: "lift_canon m = Inr x \<longleftrightarrow> m = Inr x"
  by (cases m) (auto simp: lift_canon_def)

text \<open>The key of a revision is injective on well-formed identifiers and revisions.\<close>

lemma not_id_char_at [simp]: "\<not> id_char CHR ''@''"
  by (simp add: id_char_def is_alnum_def is_upper_def is_lower_def is_digit_def)

lemma alnum_id_char: "is_alnum c \<Longrightarrow> id_char c"
  by (simp add: id_char_def)

lemma id_ok_chars: "id_ok i \<Longrightarrow> c \<in> set i \<Longrightarrow> id_char c"
  by (auto simp: id_ok_def id_pattern_def list_all_iff alnum_id_char split: list.splits)

lemma id_ok_not_at: "id_ok i \<Longrightarrow> CHR ''@'' \<notin> set i"
  using id_ok_chars by fastforce

lemma artifact_key_inj:
  assumes "id_ok i" "id_ok j" "revision_ok r" "revision_ok s"
  shows "artifact_key i r = artifact_key j s \<longleftrightarrow> i = j \<and> r = s"
proof
  assume "artifact_key i r = artifact_key j s"
  then have "i = j \<and> show_int r = show_int s"
    unfolding artifact_key_def
    by (rule sep_split [OF id_ok_not_at [OF assms(1)] id_ok_not_at [OF assms(2)]])
  with assms(3,4) show "i = j \<and> r = s" by (simp add: show_int_inj_pos revision_ok_def)
qed simp

section \<open>What the proofs rely on of the platform\<close>

text \<open>
  The collation is a total preorder, and a digest
  is 64 lower-case hexadecimal digits.
\<close>

definition platform_ok :: "platform \<Rightarrow> bool" where
  "platform_ok pf \<longleftrightarrow> total_preorder (pf_le pf)
     \<and> (\<forall>t. length (pf_sha256 pf t) = 64 \<and> list_all is_hex (pf_sha256 pf t))"

lemma platform_hash_ok: "platform_ok pf \<Longrightarrow> hash_ok (''sha256:'' @ pf_sha256 pf t)"
  by (simp add: platform_ok_def hash_ok_def)

lemma hash_InrD:
  assumes "hashResearchArtifactContent pf v = Inr h"
  shows "js_ok v \<and> (\<exists>t. h = ''sha256:'' @ pf_sha256 pf t)"
proof -
  from assms obtain t where "serializeCanonical (pf_le pf) v = Inr t" "h = ''sha256:'' @ pf_sha256 pf t"
    unfolding hashResearchArtifactContent_def rmap_eq_Inr canonicalJson_def by blast
  with serialize_Inr_ok show ?thesis by blast
qed

end
