(* ===== verification/Artifact_Graph.thy ===== *)
theory Artifact_Graph
  imports Artifact_Types
begin

text \<open>
  \<open>src/research/artifacts/graph.ts\<close>: the artifact DAG. \<open>buildResearchArtifactGraph\<close>
  indexes the envelopes, links parents to children, and rejects a cyclic graph by a
  depth-first search; \<open>invalidateResearchArtifactDescendants\<close> walks the causal edges
  breadth-first; \<open>latestResearchArtifactRevisions\<close> keeps the newest revision of each
  artifact.
\<close>

section \<open>Adjacency maps\<close>

type_synonym adjacency = "(string, string list) jmap"

definition kids :: "adjacency \<Rightarrow> string \<Rightarrow> string list" where
  "kids m k = (case jget m k of None \<Rightarrow> [] | Some cs \<Rightarrow> cs)"

text \<open>\<open>m.get(p)?.push(c)\<close>: nothing happens when \<open>p\<close> has no entry.\<close>

definition push_kid :: "string \<Rightarrow> string \<Rightarrow> adjacency \<Rightarrow> adjacency" where
  "push_kid p c m = (case jget m p of None \<Rightarrow> m | Some cs \<Rightarrow> jset p (cs @ [c]) m)"

definition adj_edges :: "adjacency \<Rightarrow> (string \<times> string) set" where
  "adj_edges m = {(p, c). c \<in> set (kids m p)}"

definition adj_nodes :: "adjacency \<Rightarrow> string set" where
  "adj_nodes m = \<Union> (set ` snd ` set m)"

definition sort_kids :: "(string \<Rightarrow> string \<Rightarrow> bool) \<Rightarrow> adjacency \<Rightarrow> adjacency" where
  "sort_kids le m = map (\<lambda>e. (fst e, sort_by le (snd e))) m"

lemma kids_push_kid:
  "kids (push_kid p c m) q =
     (if q = p \<and> p \<in> fst ` set m then kids m q @ [c] else kids m q)"
  by (auto simp: kids_def push_kid_def in_keys_jget split: option.splits)

lemma dom_push_kid [simp]: "fst ` set (push_kid p c m) = fst ` set m"
  by (auto simp: push_kid_def split: option.splits dest: jget_in_keys)

lemma kids_sort_kids [simp]: "kids (sort_kids le m) p = sort_by le (kids m p)"
  by (induction m) (auto simp: kids_def sort_kids_def sort_by_def)

lemma dom_sort_kids [simp]: "fst ` set (sort_kids le m) = fst ` set m"
  by (simp add: sort_kids_def image_image)

lemma in_adj_edges [simp]: "(p, c) \<in> adj_edges m \<longleftrightarrow> c \<in> set (kids m p)"
  by (simp add: adj_edges_def)

lemma kids_in_nodes: "c \<in> set (kids m p) \<Longrightarrow> c \<in> adj_nodes m"
  by (cases "jget m p") (force simp: kids_def adj_nodes_def dest: map_of_SomeD)+

lemma kids_in_keys: "c \<in> set (kids m p) \<Longrightarrow> p \<in> fst ` set m"
  by (cases "jget m p") (auto simp: kids_def dest: jget_in_keys)

lemma kids_no_key: "p \<notin> fst ` set m \<Longrightarrow> kids m p = []"
  by (cases "jget m p") (auto simp: kids_def dest: jget_in_keys)

lemma finite_adj_nodes [simp]: "finite (adj_nodes m)"
  by (simp add: adj_nodes_def)

section \<open>Cycle detection\<close>

datatype graph_error =
    Duplicate_artifact string
  | Parent_mismatch string
  | Graph_cycle string

text \<open>
  \<open>visit\<close> of \<open>assertAcyclic\<close>, over the list of keys still to be visited at this level:
  \<open>visiting\<close> is the path from the root of the search, \<open>visited\<close> the finished keys.
  Leaving a key removes it from \<open>visiting\<close>, so the path is an argument and only \<open>visited\<close>
  is threaded.
\<close>

function visit ::
  "adjacency \<Rightarrow> string list \<Rightarrow> string list \<Rightarrow> string list \<Rightarrow> (graph_error, string list) result"
where
  "visit ch visiting visited [] = Inr visited"
| "visit ch visiting visited (k # ks) =
     (if k \<in> set visiting then Inl (Graph_cycle k)
      else if k \<in> set visited then visit ch visiting visited ks
      else rbind (visit ch (k # visiting) visited (kids ch k))
             (\<lambda>visited'. visit ch visiting (sadd k visited') ks))"
  by pat_completeness auto
termination
proof (relation "measures [\<lambda>(ch, P, V, ks). card (fst ` set ch - set P),
                           \<lambda>(ch, P, V, ks). length ks]", goal_cases)
  case 1
  show ?case by simp
next
  case (2 ch P V k ks)
  then show ?case by simp
next
  case (3 ch P V k ks)
  show ?case
  proof (cases "k \<in> fst ` set ch")
    case True
    with 3 have "fst ` set ch - set (k # P) \<subset> fst ` set ch - set P" by auto
    then show ?thesis by (simp add: psubset_card_mono)
  next
    case False
    then have "kids ch k = []" "fst ` set ch - set (k # P) = fst ` set ch - set P"
      by (auto simp: kids_no_key)
    then show ?thesis by simp
  qed
next
  case (4 ch P V k ks V')
  then show ?case by simp
qed

definition assertAcyclic ::
  "(string \<Rightarrow> string \<Rightarrow> bool) \<Rightarrow> string list \<Rightarrow> adjacency \<Rightarrow> (graph_error, unit) result" where
  "assertAcyclic le keys ch = rmap (\<lambda>_. ()) (visit ch [] [] (sort_by le keys))"

definition finished :: "adjacency \<Rightarrow> string set \<Rightarrow> bool" where
  "finished ch V \<longleftrightarrow> adj_edges ch `` V \<subseteq> V \<and> (\<forall>x \<in> V. (x, x) \<notin> (adj_edges ch)\<^sup>+)"

lemma finished_closed:
  assumes "adj_edges ch `` V \<subseteq> V" "x \<in> V" "(x, y) \<in> (adj_edges ch)\<^sup>*"
  shows "y \<in> V"
  using assms(3,2)
proof (induction rule: rtrancl_induct)
  case (step y z)
  then have "z \<in> adj_edges ch `` V" by blast
  with assms(1) show ?case by blast
qed

lemma finished_insert:
  assumes "finished ch V" "set (kids ch k) \<subseteq> V" "k \<notin> V"
  shows "finished ch (insert k V)"
  unfolding finished_def
proof (intro conjI ballI)
  show "adj_edges ch `` insert k V \<subseteq> insert k V"
    using assms by (auto simp: finished_def)
  fix x
  assume "x \<in> insert k V"
  show "(x, x) \<notin> (adj_edges ch)\<^sup>+"
  proof (cases "x = k")
    case True
    show ?thesis
    proof
      assume "(x, x) \<in> (adj_edges ch)\<^sup>+"
      then obtain z where "(k, z) \<in> adj_edges ch" "(z, k) \<in> (adj_edges ch)\<^sup>*"
        using True by (auto dest: tranclD)
      with assms finished_closed [of ch V z k] show False by (auto simp: finished_def)
    qed
  next
    case False
    with \<open>x \<in> insert k V\<close> assms(1) show ?thesis by (simp add: finished_def)
  qed
qed

lemma visit_sound:
  "visit ch P V ks = Inr V' \<Longrightarrow> finished ch (set V) \<Longrightarrow> set V \<inter> set P = {} \<Longrightarrow>
     finished ch (set V') \<and> set V \<subseteq> set V' \<and> set ks \<subseteq> set V' \<and> set V' \<inter> set P = {}"
proof (induction ch P V ks arbitrary: V' rule: visit.induct)
  case (1 ch P V)
  then show ?case by simp
next
  case (2 ch P V k ks)
  show ?case
  proof (cases "k \<in> set V")
    case True
    with 2 show ?thesis by (auto split: if_splits)
  next
    case False
    with "2.prems" obtain V1 where
      kP: "k \<notin> set P" and v1: "visit ch (k # P) V (kids ch k) = Inr V1"
      and v2: "visit ch P (sadd k V1) ks = Inr V'"
      by (auto simp: rbind_eq_Inr split: if_splits)
    from "2.IH"(2) [OF kP False v1] "2.prems" False
    have f1: "finished ch (set V1)" "set V \<subseteq> set V1" "set (kids ch k) \<subseteq> set V1"
      "set V1 \<inter> set (k # P) = {}" by auto
    then have "finished ch (set (sadd k V1))" by (auto intro: finished_insert)
    with "2.IH"(3) [OF kP False v1 v2] f1 kP show ?thesis by auto
  qed
qed

lemma visit_complete:
  assumes "acyclic (adj_edges ch)"
  shows "(\<And>p k. p \<in> set P \<Longrightarrow> k \<in> set ks \<Longrightarrow> (p, k) \<in> (adj_edges ch)\<^sup>+) \<Longrightarrow>
     \<exists>V'. visit ch P V ks = Inr V'"
  using assms
proof (induction ch P V ks rule: visit.induct)
  case (1 ch P V)
  then show ?case by simp
next
  case (2 ch P V k ks)
  have kP: "k \<notin> set P" using "2.prems" by (auto simp: acyclic_def)
  show ?case
  proof (cases "k \<in> set V")
    case True
    with 2 kP show ?thesis by simp
  next
    case False
    have "(p, c) \<in> (adj_edges ch)\<^sup>+" if "p \<in> set (k # P)" "c \<in> set (kids ch k)" for p c
      using that "2.prems"(1) [of p k] by (auto intro: trancl_into_trancl)
    from "2.IH"(2) [OF kP False this "2.prems"(2)]
    obtain V1 where v1: "visit ch (k # P) V (kids ch k) = Inr V1" by auto
    from "2.IH"(3) [OF kP False v1] "2.prems" v1 kP False show ?thesis by simp
  qed
qed

lemma assertAcyclic_iff:
  assumes "fst ` set ch \<subseteq> set keys"
  shows "assertAcyclic le keys ch = Inr () \<longleftrightarrow> acyclic (adj_edges ch)"
proof
  assume "assertAcyclic le keys ch = Inr ()"
  then obtain V where V: "visit ch [] [] (sort_by le keys) = Inr V"
    by (auto simp: assertAcyclic_def rmap_eq_Inr)
  from visit_sound [OF V] have f: "finished ch (set V)" "set keys \<subseteq> set V"
    by (auto simp: finished_def)
  have "(x, x) \<notin> (adj_edges ch)\<^sup>+" for x
  proof
    assume c: "(x, x) \<in> (adj_edges ch)\<^sup>+"
    then obtain z where "(x, z) \<in> adj_edges ch" by (auto dest: tranclD)
    then have "x \<in> fst ` set ch"
      by (auto dest: kids_in_keys)
    with assms f(2) have "x \<in> set V" by blast
    with f(1) c show False by (simp add: finished_def)
  qed
  then show "acyclic (adj_edges ch)" by (simp add: acyclic_def)
next
  assume "acyclic (adj_edges ch)"
  from visit_complete [OF this, of "[]"] show "assertAcyclic le keys ch = Inr ()"
    by (auto simp: assertAcyclic_def rmap_eq_Inr)
qed

section \<open>Building the graph\<close>

record artifact_graph =
  g_artifacts :: "(string, envelope) jmap"
  g_children :: adjacency
  g_inval_children :: adjacency
  g_roots :: "string list"
  g_missing :: "artifact_ref list"

text \<open>The first loop: one entry per key, in all three maps.\<close>

record link_state =
  ls_children :: adjacency
  ls_inval :: adjacency
  ls_missing :: "(string, artifact_ref) jmap"

fun index_artifacts ::
  "(string, envelope) jmap \<Rightarrow> envelope list \<Rightarrow> (graph_error, (string, envelope) jmap) result" where
  "index_artifacts m [] = Inr m"
| "index_artifacts m (a # as) =
     (if envelope_key a \<in> fst ` set m then Inl (Duplicate_artifact (envelope_key a))
      else index_artifacts (jset (envelope_key a) a m) as)"

definition empty_adjacency :: "(string, envelope) jmap \<Rightarrow> adjacency" where
  "empty_adjacency m = map (\<lambda>e. (fst e, [])) m"

text \<open>
  The body of the second loop for one parent relation. Claim nodes have no envelope and are
  skipped; an absent parent is recorded as missing; a present one has to match in kind and
  content hash.
\<close>

definition link_parent ::
  "(string, envelope) jmap \<Rightarrow> string \<Rightarrow> link_state \<Rightarrow> artifact_parent \<Rightarrow> (graph_error, link_state) result"
where
  "link_parent byKey childKey st p =
     (let r = par_artifact p; parentKey = researchArtifactKey r in
      if ref_kind r = Claim_node then Inr st
      else case jget byKey parentKey of
        None \<Rightarrow> Inr (st\<lparr>ls_missing := jset parentKey r (ls_missing st)\<rparr>)
      | Some target \<Rightarrow>
          if Stored (art_kind target) \<noteq> ref_kind r \<or> art_hash target \<noteq> ref_hash r
          then Inl (Parent_mismatch parentKey)
          else Inr (st\<lparr>ls_children := push_kid parentKey childKey (ls_children st),
                      ls_inval := (if par_relation p \<noteq> Supersedes
                                   then push_kid parentKey childKey (ls_inval st)
                                   else ls_inval st)\<rparr>))"

definition link_artifact ::
  "(string, envelope) jmap \<Rightarrow> link_state \<Rightarrow> envelope \<Rightarrow> (graph_error, link_state) result" where
  "link_artifact byKey st a = rfold (link_parent byKey (envelope_key a)) st (art_parents a)"

definition buildResearchArtifactGraph ::
  "(string \<Rightarrow> string \<Rightarrow> bool) \<Rightarrow> envelope list \<Rightarrow> (graph_error, artifact_graph) result" where
  "buildResearchArtifactGraph le as =
     rbind (index_artifacts [] as) (\<lambda>byKey.
     rbind (rfold (link_artifact byKey)
              \<lparr>ls_children = empty_adjacency byKey, ls_inval = empty_adjacency byKey,
               ls_missing = []\<rparr> as) (\<lambda>st.
       let children = sort_kids le (ls_children st);
           inval = sort_kids le (ls_inval st) in
       rbind (assertAcyclic le (jkeys byKey) children) (\<lambda>_.
         Inr \<lparr>g_artifacts = byKey, g_children = children, g_inval_children = inval,
              g_roots = sort_by le (filter
                 (\<lambda>k. (case jget byKey k of None \<Rightarrow> 0 | Some a \<Rightarrow> length (art_parents a)) = 0)
                 (jkeys byKey)),
              g_missing = sort_by (\<lambda>x y. le (researchArtifactKey x) (researchArtifactKey y))
                            (jvals (ls_missing st))\<rparr>)))"

section \<open>Newest revisions\<close>

definition latest_step :: "(string, envelope) jmap \<Rightarrow> envelope \<Rightarrow> (string, envelope) jmap" where
  "latest_step latest a =
     (case jget latest (art_id a) of
        None \<Rightarrow> jset (art_id a) a latest
      | Some e \<Rightarrow> if art_revision a > art_revision e then jset (art_id a) a latest else latest)"

definition latestResearchArtifactRevisions ::
  "(string \<Rightarrow> string \<Rightarrow> bool) \<Rightarrow> envelope list \<Rightarrow> envelope list" where
  "latestResearchArtifactRevisions le as =
     sort_by (\<lambda>x y. le (art_id x) (art_id y)) (jvals (foldl latest_step [] as))"

section \<open>Invalidating descendants\<close>

text \<open>
  The breadth-first loop over \<open>queue[index]\<close>. \<open>blocked\<close> are the changed keys, which are
  never staled; \<open>stale\<close> is the set being built; the last argument is what is left of the
  queue.
\<close>

definition enqueue_kid ::
  "string list \<Rightarrow> string list \<times> string list \<Rightarrow> string \<Rightarrow> string list \<times> string list" where
  "enqueue_kid blocked s c =
     (if c \<in> set blocked \<or> c \<in> set (fst s) then s else (fst s @ [c], snd s @ [c]))"

lemma enqueue_kid_pair:
  "enqueue_kid b (f, q) c = (if c \<in> set b \<or> c \<in> set f then (f, q) else (f @ [c], q @ [c]))"
  by (simp add: enqueue_kid_def)

function reach_loop :: "adjacency \<Rightarrow> string list \<Rightarrow> string list \<Rightarrow> string list \<Rightarrow> string list" where
  "reach_loop ch blocked found [] = found"
| "reach_loop ch blocked found (k # queue) =
     (let s = foldl (enqueue_kid blocked) (found, queue) (kids ch k)
      in reach_loop ch blocked (fst s) (snd s))"
  by pat_completeness auto

lemma foldl_enqueue_kid:
  "\<exists>new. foldl (enqueue_kid b) (f, q) cs = (f @ new, q @ new)
     \<and> set new \<subseteq> set cs \<and> set new \<inter> (set f \<union> set b) = {} \<and> distinct new
     \<and> set cs \<subseteq> set f \<union> set new \<union> set b"
proof (induction cs arbitrary: f q)
  case Nil
  show ?case by simp
next
  case (Cons c cs)
  show ?case
  proof (cases "c \<in> set b \<or> c \<in> set f")
    case True
    with Cons [of f q] show ?thesis by (auto simp: enqueue_kid_pair)
  next
    case False
    from Cons [of "f @ [c]" "q @ [c]"] obtain new where
      "foldl (enqueue_kid b) (f @ [c], q @ [c]) cs = ((f @ [c]) @ new, (q @ [c]) @ new)"
      "set new \<subseteq> set cs" "set new \<inter> (set (f @ [c]) \<union> set b) = {}" "distinct new"
      "set cs \<subseteq> set (f @ [c]) \<union> set new \<union> set b" by blast
    with False show ?thesis by (intro exI [of _ "c # new"]) (auto simp: enqueue_kid_pair)
  qed
qed

termination reach_loop
proof (relation "measures [\<lambda>(ch, b, f, q). card (adj_nodes ch - set f),
                           \<lambda>(ch, b, f, q). length q]", goal_cases)
  case 1
  show ?case by simp
next
  case (2 ch b f k q s)
  from foldl_enqueue_kid [of b f q "kids ch k"] obtain new where
    new: "s = (f @ new, q @ new)" "set new \<subseteq> set (kids ch k)" "set new \<inter> (set f \<union> set b) = {}"
    using 2 by auto
  show ?case
  proof (cases new)
    case Nil
    with new show ?thesis by simp
  next
    case (Cons c new')
    with new have "c \<in> adj_nodes ch" "c \<notin> set f" by (auto intro: kids_in_nodes)
    then have "adj_nodes ch - set (f @ new) \<subset> adj_nodes ch - set f" using Cons by auto
    with new show ?thesis by (simp add: psubset_card_mono)
  qed
qed

definition stale_artifact ::
  "string list \<Rightarrow> int \<Rightarrow> invalidation_reason \<Rightarrow> artifact_ref list \<Rightarrow> envelope \<Rightarrow> envelope" where
  "stale_artifact staleKeys now reason roots a =
     (if envelope_key a \<notin> set staleKeys \<or> art_status a \<noteq> Active then a
      else a\<lparr>art_status := Stale, art_updated := now,
             art_invalidation := Some \<lparr>inval_at = now, inval_reason = reason, inval_roots = roots\<rparr>\<rparr>)"

definition invalidateResearchArtifactDescendants ::
  "(string \<Rightarrow> string \<Rightarrow> bool) \<Rightarrow> envelope list \<Rightarrow> artifact_ref list \<Rightarrow> invalidation_reason \<Rightarrow> int
     \<Rightarrow> (graph_error, envelope list) result" where
  "invalidateResearchArtifactDescendants le as roots reason now =
     rbind (buildResearchArtifactGraph le as) (\<lambda>g.
       let changed = foldl (\<lambda>s r. sadd (researchArtifactKey r) s) [] roots;
           staleKeys = reach_loop (g_inval_children g) changed [] changed in
       if staleKeys = [] then Inr as
       else Inr (map (stale_artifact staleKeys now reason roots) as))"

section \<open>The edges of a set of envelopes\<close>

text \<open>
  The abstract graph the code's maps represent: a lineage edge for every live parent
  relation, a causal edge for every live one that is not a supersession.
\<close>

definition artifact_keys :: "envelope list \<Rightarrow> string set" where
  "artifact_keys as = envelope_key ` set as"

definition live_parent :: "envelope list \<Rightarrow> artifact_parent \<Rightarrow> bool" where
  "live_parent as p \<longleftrightarrow> ref_kind (par_artifact p) \<noteq> Claim_node
     \<and> researchArtifactKey (par_artifact p) \<in> artifact_keys as"

definition lineage :: "envelope list \<Rightarrow> (string \<times> string) set" where
  "lineage as = {(k, envelope_key a) | k a. a \<in> set as \<and>
     (\<exists>p \<in> set (art_parents a). live_parent as p \<and> researchArtifactKey (par_artifact p) = k)}"

definition causal :: "envelope list \<Rightarrow> (string \<times> string) set" where
  "causal as = {(k, envelope_key a) | k a. a \<in> set as \<and>
     (\<exists>p \<in> set (art_parents a). live_parent as p \<and> par_relation p \<noteq> Supersedes
        \<and> researchArtifactKey (par_artifact p) = k)}"

definition parent_matches :: "envelope list \<Rightarrow> artifact_parent \<Rightarrow> bool" where
  "parent_matches as p \<longleftrightarrow> ref_kind (par_artifact p) = Claim_node \<or>
     (\<forall>a \<in> set as. envelope_key a = researchArtifactKey (par_artifact p) \<longrightarrow>
        Stored (art_kind a) = ref_kind (par_artifact p) \<and> art_hash a = ref_hash (par_artifact p))"

definition missing_parents :: "envelope list \<Rightarrow> artifact_ref set" where
  "missing_parents as = {par_artifact p | p a. a \<in> set as \<and> p \<in> set (art_parents a)
     \<and> ref_kind (par_artifact p) \<noteq> Claim_node
     \<and> researchArtifactKey (par_artifact p) \<notin> artifact_keys as}"

lemma index_artifacts_eq:
  "index_artifacts m as = Inr m' \<longleftrightarrow>
     distinct (map envelope_key as) \<and> (\<forall>a \<in> set as. envelope_key a \<notin> fst ` set m)
     \<and> m' = m @ map (\<lambda>a. (envelope_key a, a)) as"
proof (induction as arbitrary: m)
  case (Cons a as)
  show ?case
  proof (cases "envelope_key a \<in> fst ` set m")
    case False
    have "(\<forall>x \<in> set as. envelope_key x \<notin> fst ` set (m @ [(envelope_key a, a)])) \<longleftrightarrow>
      envelope_key a \<notin> envelope_key ` set as \<and> (\<forall>x \<in> set as. envelope_key x \<notin> fst ` set m)"
      by (simp add: ball_conj_distrib) (metis imageE imageI)
    with False show ?thesis by (simp add: jset_new Cons.IH del: set_append) blast
  qed simp
qed auto

definition by_key :: "envelope list \<Rightarrow> (string, envelope) jmap" where
  "by_key as = map (\<lambda>a. (envelope_key a, a)) as"

lemma dom_by_key [simp]: "fst ` set (by_key as) = artifact_keys as"
  by (auto simp: by_key_def artifact_keys_def image_iff)

lemma jkeys_by_key: "jkeys (by_key as) = map envelope_key as"
  by (simp add: jkeys_def by_key_def)

lemma jget_by_key_Some:
  "jget (by_key as) k = Some a \<Longrightarrow> a \<in> set as \<and> envelope_key a = k"
  by (auto simp: by_key_def dest!: map_of_SomeD)

lemma jget_by_key:
  "distinct (map envelope_key as) \<Longrightarrow> a \<in> set as \<Longrightarrow> jget (by_key as) (envelope_key a) = Some a"
  by (auto simp: by_key_def comp_def intro!: map_of_is_SomeI)

lemma parent_matches_alt:
  assumes "distinct (map envelope_key as)"
  shows "parent_matches as p \<longleftrightarrow> ref_kind (par_artifact p) = Claim_node \<or>
     (case jget (by_key as) (researchArtifactKey (par_artifact p)) of None \<Rightarrow> True
      | Some a \<Rightarrow> Stored (art_kind a) = ref_kind (par_artifact p)
                \<and> art_hash a = ref_hash (par_artifact p))"
proof (cases "jget (by_key as) (researchArtifactKey (par_artifact p))")
  case None
  then have "researchArtifactKey (par_artifact p) \<notin> artifact_keys as"
    by (simp add: map_of_eq_None_iff)
  then have "\<forall>a \<in> set as. envelope_key a \<noteq> researchArtifactKey (par_artifact p)"
    by (force simp: artifact_keys_def)
  with None show ?thesis by (auto simp: parent_matches_def)
next
  case (Some a)
  from jget_by_key_Some [OF this]
  have a: "a \<in> set as" "envelope_key a = researchArtifactKey (par_artifact p)" by auto
  have "b = a" if "b \<in> set as" "envelope_key b = researchArtifactKey (par_artifact p)" for b
    using jget_by_key [OF assms that(1)] that(2) Some by simp
  then have "(\<forall>b \<in> set as. envelope_key b = researchArtifactKey (par_artifact p) \<longrightarrow> Q b) \<longleftrightarrow> Q a" for Q
    using a by blast
  with Some show ?thesis by (simp add: parent_matches_def)
qed

section \<open>What linking computes\<close>

definition parent_pairs :: "envelope list \<Rightarrow> (string \<times> artifact_parent) list" where
  "parent_pairs as = concat (map (\<lambda>a. map (Pair (envelope_key a)) (art_parents a)) as)"

lemma rfold_map: "rfold f s (map g xs) = rfold (\<lambda>s x. f s (g x)) s xs"
  by (induction xs arbitrary: s) auto

lemma link_all_pairs:
  "rfold (link_artifact m) st as = rfold (\<lambda>s cp. link_parent m (fst cp) s (snd cp)) st (parent_pairs as)"
  by (induction as arbitrary: st)
     (simp_all add: parent_pairs_def link_artifact_def rfold_append rfold_map)

lemma in_parent_pairs:
  "(c, p) \<in> set (parent_pairs as) \<longleftrightarrow> (\<exists>a \<in> set as. c = envelope_key a \<and> p \<in> set (art_parents a))"
  by (auto simp: parent_pairs_def)

text \<open>Selecting from a set, in a form that rewrites over \<open>insert\<close>.\<close>

definition sel :: "('a \<Rightarrow> bool) \<Rightarrow> 'a set \<Rightarrow> 'a set" where
  "sel P A = {x \<in> A. P x}"

lemma sel_simps [simp]:
  "sel P {} = {}"
  "sel P (insert x A) = (if P x then insert x (sel P A) else sel P A)"
  by (auto simp: sel_def)

definition absent_parent :: "envelope list \<Rightarrow> artifact_parent \<Rightarrow> bool" where
  "absent_parent as p \<longleftrightarrow> ref_kind (par_artifact p) \<noteq> Claim_node
     \<and> researchArtifactKey (par_artifact p) \<notin> artifact_keys as"

definition parent_edge :: "string \<times> artifact_parent \<Rightarrow> string \<times> string" where
  "parent_edge cp = (researchArtifactKey (par_artifact (snd cp)), fst cp)"

definition linked :: "envelope list \<Rightarrow> link_state \<Rightarrow> (string \<times> artifact_parent) set \<Rightarrow> bool" where
  "linked as st ps \<longleftrightarrow>
     fst ` set (ls_children st) = artifact_keys as \<and> fst ` set (ls_inval st) = artifact_keys as
     \<and> adj_edges (ls_children st) = parent_edge ` sel (\<lambda>cp. live_parent as (snd cp)) ps
     \<and> adj_edges (ls_inval st) =
         parent_edge ` sel (\<lambda>cp. live_parent as (snd cp) \<and> par_relation (snd cp) \<noteq> Supersedes) ps
     \<and> snd ` set (ls_missing st) \<subseteq> par_artifact ` sel (absent_parent as) (snd ` ps)
     \<and> fst ` set (ls_missing st) =
         (\<lambda>p. researchArtifactKey (par_artifact p)) ` sel (absent_parent as) (snd ` ps)"

lemma adj_edges_push_kid:
  "adj_edges (push_kid p c m) = (if p \<in> fst ` set m then insert (p, c) (adj_edges m) else adj_edges m)"
  by (auto simp: adj_edges_def kids_push_kid split: if_splits)

lemma snd_set_jset: "snd ` set (jset k v m) \<subseteq> insert v (snd ` set m)"
  by (auto dest!: in_set_jset intro: rev_image_eqI)

lemma link_parent_linked:
  assumes l: "linked as st ps" and d: "distinct (map envelope_key as)"
    and s: "link_parent (by_key as) c st p = Inr st'"
  shows "parent_matches as p \<and> linked as st' (insert (c, p) ps)"
proof (cases "ref_kind (par_artifact p) = Claim_node")
  case True
  with l s show ?thesis
    by (simp add: link_parent_def Let_def linked_def parent_matches_def live_parent_def
        absent_parent_def)
next
  case False
  let ?k = "researchArtifactKey (par_artifact p)"
  show ?thesis
  proof (cases "jget (by_key as) ?k")
    case None
    then have k: "?k \<notin> artifact_keys as" by (simp add: map_of_eq_None_iff)
    have "st' = st\<lparr>ls_missing := jset ?k (par_artifact p) (ls_missing st)\<rparr>"
      using s False None by (simp add: link_parent_def Let_def)
    moreover have "snd ` set (jset ?k (par_artifact p) (ls_missing st))
        \<subseteq> insert (par_artifact p) (par_artifact ` sel (absent_parent as) (snd ` ps))"
      by (rule order_trans [OF snd_set_jset insert_mono]) (use l in \<open>simp add: linked_def\<close>)
    ultimately have "linked as st' (insert (c, p) ps)"
      using l False k by (simp add: linked_def live_parent_def absent_parent_def)
    then show ?thesis using None d by (simp add: parent_matches_alt)
  next
    case (Some a)
    then have k: "?k \<in> artifact_keys as" using jget_by_key_Some by (force simp: artifact_keys_def)
    have m: "Stored (art_kind a) = ref_kind (par_artifact p)" "art_hash a = ref_hash (par_artifact p)"
      and st': "st' = st\<lparr>ls_children := push_kid ?k c (ls_children st),
                      ls_inval := (if par_relation p \<noteq> Supersedes
                                   then push_kid ?k c (ls_inval st) else ls_inval st)\<rparr>"
      using s False Some by (auto simp: link_parent_def Let_def split: if_splits)
    have "linked as st' (insert (c, p) ps)"
      using l False k unfolding st' linked_def
      by (simp add: adj_edges_push_kid live_parent_def absent_parent_def parent_edge_def)
    with m Some d show ?thesis by (simp add: parent_matches_alt)
  qed
qed

lemma link_parent_total:
  assumes "parent_matches as p" "distinct (map envelope_key as)"
  shows "\<exists>st'. link_parent (by_key as) c st p = Inr st'"
  using assms by (auto simp: link_parent_def Let_def parent_matches_alt split: option.splits)

lemma rfold_linked:
  assumes "distinct (map envelope_key as)"
  shows "rfold (\<lambda>s cp. link_parent (by_key as) (fst cp) s (snd cp)) st cps = Inr st' \<Longrightarrow>
     linked as st ps \<Longrightarrow>
     (\<forall>cp \<in> set cps. parent_matches as (snd cp)) \<and> linked as st' (ps \<union> set cps)"
proof (induction cps arbitrary: st ps)
  case (Cons cp cps)
  then obtain s1 where s1: "link_parent (by_key as) (fst cp) st (snd cp) = Inr s1"
    and r: "rfold (\<lambda>s cp. link_parent (by_key as) (fst cp) s (snd cp)) s1 cps = Inr st'"
    by (auto simp: rbind_eq_Inr)
  from link_parent_linked [OF Cons.prems(2) assms s1] have
    "parent_matches as (snd cp)" "linked as s1 (insert cp ps)" by auto
  with Cons.IH [OF r this(2)] show ?case by simp
qed simp

lemma rfold_link_total:
  assumes "distinct (map envelope_key as)" "\<forall>cp \<in> set cps. parent_matches as (snd cp)"
  shows "\<exists>st'. rfold (\<lambda>s cp. link_parent (by_key as) (fst cp) s (snd cp)) st cps = Inr st'"
  using assms(2)
proof (induction cps arbitrary: st)
  case (Cons cp cps)
  with link_parent_total [OF _ assms(1), of "snd cp" "fst cp" st] obtain s1 where
    "link_parent (by_key as) (fst cp) st (snd cp) = Inr s1" by auto
  with Cons show ?case by simp
qed simp

definition link_start :: "envelope list \<Rightarrow> link_state" where
  "link_start as = \<lparr>ls_children = empty_adjacency (by_key as),
                   ls_inval = empty_adjacency (by_key as), ls_missing = []\<rparr>"

lemma kids_empty_adjacency [simp]: "kids (empty_adjacency m) k = []"
  by (induction m) (auto simp: kids_def empty_adjacency_def)

lemma dom_empty_adjacency [simp]: "fst ` set (empty_adjacency m) = fst ` set m"
  by (simp add: empty_adjacency_def image_image)

lemma linked_start: "linked as (link_start as) {}"
  by (simp add: linked_def link_start_def adj_edges_def)

lemma index_by_key:
  "index_artifacts [] as = Inr m \<longleftrightarrow> distinct (map envelope_key as) \<and> m = by_key as"
  by (simp add: index_artifacts_eq by_key_def)

lemma snd_parent_pairs: "snd ` set (parent_pairs as) = (\<Union>a \<in> set as. set (art_parents a))"
  by (force simp: parent_pairs_def)

lemma in_parent_edges:
  "(k, c) \<in> parent_edge ` sel P (set (parent_pairs as)) \<longleftrightarrow>
     (\<exists>a p. a \<in> set as \<and> c = envelope_key a \<and> p \<in> set (art_parents a) \<and> P (c, p)
        \<and> k = researchArtifactKey (par_artifact p))"
  by (auto simp: parent_edge_def sel_def in_parent_pairs image_iff Bex_def)

lemma lineage_pairs:
  "lineage as = parent_edge ` sel (\<lambda>cp. live_parent as (snd cp)) (set (parent_pairs as))"
  by (rule set_eqI, case_tac x, simp only: in_parent_edges lineage_def) auto

lemma causal_pairs:
  "causal as = parent_edge ` sel (\<lambda>cp. live_parent as (snd cp) \<and> par_relation (snd cp) \<noteq> Supersedes)
     (set (parent_pairs as))"
  by (rule set_eqI, case_tac x, simp only: in_parent_edges causal_def) auto

lemma missing_pairs:
  "missing_parents as = par_artifact ` sel (absent_parent as) (snd ` set (parent_pairs as))"
  unfolding snd_parent_pairs
  by (auto simp: missing_parents_def sel_def absent_parent_def)

lemma adj_edges_sort_kids [simp]: "adj_edges (sort_kids le m) = adj_edges m"
  by (simp add: adj_edges_def)

text \<open>
  The graph the code builds: it exists for distinct keys, matching references and an acyclic
  lineage, and its maps are the abstract edges.
\<close>

lemma all_parent_pairs:
  "(\<forall>cp \<in> set (parent_pairs as). Q (snd cp)) \<longleftrightarrow> (\<forall>a \<in> set as. \<forall>p \<in> set (art_parents a). Q p)"
  by (auto simp: parent_pairs_def)

lemma link_all:
  assumes "distinct (map envelope_key as)"
    and "rfold (link_artifact (by_key as)) (link_start as) as = Inr st"
  shows "(\<forall>a \<in> set as. \<forall>p \<in> set (art_parents a). parent_matches as p)
     \<and> linked as st (set (parent_pairs as))"
  using rfold_linked [OF assms(1) assms(2) [unfolded link_all_pairs] linked_start]
  by (simp add: all_parent_pairs)

lemma link_all_total:
  assumes "distinct (map envelope_key as)"
    and "\<forall>a \<in> set as. \<forall>p \<in> set (art_parents a). parent_matches as p"
  shows "\<exists>st. rfold (link_artifact (by_key as)) (link_start as) as = Inr st"
  unfolding link_all_pairs
  by (rule rfold_link_total) (simp_all add: all_parent_pairs assms)

lemma linked_acyclic:
  assumes "linked as st (set (parent_pairs as))"
  shows "assertAcyclic le (jkeys (by_key as)) (sort_kids le (ls_children st)) = Inr ()
     \<longleftrightarrow> acyclic (lineage as)"
proof -
  have "fst ` set (sort_kids le (ls_children st)) \<subseteq> set (jkeys (by_key as))"
    using assms by (simp add: linked_def jkeys_by_key artifact_keys_def)
  from assertAcyclic_iff [OF this] show ?thesis
    using assms by (simp add: linked_def lineage_pairs)
qed

lemma build_graph_Inr:
  "buildResearchArtifactGraph le as = Inr g \<longleftrightarrow>
     distinct (map envelope_key as)
     \<and> (\<exists>st. rfold (link_artifact (by_key as)) (link_start as) as = Inr st
          \<and> assertAcyclic le (jkeys (by_key as)) (sort_kids le (ls_children st)) = Inr ()
          \<and> g = \<lparr>g_artifacts = by_key as, g_children = sort_kids le (ls_children st),
                g_inval_children = sort_kids le (ls_inval st),
                g_roots = sort_by le (filter
                 (\<lambda>k. (case jget (by_key as) k of None \<Rightarrow> 0 | Some a \<Rightarrow> length (art_parents a)) = 0)
                 (jkeys (by_key as))),
                g_missing = sort_by (\<lambda>x y. le (researchArtifactKey x) (researchArtifactKey y))
                            (jvals (ls_missing st))\<rparr>)"
  by (auto simp: buildResearchArtifactGraph_def rbind_eq_Inr index_by_key Let_def
        link_start_def [symmetric])

lemma build_graph_iff:
  "(\<exists>g. buildResearchArtifactGraph le as = Inr g) \<longleftrightarrow>
     distinct (map envelope_key as) \<and> (\<forall>a \<in> set as. \<forall>p \<in> set (art_parents a). parent_matches as p)
     \<and> acyclic (lineage as)"
proof
  assume "\<exists>g. buildResearchArtifactGraph le as = Inr g"
  then show "distinct (map envelope_key as)
    \<and> (\<forall>a \<in> set as. \<forall>p \<in> set (art_parents a). parent_matches as p) \<and> acyclic (lineage as)"
    using link_all linked_acyclic by (fastforce simp: build_graph_Inr)
next
  assume r: "distinct (map envelope_key as)
    \<and> (\<forall>a \<in> set as. \<forall>p \<in> set (art_parents a). parent_matches as p) \<and> acyclic (lineage as)"
  with link_all_total obtain st where
    "rfold (link_artifact (by_key as)) (link_start as) as = Inr st" by blast
  with r link_all linked_acyclic show "\<exists>g. buildResearchArtifactGraph le as = Inr g"
    by (fastforce simp: build_graph_Inr)
qed

lemma build_graph_edges:
  assumes "buildResearchArtifactGraph le as = Inr g"
  shows "adj_edges (g_children g) = lineage as"
    and "adj_edges (g_inval_children g) = causal as"
    and "g_artifacts g = by_key as"
    and "g_missing g = [] \<longleftrightarrow> missing_parents as = {}"
    and "set (g_missing g) \<subseteq> missing_parents as"
proof -
  from assms obtain st where d: "distinct (map envelope_key as)"
    and st: "rfold (link_artifact (by_key as)) (link_start as) as = Inr st"
    and g: "g_children g = sort_kids le (ls_children st)"
      "g_inval_children g = sort_kids le (ls_inval st)" "g_artifacts g = by_key as"
      "g_missing g = sort_by (\<lambda>x y. le (researchArtifactKey x) (researchArtifactKey y))
                            (jvals (ls_missing st))"
    by (auto simp: build_graph_Inr)
  from link_all [OF d st] have l: "linked as st (set (parent_pairs as))" by blast
  then show "adj_edges (g_children g) = lineage as" "adj_edges (g_inval_children g) = causal as"
    "g_artifacts g = by_key as" "set (g_missing g) \<subseteq> missing_parents as"
    by (simp_all add: g linked_def lineage_pairs causal_pairs missing_pairs jvals_def)
  have "ls_missing st = [] \<longleftrightarrow> fst ` set (ls_missing st) = {}" by simp
  also have "\<dots> \<longleftrightarrow> missing_parents as = {}" using l by (simp add: linked_def missing_pairs)
  finally show "g_missing g = [] \<longleftrightarrow> missing_parents as = {}" by (simp add: g jvals_def)
qed

section \<open>What the breadth-first loop finds\<close>

lemma reach_loop_spec:
  "set f \<subseteq> set (reach_loop ch b f q)
   \<and> set (reach_loop ch b f q) \<inter> set b \<subseteq> set f
   \<and> (\<forall>x \<in> set q \<union> (set (reach_loop ch b f q) - set f).
        set (kids ch x) \<subseteq> set (reach_loop ch b f q) \<union> set b)
   \<and> set (reach_loop ch b f q) - set f \<subseteq> (adj_edges ch)\<^sup>+ `` set q"
proof (induction ch b f q rule: reach_loop.induct)
  case (1 ch b f)
  then show ?case by simp
next
  case (2 ch b f k q)
  from foldl_enqueue_kid [of b f q "kids ch k"] obtain new where
    s: "foldl (enqueue_kid b) (f, q) (kids ch k) = (f @ new, q @ new)"
    and new: "set new \<subseteq> set (kids ch k)" "set new \<inter> (set f \<union> set b) = {}" "distinct new"
      "set (kids ch k) \<subseteq> set f \<union> set new \<union> set b" by blast
  let ?r = "reach_loop ch b (f @ new) (q @ new)"
  have r: "reach_loop ch b f (k # q) = ?r" by (simp add: s Let_def)
  note ih = "2.IH" [OF refl, unfolded s, simplified]
  have k: "(k, n) \<in> (adj_edges ch)\<^sup>+" if "n \<in> set new" for n
    using that new(1) by (intro r_into_trancl) auto
  have "set ?r - set f \<subseteq> (adj_edges ch)\<^sup>+ `` set (k # q)"
  proof
    fix x
    assume x: "x \<in> set ?r - set f"
    show "x \<in> (adj_edges ch)\<^sup>+ `` set (k # q)"
    proof (cases "x \<in> set new")
      case True
      with k show ?thesis by auto
    next
      case False
      with ih x have "x \<in> (adj_edges ch)\<^sup>+ `` (set q \<union> set new)" by auto
      then obtain y where "y \<in> set q \<union> set new" "(y, x) \<in> (adj_edges ch)\<^sup>+" by blast
      with k show ?thesis by (auto intro: trancl_trans)
    qed
  qed
  then show ?case unfolding r using ih new by auto
qed

lemma reach_loop_distinct: "distinct f \<Longrightarrow> distinct (reach_loop ch b f q)"
proof (induction ch b f q rule: reach_loop.induct)
  case (2 ch b f k q)
  from foldl_enqueue_kid [of b f q "kids ch k"] obtain new where
    "foldl (enqueue_kid b) (f, q) (kids ch k) = (f @ new, q @ new)"
    "set new \<inter> (set f \<union> set b) = {}" "distinct new" by blast
  with 2 show ?case by (auto simp: Let_def)
qed simp

lemma reach_loop_closure:
  assumes "set b \<subseteq> set q"
  shows "set (reach_loop ch b [] q) = (adj_edges ch)\<^sup>+ `` set q - set b"
proof -
  let ?r = "set (reach_loop ch b [] q)"
  note spec = reach_loop_spec [of "[]" ch b q]
  have "y \<in> ?r \<union> set b" if "(x, y) \<in> (adj_edges ch)\<^sup>+" "x \<in> set q" for x y
    using that
  proof (induction rule: trancl_induct)
    case (base y)
    with spec show ?case by auto
  next
    case (step y z)
    then have "y \<in> ?r \<union> set q" using assms by auto
    with spec step.hyps(2) show ?case by auto
  qed
  with spec show ?thesis by auto
qed

lemma set_foldl_sadd: "set (foldl (\<lambda>s r. sadd (f r) s) s0 rs) = set s0 \<union> f ` set rs"
  by (induction rs arbitrary: s0) auto

lemma stale_artifact_Nil: "map (stale_artifact [] now reason roots) as = as"
  by (rule map_idI) (simp add: stale_artifact_def)

text \<open>
  the invalidation of \<open>graph.ts\<close> turns exactly the active strict causal descendants of
  the roots, the roots themselves excepted, into stale artifacts stamped with the time, the
  reason and the roots; every other envelope comes back unchanged and in place.
\<close>

lemma invalidate_marks_descendants:
  assumes "invalidateResearchArtifactDescendants le as roots reason now = Inr as'"
  shows "as' = map (\<lambda>a. if art_status a = Active
              \<and> envelope_key a \<in> (causal as)\<^sup>+ `` (researchArtifactKey ` set roots)
                                - researchArtifactKey ` set roots
            then a\<lparr>art_status := Stale, art_updated := now,
                   art_invalidation := Some \<lparr>inval_at = now, inval_reason = reason,
                                             inval_roots = roots\<rparr>\<rparr>
            else a) as"
proof -
  let ?changed = "foldl (\<lambda>s r. sadd (researchArtifactKey r) s) [] roots"
  from assms obtain g where g: "buildResearchArtifactGraph le as = Inr g"
    and as': "as' = map (stale_artifact (reach_loop (g_inval_children g) ?changed [] ?changed)
                          now reason roots) as"
    by (auto simp: invalidateResearchArtifactDescendants_def rbind_eq_Inr Let_def
        stale_artifact_Nil split: if_splits)
  have r: "set (reach_loop (g_inval_children g) ?changed [] ?changed)
      = (causal as)\<^sup>+ `` (researchArtifactKey ` set roots) - researchArtifactKey ` set roots"
    by (subst reach_loop_closure) (auto simp: build_graph_edges(2) [OF g] set_foldl_sadd)
  show ?thesis unfolding as'
    by (rule map_cong [OF refl]) (simp add: stale_artifact_def r)
qed

section \<open>What the newest-revision pass keeps\<close>

definition newest :: "envelope list \<Rightarrow> string \<Rightarrow> envelope \<Rightarrow> bool" where
  "newest as i a \<longleftrightarrow> a \<in> set as \<and> art_id a = i
     \<and> (\<forall>b \<in> set as. art_id b = i \<longrightarrow> art_revision b \<le> art_revision a)"

definition newest_of :: "envelope list \<Rightarrow> (string, envelope) jmap \<Rightarrow> bool" where
  "newest_of as m \<longleftrightarrow> distinct (map fst m)
     \<and> (\<forall>i. case jget m i of None \<Rightarrow> i \<notin> art_id ` set as | Some a \<Rightarrow> newest as i a)"

lemma newest_snoc_other: "i \<noteq> art_id a \<Longrightarrow> newest (as @ [a]) i x \<longleftrightarrow> newest as i x"
  by (auto simp: newest_def)

lemma newest_snoc_old:
  "newest as (art_id a) e \<Longrightarrow> art_revision a \<le> art_revision e \<Longrightarrow> newest (as @ [a]) (art_id a) e"
  by (auto simp: newest_def)

lemma newest_snoc_new:
  "newest as (art_id a) e \<Longrightarrow> art_revision e < art_revision a \<Longrightarrow> newest (as @ [a]) (art_id a) a"
  by (fastforce simp: newest_def)

lemma newest_snoc_first: "art_id a \<notin> art_id ` set as \<Longrightarrow> newest (as @ [a]) (art_id a) a"
  by (auto simp: newest_def) (metis imageI)

lemma latest_step_newest:
  assumes "newest_of as m"
  shows "newest_of (as @ [a]) (latest_step m a)"
proof -
  have other: "case jget m i of None \<Rightarrow> i \<notin> art_id ` set (as @ [a]) | Some x \<Rightarrow> newest (as @ [a]) i x"
    if "i \<noteq> art_id a" for i
  proof -
    have "case jget m i of None \<Rightarrow> i \<notin> art_id ` set as | Some x \<Rightarrow> newest as i x"
      using assms by (simp add: newest_of_def)
    with that show ?thesis by (simp add: newest_snoc_other split: option.splits)
  qed
  have own: "case jget m (art_id a) of None \<Rightarrow> newest (as @ [a]) (art_id a) a
      | Some e \<Rightarrow> if art_revision a > art_revision e then newest (as @ [a]) (art_id a) a
                else newest (as @ [a]) (art_id a) e"
  proof -
    have "case jget m (art_id a) of None \<Rightarrow> art_id a \<notin> art_id ` set as
      | Some x \<Rightarrow> newest as (art_id a) x"
      using assms by (simp add: newest_of_def)
    then show ?thesis
      by (auto simp: newest_snoc_old newest_snoc_new newest_snoc_first split: option.splits)
  qed
  have d: "distinct (map fst (latest_step m a))"
    using assms by (simp add: newest_of_def latest_step_def split: option.split)
  have same: "jget (latest_step m a) i = jget m i" if "i \<noteq> art_id a" for i
    using that by (simp add: latest_step_def split: option.split)
  have "case jget (latest_step m a) (art_id a) of None \<Rightarrow> False
      | Some x \<Rightarrow> newest (as @ [a]) (art_id a) x"
    using own by (simp add: latest_step_def split: option.splits if_splits)
  then have "case jget (latest_step m a) i of None \<Rightarrow> i \<notin> art_id ` set (as @ [a])
      | Some x \<Rightarrow> newest (as @ [a]) i x" for i
    using other [of i] same [of i] by (cases "i = art_id a") (auto split: option.splits)
  with d show ?thesis by (simp add: newest_of_def)
qed

lemma newest_foldl:
  "newest_of as m \<Longrightarrow> newest_of (as @ bs) (foldl latest_step m bs)"
proof (induction bs arbitrary: as m)
  case (Cons b bs)
  from Cons.IH [OF latest_step_newest [OF Cons.prems, of b]] show ?case by simp
qed simp

lemma newest_all: "newest_of as (foldl latest_step [] as)"
  using newest_foldl [of "[]" "[]" as] by (simp add: newest_of_def)

lemma newest_of_entry:
  assumes "newest_of as m" "(i, a) \<in> set m"
  shows "newest as i a"
proof -
  from assms have "jget m i = Some a" by (simp add: newest_of_def)
  with assms(1) show ?thesis by (auto simp: newest_of_def split: option.splits)
qed

lemma newest_of_ids:
  assumes "newest_of as m"
  shows "map art_id (jvals m) = map fst m"
  using newest_of_entry [OF assms] by (auto simp: jvals_def newest_def)

lemma newest_of_dom:
  assumes "newest_of as m"
  shows "fst ` set m = art_id ` set as"
proof (intro set_eqI iffI)
  fix i assume "i \<in> fst ` set m"
  then show "i \<in> art_id ` set as" using newest_of_entry [OF assms] by (fastforce simp: newest_def)
next
  fix i assume "i \<in> art_id ` set as"
  then show "i \<in> fst ` set m"
    using assms by (auto simp: newest_of_def in_keys_jget split: option.splits)
qed

text \<open>
  the newest-revision pass returns exactly one envelope for every artifact identifier,
  one that carries the greatest revision supplied for it.
\<close>

lemma latest_is_greatest_revision:
  "distinct (map art_id (latestResearchArtifactRevisions le as))
   \<and> art_id ` set (latestResearchArtifactRevisions le as) = art_id ` set as
   \<and> (\<forall>a \<in> set (latestResearchArtifactRevisions le as). newest as (art_id a) a)"
proof -
  let ?m = "foldl latest_step [] as"
  have d: "distinct (map art_id (jvals ?m))"
    using newest_of_ids [OF newest_all [of as]] newest_all [of as] newest_of_def by metis
  have i: "art_id ` set (jvals ?m) = art_id ` set as"
    using newest_of_ids [OF newest_all [of as]] newest_of_dom [OF newest_all [of as]]
    by (metis list.set_map)
  have n: "newest as (art_id a) a" if "a \<in> set (jvals ?m)" for a
    using that newest_of_entry [OF newest_all [of as]] by (fastforce simp: jvals_def newest_def)
  have "distinct (map art_id (sort_by le' (jvals ?m)))" for le'
  proof -
    have "mset (map art_id (sort_by le' (jvals ?m))) = mset (map art_id (jvals ?m))"
      by simp
    with d show ?thesis by (metis mset_eq_imp_distinct_iff)
  qed
  with i n show ?thesis by (simp add: latestResearchArtifactRevisions_def)
qed

text \<open>
  C8: the graph builder accepts exactly the artifact lists with distinct keys whose resolved
  parents match in kind and content hash and whose lineage has no cycle; the child maps it
  returns are the lineage and its causal part, and it reports a missing parent exactly when
  one is absent.
\<close>

theorem build_graph_correct:
  "(\<exists>g. buildResearchArtifactGraph le as = Inr g \<and> adj_edges (g_children g) = lineage as
      \<and> adj_edges (g_inval_children g) = causal as
      \<and> (g_missing g = [] \<longleftrightarrow> missing_parents as = {}))
   \<longleftrightarrow> distinct (map envelope_key as)
      \<and> (\<forall>a \<in> set as. \<forall>p \<in> set (art_parents a). parent_matches as p)
      \<and> acyclic (lineage as)"
proof
  assume "distinct (map envelope_key as)
      \<and> (\<forall>a \<in> set as. \<forall>p \<in> set (art_parents a). parent_matches as p) \<and> acyclic (lineage as)"
  then have "\<exists>g. buildResearchArtifactGraph le as = Inr g" by (rule iffD2 [OF build_graph_iff])
  then obtain g where g: "buildResearchArtifactGraph le as = Inr g" by blast
  from build_graph_edges [OF g] g
  show "\<exists>g. buildResearchArtifactGraph le as = Inr g \<and> adj_edges (g_children g) = lineage as
      \<and> adj_edges (g_inval_children g) = causal as
      \<and> (g_missing g = [] \<longleftrightarrow> missing_parents as = {})" by blast
next
  assume "\<exists>g. buildResearchArtifactGraph le as = Inr g \<and> adj_edges (g_children g) = lineage as
      \<and> adj_edges (g_inval_children g) = causal as
      \<and> (g_missing g = [] \<longleftrightarrow> missing_parents as = {})"
  then have "\<exists>g. buildResearchArtifactGraph le as = Inr g" by blast
  then show "distinct (map envelope_key as)
      \<and> (\<forall>a \<in> set as. \<forall>p \<in> set (art_parents a). parent_matches as p) \<and> acyclic (lineage as)"
    by (rule iffD1 [OF build_graph_iff])
qed

end
