(* ===== verification/Artifact_Repository.thy ===== *)
theory Artifact_Repository
  imports Artifact_Graph
begin

text \<open>
  \<open>src/research/artifacts/repository.ts\<close>: the append-only project repository of artifact
  envelopes. The manifest on disk is the state; \<open>appendProjectResearchArtifacts\<close> and
  \<open>invalidateProjectResearchArtifactDescendants\<close> are transactions over it that read,
  validate, extend the artifact list and the status-event log, and seal a new manifest.
  The status of an artifact is never rewritten in place: it is the replay of the log.
\<close>

section \<open>State\<close>

datatype event_cause = New_revision | Invalidation

record status_event =
  ev_sequence :: nat
  ev_id :: string
  ev_artifact :: artifact_ref
  ev_from :: artifact_status
  ev_to :: artifact_status
  ev_cause :: event_cause
  ev_roots :: "artifact_ref list"
  ev_reason :: "invalidation_reason option"
  ev_changed :: int

record manifest =
  mf_id :: string
  mf_revision :: int
  mf_created :: int
  mf_updated :: int
  mf_artifacts :: "envelope list"
  mf_events :: "status_event list"
  mf_hash :: string

record snapshot =
  sn_id :: string
  sn_revision :: int
  sn_created :: int
  sn_updated :: int
  sn_hash :: string
  sn_artifacts :: "envelope list"

record append_result =
  ar_snapshot :: snapshot
  ar_appended :: "artifact_ref list"
  ar_idempotent :: "artifact_ref list"
  ar_superseded :: "artifact_ref list"
  ar_stale :: "artifact_ref list"
  ar_persisted :: bool

record invalidate_result =
  ir_snapshot :: snapshot
  ir_roots :: "artifact_ref list"
  ir_stale :: "artifact_ref list"
  ir_persisted :: bool

datatype repo_error =
    Invalid_input | Invalid_project_root | Path_violation | Io_error | File_too_large
  | Corrupt_json | Invalid_schema | Integrity_mismatch | Migration_required
  | Revision_conflict | Artifact_conflict | Missing_parent | Repository_busy
  | Plain_type_error

definition max_repository_bytes :: nat where
  "max_repository_bytes = 64 * 1024 * 1024"

section \<open>References and their order\<close>

definition fullRefKey :: "artifact_ref \<Rightarrow> string" where
  "fullRefKey r = ref_kind_text (ref_kind r) @ CHR '':'' # ref_id r @ CHR ''@''
     # show_int (ref_revision r) @ CHR '':'' # ref_hash r"

definition compareRefs :: "platform \<Rightarrow> artifact_ref \<Rightarrow> artifact_ref \<Rightarrow> bool" where
  "compareRefs pf x y = pf_le pf (fullRefKey x) (fullRefKey y)"

definition uniqueRefs :: "platform \<Rightarrow> artifact_ref list \<Rightarrow> artifact_ref list" where
  "uniqueRefs pf rs = sort_by (compareRefs pf) (jvals (of_keys fullRefKey rs))"

text \<open>The repository's own identifier check: one pattern, no trimming.\<close>

definition repo_id_ok :: "string \<Rightarrow> bool" where
  "repo_id_ok s \<longleftrightarrow> id_pattern s \<and> length s \<le> 256"

definition normalize_ref :: "artifact_ref \<Rightarrow> (repo_error, artifact_ref) result" where
  "normalize_ref r =
     (if ref_kind r = Claim_node \<or> \<not> repo_id_ok (ref_id r) \<or> \<not> revision_ok (ref_revision r)
         \<or> \<not> hash_ok (ref_hash r)
      then Inl Invalid_schema else Inr r)"

definition resolveRef :: "envelope list \<Rightarrow> artifact_ref \<Rightarrow> (repo_error, envelope) result" where
  "resolveRef as r =
     (case find (\<lambda>a. envelope_key a = researchArtifactKey r) as of
        None \<Rightarrow> Inl Missing_parent
      | Some a \<Rightarrow> if Stored (art_kind a) \<noteq> ref_kind r \<or> art_hash a \<noteq> ref_hash r
                  then Inl Missing_parent else Inr a)"

section \<open>JSON of what is hashed and written\<close>

definition refs_json :: "artifact_ref list \<Rightarrow> js" where
  "refs_json rs = JArr (map ref_json rs)"

definition invalidation_json :: "artifact_invalidation \<Rightarrow> js" where
  "invalidation_json v = JObj
     [(''invalidatedAt'', JStr (iso_string (inval_at v))),
      (''reason'', JStr (reason_text (inval_reason v))), (''roots'', refs_json (inval_roots v))]"

fun producer_kind_text :: "producer_kind \<Rightarrow> string" where
  "producer_kind_text User = ''user''"
| "producer_kind_text Agent = ''agent''"
| "producer_kind_text Tool = ''tool''"
| "producer_kind_text Import = ''import''"

definition producer_json :: "artifact_producer \<Rightarrow> js" where
  "producer_json p = JObj
     ((''kind'', JStr (producer_kind_text (prod_kind p))) # opt_entry ''id'' (prod_id p)
      @ opt_entry ''toolName'' (prod_tool p))"

definition envelope_json :: "envelope \<Rightarrow> js" where
  "envelope_json a = JObj
     ([(''schemaVersion'', JInt 1), (''artifactId'', JStr (art_id a)),
       (''revision'', JInt (art_revision a)), (''kind'', JStr (kind_text (art_kind a))),
       (''status'', JStr (status_text (art_status a))),
       (''createdAt'', JStr (iso_string (art_created a))),
       (''updatedAt'', JStr (iso_string (art_updated a))),
       (''contentHash'', JStr (art_hash a)), (''producer'', producer_json (art_producer a)),
       (''parents'', JArr (map parent_json (art_parents a))),
       (''sources'', JArr (map source_json (art_sources a))), (''payload'', art_payload a)]
      @ (case art_invalidation a of None \<Rightarrow> [] | Some v \<Rightarrow> [(''invalidation'', invalidation_json v)]))"

fun cause_text :: "event_cause \<Rightarrow> string" where
  "cause_text New_revision = ''new_revision''"
| "cause_text Invalidation = ''invalidation''"

text \<open>The body of an event: every field but the identifier.\<close>

definition event_body_json :: "status_event \<Rightarrow> js" where
  "event_body_json e = JObj
     ([(''sequence'', JInt (int (ev_sequence e))), (''artifact'', ref_json (ev_artifact e)),
       (''from'', JStr (status_text (ev_from e))), (''to'', JStr (status_text (ev_to e))),
       (''cause'', JStr (cause_text (ev_cause e))), (''roots'', refs_json (ev_roots e))]
      @ (case ev_reason e of None \<Rightarrow> [] | Some r \<Rightarrow> [(''reason'', JStr (reason_text r))])
      @ [(''changedAt'', JStr (iso_string (ev_changed e)))])"

definition event_json :: "status_event \<Rightarrow> js" where
  "event_json e =
     (case event_body_json e of JObj es \<Rightarrow> JObj (es @ [(''eventId'', JStr (ev_id e))]) | v \<Rightarrow> v)"

definition manifest_body :: "manifest \<Rightarrow> (string \<times> js) list" where
  "manifest_body m =
     [(''schemaVersion'', JInt 1), (''kind'', JStr ''research_artifact_repository''),
      (''repositoryId'', JStr (mf_id m)), (''revision'', JInt (mf_revision m)),
      (''createdAt'', JStr (iso_string (mf_created m))),
      (''updatedAt'', JStr (iso_string (mf_updated m))),
      (''artifacts'', JArr (map envelope_json (mf_artifacts m))),
      (''statusEvents'', JArr (map event_json (mf_events m)))]"

definition manifest_json :: "manifest \<Rightarrow> js" where
  "manifest_json m = JObj (manifest_body m @ [(''contentHash'', JStr (mf_hash m))])"

definition lift_schema :: "('e, 'a) result \<Rightarrow> (repo_error, 'a) result" where
  "lift_schema m = (case m of Inl _ \<Rightarrow> Inl Invalid_schema | Inr x \<Rightarrow> Inr x)"

definition lift_type :: "('e, 'a) result \<Rightarrow> (repo_error, 'a) result" where
  "lift_type m = (case m of Inl _ \<Rightarrow> Inl Plain_type_error | Inr x \<Rightarrow> Inr x)"

lemma lift_schema_eq [simp]: "lift_schema m = Inr x \<longleftrightarrow> m = Inr x"
  by (cases m) (auto simp: lift_schema_def)

lemma lift_type_eq [simp]: "lift_type m = Inr x \<longleftrightarrow> m = Inr x"
  by (cases m) (auto simp: lift_type_def)

section \<open>Graph, histories and embedded invalidations\<close>

definition validateCompleteArtifactGraph ::
  "platform \<Rightarrow> envelope list \<Rightarrow> (repo_error, artifact_graph) result" where
  "validateCompleteArtifactGraph pf as =
     (case buildResearchArtifactGraph (pf_le pf) as of
        Inl _ \<Rightarrow> Inl Invalid_schema
      | Inr g \<Rightarrow> if length (g_missing g) > 0 then Inl Missing_parent else Inr g)"

definition descendantKeys :: "artifact_graph \<Rightarrow> string \<Rightarrow> string list" where
  "descendantKeys g rootKey = reach_loop (g_inval_children g) [] [] [rootKey]"

definition group_step ::
  "(string, envelope list) jmap \<Rightarrow> envelope \<Rightarrow> (string, envelope list) jmap" where
  "group_step m a =
     jset (art_id a) ((case jget m (art_id a) of None \<Rightarrow> [] | Some h \<Rightarrow> h) @ [a]) m"

definition groupArtifactsById :: "envelope list \<Rightarrow> (string, envelope list) jmap" where
  "groupArtifactsById as =
     map (\<lambda>e. (fst e, sort_by (\<lambda>x y. art_revision x \<le> art_revision y) (snd e)))
       (foldl group_step [] as)"

fun check_history ::
  "artifact_kind \<Rightarrow> int \<Rightarrow> int option \<Rightarrow> envelope list \<Rightarrow> (repo_error, unit) result" where
  "check_history k expected prev [] = Inr ()"
| "check_history k expected prev (a # as) =
     (if art_revision a \<noteq> expected then Inl Revision_conflict
      else if art_kind a \<noteq> k then Inl Artifact_conflict
      else if (case prev of None \<Rightarrow> False | Some p \<Rightarrow> art_created a < p) then Inl Revision_conflict
      else check_history k (expected + 1) (Some (art_created a)) as)"

definition assertAppendOnlyRevisionSequence ::
  "envelope list \<Rightarrow> envelope list \<Rightarrow> (repo_error, unit) result" where
  "assertAppendOnlyRevisionSequence existing appended =
     rmap (\<lambda>_. ()) (traverse
       (\<lambda>e. case snd e of [] \<Rightarrow> Inr () | a # _ \<Rightarrow> check_history (art_kind a) 1 None (snd e))
       (groupArtifactsById (existing @ appended)))"

definition validateEmbeddedInvalidationRefs ::
  "envelope list \<Rightarrow> artifact_graph \<Rightarrow> (repo_error, unit) result" where
  "validateEmbeddedInvalidationRefs as g =
     rmap (\<lambda>_. ()) (traverse
       (\<lambda>a. case art_invalidation a of None \<Rightarrow> Inr ()
            | Some v \<Rightarrow> rmap (\<lambda>_. ()) (traverse
                (\<lambda>r. rbind (resolveRef as r) (\<lambda>_.
                   if envelope_key a \<notin> set (descendantKeys g (researchArtifactKey r))
                   then Inl Invalid_schema else Inr ()))
                (inval_roots v)))
       as)"

section \<open>The status log\<close>

record mstate =
  ms_status :: artifact_status
  ms_updated :: int
  ms_inval :: "artifact_invalidation option"

type_synonym states = "(string, mstate) jmap"

definition initial_states :: "envelope list \<Rightarrow> states" where
  "initial_states as = foldl (\<lambda>m a. jset (envelope_key a)
     \<lparr>ms_status = art_status a, ms_updated = art_updated a, ms_inval = art_invalidation a\<rparr> m) [] as"

text \<open>The state an event puts its artifact in.\<close>

definition event_state :: "status_event \<Rightarrow> mstate" where
  "event_state e =
     \<lparr>ms_status = ev_to e, ms_updated = ev_changed e,
      ms_inval = (case ev_cause e of New_revision \<Rightarrow> None
        | Invalidation \<Rightarrow> Some \<lparr>inval_at = ev_changed e,
            inval_reason = (case ev_reason e of Some r \<Rightarrow> r | None \<Rightarrow> Manual),
            inval_roots = ev_roots e\<rparr>)\<rparr>"

text \<open>
  The state of the replay: the events read so far, their identifiers, the time of the last
  one (none before the first, the source's negative infinity) and the artifact states.
\<close>

record replay_state =
  rp_index :: nat
  rp_ids :: "string list"
  rp_time :: "int option"
  rp_states :: states

definition valid_replacement :: "status_event \<Rightarrow> envelope \<Rightarrow> envelope list \<Rightarrow> bool" where
  "valid_replacement e a roots \<longleftrightarrow>
     (ev_from e = Active \<or> ev_from e = Stale)
     \<and> (case roots of [r] \<Rightarrow> art_id r = art_id a \<and> art_kind r = art_kind a
                            \<and> art_revision r = art_revision a + 1 \<and> art_updated r \<le> ev_changed e
        | _ \<Rightarrow> False)"

definition replay_step ::
  "envelope list \<Rightarrow> artifact_graph \<Rightarrow> replay_state \<Rightarrow> status_event \<Rightarrow> (repo_error, replay_state) result"
where
  "replay_step as g s e =
     rbind (require (ev_sequence e = rp_index s + 1) Invalid_schema) (\<lambda>_.
     rbind (require (ev_id e \<notin> set (rp_ids s)) Invalid_schema) (\<lambda>_.
     rbind (resolveRef as (ev_artifact e)) (\<lambda>a.
     rbind (traverse (resolveRef as) (ev_roots e)) (\<lambda>roots.
     case jget (rp_states s) (envelope_key a) of None \<Rightarrow> Inl Plain_type_error
     | Some st \<Rightarrow>
       rbind (require (case rp_time s of None \<Rightarrow> True | Some t \<Rightarrow> t \<le> ev_changed e) Invalid_schema) (\<lambda>_.
       rbind (require (ms_status st = ev_from e) Invalid_schema) (\<lambda>_.
       rbind (require (ms_updated st \<le> ev_changed e) Invalid_schema) (\<lambda>_.
       rbind (case ev_cause e of
                New_revision \<Rightarrow> require (valid_replacement e a roots) Invalid_schema
              | Invalidation \<Rightarrow>
                  require (ev_from e = Active
                    \<and> (\<forall>r \<in> set roots. envelope_key a \<in> set (descendantKeys g (envelope_key r))))
                    Invalid_schema) (\<lambda>_.
         Inr \<lparr>rp_index = rp_index s + 1, rp_ids = sadd (ev_id e) (rp_ids s),
              rp_time = Some (ev_changed e),
              rp_states = jset (envelope_key a) (event_state e) (rp_states s)\<rparr>)))))))) "

definition replay_start :: "envelope list \<Rightarrow> replay_state" where
  "replay_start as = \<lparr>rp_index = 0, rp_ids = [], rp_time = None, rp_states = initial_states as\<rparr>"

definition replayStatusEvents ::
  "envelope list \<Rightarrow> status_event list \<Rightarrow> artifact_graph \<Rightarrow> (repo_error, states) result" where
  "replayStatusEvents as es g = rmap rp_states (rfold (replay_step as g) (replay_start as) es)"

definition statusEventId :: "platform \<Rightarrow> status_event \<Rightarrow> (repo_error, string) result" where
  "statusEventId pf e =
     rmap (\<lambda>h. ''artifact-status-'' @ show_nat (ev_sequence e) @ CHR ''-'' # take 16 (drop 7 h))
       (lift_type (hashResearchArtifactContent pf (event_body_json e)))"

record log_state =
  lg_events :: "status_event list"
  lg_states :: states

definition appendStatusEvent ::
  "platform \<Rightarrow> log_state \<Rightarrow> envelope \<Rightarrow> artifact_status \<Rightarrow> event_cause \<Rightarrow> artifact_ref list
     \<Rightarrow> invalidation_reason option \<Rightarrow> int \<Rightarrow> (repo_error, log_state) result" where
  "appendStatusEvent pf s a to cause roots reason changedAt =
     (case jget (lg_states s) (envelope_key a) of None \<Rightarrow> Inl Plain_type_error
      | Some st \<Rightarrow>
          if ms_status st = to then Inr s
          else if changedAt < ms_updated st then Inl Revision_conflict
          else
            let body = \<lparr>ev_sequence = length (lg_events s) + 1, ev_id = [],
                        ev_artifact = toResearchArtifactRef a, ev_from = ms_status st, ev_to = to,
                        ev_cause = cause, ev_roots = uniqueRefs pf roots, ev_reason = reason,
                        ev_changed = changedAt\<rparr>
            in rmap (\<lambda>i. \<lparr>lg_events = lg_events s @ [body\<lparr>ev_id := i\<rparr>],
                          lg_states = jset (envelope_key a) (event_state (body\<lparr>ev_id := i\<rparr>))
                                        (lg_states s)\<rparr>)
                 (statusEventId pf body))"

section \<open>Precise invalidation\<close>

type_synonym root_map = "(string, (string, artifact_ref) jmap) jmap"

definition opt_map :: "('k, 'v) jmap option \<Rightarrow> ('k, 'v) jmap" where
  "opt_map m = (case m of None \<Rightarrow> [] | Some x \<Rightarrow> x)"

definition add_root :: "artifact_ref \<Rightarrow> string \<Rightarrow> root_map \<Rightarrow> root_map" where
  "add_root r c m = jset c (jset (fullRefKey r) r (opt_map (jget m c))) m"

text \<open>
  The inner loop of \<open>appendPreciseInvalidationEvents\<close> for one root: a breadth-first walk
  that records the root for every child edge it follows, explicit roots excepted.
\<close>

definition trace_kid ::
  "string list \<Rightarrow> artifact_ref \<Rightarrow> (string list \<times> string list) \<times> root_map \<Rightarrow> string
     \<Rightarrow> (string list \<times> string list) \<times> root_map" where
  "trace_kid explicit r s c =
     (enqueue_kid [] (fst s) c, if c \<in> set explicit then snd s else add_root r c (snd s))"

lemma foldl_trace_kid:
  "foldl (trace_kid ex r) (vq, m) cs =
     (foldl (enqueue_kid []) vq cs,
      foldl (\<lambda>m c. if c \<in> set ex then m else add_root r c m) m cs)"
  by (induction cs arbitrary: vq m) (simp_all add: trace_kid_def)

function trace_loop ::
  "adjacency \<Rightarrow> string list \<Rightarrow> artifact_ref \<Rightarrow> string list \<Rightarrow> string list \<Rightarrow> root_map \<Rightarrow> root_map" where
  "trace_loop ch explicit r visited [] m = m"
| "trace_loop ch explicit r visited (k # queue) m =
     (let s = foldl (trace_kid explicit r) ((visited, queue), m) (kids ch k)
      in trace_loop ch explicit r (fst (fst s)) (snd (fst s)) (snd s))"
  by pat_completeness auto
termination
proof (relation "measures [\<lambda>(ch, ex, r, v, q, m). card (adj_nodes ch - set v),
                           \<lambda>(ch, ex, r, v, q, m). length q]", goal_cases)
  case 1
  show ?case by simp
next
  case (2 ch ex r v k q m s)
  from foldl_enqueue_kid [of "[]" v q "kids ch k"] obtain new where
    new: "fst s = (v @ new, q @ new)" "set new \<subseteq> set (kids ch k)" "set new \<inter> set v = {}"
    using 2 by (auto simp: foldl_trace_kid)
  show ?case
  proof (cases new)
    case Nil
    with new show ?thesis by simp
  next
    case (Cons c new')
    with new have "c \<in> adj_nodes ch" "c \<notin> set v" by (auto intro: kids_in_nodes)
    then have "adj_nodes ch - set (v @ new) \<subset> adj_nodes ch - set v" using Cons by auto
    with new show ?thesis by (simp add: psubset_card_mono)
  qed
qed

definition roots_by_descendant :: "artifact_graph \<Rightarrow> artifact_ref list \<Rightarrow> root_map" where
  "roots_by_descendant g roots =
     foldl (\<lambda>m r. trace_loop (g_inval_children g)
                   (foldl (\<lambda>s x. sadd (researchArtifactKey x) s) [] roots)
                   r [researchArtifactKey r] [researchArtifactKey r] m) [] roots"

text \<open>The second half: one event per active descendant, in key order.\<close>

definition invalidate_descendant ::
  "platform \<Rightarrow> envelope list \<Rightarrow> root_map \<Rightarrow> invalidation_reason \<Rightarrow> int
     \<Rightarrow> log_state \<times> artifact_ref list \<Rightarrow> string \<Rightarrow> (repo_error, log_state \<times> artifact_ref list) result" where
  "invalidate_descendant pf as m reason changedAt s k =
     (case (jget (by_key as) k, jget (lg_states (fst s)) k) of
        (Some a, Some st) \<Rightarrow>
          if ms_status st \<noteq> Active then Inr s
          else rmap (\<lambda>l. (l, snd s @ [toResearchArtifactRef a]))
                 (appendStatusEvent pf (fst s) a Stale Invalidation
                    (jvals (opt_map (jget m k))) (Some reason) changedAt)
      | _ \<Rightarrow> Inr s)"

definition appendPreciseInvalidationEvents ::
  "platform \<Rightarrow> artifact_graph \<Rightarrow> envelope list \<Rightarrow> log_state \<Rightarrow> artifact_ref list
     \<Rightarrow> invalidation_reason \<Rightarrow> int \<Rightarrow> (repo_error, log_state \<times> artifact_ref list) result" where
  "appendPreciseInvalidationEvents pf g as s roots reason changedAt =
     (if roots = [] then Inr (s, [])
      else let m = roots_by_descendant g roots in
        rmap (\<lambda>r. (fst r, sort_by (compareRefs pf) (snd r)))
          (rfold (invalidate_descendant pf as m reason changedAt) (s, [])
             (sort_by (pf_le pf) (jkeys m))))"

section \<open>Envelopes and manifests read back\<close>

definition cloneCanonical :: "platform \<Rightarrow> js \<Rightarrow> (repo_error, js) result" where
  "cloneCanonical pf v =
     rbind (lift_schema (canonicalJson pf v)) (\<lambda>t.
       case json_parse t of None \<Rightarrow> Inl Invalid_schema | Some w \<Rightarrow> Inr w)"

definition assertCanonicalShape :: "platform \<Rightarrow> js \<Rightarrow> js \<Rightarrow> (repo_error, unit) result" where
  "assertCanonicalShape pf v n =
     rbind (lift_schema (canonicalJson pf v)) (\<lambda>x.
     rbind (lift_schema (canonicalJson pf n)) (\<lambda>y. require (x = y) Invalid_schema))"

fun js_entry :: "js \<Rightarrow> string \<Rightarrow> js option" where
  "js_entry (JObj es) k = map_of es k"
| "js_entry _ k = None"

fun is_object :: "js \<Rightarrow> bool" where
  "is_object (JObj es) = True"
| "is_object _ = False"

definition isLegacyLiteratureNoveltyRescanEnvelope :: "artifact_kind \<Rightarrow> js \<Rightarrow> bool" where
  "isLegacyLiteratureNoveltyRescanEnvelope k v \<longleftrightarrow>
     k = Candidate_portfolio \<and> is_object v \<and> js_entry v ''schemaVersion'' = Some (JInt 1)
     \<and> js_entry v ''kind'' = Some (JStr ''candidate_portfolio'')
     \<and> js_entry v ''rescan'' \<noteq> None"

definition validateArtifactPayloadContract :: "artifact_kind \<Rightarrow> js \<Rightarrow> (repo_error, unit) result" where
  "validateArtifactPayloadContract k v =
     (if k = Candidate_portfolio then
        rbind (require (is_object v) Invalid_schema) (\<lambda>_.
        rbind (require (js_entry v ''schemaVersion'' = Some (JInt 1)
                 \<and> js_entry v ''kind'' = Some (JStr ''candidate_portfolio'')) Invalid_schema) (\<lambda>_.
          require (js_entry v ''rescan'' = None) Invalid_schema))
      else if k \<noteq> Literature_novelty_rescan then Inr ()
      else
        rbind (require (is_object v) Invalid_schema) (\<lambda>_.
        rbind (require (js_entry v ''schemaVersion'' = Some (JInt 1)
                 \<and> js_entry v ''kind'' = Some (JStr ''literature_novelty_rescan'')) Invalid_schema) (\<lambda>_.
          case js_entry v ''rescan'' of None \<Rightarrow> Inl Invalid_schema
          | Some w \<Rightarrow> require (is_object w \<and> js_entry w ''schemaVersion'' = Some (JInt 1)
                 \<and> js_entry w ''kind'' = Some (JStr ''candidate_novelty_value_rescan'')) Invalid_schema)))"

definition normalizeInvalidation ::
  "platform \<Rightarrow> artifact_invalidation \<Rightarrow> (repo_error, artifact_invalidation) result" where
  "normalizeInvalidation pf v =
     rbind (require (inval_roots v \<noteq> []) Invalid_schema) (\<lambda>_.
     rbind (traverse normalize_ref (inval_roots v)) (\<lambda>rs.
       Inr (v\<lparr>inval_roots := uniqueRefs pf rs\<rparr>)))"

definition opt_invalidation ::
  "platform \<Rightarrow> artifact_invalidation option \<Rightarrow> (repo_error, artifact_invalidation option) result" where
  "opt_invalidation pf m =
     (case m of None \<Rightarrow> Inr None | Some v \<Rightarrow> rmap Some (normalizeInvalidation pf v))"

definition normalizeEnvelope :: "platform \<Rightarrow> envelope \<Rightarrow> (repo_error, envelope) result" where
  "normalizeEnvelope pf a =
     rbind (require (art_created a \<le> art_updated a) Invalid_schema) (\<lambda>_.
     rbind (cloneCanonical pf (art_payload a)) (\<lambda>payload.
     rbind (require (\<not> isLegacyLiteratureNoveltyRescanEnvelope (art_kind a) payload)
              Migration_required) (\<lambda>_.
     rbind (validateArtifactPayloadContract (art_kind a) payload) (\<lambda>_.
     rbind (lift_schema (createResearchArtifact pf []
              \<lparr>ci_kind = art_kind a, ci_payload = payload, ci_producer = art_producer a,
               ci_parents = Some (art_parents a), ci_sources = Some (art_sources a),
               ci_id = Some (art_id a), ci_revision = Some (art_revision a),
               ci_status = Some (art_status a), ci_now = art_created a\<rparr>)) (\<lambda>rebuilt.
     rbind (require (hash_ok (art_hash a)) Invalid_schema) (\<lambda>_.
     rbind (require (art_hash rebuilt = art_hash a) Integrity_mismatch) (\<lambda>_.
     rbind (opt_invalidation pf (art_invalidation a)) (\<lambda>inval.
     rbind (require (inval = None \<or> art_status rebuilt = Stale) Invalid_schema) (\<lambda>_.
     rbind (require (case inval of None \<Rightarrow> True
              | Some v \<Rightarrow> art_created a \<le> inval_at v \<and> inval_at v \<le> art_updated a) Invalid_schema) (\<lambda>_.
     let normalized = rebuilt\<lparr>art_created := art_created a, art_updated := art_updated a,
                        art_hash := art_hash a, art_payload := payload,
                        art_invalidation := inval\<rparr> in
     rbind (assertCanonicalShape pf (envelope_json a) (envelope_json normalized)) (\<lambda>_.
       Inr normalized)))))))))))"

definition normalizeStatusEvent ::
  "platform \<Rightarrow> nat \<Rightarrow> status_event \<Rightarrow> (repo_error, status_event) result" where
  "normalizeStatusEvent pf sequence e =
     rbind (require (ev_sequence e = sequence) Invalid_schema) (\<lambda>_.
     rbind (require (ev_from e \<noteq> ev_to e) Invalid_schema) (\<lambda>_.
     rbind (require (ev_roots e \<noteq> []) Invalid_schema) (\<lambda>_.
     rbind (traverse normalize_ref (ev_roots e)) (\<lambda>rs.
     rbind (require (ev_cause e = New_revision \<longrightarrow> ev_to e = Superseded \<and> ev_reason e = None)
              Invalid_schema) (\<lambda>_.
     rbind (require (ev_cause e = Invalidation \<longrightarrow> ev_to e = Stale \<and> ev_reason e \<noteq> None)
              Invalid_schema) (\<lambda>_.
     rbind (require (repo_id_ok (ev_id e)) Invalid_schema) (\<lambda>_.
     rbind (normalize_ref (ev_artifact e)) (\<lambda>a.
     let normalized = e\<lparr>ev_roots := uniqueRefs pf rs, ev_artifact := a\<rparr> in
     rbind (assertCanonicalShape pf (event_json e) (event_json normalized)) (\<lambda>_.
     rbind (statusEventId pf normalized) (\<lambda>i.
     rbind (require (i = ev_id e) Integrity_mismatch) (\<lambda>_.
       Inr normalized)))))))))))"

fun normalize_events ::
  "platform \<Rightarrow> nat \<Rightarrow> status_event list \<Rightarrow> (repo_error, status_event list) result" where
  "normalize_events pf n [] = Inr []"
| "normalize_events pf n (e # es) =
     rbind (normalizeStatusEvent pf n e) (\<lambda>e'.
     rbind (normalize_events pf (Suc n) es) (\<lambda>es'. Inr (e' # es')))"

definition validateResearchArtifactRepositoryManifest ::
  "platform \<Rightarrow> manifest \<Rightarrow> (repo_error, manifest) result" where
  "validateResearchArtifactRepositoryManifest pf m =
     rbind (traverse (normalizeEnvelope pf) (mf_artifacts m)) (\<lambda>as.
     rbind (normalize_events pf 1 (mf_events m)) (\<lambda>es.
     rbind (require (repo_id_ok (mf_id m)) Invalid_schema) (\<lambda>_.
     rbind (require (revision_ok (mf_revision m)) Invalid_schema) (\<lambda>_.
     rbind (require (mf_created m \<le> mf_updated m) Invalid_schema) (\<lambda>_.
     rbind (require (hash_ok (mf_hash m)) Invalid_schema) (\<lambda>_.
     let n = m\<lparr>mf_artifacts := as, mf_events := es\<rparr> in
     rbind (lift_type (hashResearchArtifactContent pf (JObj (manifest_body n)))) (\<lambda>h.
     rbind (require (h = mf_hash m) Integrity_mismatch) (\<lambda>_.
     rbind (validateCompleteArtifactGraph pf as) (\<lambda>g.
     rbind (assertAppendOnlyRevisionSequence [] as) (\<lambda>_.
     rbind (validateEmbeddedInvalidationRefs as g) (\<lambda>_.
     rbind (replayStatusEvents as es g) (\<lambda>_.
     rbind (require (\<forall>a \<in> set as. art_updated a \<le> mf_updated m) Invalid_schema) (\<lambda>_.
     rbind (require (\<forall>e \<in> set es. ev_changed e \<le> mf_updated m) Invalid_schema) (\<lambda>_.
     rbind (assertCanonicalShape pf (manifest_json m) (manifest_json n)) (\<lambda>_.
       Inr n)))))))))))))))"

section \<open>Transactions\<close>

text \<open>\<open>manifest.artifacts\<close> with the status the log gives each of them.\<close>

definition materialize :: "states \<Rightarrow> envelope \<Rightarrow> (repo_error, envelope) result" where
  "materialize states a =
     (case jget states (envelope_key a) of None \<Rightarrow> Inl Invalid_schema
      | Some st \<Rightarrow> Inr (a\<lparr>art_status := ms_status st, art_updated := ms_updated st,
                         art_invalidation := ms_inval st\<rparr>))"

definition materializeArtifacts ::
  "platform \<Rightarrow> envelope list \<Rightarrow> status_event list \<Rightarrow> (repo_error, envelope list) result" where
  "materializeArtifacts pf as es =
     rbind (validateCompleteArtifactGraph pf as) (\<lambda>g.
     rbind (replayStatusEvents as es g) (\<lambda>states. traverse (materialize states) as))"

definition snapshotOf :: "platform \<Rightarrow> manifest \<Rightarrow> (repo_error, snapshot) result" where
  "snapshotOf pf m =
     rmap (\<lambda>as. \<lparr>sn_id = mf_id m, sn_revision = mf_revision m, sn_created = mf_created m,
                 sn_updated = mf_updated m, sn_hash = mf_hash m, sn_artifacts = as\<rparr>)
       (materializeArtifacts pf (mf_artifacts m) (mf_events m))"

definition sealManifest :: "platform \<Rightarrow> manifest \<Rightarrow> (repo_error, manifest) result" where
  "sealManifest pf m =
     rmap (\<lambda>h. m\<lparr>mf_hash := h\<rparr>)
       (lift_type (hashResearchArtifactContent pf (JObj (manifest_body m))))"

definition createEmptyManifest :: "platform \<Rightarrow> string \<Rightarrow> int \<Rightarrow> (repo_error, manifest) result" where
  "createEmptyManifest pf uuid now =
     sealManifest pf \<lparr>mf_id = ''artifact-repository-'' @ uuid, mf_revision = 1,
       mf_created = now, mf_updated = now, mf_artifacts = [], mf_events = [], mf_hash = []\<rparr>"

definition sameCanonical :: "platform \<Rightarrow> envelope \<Rightarrow> envelope \<Rightarrow> (repo_error, bool) result" where
  "sameCanonical pf a b =
     rbind (lift_type (canonicalJson pf (envelope_json a))) (\<lambda>x.
     rbind (lift_type (canonicalJson pf (envelope_json b))) (\<lambda>y. Inr (x = y)))"

definition supply_step ::
  "platform \<Rightarrow> (string, envelope) jmap \<Rightarrow> envelope \<Rightarrow> (repo_error, (string, envelope) jmap) result" where
  "supply_step pf byKey v =
     rbind (normalizeEnvelope pf v) (\<lambda>a.
     rbind (case jget byKey (envelope_key a) of None \<Rightarrow> Inr True
            | Some e \<Rightarrow> sameCanonical pf e a) (\<lambda>same.
     rbind (require same Artifact_conflict) (\<lambda>_. Inr (jset (envelope_key a) a byKey))))"

definition normalizeSuppliedArtifacts ::
  "platform \<Rightarrow> envelope list \<Rightarrow> (repo_error, envelope list) result" where
  "normalizeSuppliedArtifacts pf as = rmap jvals (rfold (supply_step pf) [] as)"

definition assertTransactionTime :: "manifest \<Rightarrow> int \<Rightarrow> (repo_error, unit) result" where
  "assertTransactionTime m now = require (mf_updated m \<le> now) Revision_conflict"

definition normalizeExpectedRevision :: "int option \<Rightarrow> (repo_error, int option) result" where
  "normalizeExpectedRevision v =
     (case v of None \<Rightarrow> Inr None
      | Some i \<Rightarrow> if i > max_safe_integer \<or> i < 0 then Inl Invalid_input else Inr (Some i))"

definition assertExpectedRevision :: "int \<Rightarrow> int option \<Rightarrow> (repo_error, unit) result" where
  "assertExpectedRevision actual expected =
     require (expected = None \<or> expected = Some actual) Revision_conflict"

text \<open>
  The manifest file is absent or holds one manifest. Reading validates it; writing refuses
  a text longer than the limit. The two-space \<open>JSON.stringify\<close> text is measured, the file
  content itself is represented by the manifest it encodes.
\<close>

type_synonym disk = "manifest option"

definition readManifest :: "platform \<Rightarrow> disk \<Rightarrow> (repo_error, manifest option) result" where
  "readManifest pf d =
     (case d of None \<Rightarrow> Inr None
      | Some m \<Rightarrow> rbind (require (utf8_length (pretty 0 (manifest_json m)) + 1 \<le> max_repository_bytes)
                           File_too_large) (\<lambda>_.
                  rmap Some (validateResearchArtifactRepositoryManifest pf m)))"

definition writeManifestAtomically :: "manifest \<Rightarrow> (repo_error, disk) result" where
  "writeManifestAtomically m =
     rbind (require (utf8_length (pretty 0 (manifest_json m)) + 1 \<le> max_repository_bytes)
              File_too_large) (\<lambda>_. Inr (Some m))"

section \<open>Appending\<close>

record append_input =
  ai_artifacts :: "envelope list"
  ai_expected :: "int option"
  ai_now :: int
  ai_uuid :: string

record partition_state =
  pt_byKey :: "(string, envelope) jmap"
  pt_appended :: "envelope list"
  pt_idempotent :: "artifact_ref list"

text \<open>The first loop of the transaction: new artifacts and idempotent repetitions.\<close>

definition partition_step ::
  "platform \<Rightarrow> partition_state \<Rightarrow> envelope \<Rightarrow> (repo_error, partition_state) result" where
  "partition_step pf s a =
     (case jget (pt_byKey s) (envelope_key a) of
        None \<Rightarrow> Inr (s\<lparr>pt_appended := pt_appended s @ [a],
                       pt_byKey := jset (envelope_key a) a (pt_byKey s)\<rparr>)
      | Some p \<Rightarrow>
          rbind (sameCanonical pf p a) (\<lambda>same.
          rbind (require same Artifact_conflict) (\<lambda>_.
            Inr (s\<lparr>pt_idempotent := pt_idempotent s @ [toResearchArtifactRef p]\<rparr>))))"

record supersede_state =
  su_log :: log_state
  su_superseded :: "artifact_ref list"
  su_updated :: "artifact_ref list"

text \<open>
  The body of the loop over one history for \<open>previous = history[index - 1]\<close> and
  \<open>current = history[index]\<close>.
\<close>

definition supersede_pair ::
  "platform \<Rightarrow> string list \<Rightarrow> int \<Rightarrow> supersede_state \<Rightarrow> envelope \<times> envelope
     \<Rightarrow> (repo_error, supersede_state) result" where
  "supersede_pair pf appendedKeys now s pc =
     (if envelope_key (snd pc) \<notin> set appendedKeys then Inr s
      else
        let previous = fst pc; prev_ref = toResearchArtifactRef previous;
            s' = s\<lparr>su_updated := su_updated s @ [prev_ref]\<rparr>
        in case jget (lg_states (su_log s)) (envelope_key previous) of
             None \<Rightarrow> Inr s'
           | Some st \<Rightarrow>
               if ms_status st = Active \<or> ms_status st = Stale
               then rmap (\<lambda>l. s'\<lparr>su_log := l, su_superseded := su_superseded s' @ [prev_ref]\<rparr>)
                      (appendStatusEvent pf (su_log s) previous Superseded New_revision
                         [toResearchArtifactRef (snd pc)] None now)
               else Inr s')"

definition adjacent :: "'a list \<Rightarrow> ('a \<times> 'a) list" where
  "adjacent xs = zip xs (tl xs)"

definition supersede_all ::
  "platform \<Rightarrow> string list \<Rightarrow> int \<Rightarrow> envelope list \<Rightarrow> log_state \<Rightarrow> (repo_error, supersede_state) result"
where
  "supersede_all pf appendedKeys now as l =
     rfold (supersede_pair pf appendedKeys now) \<lparr>su_log = l, su_superseded = [], su_updated = []\<rparr>
       (concat (map (\<lambda>e. adjacent (snd e)) (groupArtifactsById as)))"

definition not_active :: "states \<Rightarrow> envelope \<Rightarrow> bool" where
  "not_active states a =
     (case jget states (envelope_key a) of None \<Rightarrow> True | Some st \<Rightarrow> ms_status st \<noteq> Active)"

record commit =
  cm_log :: log_state
  cm_superseded :: "artifact_ref list"
  cm_stale :: "artifact_ref list"

text \<open>The events one append adds: replacements first, then inherited staleness.\<close>

definition append_events ::
  "platform \<Rightarrow> envelope list \<Rightarrow> envelope list \<Rightarrow> status_event list \<Rightarrow> int \<Rightarrow> (repo_error, commit) result"
where
  "append_events pf base appended es now =
     rbind (require (\<forall>a \<in> set appended. art_updated a \<le> now) Revision_conflict) (\<lambda>_.
     rbind (assertAppendOnlyRevisionSequence base appended) (\<lambda>_.
     let artifacts = base @ appended in
     rbind (validateCompleteArtifactGraph pf artifacts) (\<lambda>g.
     rbind (validateEmbeddedInvalidationRefs artifacts g) (\<lambda>_.
     rbind (replayStatusEvents artifacts es g) (\<lambda>states.
     rbind (supersede_all pf (map envelope_key appended) now artifacts
              \<lparr>lg_events = es, lg_states = states\<rparr>) (\<lambda>su.
     let inherited = map toResearchArtifactRef
           (filter (not_active (lg_states (su_log su))) artifacts) in
     rbind (appendPreciseInvalidationEvents pf g artifacts (su_log su)
              (uniqueRefs pf (su_updated su @ inherited)) Upstream_changed now) (\<lambda>r.
       Inr \<lparr>cm_log = fst r, cm_superseded = su_superseded su, cm_stale = snd r\<rparr>)))))))"

definition appendProjectResearchArtifacts ::
  "platform \<Rightarrow> append_input \<Rightarrow> disk \<Rightarrow> (repo_error, disk \<times> append_result) result" where
  "appendProjectResearchArtifacts pf input d =
     rbind (require (ai_artifacts input \<noteq> []) Invalid_input) (\<lambda>_.
     rbind (normalizeExpectedRevision (ai_expected input)) (\<lambda>expected.
     rbind (normalizeSuppliedArtifacts pf (ai_artifacts input)) (\<lambda>supplied.
     rbind (readManifest pf d) (\<lambda>existing.
     rbind (assertExpectedRevision (case existing of None \<Rightarrow> 0 | Some m \<Rightarrow> mf_revision m) expected) (\<lambda>_.
     rbind (case existing of Some m \<Rightarrow> Inr m
            | None \<Rightarrow> createEmptyManifest pf (ai_uuid input) (ai_now input)) (\<lambda>base.
     rbind (rfold (partition_step pf)
              \<lparr>pt_byKey = of_keys envelope_key (mf_artifacts base), pt_appended = [],
               pt_idempotent = []\<rparr> supplied) (\<lambda>pt.
     if pt_appended pt = [] then
       rmap (\<lambda>sn. (d, \<lparr>ar_snapshot = sn, ar_appended = [],
          ar_idempotent = sort_by (compareRefs pf) (pt_idempotent pt),
          ar_superseded = [], ar_stale = [], ar_persisted = False\<rparr>)) (snapshotOf pf base)
     else
       rbind (assertTransactionTime base (ai_now input)) (\<lambda>_.
       rbind (append_events pf (mf_artifacts base) (pt_appended pt) (mf_events base)
                (ai_now input)) (\<lambda>c.
       rbind (sealManifest pf
                \<lparr>mf_id = mf_id base,
                 mf_revision = (case existing of None \<Rightarrow> 1 | Some m \<Rightarrow> mf_revision m + 1),
                 mf_created = mf_created base, mf_updated = ai_now input,
                 mf_artifacts = mf_artifacts base @ pt_appended pt,
                 mf_events = lg_events (cm_log c), mf_hash = []\<rparr>) (\<lambda>m.
       rbind (writeManifestAtomically m) (\<lambda>d'.
       rmap (\<lambda>sn. (d', \<lparr>ar_snapshot = sn,
            ar_appended = sort_by (compareRefs pf) (map toResearchArtifactRef (pt_appended pt)),
            ar_idempotent = sort_by (compareRefs pf) (pt_idempotent pt),
            ar_superseded = uniqueRefs pf (cm_superseded c), ar_stale = cm_stale c,
            ar_persisted = True\<rparr>)) (snapshotOf pf m)))))))))))) "

section \<open>Invalidating\<close>

record invalidate_input =
  ii_roots :: "artifact_ref list"
  ii_reason :: invalidation_reason
  ii_expected :: "int option"
  ii_now :: int

definition invalidateProjectResearchArtifactDescendants ::
  "platform \<Rightarrow> invalidate_input \<Rightarrow> disk \<Rightarrow> (repo_error, disk \<times> invalidate_result) result" where
  "invalidateProjectResearchArtifactDescendants pf input d =
     rbind (require (ii_roots input \<noteq> []) Invalid_input) (\<lambda>_.
     rbind (rmap (uniqueRefs pf) (traverse normalize_ref (ii_roots input))) (\<lambda>roots.
     rbind (normalizeExpectedRevision (ii_expected input)) (\<lambda>expected.
     rbind (readManifest pf d) (\<lambda>existing.
     case existing of None \<Rightarrow> Inl Missing_parent
     | Some ex \<Rightarrow>
       rbind (assertExpectedRevision (mf_revision ex) expected) (\<lambda>_.
       rbind (validateCompleteArtifactGraph pf (mf_artifacts ex)) (\<lambda>g.
       rbind (traverse (resolveRef (mf_artifacts ex)) roots) (\<lambda>_.
       rbind (replayStatusEvents (mf_artifacts ex) (mf_events ex) g) (\<lambda>states.
       rbind (appendPreciseInvalidationEvents pf g (mf_artifacts ex)
                \<lparr>lg_events = mf_events ex, lg_states = states\<rparr> roots (ii_reason input)
                (ii_now input)) (\<lambda>r.
       if snd r = [] then
         rmap (\<lambda>sn. (d, \<lparr>ir_snapshot = sn, ir_roots = roots, ir_stale = [], ir_persisted = False\<rparr>))
           (snapshotOf pf ex)
       else
         rbind (assertTransactionTime ex (ii_now input)) (\<lambda>_.
         rbind (sealManifest pf
                  \<lparr>mf_id = mf_id ex, mf_revision = mf_revision ex + 1,
                   mf_created = mf_created ex, mf_updated = ii_now input,
                   mf_artifacts = mf_artifacts ex, mf_events = lg_events (fst r),
                   mf_hash = []\<rparr>) (\<lambda>m.
         rbind (writeManifestAtomically m) (\<lambda>d'.
         rmap (\<lambda>sn. (d', \<lparr>ir_snapshot = sn, ir_roots = roots, ir_stale = snd r,
                         ir_persisted = True\<rparr>)) (snapshotOf pf m))))))))))))) "

section \<open>Queries\<close>

definition loadProjectResearchArtifactRepository ::
  "platform \<Rightarrow> disk \<Rightarrow> (repo_error, snapshot option) result" where
  "loadProjectResearchArtifactRepository pf d =
     rbind (readManifest pf d) (\<lambda>m.
       case m of None \<Rightarrow> Inr None | Some x \<Rightarrow> rmap Some (snapshotOf pf x))"

definition loaded_artifacts :: "snapshot option \<Rightarrow> envelope list" where
  "loaded_artifacts s = (case s of None \<Rightarrow> [] | Some x \<Rightarrow> sn_artifacts x)"

definition getProjectResearchArtifact ::
  "platform \<Rightarrow> disk \<Rightarrow> string \<Rightarrow> int \<Rightarrow> (repo_error, envelope option) result" where
  "getProjectResearchArtifact pf d i r =
     rbind (require (repo_id_ok i) Invalid_schema) (\<lambda>_.
     rbind (require (revision_ok r) Invalid_schema) (\<lambda>_.
     rmap (\<lambda>s. find (\<lambda>a. art_id a = i \<and> art_revision a = r) (loaded_artifacts s))
       (loadProjectResearchArtifactRepository pf d)))"

definition getProjectResearchArtifactHistory ::
  "platform \<Rightarrow> disk \<Rightarrow> string \<Rightarrow> (repo_error, envelope list) result" where
  "getProjectResearchArtifactHistory pf d i =
     rbind (require (repo_id_ok i) Invalid_schema) (\<lambda>_.
     rmap (\<lambda>s. sort_by (\<lambda>x y. art_revision x \<le> art_revision y)
                 (filter (\<lambda>a. art_id a = i) (loaded_artifacts s)))
       (loadProjectResearchArtifactRepository pf d))"

definition getLatestProjectResearchArtifact ::
  "platform \<Rightarrow> disk \<Rightarrow> string \<Rightarrow> (repo_error, envelope option) result" where
  "getLatestProjectResearchArtifact pf d i =
     rbind (require (repo_id_ok i) Invalid_schema) (\<lambda>_.
     rmap (\<lambda>h. if h = [] then None else Some (last h))
       (getProjectResearchArtifactHistory pf d i))"

definition listLatestProjectResearchArtifacts ::
  "platform \<Rightarrow> disk \<Rightarrow> artifact_kind option \<Rightarrow> artifact_status option
     \<Rightarrow> (repo_error, envelope list) result" where
  "listLatestProjectResearchArtifacts pf d k st =
     rmap (\<lambda>s. filter (\<lambda>a. (k = None \<or> k = Some (art_kind a)) \<and> (st = None \<or> st = Some (art_status a)))
                 (latestResearchArtifactRevisions (pf_le pf) (loaded_artifacts s)))
       (loadProjectResearchArtifactRepository pf d)"

end
