(* ===== verification/Repository_Log.thy ===== *)
theory Repository_Log
  imports Artifact_Repository
begin

text \<open>
  The status log of \<open>src/research/artifacts/repository.ts\<close>: what a replay establishes,
  and that \<open>appendStatusEvent\<close>, the supersession loop and
  \<open>appendPreciseInvalidationEvents\<close> only ever extend a log that replays to a log that
  replays.
\<close>

named_theorems log_intros \<open>ingredients of a log that replays\<close>

section \<open>References that resolve\<close>

lemma resolve_own:
  assumes "a \<in> set as" "distinct (map envelope_key as)"
  shows "resolveRef as (toResearchArtifactRef a) = Inr a"
proof -
  have "find (\<lambda>x. envelope_key x = envelope_key a) as = Some a"
    using assms
  proof (induction as)
    case (Cons x xs)
    then show ?case by (cases "x = a") (auto simp: image_iff)
  qed simp
  then show ?thesis by (simp add: resolveRef_def toResearchArtifactRef_def researchArtifactKey_def envelope_key_def)
qed

lemma resolveRef_InrD:
  "resolveRef as r = Inr a \<Longrightarrow>
     a \<in> set as \<and> envelope_key a = researchArtifactKey r \<and> Stored (art_kind a) = ref_kind r
     \<and> art_hash a = ref_hash r"
  by (auto simp: resolveRef_def find_Some_iff split: option.splits if_splits)

lemma traverse_resolve_own:
  "distinct (map envelope_key as) \<Longrightarrow> set rs \<subseteq> toResearchArtifactRef ` set as \<Longrightarrow>
     \<exists>xs. traverse (resolveRef as) rs = Inr xs \<and> set xs \<subseteq> set as
          \<and> rs = map toResearchArtifactRef xs"
proof (induction rs)
  case (Cons r rs)
  then obtain a xs where "a \<in> set as" "r = toResearchArtifactRef a"
    "traverse (resolveRef as) rs = Inr xs" "set xs \<subseteq> set as" "rs = map toResearchArtifactRef xs"
    by auto
  with Cons.prems(1) show ?case by (auto simp: resolve_own)
qed simp

lemma descendantKeys_causal:
  assumes "buildResearchArtifactGraph le as = Inr g"
  shows "set (descendantKeys g k) = (causal as)\<^sup>+ `` {k}"
  by (simp add: descendantKeys_def reach_loop_closure build_graph_edges(2) [OF assms]
      del: reach_loop.simps)

section \<open>Replays\<close>

definition numbered :: "status_event list \<Rightarrow> bool" where
  "numbered es \<longleftrightarrow> (\<forall>i < length es. ev_sequence (es ! i) = i + 1)"

lemma numbered_snoc: "numbered (es @ [e]) \<longleftrightarrow> numbered es \<and> ev_sequence e = length es + 1"
  by (auto simp: numbered_def nth_append less_Suc_eq)

lemma numbered_le: "numbered es \<Longrightarrow> e \<in> set es \<Longrightarrow> ev_sequence e \<le> length es"
  by (auto simp: numbered_def in_set_conv_nth)

definition replay :: "envelope list \<Rightarrow> artifact_graph \<Rightarrow> status_event list \<Rightarrow> (repo_error, replay_state) result" where
  "replay as g es = rfold (replay_step as g) (replay_start as) es"

lemma replay_snoc: "replay as g (es @ [e]) = rbind (replay as g es) (\<lambda>s. replay_step as g s e)"
  by (simp add: replay_def rfold_append rbind_def split: sum.splits)

lemma replayStatusEvents_eq:
  "replayStatusEvents as es g = Inr st \<longleftrightarrow> (\<exists>s. replay as g es = Inr s \<and> st = rp_states s)"
  by (auto simp: replayStatusEvents_def replay_def rmap_eq_Inr)

lemma keys_initial_states: "fst ` set (initial_states as) = envelope_key ` set as"
proof -
  have "fst ` set (foldl (\<lambda>m a. jset (envelope_key a)
     \<lparr>ms_status = art_status a, ms_updated = art_updated a, ms_inval = art_invalidation a\<rparr> m) m as)
     = fst ` set m \<union> envelope_key ` set as" for m
    by (induction as arbitrary: m) auto
  then show ?thesis by (simp add: initial_states_def)
qed

lemma replay_step_InrD:
  assumes "replay_step as g s e = Inr s'"
  obtains a roots st where "resolveRef as (ev_artifact e) = Inr a"
    "traverse (resolveRef as) (ev_roots e) = Inr roots"
    "jget (rp_states s) (envelope_key a) = Some st"
    "ev_sequence e = rp_index s + 1" "ev_id e \<notin> set (rp_ids s)"
    "ms_status st = ev_from e" "ms_updated st \<le> ev_changed e"
    "s' = \<lparr>rp_index = rp_index s + 1, rp_ids = sadd (ev_id e) (rp_ids s),
           rp_time = Some (ev_changed e),
           rp_states = jset (envelope_key a) (event_state e) (rp_states s)\<rparr>"
  using assms that by (auto simp: replay_step_def rbind_eq_Inr split: option.splits)

lemma replay_facts:
  "replay as g es = Inr s \<Longrightarrow>
     rp_index s = length es \<and> set (rp_ids s) = ev_id ` set es \<and> numbered es
     \<and> (\<forall>t. rp_time s = Some t \<longrightarrow> t \<in> ev_changed ` set es)
     \<and> fst ` set (rp_states s) = envelope_key ` set as"
proof (induction es arbitrary: s rule: rev_induct)
  case Nil
  then have "s = replay_start as" by (simp add: replay_def)
  then show ?case by (simp add: replay_start_def numbered_def keys_initial_states)
next
  case (snoc e es)
  from snoc.prems obtain s0 where s0: "replay as g es = Inr s0" and "replay_step as g s0 e = Inr s"
    by (auto simp: replay_snoc rbind_eq_Inr)
  from this(2) snoc.IH [OF s0] show ?case
    by (elim replay_step_InrD) (auto simp: numbered_snoc dest: resolveRef_InrD)
qed

section \<open>Identifiers of events\<close>

definition event_id_prefix :: "nat \<Rightarrow> string" where
  "event_id_prefix n = ''artifact-status-'' @ show_nat n @ [CHR ''-'']"

definition id_numbered :: "status_event \<Rightarrow> bool" where
  "id_numbered e \<longleftrightarrow> (\<exists>h. ev_id e = event_id_prefix (ev_sequence e) @ h)"

lemma show_nat_no_minus: "CHR ''-'' \<notin> set (show_nat n)"
  using show_nat_digits [of n] by (auto simp: list_all_iff is_digit_def)

lemma event_id_prefix_inj:
  assumes "event_id_prefix m @ x = event_id_prefix n @ y"
  shows "m = n"
proof -
  from assms have "show_nat m @ CHR ''-'' # x = show_nat n @ CHR ''-'' # y"
    by (simp add: event_id_prefix_def)
  from sep_split [OF show_nat_no_minus show_nat_no_minus this] show ?thesis by simp
qed

lemma id_numbered_inj: "id_numbered d \<Longrightarrow> id_numbered e \<Longrightarrow> ev_id d = ev_id e \<Longrightarrow> ev_sequence d = ev_sequence e"
  unfolding id_numbered_def using event_id_prefix_inj by metis

lemma js_ok_ref [simp]: "js_ok (ref_json r)"
  by (simp add: ref_json_def)

lemma js_ok_refs [simp]: "js_ok (refs_json rs)"
  by (simp add: refs_json_def list_all_iff)

lemma js_ok_event_body [simp]: "js_ok (event_body_json e)"
  by (simp add: event_body_json_def split: option.split)

lemma js_ok_event [simp]: "js_ok (event_json e)"
  by (simp add: event_json_def event_body_json_def split: option.split)

lemma event_body_id [simp]: "event_body_json (e\<lparr>ev_id := i\<rparr>) = event_body_json e"
  by (simp add: event_body_json_def)

lemma statusEventId_id [simp]: "statusEventId pf (e\<lparr>ev_id := i\<rparr>) = statusEventId pf e"
  by (simp add: statusEventId_def)

lemma statusEventId_shape:
  "\<exists>h. statusEventId pf e = Inr (event_id_prefix (ev_sequence e) @ take 16 h)
     \<and> hashResearchArtifactContent pf (event_body_json e) = Inr (''sha256:'' @ h)"
proof -
  obtain h where h: "hashResearchArtifactContent pf (event_body_json e) = Inr h"
    using hash_total by (metis js_ok_event_body)
  then obtain d where "h = ''sha256:'' @ d"
    by (auto simp: hashResearchArtifactContent_def rmap_eq_Inr)
  with h show ?thesis
    by (intro exI [of _ d]) (simp add: statusEventId_def rmap_def lift_type_def event_id_prefix_def)
qed

section \<open>Sorted reference lists\<close>

lemma sort_by_idem: "total_preorder le \<Longrightarrow> sort_by le (sort_by le xs) = sort_by le xs"
  by (rule sort_by_sorted) (rule sorted_sort_by)

lemma fold_jset_distinct:
  "distinct (map key xs) \<Longrightarrow> fst ` set m \<inter> key ` set xs = {} \<Longrightarrow>
     fold (\<lambda>x m. jset (key x) x m) xs m = m @ map (\<lambda>x. (key x, x)) xs"
  by (induction xs arbitrary: m) (auto simp: jset_new)

lemma jvals_of_keys_distinct: "distinct (map key xs) \<Longrightarrow> jvals (of_keys key xs) = xs"
  by (simp add: of_keys_def fold_jset_distinct jvals_def comp_def)

lemma of_keys_entry: "(k, x) \<in> set (of_keys key xs) \<Longrightarrow> k = key x \<and> x \<in> set xs"
proof -
  have gen: "(k, x) \<in> set (fold (\<lambda>x m. jset (key x) x m) xs m) \<Longrightarrow> (k = key x \<and> x \<in> set xs) \<or> (k, x) \<in> set m" for m
    by (induction xs arbitrary: m) (auto dest!: in_set_jset)
  show "(k, x) \<in> set (of_keys key xs) \<Longrightarrow> k = key x \<and> x \<in> set xs"
    using gen [of "[]"] by (simp add: of_keys_def)
qed

lemma map_key_jvals: "map key (jvals (of_keys key xs)) = map fst (of_keys key xs)"
  by (auto simp: jvals_def dest: of_keys_entry)

lemma distinct_uniqueRefs: "distinct (map fullRefKey (uniqueRefs pf rs))"
proof -
  have "mset (map fullRefKey (uniqueRefs pf rs)) = mset (map fst (of_keys fullRefKey rs))"
    by (simp add: uniqueRefs_def map_key_jvals [symmetric])
  from mset_eq_imp_distinct_iff [OF this] show ?thesis by simp
qed

lemma total_preorder_compareRefs: "platform_ok pf \<Longrightarrow> total_preorder (compareRefs pf)"
  unfolding platform_ok_def total_preorder_def compareRefs_def by blast

lemma uniqueRefs_idem:
  assumes "platform_ok pf"
  shows "uniqueRefs pf (uniqueRefs pf rs) = uniqueRefs pf rs"
proof -
  have "uniqueRefs pf (uniqueRefs pf rs) = sort_by (compareRefs pf) (uniqueRefs pf rs)"
    by (subst uniqueRefs_def) (simp add: jvals_of_keys_distinct distinct_uniqueRefs)
  also have "\<dots> = uniqueRefs pf rs"
    using sort_by_idem [OF total_preorder_compareRefs [OF assms]] by (simp add: uniqueRefs_def)
  finally show ?thesis .
qed

lemma set_uniqueRefs_subset: "set (uniqueRefs pf rs) \<subseteq> set rs"
  by (auto simp: uniqueRefs_def jvals_def dest: of_keys_entry)

lemma uniqueRefs_keys: "fullRefKey ` set (uniqueRefs pf rs) = fullRefKey ` set rs"
proof -
  have "fullRefKey ` set (uniqueRefs pf rs) = set (map fullRefKey (jvals (of_keys fullRefKey rs)))"
    by (simp add: uniqueRefs_def)
  then show ?thesis by (simp only: map_key_jvals) simp
qed

lemma uniqueRefs_Nil_iff [simp]: "uniqueRefs pf rs = [] \<longleftrightarrow> rs = []"
  using uniqueRefs_keys [of pf rs] by (metis image_is_empty set_empty)

lemma uniqueRefs_single [simp]: "uniqueRefs pf [r] = [r]"
  by (simp add: uniqueRefs_def of_keys_def jvals_def sort_by_def)

section \<open>A log that replays\<close>

definition max_log :: nat where
  "max_log = 10 ^ 200"

definition log_ok :: "platform \<Rightarrow> envelope list \<Rightarrow> artifact_graph \<Rightarrow> int \<Rightarrow> log_state \<Rightarrow> bool" where
  "log_ok pf as g now l \<longleftrightarrow>
     (\<exists>s. replay as g (lg_events l) = Inr s \<and> rp_states s = lg_states l)
     \<and> (\<forall>e \<in> set (lg_events l). ev_changed e \<le> now \<and> id_numbered e)
     \<and> (\<forall>k st. jget (lg_states l) k = Some st \<longrightarrow> ms_updated st \<le> now)
     \<and> (length (lg_events l) < max_log
          \<longrightarrow> normalize_events pf 1 (lg_events l) = Inr (lg_events l))"

lemma log_ok_state:
  assumes "log_ok pf as g now l" "a \<in> set as"
  obtains st where "jget (lg_states l) (envelope_key a) = Some st" "ms_updated st \<le> now"
proof -
  from assms(1) obtain s where s: "replay as g (lg_events l) = Inr s" "rp_states s = lg_states l"
    by (auto simp: log_ok_def)
  from replay_facts [OF s(1)] s(2) assms(2) have "envelope_key a \<in> fst ` set (lg_states l)"
    by simp
  then obtain st where st: "jget (lg_states l) (envelope_key a) = Some st"
    by (auto simp: in_keys_jget)
  moreover have "ms_updated st \<le> now" using assms(1) st by (auto simp: log_ok_def)
  ultimately show thesis by (rule that)
qed

lemma normalize_events_snoc:
  "normalize_events pf n (es @ [e]) =
     rbind (normalize_events pf n es) (\<lambda>es'.
     rbind (normalizeStatusEvent pf (n + length es) e) (\<lambda>e'. Inr (es' @ [e'])))"
  by (induction es arbitrary: n) (simp_all add: rbind_assoc)

section \<open>The shape of a new event\<close>

lemma hex_id_char: "is_hex c \<Longrightarrow> id_char c"
  by (auto simp: is_hex_def id_char_def is_alnum_def is_lower_def)

lemma digit_id_char: "is_digit c \<Longrightarrow> id_char c"
  by (simp add: id_char_def is_alnum_def)

lemma event_id_ok:
  assumes "n < max_log" "list_all is_hex h" "length h \<le> 16"
  shows "repo_id_ok (event_id_prefix n @ h)"
proof -
  have "length (show_nat n) \<le> 200" using assms(1) by (intro show_nat_length) (simp_all add: max_log_def)
  moreover have "list_all id_char (show_nat n)"
    using show_nat_digits [of n] by (auto simp: list_all_iff digit_id_char)
  moreover have "list_all id_char h" using assms(2) by (auto simp: list_all_iff hex_id_char)
  ultimately show ?thesis using assms(3)
    by (simp add: repo_id_ok_def event_id_prefix_def id_pattern_def)
       (simp add: id_char_def is_alnum_def is_lower_def)
qed

definition ref_storable :: "artifact_ref \<Rightarrow> bool" where
  "ref_storable r \<longleftrightarrow> normalize_ref r = Inr r"

definition event_shape_ok :: "status_event \<Rightarrow> bool" where
  "event_shape_ok e \<longleftrightarrow> ev_from e \<noteq> ev_to e \<and> ev_roots e \<noteq> []
     \<and> (\<forall>r \<in> set (ev_roots e). ref_storable r) \<and> ref_storable (ev_artifact e)
     \<and> (ev_cause e = New_revision \<longrightarrow> ev_to e = Superseded \<and> ev_reason e = None)
     \<and> (ev_cause e = Invalidation \<longrightarrow> ev_to e = Stale \<and> ev_reason e \<noteq> None)"

lemma traverse_storable: "\<forall>r \<in> set rs. ref_storable r \<Longrightarrow> traverse normalize_ref rs = Inr rs"
  using traverse_all_Inr [of rs normalize_ref id] by (simp add: ref_storable_def)

lemma assertCanonicalShape_same: "js_ok v \<Longrightarrow> assertCanonicalShape pf v v = Inr ()"
  using serialize_total [of v "pf_le pf"]
  by (auto simp: assertCanonicalShape_def canonicalJson_def lift_schema_def)

lemma normalizeStatusEvent_new:
  assumes "event_shape_ok e" "ev_sequence e = n" "n < max_log" "platform_ok pf"
    and "ev_roots e = uniqueRefs pf rs" "statusEventId pf e = Inr (ev_id e)"
  shows "normalizeStatusEvent pf n e = Inr e"
proof -
  obtain h where h: "statusEventId pf e = Inr (event_id_prefix (ev_sequence e) @ take 16 h)"
    "hashResearchArtifactContent pf (event_body_json e) = Inr (''sha256:'' @ h)"
    using statusEventId_shape by blast
  then obtain t where "h = pf_sha256 pf t"
    by (auto simp: hashResearchArtifactContent_def rmap_eq_Inr)
  with assms(4) have "list_all is_hex (take 16 h)"
    by (auto simp: platform_ok_def list_all_iff dest: in_set_takeD)
  with h(1) assms(2,3,6) have "repo_id_ok (ev_id e)" by (auto intro!: event_id_ok)
  moreover have "e\<lparr>ev_roots := uniqueRefs pf (ev_roots e), ev_artifact := ev_artifact e\<rparr> = e"
    using assms(4,5) by (simp add: uniqueRefs_idem)
  ultimately show ?thesis
    using assms(1,2,6)
    by (simp add: normalizeStatusEvent_def event_shape_ok_def traverse_storable ref_storable_def
        assertCanonicalShape_same)
qed

section \<open>Appending one event\<close>

text \<open>
  The event \<open>appendStatusEvent\<close> writes for an artifact in state \<open>st\<close>, before it has its
  identifier.
\<close>

definition new_event ::
  "platform \<Rightarrow> log_state \<Rightarrow> envelope \<Rightarrow> mstate \<Rightarrow> artifact_status \<Rightarrow> event_cause \<Rightarrow> artifact_ref list
     \<Rightarrow> invalidation_reason option \<Rightarrow> int \<Rightarrow> status_event" where
  "new_event pf l a st to cause roots reason now =
     \<lparr>ev_sequence = length (lg_events l) + 1, ev_id = [],
      ev_artifact = toResearchArtifactRef a, ev_from = ms_status st, ev_to = to,
      ev_cause = cause, ev_roots = uniqueRefs pf roots, ev_reason = reason, ev_changed = now\<rparr>"

lemma appendStatusEvent_new:
  assumes "jget (lg_states l) (envelope_key a) = Some st" "ms_status st \<noteq> to" "ms_updated st \<le> now"
  shows "\<exists>i. statusEventId pf (new_event pf l a st to cause roots reason now) = Inr i
     \<and> appendStatusEvent pf l a to cause roots reason now =
         (let e = (new_event pf l a st to cause roots reason now)\<lparr>ev_id := i\<rparr> in
          Inr \<lparr>lg_events = lg_events l @ [e],
               lg_states = jset (envelope_key a) (event_state e) (lg_states l)\<rparr>)"
proof -
  obtain i where i: "statusEventId pf (new_event pf l a st to cause roots reason now) = Inr i"
    using statusEventId_shape by blast
  then show ?thesis using assms
    by (simp add: appendStatusEvent_def new_event_def rmap_def Let_def)
qed

text \<open>What the replay checks of an event beyond its number, its identifier and its time.\<close>

definition event_allowed ::
  "envelope list \<Rightarrow> envelope \<Rightarrow> mstate \<Rightarrow> event_cause \<Rightarrow> envelope list \<Rightarrow> int \<Rightarrow> bool" where
  "event_allowed as a st cause roots now \<longleftrightarrow>
     (case cause of
        New_revision \<Rightarrow> ms_status st \<in> {Active, Stale}
          \<and> (\<exists>r. roots = [r] \<and> art_id r = art_id a \<and> art_kind r = art_kind a
                 \<and> art_revision r = art_revision a + 1 \<and> art_updated r \<le> now)
      | Invalidation \<Rightarrow> ms_status st = Active
          \<and> (\<forall>r \<in> set roots. (envelope_key r, envelope_key a) \<in> (causal as)\<^sup>+))"

fun cause_target :: "event_cause \<Rightarrow> artifact_status" where
  "cause_target New_revision = Superseded"
| "cause_target Invalidation = Stale"

definition cause_reason :: "event_cause \<Rightarrow> invalidation_reason option \<Rightarrow> bool" where
  "cause_reason c r \<longleftrightarrow> (r = None \<longleftrightarrow> c = New_revision)"

lemma replay_step_new:
  assumes s: "replay as g es = Inr s"
    and g: "buildResearchArtifactGraph le as = Inr g" and d: "distinct (map envelope_key as)"
    and e: "ev_sequence e = length es + 1" "id_numbered e" "\<forall>d \<in> set es. id_numbered d"
    and t: "\<forall>d \<in> set es. ev_changed d \<le> ev_changed e"
    and a: "a \<in> set as" "ev_artifact e = toResearchArtifactRef a"
    and r: "ev_roots e = map toResearchArtifactRef roots" "set roots \<subseteq> set as"
    and st: "jget (rp_states s) (envelope_key a) = Some st" "ev_from e = ms_status st"
      "ms_updated st \<le> ev_changed e"
    and ok: "event_allowed as a st (ev_cause e) roots (ev_changed e)"
  shows "\<exists>s'. replay_step as g s e = Inr s'
     \<and> rp_states s' = jset (envelope_key a) (event_state e) (rp_states s)"
proof -
  note f = replay_facts [OF s]
  have fresh: "ev_id e \<notin> set (rp_ids s)"
  proof
    assume "ev_id e \<in> set (rp_ids s)"
    with f obtain d where d: "d \<in> set es" "ev_id d = ev_id e" by auto
    with e have "ev_sequence d = ev_sequence e" by (intro id_numbered_inj) auto
    moreover have "ev_sequence d \<le> length es" using f d by (auto intro: numbered_le)
    ultimately show False using e(1) by simp
  qed
  have art: "resolveRef as (ev_artifact e) = Inr a" using a d by (simp add: resolve_own)
  have rts: "traverse (resolveRef as) (ev_roots e) = Inr roots"
    unfolding r(1) using r(2) d
    by (induction roots) (auto simp: resolve_own)
  have time: "case rp_time s of None \<Rightarrow> True | Some t \<Rightarrow> t \<le> ev_changed e"
    using f t by (auto split: option.split)
  show ?thesis
    using ok fresh time f e(1) st
    by (cases "ev_cause e")
       (auto simp: replay_step_def art rts event_allowed_def valid_replacement_def
        descendantKeys_causal [OF g])
qed

definition written_state :: "event_cause \<Rightarrow> artifact_ref list \<Rightarrow> invalidation_reason option \<Rightarrow> int \<Rightarrow> mstate" where
  "written_state cause rs reason now =
     \<lparr>ms_status = cause_target cause, ms_updated = now,
      ms_inval = (case cause of New_revision \<Rightarrow> None
        | Invalidation \<Rightarrow> Some \<lparr>inval_at = now,
            inval_reason = (case reason of Some r \<Rightarrow> r | None \<Rightarrow> Manual), inval_roots = rs\<rparr>)\<rparr>"

lemma written_state_status [simp]: "ms_status (written_state c rs reason now) = cause_target c"
  by (simp add: written_state_def)

lemma written_state_updated [simp]: "ms_updated (written_state c rs reason now) = now"
  by (simp add: written_state_def)

lemma event_allowed_active:
  "event_allowed as a st c roots now \<Longrightarrow> ms_status st \<noteq> cause_target c"
  by (auto simp: event_allowed_def split: event_cause.splits)

text \<open>The setting of a transaction: the validated list of artifacts and its graph.\<close>

definition setting_ok :: "platform \<Rightarrow> envelope list \<Rightarrow> artifact_graph \<Rightarrow> bool" where
  "setting_ok pf as g \<longleftrightarrow> platform_ok pf \<and> buildResearchArtifactGraph (pf_le pf) as = Inr g
     \<and> distinct (map envelope_key as) \<and> (\<forall>a \<in> set as. ref_storable (toResearchArtifactRef a))"

lemma append_event_log_ok:
  assumes S: "setting_ok pf as g" and l: "log_ok pf as g now l"
    and a: "a \<in> set as" and st: "jget (lg_states l) (envelope_key a) = Some st"
    and r: "uniqueRefs pf rs = map toResearchArtifactRef xs" "set xs \<subseteq> set as" "xs \<noteq> []"
    and ok: "event_allowed as a st cause xs now" and reason: "cause_reason cause reason"
  shows "\<exists>e. appendStatusEvent pf l a (cause_target cause) cause rs reason now =
        Inr \<lparr>lg_events = lg_events l @ [e],
             lg_states = jset (envelope_key a) (written_state cause (uniqueRefs pf rs) reason now)
                           (lg_states l)\<rparr>
     \<and> log_ok pf as g now \<lparr>lg_events = lg_events l @ [e],
             lg_states = jset (envelope_key a) (written_state cause (uniqueRefs pf rs) reason now)
                           (lg_states l)\<rparr>"
proof -
  let ?n = "new_event pf l a st (cause_target cause) cause rs reason now"
  from l obtain s where s: "replay as g (lg_events l) = Inr s" "rp_states s = lg_states l"
    and ev: "\<forall>e \<in> set (lg_events l). ev_changed e \<le> now \<and> id_numbered e"
    and up: "\<forall>k st. jget (lg_states l) k = Some st \<longrightarrow> ms_updated st \<le> now"
    and nm: "length (lg_events l) < max_log \<longrightarrow> normalize_events pf 1 (lg_events l) = Inr (lg_events l)"
    by (auto simp: log_ok_def)
  note act = event_allowed_active [OF ok]
  from st up have ust: "ms_updated st \<le> now" by blast
  from appendStatusEvent_new [where pf = pf and cause = cause and roots = rs and reason = reason,
      OF st act ust]
  obtain i where i: "statusEventId pf ?n = Inr i"
    and app: "appendStatusEvent pf l a (cause_target cause) cause rs reason now =
         Inr \<lparr>lg_events = lg_events l @ [?n\<lparr>ev_id := i\<rparr>],
              lg_states = jset (envelope_key a) (event_state (?n\<lparr>ev_id := i\<rparr>)) (lg_states l)\<rparr>"
    by (auto simp: Let_def)
  let ?e = "?n\<lparr>ev_id := i\<rparr>"
  have idn: "id_numbered ?e"
    using i statusEventId_shape [of pf ?n] by (auto simp: id_numbered_def new_event_def)
  have est: "event_state ?e = written_state cause (uniqueRefs pf rs) reason now"
    by (cases cause) (simp_all add: event_state_def written_state_def new_event_def)
  have fields: "ev_sequence ?e = length (lg_events l) + 1" "ev_artifact ?e = toResearchArtifactRef a"
    "ev_roots ?e = map toResearchArtifactRef xs" "ev_from ?e = ms_status st"
    "ev_to ?e = cause_target cause" "ev_cause ?e = cause" "ev_changed ?e = now" "ev_reason ?e = reason"
    by (simp_all add: new_event_def r(1))
  from replay_step_new [where e = ?e and roots = xs, OF s(1)] S ev idn up a st r(2) ok
  obtain s' where s': "replay_step as g s ?e = Inr s'"
    "rp_states s' = jset (envelope_key a) (event_state ?e) (rp_states s)"
    unfolding fields s(2) setting_ok_def by blast
  have shape: "event_shape_ok ?e"
    using S a r act reason unfolding event_shape_ok_def fields setting_ok_def cause_reason_def
    by (cases cause) auto
  have norm: "normalize_events pf 1 (lg_events l @ [?e]) = Inr (lg_events l @ [?e])"
    if "Suc (length (lg_events l)) < max_log"
  proof -
    have ide: "statusEventId pf ?e = Inr (ev_id ?e)" using i by simp
    have "ev_sequence ?e = 1 + length (lg_events l)" "1 + length (lg_events l) < max_log"
      "platform_ok pf" "ev_roots ?e = uniqueRefs pf rs"
      using that S by (simp_all add: new_event_def setting_ok_def)
    from normalizeStatusEvent_new [OF shape this ide]
    have "normalizeStatusEvent pf (1 + length (lg_events l)) ?e = Inr ?e" .
    with nm that show ?thesis by (simp add: normalize_events_snoc)
  qed
  have "replay as g (lg_events l @ [?e]) = Inr s'" using s s' by (simp add: replay_snoc)
  then have "log_ok pf as g now \<lparr>lg_events = lg_events l @ [?e],
       lg_states = jset (envelope_key a) (event_state ?e) (lg_states l)\<rparr>"
    using s' s(2) ev idn up norm fields(7) by (simp add: log_ok_def est)
  with app show ?thesis unfolding est by blast
qed

section \<open>Histories\<close>

lemma group_step_entry:
  "jget (group_step m a) i =
     (if i = art_id a then Some ((case jget m i of None \<Rightarrow> [] | Some h \<Rightarrow> h) @ [a]) else jget m i)"
  by (simp add: group_step_def)

lemma group_foldl:
  "distinct (map fst m) \<Longrightarrow> distinct (map fst (foldl group_step m as))
   \<and> (\<forall>i. jget (foldl group_step m as) i =
        (if filter (\<lambda>a. art_id a = i) as = [] then jget m i
         else Some ((case jget m i of None \<Rightarrow> [] | Some h \<Rightarrow> h) @ filter (\<lambda>a. art_id a = i) as)))"
proof (induction as arbitrary: m)
  case (Cons a as)
  have "distinct (map fst (group_step m a))" using Cons.prems by (simp add: group_step_def)
  from Cons.IH [OF this] show ?case by (simp add: group_step_entry)
qed simp

text \<open>Every history is the stable revision order of the artifacts with one identifier.\<close>

lemma group_entry:
  assumes "e \<in> set (groupArtifactsById as)"
  shows "snd e = sort_by (\<lambda>x y. art_revision x \<le> art_revision y) (filter (\<lambda>a. art_id a = fst e) as)
     \<and> filter (\<lambda>a. art_id a = fst e) as \<noteq> []"
proof -
  obtain h where h: "(fst e, h) \<in> set (foldl group_step [] as)"
    "snd e = sort_by (\<lambda>x y. art_revision x \<le> art_revision y) h"
    using assms by (auto simp: groupArtifactsById_def)
  have g: "distinct (map fst (foldl group_step [] as))
   \<and> (\<forall>i. jget (foldl group_step [] as) i =
        (if filter (\<lambda>a. art_id a = i) as = [] then None else Some (filter (\<lambda>a. art_id a = i) as)))"
    using group_foldl [of "[]" as] by simp
  then have "jget (foldl group_step [] as) (fst e) = Some h" using h(1) by (intro map_of_is_SomeI) auto
  with g h(2) show ?thesis by (auto split: if_splits)
qed

lemma group_ids: "fst ` set (groupArtifactsById as) = art_id ` set as"
proof -
  have "fst ` set (foldl group_step m as) = fst ` set m \<union> art_id ` set as" for m
    by (induction as arbitrary: m) (auto simp: group_step_def)
  then show ?thesis by (simp add: groupArtifactsById_def image_image)
qed

lemma check_history_nth:
  "check_history k n p as = Inr () \<Longrightarrow> i < length as \<Longrightarrow>
     art_revision (as ! i) = n + int i \<and> art_kind (as ! i) = k"
proof (induction k n p as arbitrary: i rule: check_history.induct)
  case (2 k n p a as)
  then show ?case by (cases i) (auto split: if_splits)
qed simp

lemma adjacent_nth:
  "(x, y) \<in> set (adjacent xs) \<longleftrightarrow> (\<exists>i. Suc i < length xs \<and> x = xs ! i \<and> y = xs ! Suc i)"
  by (cases xs) (auto simp: adjacent_def set_zip nth_tl)

text \<open>The history of one artifact: its revisions are 1, 2, 3 and so on, of one kind.\<close>

lemma sequence_history:
  assumes "assertAppendOnlyRevisionSequence base new = Inr ()" "e \<in> set (groupArtifactsById (base @ new))"
    and "i < length (snd e)"
  shows "art_revision (snd e ! i) = 1 + int i \<and> art_kind (snd e ! i) = art_kind (hd (snd e))
     \<and> art_id (snd e ! i) = fst e \<and> snd e ! i \<in> set (base @ new)"
proof -
  from assms(1,2) have "(case snd e of [] \<Rightarrow> Inr () | a # _ \<Rightarrow> check_history (art_kind a) 1 None (snd e)) = Inr ()"
    by (auto simp: assertAppendOnlyRevisionSequence_def rmap_eq_Inr dest!: traverse_InrD)
  with assms(3) have "check_history (art_kind (hd (snd e))) 1 None (snd e) = Inr ()"
    by (cases "snd e") auto
  from check_history_nth [OF this assms(3)] have "art_revision (snd e ! i) = 1 + int i"
    "art_kind (snd e ! i) = art_kind (hd (snd e))" by auto
  moreover have "snd e ! i \<in> set (filter (\<lambda>a. art_id a = fst e) (base @ new))"
    using group_entry [OF assms(2)] assms(3) by (metis nth_mem set_sort_by)
  ultimately show ?thesis by auto
qed

lemma history_pair:
  assumes "assertAppendOnlyRevisionSequence base new = Inr ()"
    and "(p, c) \<in> set (concat (map (\<lambda>e. adjacent (snd e)) (groupArtifactsById (base @ new))))"
  shows "p \<in> set (base @ new) \<and> c \<in> set (base @ new) \<and> art_id c = art_id p
     \<and> art_kind c = art_kind p \<and> art_revision c = art_revision p + 1"
proof -
  from assms(2) obtain e where e: "e \<in> set (groupArtifactsById (base @ new))"
    and "(p, c) \<in> set (adjacent (snd e))" by auto
  then obtain i where i: "Suc i < length (snd e)" "p = snd e ! i" "c = snd e ! Suc i"
    by (auto simp: adjacent_nth)
  with sequence_history [OF assms(1) e, of i] sequence_history [OF assms(1) e, of "Suc i"]
  show ?thesis by simp
qed

end
