(* ===== verification/Repository_Transactions.thy ===== *)
theory Repository_Transactions
  imports Repository_Log
begin

text \<open>
  The two transactions of \<open>src/research/artifacts/repository.ts\<close> over a log that replays:
  the supersession loop of \<open>appendProjectResearchArtifacts\<close>, the root tracing and the
  invalidation loop of \<open>appendPreciseInvalidationEvents\<close>, and what the committed manifest
  satisfies.
\<close>

section \<open>Extensions of a log\<close>

definition settled :: "log_state \<Rightarrow> string \<Rightarrow> bool" where
  "settled l k \<longleftrightarrow> (\<exists>st. jget (lg_states l) k = Some st \<and> ms_status st \<noteq> Active)"

text \<open>Events are only added, and no artifact ever becomes active again.\<close>

definition log_extends :: "log_state \<Rightarrow> log_state \<Rightarrow> bool" where
  "log_extends l l' \<longleftrightarrow> (\<exists>es. lg_events l' = lg_events l @ es) \<and> (\<forall>k. settled l k \<longrightarrow> settled l' k)"

lemma log_extends_refl [simp]: "log_extends l l"
  by (simp add: log_extends_def)

lemma log_extends_trans: "log_extends l l' \<Longrightarrow> log_extends l' l'' \<Longrightarrow> log_extends l l''"
  by (auto simp: log_extends_def)

lemma cause_target_not_active [simp]: "cause_target c \<noteq> Active"
  by (cases c) auto

lemma log_extends_event:
  "log_extends l \<lparr>lg_events = lg_events l @ [e],
     lg_states = jset k (written_state c rs reason now) (lg_states l)\<rparr>"
  by (auto simp: log_extends_def settled_def)

lemma settled_event:
  "settled \<lparr>lg_events = es, lg_states = jset k (written_state c rs reason now) m\<rparr> k"
  by (simp add: settled_def)

section \<open>Superseding the previous revisions\<close>

definition superseding ::
  "platform \<Rightarrow> envelope list \<Rightarrow> artifact_graph \<Rightarrow> int \<Rightarrow> log_state \<Rightarrow> supersede_state \<Rightarrow> bool" where
  "superseding pf as g now l0 s \<longleftrightarrow> log_ok pf as g now (su_log s) \<and> log_extends l0 (su_log s)
     \<and> (\<forall>r \<in> set (su_updated s). \<exists>p \<in> set as. r = toResearchArtifactRef p
            \<and> settled (su_log s) (envelope_key p))"

lemma settled_extends: "settled l k \<Longrightarrow> log_extends l l' \<Longrightarrow> settled l' k"
  by (simp add: log_extends_def)

lemma supersede_pair_step:
  assumes S: "setting_ok pf as g" and I: "superseding pf as g now l0 s"
    and p: "p \<in> set as" "c \<in> set as" "art_id c = art_id p" "art_kind c = art_kind p"
      "art_revision c = art_revision p + 1" "art_updated c \<le> now"
  shows "\<exists>s'. supersede_pair pf keys now s (p, c) = Inr s' \<and> superseding pf as g now l0 s'
     \<and> su_updated s' = su_updated s @
         (if envelope_key c \<in> set keys then [toResearchArtifactRef p] else [])"
proof (cases "envelope_key c \<in> set keys")
  case False
  with I show ?thesis by (simp add: supersede_pair_def)
next
  case True
  from I have l: "log_ok pf as g now (su_log s)" by (simp add: superseding_def)
  obtain st where st: "jget (lg_states (su_log s)) (envelope_key p) = Some st"
    using log_ok_state [OF l p(1)] by blast
  show ?thesis
  proof (cases "ms_status st \<in> {Active, Stale}")
    case False
    then have "settled (su_log s) (envelope_key p)" using st by (auto simp: settled_def)
    with I p(1) True st False show ?thesis
      by (auto simp: supersede_pair_def superseding_def Let_def)
  next
    case act: True
    have allowed: "event_allowed as p st New_revision [c] now"
      using act p by (auto simp: event_allowed_def)
    have "cause_reason New_revision None" by (simp add: cause_reason_def)
    from append_event_log_ok [where xs = "[c]" and rs = "[toResearchArtifactRef c]", OF S l p(1) st _ _ _ allowed this]
    obtain e where e: "appendStatusEvent pf (su_log s) p Superseded New_revision [toResearchArtifactRef c] None now
        = Inr \<lparr>lg_events = lg_events (su_log s) @ [e],
            lg_states = jset (envelope_key p) (written_state New_revision [toResearchArtifactRef c] None now)
              (lg_states (su_log s))\<rparr>"
      and ok: "log_ok pf as g now \<lparr>lg_events = lg_events (su_log s) @ [e],
            lg_states = jset (envelope_key p) (written_state New_revision [toResearchArtifactRef c] None now)
              (lg_states (su_log s))\<rparr>"
      using p(2) by auto
    have ext: "log_extends (su_log s) \<lparr>lg_events = lg_events (su_log s) @ [e],
            lg_states = jset (envelope_key p) (written_state New_revision [toResearchArtifactRef c] None now)
              (lg_states (su_log s))\<rparr>" by (rule log_extends_event)
    have own: "settled \<lparr>lg_events = lg_events (su_log s) @ [e],
            lg_states = jset (envelope_key p) (written_state New_revision [toResearchArtifactRef c] None now)
              (lg_states (su_log s))\<rparr> (envelope_key p)" by (rule settled_event)
    show ?thesis
      using I p(1) True st act e ok ext own
      by (auto simp: supersede_pair_def superseding_def Let_def rmap_def
          intro: log_extends_trans settled_extends)
  qed
qed

lemma supersede_pairs:
  assumes S: "setting_ok pf as g" and I: "superseding pf as g now l0 s"
    and p: "\<forall>pc \<in> set pcs. fst pc \<in> set as \<and> snd pc \<in> set as \<and> art_id (snd pc) = art_id (fst pc)
        \<and> art_kind (snd pc) = art_kind (fst pc)
        \<and> art_revision (snd pc) = art_revision (fst pc) + 1 \<and> art_updated (snd pc) \<le> now"
  shows "\<exists>s'. rfold (supersede_pair pf keys now) s pcs = Inr s' \<and> superseding pf as g now l0 s'
     \<and> su_updated s' = su_updated s @
         map (\<lambda>pc. toResearchArtifactRef (fst pc)) (filter (\<lambda>pc. envelope_key (snd pc) \<in> set keys) pcs)"
  using I p
proof (induction pcs arbitrary: s)
  case (Cons pc pcs)
  obtain a c where pc: "pc = (a, c)" by (cases pc)
  from Cons.prems(2) pc supersede_pair_step [OF S Cons.prems(1), where p = a and c = c and keys = keys]
  obtain s1 where s1: "supersede_pair pf keys now s (a, c) = Inr s1" "superseding pf as g now l0 s1"
    "su_updated s1 = su_updated s @ (if envelope_key c \<in> set keys then [toResearchArtifactRef a] else [])"
    by auto
  from Cons.IH [OF s1(2)] Cons.prems(2) s1 show ?case by (auto simp: pc)
qed simp

section \<open>Tracing the roots of a descendant\<close>

definition note_root :: "string list \<Rightarrow> artifact_ref \<Rightarrow> root_map \<Rightarrow> string \<Rightarrow> root_map" where
  "note_root ex r m c = (if c \<in> set ex then m else add_root r c m)"

text \<open>The walk of one root notes it at the children of every key the walk reaches.\<close>

lemma trace_loop_kids:
  "\<exists>cs. trace_loop ch ex r v q m = foldl (note_root ex r) m cs
     \<and> set cs = (\<Union>x \<in> set q \<union> (set (reach_loop ch [] v q) - set v). set (kids ch x))"
proof (induction ch ex r v q m rule: trace_loop.induct)
  case (1 ch ex r v m)
  show ?case by (intro exI [of _ "[]"]) simp
next
  case (2 ch ex r v k q m)
  from foldl_enqueue_kid [of "[]" v q "kids ch k"] obtain new where
    s: "foldl (enqueue_kid []) (v, q) (kids ch k) = (v @ new, q @ new)"
    and new: "set new \<subseteq> set (kids ch k)" "set new \<inter> set v = {}" by auto
  have t: "foldl (trace_kid ex r) ((v, q), m) (kids ch k)
      = ((v @ new, q @ new), foldl (note_root ex r) m (kids ch k))"
    by (simp add: foldl_trace_kid s note_root_def cong: if_cong)
       (rule foldl_cong; simp add: note_root_def)
  from "2.IH" [OF refl, unfolded t] obtain cs where
    cs: "trace_loop ch ex r (v @ new) (q @ new) (foldl (note_root ex r) m (kids ch k))
        = foldl (note_root ex r) (foldl (note_root ex r) m (kids ch k)) cs"
    and set_cs: "set cs = (\<Union>x \<in> set (q @ new) \<union> (set (reach_loop ch [] (v @ new) (q @ new)) - set (v @ new)).
        set (kids ch x))" by auto
  have reach: "reach_loop ch [] v (k # q) = reach_loop ch [] (v @ new) (q @ new)"
    by (simp add: s Let_def)
  have sub: "set (v @ new) \<subseteq> set (reach_loop ch [] (v @ new) (q @ new))"
    using reach_loop_spec [of "v @ new" ch "[]" "q @ new"] by blast
  have "insert k (set q) \<union> (set (reach_loop ch [] (v @ new) (q @ new)) - set v)
      = insert k (set (q @ new) \<union> (set (reach_loop ch [] (v @ new) (q @ new)) - set (v @ new)))"
    using sub new by auto
  then have "set (kids ch k @ cs)
      = (\<Union>x \<in> set (k # q) \<union> (set (reach_loop ch [] v (k # q)) - set v). set (kids ch x))"
    unfolding reach by (simp add: set_cs)
  moreover have "trace_loop ch ex r v (k # q) m = foldl (note_root ex r) m (kids ch k @ cs)"
    by (simp add: t cs Let_def)
  ultimately show ?case by blast
qed

declare trace_loop.simps(2) [simp del] reach_loop.simps(2) [simp del]

lemma trace_root:
  "\<exists>cs. trace_loop ch ex r [k] [k] m = foldl (note_root ex r) m cs
     \<and> set cs = (adj_edges ch)\<^sup>+ `` {k}"
proof -
  from trace_loop_kids [of ch ex r "[k]" "[k]" m] obtain cs where
    cs: "trace_loop ch ex r [k] [k] m = foldl (note_root ex r) m cs"
    "set cs = (\<Union>x \<in> {k} \<union> (set (reach_loop ch [] [k] [k]) - {k}). set (kids ch x))"
    unfolding list.set by blast
  let ?R = "set (reach_loop ch [] [k] [k])"
  note spec = reach_loop_spec [of "[k]" ch "[]" "[k]"]
  have R: "{k} \<union> (?R - {k}) = ?R" using spec by auto
  have reach: "y \<in> ?R" if "(k, y) \<in> (adj_edges ch)\<^sup>+" for y
    using that spec by (induction rule: trancl_induct) auto
  have "(\<Union>x \<in> ?R. set (kids ch x)) = (adj_edges ch)\<^sup>+ `` {k}"
  proof (intro set_eqI iffI)
    fix y assume "y \<in> (\<Union>x \<in> ?R. set (kids ch x))"
    then obtain x where x: "x \<in> ?R" "(x, y) \<in> adj_edges ch" by auto
    show "y \<in> (adj_edges ch)\<^sup>+ `` {k}"
    proof (cases "x = k")
      case True
      with x show ?thesis by auto
    next
      case False
      with x spec have "(k, x) \<in> (adj_edges ch)\<^sup>+" by auto
      with x(2) show ?thesis by (auto intro: trancl_into_trancl)
    qed
  next
    fix y assume "y \<in> (adj_edges ch)\<^sup>+ `` {k}"
    then have "(k, y) \<in> (adj_edges ch)\<^sup>+" by simp
    then obtain x where "(k, x) \<in> (adj_edges ch)\<^sup>*" "(x, y) \<in> adj_edges ch"
      by (meson tranclD2)
    then have "x \<in> ?R" using reach spec by (auto simp: rtrancl_eq_or_trancl)
    with \<open>(x, y) \<in> adj_edges ch\<close> show "y \<in> (\<Union>x \<in> ?R. set (kids ch x))" by auto
  qed
  with cs(2) have "set cs = (adj_edges ch)\<^sup>+ `` {k}" unfolding R by (rule trans)
  with cs(1) show ?thesis by blast
qed

lemma jset_same [simp]: "jset k v (jset k v m) = jset k v m"
  by (induction m) auto

lemma note_roots:
  "jget (foldl (note_root ex r) m cs) k =
     (if k \<in> set cs - set ex then Some (jset (fullRefKey r) r (opt_map (jget m k))) else jget m k)"
proof (induction cs arbitrary: m)
  case (Cons c cs)
  have step: "jget (note_root ex r m c) k =
     (if k = c \<and> c \<notin> set ex then Some (jset (fullRefKey r) r (opt_map (jget m k))) else jget m k)"
    by (simp add: note_root_def add_root_def)
  show ?case unfolding foldl_Cons Cons.IH step by (auto simp: opt_map_def)
qed simp

lemma distinct_note_roots:
  "distinct (map fst m) \<Longrightarrow> distinct (map fst (foldl (note_root ex r) m cs))"
  by (induction cs arbitrary: m) (simp_all add: note_root_def add_root_def)

text \<open>
  What the whole trace holds: the keys below some root that are not roots themselves, each
  with exactly the roots it lies below.
\<close>

definition traced :: "(string \<times> string) set \<Rightarrow> string list \<Rightarrow> artifact_ref set \<Rightarrow> root_map \<Rightarrow> bool" where
  "traced C ex R m \<longleftrightarrow> distinct (map fst m) \<and>
     (\<forall>k. let below = {r \<in> R. (researchArtifactKey r, k) \<in> C\<^sup>+} in
        case jget m k of
          None \<Rightarrow> k \<in> set ex \<or> below = {}
        | Some rm \<Rightarrow> k \<notin> set ex \<and> below \<noteq> {} \<and> fst ` set rm = fullRefKey ` below
            \<and> (\<forall>e \<in> set rm. fst e = fullRefKey (snd e) \<and> snd e \<in> below))"

lemma traced_root:
  assumes "traced C ex R m" "adj_edges ch = C"
  shows "traced C ex (insert r R) (trace_loop ch ex r [researchArtifactKey r] [researchArtifactKey r] m)"
proof -
  from trace_root [of ch ex r "researchArtifactKey r" m] obtain cs where
    t: "trace_loop ch ex r [researchArtifactKey r] [researchArtifactKey r] m = foldl (note_root ex r) m cs"
    and cs: "set cs = C\<^sup>+ `` {researchArtifactKey r}" using assms(2) by auto
  have d: "distinct (map fst (foldl (note_root ex r) m cs))"
    using assms(1) by (simp add: traced_def distinct_note_roots)
  have "case jget (foldl (note_root ex r) m cs) k of
          None \<Rightarrow> k \<in> set ex \<or> {x \<in> insert r R. (researchArtifactKey x, k) \<in> C\<^sup>+} = {}
        | Some rm \<Rightarrow> k \<notin> set ex \<and> {x \<in> insert r R. (researchArtifactKey x, k) \<in> C\<^sup>+} \<noteq> {}
            \<and> fst ` set rm = fullRefKey ` {x \<in> insert r R. (researchArtifactKey x, k) \<in> C\<^sup>+}
            \<and> (\<forall>e \<in> set rm. fst e = fullRefKey (snd e)
                  \<and> snd e \<in> {x \<in> insert r R. (researchArtifactKey x, k) \<in> C\<^sup>+})" for k
  proof -
    have old: "case jget m k of None \<Rightarrow> k \<in> set ex \<or> {x \<in> R. (researchArtifactKey x, k) \<in> C\<^sup>+} = {}
        | Some rm \<Rightarrow> k \<notin> set ex \<and> {x \<in> R. (researchArtifactKey x, k) \<in> C\<^sup>+} \<noteq> {}
            \<and> fst ` set rm = fullRefKey ` {x \<in> R. (researchArtifactKey x, k) \<in> C\<^sup>+}
            \<and> (\<forall>e \<in> set rm. fst e = fullRefKey (snd e)
                  \<and> snd e \<in> {x \<in> R. (researchArtifactKey x, k) \<in> C\<^sup>+})"
      using assms(1) by (simp add: traced_def Let_def)
    show ?thesis
    proof (cases "(researchArtifactKey r, k) \<in> C\<^sup>+")
      case False
      then have "{x \<in> insert r R. (researchArtifactKey x, k) \<in> C\<^sup>+} = {x \<in> R. (researchArtifactKey x, k) \<in> C\<^sup>+}"
        by auto
      moreover have "k \<notin> set cs" using False cs by auto
      ultimately show ?thesis using old by (simp only: note_roots) simp
    next
      case True
      then have B: "{x \<in> insert r R. (researchArtifactKey x, k) \<in> C\<^sup>+}
          = insert r {x \<in> R. (researchArtifactKey x, k) \<in> C\<^sup>+}" by auto
      have k: "k \<in> set cs" using True cs by auto
      show ?thesis
      proof (cases "k \<in> set ex")
        case True
        with old show ?thesis by (auto simp: note_roots split: option.splits)
      next
        case False
        have "fst ` set (opt_map (jget m k)) = fullRefKey ` {x \<in> R. (researchArtifactKey x, k) \<in> C\<^sup>+}
          \<and> (\<forall>e \<in> set (opt_map (jget m k)). fst e = fullRefKey (snd e)
                  \<and> snd e \<in> {x \<in> R. (researchArtifactKey x, k) \<in> C\<^sup>+})"
          using old False by (auto simp: opt_map_def split: option.splits)
        then show ?thesis using False k unfolding B
          by (auto simp: note_roots dest!: in_set_jset)
      qed
    qed
  qed
  with d show ?thesis unfolding t traced_def Let_def by blast
qed

lemma traced_foldl:
  assumes "adj_edges ch = C"
  shows "traced C ex R m \<Longrightarrow>
     traced C ex (R \<union> set rs) (foldl (\<lambda>m r. trace_loop ch ex r [researchArtifactKey r] [researchArtifactKey r] m) m rs)"
proof (induction rs arbitrary: R m)
  case (Cons r rs)
  from Cons.IH [OF traced_root [OF Cons.prems assms]] show ?case by simp
qed simp

lemma traced_roots:
  assumes "buildResearchArtifactGraph le as = Inr g"
  shows "\<exists>ex. set ex = researchArtifactKey ` set roots
     \<and> traced (causal as) ex (set roots) (roots_by_descendant g roots)"
proof -
  let ?ex = "foldl (\<lambda>s x. sadd (researchArtifactKey x) s) [] roots"
  have "traced (causal as) ?ex {} []" by (simp add: traced_def)
  from traced_foldl [OF build_graph_edges(2) [OF assms] this, of roots]
  have "traced (causal as) ?ex (set roots) (roots_by_descendant g roots)"
    by (simp add: roots_by_descendant_def)
  moreover have "set ?ex = researchArtifactKey ` set roots" by (simp add: set_foldl_sadd)
  ultimately show ?thesis by blast
qed

section \<open>Staling the descendants\<close>

definition active_in :: "log_state \<Rightarrow> string \<Rightarrow> bool" where
  "active_in l k \<longleftrightarrow> (\<exists>st. jget (lg_states l) k = Some st \<and> ms_status st = Active)"

definition traced_refs :: "platform \<Rightarrow> root_map \<Rightarrow> string \<Rightarrow> artifact_ref list" where
  "traced_refs pf m k = uniqueRefs pf (jvals (opt_map (jget m k)))"

definition stale_state :: "platform \<Rightarrow> root_map \<Rightarrow> invalidation_reason \<Rightarrow> int \<Rightarrow> string \<Rightarrow> mstate" where
  "stale_state pf m reason now k = written_state Invalidation (traced_refs pf m k) (Some reason) now"

lemma stale_state_status [simp]: "ms_status (stale_state pf m reason now k) = Stale"
  by (simp add: stale_state_def)

lemma refs_of_artifacts: "set rs \<subseteq> toResearchArtifactRef ` set as \<Longrightarrow>
   \<exists>xs. rs = map toResearchArtifactRef xs \<and> set xs \<subseteq> set as"
proof (induction rs)
  case (Cons r rs)
  then obtain a xs where "a \<in> set as" "r = toResearchArtifactRef a"
    "rs = map toResearchArtifactRef xs" "set xs \<subseteq> set as" by auto
  then show ?case by (intro exI [of _ "a # xs"]) simp
qed simp

lemma trancl_causal_target: "(x, k) \<in> (causal as)\<^sup>+ \<Longrightarrow> \<exists>a \<in> set as. envelope_key a = k"
  by (drule tranclD2) (auto simp: causal_def)

lemma traced_Some:
  assumes "traced C ex R m" "jget m k = Some rm"
  shows "k \<notin> set ex \<and> {r \<in> R. (researchArtifactKey r, k) \<in> C\<^sup>+} \<noteq> {}
     \<and> fst ` set rm = fullRefKey ` {r \<in> R. (researchArtifactKey r, k) \<in> C\<^sup>+}
     \<and> (\<forall>e \<in> set rm. fst e = fullRefKey (snd e) \<and> snd e \<in> {r \<in> R. (researchArtifactKey r, k) \<in> C\<^sup>+})"
proof -
  from assms(1) have "case jget m k of
          None \<Rightarrow> k \<in> set ex \<or> {r \<in> R. (researchArtifactKey r, k) \<in> C\<^sup>+} = {}
        | Some rm \<Rightarrow> k \<notin> set ex \<and> {r \<in> R. (researchArtifactKey r, k) \<in> C\<^sup>+} \<noteq> {}
            \<and> fst ` set rm = fullRefKey ` {r \<in> R. (researchArtifactKey r, k) \<in> C\<^sup>+}
            \<and> (\<forall>e \<in> set rm. fst e = fullRefKey (snd e) \<and> snd e \<in> {r \<in> R. (researchArtifactKey r, k) \<in> C\<^sup>+})"
    unfolding traced_def Let_def by (elim conjE) (rule spec)
  then show ?thesis unfolding assms(2) option.case .
qed

lemma traced_None:
  assumes "traced C ex R m" "jget m k = None"
  shows "k \<in> set ex \<or> {r \<in> R. (researchArtifactKey r, k) \<in> C\<^sup>+} = {}"
proof -
  from assms(1) have "case jget m k of
          None \<Rightarrow> k \<in> set ex \<or> {r \<in> R. (researchArtifactKey r, k) \<in> C\<^sup>+} = {}
        | Some rm \<Rightarrow> k \<notin> set ex \<and> {r \<in> R. (researchArtifactKey r, k) \<in> C\<^sup>+} \<noteq> {}
            \<and> fst ` set rm = fullRefKey ` {r \<in> R. (researchArtifactKey r, k) \<in> C\<^sup>+}
            \<and> (\<forall>e \<in> set rm. fst e = fullRefKey (snd e) \<and> snd e \<in> {r \<in> R. (researchArtifactKey r, k) \<in> C\<^sup>+})"
    unfolding traced_def Let_def by (elim conjE) (rule spec)
  then show ?thesis unfolding assms(2) option.case .
qed

text \<open>The roots of one entry of the trace, as artifacts the entry's key lies below.\<close>

lemma traced_entry:
  assumes T: "traced (causal as) ex (set roots) m" and R: "set roots \<subseteq> toResearchArtifactRef ` set as"
    and k: "jget m k = Some rm"
  shows "\<exists>xs. traced_refs pf m k = map toResearchArtifactRef xs \<and> set xs \<subseteq> set as \<and> xs \<noteq> []
     \<and> (\<forall>x \<in> set xs. (envelope_key x, k) \<in> (causal as)\<^sup>+)
     \<and> (\<exists>a \<in> set as. envelope_key a = k)"
proof -
  have rm: "{r \<in> set roots. (researchArtifactKey r, k) \<in> (causal as)\<^sup>+} \<noteq> {}"
    "fst ` set rm = fullRefKey ` {r \<in> set roots. (researchArtifactKey r, k) \<in> (causal as)\<^sup>+}"
    "\<forall>e \<in> set rm. snd e \<in> set roots \<and> (researchArtifactKey (snd e), k) \<in> (causal as)\<^sup>+"
    using traced_Some [OF T k] by blast+
  have below: "\<forall>r \<in> set (traced_refs pf m k). r \<in> set roots \<and> (researchArtifactKey r, k) \<in> (causal as)\<^sup>+"
    using set_uniqueRefs_subset [of pf "jvals rm"] rm(3)
    by (auto simp: traced_refs_def k opt_map_def jvals_def)
  with R have "set (traced_refs pf m k) \<subseteq> toResearchArtifactRef ` set as" by blast
  then obtain xs where xs: "traced_refs pf m k = map toResearchArtifactRef xs" "set xs \<subseteq> set as"
    using refs_of_artifacts by blast
  have "xs \<noteq> []" using rm(1,2) xs(1) by (auto simp: traced_refs_def k opt_map_def jvals_def)
  moreover from rm(1) have "\<exists>a \<in> set as. envelope_key a = k" by (auto dest: trancl_causal_target)
  moreover have "\<forall>x \<in> set xs. (envelope_key x, k) \<in> (causal as)\<^sup>+" using below xs(1) by auto
  ultimately show ?thesis using xs by blast
qed

lemma invalidate_one:
  assumes S: "setting_ok pf as g" and l: "log_ok pf as g now l"
    and T: "traced (causal as) ex (set roots) m" and R: "set roots \<subseteq> toResearchArtifactRef ` set as"
    and k: "jget m k = Some rm"
  shows "\<exists>a l'. a \<in> set as \<and> envelope_key a = k
     \<and> invalidate_descendant pf as m reason now (l, acc) k
         = Inr (l', if active_in l k then acc @ [toResearchArtifactRef a] else acc)
     \<and> log_ok pf as g now l' \<and> log_extends l l'
     \<and> (if active_in l k then \<exists>e. lg_events l' = lg_events l @ [e] else l' = l)
     \<and> jget (lg_states l') = (if active_in l k then (jget (lg_states l))(k \<mapsto> stale_state pf m reason now k)
                               else jget (lg_states l))"
proof -
  from traced_entry [OF T R k] obtain xs a where xs: "traced_refs pf m k = map toResearchArtifactRef xs"
    "set xs \<subseteq> set as" "xs \<noteq> []" "\<forall>x \<in> set xs. (envelope_key x, k) \<in> (causal as)\<^sup>+"
    and a: "a \<in> set as" "envelope_key a = k" by blast
  obtain st where st: "jget (lg_states l) (envelope_key a) = Some st"
    using log_ok_state [OF l a(1)] by blast
  have ba: "jget (by_key as) k = Some a" using S a by (auto simp: setting_ok_def jget_by_key)
  show ?thesis
  proof (cases "ms_status st = Active")
    case False
    with st a have na: "\<not> active_in l k" by (auto simp: active_in_def)
    have "invalidate_descendant pf as m reason now (l, acc) k = Inr (l, acc)"
      using False ba st a by (simp add: invalidate_descendant_def)
    with na a l show ?thesis
      by (intro exI [of _ a] exI [of _ l]) simp
  next
    case True
    with st a have ac: "active_in l k" by (auto simp: active_in_def)
    have "event_allowed as a st Invalidation xs now"
      using True xs(4) a(2) by (simp add: event_allowed_def)
    moreover have "cause_reason Invalidation (Some reason)" by (simp add: cause_reason_def)
    ultimately obtain e where e: "appendStatusEvent pf l a (cause_target Invalidation) Invalidation
          (jvals (opt_map (jget m k))) (Some reason) now
        = Inr \<lparr>lg_events = lg_events l @ [e],
               lg_states = jset (envelope_key a) (stale_state pf m reason now k) (lg_states l)\<rparr>"
      "log_ok pf as g now \<lparr>lg_events = lg_events l @ [e],
               lg_states = jset (envelope_key a) (stale_state pf m reason now k) (lg_states l)\<rparr>"
      using append_event_log_ok [OF S l a(1) st, of "jvals (opt_map (jget m k))" xs] xs
      unfolding stale_state_def traced_refs_def by blast
    let ?l = "\<lparr>lg_events = lg_events l @ [e],
               lg_states = jset (envelope_key a) (stale_state pf m reason now k) (lg_states l)\<rparr>"
    have "invalidate_descendant pf as m reason now (l, acc) k
         = Inr (?l, acc @ [toResearchArtifactRef a])"
      using True ba st a e(1) by (simp add: invalidate_descendant_def rmap_def)
    moreover have "log_extends l ?l" unfolding stale_state_def by (rule log_extends_event)
    moreover have "jget (lg_states ?l) = (jget (lg_states l))(k \<mapsto> stale_state pf m reason now k)"
      using a by simp
    ultimately show ?thesis using ac a e(2)
      by (intro exI [of _ a] exI [of _ ?l]) simp
  qed
qed

lemma invalidate_many:
  assumes S: "setting_ok pf as g" and T: "traced (causal as) ex (set roots) m"
    and R: "set roots \<subseteq> toResearchArtifactRef ` set as"
  shows "log_ok pf as g now l \<Longrightarrow> distinct ks \<Longrightarrow> set ks \<subseteq> fst ` set m \<Longrightarrow>
     \<exists>l' new. rfold (invalidate_descendant pf as m reason now) (l, acc) ks = Inr (l', acc @ new)
     \<and> log_ok pf as g now l' \<and> log_extends l l' \<and> (new = [] \<longrightarrow> l' = l)
     \<and> set new = toResearchArtifactRef ` {a \<in> set as. envelope_key a \<in> set ks \<and> active_in l (envelope_key a)}
     \<and> (\<forall>k. jget (lg_states l') k = (if k \<in> set ks \<and> active_in l k
            then Some (stale_state pf m reason now k) else jget (lg_states l) k))"
proof (induction ks arbitrary: l acc)
  case Nil
  then show ?case by simp
next
  case (Cons k ks)
  then obtain rm where "jget m k = Some rm" by (auto simp: in_keys_jget)
  from invalidate_one [OF S Cons.prems(1) T R this, where reason = reason and acc = acc]
  obtain a l1 where a: "a \<in> set as" "envelope_key a = k"
    and one: "invalidate_descendant pf as m reason now (l, acc) k
         = Inr (l1, if active_in l k then acc @ [toResearchArtifactRef a] else acc)"
    and l1: "log_ok pf as g now l1" "log_extends l l1"
      "if active_in l k then \<exists>e. lg_events l1 = lg_events l @ [e] else l1 = l"
      "jget (lg_states l1) = (if active_in l k then (jget (lg_states l))(k \<mapsto> stale_state pf m reason now k)
                               else jget (lg_states l))" by blast
  define acc1 where "acc1 = (if active_in l k then acc @ [toResearchArtifactRef a] else acc)"
  have "distinct ks" "set ks \<subseteq> fst ` set m" using Cons.prems by auto
  from Cons.IH [OF l1(1) this, of acc1] obtain l' new where
    l': "rfold (invalidate_descendant pf as m reason now) (l1, acc1) ks = Inr (l', acc1 @ new)"
      "log_ok pf as g now l'" "log_extends l1 l'" "new = [] \<longrightarrow> l' = l1"
      "set new = toResearchArtifactRef ` {a \<in> set as. envelope_key a \<in> set ks \<and> active_in l1 (envelope_key a)}"
      "\<forall>k. jget (lg_states l') k = (if k \<in> set ks \<and> active_in l1 k
            then Some (stale_state pf m reason now k) else jget (lg_states l1) k)" by blast
  have same: "active_in l1 j \<longleftrightarrow> active_in l j" if "j \<noteq> k" for j
    using l1(4) that by (simp add: active_in_def)
  have "k \<notin> set ks" using Cons.prems(2) by simp
  then have "active_in l1 (envelope_key b) \<longleftrightarrow> active_in l (envelope_key b)"
    if "envelope_key b \<in> set ks" for b
    using that by (intro same) auto
  then have hits: "{a \<in> set as. envelope_key a \<in> set ks \<and> active_in l1 (envelope_key a)}
      = {a \<in> set as. envelope_key a \<in> set ks \<and> active_in l (envelope_key a)}"
    by blast
  have inj: "inj_on envelope_key (set as)" using S by (simp add: setting_ok_def distinct_map)
  have uniq: "b = a" if "b \<in> set as" "envelope_key b = k" for b
    using that a inj by (auto dest: inj_onD)
  have fin: "jget (lg_states l') j = (if j \<in> set (k # ks) \<and> active_in l j
            then Some (stale_state pf m reason now j) else jget (lg_states l) j)" for j
  proof (cases "j = k")
    case True
    with \<open>k \<notin> set ks\<close> l'(6) have "jget (lg_states l') j = jget (lg_states l1) j" by presburger
    with True l1(4) show ?thesis by simp
  next
    case False
    with l1(4) have "jget (lg_states l1) j = jget (lg_states l) j" by simp
    with False same [OF False] l'(6) show ?thesis by (simp del: map_of_eq_Some_iff)
  qed
  show ?case
  proof (cases "active_in l k")
    case True
    have "{b \<in> set as. envelope_key b \<in> set (k # ks) \<and> active_in l (envelope_key b)}
        = insert a {b \<in> set as. envelope_key b \<in> set ks \<and> active_in l (envelope_key b)}"
      unfolding set_eq_iff mem_Collect_eq insert_iff list.set using True a uniq by metis
    then have new: "set (toResearchArtifactRef a # new) = toResearchArtifactRef `
        {b \<in> set as. envelope_key b \<in> set (k # ks) \<and> active_in l (envelope_key b)}"
      using l'(5) hits by simp
    have "rfold (invalidate_descendant pf as m reason now) (l, acc) (k # ks)
        = Inr (l', acc @ toResearchArtifactRef a # new)"
      using one l'(1) True by (simp add: acc1_def)
    with l'(2) new fin log_extends_trans [OF l1(2) l'(3)] show ?thesis
      by (intro exI [of _ l'] exI [of _ "toResearchArtifactRef a # new"]) blast
  next
    case False
    have "{b \<in> set as. envelope_key b \<in> set (k # ks) \<and> active_in l (envelope_key b)}
        = {b \<in> set as. envelope_key b \<in> set ks \<and> active_in l (envelope_key b)}"
      unfolding set_eq_iff mem_Collect_eq insert_iff list.set using False by metis
    then have new: "set new = toResearchArtifactRef `
        {b \<in> set as. envelope_key b \<in> set (k # ks) \<and> active_in l (envelope_key b)}"
      using l'(5) hits by simp
    have "rfold (invalidate_descendant pf as m reason now) (l, acc) (k # ks) = Inr (l', acc @ new)"
      using one l'(1) False by (simp add: acc1_def)
    moreover have "new = [] \<longrightarrow> l' = l" using l'(4) l1(3) False by simp
    ultimately show ?thesis using l'(2) new fin log_extends_trans [OF l1(2) l'(3)]
      by (intro exI [of _ l'] exI [of _ new]) blast
  qed
qed

definition below_roots :: "envelope list \<Rightarrow> artifact_ref list \<Rightarrow> string set" where
  "below_roots as roots =
     (causal as)\<^sup>+ `` (researchArtifactKey ` set roots) - researchArtifactKey ` set roots"

lemma traced_dom:
  assumes "traced (causal as) ex (set roots) m" "set ex = researchArtifactKey ` set roots"
  shows "fst ` set m = below_roots as roots"
proof (intro set_eqI iffI)
  fix k assume "k \<in> fst ` set m"
  then obtain rm where "jget m k = Some rm" by (auto simp: in_keys_jget)
  from traced_Some [OF assms(1) this] assms(2) show "k \<in> below_roots as roots"
    by (auto simp: below_roots_def)
next
  fix k assume k: "k \<in> below_roots as roots"
  show "k \<in> fst ` set m"
  proof (cases "jget m k")
    case None
    from traced_None [OF assms(1) None] k assms(2) show ?thesis by (auto simp: below_roots_def)
  next
    case (Some rm)
    then show ?thesis by (rule jget_in_keys)
  qed
qed

text \<open>The whole of \<open>appendPreciseInvalidationEvents\<close>.\<close>

lemma precise_invalidation:
  assumes S: "setting_ok pf as g" and l: "log_ok pf as g now l"
    and R: "set roots \<subseteq> toResearchArtifactRef ` set as"
  shows "\<exists>l' new. appendPreciseInvalidationEvents pf g as l roots reason now = Inr (l', new)
     \<and> log_ok pf as g now l' \<and> log_extends l l' \<and> (new = [] \<longrightarrow> l' = l)
     \<and> set new = toResearchArtifactRef `
          {a \<in> set as. envelope_key a \<in> below_roots as roots \<and> active_in l (envelope_key a)}
     \<and> (\<forall>k. jget (lg_states l') k = (if k \<in> below_roots as roots \<and> active_in l k
            then Some (stale_state pf (roots_by_descendant g roots) reason now k)
            else jget (lg_states l) k))"
proof (cases "roots = []")
  case True
  with l show ?thesis by (simp add: appendPreciseInvalidationEvents_def below_roots_def)
next
  case False
  let ?m = "roots_by_descendant g roots"
  from S have "buildResearchArtifactGraph (pf_le pf) as = Inr g" by (simp add: setting_ok_def)
  from traced_roots [OF this, of roots] obtain ex where
    ex: "set ex = researchArtifactKey ` set roots" "traced (causal as) ex (set roots) ?m" by blast
  have "distinct (sort_by (pf_le pf) (jkeys ?m))"
    using ex(2) by (simp add: traced_def jkeys_def)
  moreover have ks: "set (sort_by (pf_le pf) (jkeys ?m)) = below_roots as roots"
    using traced_dom [OF ex(2,1)] by (simp add: jkeys_def)
  moreover have "set (sort_by (pf_le pf) (jkeys ?m)) \<subseteq> fst ` set ?m" by (simp add: jkeys_def)
  ultimately obtain l' new where
    r: "rfold (invalidate_descendant pf as ?m reason now) (l, []) (sort_by (pf_le pf) (jkeys ?m))
        = Inr (l', new)" and rest: "log_ok pf as g now l'" "log_extends l l'" "new = [] \<longrightarrow> l' = l"
    "set new = toResearchArtifactRef `
       {a \<in> set as. envelope_key a \<in> below_roots as roots \<and> active_in l (envelope_key a)}"
    "\<forall>k. jget (lg_states l') k = (if k \<in> below_roots as roots \<and> active_in l k
            then Some (stale_state pf ?m reason now k) else jget (lg_states l) k)"
    using invalidate_many [OF S ex(2) R l, where reason = reason and acc = "[]" and
        ks = "sort_by (pf_le pf) (jkeys ?m)"] unfolding ks append_Nil by blast
  have "appendPreciseInvalidationEvents pf g as l roots reason now = Inr (l', sort_by (compareRefs pf) new)"
    using False r by (simp add: appendPreciseInvalidationEvents_def Let_def rmap_def)
  with rest show ?thesis
    by (intro exI [of _ l'] exI [of _ "sort_by (compareRefs pf) new"]) simp
qed

end
