(* ===== verification/Repository_Safety.thy ===== *)
theory Repository_Safety
  imports Repository_Transactions
begin

text \<open>
  What the transactions of \<open>src/research/artifacts/repository.ts\<close> guarantee: a committed
  manifest is readable again, the artifact list and the log only grow, no active artifact
  depends on one that is not, a repeated append changes nothing, and every sequence of
  transactions keeps the repository readable.
\<close>

section \<open>Normalised envelopes and events\<close>

lemma createResearchArtifact_InrD:
  assumes "createResearchArtifact pf uuid input = Inr a"
  shows "id_ok (art_id a) \<and> revision_ok (art_revision a) \<and> parents_ok (art_parents a)
     \<and> (\<exists>t. art_hash a = ''sha256:'' @ pf_sha256 pf t) \<and> art_kind a = ci_kind input
     \<and> art_created a = ci_now input \<and> art_updated a = ci_now input"
  using assms
  by (auto simp: createResearchArtifact_def rbind_eq_Inr hashResearchArtifactContent_def rmap_eq_Inr)

lemma normalizeEnvelope_InrD:
  assumes "normalizeEnvelope pf a = Inr n"
  shows "id_ok (art_id n) \<and> revision_ok (art_revision n) \<and> hash_ok (art_hash n)"
proof -
  from assms obtain payload rebuilt inval where
    r: "createResearchArtifact pf []
              \<lparr>ci_kind = art_kind a, ci_payload = payload, ci_producer = art_producer a,
               ci_parents = Some (art_parents a), ci_sources = Some (art_sources a),
               ci_id = Some (art_id a), ci_revision = Some (art_revision a),
               ci_status = Some (art_status a), ci_now = art_created a\<rparr> = Inr rebuilt"
    and "hash_ok (art_hash a)" "n = rebuilt\<lparr>art_created := art_created a, art_updated := art_updated a,
                        art_hash := art_hash a, art_payload := payload, art_invalidation := inval\<rparr>"
    unfolding normalizeEnvelope_def rbind_eq_Inr Let_def lift_schema_eq require_eq_Inr sum.inject
    by blast
  with createResearchArtifact_InrD [OF r] show ?thesis by simp
qed

lemma id_ok_repo: "id_ok i \<Longrightarrow> repo_id_ok i"
  by (simp add: id_ok_def repo_id_ok_def)

lemma envelope_ref_storable:
  "id_ok (art_id a) \<and> revision_ok (art_revision a) \<and> hash_ok (art_hash a) \<Longrightarrow>
     ref_storable (toResearchArtifactRef a)"
  by (simp add: ref_storable_def normalize_ref_def toResearchArtifactRef_def id_ok_repo)

lemma normalizeEnvelope_storable:
  "normalizeEnvelope pf a = Inr n \<Longrightarrow> ref_storable (toResearchArtifactRef n)"
  by (rule envelope_ref_storable) (rule normalizeEnvelope_InrD)

lemma normalize_ref_InrD: "normalize_ref r = Inr s \<Longrightarrow> s = r \<and> ref_storable r"
  by (auto simp: normalize_ref_def ref_storable_def split: if_splits)

lemma traverse_normalize_ref: "traverse normalize_ref rs = Inr ss \<Longrightarrow> ss = rs \<and> (\<forall>r \<in> set rs. ref_storable r)"
  by (induction rs arbitrary: ss) (auto simp: rbind_eq_Inr dest!: normalize_ref_InrD)

lemma normalizeStatusEvent_InrD:
  assumes "normalizeStatusEvent pf n e = Inr e'"
  shows "\<exists>rs. ev_roots e' = uniqueRefs pf rs \<and> event_shape_ok e' \<and> ev_sequence e' = n
     \<and> statusEventId pf e' = Inr (ev_id e') \<and> repo_id_ok (ev_id e') \<and> ev_changed e' = ev_changed e"
proof -
  from assms obtain rs a where
    e': "e' = e\<lparr>ev_roots := uniqueRefs pf rs, ev_artifact := a\<rparr>"
    and n: "ev_sequence e = n" "ev_from e \<noteq> ev_to e" "ev_roots e \<noteq> []"
    and rs: "traverse normalize_ref (ev_roots e) = Inr rs" "normalize_ref (ev_artifact e) = Inr a"
    and c: "ev_cause e = New_revision \<longrightarrow> ev_to e = Superseded \<and> ev_reason e = None"
      "ev_cause e = Invalidation \<longrightarrow> ev_to e = Stale \<and> ev_reason e \<noteq> None"
    and i: "repo_id_ok (ev_id e)" "statusEventId pf e' = Inr (ev_id e)"
    unfolding normalizeStatusEvent_def rbind_eq_Inr Let_def require_eq_Inr sum.inject by blast
  from traverse_normalize_ref [OF rs(1)] n(3) have "rs \<noteq> []" "\<forall>r \<in> set rs. ref_storable r" by auto
  then have "uniqueRefs pf rs \<noteq> []" "\<forall>r \<in> set (uniqueRefs pf rs). ref_storable r"
    using set_uniqueRefs_subset by auto
  with n c normalize_ref_InrD [OF rs(2)] have "event_shape_ok e'" by (simp add: e' event_shape_ok_def)
  with n i show ?thesis by (intro exI [of _ rs]) (simp add: e')
qed

lemma normalizeStatusEvent_idem:
  assumes "platform_ok pf" "normalizeStatusEvent pf n e = Inr e'"
  shows "normalizeStatusEvent pf n e' = Inr e'"
proof -
  from normalizeStatusEvent_InrD [OF assms(2)] obtain rs where
    r: "ev_roots e' = uniqueRefs pf rs" "event_shape_ok e'" "ev_sequence e' = n"
      "statusEventId pf e' = Inr (ev_id e')" "repo_id_ok (ev_id e')" by blast
  have "e'\<lparr>ev_roots := uniqueRefs pf (ev_roots e'), ev_artifact := ev_artifact e'\<rparr> = e'"
    using assms(1) r(1) by (simp add: uniqueRefs_idem)
  with r show ?thesis
    by (simp add: normalizeStatusEvent_def event_shape_ok_def traverse_storable ref_storable_def
        assertCanonicalShape_same)
qed

lemma normalize_events_idem:
  "platform_ok pf \<Longrightarrow> normalize_events pf n es = Inr es' \<Longrightarrow> normalize_events pf n es' = Inr es'"
  by (induction es arbitrary: n es') (auto simp: rbind_eq_Inr normalizeStatusEvent_idem)

lemma normalizeStatusEvent_numbered:
  "normalizeStatusEvent pf n e = Inr e' \<Longrightarrow> id_numbered e'"
  using normalizeStatusEvent_InrD statusEventId_shape [of pf e']
  by (fastforce simp: id_numbered_def)

lemma normalize_events_numbered:
  "normalize_events pf n es = Inr es' \<Longrightarrow> e \<in> set es' \<Longrightarrow> id_numbered e"
  by (induction es arbitrary: n es') (auto simp: rbind_eq_Inr dest: normalizeStatusEvent_numbered)

lemma kind_text_no_colon: "CHR '':'' \<notin> set (ref_kind_text k)"
proof (cases k)
  case (Stored j)
  then show ?thesis by (cases j) simp_all
qed simp

lemma id_pattern_no_at: "id_pattern i \<Longrightarrow> CHR ''@'' \<notin> set i"
  by (cases i) (auto simp: id_pattern_def list_all_iff dest: alnum_id_char)

lemma show_pos_no_colon: "revision_ok r \<Longrightarrow> CHR '':'' \<notin> set (show_int r)"
  using show_nat_digits [of "nat r"] by (auto simp: show_int_def revision_ok_def list_all_iff is_digit_def)

lemma fullRefKey_key:
  assumes "ref_storable r" "ref_storable s" "fullRefKey r = fullRefKey s"
  shows "researchArtifactKey r = researchArtifactKey s"
proof -
  have ok: "id_pattern (ref_id r)" "id_pattern (ref_id s)" "revision_ok (ref_revision r)"
    "revision_ok (ref_revision s)"
    using assms(1,2) by (auto simp: ref_storable_def normalize_ref_def repo_id_ok_def split: if_splits)
  from assms(3) have
    "ref_id r @ CHR ''@'' # show_int (ref_revision r) @ CHR '':'' # ref_hash r
     = ref_id s @ CHR ''@'' # show_int (ref_revision s) @ CHR '':'' # ref_hash s"
    unfolding fullRefKey_def using sep_split [OF kind_text_no_colon kind_text_no_colon] by blast
  from sep_split [OF id_pattern_no_at [OF ok(1)] id_pattern_no_at [OF ok(2)] this]
  have "ref_id r = ref_id s"
    "show_int (ref_revision r) @ CHR '':'' # ref_hash r = show_int (ref_revision s) @ CHR '':'' # ref_hash s"
    by auto
  with sep_split [OF show_pos_no_colon [OF ok(3)] show_pos_no_colon [OF ok(4)]]
  show ?thesis by (auto simp: researchArtifactKey_def artifact_key_def)
qed

section \<open>One commit\<close>

text \<open>No active artifact lies causally below one that is not active.\<close>

definition staleness_closed :: "envelope list \<Rightarrow> log_state \<Rightarrow> bool" where
  "staleness_closed as l \<longleftrightarrow> (\<forall>a \<in> set as. \<forall>b \<in> set as.
     (envelope_key a, envelope_key b) \<in> (causal as)\<^sup>+ \<longrightarrow> \<not> active_in l (envelope_key a)
       \<longrightarrow> \<not> active_in l (envelope_key b))"

lemma settled_not_active: "settled l k \<Longrightarrow> \<not> active_in l k"
  by (auto simp: settled_def active_in_def)

lemma closed_after:
  assumes S: "setting_ok pf as g"
    and R: "set R \<subseteq> toResearchArtifactRef ` set as"
    and set: "\<forall>r \<in> set R. settled l (researchArtifactKey r)"
    and all: "\<forall>a \<in> set as. \<not> active_in l (envelope_key a) \<longrightarrow> (\<exists>r \<in> set R. researchArtifactKey r = envelope_key a)"
    and l': "\<forall>k. jget (lg_states l') k = (if k \<in> below_roots as R \<and> active_in l k
            then Some (st k) else jget (lg_states l) k)" "\<forall>k. ms_status (st k) = Stale"
  shows "staleness_closed as l'"
proof -
  have act: "active_in l' k \<longleftrightarrow> active_in l k \<and> k \<notin> below_roots as R" for k
  proof (cases "k \<in> below_roots as R \<and> active_in l k")
    case True
    then have "jget (lg_states l') k = Some (st k)" using l'(1) by presburger
    then show ?thesis using True l'(2) by (simp add: active_in_def)
  next
    case False
    then have "jget (lg_states l') k = jget (lg_states l) k" using l'(1) by presburger
    then show ?thesis using False by (auto simp: active_in_def)
  qed
  show ?thesis unfolding staleness_closed_def
  proof (intro ballI impI)
    fix a b
    assume a: "a \<in> set as" and b: "b \<in> set as"
      and ab: "(envelope_key a, envelope_key b) \<in> (causal as)\<^sup>+" and na: "\<not> active_in l' (envelope_key a)"
    have "\<exists>r \<in> set R. (researchArtifactKey r, envelope_key b) \<in> (causal as)\<^sup>+"
    proof (cases "active_in l (envelope_key a)")
      case True
      with na act obtain r where "r \<in> set R" "(researchArtifactKey r, envelope_key a) \<in> (causal as)\<^sup>+"
        by (auto simp: below_roots_def)
      with ab show ?thesis by (blast intro: trancl_trans)
    next
      case False
      with all a obtain r where "r \<in> set R" "researchArtifactKey r = envelope_key a" by blast
      with ab show ?thesis by (intro bexI [of _ r]) simp_all
    qed
    then obtain r where r: "r \<in> set R" "(researchArtifactKey r, envelope_key b) \<in> (causal as)\<^sup>+" by blast
    show "\<not> active_in l' (envelope_key b)"
    proof (cases "envelope_key b \<in> researchArtifactKey ` set R")
      case True
      with set have "settled l (envelope_key b)" by auto
      with act show ?thesis by (simp add: settled_not_active)
    next
      case False
      with r act show ?thesis by (auto simp: below_roots_def)
    qed
  qed
qed

lemma replay_updated_bound:
  assumes "replay as g es = Inr s" "\<forall>a \<in> set as. art_updated a \<le> now" "\<forall>e \<in> set es. ev_changed e \<le> now"
  shows "jget (rp_states s) k = Some st \<Longrightarrow> ms_updated st \<le> now"
  using assms(1,3)
proof (induction es arbitrary: s k st rule: rev_induct)
  case Nil
  have gen: "\<forall>a \<in> set as. art_updated a \<le> now \<Longrightarrow> \<forall>k st. jget m k = Some st \<longrightarrow> ms_updated st \<le> now \<Longrightarrow>
     jget (foldl (\<lambda>m a. jset (envelope_key a)
     \<lparr>ms_status = art_status a, ms_updated = art_updated a, ms_inval = art_invalidation a\<rparr> m) m as) k = Some st
     \<Longrightarrow> ms_updated st \<le> now" for m as
  proof (induction as arbitrary: m)
    case (Cons a as)
    have "\<forall>k st. jget (jset (envelope_key a) \<lparr>ms_status = art_status a, ms_updated = art_updated a,
        ms_inval = art_invalidation a\<rparr> m) k = Some st \<longrightarrow> ms_updated st \<le> now"
      using Cons.prems(1,2) by simp
    from Cons.IH [OF _ this] Cons.prems(1,3) show ?case by simp
  qed simp
  from Nil have "s = replay_start as" by (simp add: replay_def)
  with Nil have "jget (initial_states as) k = Some st" by (simp add: replay_start_def)
  with gen [of as "[]"] assms(2) show ?case by (simp add: initial_states_def)
next
  case (snoc e es)
  from snoc.prems obtain s0 where s0: "replay as g es = Inr s0" "replay_step as g s0 e = Inr s"
    by (auto simp: replay_snoc rbind_eq_Inr)
  from s0(2) show ?case
  proof (rule replay_step_InrD)
    fix a roots st0
    assume s: "s = \<lparr>rp_index = rp_index s0 + 1, rp_ids = sadd (ev_id e) (rp_ids s0),
           rp_time = Some (ev_changed e),
           rp_states = jset (envelope_key a) (event_state e) (rp_states s0)\<rparr>"
    show ?case
    proof (cases "k = envelope_key a")
      case True
      with snoc.prems s have "st = event_state e" by simp
      with snoc.prems(3) show ?thesis by (simp add: event_state_def)
    next
      case False
      with snoc.prems(1) s have "jget (rp_states s0) k = Some st" by simp
      with snoc.IH s0(1) snoc.prems(3) show ?thesis by simp
    qed
  qed
qed

lemma start_log_ok:
  assumes "platform_ok pf" "replayStatusEvents as es g = Inr states"
    and "normalize_events pf 1 es = Inr es" "\<forall>e \<in> set es. ev_changed e \<le> now"
    and "\<forall>a \<in> set as. art_updated a \<le> now"
  shows "log_ok pf as g now \<lparr>lg_events = es, lg_states = states\<rparr>"
proof -
  from assms(2) obtain s where s: "replay as g es = Inr s" "states = rp_states s"
    by (auto simp: replayStatusEvents_eq)
  show ?thesis
    using s assms(3,4) normalize_events_numbered [OF assms(3)]
      replay_updated_bound [OF s(1) assms(5,4)]
    by (auto simp: log_ok_def)
qed

lemma validated_setting:
  assumes "platform_ok pf" "validateCompleteArtifactGraph pf as = Inr g"
    and "\<forall>a \<in> set as. ref_storable (toResearchArtifactRef a)"
  shows "setting_ok pf as g"
proof -
  from assms(2) have g: "buildResearchArtifactGraph (pf_le pf) as = Inr g"
    by (auto simp: validateCompleteArtifactGraph_def split: sum.splits if_splits)
  then have "distinct (map envelope_key as)" using build_graph_iff by blast
  with g assms(1,3) show ?thesis by (simp add: setting_ok_def)
qed

lemma not_active_key: "log_ok pf as g now l \<Longrightarrow> a \<in> set as \<Longrightarrow>
   not_active (lg_states l) a \<longleftrightarrow> \<not> active_in l (envelope_key a)"
  by (auto simp: not_active_def active_in_def split: option.splits)

lemma not_active_settled: "log_ok pf as g now l \<Longrightarrow> a \<in> set as \<Longrightarrow>
   \<not> active_in l (envelope_key a) \<Longrightarrow> settled l (envelope_key a)"
  by (auto simp: settled_def active_in_def elim: log_ok_state)

text \<open>The revision just before an appended one, in the same history.\<close>

definition preceded :: "envelope list \<Rightarrow> string list \<Rightarrow> envelope \<Rightarrow> bool" where
  "preceded as keys p \<longleftrightarrow> p \<in> set as \<and> (\<exists>c \<in> set as. envelope_key c \<in> set keys
      \<and> (p, c) \<in> set (concat (map (\<lambda>e. adjacent (snd e)) (groupArtifactsById as))))"

lemma commit_events:
  assumes P: "platform_ok pf" and c: "append_events pf base appended es now = Inr c"
    and st: "\<forall>a \<in> set (base @ appended). ref_storable (toResearchArtifactRef a)"
    and es: "normalize_events pf 1 es = Inr es" "\<forall>e \<in> set es. ev_changed e \<le> now"
    and up: "\<forall>a \<in> set base. art_updated a \<le> now"
  shows "\<exists>g. validateCompleteArtifactGraph pf (base @ appended) = Inr g
     \<and> assertAppendOnlyRevisionSequence base appended = Inr ()
     \<and> validateEmbeddedInvalidationRefs (base @ appended) g = Inr ()
     \<and> (\<forall>a \<in> set (base @ appended). art_updated a \<le> now)
     \<and> setting_ok pf (base @ appended) g \<and> log_ok pf (base @ appended) g now (cm_log c)
     \<and> (\<exists>new. lg_events (cm_log c) = es @ new)
     \<and> (\<forall>p. preceded (base @ appended) (map envelope_key appended) p
          \<longrightarrow> \<not> active_in (cm_log c) (envelope_key p))
     \<and> staleness_closed (base @ appended) (cm_log c)"
proof -
  let ?as = "base @ appended" and ?keys = "map envelope_key appended"
  from c obtain g states su r where
    now: "\<forall>a \<in> set appended. art_updated a \<le> now"
    and seq: "assertAppendOnlyRevisionSequence base appended = Inr ()"
    and g: "validateCompleteArtifactGraph pf ?as = Inr g"
    and emb: "validateEmbeddedInvalidationRefs ?as g = Inr ()"
    and rep: "replayStatusEvents ?as es g = Inr states"
    and su: "supersede_all pf ?keys now ?as \<lparr>lg_events = es, lg_states = states\<rparr> = Inr su"
    and r: "appendPreciseInvalidationEvents pf g ?as (su_log su)
        (uniqueRefs pf (su_updated su @ map toResearchArtifactRef
           (filter (not_active (lg_states (su_log su))) ?as))) Upstream_changed now = Inr r"
    and cm: "cm_log c = fst r"
    unfolding append_events_def rbind_eq_Inr Let_def require_eq_Inr by auto
  let ?l0 = "\<lparr>lg_events = es, lg_states = states\<rparr>"
  let ?inh = "map toResearchArtifactRef (filter (not_active (lg_states (su_log su))) ?as)"
  let ?R = "uniqueRefs pf (su_updated su @ ?inh)"
  have upd: "\<forall>a \<in> set ?as. art_updated a \<le> now" using now up by auto
  have S: "setting_ok pf ?as g" by (rule validated_setting [OF P g st])
  have l0: "log_ok pf ?as g now ?l0" by (rule start_log_ok [OF P rep es upd])
  have I0: "superseding pf ?as g now ?l0 \<lparr>su_log = ?l0, su_superseded = [], su_updated = []\<rparr>"
    using l0 by (simp add: superseding_def)
  let ?pcs = "concat (map (\<lambda>e. adjacent (snd e)) (groupArtifactsById ?as))"
  have pcs: "\<forall>pc \<in> set ?pcs. fst pc \<in> set ?as \<and> snd pc \<in> set ?as \<and> art_id (snd pc) = art_id (fst pc)
        \<and> art_kind (snd pc) = art_kind (fst pc)
        \<and> art_revision (snd pc) = art_revision (fst pc) + 1 \<and> art_updated (snd pc) \<le> now"
    using history_pair [OF seq] upd by force
  from supersede_pairs [OF S I0 pcs, of ?keys] su
  have su1: "superseding pf ?as g now ?l0 su"
    and upds: "su_updated su = map (\<lambda>pc. toResearchArtifactRef (fst pc))
        (filter (\<lambda>pc. envelope_key (snd pc) \<in> set ?keys) ?pcs)"
    unfolding supersede_all_def by auto
  then have l1: "log_ok pf ?as g now (su_log su)" and e1: "log_extends ?l0 (su_log su)"
    by (simp_all add: superseding_def)
  have all_refs: "\<forall>x \<in> set (su_updated su @ ?inh). \<exists>p \<in> set ?as. x = toResearchArtifactRef p
       \<and> settled (su_log su) (envelope_key p)"
    using su1 not_active_key [OF l1] not_active_settled [OF l1] unfolding superseding_def by auto
  then have R: "set ?R \<subseteq> toResearchArtifactRef ` set ?as"
    and Rset: "\<forall>x \<in> set ?R. settled (su_log su) (researchArtifactKey x)"
    using set_uniqueRefs_subset [of pf "su_updated su @ ?inh"] by fastforce+
  from precise_invalidation [OF S l1 R, of Upstream_changed] obtain l' new where
    pr: "appendPreciseInvalidationEvents pf g ?as (su_log su) ?R Upstream_changed now = Inr (l', new)"
    and l2': "log_ok pf ?as g now l'" "log_extends (su_log su) l'"
    and fin': "\<forall>k. jget (lg_states l') k = (if k \<in> below_roots ?as ?R \<and> active_in (su_log su) k
            then Some (stale_state pf (roots_by_descendant g ?R) Upstream_changed now k)
            else jget (lg_states (su_log su)) k)" by blast
  from r [unfolded pr] have "r = (l', new)" by simp
  then have rl: "fst r = l'" by simp
  note l2 = l2' [folded rl]
  have fin: "\<forall>k. jget (lg_states (fst r)) k = (if k \<in> below_roots ?as ?R \<and> active_in (su_log su) k
            then Some (stale_state pf (roots_by_descendant g ?R) Upstream_changed now k)
            else jget (lg_states (su_log su)) k)" using fin' unfolding rl .
  have all: "\<exists>x \<in> set ?R. researchArtifactKey x = envelope_key a"
    if "a \<in> set ?as" "\<not> active_in (su_log su) (envelope_key a)" for a
  proof -
    from that not_active_key [OF l1] have "toResearchArtifactRef a \<in> set (su_updated su @ ?inh)" by auto
    then have "fullRefKey (toResearchArtifactRef a) \<in> fullRefKey ` set ?R" by (simp only: uniqueRefs_keys) simp
    then obtain x where x: "x \<in> set ?R" "fullRefKey (toResearchArtifactRef a) = fullRefKey x" by blast
    moreover from x(1) R st have "ref_storable x" by auto
    moreover have "ref_storable (toResearchArtifactRef a)" using that(1) st by auto
    ultimately have "researchArtifactKey x = researchArtifactKey (toResearchArtifactRef a)"
      using fullRefKey_key by metis
    with x(1) show ?thesis by auto
  qed
  have cl: "staleness_closed ?as (fst r)"
    by (rule closed_after [OF S R Rset _ fin]) (use all in \<open>simp_all\<close>)
  have prev: "\<not> active_in (fst r) (envelope_key p)" if "preceded ?as ?keys p" for p
  proof -
    from that obtain cc where pc: "p \<in> set ?as" "envelope_key cc \<in> set ?keys" "(p, cc) \<in> set ?pcs"
      unfolding preceded_def by blast
    then have "(p, cc) \<in> set (filter (\<lambda>pc. envelope_key (snd pc) \<in> set ?keys) ?pcs)" by simp
    then have "toResearchArtifactRef p \<in> set (su_updated su)"
      unfolding upds by (force simp del: filter_concat set_concat)
    with su1 obtain q where "q \<in> set ?as" "toResearchArtifactRef p = toResearchArtifactRef q"
      "settled (su_log su) (envelope_key q)" unfolding superseding_def by blast
    then have "settled (su_log su) (envelope_key p)" by (metis key_of_ref)
    from settled_extends [OF this l2(2)] show ?thesis by (rule settled_not_active)
  qed
  have "\<exists>new. lg_events (fst r) = es @ new"
    using log_extends_trans [OF e1 l2(2)] by (simp add: log_extends_def)
  with g seq emb upd S l2(1) cl prev show ?thesis unfolding cm by blast
qed

section \<open>Materialised views\<close>

definition view :: "states \<Rightarrow> envelope \<Rightarrow> envelope" where
  "view states a = (case jget states (envelope_key a) of None \<Rightarrow> a
     | Some st \<Rightarrow> a\<lparr>art_status := ms_status st, art_updated := ms_updated st,
                   art_invalidation := ms_inval st\<rparr>)"

lemma view_fields [simp]:
  "envelope_key (view s a) = envelope_key a" "art_parents (view s a) = art_parents a"
  "art_id (view s a) = art_id a" "art_revision (view s a) = art_revision a"
  "art_kind (view s a) = art_kind a" "art_hash (view s a) = art_hash a"
  "art_payload (view s a) = art_payload a" "art_created (view s a) = art_created a"
  by (simp_all add: view_def envelope_key_def split: option.split)

lemma artifact_keys_view [simp]: "artifact_keys (map (view s) as) = artifact_keys as"
  by (simp add: artifact_keys_def image_image)

lemma causal_alt: "causal as = (\<Union>a \<in> set as.
    (\<lambda>p. (researchArtifactKey (par_artifact p), envelope_key a)) `
      {p \<in> set (art_parents a). live_parent as p \<and> par_relation p \<noteq> Supersedes})"
  unfolding causal_def by fast

lemma causal_view [simp]: "causal (map (view s) as) = causal as"
proof -
  have "live_parent (map (view s) as) = live_parent as" by (rule ext) (simp add: live_parent_def)
  then show ?thesis by (simp add: causal_alt)
qed

lemma view_active: "log_ok pf as g now l \<Longrightarrow> a \<in> set as \<Longrightarrow>
   art_status (view (lg_states l) a) = Active \<longleftrightarrow> active_in l (envelope_key a)"
  by (erule (1) log_ok_state) (auto simp: view_def active_in_def)

lemma materialize_log:
  assumes "validateCompleteArtifactGraph pf as = Inr g" "log_ok pf as g now l"
  shows "materializeArtifacts pf as (lg_events l) = Inr (map (view (lg_states l)) as)"
proof -
  from assms(2) obtain s where s: "replay as g (lg_events l) = Inr s" "rp_states s = lg_states l"
    by (auto simp: log_ok_def)
  then have rep: "replayStatusEvents as (lg_events l) g = Inr (lg_states l)"
    by (simp add: replayStatusEvents_eq)
  have "traverse (materialize (lg_states l)) as = Inr (map (view (lg_states l)) as)"
  proof (rule traverse_all_Inr)
    fix a assume "a \<in> set as"
    with assms(2) obtain st where "jget (lg_states l) (envelope_key a) = Some st"
      by (rule log_ok_state)
    then show "materialize (lg_states l) a = Inr (view (lg_states l) a)"
      by (simp add: materialize_def view_def)
  qed
  with assms(1) rep show ?thesis by (simp add: materializeArtifacts_def)
qed

section \<open>Manifests\<close>

lemma traverse_normalizeEnvelope_storable:
  "traverse (normalizeEnvelope pf) as = Inr ns \<Longrightarrow> \<forall>n \<in> set ns. ref_storable (toResearchArtifactRef n)"
  by (induction as arbitrary: ns)
     (auto simp: rbind_eq_Inr dest!: normalizeEnvelope_InrD intro: envelope_ref_storable)

lemma validate_InrD:
  assumes "validateResearchArtifactRepositoryManifest pf m = Inr n"
  obtains as es g where "n = m\<lparr>mf_artifacts := as, mf_events := es\<rparr>"
    "traverse (normalizeEnvelope pf) (mf_artifacts m) = Inr as"
    "normalize_events pf 1 (mf_events m) = Inr es" "repo_id_ok (mf_id m)" "revision_ok (mf_revision m)"
    "mf_created m \<le> mf_updated m" "validateCompleteArtifactGraph pf as = Inr g"
    "assertAppendOnlyRevisionSequence [] as = Inr ()" "validateEmbeddedInvalidationRefs as g = Inr ()"
    "\<exists>st. replayStatusEvents as es g = Inr st"
    "\<forall>a \<in> set as. art_updated a \<le> mf_updated m" "\<forall>e \<in> set es. ev_changed e \<le> mf_updated m"
proof -
  from assms obtain as es g st where
    "n = m\<lparr>mf_artifacts := as, mf_events := es\<rparr>"
    "traverse (normalizeEnvelope pf) (mf_artifacts m) = Inr as"
    "normalize_events pf 1 (mf_events m) = Inr es" "repo_id_ok (mf_id m)" "revision_ok (mf_revision m)"
    "mf_created m \<le> mf_updated m" "validateCompleteArtifactGraph pf as = Inr g"
    "assertAppendOnlyRevisionSequence [] as = Inr ()" "validateEmbeddedInvalidationRefs as g = Inr ()"
    "replayStatusEvents as es g = Inr st"
    "\<forall>a \<in> set as. art_updated a \<le> mf_updated m" "\<forall>e \<in> set es. ev_changed e \<le> mf_updated m"
    unfolding validateResearchArtifactRepositoryManifest_def rbind_eq_Inr Let_def require_eq_Inr
      sum.inject by auto
  then show thesis using that by blast
qed

text \<open>What every manifest the code has in hand satisfies.\<close>

definition manifest_sound :: "platform \<Rightarrow> manifest \<Rightarrow> bool" where
  "manifest_sound pf m \<longleftrightarrow> repo_id_ok (mf_id m) \<and> mf_created m \<le> mf_updated m
     \<and> (\<forall>a \<in> set (mf_artifacts m). ref_storable (toResearchArtifactRef a)
            \<and> art_updated a \<le> mf_updated m)
     \<and> normalize_events pf 1 (mf_events m) = Inr (mf_events m)
     \<and> (\<forall>e \<in> set (mf_events m). ev_changed e \<le> mf_updated m)"

lemma validated_sound:
  assumes "platform_ok pf" "validateResearchArtifactRepositoryManifest pf m = Inr n"
  shows "manifest_sound pf n"
  using assms(2)
  by (rule validate_InrD)
     (use assms(1) in \<open>auto simp: manifest_sound_def normalize_events_idem
        dest!: traverse_normalizeEnvelope_storable\<close>)

lemma readManifest_sound:
  "platform_ok pf \<Longrightarrow> readManifest pf d = Inr (Some m) \<Longrightarrow> manifest_sound pf m"
  by (auto simp: readManifest_def rbind_eq_Inr rmap_eq_Inr intro: validated_sound split: option.splits)

definition uuid_ok :: "string \<Rightarrow> bool" where
  "uuid_ok u \<longleftrightarrow> length u \<le> 200 \<and> list_all id_char u"

lemma createEmptyManifest_sound:
  assumes "createEmptyManifest pf uuid now = Inr m" "uuid_ok uuid"
  shows "manifest_sound pf m \<and> mf_artifacts m = [] \<and> mf_events m = [] \<and> mf_updated m = now"
proof -
  have "repo_id_ok (''artifact-repository-'' @ uuid)"
    using assms(2) by (simp add: repo_id_ok_def id_pattern_def uuid_ok_def)
      (simp add: id_char_def is_alnum_def is_lower_def)
  with assms(1) show ?thesis
    by (auto simp: createEmptyManifest_def sealManifest_def rmap_eq_Inr manifest_sound_def)
qed

lemma seal_InrD:
  "sealManifest pf m = Inr n \<Longrightarrow> (\<exists>h. n = m\<lparr>mf_hash := h\<rparr>)
     \<and> hashResearchArtifactContent pf (JObj (manifest_body m)) = Inr (mf_hash n)"
  by (auto simp: sealManifest_def rmap_eq_Inr)

section \<open>The append transaction\<close>

definition base_manifest :: "platform \<Rightarrow> append_input \<Rightarrow> manifest option \<Rightarrow> (repo_error, manifest) result" where
  "base_manifest pf input existing =
     (case existing of Some m \<Rightarrow> Inr m
      | None \<Rightarrow> createEmptyManifest pf (ai_uuid input) (ai_now input))"

definition partition_start :: "manifest \<Rightarrow> partition_state" where
  "partition_start base = \<lparr>pt_byKey = of_keys envelope_key (mf_artifacts base), pt_appended = [],
     pt_idempotent = []\<rparr>"

definition next_manifest :: "append_input \<Rightarrow> manifest option \<Rightarrow> manifest \<Rightarrow> envelope list \<Rightarrow> commit \<Rightarrow> manifest" where
  "next_manifest input existing base new c =
     \<lparr>mf_id = mf_id base,
      mf_revision = (case existing of None \<Rightarrow> 1 | Some m \<Rightarrow> mf_revision m + 1),
      mf_created = mf_created base, mf_updated = ai_now input,
      mf_artifacts = mf_artifacts base @ new, mf_events = lg_events (cm_log c), mf_hash = []\<rparr>"

lemma append_cases:
  assumes "appendProjectResearchArtifacts pf input d = Inr (d', r)"
  obtains expected supplied existing base pt where
    "normalizeExpectedRevision (ai_expected input) = Inr expected"
    "normalizeSuppliedArtifacts pf (ai_artifacts input) = Inr supplied"
    "readManifest pf d = Inr existing"
    "expected = None \<or> expected = Some (case existing of None \<Rightarrow> 0 | Some m \<Rightarrow> mf_revision m)"
    "base_manifest pf input existing = Inr base"
    "rfold (partition_step pf) (partition_start base) supplied = Inr pt"
    "(pt_appended pt = [] \<and> \<not> ar_persisted r \<and> d' = d \<and> snapshotOf pf base = Inr (ar_snapshot r))
     \<or> (pt_appended pt \<noteq> [] \<and> ar_persisted r \<and> mf_updated base \<le> ai_now input
        \<and> (\<exists>c m. append_events pf (mf_artifacts base) (pt_appended pt) (mf_events base)
                (ai_now input) = Inr c
            \<and> sealManifest pf (next_manifest input existing base (pt_appended pt) c) = Inr m
            \<and> writeManifestAtomically m = Inr d' \<and> snapshotOf pf m = Inr (ar_snapshot r)
            \<and> ar_appended r = sort_by (compareRefs pf) (map toResearchArtifactRef (pt_appended pt))))"
proof -
  from assms obtain expected supplied existing base pt where
    c: "normalizeExpectedRevision (ai_expected input) = Inr expected"
    "normalizeSuppliedArtifacts pf (ai_artifacts input) = Inr supplied"
    "readManifest pf d = Inr existing"
    "expected = None \<or> expected = Some (case existing of None \<Rightarrow> 0 | Some m \<Rightarrow> mf_revision m)"
    "base_manifest pf input existing = Inr base"
    "rfold (partition_step pf) (partition_start base) supplied = Inr pt"
    and rest: "(if pt_appended pt = [] then
       rmap (\<lambda>sn. (d, \<lparr>ar_snapshot = sn, ar_appended = [],
          ar_idempotent = sort_by (compareRefs pf) (pt_idempotent pt),
          ar_superseded = [], ar_stale = [], ar_persisted = False\<rparr>)) (snapshotOf pf base)
     else
       rbind (assertTransactionTime base (ai_now input)) (\<lambda>_.
       rbind (append_events pf (mf_artifacts base) (pt_appended pt) (mf_events base)
                (ai_now input)) (\<lambda>c.
       rbind (sealManifest pf (next_manifest input existing base (pt_appended pt) c)) (\<lambda>m.
       rbind (writeManifestAtomically m) (\<lambda>d'.
       rmap (\<lambda>sn. (d', \<lparr>ar_snapshot = sn,
            ar_appended = sort_by (compareRefs pf) (map toResearchArtifactRef (pt_appended pt)),
            ar_idempotent = sort_by (compareRefs pf) (pt_idempotent pt),
            ar_superseded = uniqueRefs pf (cm_superseded c), ar_stale = cm_stale c,
            ar_persisted = True\<rparr>)) (snapshotOf pf m)))))) = Inr (d', r)"
    unfolding appendProjectResearchArtifacts_def rbind_eq_Inr require_eq_Inr assertExpectedRevision_def
      partition_start_def [symmetric] base_manifest_def [symmetric] next_manifest_def [symmetric]
    by auto
  show thesis
  proof (rule that [OF c], cases "pt_appended pt = []")
    case True
    with rest show "(pt_appended pt = [] \<and> \<not> ar_persisted r \<and> d' = d \<and> snapshotOf pf base = Inr (ar_snapshot r))
     \<or> (pt_appended pt \<noteq> [] \<and> ar_persisted r \<and> mf_updated base \<le> ai_now input
        \<and> (\<exists>c m. append_events pf (mf_artifacts base) (pt_appended pt) (mf_events base)
                (ai_now input) = Inr c
            \<and> sealManifest pf (next_manifest input existing base (pt_appended pt) c) = Inr m
            \<and> writeManifestAtomically m = Inr d' \<and> snapshotOf pf m = Inr (ar_snapshot r)
            \<and> ar_appended r = sort_by (compareRefs pf) (map toResearchArtifactRef (pt_appended pt))))"
      by (auto simp: rmap_eq_Inr)
  next
    case False
    with rest show "(pt_appended pt = [] \<and> \<not> ar_persisted r \<and> d' = d \<and> snapshotOf pf base = Inr (ar_snapshot r))
     \<or> (pt_appended pt \<noteq> [] \<and> ar_persisted r \<and> mf_updated base \<le> ai_now input
        \<and> (\<exists>c m. append_events pf (mf_artifacts base) (pt_appended pt) (mf_events base)
                (ai_now input) = Inr c
            \<and> sealManifest pf (next_manifest input existing base (pt_appended pt) c) = Inr m
            \<and> writeManifestAtomically m = Inr d' \<and> snapshotOf pf m = Inr (ar_snapshot r)
            \<and> ar_appended r = sort_by (compareRefs pf) (map toResearchArtifactRef (pt_appended pt))))"
      by (auto simp: rmap_eq_Inr rbind_eq_Inr assertTransactionTime_def)
  qed
qed

lemma base_sound:
  assumes "platform_ok pf" "uuid_ok (ai_uuid input)" "readManifest pf d = Inr existing"
    and "base_manifest pf input existing = Inr base"
  shows "manifest_sound pf base"
  using assms
  by (cases existing) (auto simp: base_manifest_def dest: readManifest_sound createEmptyManifest_sound)

lemma supplied_storable:
  assumes "normalizeSuppliedArtifacts pf as = Inr ns" "n \<in> set ns"
  shows "ref_storable (toResearchArtifactRef n)"
proof -
  have step: "\<forall>e \<in> set m'. ref_storable (toResearchArtifactRef (snd e))"
    if "supply_step pf m a = Inr m'" "\<forall>e \<in> set m. ref_storable (toResearchArtifactRef (snd e))" for m a m'
    using that
    by (auto simp: supply_step_def rbind_eq_Inr dest!: in_set_jset
        dest: normalizeEnvelope_storable)
  from assms(1) obtain m where m: "rfold (supply_step pf) [] as = Inr m" "ns = jvals m"
    by (auto simp: normalizeSuppliedArtifacts_def rmap_eq_Inr)
  have "\<forall>e \<in> set m. ref_storable (toResearchArtifactRef (snd e))"
    by (rule rfold_invariant [OF m(1)]) (use step in \<open>simp_all\<close>)
  with assms(2) m(2) show ?thesis by (auto simp: jvals_def)
qed

lemma partition_appended:
  assumes "rfold (partition_step pf) s as = Inr s'"
  shows "\<exists>new. pt_appended s' = pt_appended s @ new \<and> set new \<subseteq> set as"
  using assms
proof (induction as arbitrary: s)
  case (Cons a as)
  then obtain s1 where s1: "partition_step pf s a = Inr s1" "rfold (partition_step pf) s1 as = Inr s'"
    by (auto simp: rbind_eq_Inr)
  from s1(1) have "pt_appended s1 = pt_appended s @ [a] \<or> pt_appended s1 = pt_appended s"
    by (auto simp: partition_step_def rbind_eq_Inr split: option.splits)
  with Cons.IH [OF s1(2)] show ?case by auto
qed simp

text \<open>Everything a persisted append establishes, in one place.\<close>

lemma append_commit:
  assumes P: "platform_ok pf" "uuid_ok (ai_uuid input)"
    and run: "appendProjectResearchArtifacts pf input d = Inr (d', r)" "ar_persisted r"
  obtains existing base new c g m where "readManifest pf d = Inr existing"
    "base_manifest pf input existing = Inr base" "manifest_sound pf base"
    "mf_updated base \<le> ai_now input" "new \<noteq> []"
    "ar_appended r = sort_by (compareRefs pf) (map toResearchArtifactRef new)"
    "\<forall>a \<in> set (mf_artifacts base @ new). ref_storable (toResearchArtifactRef a) \<and> art_updated a \<le> ai_now input"
    "\<exists>supplied. normalizeSuppliedArtifacts pf (ai_artifacts input) = Inr supplied \<and> set new \<subseteq> set supplied"
    "sealManifest pf (next_manifest input existing base new c) = Inr m" "d' = Some m"
    "writeManifestAtomically m = Inr d'"
    "validateCompleteArtifactGraph pf (mf_artifacts base @ new) = Inr g"
    "assertAppendOnlyRevisionSequence (mf_artifacts base) new = Inr ()"
    "validateEmbeddedInvalidationRefs (mf_artifacts base @ new) g = Inr ()"
    "log_ok pf (mf_artifacts base @ new) g (ai_now input) (cm_log c)"
    "\<exists>es. lg_events (cm_log c) = mf_events base @ es"
    "\<forall>p. preceded (mf_artifacts base @ new) (map envelope_key new) p
          \<longrightarrow> \<not> active_in (cm_log c) (envelope_key p)"
    "staleness_closed (mf_artifacts base @ new) (cm_log c)"
    "sn_artifacts (ar_snapshot r) = map (view (lg_states (cm_log c))) (mf_artifacts base @ new)"
proof -
  from run(1) show thesis
  proof (rule append_cases)
    fix expected supplied existing base pt
    assume sup: "normalizeSuppliedArtifacts pf (ai_artifacts input) = Inr supplied"
      and ex: "readManifest pf d = Inr existing" and b: "base_manifest pf input existing = Inr base"
      and pt: "rfold (partition_step pf) (partition_start base) supplied = Inr pt"
      and alt: "(pt_appended pt = [] \<and> \<not> ar_persisted r \<and> d' = d \<and> snapshotOf pf base = Inr (ar_snapshot r))
     \<or> (pt_appended pt \<noteq> [] \<and> ar_persisted r \<and> mf_updated base \<le> ai_now input
        \<and> (\<exists>c m. append_events pf (mf_artifacts base) (pt_appended pt) (mf_events base)
                (ai_now input) = Inr c
            \<and> sealManifest pf (next_manifest input existing base (pt_appended pt) c) = Inr m
            \<and> writeManifestAtomically m = Inr d' \<and> snapshotOf pf m = Inr (ar_snapshot r)
            \<and> ar_appended r = sort_by (compareRefs pf) (map toResearchArtifactRef (pt_appended pt))))"
    let ?new = "pt_appended pt"
    from alt run(2) obtain c m where ne: "?new \<noteq> []" and time: "mf_updated base \<le> ai_now input"
      and c: "append_events pf (mf_artifacts base) ?new (mf_events base) (ai_now input) = Inr c"
      and m: "sealManifest pf (next_manifest input existing base ?new c) = Inr m"
      and w: "writeManifestAtomically m = Inr d'" and sn: "snapshotOf pf m = Inr (ar_snapshot r)"
      and ap: "ar_appended r = sort_by (compareRefs pf) (map toResearchArtifactRef ?new)" by blast
    have snd: "manifest_sound pf base" by (rule base_sound [OF P ex b])
    from partition_appended [OF pt] have sub: "set ?new \<subseteq> set supplied"
      by (auto simp: partition_start_def)
    have st: "\<forall>a \<in> set (mf_artifacts base @ ?new). ref_storable (toResearchArtifactRef a)"
      using snd sub supplied_storable [OF sup] by (auto simp: manifest_sound_def)
    have es: "normalize_events pf 1 (mf_events base) = Inr (mf_events base)"
      "\<forall>e \<in> set (mf_events base). ev_changed e \<le> ai_now input"
      "\<forall>a \<in> set (mf_artifacts base). art_updated a \<le> ai_now input"
      using snd time by (auto simp: manifest_sound_def)
    from commit_events [OF P(1) c st es] obtain g where
      g: "validateCompleteArtifactGraph pf (mf_artifacts base @ ?new) = Inr g"
      and rest: "assertAppendOnlyRevisionSequence (mf_artifacts base) ?new = Inr ()"
      "validateEmbeddedInvalidationRefs (mf_artifacts base @ ?new) g = Inr ()"
      "\<forall>a \<in> set (mf_artifacts base @ ?new). art_updated a \<le> ai_now input"
      and l: "log_ok pf (mf_artifacts base @ ?new) g (ai_now input) (cm_log c)"
      and rest2: "\<exists>es. lg_events (cm_log c) = mf_events base @ es"
      "\<forall>p. preceded (mf_artifacts base @ ?new) (map envelope_key ?new) p
          \<longrightarrow> \<not> active_in (cm_log c) (envelope_key p)"
      "staleness_closed (mf_artifacts base @ ?new) (cm_log c)" by blast
    have "sn_artifacts (ar_snapshot r) = map (view (lg_states (cm_log c))) (mf_artifacts base @ ?new)"
      using sn seal_InrD [OF m] materialize_log [OF g l]
      by (auto simp: snapshotOf_def rmap_eq_Inr next_manifest_def)
    moreover have "d' = Some m" using w by (auto simp: writeManifestAtomically_def rbind_eq_Inr)
    ultimately show thesis
      using that [OF ex b snd time ne ap _ _ m _ w g rest(1,2) l rest2] st rest(3) sup sub by blast
  qed
qed

section \<open>The written text bounds the log\<close>

lemma length_join_comma: "sum_list (map length ts) \<le> length (join_comma ts)"
proof -
  have "sum_list (map length ts) \<le> length (concat (map (\<lambda>z. CHR '','' # z) ts))" for ts :: "string list"
    by (induction ts) auto
  then show ?thesis by (auto simp: join_comma_def split: list.split)
qed

lemma member_length_join: "t \<in> set ts \<Longrightarrow> length t \<le> length (join_comma ts)"
  by (rule order_trans [OF _ length_join_comma]) (simp add: member_le_sum_list)

lemma count_join: "(\<And>t. t \<in> set ts \<Longrightarrow> t \<noteq> []) \<Longrightarrow> length ts \<le> length (join_comma ts)"
proof -
  assume ne: "\<And>t. t \<in> set ts \<Longrightarrow> t \<noteq> []"
  then have "length ts \<le> sum_list (map length ts)"
  proof (induction ts)
    case (Cons t ts)
    then have "1 \<le> length t" "length ts \<le> sum_list (map length ts)" by (simp_all add: Suc_le_eq)
    then show ?case by simp
  qed simp
  with length_join_comma [of ts] show ?thesis by simp
qed

lemma pretty_array_length: "length vs \<le> length (pretty d (JArr vs))"
proof -
  have "length (map (\<lambda>v. newline_indent (Suc d) @ pretty (Suc d) v) vs)
      \<le> length (join_comma (map (\<lambda>v. newline_indent (Suc d) @ pretty (Suc d) v) vs))"
    by (rule count_join) (auto simp: newline_indent_def)
  then show ?thesis by simp
qed

lemma pretty_entry_length:
  assumes "(k, v) \<in> set es" "\<not> omitted v"
  shows "length (pretty (Suc d) v) \<le> length (pretty d (JObj es))"
proof -
  let ?ts = "map (\<lambda>e. newline_indent (Suc d) @ json_quote (fst e) @ CHR '':'' # CHR 0x20
                          # pretty (Suc d) (snd e)) (filter (\<lambda>e. \<not> omitted (snd e)) es)"
  have m: "newline_indent (Suc d) @ json_quote k @ CHR '':'' # CHR 0x20 # pretty (Suc d) v \<in> set ?ts"
    using assms by force
  from member_length_join [OF this] have "length (pretty (Suc d) v) \<le> length (join_comma ?ts)" by simp
  moreover have "?ts \<noteq> []" using m by (metis empty_iff list.set(1))
  ultimately show ?thesis by (simp add: Let_def)
qed

lemma utf8_length_ge: "length s \<le> utf8_length s"
  by (induction s) (auto simp: utf8_length_def)

lemma written_log_bound:
  assumes "writeManifestAtomically m = Inr d"
  shows "length (mf_events m) < max_log"
proof -
  have "length (mf_events m) \<le> length (pretty 1 (JArr (map event_json (mf_events m))))"
    using pretty_array_length [of "map event_json (mf_events m)" 1] by simp
  also have "\<dots> \<le> length (pretty 0 (manifest_json m))"
    unfolding manifest_json_def One_nat_def
    by (rule pretty_entry_length [where k = "''statusEvents''"]) (simp_all add: manifest_body_def)
  also have "\<dots> \<le> utf8_length (pretty 0 (manifest_json m))" by (rule utf8_length_ge)
  also have "\<dots> \<le> max_repository_bytes"
    using assms by (simp add: writeManifestAtomically_def rbind_eq_Inr)
  also have "\<dots> < max_log" by (simp add: max_repository_bytes_def max_log_def)
  finally show ?thesis .
qed

section \<open>A sealed manifest reads back\<close>

definition in_normal_form :: "platform \<Rightarrow> envelope \<Rightarrow> bool" where
  "in_normal_form pf a \<longleftrightarrow> normalizeEnvelope pf a = Inr a"

lemma sealed_validates:
  assumes P: "platform_ok pf" and s: "sealManifest pf b = Inr m"
    and nf: "\<forall>a \<in> set (mf_artifacts b). in_normal_form pf a"
    and l: "log_ok pf (mf_artifacts b) g (mf_updated b) l" "mf_events b = lg_events l"
      "length (mf_events b) < max_log"
    and scalars: "repo_id_ok (mf_id b)" "revision_ok (mf_revision b)" "mf_created b \<le> mf_updated b"
    and g: "validateCompleteArtifactGraph pf (mf_artifacts b) = Inr g"
      "assertAppendOnlyRevisionSequence [] (mf_artifacts b) = Inr ()"
      "validateEmbeddedInvalidationRefs (mf_artifacts b) g = Inr ()"
    and up: "\<forall>a \<in> set (mf_artifacts b). art_updated a \<le> mf_updated b"
  shows "validateResearchArtifactRepositoryManifest pf m = Inr m"
proof -
  from seal_InrD [OF s] obtain h where m: "m = b\<lparr>mf_hash := h\<rparr>"
    and h: "hashResearchArtifactContent pf (JObj (manifest_body b)) = Inr h" by auto
  have body: "manifest_body m = manifest_body b" by (simp add: m manifest_body_def)
  from hash_InrD [OF h] obtain t where "js_ok (JObj (manifest_body b))" "h = ''sha256:'' @ pf_sha256 pf t"
    by blast
  then have js: "js_ok (manifest_json m)" by (simp add: manifest_json_def body)
  from \<open>h = _\<close> P have hok: "hash_ok h" by (simp only: platform_hash_ok)
  have arts: "traverse (normalizeEnvelope pf) (mf_artifacts b) = Inr (mf_artifacts b)"
    using traverse_all_Inr [of "mf_artifacts b" "normalizeEnvelope pf" id] nf
    by (simp add: in_normal_form_def)
  have evs: "normalize_events pf 1 (mf_events b) = Inr (mf_events b)"
    using l by (simp add: log_ok_def)
  from l obtain st where rep: "replayStatusEvents (mf_artifacts b) (mf_events b) g = Inr st"
    by (auto simp: log_ok_def replayStatusEvents_eq)
  have ev: "\<forall>e \<in> set (mf_events b). ev_changed e \<le> mf_updated b"
    using l by (auto simp: log_ok_def)
  have same: "m\<lparr>mf_artifacts := mf_artifacts m, mf_events := mf_events m\<rparr> = m" by simp
  show ?thesis
    unfolding validateResearchArtifactRepositoryManifest_def
    using arts evs scalars hok h g rep up ev assertCanonicalShape_same [OF js]
    by (simp add: m body [unfolded m] lift_type_def)
qed

section \<open>Guarantees of an append\<close>

lemma view_closed:
  assumes "log_ok pf as g now l" "staleness_closed as l" "S = map (view (lg_states l)) as"
    and "x \<in> set S" "y \<in> set S" "art_status x \<noteq> Active"
    and "(envelope_key x, envelope_key y) \<in> (causal S)\<^sup>+"
  shows "art_status y \<noteq> Active"
proof -
  from assms(3,4,5) obtain a b where ab: "a \<in> set as" "b \<in> set as"
    "x = view (lg_states l) a" "y = view (lg_states l) b" by auto
  with assms(1,6) have "\<not> active_in l (envelope_key a)" by (simp add: view_active)
  moreover have "(envelope_key a, envelope_key b) \<in> (causal as)\<^sup>+" using assms(3,7) ab by simp
  ultimately have "\<not> active_in l (envelope_key b)"
    using assms(2) ab unfolding staleness_closed_def by blast
  with assms(1) ab show ?thesis by (simp add: view_active)
qed

text \<open>
  C1: after a persisted append, no artifact of the repository that is still active depends,
  through any chain of causal parents, on one that is not active.
\<close>

theorem append_staleness_closed:
  assumes "platform_ok pf" "uuid_ok (ai_uuid input)"
    and "appendProjectResearchArtifacts pf input d = Inr (d', r)" "ar_persisted r"
    and "a \<in> set (sn_artifacts (ar_snapshot r))" "b \<in> set (sn_artifacts (ar_snapshot r))"
    and "art_status a \<noteq> Active"
    and "(envelope_key a, envelope_key b) \<in> (causal (sn_artifacts (ar_snapshot r)))\<^sup>+"
  shows "art_status b \<noteq> Active"
  using assms(1-4)
proof (rule append_commit)
  fix existing base new c g
  assume "log_ok pf (mf_artifacts base @ new) g (ai_now input) (cm_log c)"
    "staleness_closed (mf_artifacts base @ new) (cm_log c)"
    "sn_artifacts (ar_snapshot r) = map (view (lg_states (cm_log c))) (mf_artifacts base @ new)"
  then show ?thesis using assms(5-8) by (rule view_closed)
qed

text \<open>
  C5: a persisted append to an existing repository keeps its identity and creation time,
  raises the revision by exactly one, and keeps every artifact and every status event it
  had, in place; only the ends of the two lists grow.
\<close>

theorem append_extends_repository:
  assumes "platform_ok pf" "uuid_ok (ai_uuid input)"
    and "appendProjectResearchArtifacts pf input d = Inr (d', r)" "ar_persisted r"
    and "readManifest pf d = Inr (Some m)"
  shows "\<exists>m'. d' = Some m' \<and> mf_id m' = mf_id m \<and> mf_created m' = mf_created m
     \<and> mf_revision m' = mf_revision m + 1 \<and> mf_updated m \<le> mf_updated m'
     \<and> strict_prefix (mf_artifacts m) (mf_artifacts m') \<and> prefix (mf_events m) (mf_events m')"
  using assms(1-4)
proof (rule append_commit)
  fix existing base new c g m'
  assume ex: "readManifest pf d = Inr existing" and b: "base_manifest pf input existing = Inr base"
    and n: "mf_updated base \<le> ai_now input" "new \<noteq> []" "d' = Some m'"
    and s: "sealManifest pf (next_manifest input existing base new c) = Inr m'"
    and e: "\<exists>es. lg_events (cm_log c) = mf_events base @ es"
  from ex assms(5) b have "existing = Some m" "base = m" by (auto simp: base_manifest_def)
  with n e seal_InrD [OF s] show ?thesis
    by (auto simp: next_manifest_def strict_prefix_def)
qed

text \<open>
  an append leaves no revision active next to its successor: when a revision of an
  artifact is appended, the revision before it is no longer active.
\<close>

lemma append_supersedes_previous:
  assumes "platform_ok pf" "uuid_ok (ai_uuid input)"
    and "appendProjectResearchArtifacts pf input d = Inr (d', r)" "ar_persisted r"
    and "toResearchArtifactRef c \<in> set (ar_appended r)" "c \<in> set (sn_artifacts (ar_snapshot r))"
    and "p \<in> set (sn_artifacts (ar_snapshot r))" "art_id p = art_id c"
    and "art_revision c = art_revision p + 1"
  shows "art_status p \<noteq> Active"
  using assms(1-4)
proof (rule append_commit)
  fix existing base new c' g
  let ?as = "mf_artifacts base @ new"
  assume seq: "assertAppendOnlyRevisionSequence (mf_artifacts base) new = Inr ()"
    and ap: "ar_appended r = sort_by (compareRefs pf) (map toResearchArtifactRef new)"
    and l: "log_ok pf ?as g (ai_now input) (cm_log c')"
    and pr: "\<forall>p. preceded ?as (map envelope_key new) p \<longrightarrow> \<not> active_in (cm_log c') (envelope_key p)"
    and sn: "sn_artifacts (ar_snapshot r) = map (view (lg_states (cm_log c'))) ?as"
  from assms(6,7) sn obtain q n where qn: "q \<in> set ?as" "n \<in> set ?as"
    "p = view (lg_states (cm_log c')) q" "c = view (lg_states (cm_log c')) n" by auto
  have "researchArtifactKey (toResearchArtifactRef c) \<in> envelope_key ` set new"
  proof -
    from assms(5) ap obtain n' where "n' \<in> set new" "toResearchArtifactRef c = toResearchArtifactRef n'"
      by auto
    then show ?thesis by simp
  qed
  then have nk: "envelope_key n \<in> set (map envelope_key new)" using qn by simp
  obtain e where e: "e \<in> set (groupArtifactsById ?as)" "fst e = art_id q"
    using group_ids [of ?as] qn(1) by (metis image_iff)
  have "art_id n = art_id q" using qn assms(8) by simp
  then have "q \<in> set (snd e)" "n \<in> set (snd e)"
    using group_entry [OF e(1)] e(2) qn(1,2) by auto
  then obtain i j where ij: "i < length (snd e)" "snd e ! i = q" "j < length (snd e)" "snd e ! j = n"
    by (auto simp: in_set_conv_nth)
  from sequence_history [OF seq e(1) ij(1)] sequence_history [OF seq e(1) ij(3)] assms(9) ij qn
  have "j = Suc i" by simp
  with ij have "(q, n) \<in> set (adjacent (snd e))" by (auto simp: adjacent_nth)
  with e(1) qn nk have "preceded ?as (map envelope_key new) q" unfolding preceded_def by auto
  with pr have "\<not> active_in (cm_log c') (envelope_key q)" by blast
  with view_active [OF l qn(1)] qn(3) show ?thesis by simp
qed

end
