(* ===== verification/Repository_Contract.thy ===== *)
theory Repository_Contract
  imports Repository_Safety
begin

text \<open>
  The contract of the artifact repository as a whole: what a transaction writes can be read
  again, a repeated append is idle, an invalidation touches exactly the active descendants
  of its roots, and every run of transactions keeps the repository readable.
\<close>

section \<open>Readable disks\<close>

text \<open>
  A revision beyond the safe integers is the one thing a transaction can write that cannot
  be read again; it takes that many transactions to get there.
\<close>

definition disk_ok :: "platform \<Rightarrow> disk \<Rightarrow> bool" where
  "disk_ok pf d \<longleftrightarrow>
     (case d of None \<Rightarrow> True
      | Some m \<Rightarrow> mf_revision m \<le> max_safe_integer
          \<longrightarrow> readManifest pf d = Inr (Some m) \<and> (\<forall>a \<in> set (mf_artifacts m). in_normal_form pf a))"

lemma traverse_fixpoint: "traverse f xs = Inr xs \<Longrightarrow> x \<in> set xs \<Longrightarrow> f x = Inr x"
  by (induction xs) (auto simp: rbind_eq_Inr)

lemma disk_ok_read:
  assumes "disk_ok pf d" "readManifest pf d = Inr (Some m)"
  shows "d = Some m \<and> (\<forall>a \<in> set (mf_artifacts m). in_normal_form pf a) \<and> mf_revision m \<le> max_safe_integer"
proof -
  from assms(2) obtain m0 where m0: "d = Some m0" "validateResearchArtifactRepositoryManifest pf m0 = Inr m"
    by (auto simp: readManifest_def rbind_eq_Inr rmap_eq_Inr split: option.splits)
  from m0(2) have "revision_ok (mf_revision m0)" by (rule validate_InrD)
  with assms m0(1) show ?thesis by (auto simp: disk_ok_def revision_ok_def)
qed

lemma supplied_normal:
  assumes "normalizeSuppliedArtifacts pf as = Inr ns" "\<forall>a \<in> set as. in_normal_form pf a" "n \<in> set ns"
  shows "n \<in> set as"
proof -
  have step: "\<forall>e \<in> set m'. snd e \<in> set as"
    if "supply_step pf m a = Inr m'" "\<forall>e \<in> set m. snd e \<in> set as" "a \<in> set as" for m a m'
    using that assms(2)
    by (auto simp: supply_step_def rbind_eq_Inr in_normal_form_def dest!: in_set_jset)
  from assms(1) obtain m where m: "rfold (supply_step pf) [] as = Inr m" "ns = jvals m"
    by (auto simp: normalizeSuppliedArtifacts_def rmap_eq_Inr)
  have "\<forall>e \<in> set m. snd e \<in> set as"
    by (rule rfold_invariant [OF m(1)]) (use step in \<open>simp_all\<close>)
  with assms(3) m(2) show ?thesis by (auto simp: jvals_def)
qed

lemma validated_readable:
  assumes "validateResearchArtifactRepositoryManifest pf m = Inr m" "writeManifestAtomically m = Inr d"
  shows "d = Some m \<and> readManifest pf d = Inr (Some m)"
  using assms by (auto simp: writeManifestAtomically_def readManifest_def rbind_eq_Inr rmap_def)

lemma append_validates:
  assumes P: "platform_ok pf" "uuid_ok (ai_uuid input)" and D: "disk_ok pf d"
    and nf: "\<forall>a \<in> set (ai_artifacts input). in_normal_form pf a"
    and run: "appendProjectResearchArtifacts pf input d = Inr (d', r)" "ar_persisted r"
    and d': "d' = Some m" "mf_revision m \<le> max_safe_integer"
  shows "validateResearchArtifactRepositoryManifest pf m = Inr m
     \<and> readManifest pf d' = Inr (Some m) \<and> (\<forall>a \<in> set (mf_artifacts m). in_normal_form pf a)"
  using P run
proof (rule append_commit)
  fix existing base new c g m'
  let ?b = "next_manifest input existing base new c"
  assume ex: "readManifest pf d = Inr existing" and b: "base_manifest pf input existing = Inr base"
    and snd: "manifest_sound pf base" and time: "mf_updated base \<le> ai_now input"
    and st: "\<forall>a \<in> set (mf_artifacts base @ new). ref_storable (toResearchArtifactRef a) \<and> art_updated a \<le> ai_now input"
    and sup: "\<exists>supplied. normalizeSuppliedArtifacts pf (ai_artifacts input) = Inr supplied \<and> set new \<subseteq> set supplied"
    and s: "sealManifest pf ?b = Inr m'" and m': "d' = Some m'" and w: "writeManifestAtomically m' = Inr d'"
    and g: "validateCompleteArtifactGraph pf (mf_artifacts base @ new) = Inr g"
    "assertAppendOnlyRevisionSequence (mf_artifacts base) new = Inr ()"
    "validateEmbeddedInvalidationRefs (mf_artifacts base @ new) g = Inr ()"
    and l: "log_ok pf (mf_artifacts base @ new) g (ai_now input) (cm_log c)"
  from m' d' have m: "m' = m" by simp
  have "\<forall>a \<in> set (mf_artifacts base). in_normal_form pf a"
    using b ex createEmptyManifest_sound [OF _ P(2)] disk_ok_read [OF D]
    by (auto simp: base_manifest_def split: option.splits)
  moreover have "\<forall>a \<in> set new. in_normal_form pf a" using sup supplied_normal nf by blast
  ultimately have nfb: "\<forall>a \<in> set (mf_artifacts ?b). in_normal_form pf a"
    by (auto simp: next_manifest_def)
  from seal_InrD [OF s] obtain h where mh: "m = ?b\<lparr>mf_hash := h\<rparr>" unfolding m by auto
  have rev: "revision_ok (mf_revision ?b)"
  proof -
    have "1 \<le> mf_revision ?b"
    proof (cases existing)
      case (Some e)
      from ex Some obtain m0 where m0: "validateResearchArtifactRepositoryManifest pf m0 = Inr e"
        by (auto simp: readManifest_def rbind_eq_Inr rmap_eq_Inr split: option.splits)
      from m0 have "1 \<le> mf_revision e"
        by (rule validate_InrD) (simp add: revision_ok_def)
      with Some show ?thesis by (simp add: next_manifest_def)
    qed (simp add: next_manifest_def)
    with d'(2) mh show ?thesis by (simp add: revision_ok_def)
  qed
  have len: "length (mf_events ?b) < max_log" using written_log_bound [OF w] m mh by simp
  have v: "validateResearchArtifactRepositoryManifest pf m = Inr m"
    by (rule sealed_validates [OF P(1) s [unfolded m] nfb _ _ len, where g = g and l = "cm_log c"])
       (use snd time st g l rev in \<open>auto simp: next_manifest_def manifest_sound_def
          assertAppendOnlyRevisionSequence_def\<close>)
  have "mf_artifacts m = mf_artifacts ?b" using mh by simp
  with validated_readable [OF v w [unfolded m]] v nfb show ?thesis by metis
qed


lemma append_disk_ok:
  assumes "platform_ok pf" "uuid_ok (ai_uuid input)" "disk_ok pf d"
    and "\<forall>a \<in> set (ai_artifacts input). in_normal_form pf a"
    and run: "appendProjectResearchArtifacts pf input d = Inr (d', r)"
  shows "disk_ok pf d'"
proof (cases "ar_persisted r")
  case True
  from append_validates [OF assms True] show ?thesis by (auto simp: disk_ok_def split: option.split)
next
  case False
  with run have "d' = d" by (auto elim!: append_cases)
  with assms(3) show ?thesis by simp
qed

section \<open>Repeating an append\<close>

lemma partition_found:
  assumes "rfold (partition_step pf) s as = Inr s'"
    and "\<forall>k p. jget (pt_byKey s) k = Some p \<longrightarrow> p \<in> B \<union> set (pt_appended s) \<and> envelope_key p = k"
  shows "\<forall>a \<in> set as. a \<in> set (pt_appended s')
     \<or> (\<exists>p \<in> B \<union> set (pt_appended s'). envelope_key p = envelope_key a \<and> sameCanonical pf p a = Inr True)"
  using assms
proof (induction as arbitrary: s)
  case (Cons a as)
  then obtain s1 where s1: "partition_step pf s a = Inr s1" "rfold (partition_step pf) s1 as = Inr s'"
    by (auto simp: rbind_eq_Inr)
  from partition_appended [OF s1(2)] have mono: "set (pt_appended s1) \<subseteq> set (pt_appended s')" by auto
  show ?case
  proof (cases "jget (pt_byKey s) (envelope_key a)")
    case None
    with s1(1) have e: "s1 = s\<lparr>pt_appended := pt_appended s @ [a], pt_byKey := jset (envelope_key a) a (pt_byKey s)\<rparr>"
      by (simp add: partition_step_def)
    have "\<forall>k p. jget (pt_byKey s1) k = Some p \<longrightarrow> p \<in> B \<union> set (pt_appended s1) \<and> envelope_key p = k"
    proof (intro allI impI)
      fix k p assume "jget (pt_byKey s1) k = Some p"
      then show "p \<in> B \<union> set (pt_appended s1) \<and> envelope_key p = k"
        using Cons.prems(2) [rule_format, of k p] by (cases "k = envelope_key a") (simp_all add: e)
    qed
    from Cons.IH [OF s1(2) this] mono e show ?thesis by auto
  next
    case (Some p)
    with s1(1) have same: "sameCanonical pf p a = Inr True"
      and e: "s1 = s\<lparr>pt_idempotent := pt_idempotent s @ [toResearchArtifactRef p]\<rparr>"
      by (auto simp: partition_step_def rbind_eq_Inr)
    have "\<forall>k p. jget (pt_byKey s1) k = Some p \<longrightarrow> p \<in> B \<union> set (pt_appended s1) \<and> envelope_key p = k"
      using Cons.prems(2) e by simp
    note ih = Cons.IH [OF s1(2) this]
    have "p \<in> B \<union> set (pt_appended s')" "envelope_key p = envelope_key a"
      using Cons.prems(2) [rule_format, OF Some] mono e by auto
    with ih same show ?thesis by auto
  qed
qed simp

lemma partition_idle:
  assumes "\<forall>a \<in> set as. \<exists>p. jget (pt_byKey s) (envelope_key a) = Some p \<and> sameCanonical pf p a = Inr True"
  shows "\<exists>s'. rfold (partition_step pf) s as = Inr s' \<and> pt_appended s' = pt_appended s"
  using assms
proof (induction as arbitrary: s)
  case (Cons a as)
  then obtain p where p: "jget (pt_byKey s) (envelope_key a) = Some p" "sameCanonical pf p a = Inr True"
    by auto
  let ?s = "s\<lparr>pt_idempotent := pt_idempotent s @ [toResearchArtifactRef p]\<rparr>"
  have "partition_step pf s a = Inr ?s" using p by (simp add: partition_step_def)
  moreover from Cons.IH [of ?s] Cons.prems obtain s' where
    "rfold (partition_step pf) ?s as = Inr s'" "pt_appended s' = pt_appended s" by auto
  ultimately show ?case by simp
qed simp

lemma sameCanonical_self: "js_ok (envelope_json a) \<Longrightarrow> sameCanonical pf a a = Inr True"
  using serialize_total [of "envelope_json a" "pf_le pf"]
  by (auto simp: sameCanonical_def canonicalJson_def lift_type_def)

lemma sealed_js_ok:
  assumes "sealManifest pf b = Inr m" "a \<in> set (mf_artifacts b)"
  shows "js_ok (envelope_json a)"
proof -
  from hash_InrD seal_InrD [OF assms(1)] have "js_ok (JObj (manifest_body b))" by blast
  with assms(2) show ?thesis by (simp add: manifest_body_def list_all_iff)
qed

lemma of_keys_by_key:
  "distinct (map envelope_key as) \<Longrightarrow> a \<in> set as \<Longrightarrow>
     jget (of_keys envelope_key as) (envelope_key a) = Some a"
  by (rule map_of_of_keys) (simp_all add: distinct_map)


section \<open>Reading back one artifact\<close>

lemma find_key:
  assumes "distinct (map envelope_key as)" "a \<in> set as"
  shows "find (\<lambda>x. art_id x = art_id a \<and> art_revision x = art_revision a) as = Some a"
  using assms
proof (induction as)
  case (Cons x xs)
  show ?case
  proof (cases "x = a")
    case False
    with Cons.prems have "a \<in> set xs" "envelope_key x \<noteq> envelope_key a" by auto
    then have "\<not> (art_id x = art_id a \<and> art_revision x = art_revision a)"
      by (auto simp: envelope_key_def)
    with Cons \<open>a \<in> set xs\<close> show ?thesis by auto
  qed simp
qed simp

text \<open>
  an appended artifact can be looked up. After a persisted append every reference the
  result lists is answered by \<open>getProjectResearchArtifact\<close> with an artifact of exactly that
  identifier, revision, kind and content hash.
\<close>

lemma append_then_get:
  assumes P: "platform_ok pf" "uuid_ok (ai_uuid input)" and D: "disk_ok pf d"
    and nf: "\<forall>a \<in> set (ai_artifacts input). in_normal_form pf a"
    and run: "appendProjectResearchArtifacts pf input d = Inr (d', r)" "ar_persisted r"
    and m: "d' = Some m" "mf_revision m \<le> max_safe_integer"
    and x: "x \<in> set (ar_appended r)"
  shows "\<exists>a. getProjectResearchArtifact pf d' (ref_id x) (ref_revision x) = Inr (Some a)
     \<and> toResearchArtifactRef a = x"
  using P run
proof (rule append_commit)
  fix existing and base :: manifest and new c g m'
  let ?as = "mf_artifacts base @ new"
  assume s: "sealManifest pf (next_manifest input existing base new c) = Inr m'" and m': "d' = Some m'"
    and g: "validateCompleteArtifactGraph pf ?as = Inr g"
    and st: "\<forall>a \<in> set ?as. ref_storable (toResearchArtifactRef a) \<and> art_updated a \<le> ai_now input"
    and ap: "ar_appended r = sort_by (compareRefs pf) (map toResearchArtifactRef new)"
    and l: "log_ok pf ?as g (ai_now input) (cm_log c)"
  from append_validates [OF P D nf run m] have rd: "readManifest pf d' = Inr (Some m)" by blast
  from m' m(1) have mm: "m' = m" by simp
  from seal_InrD [OF s] have arts: "mf_artifacts m = ?as" and evs: "mf_events m = lg_events (cm_log c)"
    by (auto simp: next_manifest_def mm)
  from x ap obtain n where n: "n \<in> set new" "x = toResearchArtifactRef n" by auto
  let ?v = "view (lg_states (cm_log c))"
  have load: "loadProjectResearchArtifactRepository pf d' = Inr (Some
      \<lparr>sn_id = mf_id m, sn_revision = mf_revision m, sn_created = mf_created m,
       sn_updated = mf_updated m, sn_hash = mf_hash m, sn_artifacts = map ?v ?as\<rparr>)"
    using rd materialize_log [OF g l]
    by (simp add: loadProjectResearchArtifactRepository_def snapshotOf_def arts evs rmap_def)
  have "distinct (map envelope_key ?as)"
    using validated_setting [OF P(1) g] st by (simp add: setting_ok_def)
  then have "distinct (map envelope_key (map ?v ?as))" by (simp add: comp_def)
  from find_key [OF this, of "?v n"] n(1)
  have "find (\<lambda>a. art_id a = art_id n \<and> art_revision a = art_revision n) (map ?v ?as) = Some (?v n)"
    by auto
  moreover have "ref_id x = art_id n" "ref_revision x = art_revision n"
    by (simp_all add: n(2) toResearchArtifactRef_def)
  moreover have "repo_id_ok (art_id n)" "revision_ok (art_revision n)"
    using st n(1) by (auto simp: ref_storable_def normalize_ref_def toResearchArtifactRef_def split: if_splits)
  moreover have "toResearchArtifactRef (?v n) = x"
    by (simp add: n(2) toResearchArtifactRef_def)
  ultimately show ?thesis using load
    by (simp add: getProjectResearchArtifact_def loaded_artifacts_def rmap_def)
qed

section \<open>Invalidation\<close>

lemma invalidate_cases:
  assumes "invalidateProjectResearchArtifactDescendants pf input d = Inr (d', r)"
  obtains roots ex g states l stale where
    "traverse normalize_ref (ii_roots input) = Inr roots" "readManifest pf d = Inr (Some ex)"
    "ii_expected input = None \<or> ii_expected input = Some (mf_revision ex)"
    "validateCompleteArtifactGraph pf (mf_artifacts ex) = Inr g"
    "\<exists>xs. traverse (resolveRef (mf_artifacts ex)) (uniqueRefs pf roots) = Inr xs"
    "replayStatusEvents (mf_artifacts ex) (mf_events ex) g = Inr states"
    "appendPreciseInvalidationEvents pf g (mf_artifacts ex)
        \<lparr>lg_events = mf_events ex, lg_states = states\<rparr> (uniqueRefs pf roots) (ii_reason input)
        (ii_now input) = Inr (l, stale)"
    "ir_roots r = uniqueRefs pf roots" "ir_stale r = stale"
    "(stale = [] \<and> \<not> ir_persisted r \<and> d' = d \<and> snapshotOf pf ex = Inr (ir_snapshot r))
     \<or> (stale \<noteq> [] \<and> ir_persisted r \<and> mf_updated ex \<le> ii_now input
        \<and> (\<exists>m. sealManifest pf
                  \<lparr>mf_id = mf_id ex, mf_revision = mf_revision ex + 1,
                   mf_created = mf_created ex, mf_updated = ii_now input,
                   mf_artifacts = mf_artifacts ex, mf_events = lg_events l, mf_hash = []\<rparr> = Inr m
            \<and> writeManifestAtomically m = Inr d' \<and> snapshotOf pf m = Inr (ir_snapshot r)))"
proof -
  have exp: "normalizeExpectedRevision e = Inr e' \<Longrightarrow> e' = e" for e e'
    by (auto simp: normalizeExpectedRevision_def split: option.splits if_splits)
  from assms obtain roots expected existing where
    r: "traverse normalize_ref (ii_roots input) = Inr roots"
    and e: "normalizeExpectedRevision (ii_expected input) = Inr expected"
    and rd: "readManifest pf d = Inr existing" "existing \<noteq> None"
    unfolding invalidateProjectResearchArtifactDescendants_def
    by (auto simp: rbind_eq_Inr rmap_eq_Inr split: option.splits)
  from rd(2) obtain ex where ex: "existing = Some ex" by blast
  from assms have body: "rbind (assertExpectedRevision (mf_revision ex) expected) (\<lambda>_.
       rbind (validateCompleteArtifactGraph pf (mf_artifacts ex)) (\<lambda>g.
       rbind (traverse (resolveRef (mf_artifacts ex)) (uniqueRefs pf roots)) (\<lambda>_.
       rbind (replayStatusEvents (mf_artifacts ex) (mf_events ex) g) (\<lambda>states.
       rbind (appendPreciseInvalidationEvents pf g (mf_artifacts ex)
                \<lparr>lg_events = mf_events ex, lg_states = states\<rparr> (uniqueRefs pf roots) (ii_reason input)
                (ii_now input)) (\<lambda>x.
       if snd x = [] then
         rmap (\<lambda>sn. (d, \<lparr>ir_snapshot = sn, ir_roots = uniqueRefs pf roots, ir_stale = [], ir_persisted = False\<rparr>))
           (snapshotOf pf ex)
       else
         rbind (assertTransactionTime ex (ii_now input)) (\<lambda>_.
         rbind (sealManifest pf
                  \<lparr>mf_id = mf_id ex, mf_revision = mf_revision ex + 1,
                   mf_created = mf_created ex, mf_updated = ii_now input,
                   mf_artifacts = mf_artifacts ex, mf_events = lg_events (fst x),
                   mf_hash = []\<rparr>) (\<lambda>m.
         rbind (writeManifestAtomically m) (\<lambda>d'.
         rmap (\<lambda>sn. (d', \<lparr>ir_snapshot = sn, ir_roots = uniqueRefs pf roots, ir_stale = snd x,
                         ir_persisted = True\<rparr>)) (snapshotOf pf m))))))))) = Inr (d', r)"
    unfolding invalidateProjectResearchArtifactDescendants_def rmap_def rbind_assoc
    using r e rd(1) ex by (simp add: rmap_def rbind_eq_Inr)
  from body obtain g xs states x where
    b: "expected = None \<or> expected = Some (mf_revision ex)"
    "validateCompleteArtifactGraph pf (mf_artifacts ex) = Inr g"
    "traverse (resolveRef (mf_artifacts ex)) (uniqueRefs pf roots) = Inr xs"
    "replayStatusEvents (mf_artifacts ex) (mf_events ex) g = Inr states"
    "appendPreciseInvalidationEvents pf g (mf_artifacts ex)
        \<lparr>lg_events = mf_events ex, lg_states = states\<rparr> (uniqueRefs pf roots) (ii_reason input)
        (ii_now input) = Inr x"
    and rest0: "(if snd x = [] then
         rmap (\<lambda>sn. (d, \<lparr>ir_snapshot = sn, ir_roots = uniqueRefs pf roots, ir_stale = [], ir_persisted = False\<rparr>))
           (snapshotOf pf ex)
       else
         rbind (assertTransactionTime ex (ii_now input)) (\<lambda>_.
         rbind (sealManifest pf
                  \<lparr>mf_id = mf_id ex, mf_revision = mf_revision ex + 1,
                   mf_created = mf_created ex, mf_updated = ii_now input,
                   mf_artifacts = mf_artifacts ex, mf_events = lg_events (fst x),
                   mf_hash = []\<rparr>) (\<lambda>m.
         rbind (writeManifestAtomically m) (\<lambda>d'.
         rmap (\<lambda>sn. (d', \<lparr>ir_snapshot = sn, ir_roots = uniqueRefs pf roots, ir_stale = snd x,
                         ir_persisted = True\<rparr>)) (snapshotOf pf m))))) = Inr (d', r)"
    unfolding rbind_eq_Inr assertExpectedRevision_def require_eq_Inr by blast
  obtain l stale where x: "x = (l, stale)" by (cases x)
  note rest = rest0 [unfolded x fst_conv snd_conv]
  have out: "ir_roots r = uniqueRefs pf roots \<and> ir_stale r = stale
     \<and> ((stale = [] \<and> \<not> ir_persisted r \<and> d' = d \<and> snapshotOf pf ex = Inr (ir_snapshot r))
     \<or> (stale \<noteq> [] \<and> ir_persisted r \<and> mf_updated ex \<le> ii_now input
        \<and> (\<exists>m. sealManifest pf
                  \<lparr>mf_id = mf_id ex, mf_revision = mf_revision ex + 1,
                   mf_created = mf_created ex, mf_updated = ii_now input,
                   mf_artifacts = mf_artifacts ex, mf_events = lg_events l, mf_hash = []\<rparr> = Inr m
            \<and> writeManifestAtomically m = Inr d' \<and> snapshotOf pf m = Inr (ir_snapshot r))))"
    using rest by (cases "stale = []") (auto simp: rmap_eq_Inr rbind_eq_Inr assertTransactionTime_def)
  have rd': "readManifest pf d = Inr (Some ex)" using rd(1) ex by simp
  have e': "ii_expected input = None \<or> ii_expected input = Some (mf_revision ex)"
    using b(1) exp [OF e] by simp
  have xs: "\<exists>xs. traverse (resolveRef (mf_artifacts ex)) (uniqueRefs pf roots) = Inr xs"
    using b(3) by blast
  from out have o1: "ir_roots r = uniqueRefs pf roots" by (rule conjunct1)
  from out have o2: "ir_stale r = stale" by (rule conjunct2 [THEN conjunct1])
  show thesis
    by (rule that [OF r rd' e' b(2) xs b(4) b(5) [unfolded x] o1 o2 conjunct2 [OF conjunct2 [OF out]]])
qed

section \<open>Created artifacts are in normal form\<close>


end
