(* ===== verification/Repository_Runs.thy ===== *)
theory Repository_Runs
  imports Repository_Contract
begin

text \<open>
  The invalidation transaction of \<open>src/research/artifacts/repository.ts\<close> and runs of
  transactions: the exact effect of a persisted invalidation, and the machine contract that
  every sequence of appends and invalidations leaves a readable repository.
\<close>

section \<open>A persisted invalidation\<close>

lemma unique_root_determined:
  "x \<in> set (uniqueRefs pf rs) \<Longrightarrow> y \<in> set (uniqueRefs pf rs) \<Longrightarrow> fullRefKey x = fullRefKey y \<Longrightarrow> x = y"
  using distinct_uniqueRefs [of pf rs] by (auto simp: distinct_map dest: inj_onD)

lemma set_traced_refs:
  assumes T: "traced C ex (set (uniqueRefs pf rs)) m" and k: "jget m k = Some rm"
  shows "set (traced_refs pf m k) = {x \<in> set (uniqueRefs pf rs). (researchArtifactKey x, k) \<in> C\<^sup>+}"
proof -
  let ?B = "{x \<in> set (uniqueRefs pf rs). (researchArtifactKey x, k) \<in> C\<^sup>+}"
  from traced_Some [OF T k] have rm: "fst ` set rm = fullRefKey ` ?B"
    "\<And>e. e \<in> set rm \<Longrightarrow> fst e = fullRefKey (snd e) \<and> snd e \<in> ?B" by blast+
  have vals: "jvals (opt_map (jget m k)) = map snd rm" by (simp add: k opt_map_def jvals_def)
  have sub: "set (traced_refs pf m k) \<subseteq> ?B"
    using set_uniqueRefs_subset [of pf "map snd rm"] rm(2) by (auto simp: traced_refs_def vals)
  have "fullRefKey ` set (traced_refs pf m k) = fullRefKey ` snd ` set rm"
    by (simp add: traced_refs_def vals uniqueRefs_keys)
  also have "\<dots> = fst ` set rm" using rm(2) by (force simp: image_iff)
  finally have keys: "fullRefKey ` set (traced_refs pf m k) = fullRefKey ` ?B" using rm(1) by simp
  have "x \<in> set (traced_refs pf m k)" if x: "x \<in> ?B" for x
  proof -
    from x keys obtain y where y: "y \<in> set (traced_refs pf m k)" "fullRefKey x = fullRefKey y" by blast
    with x sub have "x = y" by (auto intro: unique_root_determined)
    with y show ?thesis by simp
  qed
  with sub show ?thesis by blast
qed

lemma resolved_roots:
  assumes "traverse (resolveRef as) rs = Inr xs" "traverse normalize_ref rs0 = Inr rs0'"
    and "set rs \<subseteq> set rs0'" "\<forall>a \<in> set as. ref_storable (toResearchArtifactRef a)"
  shows "set rs \<subseteq> toResearchArtifactRef ` set as"
proof
  fix x assume x: "x \<in> set rs"
  with assms(1) obtain a where "resolveRef as x = Inr a" by (auto dest: traverse_InrD)
  from resolveRef_InrD [OF this] have a: "a \<in> set as" "envelope_key a = researchArtifactKey x"
    "Stored (art_kind a) = ref_kind x" "art_hash a = ref_hash x" by auto
  have "ref_storable x" using traverse_normalize_ref [OF assms(2)] assms(3) x by auto
  then have rx: "id_pattern (ref_id x)" "revision_ok (ref_revision x)"
    by (auto simp: ref_storable_def normalize_ref_def repo_id_ok_def split: if_splits)
  have ra: "id_pattern (art_id a)" "revision_ok (art_revision a)"
    using assms(4) a(1)
    by (auto simp: ref_storable_def normalize_ref_def repo_id_ok_def toResearchArtifactRef_def split: if_splits)
  from a(2) have "art_id a @ CHR ''@'' # show_int (art_revision a) = ref_id x @ CHR ''@'' # show_int (ref_revision x)"
    by (simp add: envelope_key_def researchArtifactKey_def artifact_key_def)
  from sep_split [OF id_pattern_no_at [OF ra(1)] id_pattern_no_at [OF rx(1)] this]
  have "art_id a = ref_id x" "art_revision a = ref_revision x"
    using ra(2) rx(2) by (auto simp: show_int_inj_pos revision_ok_def)
  with a have "x = toResearchArtifactRef a" by (simp add: toResearchArtifactRef_def)
  with a(1) show "x \<in> toResearchArtifactRef ` set as" by blast
qed

lemma invalidate_commit:
  assumes P: "platform_ok pf" and run: "invalidateProjectResearchArtifactDescendants pf input d = Inr (d', r)"
    "ir_persisted r"
  obtains ex g states l m roots where "readManifest pf d = Inr (Some ex)" "manifest_sound pf ex"
    "mf_updated ex \<le> ii_now input" "validateCompleteArtifactGraph pf (mf_artifacts ex) = Inr g"
    "setting_ok pf (mf_artifacts ex) g" "ir_roots r = uniqueRefs pf roots"
    "log_ok pf (mf_artifacts ex) g (ii_now input) \<lparr>lg_events = mf_events ex, lg_states = states\<rparr>"
    "log_ok pf (mf_artifacts ex) g (ii_now input) l"
    "log_extends \<lparr>lg_events = mf_events ex, lg_states = states\<rparr> l"
    "\<forall>k. jget (lg_states l) k = (if k \<in> below_roots (mf_artifacts ex) (ir_roots r)
          \<and> active_in \<lparr>lg_events = mf_events ex, lg_states = states\<rparr> k
        then Some (stale_state pf (roots_by_descendant g (ir_roots r)) (ii_reason input) (ii_now input) k)
        else jget states k)"
    "sealManifest pf \<lparr>mf_id = mf_id ex, mf_revision = mf_revision ex + 1,
        mf_created = mf_created ex, mf_updated = ii_now input, mf_artifacts = mf_artifacts ex,
        mf_events = lg_events l, mf_hash = []\<rparr> = Inr m"
    "writeManifestAtomically m = Inr d'" "d' = Some m"
    "sn_artifacts (ir_snapshot r) = map (view (lg_states l)) (mf_artifacts ex)"
    "set (ir_stale r) = toResearchArtifactRef `
        {a \<in> set (mf_artifacts ex). envelope_key a \<in> below_roots (mf_artifacts ex) (ir_roots r)
           \<and> active_in \<lparr>lg_events = mf_events ex, lg_states = states\<rparr> (envelope_key a)}"
  using run(1)
proof (rule invalidate_cases)
  fix roots ex g states l stale
  assume r: "traverse normalize_ref (ii_roots input) = Inr roots" and rd: "readManifest pf d = Inr (Some ex)"
    and g: "validateCompleteArtifactGraph pf (mf_artifacts ex) = Inr g"
    and xs: "\<exists>xs. traverse (resolveRef (mf_artifacts ex)) (uniqueRefs pf roots) = Inr xs"
    and rep: "replayStatusEvents (mf_artifacts ex) (mf_events ex) g = Inr states"
    and pre: "appendPreciseInvalidationEvents pf g (mf_artifacts ex)
        \<lparr>lg_events = mf_events ex, lg_states = states\<rparr> (uniqueRefs pf roots) (ii_reason input)
        (ii_now input) = Inr (l, stale)"
    and out: "ir_roots r = uniqueRefs pf roots" "ir_stale r = stale"
    and alt: "(stale = [] \<and> \<not> ir_persisted r \<and> d' = d \<and> snapshotOf pf ex = Inr (ir_snapshot r))
     \<or> (stale \<noteq> [] \<and> ir_persisted r \<and> mf_updated ex \<le> ii_now input
        \<and> (\<exists>m. sealManifest pf
                  \<lparr>mf_id = mf_id ex, mf_revision = mf_revision ex + 1,
                   mf_created = mf_created ex, mf_updated = ii_now input,
                   mf_artifacts = mf_artifacts ex, mf_events = lg_events l, mf_hash = []\<rparr> = Inr m
            \<and> writeManifestAtomically m = Inr d' \<and> snapshotOf pf m = Inr (ir_snapshot r)))"
  let ?as = "mf_artifacts ex" and ?l0 = "\<lparr>lg_events = mf_events ex, lg_states = states\<rparr>"
  let ?R = "uniqueRefs pf roots"
  from alt run(2) obtain m where time: "mf_updated ex \<le> ii_now input"
    and m: "sealManifest pf \<lparr>mf_id = mf_id ex, mf_revision = mf_revision ex + 1,
        mf_created = mf_created ex, mf_updated = ii_now input, mf_artifacts = mf_artifacts ex,
        mf_events = lg_events l, mf_hash = []\<rparr> = Inr m"
    and w: "writeManifestAtomically m = Inr d'" and sn: "snapshotOf pf m = Inr (ir_snapshot r)" by blast
  have snd: "manifest_sound pf ex" by (rule readManifest_sound [OF P rd])
  have st: "\<forall>a \<in> set ?as. ref_storable (toResearchArtifactRef a)" using snd by (simp add: manifest_sound_def)
  have S: "setting_ok pf ?as g" by (rule validated_setting [OF P g st])
  have l0: "log_ok pf ?as g (ii_now input) ?l0"
    by (rule start_log_ok [OF P rep]) (use snd time in \<open>auto simp: manifest_sound_def\<close>)
  have R: "set ?R \<subseteq> toResearchArtifactRef ` set ?as"
    using xs resolved_roots [OF _ r set_uniqueRefs_subset st] by blast
  from precise_invalidation [OF S l0 R, of "ii_reason input"] obtain l' new where
    p: "appendPreciseInvalidationEvents pf g ?as ?l0 ?R (ii_reason input) (ii_now input) = Inr (l', new)"
    and l': "log_ok pf ?as g (ii_now input) l'" "log_extends ?l0 l'"
      "set new = toResearchArtifactRef `
          {a \<in> set ?as. envelope_key a \<in> below_roots ?as ?R \<and> active_in ?l0 (envelope_key a)}"
    and fin: "\<forall>k. jget (lg_states l') k = (if k \<in> below_roots ?as ?R \<and> active_in ?l0 k
            then Some (stale_state pf (roots_by_descendant g ?R) (ii_reason input) (ii_now input) k)
            else jget (lg_states ?l0) k)" by blast
  from pre [unfolded p] have eq: "l' = l" "new = stale" by simp_all
  have "sn_artifacts (ir_snapshot r) = map (view (lg_states l)) ?as"
    using sn seal_InrD [OF m] materialize_log [OF g l'(1) [unfolded eq]]
    by (auto simp: snapshotOf_def rmap_eq_Inr)
  moreover have "d' = Some m" using w by (auto simp: writeManifestAtomically_def rbind_eq_Inr)
  moreover have "\<forall>k. jget (lg_states l) k = (if k \<in> below_roots ?as (ir_roots r) \<and> active_in ?l0 k
            then Some (stale_state pf (roots_by_descendant g (ir_roots r)) (ii_reason input) (ii_now input) k)
            else jget states k)" using fin unfolding eq out(1) by simp
  ultimately show thesis
    using that [OF rd snd time g S out(1) l0 l'(1,2) [unfolded eq] _ m w] l'(3) out eq by simp
qed

text \<open>The view of one artifact after an invalidation, relative to its view before it.\<close>

definition invalidated ::
  "envelope list \<Rightarrow> artifact_ref list \<Rightarrow> invalidation_reason \<Rightarrow> int \<Rightarrow> envelope \<Rightarrow> envelope \<Rightarrow> bool" where
  "invalidated as roots reason now a a' \<longleftrightarrow>
     (if art_status a = Active \<and> envelope_key a \<in> below_roots as roots
      then \<exists>rs. set rs = {x \<in> set roots. (researchArtifactKey x, envelope_key a) \<in> (causal as)\<^sup>+}
         \<and> a' = a\<lparr>art_status := Stale, art_updated := now,
                  art_invalidation := Some \<lparr>inval_at = now, inval_reason = reason, inval_roots = rs\<rparr>\<rparr>
      else a' = a)"

lemma below_roots_view [simp]: "below_roots (map (view s) as) roots = below_roots as roots"
  by (simp add: below_roots_def)

lemma invalidated_view:
  assumes S: "setting_ok pf as g" and l0: "log_ok pf as g now \<lparr>lg_events = es, lg_states = states\<rparr>"
    and fin: "\<forall>k. jget (lg_states l) k = (if k \<in> below_roots as (uniqueRefs pf rs)
          \<and> active_in \<lparr>lg_events = es, lg_states = states\<rparr> k
        then Some (stale_state pf (roots_by_descendant g (uniqueRefs pf rs)) reason now k)
        else jget states k)"
    and a: "a \<in> set as"
  shows "invalidated as (uniqueRefs pf rs) reason now (view states a) (view (lg_states l) a)"
proof (cases "envelope_key a \<in> below_roots as (uniqueRefs pf rs)
    \<and> active_in \<lparr>lg_events = es, lg_states = states\<rparr> (envelope_key a)")
  case False
  then have "jget (lg_states l) (envelope_key a) = jget states (envelope_key a)" using fin by presburger
  then have "view (lg_states l) a = view states a" by (simp add: view_def)
  moreover have "\<not> (art_status (view states a) = Active
      \<and> envelope_key (view states a) \<in> below_roots as (uniqueRefs pf rs))"
    using False view_active [OF l0 a] by auto
  ultimately show ?thesis unfolding invalidated_def by (simp only: if_False)
next
  case True
  let ?R = "uniqueRefs pf rs" and ?k = "envelope_key a"
  from True fin have new: "jget (lg_states l) ?k
      = Some (stale_state pf (roots_by_descendant g ?R) reason now ?k)" by presburger
  from S have "buildResearchArtifactGraph (pf_le pf) as = Inr g" by (simp add: setting_ok_def)
  from traced_roots [OF this, of ?R] obtain ex where
    ex: "set ex = researchArtifactKey ` set ?R" "traced (causal as) ex (set ?R) (roots_by_descendant g ?R)"
    by blast
  have "?k \<in> fst ` set (roots_by_descendant g ?R)" using traced_dom [OF ex(2,1)] True by simp
  then obtain rm where "jget (roots_by_descendant g ?R) ?k = Some rm" by (auto simp: in_keys_jget)
  from set_traced_refs [OF ex(2) this]
  have refs: "set (traced_refs pf (roots_by_descendant g ?R) ?k)
      = {x \<in> set ?R. (researchArtifactKey x, ?k) \<in> (causal as)\<^sup>+}" .
  obtain st where "jget states ?k = Some st" using log_ok_state [OF l0 a] by auto
  then have "view (lg_states l) a = (view states a)\<lparr>art_status := Stale, art_updated := now,
      art_invalidation := Some \<lparr>inval_at = now, inval_reason = reason,
        inval_roots = traced_refs pf (roots_by_descendant g ?R) ?k\<rparr>\<rparr>"
    by (simp add: view_def new stale_state_def written_state_def)
  with True refs view_active [OF l0 a] show ?thesis by (auto simp: invalidated_def)
qed

text \<open>
  C4: a persisted invalidation turns exactly the active artifacts strictly below its roots,
  the roots themselves excepted, into stale ones, stamped with the time, the reason and
  exactly those roots each of them depends on; every other artifact reads as before.
\<close>

theorem invalidate_exactly_descendants:
  assumes P: "platform_ok pf"
    and run: "invalidateProjectResearchArtifactDescendants pf input d = Inr (d', r)" "ir_persisted r"
    and before: "loadProjectResearchArtifactRepository pf d = Inr (Some sn)"
  shows "list_all2 (invalidated (sn_artifacts sn) (ir_roots r) (ii_reason input) (ii_now input))
           (sn_artifacts sn) (sn_artifacts (ir_snapshot r))"
  using P run
proof (rule invalidate_commit)
  fix ex :: manifest and g states l and m :: manifest and roots
  let ?as = "mf_artifacts ex"
  assume rd: "readManifest pf d = Inr (Some ex)" and g: "validateCompleteArtifactGraph pf ?as = Inr g"
    and S: "setting_ok pf ?as g" and R: "ir_roots r = uniqueRefs pf roots"
    and l0: "log_ok pf ?as g (ii_now input) \<lparr>lg_events = mf_events ex, lg_states = states\<rparr>"
    and fin: "\<forall>k. jget (lg_states l) k = (if k \<in> below_roots ?as (ir_roots r)
          \<and> active_in \<lparr>lg_events = mf_events ex, lg_states = states\<rparr> k
        then Some (stale_state pf (roots_by_descendant g (ir_roots r)) (ii_reason input) (ii_now input) k)
        else jget states k)"
    and after: "sn_artifacts (ir_snapshot r) = map (view (lg_states l)) ?as"
  have sn: "sn_artifacts sn = map (view states) ?as"
    using before rd materialize_log [OF g l0]
    by (auto simp: loadProjectResearchArtifactRepository_def rbind_eq_Inr rmap_eq_Inr snapshotOf_def)
  have same: "invalidated (map (view states) ?as) rs = invalidated ?as rs" for rs
    by (intro ext) (simp add: invalidated_def)
  show ?thesis unfolding sn after same list_all2_map1 list_all2_map2
    using invalidated_view [OF S l0 fin [unfolded R]] R by (simp add: list_all2_same)
qed

lemma invalidate_disk_ok:
  assumes P: "platform_ok pf" and D: "disk_ok pf d"
    and run: "invalidateProjectResearchArtifactDescendants pf input d = Inr (d', r)"
  shows "disk_ok pf d'"
proof (cases "ir_persisted r")
  case False
  with run have "d' = d" by (auto elim!: invalidate_cases)
  with D show ?thesis by simp
next
  case True
  from P run True show ?thesis
  proof (rule invalidate_commit)
    fix ex :: manifest and g states and l :: log_state and m :: manifest and roots
    let ?b = "\<lparr>mf_id = mf_id ex, mf_revision = mf_revision ex + 1, mf_created = mf_created ex,
        mf_updated = ii_now input, mf_artifacts = mf_artifacts ex, mf_events = lg_events l, mf_hash = []\<rparr>"
    assume rd: "readManifest pf d = Inr (Some ex)" and snd: "manifest_sound pf ex"
      and time: "mf_updated ex \<le> ii_now input"
      and g: "validateCompleteArtifactGraph pf (mf_artifacts ex) = Inr g"
      and l: "log_ok pf (mf_artifacts ex) g (ii_now input) l"
      and s: "sealManifest pf ?b = Inr m" and w: "writeManifestAtomically m = Inr d'" and m: "d' = Some m"
    from disk_ok_read [OF D rd] have nf: "\<forall>a \<in> set (mf_artifacts ?b). in_normal_form pf a" by simp
    from rd obtain m0 where v: "validateResearchArtifactRepositoryManifest pf m0 = Inr ex"
      by (auto simp: readManifest_def rbind_eq_Inr rmap_eq_Inr split: option.splits)
    from seal_InrD [OF s] obtain h where mh: "m = ?b\<lparr>mf_hash := h\<rparr>" by auto
    have len: "length (mf_events ?b) < max_log" using written_log_bound [OF w] mh by simp
    have valid: "validateResearchArtifactRepositoryManifest pf m = Inr m"
      if "mf_revision m \<le> max_safe_integer"
    proof -
      from v obtain g' where "1 \<le> mf_revision ex"
        "assertAppendOnlyRevisionSequence [] (mf_artifacts ex) = Inr ()"
        "validateCompleteArtifactGraph pf (mf_artifacts ex) = Inr g'"
        "validateEmbeddedInvalidationRefs (mf_artifacts ex) g' = Inr ()"
        by (rule validate_InrD) (simp add: revision_ok_def)
      with that mh snd time l g show ?thesis
        by (intro sealed_validates [OF P s nf _ _ len, where g = g and l = l])
           (auto simp: manifest_sound_def revision_ok_def)
    qed
    have "mf_artifacts m = mf_artifacts ?b" using mh by simp
    with valid validated_readable [OF _ w] nf m show ?thesis by (auto simp: disk_ok_def)
  qed
qed

section \<open>Runs of transactions\<close>

datatype command = Append_command append_input | Invalidate_command invalidate_input

fun repo_step :: "platform \<Rightarrow> command \<Rightarrow> disk \<Rightarrow> (repo_error, disk) result" where
  "repo_step pf (Append_command i) d = rmap fst (appendProjectResearchArtifacts pf i d)"
| "repo_step pf (Invalidate_command i) d =
     rmap fst (invalidateProjectResearchArtifactDescendants pf i d)"

fun command_ok :: "platform \<Rightarrow> command \<Rightarrow> bool" where
  "command_ok pf (Append_command i) \<longleftrightarrow> platform_ok pf \<and> uuid_ok (ai_uuid i)
     \<and> (\<forall>a \<in> set (ai_artifacts i). in_normal_form pf a)"
| "command_ok pf (Invalidate_command i) \<longleftrightarrow> platform_ok pf"

interpretation repo: machine None "repo_step pf" "command_ok pf" "disk_ok pf" for pf
proof unfold_locales
  show "disk_ok pf None" by (simp add: disk_ok_def)
next
  fix d c d'
  assume "disk_ok pf d" "command_ok pf c" "repo_step pf c d = Inr d'"
  then show "disk_ok pf d'"
    by (cases c) (auto simp: rmap_eq_Inr intro: append_disk_ok invalidate_disk_ok)
qed


end
