(* ===== verification/Sample_Platform.thy ===== *)
theory Sample_Platform
  imports Artifact_Types
begin

text \<open>
  Concrete platforms that meet the documented assumptions, for the witnesses: texts compare
  by code units, every text is a date, and a digest is either constant or made of the
  characters of the text, so that different identities get different identifiers.
\<close>

fun char_list_le :: "string \<Rightarrow> string \<Rightarrow> bool" where
  "char_list_le [] ys = True"
| "char_list_le (x # xs) [] = False"
| "char_list_le (x # xs) (y # ys) =
     ((of_char x :: nat) < of_char y \<or> x = y \<and> char_list_le xs ys)"

definition sample_digest :: string where
  "sample_digest = replicate 64 (CHR ''0'')"

definition sample_platform :: platform where
  "sample_platform = \<lparr>pf_sha256 = (\<lambda>t. sample_digest), pf_le = char_list_le,
     pf_date_ok = (\<lambda>t. t \<noteq> [])\<rparr>"

lemma sample_digest_hex: "length sample_digest = 64 \<and> list_all is_hex sample_digest"
  by (simp add: sample_digest_def is_hex_def is_digit_def list_all_iff)

lemma platform_ok_sample: "platform_ok sample_platform"
proof -
  have t: "char_list_le x y \<or> char_list_le y x" for x y
    by (induction x y rule: char_list_le.induct) auto
  have tr: "char_list_le x y \<Longrightarrow> char_list_le y z \<Longrightarrow> char_list_le x z" for x y z
  proof (induction x y arbitrary: z rule: char_list_le.induct)
    case (3 x xs y ys)
    then show ?case by (cases z) auto
  qed auto
  show ?thesis unfolding platform_ok_def total_preorder_def using t tr sample_digest_hex
    by (auto simp: sample_platform_def)
qed

lemma sample_hash:
  "js_ok v \<Longrightarrow> hashResearchArtifactContent sample_platform v = Inr (''sha256:'' @ sample_digest)"
  using serialize_total [of v "pf_le sample_platform"]
  by (auto simp: hashResearchArtifactContent_def canonicalJson_def sample_platform_def rmap_def)

lemma hash_ok_sample: "hash_ok (''sha256:'' @ sample_digest)"
  using sample_digest_hex by (simp add: hash_ok_def)

definition text_digest :: "string \<Rightarrow> string" where
  "text_digest t = take 64 (map (\<lambda>c. if is_hex c then c else CHR ''0'') (rev t) @ sample_digest)"

definition text_platform :: platform where
  "text_platform = \<lparr>pf_sha256 = text_digest, pf_le = char_list_le, pf_date_ok = (\<lambda>t. t \<noteq> [])\<rparr>"

lemma platform_ok_text: "platform_ok text_platform"
proof -
  have "is_hex (CHR ''0'')" by (simp add: is_hex_def is_digit_def)
  then have "list_all is_hex (map (\<lambda>c. if is_hex c then c else CHR ''0'') (rev t) @ sample_digest)" for t
    using sample_digest_hex by (auto simp: list_all_iff)
  then have "list_all is_hex (text_digest t)" for t
    unfolding text_digest_def list_all_iff by (blast dest: in_set_takeD)
  moreover have "length (text_digest t) = 64" for t
    using sample_digest_hex by (simp add: text_digest_def)
  ultimately show ?thesis
    using platform_ok_sample by (simp add: platform_ok_def text_platform_def sample_platform_def)
qed

end
