(* ===== verification/Repository_Samples.thy ===== *)
theory Repository_Samples
  imports Repository_Runs Sample_Platform
begin

text \<open>
  Concrete inputs for the repository theorems: four
  artifacts (an artifact, its next revision, and one derived from each) and the append that
  stores them in an empty repository, computed step by step. The properties of the
  repository are applied to this run at the end.
\<close>

section \<open>A bound of the size of a written text\<close>

text \<open>Cheaper to evaluate than the text itself, and far below the size limit.\<close>


definition text_cost :: "string \<Rightarrow> int" where
  "text_cost s = foldr (\<lambda>_ n. 12 + n) s 4"

fun pretty_bound :: "int \<Rightarrow> js \<Rightarrow> int" where
  "pretty_bound d (JInt i) = text_cost (show_int i)"
| "pretty_bound d (JDec s) = text_cost s"
| "pretty_bound d (JStr s) = text_cost s"
| "pretty_bound d (JArr vs) = foldr (\<lambda>v n. d + 4 + pretty_bound (d + 2) v + n) vs (d + 3)"
| "pretty_bound d (JObj es) =
     foldr (\<lambda>e n. d + 6 + text_cost (fst e) + pretty_bound (d + 2) (snd e) + n) es (d + 3)"
| "pretty_bound d v = 5"

lemma utf8_length_simps [simp]:
  "utf8_length [] = 0" "utf8_length (s @ t) = utf8_length s + utf8_length t"
  by (simp_all add: utf8_length_def)

lemma utf8_length_Cons: "utf8_length (c # s) = (if (of_char c :: nat) < 128 then 1 else 2) + utf8_length s"
  by (simp add: utf8_length_def)

lemma utf8_length_le: "utf8_length s \<le> 2 * length s"
  by (induction s) (auto simp: utf8_length_Cons)

lemma text_cost_length: "text_cost s = 12 * int (length s) + 4"
  by (induction s) (auto simp: text_cost_def)

lemma quote_cost: "int (utf8_length (json_quote s)) \<le> text_cost s"
proof -
  have "length (escape_char c) \<le> 6" for c by (simp add: escape_char_def)
  then have "length (concat (map escape_char s)) \<le> 6 * length s"
    by (induction s) (auto intro: add_mono)
  then have "length (json_quote s) \<le> 6 * length s + 2" by (simp add: json_quote_def)
  with utf8_length_le [of "json_quote s"] show ?thesis by (simp add: text_cost_length)
qed

lemma indent_cost: "utf8_length (newline_indent d) = 2 * d + 1"
proof -
  have "utf8_length (replicate n (CHR 0x20)) = n" for n by (induction n) (auto simp: utf8_length_Cons)
  then show ?thesis by (simp add: newline_indent_def utf8_length_Cons)
qed

lemma join_cost: "int (utf8_length (join_comma ts)) \<le> sum_list (map (\<lambda>t. int (utf8_length t) + 1) ts)"
proof -
  have "int (utf8_length (concat (map (\<lambda>z. CHR '','' # z) ts))) = sum_list (map (\<lambda>t. int (utf8_length t) + 1) ts)" for ts
    by (induction ts) (auto simp: utf8_length_Cons)
  then show ?thesis by (auto simp: join_comma_def split: list.split)
qed

lemma foldr_cost: "foldr (\<lambda>v n. g v + n) vs (k :: int) = sum_list (map g vs) + k"
  by (induction vs) auto

lemma sum_filter_cost: "(\<And>v. v \<in> set vs \<Longrightarrow> 0 \<le> (g v :: int)) \<Longrightarrow> sum_list (map g (filter P vs)) \<le> sum_list (map g vs)"
  by (induction vs) (auto simp: add_increasing)

lemma text_cost_pos: "0 \<le> text_cost s"
  by (simp add: text_cost_length)

lemma pretty_bound_nonneg: "0 \<le> d \<Longrightarrow> 0 \<le> pretty_bound d v"
proof (induction d v rule: pretty_bound.induct)
  case (4 d vs)
  then have "0 \<le> sum_list (map (\<lambda>v. d + 4 + pretty_bound (d + 2) v) vs)"
    by (intro sum_list_nonneg) auto
  with 4 show ?case by (simp add: foldr_cost)
next
  case (5 d es)
  then have "0 \<le> sum_list (map (\<lambda>e. d + 6 + text_cost (fst e) + pretty_bound (d + 2) (snd e)) es)"
    by (intro sum_list_nonneg) (auto simp: text_cost_pos)
  with 5 show ?case by (simp add: foldr_cost)
qed (simp_all add: text_cost_pos)

lemma plain_cost: "int (utf8_length s) \<le> text_cost s"
  using utf8_length_le [of s] by (simp add: text_cost_length)

lemma pretty_cost: "int (utf8_length (pretty d v)) \<le> pretty_bound (2 * int d) v"
proof (induction d v rule: pretty.induct)
  case (8 d vs)
  let ?f = "\<lambda>v. newline_indent (Suc d) @ pretty (Suc d) v"
  have "sum_list (map (\<lambda>v. int (utf8_length (?f v)) + 1) vs)
      \<le> sum_list (map (\<lambda>v. 2 * int d + 4 + pretty_bound (2 * int d + 2) v) vs)"
  proof (rule sum_list_mono)
    fix v assume "v \<in> set vs"
    moreover from this have "vs \<noteq> []" by auto
    ultimately show "int (utf8_length (?f v)) + 1 \<le> 2 * int d + 4 + pretty_bound (2 * int d + 2) v"
      using 8 by (simp add: indent_cost algebra_simps)
  qed
  moreover note join_cost [of "map ?f vs"]
  ultimately show ?case
    by (simp add: foldr_cost comp_def utf8_length_Cons indent_cost)
next
  case (9 d es)
  let ?f = "\<lambda>e. newline_indent (Suc d) @ json_quote (fst e) @ CHR '':'' # CHR 0x20 # pretty (Suc d) (snd e)"
  let ?g = "\<lambda>e. 2 * int d + 6 + text_cost (fst e) + pretty_bound (2 * int d + 2) (snd e)"
  let ?es = "filter (\<lambda>e. \<not> omitted (snd e)) es"
  have "sum_list (map (\<lambda>e. int (utf8_length (?f e)) + 1) ?es) \<le> sum_list (map ?g ?es)"
  proof (rule sum_list_mono)
    fix e assume "e \<in> set ?es"
    with 9 quote_cost [of "fst e"] show "int (utf8_length (?f e)) + 1 \<le> ?g e"
      by (fastforce simp: indent_cost utf8_length_Cons algebra_simps)
  qed
  also have "\<dots> \<le> sum_list (map ?g es)"
    by (rule sum_filter_cost) (simp add: text_cost_pos pretty_bound_nonneg)
  finally have "sum_list (map (\<lambda>e. int (utf8_length (?f e)) + 1) ?es) \<le> sum_list (map ?g es)" .
  moreover have "0 \<le> sum_list (map ?g es)"
    by (rule sum_list_nonneg) (auto simp: text_cost_pos pretty_bound_nonneg)
  moreover note join_cost [of "map ?f ?es"]
  ultimately show ?case
    by (simp add: Let_def foldr_cost comp_def utf8_length_Cons indent_cost)
qed (simp_all add: plain_cost quote_cost utf8_length_Cons)

section \<open>The artifacts\<close>

definition sample_producer :: artifact_producer where
  "sample_producer = \<lparr>prod_kind = User, prod_id = None, prod_tool = None\<rparr>"

definition sample_artifact :: "string \<Rightarrow> int \<Rightarrow> artifact_parent list \<Rightarrow> envelope" where
  "sample_artifact i r ps =
     \<lparr>art_id = i, art_revision = r, art_kind = Evidence_pack, art_status = Active,
      art_created = 0, art_updated = 0, art_hash = ''sha256:'' @ sample_digest,
      art_producer = sample_producer, art_parents = ps, art_sources = [],
      art_invalidation = None, art_payload = JNull\<rparr>"

definition sample_a :: envelope where
  "sample_a = sample_artifact ''a'' 1 []"

definition sample_b :: envelope where
  "sample_b = sample_artifact ''b'' 1
     [\<lparr>par_relation = Derived_from, par_artifact = toResearchArtifactRef sample_a\<rparr>]"

definition sample_c :: envelope where
  "sample_c = sample_artifact ''a'' 2 []"

definition sample_d :: envelope where
  "sample_d = sample_artifact ''d'' 1
     [\<lparr>par_relation = Derived_from, par_artifact = toResearchArtifactRef sample_c\<rparr>]"

definition samples :: "envelope list" where
  "samples = [sample_a, sample_b, sample_c, sample_d]"

lemma js_ok_parent [simp]: "js_ok (parent_json p)"
  by (simp add: parent_json_def)

lemma js_ok_sample: "js_ok (envelope_json (sample_artifact i r ps))"
  by (simp add: envelope_json_def sample_artifact_def producer_json_def sample_producer_def
      opt_entry_def list_all_iff)

lemma clone_null: "cloneCanonical sample_platform JNull = Inr JNull"
  by (simp add: cloneCanonical_def canonicalJson_def lift_schema_def json_parse_def) code_simp

lemma normal_sample:
  assumes a: "id_ok i" "revision_ok r" "parents_ok ps"
  shows "in_normal_form sample_platform (sample_artifact i r ps)"
proof -
  have j: "js_ok (content_json i r Evidence_pack ps [] JNull)"
    by (simp add: content_json_def list_all_iff)
  have "producer_ok sample_producer" by (simp add: producer_ok_def sample_producer_def)
  then have "createResearchArtifact sample_platform []
              \<lparr>ci_kind = Evidence_pack, ci_payload = JNull, ci_producer = sample_producer,
               ci_parents = Some ps, ci_sources = Some [], ci_id = Some i, ci_revision = Some r,
               ci_status = Some Active, ci_now = 0\<rparr> = Inr (sample_artifact i r ps)"
    using a by (simp add: createResearchArtifact_def sample_hash [OF j] rbind_eq_Inr lift_canon_def
        sample_artifact_def)
  then show ?thesis
    using assertCanonicalShape_same [OF js_ok_sample, of sample_platform i r ps] hash_ok_sample
    by (simp add: in_normal_form_def normalizeEnvelope_def clone_null sample_artifact_def
        opt_invalidation_def isLegacyLiteratureNoveltyRescanEnvelope_def
        validateArtifactPayloadContract_def lift_schema_def)
qed

lemma show_digits:
  "show_int 1 = ''1''" "show_int 2 = ''2''" "show_nat 1 = ''1''" "show_nat 2 = ''2''"
  "show_nat (Suc 0) = ''1''" "show_nat (Suc (Suc 0)) = ''2''"
  by code_simp+

lemma sample_fields [simp]:
  "art_id (sample_artifact i r ps) = i" "art_revision (sample_artifact i r ps) = r"
  "art_parents (sample_artifact i r ps) = ps" "art_kind (sample_artifact i r ps) = Evidence_pack"
  "art_hash (sample_artifact i r ps) = ''sha256:'' @ sample_digest"
  "art_status (sample_artifact i r ps) = Active" "art_updated (sample_artifact i r ps) = 0"
  "art_created (sample_artifact i r ps) = 0" "art_invalidation (sample_artifact i r ps) = None"
  by (simp_all add: sample_artifact_def)

lemma sample_values:
  "art_parents sample_a = []" "art_parents sample_c = []"
  "art_parents sample_b = [\<lparr>par_relation = Derived_from, par_artifact = toResearchArtifactRef sample_a\<rparr>]"
  "art_revision sample_a = 1" "art_revision sample_b = 1" "art_revision sample_c = 2"
  "art_id sample_a = ''a''" "art_id sample_b = ''b''" "art_id sample_c = ''a''"
  "art_kind sample_a = Evidence_pack" "art_kind sample_b = Evidence_pack" "art_kind sample_c = Evidence_pack"
  "art_status sample_a = Active" "art_status sample_b = Active" "art_status sample_c = Active"
  "art_created sample_a = 0" "art_created sample_b = 0" "art_created sample_c = 0"
  "art_updated sample_a = 0" "art_updated sample_b = 0" "art_updated sample_c = 0"
  "art_invalidation sample_a = None" "art_invalidation sample_b = None" "art_invalidation sample_c = None"
  "art_hash sample_a = ''sha256:'' @ sample_digest" "art_hash sample_b = ''sha256:'' @ sample_digest"
  "art_hash sample_c = ''sha256:'' @ sample_digest"
  "art_parents sample_d = [\<lparr>par_relation = Derived_from, par_artifact = toResearchArtifactRef sample_c\<rparr>]"
  "art_revision sample_d = 1" "art_id sample_d = ''d''" "art_kind sample_d = Evidence_pack"
  "art_status sample_d = Active" "art_created sample_d = 0" "art_updated sample_d = 0"
  "art_invalidation sample_d = None" "art_hash sample_d = ''sha256:'' @ sample_digest"
  by (simp_all add: sample_a_def sample_b_def sample_c_def sample_d_def)

lemma sample_keys [simp]:
  "envelope_key sample_d = ''d@1''" "envelope_key sample_a = ''a@1''" "envelope_key sample_b = ''b@1''" "envelope_key sample_c = ''a@2''"
  by (simp_all add: sample_values envelope_key_def artifact_key_def show_digits)

lemma ref_fields [simp]:
  "ref_kind (toResearchArtifactRef x) = Stored (art_kind x)"
  "ref_hash (toResearchArtifactRef x) = art_hash x"
  by (simp_all add: toResearchArtifactRef_def)

lemma sample_ids: "id_ok ''a''" "id_ok ''b''" "id_ok ''d''" "revision_ok 1" "revision_ok 2"
  by (simp_all add: id_ok_def text_ok_def id_pattern_def id_char_def is_alnum_def is_upper_def
      is_lower_def is_digit_def js_trim_def is_space_def revision_ok_def max_safe_integer_def)

lemma sample_normal:
  "in_normal_form sample_platform sample_a" "in_normal_form sample_platform sample_b"
  "in_normal_form sample_platform sample_c" "in_normal_form sample_platform sample_d"
  using sample_ids hash_ok_sample
  by (auto simp: sample_a_def sample_b_def sample_c_def sample_d_def parents_ok_def ref_ok_def
      toResearchArtifactRef_def intro!: normal_sample)

section \<open>The graph and the log of the append\<close>

definition sample_children :: adjacency where
  "sample_children = [(''a@1'', [''b@1'']), (''b@1'', []), (''a@2'', [''d@1'']), (''d@1'', [])]"

definition sample_graph :: artifact_graph where
  "sample_graph = \<lparr>g_artifacts = by_key samples, g_children = sample_children,
     g_inval_children = sample_children, g_roots = [''a@1'', ''a@2''], g_missing = []\<rparr>"

lemma sample_build: "buildResearchArtifactGraph char_list_le samples = Inr sample_graph"
  by (simp add: buildResearchArtifactGraph_def link_artifact_def link_parent_def sample_values
      empty_adjacency_def push_kid_def sort_kids_def sort_by_def assertAcyclic_def rmap_def
      sample_children_def kids_def sadd_def jkeys_def jvals_def by_key_def Let_def samples_def
      sample_graph_def)

lemma sample_validate: "validateCompleteArtifactGraph sample_platform samples = Inr sample_graph"
  using sample_build
  by (simp add: validateCompleteArtifactGraph_def sample_platform_def) (simp add: sample_graph_def)

lemma sample_histories:
  "groupArtifactsById samples = [(''a'', [sample_a, sample_c]), (''b'', [sample_b]), (''d'', [sample_d])]"
  by (simp add: groupArtifactsById_def group_step_def sort_by_def sample_values samples_def)

lemma sample_event_id:
  "statusEventId sample_platform e = Inr (event_id_prefix (ev_sequence e) @ ''0000000000000000'')"
  by (simp add: statusEventId_def sample_hash lift_type_def rmap_def sample_digest_def
      event_id_prefix_def numeral_eq_Suc)

definition sample_event1 :: status_event where
  "sample_event1 = \<lparr>ev_sequence = 1, ev_id = ''artifact-status-1-0000000000000000'',
     ev_artifact = toResearchArtifactRef sample_a, ev_from = Active, ev_to = Superseded,
     ev_cause = New_revision, ev_roots = [toResearchArtifactRef sample_c], ev_reason = None,
     ev_changed = 5\<rparr>"

definition sample_event2 :: status_event where
  "sample_event2 = \<lparr>ev_sequence = 2, ev_id = ''artifact-status-2-0000000000000000'',
     ev_artifact = toResearchArtifactRef sample_b, ev_from = Active, ev_to = Stale,
     ev_cause = Invalidation, ev_roots = [toResearchArtifactRef sample_a],
     ev_reason = Some Upstream_changed, ev_changed = 5\<rparr>"

definition sample_states :: states where
  "sample_states = [(''a@1'', event_state sample_event1), (''b@1'', event_state sample_event2),
     (''a@2'', \<lparr>ms_status = Active, ms_updated = 0, ms_inval = None\<rparr>),
     (''d@1'', \<lparr>ms_status = Active, ms_updated = 0, ms_inval = None\<rparr>)]"

definition sample_commit :: commit where
  "sample_commit = \<lparr>cm_log = \<lparr>lg_events = [sample_event1, sample_event2], lg_states = sample_states\<rparr>,
    cm_superseded = [toResearchArtifactRef sample_a], cm_stale = [toResearchArtifactRef sample_b]\<rparr>"

lemma sample_events: "append_events sample_platform [] samples [] 5 = Inr sample_commit"
proof -
  have hist: "groupArtifactsById [sample_a, sample_b, sample_c, sample_d] = [(''a'', [sample_a, sample_c]), (''b'', [sample_b]), (''d'', [sample_d])]"
    using sample_histories by (simp add: samples_def)
  have g: "validateCompleteArtifactGraph sample_platform [sample_a, sample_b, sample_c, sample_d] =
     Inr \<lparr>g_artifacts = by_key samples, g_children = sample_children,
     g_inval_children = sample_children, g_roots = [''a@1'', ''a@2''], g_missing = []\<rparr>"
    using sample_validate by (simp add: samples_def sample_graph_def)
  show ?thesis
    by (simp add: append_events_def g assertAppendOnlyRevisionSequence_def hist rmap_def
      sample_values validateEmbeddedInvalidationRefs_def replayStatusEvents_def replay_start_def
      initial_states_def supersede_all_def adjacent_def supersede_pair_def appendStatusEvent_def
      sample_event_id event_id_prefix_def show_digits event_state_def
      appendPreciseInvalidationEvents_def not_active_def Let_def uniqueRefs_def of_keys_def
      jvals_def sort_by_def roots_by_descendant_def trace_loop.simps(2) sample_children_def
      kids_def trace_kid_def enqueue_kid_def add_root_def sadd_def opt_map_def jkeys_def
      invalidate_descendant_def by_key_def sample_commit_def sample_event1_def sample_event2_def
      samples_def sample_states_def)
qed

section \<open>The manifest\<close>

definition sample_body :: manifest where
  "sample_body = \<lparr>mf_id = ''artifact-repository-u'', mf_revision = 1, mf_created = 5,
     mf_updated = 5, mf_artifacts = samples, mf_events = [sample_event1, sample_event2],
     mf_hash = []\<rparr>"

definition sample_manifest :: manifest where
  "sample_manifest = sample_body\<lparr>mf_hash := ''sha256:'' @ sample_digest\<rparr>"

lemma sample_times: "iso_string 0 = ''1970-01-01T00:00:00.000Z''" "iso_string 5 = ''1970-01-01T00:00:00.005Z''"
  by code_simp+

lemma text_cost_simps:
  "text_cost [] = 4" "text_cost (c # s) = 12 + text_cost s" "text_cost (s @ t) = text_cost s + text_cost t - 4"
  "text_cost sample_digest = 772"
  by (simp_all add: text_cost_length sample_digest_def)

lemmas sample_json = envelope_json_def event_json_def event_body_json_def ref_json_def
  parent_json_def refs_json_def producer_json_def opt_entry_def show_digits sample_times
  sample_values toResearchArtifactRef_def text_cost_simps

lemma sample_artifact_size:
  "pretty_bound 4 (envelope_json sample_a) \<le> 10000" "pretty_bound 4 (envelope_json sample_b) \<le> 10000"
  "pretty_bound 4 (envelope_json sample_c) \<le> 10000" "pretty_bound 4 (envelope_json sample_d) \<le> 10000"
  by (simp_all add: sample_json sample_producer_def sample_a_def sample_b_def sample_c_def sample_d_def
      sample_artifact_def)

lemma sample_event_size:
  "pretty_bound 4 (event_json sample_event1) \<le> 10000" "pretty_bound 4 (event_json sample_event2) \<le> 10000"
  by (simp_all add: sample_json sample_event1_def sample_event2_def)

lemma sample_size:
  "utf8_length (pretty 0 (manifest_json sample_manifest)) + 1 \<le> max_repository_bytes"
proof -
  have "pretty_bound 0 (manifest_json sample_manifest) \<le> 1000000"
    using sample_artifact_size sample_event_size
    by (simp add: manifest_json_def manifest_body_def sample_manifest_def sample_body_def samples_def
        sample_times show_digits text_cost_simps)
  with pretty_cost [of 0 "manifest_json sample_manifest"] show ?thesis
    by (simp add: max_repository_bytes_def)
qed
section \<open>The append\<close>

definition sample_input :: append_input where
  "sample_input = \<lparr>ai_artifacts = samples, ai_expected = None, ai_now = 5, ai_uuid = ''u''\<rparr>"

definition sample_snapshot :: snapshot where
  "sample_snapshot = \<lparr>sn_id = ''artifact-repository-u'', sn_revision = 1, sn_created = 5,
     sn_updated = 5, sn_hash = ''sha256:'' @ sample_digest,
     sn_artifacts = map (view sample_states) samples\<rparr>"

definition sample_result :: append_result where
  "sample_result = \<lparr>ar_snapshot = sample_snapshot,
     ar_appended = sort_by (compareRefs sample_platform) (map toResearchArtifactRef samples),
     ar_idempotent = [], ar_superseded = [toResearchArtifactRef sample_a],
     ar_stale = [toResearchArtifactRef sample_b], ar_persisted = True\<rparr>"

lemma sample_supplied: "normalizeSuppliedArtifacts sample_platform samples = Inr samples"
  using sample_normal
  by (simp add: normalizeSuppliedArtifacts_def supply_step_def in_normal_form_def rmap_def jvals_def
      samples_def)

lemma sample_storable: "\<forall>a \<in> set samples. ref_storable (toResearchArtifactRef a)"
  using sample_normal by (auto simp: in_normal_form_def samples_def intro: normalizeEnvelope_storable)

lemma sample_log: "log_ok sample_platform samples sample_graph 5 (cm_log sample_commit)"
  using commit_events [of sample_platform "[]" samples "[]" 5 sample_commit] platform_ok_sample
    sample_events sample_storable sample_validate by auto

lemma sample_js_ok: "js_ok (JObj (manifest_body sample_body))"
  using js_ok_sample
  by (simp add: manifest_body_def sample_body_def samples_def sample_a_def sample_b_def sample_c_def
      sample_d_def)

lemma sample_seal: "sealManifest sample_platform sample_body = Inr sample_manifest"
  by (simp add: sealManifest_def sample_hash [OF sample_js_ok] lift_type_def rmap_def
      sample_manifest_def)

lemma sample_snapshot_of: "snapshotOf sample_platform sample_manifest = Inr sample_snapshot"
  using materialize_log [OF sample_validate sample_log]
  by (simp add: snapshotOf_def sample_manifest_def sample_body_def sample_commit_def rmap_def
      sample_snapshot_def)

lemma sample_run:
  "appendProjectResearchArtifacts sample_platform sample_input None
     = Inr (Some sample_manifest, sample_result)"
proof -
  have empty: "createEmptyManifest sample_platform ''u'' 5 = Inr \<lparr>mf_id = ''artifact-repository-u'',
       mf_revision = 1, mf_created = 5, mf_updated = 5, mf_artifacts = [], mf_events = [],
       mf_hash = ''sha256:'' @ sample_digest\<rparr>"
    by (simp add: createEmptyManifest_def sealManifest_def sample_hash manifest_body_def
        lift_type_def rmap_def)
  have part: "rfold (partition_step sample_platform)
      \<lparr>pt_byKey = [], pt_appended = [], pt_idempotent = []\<rparr> samples
      = Inr \<lparr>pt_byKey = by_key samples, pt_appended = samples, pt_idempotent = []\<rparr>"
    by (simp add: samples_def partition_step_def by_key_def)
  have w: "writeManifestAtomically sample_manifest = Inr (Some sample_manifest)"
    using sample_size by (simp add: writeManifestAtomically_def)
  have ne: "samples \<noteq> []" by (simp add: samples_def)
  have body: "\<lparr>mf_id = ''artifact-repository-u'', mf_revision = 1, mf_created = 5, mf_updated = 5,
      mf_artifacts = samples, mf_events = lg_events (cm_log sample_commit), mf_hash = []\<rparr> = sample_body"
    by (simp add: sample_body_def sample_commit_def)
  have sup: "uniqueRefs sample_platform (cm_superseded sample_commit) = [toResearchArtifactRef sample_a]"
    "cm_stale sample_commit = [toResearchArtifactRef sample_b]"
    by (simp_all add: sample_commit_def)
  show ?thesis
    by (simp add: appendProjectResearchArtifacts_def sample_input_def ne normalizeExpectedRevision_def
        sample_supplied readManifest_def assertExpectedRevision_def empty of_keys_def part
        assertTransactionTime_def sample_events body sample_seal w sample_snapshot_of rmap_def
        sample_result_def sup sort_by_def)
qed

section \<open>The properties at this run\<close>

lemma sample_uuid: "uuid_ok (ai_uuid sample_input)"
  by (simp add: sample_input_def uuid_ok_def id_char_def is_alnum_def is_lower_def)

lemma sample_disk: "disk_ok sample_platform None"
  by (simp add: disk_ok_def)

lemma sample_inputs: "\<forall>a \<in> set (ai_artifacts sample_input). in_normal_form sample_platform a"
  using sample_normal by (simp add: sample_input_def samples_def)

lemma sample_persisted: "ar_persisted sample_result"
  by (simp add: sample_result_def)

lemma sample_revision: "mf_revision sample_manifest \<le> max_safe_integer"
  by (simp add: sample_manifest_def sample_body_def max_safe_integer_def)

lemma sample_snapshot_artifacts:
  "sn_artifacts (ar_snapshot sample_result) = map (view sample_states) samples"
  by (simp add: sample_result_def sample_snapshot_def)

lemma sample_causal: "(''a@1'', ''b@1'') \<in> (causal samples)\<^sup>+" "(''a@2'', ''d@1'') \<in> (causal samples)\<^sup>+"
proof -
  have live: "live_parent samples \<lparr>par_relation = Derived_from, par_artifact = toResearchArtifactRef x\<rparr>"
    if "x \<in> set samples" for x
    using that by (auto simp: live_parent_def artifact_keys_def)
  have "sample_a \<in> set samples" "sample_b \<in> set samples" "sample_c \<in> set samples" "sample_d \<in> set samples"
    by (simp_all add: samples_def)
  with live [of sample_a] live [of sample_c]
  have "(''a@1'', ''b@1'') \<in> causal samples" "(''a@2'', ''d@1'') \<in> causal samples"
    by (force simp: causal_def sample_values)+
  then show "(''a@1'', ''b@1'') \<in> (causal samples)\<^sup>+" "(''a@2'', ''d@1'') \<in> (causal samples)\<^sup>+" by auto
qed

lemma sample_not_active: "art_status (view sample_states sample_a) \<noteq> Active"
  by (simp add: view_def sample_states_def event_state_def sample_event1_def)

theorem append_staleness_closed_witness:
  "art_status (view sample_states sample_b) \<noteq> Active"
  by (rule append_staleness_closed [OF platform_ok_sample sample_uuid sample_run sample_persisted,
        where a = "view sample_states sample_a"])
     (use sample_causal sample_not_active in
       \<open>simp_all add: sample_snapshot_artifacts\<close>, simp_all add: samples_def)



theorem append_supersedes_previous_witness:
  "art_status (view sample_states sample_a) \<noteq> Active"
  by (rule append_supersedes_previous [OF platform_ok_sample sample_uuid sample_run sample_persisted,
        where c = "view sample_states sample_c"])
     (simp_all add: sample_snapshot_artifacts samples_def sample_values sample_snapshot_def
       sample_result_def toResearchArtifactRef_def)

theorem append_then_get_witness:
  "\<exists>a. getProjectResearchArtifact sample_platform (Some sample_manifest) ''a'' 1 = Inr (Some a)
     \<and> toResearchArtifactRef a = toResearchArtifactRef sample_a"
proof -
  have "toResearchArtifactRef sample_a \<in> set (ar_appended sample_result)"
    by (simp add: sample_result_def samples_def)
  from append_then_get [OF platform_ok_sample sample_uuid sample_disk sample_inputs
        sample_run sample_persisted refl sample_revision this]
  show ?thesis by (simp add: toResearchArtifactRef_def sample_values)
qed


theorem invalidate_marks_descendants_witness:
  "\<exists>as. invalidateResearchArtifactDescendants char_list_le samples [toResearchArtifactRef sample_a] Manual 7
     = Inr as \<and> as ! 1 = sample_b\<lparr>art_status := Stale, art_updated := 7, art_invalidation :=
         Some \<lparr>inval_at = 7, inval_reason = Manual, inval_roots = [toResearchArtifactRef sample_a]\<rparr>\<rparr>"
proof -
  obtain as where as: "invalidateResearchArtifactDescendants char_list_le samples
      [toResearchArtifactRef sample_a] Manual 7 = Inr as"
    using sample_build
    by (cases "invalidateResearchArtifactDescendants char_list_le samples [toResearchArtifactRef sample_a] Manual 7")
       (auto simp: invalidateResearchArtifactDescendants_def Let_def rmap_def split: if_splits)
  from invalidate_marks_descendants [OF as] sample_causal(1) have "as ! 1 = sample_b\<lparr>art_status := Stale,
      art_updated := 7, art_invalidation :=
         Some \<lparr>inval_at = 7, inval_reason = Manual, inval_roots = [toResearchArtifactRef sample_a]\<rparr>\<rparr>"
    by (simp add: samples_def sample_values)
  with as show ?thesis by blast
qed

theorem latest_is_greatest_revision_witness:
  "newest samples ''a'' sample_c"
proof -
  have l: "latestResearchArtifactRevisions char_list_le samples = [sample_c, sample_b, sample_d]"
    by (simp add: latestResearchArtifactRevisions_def latest_step_def samples_def sample_values
        jvals_def sort_by_def)
  from latest_is_greatest_revision [of char_list_le samples] show ?thesis
    unfolding l by (simp add: sample_values)
qed

section \<open>An invalidation of the stored artifacts\<close>

definition sample_event3 :: status_event where
  "sample_event3 = \<lparr>ev_sequence = 3, ev_id = ''artifact-status-3-0000000000000000'',
     ev_artifact = toResearchArtifactRef sample_d, ev_from = Active, ev_to = Stale,
     ev_cause = Invalidation, ev_roots = [toResearchArtifactRef sample_c],
     ev_reason = Some Manual, ev_changed = 7\<rparr>"

definition sample_log3 :: log_state where
  "sample_log3 = \<lparr>lg_events = [sample_event1, sample_event2, sample_event3],
     lg_states = jset ''d@1'' (event_state sample_event3) sample_states\<rparr>"

definition sample_invalidation :: invalidate_input where
  "sample_invalidation = \<lparr>ii_roots = [toResearchArtifactRef sample_c], ii_reason = Manual,
     ii_expected = Some 1, ii_now = 7\<rparr>"

definition invalidated_body :: manifest where
  "invalidated_body = \<lparr>mf_id = ''artifact-repository-u'', mf_revision = 2, mf_created = 5,
     mf_updated = 7, mf_artifacts = samples, mf_events = lg_events sample_log3, mf_hash = []\<rparr>"

definition invalidated_manifest :: manifest where
  "invalidated_manifest = invalidated_body\<lparr>mf_hash := ''sha256:'' @ sample_digest\<rparr>"

lemma sample_read: "readManifest sample_platform (Some sample_manifest) = Inr (Some sample_manifest)"
  using append_validates [OF platform_ok_sample sample_uuid sample_disk sample_inputs
        sample_run sample_persisted refl sample_revision] by blast

lemma sample_replay:
  "replayStatusEvents samples [sample_event1, sample_event2] sample_graph = Inr sample_states"
  using sample_log by (auto simp: log_ok_def replayStatusEvents_eq sample_commit_def)

lemma show_three: "show_nat 3 = ''3''" "show_nat (Suc (Suc (Suc 0))) = ''3''"
  by code_simp+

lemma sample_stale3:
  "appendPreciseInvalidationEvents sample_platform sample_graph samples
     \<lparr>lg_events = [sample_event1, sample_event2], lg_states = sample_states\<rparr>
     [toResearchArtifactRef sample_c] Manual 7 = Inr (sample_log3, [toResearchArtifactRef sample_d])"
  by (simp add: appendPreciseInvalidationEvents_def Let_def rmap_def sample_graph_def
      roots_by_descendant_def trace_loop.simps(2) sample_children_def kids_def trace_kid_def
      enqueue_kid_def add_root_def sadd_def opt_map_def jkeys_def jvals_def sort_by_def
      invalidate_descendant_def by_key_def samples_def sample_states_def appendStatusEvent_def
      sample_event_id event_id_prefix_def show_three event_state_def sample_log3_def
      sample_event3_def)

lemma invalidated_js_ok: "js_ok (JObj (manifest_body invalidated_body))"
  using js_ok_sample
  by (simp add: manifest_body_def invalidated_body_def samples_def sample_a_def sample_b_def
      sample_c_def sample_d_def sample_log3_def)

lemma invalidated_seal: "sealManifest sample_platform invalidated_body = Inr invalidated_manifest"
  by (simp add: sealManifest_def sample_hash [OF invalidated_js_ok] lift_type_def rmap_def
      invalidated_manifest_def)

lemma sample_event3_size: "pretty_bound 4 (event_json sample_event3) \<le> 10000"
proof -
  have "iso_string 7 = ''1970-01-01T00:00:00.007Z''" by code_simp
  moreover have "show_int 3 = ''3''" by code_simp
  ultimately show ?thesis by (simp add: sample_json sample_event3_def)
qed

lemma invalidated_size:
  "utf8_length (pretty 0 (manifest_json invalidated_manifest)) + 1 \<le> max_repository_bytes"
proof -
  have "iso_string 7 = ''1970-01-01T00:00:00.007Z''" by code_simp
  then have "pretty_bound 0 (manifest_json invalidated_manifest) \<le> 1000000"
    using sample_artifact_size sample_event_size sample_event3_size
    by (simp add: manifest_json_def manifest_body_def invalidated_manifest_def invalidated_body_def
        samples_def sample_log3_def sample_times show_digits text_cost_simps)
  with pretty_cost [of 0 "manifest_json invalidated_manifest"] show ?thesis
    by (simp add: max_repository_bytes_def)
qed

lemma sample_resolves:
  "resolveRef samples (toResearchArtifactRef sample_c) = Inr sample_c"
  "normalize_ref (toResearchArtifactRef sample_c) = Inr (toResearchArtifactRef sample_c)"
proof -
  have c: "sample_c \<in> set samples" by (simp add: samples_def)
  have "distinct (map envelope_key samples)" by (simp add: samples_def)
  with c show "resolveRef samples (toResearchArtifactRef sample_c) = Inr sample_c" by (rule resolve_own)
  show "normalize_ref (toResearchArtifactRef sample_c) = Inr (toResearchArtifactRef sample_c)"
    using sample_storable c by (simp add: ref_storable_def)
qed

lemma log_ok_later: "log_ok pf as g t l \<Longrightarrow> t \<le> t' \<Longrightarrow> log_ok pf as g t' l"
  unfolding log_ok_def by (meson order_trans)

lemma sample_invalidated:
  "\<exists>r. invalidateProjectResearchArtifactDescendants sample_platform sample_invalidation
      (Some sample_manifest) = Inr (Some invalidated_manifest, r)
     \<and> ir_persisted r \<and> ir_roots r = [toResearchArtifactRef sample_c]"
proof -
  have S: "setting_ok sample_platform samples sample_graph"
    by (rule validated_setting [OF platform_ok_sample sample_validate sample_storable])
  have l: "log_ok sample_platform samples sample_graph 7
      \<lparr>lg_events = [sample_event1, sample_event2], lg_states = sample_states\<rparr>"
    using log_ok_later [OF sample_log, of 7] by (simp add: sample_commit_def)
  have "set [toResearchArtifactRef sample_c] \<subseteq> toResearchArtifactRef ` set samples"
    by (simp add: samples_def)
  from precise_invalidation [OF S l this, of Manual] sample_stale3
  have l3: "log_ok sample_platform samples sample_graph 7 sample_log3" by simp
  obtain sn where sn: "snapshotOf sample_platform invalidated_manifest = Inr sn"
    using materialize_log [OF sample_validate l3]
    by (simp add: snapshotOf_def invalidated_manifest_def invalidated_body_def rmap_def)
  have w: "writeManifestAtomically invalidated_manifest = Inr (Some invalidated_manifest)"
    using invalidated_size by (simp add: writeManifestAtomically_def)
  have body: "\<lparr>mf_id = ''artifact-repository-u'', mf_revision = 2, mf_created = 5, mf_updated = 7,
      mf_artifacts = samples, mf_events = lg_events sample_log3, mf_hash = []\<rparr> = invalidated_body"
    by (simp add: invalidated_body_def)
  have fields: "mf_artifacts sample_manifest = samples" "mf_revision sample_manifest = 1"
    "mf_events sample_manifest = [sample_event1, sample_event2]" "mf_id sample_manifest = ''artifact-repository-u''"
    "mf_created sample_manifest = 5" "mf_updated sample_manifest = 5"
    by (simp_all add: sample_manifest_def sample_body_def)
  show ?thesis
    by (simp add: invalidateProjectResearchArtifactDescendants_def sample_invalidation_def
        sample_resolves rmap_def normalizeExpectedRevision_def max_safe_integer_def sample_read
        assertExpectedRevision_def fields sample_validate sample_replay sample_stale3
        assertTransactionTime_def body invalidated_seal w sn)
qed

theorem invalidate_exactly_descendants_witness:
  "\<exists>r. invalidateProjectResearchArtifactDescendants sample_platform sample_invalidation
      (Some sample_manifest) = Inr (Some invalidated_manifest, r)
     \<and> art_status (sn_artifacts (ir_snapshot r) ! 3) = Stale"
proof -
  obtain r where r: "invalidateProjectResearchArtifactDescendants sample_platform sample_invalidation
      (Some sample_manifest) = Inr (Some invalidated_manifest, r)" "ir_persisted r"
    "ir_roots r = [toResearchArtifactRef sample_c]"
    using sample_invalidated by blast
  have load: "loadProjectResearchArtifactRepository sample_platform (Some sample_manifest)
      = Inr (Some sample_snapshot)"
    by (simp add: loadProjectResearchArtifactRepository_def sample_read sample_snapshot_of rmap_def)
  from invalidate_exactly_descendants [OF platform_ok_sample r(1,2) load]
  have "list_all2 (invalidated (map (view sample_states) samples) (ir_roots r) Manual 7)
      (map (view sample_states) samples) (sn_artifacts (ir_snapshot r))"
    by (simp add: sample_snapshot_def sample_invalidation_def)
  then have "invalidated (map (view sample_states) samples) (ir_roots r) Manual 7
      (map (view sample_states) samples ! 3) (sn_artifacts (ir_snapshot r) ! 3)"
    by (rule list_all2_nthD) (simp add: samples_def)
  then have "invalidated (map (view sample_states) samples) (ir_roots r) Manual 7
      (view sample_states sample_d) (sn_artifacts (ir_snapshot r) ! 3)"
    by (simp add: samples_def)
  moreover have "art_status (view sample_states sample_d) = Active"
    by (simp add: view_def sample_states_def)
  moreover have "''d@1'' \<in> below_roots samples [toResearchArtifactRef sample_c]"
    using sample_causal(2) by (simp add: below_roots_def)
  ultimately show ?thesis using r by (auto simp: invalidated_def)
qed

section \<open>A second append\<close>

definition sample_e :: envelope where
  "sample_e = sample_artifact ''e'' 1 []"

lemma sample_e_values:
  "art_parents sample_e = []" "art_revision sample_e = 1" "art_id sample_e = ''e''"
  "art_kind sample_e = Evidence_pack" "art_status sample_e = Active" "art_created sample_e = 0"
  "art_updated sample_e = 0" "art_invalidation sample_e = None"
  "art_hash sample_e = ''sha256:'' @ sample_digest" "envelope_key sample_e = ''e@1''"
  by (simp_all add: sample_e_def envelope_key_def artifact_key_def show_digits)

definition second_input :: append_input where
  "second_input = \<lparr>ai_artifacts = [sample_e], ai_expected = Some 1, ai_now = 9, ai_uuid = ''u''\<rparr>"

definition second_graph :: artifact_graph where
  "second_graph = \<lparr>g_artifacts = by_key (samples @ [sample_e]),
     g_children = sample_children @ [(''e@1'', [])], g_inval_children = sample_children @ [(''e@1'', [])],
     g_roots = [''a@1'', ''a@2'', ''e@1''], g_missing = []\<rparr>"

lemma second_validate:
  "validateCompleteArtifactGraph sample_platform (samples @ [sample_e]) = Inr second_graph"
proof -
  have "buildResearchArtifactGraph char_list_le (samples @ [sample_e]) = Inr second_graph"
    by (simp add: buildResearchArtifactGraph_def link_artifact_def link_parent_def sample_values
        sample_e_values empty_adjacency_def push_kid_def sort_kids_def sort_by_def assertAcyclic_def
        rmap_def sample_children_def kids_def sadd_def jkeys_def jvals_def by_key_def Let_def
        samples_def second_graph_def)
  then show ?thesis
    by (simp add: validateCompleteArtifactGraph_def sample_platform_def) (simp add: second_graph_def)
qed

lemma second_histories:
  "groupArtifactsById (samples @ [sample_e]) =
     [(''a'', [sample_a, sample_c]), (''b'', [sample_b]), (''d'', [sample_d]), (''e'', [sample_e])]"
  by (simp add: groupArtifactsById_def group_step_def sort_by_def sample_values sample_e_values
      samples_def)

definition second_states :: states where
  "second_states = sample_states @ [(''e@1'', \<lparr>ms_status = Active, ms_updated = 0, ms_inval = None\<rparr>)]"

lemma second_resolves:
  "x \<in> set samples \<Longrightarrow> resolveRef (samples @ [sample_e]) (toResearchArtifactRef x) = Inr x"
  by (rule resolve_own) (auto simp: samples_def sample_e_values)

lemma second_replay:
  "replayStatusEvents (samples @ [sample_e]) [sample_event1, sample_event2] second_graph = Inr second_states"
proof -
  have r: "resolveRef (samples @ [sample_e]) (toResearchArtifactRef sample_a) = Inr sample_a"
    "resolveRef (samples @ [sample_e]) (toResearchArtifactRef sample_b) = Inr sample_b"
    "resolveRef (samples @ [sample_e]) (toResearchArtifactRef sample_c) = Inr sample_c"
    by (rule second_resolves, simp add: samples_def)+
  have i: "initial_states (samples @ [sample_e]) = map (\<lambda>k. (k, \<lparr>ms_status = Active, ms_updated = 0, ms_inval = None\<rparr>))
      [''a@1'', ''b@1'', ''a@2'', ''d@1'', ''e@1'']"
    by (simp add: initial_states_def samples_def sample_values sample_e_values)
  have d: "descendantKeys second_graph ''a@1'' = [''b@1'']"
    by (simp add: descendantKeys_def second_graph_def sample_children_def reach_loop.simps(2) kids_def
        enqueue_kid_def Let_def)
  show ?thesis
    by (simp add: replayStatusEvents_def replay_start_def i replay_step_def sample_event1_def
        sample_event2_def r rmap_def valid_replacement_def sample_values d sadd_def second_states_def
        sample_states_def)
qed

lemma second_uniqueRefs:
  "uniqueRefs sample_platform [toResearchArtifactRef sample_a, toResearchArtifactRef sample_b]
     = [toResearchArtifactRef sample_a, toResearchArtifactRef sample_b]"
  by (simp add: uniqueRefs_def of_keys_def jvals_def sort_by_def compareRefs_def fullRefKey_def
      toResearchArtifactRef_def sample_values show_digits sample_platform_def)

lemma second_events:
  "append_events sample_platform samples [sample_e] [sample_event1, sample_event2] 9 = Inr
     \<lparr>cm_log = \<lparr>lg_events = [sample_event1, sample_event2], lg_states = second_states\<rparr>,
      cm_superseded = [], cm_stale = []\<rparr>"
proof -
  have emb: "validateEmbeddedInvalidationRefs (samples @ [sample_e]) second_graph = Inr ()"
    by (simp add: validateEmbeddedInvalidationRefs_def samples_def sample_values sample_e_values rmap_def)
  have seq: "assertAppendOnlyRevisionSequence samples [sample_e] = Inr ()"
    by (simp add: assertAppendOnlyRevisionSequence_def second_histories rmap_def sample_values sample_e_values)
  have su: "supersede_all sample_platform (map envelope_key [sample_e]) 9 (samples @ [sample_e])
      \<lparr>lg_events = [sample_event1, sample_event2], lg_states = second_states\<rparr>
    = Inr \<lparr>su_log = \<lparr>lg_events = [sample_event1, sample_event2], lg_states = second_states\<rparr>,
        su_superseded = [], su_updated = []\<rparr>"
    by (simp add: supersede_all_def second_histories adjacent_def supersede_pair_def sample_e_values)
  have inh: "filter (not_active second_states) samples = [sample_a, sample_b]"
    "\<not> not_active second_states sample_e"
    by (simp_all add: samples_def not_active_def second_states_def sample_states_def sample_e_values
        event_state_def sample_event1_def sample_event2_def)
  have pre: "appendPreciseInvalidationEvents sample_platform second_graph (samples @ [sample_e])
      \<lparr>lg_events = [sample_event1, sample_event2], lg_states = second_states\<rparr>
      [toResearchArtifactRef sample_a, toResearchArtifactRef sample_b] Upstream_changed 9
    = Inr (\<lparr>lg_events = [sample_event1, sample_event2], lg_states = second_states\<rparr>, [])"
    by (simp add: appendPreciseInvalidationEvents_def Let_def rmap_def second_graph_def
      roots_by_descendant_def trace_loop.simps(2) sample_children_def kids_def trace_kid_def
      enqueue_kid_def sadd_def jkeys_def sort_by_def)
  show ?thesis
    using second_validate second_replay emb su inh pre
    by (simp add: append_events_def seq Let_def second_uniqueRefs sample_e_values)
qed

definition second_body :: manifest where
  "second_body = \<lparr>mf_id = ''artifact-repository-u'', mf_revision = 2, mf_created = 5,
     mf_updated = 9, mf_artifacts = samples @ [sample_e],
     mf_events = [sample_event1, sample_event2], mf_hash = []\<rparr>"

definition second_manifest :: manifest where
  "second_manifest = second_body\<lparr>mf_hash := ''sha256:'' @ sample_digest\<rparr>"

lemma second_js_ok: "js_ok (JObj (manifest_body second_body))"
  using js_ok_sample
  by (simp add: manifest_body_def second_body_def samples_def sample_a_def sample_b_def
      sample_c_def sample_d_def sample_e_def)

lemma second_seal: "sealManifest sample_platform second_body = Inr second_manifest"
  by (simp add: sealManifest_def sample_hash [OF second_js_ok] lift_type_def rmap_def
      second_manifest_def)

lemma sample_e_size: "pretty_bound 4 (envelope_json sample_e) \<le> 10000"
  by (simp add: sample_json sample_producer_def sample_e_def sample_artifact_def)

lemma second_size:
  "utf8_length (pretty 0 (manifest_json second_manifest)) + 1 \<le> max_repository_bytes"
proof -
  have "iso_string 9 = ''1970-01-01T00:00:00.009Z''" by code_simp
  then have "pretty_bound 0 (manifest_json second_manifest) \<le> 1000000"
    using sample_artifact_size sample_event_size sample_e_size
    by (simp add: manifest_json_def manifest_body_def second_manifest_def second_body_def
        samples_def sample_times show_digits text_cost_simps)
  with pretty_cost [of 0 "manifest_json second_manifest"] show ?thesis
    by (simp add: max_repository_bytes_def)
qed

lemma second_run:
  "\<exists>r. appendProjectResearchArtifacts sample_platform second_input (Some sample_manifest)
     = Inr (Some second_manifest, r) \<and> ar_persisted r"
proof -
  have nf: "in_normal_form sample_platform sample_e"
    unfolding sample_e_def using sample_ids
    by (intro normal_sample) (simp_all add: parents_ok_def id_ok_def text_ok_def id_pattern_def
        id_char_def is_alnum_def is_upper_def is_lower_def is_digit_def js_trim_def is_space_def)
  then have sup: "normalizeSuppliedArtifacts sample_platform [sample_e] = Inr [sample_e]"
    by (simp add: normalizeSuppliedArtifacts_def supply_step_def in_normal_form_def rmap_def jvals_def)
  have fields: "mf_artifacts sample_manifest = samples" "mf_revision sample_manifest = 1"
    "mf_events sample_manifest = [sample_event1, sample_event2]" "mf_id sample_manifest = ''artifact-repository-u''"
    "mf_created sample_manifest = 5" "mf_updated sample_manifest = 5"
    by (simp_all add: sample_manifest_def sample_body_def)
  have part: "partition_step sample_platform \<lparr>pt_byKey = of_keys envelope_key samples,
       pt_appended = [], pt_idempotent = []\<rparr> sample_e
     = Inr \<lparr>pt_byKey = jset ''e@1'' sample_e (of_keys envelope_key samples),
         pt_appended = [sample_e], pt_idempotent = []\<rparr>"
    by (simp add: partition_step_def of_keys_def samples_def sample_e_values)
  have body: "\<lparr>mf_id = ''artifact-repository-u'', mf_revision = 2, mf_created = 5, mf_updated = 9,
      mf_artifacts = samples @ [sample_e], mf_events = [sample_event1, sample_event2], mf_hash = []\<rparr>
    = second_body" by (simp add: second_body_def)
  have w: "writeManifestAtomically second_manifest = Inr (Some second_manifest)"
    using second_size by (simp add: writeManifestAtomically_def)
  have "materializeArtifacts sample_platform (samples @ [sample_e]) [sample_event1, sample_event2]
      = traverse (materialize second_states) (samples @ [sample_e])"
    using second_validate second_replay by (simp add: materializeArtifacts_def)
  moreover have "\<exists>as. traverse (materialize second_states) (samples @ [sample_e]) = Inr as"
    by (simp add: samples_def materialize_def second_states_def sample_states_def sample_e_values)
  ultimately obtain sn where sn: "snapshotOf sample_platform second_manifest = Inr sn"
    by (auto simp: snapshotOf_def second_manifest_def second_body_def rmap_def)
  show ?thesis
    by (simp add: appendProjectResearchArtifacts_def second_input_def sup rmap_def
        normalizeExpectedRevision_def max_safe_integer_def sample_read assertExpectedRevision_def
        fields part assertTransactionTime_def second_events body second_seal w sn)
qed

theorem append_extends_repository_witness:
  "mf_revision second_manifest = mf_revision sample_manifest + 1
     \<and> strict_prefix (mf_artifacts sample_manifest) (mf_artifacts second_manifest)"
proof -
  obtain r where r: "appendProjectResearchArtifacts sample_platform second_input (Some sample_manifest)
     = Inr (Some second_manifest, r)" "ar_persisted r" using second_run by blast
  have u: "uuid_ok (ai_uuid second_input)" using sample_uuid by (simp add: second_input_def sample_input_def)
  from append_extends_repository [OF platform_ok_sample u r sample_read] show ?thesis by auto
qed


theorem build_graph_correct_witness:
  "acyclic (lineage samples)"
proof -
  from sample_build build_graph_edges [OF sample_build]
  have "\<exists>g. buildResearchArtifactGraph char_list_le samples = Inr g
      \<and> adj_edges (g_children g) = lineage samples \<and> adj_edges (g_inval_children g) = causal samples
      \<and> (g_missing g = [] \<longleftrightarrow> missing_parents samples = {})" by blast
  then show ?thesis unfolding build_graph_correct by blast
qed

end
