(* ===== verification/Director_Types.thy ===== *)
theory Director_Types
  imports Artifact_Graph
begin

text \<open>
  \<open>src/research/director/types.ts\<close> and \<open>records.ts\<close>: goals, capabilities, budgets,
  permission snapshots, approval receipts, actions, batches, blocked boundaries, plan and
  decision records, their JSON and the identifiers derived from it. Unit and millisecond
  amounts are exact integers; texts of dates are the ISO texts the code keeps.
\<close>

section \<open>Enumerations\<close>

datatype confirmation = Zotero_write | Export | Snapshot | Final_title | Budget_auto

datatype decision_kind = Branch | Eliminate | Rescan | Revise | Recover | Stop

datatype plan_mode = Advance_mode | Repair_mode

datatype action_intent = Advance_intent | Recompute_intent | Revise_intent

datatype access = Allow | Deny

datatype approval_status = Approved | Denied

datatype boundary_kind =
    Capability_unavailable | Permission_denied | Confirmation_required | Confirmation_denied
  | Budget_exceeded | Duration_exceeded | Missing_dependency | Missing_capability

datatype receipt_status = Succeeded | Failed | Blocked | Cancelled

datatype outcome =
    Progressed | Candidate_supported | Candidate_rejected | Evidence_incomplete
  | Artifact_revision_required | Objective_satisfied

fun confirmation_text :: "confirmation \<Rightarrow> string" where
  "confirmation_text Zotero_write = ''zotero_write''"
| "confirmation_text Export = ''export''"
| "confirmation_text Snapshot = ''snapshot''"
| "confirmation_text Final_title = ''final_title''"
| "confirmation_text Budget_auto = ''budget_auto''"

fun decision_text :: "decision_kind \<Rightarrow> string" where
  "decision_text Branch = ''branch''"
| "decision_text Eliminate = ''eliminate''"
| "decision_text Rescan = ''rescan''"
| "decision_text Revise = ''revise''"
| "decision_text Recover = ''recover''"
| "decision_text Stop = ''stop''"

fun mode_text :: "plan_mode \<Rightarrow> string" where
  "mode_text Advance_mode = ''advance''"
| "mode_text Repair_mode = ''repair''"

fun intent_text :: "action_intent \<Rightarrow> string" where
  "intent_text Advance_intent = ''advance''"
| "intent_text Recompute_intent = ''recompute''"
| "intent_text Revise_intent = ''revise''"

fun access_text :: "access \<Rightarrow> string" where
  "access_text Allow = ''allow''"
| "access_text Deny = ''deny''"

fun approval_text :: "approval_status \<Rightarrow> string" where
  "approval_text Approved = ''approved''"
| "approval_text Denied = ''denied''"

fun boundary_text :: "boundary_kind \<Rightarrow> string" where
  "boundary_text Capability_unavailable = ''capability_unavailable''"
| "boundary_text Permission_denied = ''permission_denied''"
| "boundary_text Confirmation_required = ''confirmation_required''"
| "boundary_text Confirmation_denied = ''confirmation_denied''"
| "boundary_text Budget_exceeded = ''budget_exceeded''"
| "boundary_text Duration_exceeded = ''duration_exceeded''"
| "boundary_text Missing_dependency = ''missing_dependency''"
| "boundary_text Missing_capability = ''missing_capability''"

fun receipt_status_text :: "receipt_status \<Rightarrow> string" where
  "receipt_status_text Succeeded = ''succeeded''"
| "receipt_status_text Failed = ''failed''"
| "receipt_status_text Blocked = ''blocked''"
| "receipt_status_text Cancelled = ''cancelled''"

fun outcome_text :: "outcome \<Rightarrow> string" where
  "outcome_text Progressed = ''progressed''"
| "outcome_text Candidate_supported = ''candidate_supported''"
| "outcome_text Candidate_rejected = ''candidate_rejected''"
| "outcome_text Evidence_incomplete = ''evidence_incomplete''"
| "outcome_text Artifact_revision_required = ''artifact_revision_required''"
| "outcome_text Objective_satisfied = ''objective_satisfied''"

section \<open>Records\<close>

record goal =
  goal_objective :: string
  goal_constraints :: "string list option"
  goal_criteria :: "string list option"

record capability =
  cap_id :: string
  cap_tool :: string
  cap_operation :: string
  cap_available :: bool
  cap_reason :: "string option"
  cap_parallel :: bool
  cap_accepts :: "artifact_kind list"
  cap_produces :: "artifact_kind list"
  cap_depends :: "string list option"
  cap_cost :: int
  cap_duration :: int
  cap_boundary :: "confirmation option"

record budget =
  bud_limit :: int
  bud_spent :: int
  bud_limit_ms :: "int option"
  bud_spent_ms :: "int option"

record permissions =
  perm_default :: access
  perm_allowed :: "string list option"
  perm_denied :: "string list option"

record approval =
  appr_id :: string
  appr_boundary :: confirmation
  appr_capability :: "string option"
  appr_status :: approval_status
  appr_by :: string
  appr_at :: string

text \<open>A boundary before its identifier is computed, and with it.\<close>

record boundary_value =
  bv_kind :: boundary_kind
  bv_detail :: string
  bv_capability :: "string option"
  bv_action :: "string option"
  bv_confirmation :: "confirmation option"
  bv_artifacts :: "artifact_ref list"
  bv_findings :: "artifact_ref list"

record boundary = boundary_value +
  bv_id :: string

record action =
  act_id :: string
  act_capability :: string
  act_tool :: string
  act_operation :: string
  act_intent :: action_intent
  act_inputs :: "artifact_ref list"
  act_targets :: "artifact_ref list"
  act_findings :: "artifact_ref list"
  act_produces :: "artifact_kind list"
  act_depends :: "string list"
  act_parallel :: bool
  act_cost :: int
  act_duration :: int
  act_confirmation :: "confirmation option"
  act_blocked :: "string list"

record batch =
  bat_id :: string
  bat_actions :: "string list"
  bat_parallel :: bool
  bat_cost :: int
  bat_duration :: int

record projection =
  proj_available :: int
  proj_planned :: int
  proj_available_ms :: "int option"
  proj_planned_ms :: int

record plan_body =
  plan_id :: string
  plan_created :: string
  plan_mode :: plan_mode
  plan_goal :: goal
  plan_state_hash :: string
  plan_capability_hash :: string
  plan_artifacts :: "artifact_ref list"
  plan_stale :: "artifact_ref list"
  plan_findings :: "artifact_ref list"
  plan_actions :: "action list"
  plan_batches :: "batch list"
  plan_boundaries :: "boundary list"
  plan_projection :: projection

record plan = plan_body +
  plan_audit :: string

record receipt_error =
  rerr_code :: string
  rerr_message :: string
  rerr_retryable :: bool

record receipt =
  rec_id :: string
  rec_plan :: string
  rec_action :: string
  rec_capability :: string
  rec_status :: receipt_status
  rec_outcome :: "outcome option"
  rec_outputs :: "artifact_ref list"
  rec_cost :: int
  rec_duration :: int
  rec_completed :: string
  rec_error :: "receipt_error option"

record decision_body =
  dec_id :: string
  dec_plan :: string
  dec_created :: string
  dec_kind :: decision_kind
  dec_rationale :: string
  dec_receipts :: "string list"
  dec_completed :: "string list"
  dec_retry :: "string list"
  dec_discarded :: "string list"
  dec_next :: "string list"
  dec_outputs :: "artifact_ref list"
  dec_findings :: "artifact_ref list"
  dec_boundaries :: "boundary list"
  dec_cost :: int
  dec_duration :: int

record decision = decision_body +
  dec_audit :: string

record plan_input =
  pi_goal :: goal
  pi_artifacts :: "envelope list"
  pi_findings :: "envelope list option"
  pi_capabilities :: "capability list"
  pi_budget :: budget
  pi_permissions :: permissions
  pi_approvals :: "approval list option"
  pi_id :: "string option"
  pi_now :: int

record decision_input =
  di_plan :: plan
  di_receipts :: "receipt list"
  di_approvals :: "approval list option"
  di_id :: "string option"
  di_now :: int

section \<open>JSON\<close>

definition opt_list_entry :: "string \<Rightarrow> string list option \<Rightarrow> (string \<times> js) list" where
  "opt_list_entry k m = (case m of None \<Rightarrow> [] | Some vs \<Rightarrow> [(k, JArr (map JStr vs))])"

definition opt_int_entry :: "string \<Rightarrow> int option \<Rightarrow> (string \<times> js) list" where
  "opt_int_entry k m = (case m of None \<Rightarrow> [] | Some i \<Rightarrow> [(k, JInt i)])"

definition texts_json :: "string list \<Rightarrow> js" where
  "texts_json vs = JArr (map JStr vs)"

definition refs_json :: "artifact_ref list \<Rightarrow> js" where
  "refs_json rs = JArr (map ref_json rs)"

definition goal_json :: "goal \<Rightarrow> js" where
  "goal_json g = JObj ((''objective'', JStr (goal_objective g))
     # opt_list_entry ''constraints'' (goal_constraints g)
     @ opt_list_entry ''successCriteria'' (goal_criteria g))"

definition capability_json :: "capability \<Rightarrow> js" where
  "capability_json c = JObj
     ([(''capabilityId'', JStr (cap_id c)), (''toolName'', JStr (cap_tool c)),
       (''operation'', JStr (cap_operation c)), (''available'', JBool (cap_available c))]
      @ opt_entry ''unavailableReason'' (cap_reason c)
      @ [(''concurrencySafe'', JBool (cap_parallel c)),
         (''accepts'', texts_json (map kind_text (cap_accepts c))),
         (''produces'', texts_json (map kind_text (cap_produces c)))]
      @ opt_list_entry ''dependsOnCapabilityIds'' (cap_depends c)
      @ [(''estimatedCostUnits'', JInt (cap_cost c)), (''estimatedDurationMs'', JInt (cap_duration c))]
      @ opt_entry ''confirmationBoundary'' (map_option confirmation_text (cap_boundary c)))"

definition budget_json :: "budget \<Rightarrow> js" where
  "budget_json b = JObj
     ([(''limitUnits'', JInt (bud_limit b)), (''spentUnits'', JInt (bud_spent b))]
      @ opt_int_entry ''limitDurationMs'' (bud_limit_ms b)
      @ opt_int_entry ''spentDurationMs'' (bud_spent_ms b))"

definition permissions_json :: "permissions \<Rightarrow> js" where
  "permissions_json p = JObj
     ((''defaultAccess'', JStr (access_text (perm_default p)))
      # opt_list_entry ''allowedCapabilityIds'' (perm_allowed p)
      @ opt_list_entry ''deniedCapabilityIds'' (perm_denied p))"

definition approval_json :: "approval \<Rightarrow> js" where
  "approval_json a = JObj
     ([(''receiptId'', JStr (appr_id a)), (''boundary'', JStr (confirmation_text (appr_boundary a)))]
      @ opt_entry ''capabilityId'' (appr_capability a)
      @ [(''status'', JStr (approval_text (appr_status a))), (''decidedBy'', JStr (appr_by a)),
         (''decidedAt'', JStr (appr_at a))])"

definition boundary_entries :: "'a boundary_value_scheme \<Rightarrow> (string \<times> js) list" where
  "boundary_entries v =
     [(''kind'', JStr (boundary_text (bv_kind v))), (''detail'', JStr (bv_detail v))]
      @ opt_entry ''capabilityId'' (bv_capability v) @ opt_entry ''actionId'' (bv_action v)
      @ opt_entry ''confirmationBoundary'' (map_option confirmation_text (bv_confirmation v))
      @ [(''artifactRefs'', refs_json (bv_artifacts v)), (''findingRefs'', refs_json (bv_findings v))]"

definition boundary_json :: "boundary \<Rightarrow> js" where
  "boundary_json b = JObj ((''boundaryId'', JStr (bv_id b)) # boundary_entries b)"

definition action_json :: "action \<Rightarrow> js" where
  "action_json a = JObj
     ([(''actionId'', JStr (act_id a)), (''capabilityId'', JStr (act_capability a)),
       (''toolName'', JStr (act_tool a)), (''operation'', JStr (act_operation a)),
       (''intent'', JStr (intent_text (act_intent a))),
       (''inputArtifactRefs'', refs_json (act_inputs a)),
       (''targetArtifactRefs'', refs_json (act_targets a)),
       (''findingRefs'', refs_json (act_findings a)),
       (''produces'', texts_json (map kind_text (act_produces a))),
       (''dependsOnActionIds'', texts_json (act_depends a)),
       (''concurrencySafe'', JBool (act_parallel a)),
       (''estimatedCostUnits'', JInt (act_cost a)), (''estimatedDurationMs'', JInt (act_duration a))]
      @ opt_entry ''confirmationBoundary'' (map_option confirmation_text (act_confirmation a))
      @ [(''blockedBoundaryIds'', texts_json (act_blocked a))])"

definition batch_json :: "batch \<Rightarrow> js" where
  "batch_json b = JObj
     [(''batchId'', JStr (bat_id b)), (''actionIds'', texts_json (bat_actions b)),
      (''concurrencySafe'', JBool (bat_parallel b)), (''estimatedCostUnits'', JInt (bat_cost b)),
      (''estimatedDurationMs'', JInt (bat_duration b))]"

definition projection_json :: "projection \<Rightarrow> js" where
  "projection_json p = JObj
     ([(''availableUnits'', JInt (proj_available p)), (''plannedUnits'', JInt (proj_planned p))]
      @ opt_int_entry ''availableDurationMs'' (proj_available_ms p)
      @ [(''plannedDurationMs'', JInt (proj_planned_ms p))])"

definition plan_entries :: "'a plan_body_scheme \<Rightarrow> (string \<times> js) list" where
  "plan_entries p =
     [(''schemaVersion'', JInt 1), (''recordKind'', JStr ''research_director_plan''),
      (''planId'', JStr (plan_id p)), (''createdAt'', JStr (plan_created p)),
      (''mode'', JStr (mode_text (plan_mode p))), (''goal'', goal_json (plan_goal p)),
      (''stateHash'', JStr (plan_state_hash p)),
      (''capabilitySnapshotHash'', JStr (plan_capability_hash p)),
      (''artifactRefs'', refs_json (plan_artifacts p)),
      (''staleArtifactRefs'', refs_json (plan_stale p)),
      (''unresolvedFindingRefs'', refs_json (plan_findings p)),
      (''actions'', JArr (map action_json (plan_actions p))),
      (''readyBatches'', JArr (map batch_json (plan_batches p))),
      (''blockedBoundaries'', JArr (map boundary_json (plan_boundaries p))),
      (''budgetProjection'', projection_json (plan_projection p))]"

definition plan_json :: "plan \<Rightarrow> js" where
  "plan_json p = JObj (plan_entries p @ [(''auditHash'', JStr (plan_audit p))])"

definition decision_entries :: "'a decision_body_scheme \<Rightarrow> (string \<times> js) list" where
  "decision_entries d =
     [(''schemaVersion'', JInt 1), (''recordKind'', JStr ''research_director_decision''),
      (''decisionId'', JStr (dec_id d)), (''planId'', JStr (dec_plan d)),
      (''createdAt'', JStr (dec_created d)), (''decision'', JStr (decision_text (dec_kind d))),
      (''rationale'', JStr (dec_rationale d)), (''consumedReceiptIds'', texts_json (dec_receipts d)),
      (''completedActionIds'', texts_json (dec_completed d)),
      (''retryActionIds'', texts_json (dec_retry d)),
      (''discardedActionIds'', texts_json (dec_discarded d)),
      (''nextActionIds'', texts_json (dec_next d)),
      (''outputArtifactRefs'', refs_json (dec_outputs d)),
      (''findingRefs'', refs_json (dec_findings d)),
      (''blockedBoundaries'', JArr (map boundary_json (dec_boundaries d))),
      (''actualCostUnits'', JInt (dec_cost d)), (''actualDurationMs'', JInt (dec_duration d))]"

named_theorems json_defs \<open>the JSON of the director's records\<close>

lemmas director_json_defs [json_defs] =
  goal_json_def capability_json_def budget_json_def permissions_json_def approval_json_def
  boundary_entries_def boundary_json_def action_json_def batch_json_def projection_json_def
  plan_entries_def plan_json_def decision_entries_def opt_list_entry_def opt_int_entry_def
  texts_json_def refs_json_def ref_json_def opt_entry_def

section \<open>Sealing and identifiers\<close>

definition sealDirectorPlanRecord :: "platform \<Rightarrow> plan_body \<Rightarrow> (canon_error, plan) result" where
  "sealDirectorPlanRecord pf b =
     rmap (plan_body.extend b \<circ> plan.fields)
       (hashResearchArtifactContent pf (JObj (plan_entries b)))"

definition sealDirectorDecisionRecord ::
  "platform \<Rightarrow> decision_body \<Rightarrow> (canon_error, decision) result" where
  "sealDirectorDecisionRecord pf b =
     rmap (decision_body.extend b \<circ> decision.fields)
       (hashResearchArtifactContent pf (JObj (decision_entries b)))"

text \<open>
  \<open>directorRecordId\<close> is only applied to values that serialise (\<open>record_id_defined\<close> below
  gives its value on those), so the branch for a throwing hash is never taken.
\<close>

definition directorRecordId :: "platform \<Rightarrow> string \<Rightarrow> js \<Rightarrow> string" where
  "directorRecordId pf tag v =
     (case hashResearchArtifactContent pf v of
        Inl _ \<Rightarrow> tag @ ''-''
      | Inr h \<Rightarrow> tag @ CHR ''-'' # take 24 (drop 7 h))"

lemma record_id_defined:
  assumes "js_ok v"
  obtains h where "hashResearchArtifactContent pf v = Inr h"
    "directorRecordId pf tag v = tag @ CHR ''-'' # take 24 (drop 7 h)"
  using hash_total [OF assms, of pf] by (auto simp: directorRecordId_def)

lemma refs_json_ok [simp]: "js_ok (refs_json rs)"
  by (simp add: refs_json_def list_all_iff ref_json_def)

lemma texts_json_ok [simp]: "js_ok (texts_json vs)"
  by (simp add: texts_json_def list_all_iff)

lemma opt_entries_ok [simp]:
  "list_all (\<lambda>e. js_ok (snd e)) (opt_entry k m)"
  "list_all (\<lambda>e. js_ok (snd e)) (opt_list_entry k' m')"
  "list_all (\<lambda>e. js_ok (snd e)) (opt_int_entry k'' m'')"
  by (cases m; cases m'; cases m'';
      simp add: opt_entry_def opt_list_entry_def opt_int_entry_def list_all_iff)+

lemma boundary_entries_ok [simp]: "js_ok (JObj (boundary_entries v))"
  by (simp add: boundary_entries_def)

end
