(* ===== verification/Director_Validation.thy ===== *)
theory Director_Validation
  imports Director_Types
begin

text \<open>
  \<open>src/research/director/validation.ts\<close>: what the planner accepts. Every normaliser
  returns the value it froze or the error it threw; the checks the TypeScript types already
  make (a field is an array, an enumeration member) are the types of the model. An
  argument \<open>dp\<close> is \<open>Date.parse\<close>, \<open>None\<close> standing for \<open>NaN\<close>.
\<close>

datatype director_error =
    Unsafe_identifier string
  | Unbounded_text string
  | Unbounded_list string
  | Negative_number string
  | Invalid_date string
  | Reason_required nat
  | Duplicate_entries string
  | Capability_duplicated string
  | Capability_needs_itself string
  | Capability_needs_unknown string string
  | Capability_cycle graph_error
  | Budget_overspent
  | Duration_unpaired
  | Duration_overspent
  | Allowed_and_denied string
  | Approval_duplicated string
  | Invalid_reference string
  | Invalid_reference_revision string
  | Invalid_reference_hash string
  | Reference_duplicated string string
  | Receipt_duplicated string
  | Receipt_of_other_plan string
  | Receipt_of_unknown_action string string
  | Action_received_twice string
  | Receipt_of_blocked_action string string
  | Receipt_of_other_capability string string
  | Success_with_error string
  | Failure_without_error string
  | Plan_hash_invalid
  | Plan_hash_mismatch
  | Artifact_conflict string
  | Graph_rejected graph_error
  | Action_cycle
  | Fixed_stage_field string
  | Not_canonical canon_error

section \<open>Scalars\<close>

definition safeIdentifier :: "string \<Rightarrow> string \<Rightarrow> (director_error, string) result" where
  "safeIdentifier v label =
     (if id_pattern v \<and> length v \<le> 256 then Inr v else Inl (Unsafe_identifier label))"

definition boundedText :: "string \<Rightarrow> string \<Rightarrow> nat \<Rightarrow> (director_error, string) result" where
  "boundedText v label maximum =
     (if js_trim v = [] \<or> v \<noteq> js_trim v \<or> CHR 0x00 \<in> set v \<or> length v > maximum
      then Inl (Unbounded_text label) else Inr v)"

definition at_index :: "string \<Rightarrow> nat \<Rightarrow> string" where
  "at_index label i = label @ CHR ''['' # show_nat i @ '']''"

text \<open>\<open>values.map((v, index) => f(v, index))\<close> with a throwing \<open>f\<close>.\<close>

definition map_indexed ::
  "(nat \<Rightarrow> 'a \<Rightarrow> ('e, 'b) result) \<Rightarrow> 'a list \<Rightarrow> ('e, 'b list) result" where
  "map_indexed f xs = traverse (\<lambda>(i, x). f i x) (zip [0..<length xs] xs)"

definition textList :: "string list \<Rightarrow> string \<Rightarrow> (director_error, string list) result" where
  "textList vs label =
     (if length vs > 256 then Inl (Unbounded_list label)
      else map_indexed (\<lambda>i v. boundedText v (at_index label i) 8000) vs)"

definition nonNegativeNumber :: "int \<Rightarrow> string \<Rightarrow> (director_error, int) result" where
  "nonNegativeNumber v label = (if v < 0 then Inl (Negative_number label) else Inr v)"

definition isoDate ::
  "(string \<Rightarrow> int option) \<Rightarrow> string \<Rightarrow> string \<Rightarrow> (director_error, string) result" where
  "isoDate dp v label =
     (case dp v of None \<Rightarrow> Inl (Invalid_date label) | Some ms \<Rightarrow> Inr (iso_string ms))"

definition compareText :: "platform \<Rightarrow> string \<Rightarrow> string \<Rightarrow> bool" where
  "compareText pf x y = pf_le pf x y"

definition uniqueIdentifiers ::
  "platform \<Rightarrow> string list \<Rightarrow> string \<Rightarrow> (director_error, string list) result" where
  "uniqueIdentifiers pf vs label =
     (if length vs > 1000 then Inl (Unbounded_list label)
      else rbind (map_indexed (\<lambda>i v. safeIdentifier v (at_index label i)) vs) (\<lambda>ids.
        if \<not> distinct ids then Inl (Duplicate_entries label)
        else Inr (sort_by (compareText pf) ids)))"

definition uniqueArtifactKinds ::
  "platform \<Rightarrow> artifact_kind list \<Rightarrow> string \<Rightarrow> (director_error, artifact_kind list) result" where
  "uniqueArtifactKinds pf ks label =
     (if \<not> distinct ks then Inl (Duplicate_entries label)
      else Inr (sort_by (\<lambda>x y. compareText pf (kind_text x) (kind_text y)) ks))"

section \<open>Goal and capabilities\<close>

definition normalizeGoal :: "goal \<Rightarrow> (director_error, goal) result" where
  "normalizeGoal g =
     rbind (optional (\<lambda>vs. textList vs ''goal.constraints'') (goal_constraints g)) (\<lambda>cs.
     rbind (optional (\<lambda>vs. textList vs ''goal.successCriteria'') (goal_criteria g)) (\<lambda>ss.
     rbind (boundedText (goal_objective g) ''goal.objective'' 16000) (\<lambda>ob.
       Inr \<lparr>goal_objective = ob, goal_constraints = cs, goal_criteria = ss\<rparr>)))"

definition cap_label :: "nat \<Rightarrow> string \<Rightarrow> string" where
  "cap_label i field = at_index ''capabilities'' i @ CHR ''.'' # field"

definition cap_needs :: "capability \<Rightarrow> string list" where
  "cap_needs c = (case cap_depends c of None \<Rightarrow> [] | Some ds \<Rightarrow> ds)"

definition normalizeCapability ::
  "platform \<Rightarrow> nat \<Rightarrow> capability \<Rightarrow> (director_error, capability) result" where
  "normalizeCapability pf i c =
     rbind (optional (\<lambda>v. boundedText v (cap_label i ''unavailableReason'') 4000) (cap_reason c)) (\<lambda>reason.
     rbind (require (cap_available c \<or> reason \<noteq> None) (Reason_required i)) (\<lambda>_.
     rbind (case cap_depends c of None \<Rightarrow> Inr []
            | Some ds \<Rightarrow> uniqueIdentifiers pf ds (cap_label i ''dependsOnCapabilityIds'')) (\<lambda>deps.
     rbind (safeIdentifier (cap_id c) (cap_label i ''capabilityId'')) (\<lambda>cid.
     rbind (safeIdentifier (cap_tool c) (cap_label i ''toolName'')) (\<lambda>tool.
     rbind (safeIdentifier (cap_operation c) (cap_label i ''operation'')) (\<lambda>oper.
     rbind (uniqueArtifactKinds pf (cap_accepts c) (cap_label i ''accepts'')) (\<lambda>accepts.
     rbind (uniqueArtifactKinds pf (cap_produces c) (cap_label i ''produces'')) (\<lambda>produces.
     rbind (nonNegativeNumber (cap_cost c) (cap_label i ''estimatedCostUnits'')) (\<lambda>cost.
     rbind (nonNegativeNumber (cap_duration c) (cap_label i ''estimatedDurationMs'')) (\<lambda>dur.
       Inr \<lparr>cap_id = cid, cap_tool = tool, cap_operation = oper, cap_available = cap_available c,
            cap_reason = reason, cap_parallel = cap_parallel c, cap_accepts = accepts,
            cap_produces = produces, cap_depends = Some deps, cap_cost = cost,
            cap_duration = dur, cap_boundary = cap_boundary c\<rparr>))))))))))"

text \<open>The three loops of \<open>normalizeCapabilities\<close> after the normalisation itself.\<close>

fun distinct_capabilities :: "string list \<Rightarrow> capability list \<Rightarrow> (director_error, string list) result" where
  "distinct_capabilities ids [] = Inr ids"
| "distinct_capabilities ids (c # cs) =
     (if cap_id c \<in> set ids then Inl (Capability_duplicated (cap_id c))
      else distinct_capabilities (sadd (cap_id c) ids) cs)"

definition known_dependency :: "string list \<Rightarrow> capability \<Rightarrow> string \<Rightarrow> (director_error, unit) result" where
  "known_dependency ids c d =
     (if d = cap_id c then Inl (Capability_needs_itself (cap_id c))
      else if d \<notin> set ids then Inl (Capability_needs_unknown (cap_id c) d) else Inr ())"

definition capability_graph :: "capability list \<Rightarrow> adjacency" where
  "capability_graph cs = foldl (\<lambda>m c. jset (cap_id c) (cap_needs c) m) [] cs"

definition assertCapabilityGraphAcyclic ::
  "platform \<Rightarrow> capability list \<Rightarrow> (director_error, unit) result" where
  "assertCapabilityGraphAcyclic pf cs =
     (let ch = capability_graph cs in
      case visit ch [] [] (sort_by (compareText pf) (jkeys ch)) of
        Inl e \<Rightarrow> Inl (Capability_cycle e)
      | Inr _ \<Rightarrow> Inr ())"

definition normalizeCapabilities ::
  "platform \<Rightarrow> capability list \<Rightarrow> (director_error, capability list) result" where
  "normalizeCapabilities pf vs =
     (if length vs > 1000 then Inl (Unbounded_list ''capabilities'')
      else
        rbind (map_indexed (normalizeCapability pf) vs) (\<lambda>cs.
        rbind (distinct_capabilities [] cs) (\<lambda>ids.
        rbind (traverse (\<lambda>c. traverse (known_dependency ids c) (cap_needs c)) cs) (\<lambda>_.
        rbind (assertCapabilityGraphAcyclic pf cs) (\<lambda>_.
          Inr (sort_by (\<lambda>c d. compareText pf (cap_id c) (cap_id d)) cs))))))"

section \<open>Budget, permissions and approvals\<close>

definition normalizeBudget :: "budget \<Rightarrow> (director_error, budget) result" where
  "normalizeBudget b =
     rbind (nonNegativeNumber (bud_limit b) ''budget.limitUnits'') (\<lambda>limit.
     rbind (nonNegativeNumber (bud_spent b) ''budget.spentUnits'') (\<lambda>spent.
     rbind (require (\<not> spent > limit) Budget_overspent) (\<lambda>_.
     rbind (optional (\<lambda>v. nonNegativeNumber v ''budget.limitDurationMs'') (bud_limit_ms b)) (\<lambda>limit_ms.
     rbind (optional (\<lambda>v. nonNegativeNumber v ''budget.spentDurationMs'') (bud_spent_ms b)) (\<lambda>spent_ms.
     rbind (require ((limit_ms = None) = (spent_ms = None)) Duration_unpaired) (\<lambda>_.
     rbind (require (\<not> (limit_ms \<noteq> None \<and> spent_ms \<noteq> None \<and> the spent_ms > the limit_ms))
              Duration_overspent) (\<lambda>_.
       Inr \<lparr>bud_limit = limit, bud_spent = spent, bud_limit_ms = limit_ms,
            bud_spent_ms = (case limit_ms of None \<Rightarrow> None | Some _ \<Rightarrow> spent_ms)\<rparr>)))))))"

definition or_empty :: "'a list option \<Rightarrow> 'a list" where
  "or_empty m = (case m of None \<Rightarrow> [] | Some xs \<Rightarrow> xs)"

definition normalizePermissions ::
  "platform \<Rightarrow> permissions \<Rightarrow> (director_error, permissions) result" where
  "normalizePermissions pf p =
     rbind (uniqueIdentifiers pf (or_empty (perm_allowed p)) ''permissions.allowedCapabilityIds'') (\<lambda>allowed.
     rbind (uniqueIdentifiers pf (or_empty (perm_denied p)) ''permissions.deniedCapabilityIds'') (\<lambda>denied.
     rbind (traverse (\<lambda>i. require (i \<notin> set allowed) (Allowed_and_denied i)) denied) (\<lambda>_.
       Inr \<lparr>perm_default = perm_default p, perm_allowed = Some allowed, perm_denied = Some denied\<rparr>)))"

fun normalize_approvals ::
  "(string \<Rightarrow> int option) \<Rightarrow> nat \<Rightarrow> string list \<Rightarrow> approval list \<Rightarrow> (director_error, approval list) result"
where
  "normalize_approvals dp i ids [] = Inr []"
| "normalize_approvals dp i ids (a # as) =
     (let label = at_index ''approvals'' i in
      rbind (safeIdentifier (appr_id a) (label @ ''.receiptId'')) (\<lambda>rid.
      rbind (require (rid \<notin> set ids) (Approval_duplicated rid)) (\<lambda>_.
      rbind (optional (\<lambda>v. safeIdentifier v (label @ ''.capabilityId'')) (appr_capability a)) (\<lambda>cid.
      rbind (boundedText (appr_by a) (label @ ''.decidedBy'') 1000) (\<lambda>decider.
      rbind (isoDate dp (appr_at a) (label @ ''.decidedAt'')) (\<lambda>decided.
      rbind (normalize_approvals dp (Suc i) (sadd rid ids) as) (\<lambda>rest.
        Inr (\<lparr>appr_id = rid, appr_boundary = appr_boundary a, appr_capability = cid,
              appr_status = appr_status a, appr_by = decider, appr_at = decided\<rparr> # rest))))))))"

definition normalizeApprovalReceipts ::
  "(string \<Rightarrow> int option) \<Rightarrow> approval list option \<Rightarrow> (director_error, approval list) result" where
  "normalizeApprovalReceipts dp vs =
     (if length (or_empty vs) > 1000 then Inl (Unbounded_list ''approvals'')
      else normalize_approvals dp 0 [] (or_empty vs))"

section \<open>References\<close>

text \<open>
  References reach \<open>normalizeRef\<close> from typed inputs and from artifact payloads, so it reads
  a JavaScript value.
\<close>

fun entry :: "string \<Rightarrow> js \<Rightarrow> js" where
  "entry k (JObj es) = (case jget es k of None \<Rightarrow> JUndefined | Some v \<Rightarrow> v)"
| "entry k _ = JUndefined"

definition all_kinds :: "artifact_kind list" where
  "all_kinds = [Evidence_pack, Candidate_portfolio, Literature_novelty_rescan, Challenge_report,
     Decision_record, Research_brief, Method_spec, Implementation_snapshot, Experiment_spec,
     Execution_grant, Run_attempt, Baseline_observation, Metric_observation, Figure_table,
     Citation_set, Manuscript_version, Render_run, Review_round, Finding, Revision_decision]"

definition kind_of_text :: "string \<Rightarrow> artifact_kind option" where
  "kind_of_text s = find (\<lambda>k. kind_text k = s) all_kinds"

fun kind_of_value :: "js \<Rightarrow> artifact_kind option" where
  "kind_of_value (JStr s) = kind_of_text s"
| "kind_of_value _ = None"

definition normalizeRefValue :: "js \<Rightarrow> string \<Rightarrow> (director_error, artifact_ref) result" where
  "normalizeRefValue v label =
     (case kind_of_value (entry ''kind'' v) of
        None \<Rightarrow> Inl (Invalid_reference label)
      | Some k \<Rightarrow>
          (case entry ''revision'' v of
             JInt r \<Rightarrow>
               if r > max_safe_integer \<or> r < 1 then Inl (Invalid_reference_revision label)
               else (case entry ''contentHash'' v of
                  JStr h \<Rightarrow>
                    if \<not> hash_ok h then Inl (Invalid_reference_hash label)
                    else (case entry ''artifactId'' v of
                        JStr i \<Rightarrow>
                          rbind (safeIdentifier i (label @ ''.artifactId'')) (\<lambda>i.
                            Inr \<lparr>ref_id = i, ref_revision = r, ref_kind = Stored k, ref_hash = h\<rparr>)
                      | _ \<Rightarrow> Inl (Unsafe_identifier (label @ ''.artifactId'')))
                | _ \<Rightarrow> Inl (Invalid_reference_hash label))
           | _ \<Rightarrow> Inl (Invalid_reference_revision label)))"

definition refKey :: "artifact_ref \<Rightarrow> string" where
  "refKey r = ref_kind_text (ref_kind r) @ CHR '':'' # ref_id r @ CHR ''@''
     # show_int (ref_revision r) @ CHR '':'' # ref_hash r"

definition compareRefKeys :: "platform \<Rightarrow> artifact_ref \<Rightarrow> artifact_ref \<Rightarrow> bool" where
  "compareRefKeys pf x y = compareText pf (refKey x) (refKey y)"

fun unique_ref_values ::
  "string \<Rightarrow> nat \<Rightarrow> (string, artifact_ref) jmap \<Rightarrow> js list \<Rightarrow> (director_error, (string, artifact_ref) jmap) result"
where
  "unique_ref_values label i m [] = Inr m"
| "unique_ref_values label i m (v # vs) =
     rbind (normalizeRefValue v (at_index label i)) (\<lambda>r.
       if refKey r \<in> fst ` set m then Inl (Reference_duplicated label (refKey r))
       else unique_ref_values label (Suc i) (jset (refKey r) r m) vs)"

definition uniqueRefValues ::
  "platform \<Rightarrow> js list \<Rightarrow> string \<Rightarrow> (director_error, artifact_ref list) result" where
  "uniqueRefValues pf vs label =
     rmap (\<lambda>m. sort_by (compareRefKeys pf) (jvals m)) (unique_ref_values label 0 [] vs)"

section \<open>Execution receipts and plan records\<close>

definition normalize_receipt_error ::
  "string \<Rightarrow> receipt_error \<Rightarrow> (director_error, receipt_error) result" where
  "normalize_receipt_error label e =
     rbind (safeIdentifier (rerr_code e) (label @ ''.error.code'')) (\<lambda>c.
     rbind (boundedText (rerr_message e) (label @ ''.error.message'') 8000) (\<lambda>m.
       Inr \<lparr>rerr_code = c, rerr_message = m, rerr_retryable = rerr_retryable e\<rparr>))"

definition normalize_receipt ::
  "platform \<Rightarrow> (string \<Rightarrow> int option) \<Rightarrow> 'a plan_body_scheme \<Rightarrow> nat \<Rightarrow> string list \<Rightarrow> string list \<Rightarrow> receipt
     \<Rightarrow> (director_error, receipt) result" where
  "normalize_receipt pf dp p i ids actionIds v =
     (let label = at_index ''receipts'' i in
      rbind (safeIdentifier (rec_id v) (label @ ''.receiptId'')) (\<lambda>rid.
      rbind (require (rid \<notin> set ids) (Receipt_duplicated rid)) (\<lambda>_.
      rbind (require (rec_plan v = plan_id p) (Receipt_of_other_plan rid)) (\<lambda>_.
      rbind (safeIdentifier (rec_action v) (label @ ''.actionId'')) (\<lambda>aid.
      case jget (of_keys act_id (plan_actions p)) aid of
        None \<Rightarrow> Inl (Receipt_of_unknown_action rid aid)
      | Some a \<Rightarrow>
          rbind (require (aid \<notin> set actionIds) (Action_received_twice aid)) (\<lambda>_.
          rbind (require (act_blocked a = []) (Receipt_of_blocked_action rid aid)) (\<lambda>_.
          rbind (require (rec_capability v = act_capability a) (Receipt_of_other_capability rid aid)) (\<lambda>_.
          rbind (require (\<not> (rec_status v = Succeeded \<and> rec_error v \<noteq> None)) (Success_with_error rid)) (\<lambda>_.
          rbind (require (\<not> (rec_status v = Failed \<and> rec_error v = None)) (Failure_without_error rid)) (\<lambda>_.
          rbind (optional (normalize_receipt_error label) (rec_error v)) (\<lambda>err.
          rbind (uniqueRefValues pf (map ref_json (rec_outputs v)) (label @ ''.outputArtifactRefs'')) (\<lambda>outs.
          rbind (nonNegativeNumber (rec_cost v) (label @ ''.costUnits'')) (\<lambda>cost.
          rbind (nonNegativeNumber (rec_duration v) (label @ ''.durationMs'')) (\<lambda>dur.
          rbind (isoDate dp (rec_completed v) (label @ ''.completedAt'')) (\<lambda>done_at.
            Inr \<lparr>rec_id = rid, rec_plan = plan_id p, rec_action = aid,
                 rec_capability = act_capability a, rec_status = rec_status v,
                 rec_outcome = rec_outcome v, rec_outputs = outs, rec_cost = cost,
                 rec_duration = dur, rec_completed = done_at, rec_error = err\<rparr>)))))))))))))))"

fun normalize_receipts ::
  "platform \<Rightarrow> (string \<Rightarrow> int option) \<Rightarrow> 'a plan_body_scheme \<Rightarrow> nat \<Rightarrow> string list \<Rightarrow> string list \<Rightarrow> receipt list
     \<Rightarrow> (director_error, receipt list) result" where
  "normalize_receipts pf dp p i ids actionIds [] = Inr []"
| "normalize_receipts pf dp p i ids actionIds (v # vs) =
     rbind (normalize_receipt pf dp p i ids actionIds v) (\<lambda>r.
     rbind (normalize_receipts pf dp p (Suc i) (sadd (rec_id r) ids) (sadd (rec_action r) actionIds) vs) (\<lambda>rs.
       Inr (r # rs)))"

definition normalizeExecutionReceipts ::
  "platform \<Rightarrow> (string \<Rightarrow> int option) \<Rightarrow> receipt list \<Rightarrow> 'a plan_body_scheme
     \<Rightarrow> (director_error, receipt list) result" where
  "normalizeExecutionReceipts pf dp vs p =
     (if length vs > 10000 then Inl (Unbounded_list ''receipts'')
      else rmap (sort_by (\<lambda>x y. compareText pf (rec_id x) (rec_id y)))
             (normalize_receipts pf dp p 0 [] [] vs))"

definition lift_director :: "(canon_error, 'a) result \<Rightarrow> (director_error, 'a) result" where
  "lift_director m = (case m of Inl e \<Rightarrow> Inl (Not_canonical e) | Inr x \<Rightarrow> Inr x)"

definition assertPlanRecord ::
  "platform \<Rightarrow> (string \<Rightarrow> int option) \<Rightarrow> plan \<Rightarrow> (director_error, plan) result" where
  "assertPlanRecord pf dp p =
     rbind (safeIdentifier (plan_id p) ''plan.planId'') (\<lambda>_.
     rbind (isoDate dp (plan_created p) ''plan.createdAt'') (\<lambda>_.
     rbind (require (hash_ok (plan_audit p)) Plan_hash_invalid) (\<lambda>_.
     rbind (lift_director (hashResearchArtifactContent pf (JObj (plan_entries p)))) (\<lambda>h.
     rbind (require (h = plan_audit p) Plan_hash_mismatch) (\<lambda>_.
       Inr p)))))"

section \<open>Confirmation boundaries, permissions and approvals of a capability\<close>

definition lower_char :: "char \<Rightarrow> char" where
  "lower_char c = (if is_upper c then char_of ((of_char c :: nat) + 32) else c)"

definition slug_char :: "char \<Rightarrow> bool" where
  "slug_char c \<longleftrightarrow> is_lower c \<or> is_digit c"

text \<open>
  \<open>replace(/[^a-z0-9]+/gu, "_")\<close> after lower-casing. Lower-casing a letter outside ASCII
  gives a character the pattern replaces, so only the ASCII letters matter.
\<close>

function slug :: "string \<Rightarrow> string" where
  "slug [] = []"
| "slug (c # cs) =
     (if slug_char c then c # slug cs
      else CHR ''_'' # slug (dropWhile (\<lambda>d. \<not> slug_char d) cs))"
  by pat_completeness auto
termination
  by (relation "measure length") (auto simp: less_Suc_eq_le length_dropWhile_le)

function split_words :: "string \<Rightarrow> string list" where
  "split_words [] = []"
| "split_words (c # cs) =
     (if c = CHR ''_'' then split_words cs
      else (c # takeWhile (\<lambda>d. d \<noteq> CHR ''_'') cs) # split_words (dropWhile (\<lambda>d. d \<noteq> CHR ''_'') cs))"
  by pat_completeness auto
termination
  by (relation "measure length") (auto simp: less_Suc_eq_le length_dropWhile_le)

fun includes_text :: "string \<Rightarrow> string \<Rightarrow> bool" where
  "includes_text [] p \<longleftrightarrow> p = []"
| "includes_text (c # cs) p \<longleftrightarrow> take (length p) (c # cs) = p \<or> includes_text cs p"

definition starts_with :: "string \<Rightarrow> string \<Rightarrow> bool" where
  "starts_with s p \<longleftrightarrow> take (length p) s = p"

definition inferConfirmationBoundary :: "capability \<Rightarrow> confirmation option" where
  "inferConfirmationBoundary c =
     (case cap_boundary c of Some b \<Rightarrow> Some b
      | None \<Rightarrow>
          let normalized = slug (map lower_char
                (cap_id c @ CHR '' '' # cap_tool c @ CHR '' '' # cap_operation c));
              ws = split_words normalized
          in if includes_text normalized ''zotero_write''
                \<or> (''zotero'' \<in> set ws \<and>
                   list_ex (\<lambda>w. w \<in> set ws) [''write'', ''create'', ''update'', ''delete'', ''mutate''])
             then Some Zotero_write
             else if list_ex (\<lambda>w. w = ''export'' \<or> starts_with w ''export'') ws then Some Export
             else if list_ex (\<lambda>w. w = ''snapshot'' \<or> starts_with w ''snapshot'') ws then Some Snapshot
             else if includes_text normalized ''final_title'' \<or> includes_text normalized ''confirm_title''
                \<or> includes_text normalized ''confirmed_title'' \<or> (''final'' \<in> set ws \<and> ''title'' \<in> set ws)
             then Some Final_title
             else if includes_text normalized ''budget_auto'' \<or> includes_text normalized ''auto_budget''
                \<or> (''budget'' \<in> set ws \<and> (''auto'' \<in> set ws \<or> ''automatic'' \<in> set ws))
             then Some Budget_auto
             else None)"

definition capabilityIsAllowed :: "string \<Rightarrow> permissions \<Rightarrow> bool" where
  "capabilityIsAllowed cid p =
     (if cid \<in> set (or_empty (perm_denied p)) then False
      else cid \<in> set (or_empty (perm_allowed p)) \<or> perm_default p = Allow)"

definition approval_order :: "platform \<Rightarrow> approval \<Rightarrow> approval \<Rightarrow> bool" where
  "approval_order pf =
     then_by (\<lambda>l r. compareText pf (appr_at r) (appr_at l))
       (then_by (\<lambda>l r. appr_status r = Denied \<longrightarrow> appr_status l = Denied)
          (\<lambda>l r. compareText pf (appr_id r) (appr_id l)))"

definition approval_covers :: "string \<Rightarrow> confirmation \<Rightarrow> approval \<Rightarrow> bool" where
  "approval_covers cid b a \<longleftrightarrow>
     appr_boundary a = b \<and> (appr_capability a = None \<or> appr_capability a = Some cid)"

definition approvalFor ::
  "platform \<Rightarrow> string \<Rightarrow> confirmation \<Rightarrow> approval list \<Rightarrow> approval option" where
  "approvalFor pf cid b as =
     (case sort_by (approval_order pf) (filter (approval_covers cid b) as) of
        [] \<Rightarrow> None | a # _ \<Rightarrow> Some a)"

end
