(* ===== verification/Director_Planner.thy ===== *)
theory Director_Planner
  imports Director_Validation
begin

text \<open>
  The planning half of \<open>src/research/director/planner.ts\<close>. The plan under construction is
  two insertion-ordered maps. The code shares mutable action objects between the map and
  its groupings; the groupings are only used for identifiers and, while they are in use,
  for fields that do not change, so here they hold identifiers and an action is read from
  and written back to the map.
\<close>

section \<open>The plan under construction\<close>

record mutable_action =
  ma_id :: string
  ma_cap :: capability
  ma_intent :: action_intent
  ma_inputs :: "(string, artifact_ref) jmap"
  ma_targets :: "(string, artifact_ref) jmap"
  ma_findings :: "(string, artifact_ref) jmap"
  ma_deps :: "string list"
  ma_blocked :: "string list"

record mutable_plan =
  mp_actions :: "(string, mutable_action) jmap"
  mp_boundaries :: "(string, boundary) jmap"

definition createMutableAction ::
  "platform \<Rightarrow> capability \<Rightarrow> action_intent \<Rightarrow> js \<Rightarrow> mutable_action" where
  "createMutableAction pf c intent identity =
     \<lparr>ma_id = directorRecordId pf (''action-'' @ intent_text intent) identity, ma_cap = c,
      ma_intent = intent, ma_inputs = [], ma_targets = [], ma_findings = [], ma_deps = [],
      ma_blocked = []\<rparr>"

definition addBoundary ::
  "platform \<Rightarrow> boundary_value \<Rightarrow> mutable_plan \<Rightarrow> string \<times> mutable_plan" where
  "addBoundary pf v pl =
     (let n = v\<lparr>bv_artifacts := sort_by (compareRefKeys pf) (bv_artifacts v),
               bv_findings := sort_by (compareRefKeys pf) (bv_findings v)\<rparr>;
          bid = directorRecordId pf ''boundary'' (JObj (boundary_entries n));
          b = boundary_value.extend n (boundary.fields bid)
      in (bid, pl\<lparr>mp_boundaries := jset bid b (mp_boundaries pl)\<rparr>))"

definition put_action :: "mutable_action \<Rightarrow> mutable_plan \<Rightarrow> mutable_plan" where
  "put_action a pl = pl\<lparr>mp_actions := jset (ma_id a) a (mp_actions pl)\<rparr>"

definition update_action ::
  "string \<Rightarrow> (mutable_action \<Rightarrow> mutable_action) \<Rightarrow> mutable_plan \<Rightarrow> mutable_plan" where
  "update_action aid f pl =
     (case jget (mp_actions pl) aid of None \<Rightarrow> pl
      | Some a \<Rightarrow> pl\<lparr>mp_actions := jset aid (f a) (mp_actions pl)\<rparr>)"

definition blockAction ::
  "platform \<Rightarrow> string \<Rightarrow> boundary_value \<Rightarrow> mutable_plan \<Rightarrow> mutable_plan" where
  "blockAction pf aid v pl =
     (case addBoundary pf v pl of (bid, pl') \<Rightarrow>
        update_action aid (\<lambda>a. a\<lparr>ma_blocked := sadd bid (ma_blocked a)\<rparr>) pl')"

definition with_action ::
  "(mutable_action \<Rightarrow> mutable_plan \<Rightarrow> mutable_plan) \<Rightarrow> mutable_plan \<Rightarrow> string \<Rightarrow> mutable_plan" where
  "with_action f pl aid = (case jget (mp_actions pl) aid of None \<Rightarrow> pl | Some a \<Rightarrow> f a pl)"

text \<open>\<open>for (const action of mutable.actions.values())\<close>; the bodies keep the key set.\<close>

definition for_actions ::
  "(mutable_action \<Rightarrow> mutable_plan \<Rightarrow> mutable_plan) \<Rightarrow> mutable_plan \<Rightarrow> mutable_plan" where
  "for_actions f pl = foldl (with_action f) pl (jkeys (mp_actions pl))"

text \<open>The boundary of an action, as most callers of \<open>blockAction\<close> describe it.\<close>

definition action_boundary :: "boundary_kind \<Rightarrow> string \<Rightarrow> mutable_action \<Rightarrow> boundary_value" where
  "action_boundary k detail a =
     \<lparr>bv_kind = k, bv_detail = detail, bv_capability = Some (cap_id (ma_cap a)),
      bv_action = Some (ma_id a), bv_confirmation = None,
      bv_artifacts = jvals (ma_targets a), bv_findings = jvals (ma_findings a)\<rparr>"

section \<open>Reading the artifacts\<close>

fun is_record :: "js \<Rightarrow> bool" where
  "is_record (JObj es) = True"
| "is_record _ = False"

fun is_text :: "js \<Rightarrow> bool" where
  "is_text (JStr s) = True"
| "is_text _ = False"

fun is_number :: "js \<Rightarrow> bool" where
  "is_number (JInt i) = True"
| "is_number JNegZero = True"
| "is_number (JDec s) = True"
| "is_number JNonFinite = True"
| "is_number _ = False"

definition isArtifactRef :: "js \<Rightarrow> bool" where
  "isArtifactRef v \<longleftrightarrow> is_record v \<and> is_text (entry ''artifactId'' v)
     \<and> is_number (entry ''revision'' v) \<and> is_text (entry ''kind'' v)
     \<and> is_text (entry ''contentHash'' v)"

text \<open>
  \<open>fullRefKey\<close> of a payload's reference: string interpolation of whatever the fields hold.
  The non-finite numbers print as three words, none of them a decimal; one stands for all.
\<close>

fun interpolated :: "js \<Rightarrow> string" where
  "interpolated (JStr s) = s"
| "interpolated (JInt i) = show_int i"
| "interpolated JNegZero = ''0''"
| "interpolated (JDec s) = s"
| "interpolated JNonFinite = ''NaN''"
| "interpolated _ = []"

definition value_ref_key :: "js \<Rightarrow> string" where
  "value_ref_key v = interpolated (entry ''kind'' v) @ CHR '':'' # interpolated (entry ''artifactId'' v)
     @ CHR ''@'' # interpolated (entry ''revision'' v) @ CHR '':''
     # interpolated (entry ''contentHash'' v)"

fun array_items :: "js \<Rightarrow> js list option" where
  "array_items (JArr vs) = Some vs"
| "array_items _ = None"

definition resolved_keys :: "envelope list \<Rightarrow> string list" where
  "resolved_keys latest = concat (map (\<lambda>a.
     if art_kind a \<noteq> Revision_decision \<or> art_status a \<noteq> Active \<or> \<not> is_record (art_payload a) then []
     else case array_items (entry ''decisions'' (art_payload a)) of None \<Rightarrow> []
       | Some ds \<Rightarrow> map (\<lambda>d. value_ref_key (entry ''findingRef'' d))
            (filter (\<lambda>d. is_record d \<and> isArtifactRef (entry ''findingRef'' d)) ds)) latest)"

definition findUnresolvedFindings :: "envelope list \<Rightarrow> envelope list" where
  "findUnresolvedFindings latest =
     filter (\<lambda>a. art_kind a = Finding \<and> art_status a = Active \<and> is_record (art_payload a)
               \<and> entry ''assessment'' (art_payload a) = JStr ''concern''
               \<and> refKey (toResearchArtifactRef a) \<notin> set (resolved_keys latest)) latest"

definition findingAffectedRefs ::
  "platform \<Rightarrow> envelope \<Rightarrow> (director_error, artifact_ref list) result" where
  "findingAffectedRefs pf a =
     (if \<not> is_record (art_payload a) then Inr []
      else case array_items (entry ''affectedArtifactRefs'' (art_payload a)) of
        None \<Rightarrow> Inr []
      | Some vs \<Rightarrow> uniqueRefValues pf (filter isArtifactRef vs)
                    (''finding '' @ art_id a @ '' affectedArtifactRefs''))"

definition merge_artifact ::
  "(string, envelope) jmap \<Rightarrow> envelope \<Rightarrow> (director_error, (string, envelope) jmap) result" where
  "merge_artifact m a =
     (case jget m (envelope_key a) of
        None \<Rightarrow> Inr (jset (envelope_key a) a m)
      | Some e \<Rightarrow> if art_hash e \<noteq> art_hash a then Inl (Artifact_conflict (envelope_key a))
                 else Inr (jset (envelope_key a) a m))"

definition mergeArtifacts ::
  "platform \<Rightarrow> envelope list \<Rightarrow> envelope list \<Rightarrow> (director_error, envelope list) result" where
  "mergeArtifacts pf artifacts findings =
     rmap (\<lambda>m. sort_by (\<lambda>x y. compareText pf (envelope_key x) (envelope_key y)) (jvals m))
       (rfold merge_artifact [] (artifacts @ findings))"

definition group_push :: "'k \<Rightarrow> 'v \<Rightarrow> ('k, 'v list) jmap \<Rightarrow> ('k, 'v list) jmap" where
  "group_push k v m = jset k (or_empty (jget m k) @ [v]) m"

definition groupActiveArtifactsByKind :: "envelope list \<Rightarrow> (artifact_kind, envelope list) jmap" where
  "groupActiveArtifactsByKind as =
     foldl (\<lambda>m a. if art_status a \<noteq> Active then m else group_push (art_kind a) a m) [] as"

definition capability_score :: "platform \<Rightarrow> permissions \<Rightarrow> approval list \<Rightarrow> capability \<Rightarrow> nat" where
  "capability_score pf p as c =
     (let confirmed = (case inferConfirmationBoundary c of None \<Rightarrow> True
            | Some b \<Rightarrow> (case approvalFor pf (cap_id c) b as of None \<Rightarrow> False
                          | Some a \<Rightarrow> appr_status a = Approved))
      in of_bool (cap_available c) * 4 + of_bool (capabilityIsAllowed (cap_id c) p) * 2
         + of_bool confirmed)"

definition producersByKind ::
  "platform \<Rightarrow> capability list \<Rightarrow> permissions \<Rightarrow> approval list \<Rightarrow> (artifact_kind, capability list) jmap" where
  "producersByKind pf cs p as =
     map (\<lambda>e. (fst e, sort_by (then_by
            (\<lambda>l r. capability_score pf p as r \<le> capability_score pf p as l)
            (\<lambda>l r. compareText pf (cap_id l) (cap_id r))) (snd e)))
       (foldl (\<lambda>m c. foldl (\<lambda>m k. group_push k c m) m (cap_produces c)) [] cs)"

definition preferred_producer ::
  "(artifact_kind, capability list) jmap \<Rightarrow> artifact_kind \<Rightarrow> capability option" where
  "preferred_producer m k = (case or_empty (jget m k) of [] \<Rightarrow> None | c # _ \<Rightarrow> Some c)"

section \<open>Proposing actions\<close>

definition kind_satisfied :: "(artifact_kind, envelope list) jmap \<Rightarrow> artifact_kind \<Rightarrow> bool" where
  "kind_satisfied active k \<longleftrightarrow> or_empty (jget active k) \<noteq> []"

definition add_advance_action ::
  "platform \<Rightarrow> (artifact_kind, envelope list) jmap \<Rightarrow> mutable_plan \<Rightarrow> capability \<Rightarrow> mutable_plan" where
  "add_advance_action pf active pl c =
     (if cap_produces c = [] then pl
      else if list_all (kind_satisfied active) (cap_produces c) then pl
      else put_action (createMutableAction pf c Advance_intent
             (JObj [(''capabilityId'', JStr (cap_id c))])) pl)"

definition addAdvanceActions ::
  "platform \<Rightarrow> capability list \<Rightarrow> (artifact_kind, envelope list) jmap \<Rightarrow> mutable_plan \<Rightarrow> mutable_plan" where
  "addAdvanceActions pf cs active pl = foldl (add_advance_action pf active) pl cs"

definition target_identity :: "capability \<Rightarrow> artifact_ref \<Rightarrow> js" where
  "target_identity c r = JObj [(''capabilityId'', JStr (cap_id c)), (''target'', ref_json r)]"

definition add_recompute_action ::
  "platform \<Rightarrow> (artifact_kind, capability list) jmap \<Rightarrow> mutable_plan \<Rightarrow> envelope \<Rightarrow> mutable_plan" where
  "add_recompute_action pf producers pl a =
     (let r = toResearchArtifactRef a in
      case preferred_producer producers (art_kind a) of
        None \<Rightarrow> snd (addBoundary pf
          \<lparr>bv_kind = Missing_capability,
           bv_detail = ''No capability can recompute stale artifact '' @ refKey r @ ''.'',
           bv_capability = None, bv_action = None, bv_confirmation = None,
           bv_artifacts = [r], bv_findings = []\<rparr> pl)
      | Some c \<Rightarrow>
          let m = createMutableAction pf c Recompute_intent (target_identity c r) in
          put_action (m\<lparr>ma_targets := jset (refKey r) r (ma_targets m)\<rparr>) pl)"

definition effective_target :: "(string, envelope) jmap \<Rightarrow> artifact_ref \<Rightarrow> artifact_ref" where
  "effective_target latestByKey t =
     (case jget latestByKey (researchArtifactKey t) of
        None \<Rightarrow> t | Some a \<Rightarrow> toResearchArtifactRef a)"

definition add_revise_action ::
  "platform \<Rightarrow> (string, envelope) jmap \<Rightarrow> (artifact_kind, capability list) jmap \<Rightarrow> artifact_ref
     \<Rightarrow> mutable_plan \<Rightarrow> artifact_ref \<Rightarrow> mutable_plan" where
  "add_revise_action pf latestByKey producers fr pl t =
     (let e = effective_target latestByKey t in
      case (case ref_kind e of Claim_node \<Rightarrow> None | Stored k \<Rightarrow> preferred_producer producers k) of
        None \<Rightarrow> snd (addBoundary pf
          \<lparr>bv_kind = Missing_capability,
           bv_detail = ''No capability can revise artifact '' @ refKey e @ '' for finding '' @ refKey fr @ ''.'',
           bv_capability = None, bv_action = None, bv_confirmation = None,
           bv_artifacts = [e], bv_findings = [fr]\<rparr> pl)
      | Some c \<Rightarrow>
          let m = (case find (\<lambda>x. cap_id (ma_cap x) = cap_id c \<and> refKey e \<in> fst ` set (ma_targets x))
                          (jvals (mp_actions pl)) of
                     Some x \<Rightarrow> x
                   | None \<Rightarrow> createMutableAction pf c Revise_intent (target_identity c e))
          in put_action (m\<lparr>ma_targets := jset (refKey e) e (ma_targets m),
                          ma_findings := jset (refKey fr) fr (ma_findings m)\<rparr>) pl)"

definition add_finding_actions ::
  "platform \<Rightarrow> (string, envelope) jmap \<Rightarrow> (artifact_kind, capability list) jmap
     \<Rightarrow> mutable_plan \<Rightarrow> envelope \<Rightarrow> (director_error, mutable_plan) result" where
  "add_finding_actions pf latestByKey producers pl a =
     (let fr = toResearchArtifactRef a in
      rbind (findingAffectedRefs pf a) (\<lambda>affected.
        if affected = [] then
          Inr (snd (addBoundary pf
            \<lparr>bv_kind = Missing_dependency,
             bv_detail = ''Finding '' @ refKey fr @ '' has no affected artifact reference to revise.'',
             bv_capability = None, bv_action = None, bv_confirmation = None,
             bv_artifacts = [], bv_findings = [fr]\<rparr> pl))
        else Inr (foldl (add_revise_action pf latestByKey producers fr) pl affected)))"

definition addRepairActions ::
  "platform \<Rightarrow> envelope list \<Rightarrow> envelope list \<Rightarrow> (string, envelope) jmap
     \<Rightarrow> (artifact_kind, capability list) jmap \<Rightarrow> mutable_plan \<Rightarrow> (director_error, mutable_plan) result" where
  "addRepairActions pf stale findings latestByKey producers pl =
     rfold (add_finding_actions pf latestByKey producers)
       (foldl (add_recompute_action pf producers) pl stale) findings"

section \<open>Dependencies between actions\<close>

definition groupActionsByCapability :: "(string, mutable_action) jmap \<Rightarrow> (string, string list) jmap" where
  "groupActionsByCapability m =
     foldl (\<lambda>g a. group_push (cap_id (ma_cap a)) (ma_id a) g) [] (jvals m)"

definition groupActionsByProducedKind ::
  "(string, mutable_action) jmap \<Rightarrow> (artifact_kind, string list) jmap" where
  "groupActionsByProducedKind m =
     foldl (\<lambda>g a. foldl (\<lambda>g k. group_push k (ma_id a) g) g (cap_produces (ma_cap a))) [] (jvals m)"

definition groupActionsByTarget :: "(string, mutable_action) jmap \<Rightarrow> (string, string) jmap" where
  "groupActionsByTarget m =
     foldl (\<lambda>g a. foldl (\<lambda>g r. jset (refKey r) (ma_id a) g) g (jvals (ma_targets a))) [] (jvals m)"

definition add_inputs :: "artifact_ref list \<Rightarrow> mutable_action \<Rightarrow> mutable_action" where
  "add_inputs rs a = a\<lparr>ma_inputs := foldl (\<lambda>m r. jset (refKey r) r m) (ma_inputs a) rs\<rparr>"

definition add_deps :: "string list \<Rightarrow> mutable_action \<Rightarrow> mutable_action" where
  "add_deps ids a = a\<lparr>ma_deps := foldl (\<lambda>s i. sadd i s) (ma_deps a) ids\<rparr>"

text \<open>A boundary of the linking pass names no artifact, only the action's findings.\<close>

definition link_boundary :: "string \<Rightarrow> mutable_action \<Rightarrow> boundary_value" where
  "link_boundary detail a = (action_boundary Missing_dependency detail a)\<lparr>bv_artifacts := []\<rparr>"

definition link_kind ::
  "platform \<Rightarrow> (artifact_kind, envelope list) jmap \<Rightarrow> (artifact_kind, string list) jmap \<Rightarrow> string
     \<Rightarrow> mutable_plan \<Rightarrow> artifact_kind \<Rightarrow> mutable_plan" where
  "link_kind pf active byKind aid pl k =
     (let arts = or_empty (jget active k);
          pl1 = update_action aid (add_inputs (map toResearchArtifactRef arts)) pl in
      if arts \<noteq> [] then pl1
      else with_action (\<lambda>a pl.
        let matching = filter (\<lambda>r. ref_kind r = Stored k) (jvals (ma_targets a)) in
        if matching \<noteq> [] then update_action aid (add_inputs matching) pl
        else let producers = filter (\<lambda>i. i \<noteq> aid) (or_empty (jget byKind k)) in
          if producers = [] then
            blockAction pf aid (link_boundary (''Action '' @ aid @ '' requires artifact kind ''
              @ kind_text k @ '', but no active artifact or planned producer exists.'') a) pl
          else update_action aid (add_deps producers) pl) pl1 aid)"

definition link_capability ::
  "platform \<Rightarrow> (artifact_kind, envelope list) jmap \<Rightarrow> (string, capability) jmap
     \<Rightarrow> (string, string list) jmap \<Rightarrow> string \<Rightarrow> mutable_plan \<Rightarrow> string \<Rightarrow> mutable_plan" where
  "link_capability pf active capsById byCap aid pl d =
     (case jget capsById d of None \<Rightarrow> pl
      | Some c \<Rightarrow>
          if cap_produces c \<noteq> [] \<and> list_all (kind_satisfied active) (cap_produces c) then pl
          else let producers = or_empty (jget byCap d) in
            if producers = [] then
              with_action (\<lambda>a. blockAction pf aid (link_boundary (''Action '' @ aid @ '' requires capability ''
                @ d @ '', which has no satisfied output or planned action.'') a)) pl aid
            else update_action aid (add_deps producers) pl)"

definition link_target_parent ::
  "(string, envelope) jmap \<Rightarrow> (string, string) jmap \<Rightarrow> string \<Rightarrow> mutable_plan \<Rightarrow> artifact_parent \<Rightarrow> mutable_plan"
where
  "link_target_parent latestByKey byTarget aid pl p =
     (let fallback = (case jget latestByKey (researchArtifactKey (par_artifact p)) of
            None \<Rightarrow> pl
          | Some b \<Rightarrow> if art_status b = Active
                     then update_action aid (add_inputs [toResearchArtifactRef b]) pl else pl) in
      case jget byTarget (refKey (par_artifact p)) of
        None \<Rightarrow> fallback
      | Some i \<Rightarrow> if i \<noteq> aid then update_action aid (add_deps [i]) pl else fallback)"

definition link_target ::
  "(string, envelope) jmap \<Rightarrow> (string, string) jmap \<Rightarrow> string \<Rightarrow> mutable_plan \<Rightarrow> artifact_ref \<Rightarrow> mutable_plan"
where
  "link_target latestByKey byTarget aid pl r =
     (case jget latestByKey (researchArtifactKey r) of
        None \<Rightarrow> pl
      | Some b \<Rightarrow> foldl (link_target_parent latestByKey byTarget aid) pl (art_parents b))"

definition linkArtifactAndCapabilityDependencies ::
  "platform \<Rightarrow> (artifact_kind, envelope list) jmap \<Rightarrow> capability list \<Rightarrow> (string, envelope) jmap
     \<Rightarrow> mutable_plan \<Rightarrow> mutable_plan" where
  "linkArtifactAndCapabilityDependencies pf active cs latestByKey pl =
     (let capsById = of_keys cap_id cs;
          byCap = groupActionsByCapability (mp_actions pl);
          byKind = groupActionsByProducedKind (mp_actions pl);
          byTarget = groupActionsByTarget (mp_actions pl) in
      for_actions (\<lambda>a pl.
        let aid = ma_id a;
            pl1 = foldl (link_kind pf active byKind aid) pl (cap_accepts (ma_cap a));
            pl2 = foldl (link_capability pf active capsById byCap aid) pl1 (cap_needs (ma_cap a));
            pl3 = foldl (link_target latestByKey byTarget aid) pl2 (jvals (ma_targets a))
        in update_action aid (\<lambda>a. a\<lparr>ma_deps := removeAll aid (ma_deps a)\<rparr>) pl3) pl)"

section \<open>Blocking actions\<close>

definition block_for_capability ::
  "platform \<Rightarrow> approval list \<Rightarrow> permissions \<Rightarrow> mutable_action \<Rightarrow> mutable_plan \<Rightarrow> mutable_plan" where
  "block_for_capability pf as p a pl =
     (let c = ma_cap a;
          pl1 = (if \<not> cap_available c then
                   blockAction pf (ma_id a) (action_boundary Capability_unavailable
                     (case cap_reason c of Some s \<Rightarrow> s
                      | None \<Rightarrow> ''Capability '' @ cap_id c @ '' is unavailable.'') a) pl
                 else pl);
          pl2 = (if \<not> capabilityIsAllowed (cap_id c) p then
                   blockAction pf (ma_id a) (action_boundary Permission_denied
                     (''Capability '' @ cap_id c @ '' is outside the supplied permission snapshot.'') a) pl1
                 else pl1) in
      case inferConfirmationBoundary c of None \<Rightarrow> pl2
      | Some b \<Rightarrow>
          let appr = approvalFor pf (cap_id c) b as;
              denied = (map_option appr_status appr = Some Denied) in
          if appr = None \<or> map_option appr_status appr \<noteq> Some Approved then
            blockAction pf (ma_id a)
              ((action_boundary (if denied then Confirmation_denied else Confirmation_required)
                 (if denied
                  then ''Confirmation '' @ confirmation_text b @ '' was denied for capability '' @ cap_id c @ ''.''
                  else ''Capability '' @ cap_id c @ '' requires explicit '' @ confirmation_text b @ '' confirmation.'')
                 a)\<lparr>bv_confirmation := Some b\<rparr>) pl2
          else pl2)"

definition applyCapabilityBoundaries ::
  "platform \<Rightarrow> approval list \<Rightarrow> permissions \<Rightarrow> mutable_plan \<Rightarrow> mutable_plan" where
  "applyCapabilityBoundaries pf as p pl = for_actions (block_for_capability pf as p) pl"

definition charge_action ::
  "platform \<Rightarrow> mutable_plan \<times> int \<Rightarrow> string \<Rightarrow> mutable_plan \<times> int" where
  "charge_action pf s aid =
     (case s of (pl, remaining) \<Rightarrow>
        case jget (mp_actions pl) aid of None \<Rightarrow> (pl, remaining)
        | Some a \<Rightarrow>
            if ma_blocked a \<noteq> [] then (pl, remaining)
            else if cap_cost (ma_cap a) \<le> remaining then (pl, remaining - cap_cost (ma_cap a))
            else (blockAction pf aid (action_boundary Budget_exceeded
                   (''Action '' @ aid @ '' projects '' @ show_int (cap_cost (ma_cap a))
                    @ '' units with only '' @ show_int remaining @ '' remaining.'') a) pl, remaining))"

definition applyCostBudget :: "platform \<Rightarrow> batch list \<Rightarrow> int \<Rightarrow> mutable_plan \<Rightarrow> mutable_plan" where
  "applyCostBudget pf bs available pl =
     fst (foldl (charge_action pf) (pl, available) (concat (map bat_actions bs)))"

definition fit_action ::
  "platform \<Rightarrow> int \<Rightarrow> mutable_plan \<times> int list \<Rightarrow> string \<Rightarrow> mutable_plan \<times> int list" where
  "fit_action pf remaining s aid =
     (case s of (pl, fitting) \<Rightarrow>
        case jget (mp_actions pl) aid of None \<Rightarrow> (pl, fitting)
        | Some a \<Rightarrow>
            if cap_duration (ma_cap a) \<le> remaining then (pl, fitting @ [cap_duration (ma_cap a)])
            else (blockAction pf aid (action_boundary Duration_exceeded
                   (''Action '' @ aid @ '' projects '' @ show_int (cap_duration (ma_cap a))
                    @ '' ms with only '' @ show_int remaining @ '' ms remaining.'') a) pl, fitting))"

definition fit_batch :: "platform \<Rightarrow> mutable_plan \<times> int \<Rightarrow> batch \<Rightarrow> mutable_plan \<times> int" where
  "fit_batch pf s b =
     (case s of (pl, remaining) \<Rightarrow>
        case foldl (fit_action pf remaining) (pl, []) (bat_actions b) of (pl', fitting) \<Rightarrow>
          (pl', if fitting \<noteq> [] then remaining - Max (set fitting) else remaining))"

definition applyDurationBudget :: "platform \<Rightarrow> batch list \<Rightarrow> int \<Rightarrow> mutable_plan \<Rightarrow> mutable_plan" where
  "applyDurationBudget pf bs available pl = fst (foldl (fit_batch pf) (pl, available) bs)"

text \<open>One pass of the cascade, and whether it blocked anything.\<close>

definition blocked_in :: "mutable_plan \<Rightarrow> string \<Rightarrow> bool" where
  "blocked_in pl i = (case jget (mp_actions pl) i of None \<Rightarrow> False | Some a \<Rightarrow> ma_blocked a \<noteq> [])"

definition cascade_action ::
  "platform \<Rightarrow> mutable_plan \<times> bool \<Rightarrow> string \<Rightarrow> mutable_plan \<times> bool" where
  "cascade_action pf s aid =
     (case s of (pl, changed) \<Rightarrow>
        case jget (mp_actions pl) aid of None \<Rightarrow> (pl, changed)
        | Some a \<Rightarrow>
            if ma_blocked a \<noteq> [] then (pl, changed)
            else case find (blocked_in pl) (ma_deps a) of None \<Rightarrow> (pl, changed)
              | Some d \<Rightarrow>
                  (blockAction pf aid (action_boundary Missing_dependency
                     (''Action '' @ aid @ '' depends on blocked action '' @ d @ ''.'') a) pl, True))"

definition cascade_pass :: "platform \<Rightarrow> mutable_plan \<Rightarrow> mutable_plan \<times> bool" where
  "cascade_pass pf pl = foldl (cascade_action pf) (pl, False) (jkeys (mp_actions pl))"

definition unblocked :: "mutable_plan \<Rightarrow> string set" where
  "unblocked pl = {i \<in> fst ` set (mp_actions pl). \<not> blocked_in pl i}"

lemma update_action_keys [simp]:
  "fst ` set (mp_actions (update_action aid f pl)) = fst ` set (mp_actions pl)"
  by (auto simp: update_action_def split: option.splits dest: jget_in_keys)

lemma update_action_get:
  "jget (mp_actions (update_action aid f pl)) i =
     (if i = aid then map_option f (jget (mp_actions pl) i) else jget (mp_actions pl) i)"
  by (cases "jget (mp_actions pl) aid") (auto simp: update_action_def)

lemma addBoundary_actions [simp]: "mp_actions (snd (addBoundary pf v pl)) = mp_actions pl"
  by (simp add: addBoundary_def Let_def)

definition boundary_id :: "platform \<Rightarrow> boundary_value \<Rightarrow> string" where
  "boundary_id pf v = fst (addBoundary pf v \<lparr>mp_actions = [], mp_boundaries = []\<rparr>)"

lemma addBoundary_id [simp]: "fst (addBoundary pf v pl) = boundary_id pf v"
  by (simp add: boundary_id_def addBoundary_def Let_def)

lemma blockAction_get:
  "jget (mp_actions (blockAction pf aid v pl)) i =
     (if i = aid then map_option (\<lambda>a. a\<lparr>ma_blocked := sadd (boundary_id pf v) (ma_blocked a)\<rparr>)
                        (jget (mp_actions pl) i)
      else jget (mp_actions pl) i)"
  by (simp add: blockAction_def split_beta update_action_get)

lemma blockAction_keys [simp]:
  "fst ` set (mp_actions (blockAction pf aid v pl)) = fst ` set (mp_actions pl)"
  by (simp add: blockAction_def split_beta)

lemma sadd_not_Nil [simp]: "sadd x xs \<noteq> []"
  by (auto simp: sadd_def)

lemma blocked_in_blockAction:
  "blocked_in (blockAction pf aid v pl) i \<longleftrightarrow>
     blocked_in pl i \<or> (i = aid \<and> aid \<in> fst ` set (mp_actions pl))"
  by (cases "jget (mp_actions pl) i")
     (auto simp: blocked_in_def blockAction_get in_keys_jget)

lemma unblocked_blockAction: "unblocked (blockAction pf aid v pl) = unblocked pl - {aid}"
  by (auto simp: unblocked_def blocked_in_blockAction)

lemma finite_unblocked [simp]: "finite (unblocked pl)"
  by (rule finite_subset [of _ "fst ` set (mp_actions pl)"]) (auto simp: unblocked_def)

lemma cascade_action_cases:
  obtains "cascade_action pf (pl, ch) aid = (pl, ch)"
  | a v d where "jget (mp_actions pl) aid = Some a" "ma_blocked a = []" "d \<in> set (ma_deps a)"
      "blocked_in pl d" "cascade_action pf (pl, ch) aid = (blockAction pf aid v pl, True)"
proof (cases "jget (mp_actions pl) aid")
  case None
  then show thesis by (intro that(1)) (simp add: cascade_action_def)
next
  case (Some a)
  show thesis
  proof (cases "ma_blocked a = []")
    case False
    with Some show thesis by (intro that(1)) (simp add: cascade_action_def)
  next
    case True
    show thesis
    proof (cases "find (blocked_in pl) (ma_deps a)")
      case None
      with Some True show thesis by (intro that(1)) (simp add: cascade_action_def)
    next
      case (Some d)
      then have "d \<in> set (ma_deps a)" "blocked_in pl d"
        by (auto simp: find_Some_iff)
      with \<open>jget _ _ = Some a\<close> True Some show thesis
        by (intro that(2)) (auto simp: cascade_action_def)
    qed
  qed
qed

lemma cascade_action_unblocked:
  assumes "cascade_action pf (pl, ch) aid = (pl', ch')"
  shows "unblocked pl' \<subseteq> unblocked pl \<and> (ch' \<longrightarrow> ch \<or> unblocked pl' \<subset> unblocked pl)"
proof (cases rule: cascade_action_cases [of pf pl ch aid])
  case 1
  with assms show ?thesis by simp
next
  case (2 a v d)
  then have "aid \<in> unblocked pl" by (auto simp: unblocked_def blocked_in_def in_keys_jget)
  with 2 assms show ?thesis by (auto simp: unblocked_blockAction)
qed

lemma cascade_fold_unblocked:
  "foldl (cascade_action pf) (pl, ch) ids = (pl', ch') \<Longrightarrow>
     unblocked pl' \<subseteq> unblocked pl \<and> (ch' \<longrightarrow> ch \<or> unblocked pl' \<subset> unblocked pl)"
proof (induction ids arbitrary: pl ch)
  case (Cons i ids)
  obtain pl1 ch1 where s: "cascade_action pf (pl, ch) i = (pl1, ch1)" by fastforce
  from cascade_action_unblocked [OF s] Cons.IH [of pl1 ch1] Cons.prems s
  show ?case by auto
qed simp

lemma cascade_pass_unblocked:
  assumes "cascade_pass pf pl = (pl', True)"
  shows "card (unblocked pl') < card (unblocked pl)"
proof -
  from assms have "foldl (cascade_action pf) (pl, False) (jkeys (mp_actions pl)) = (pl', True)"
    by (simp add: cascade_pass_def)
  from cascade_fold_unblocked [OF this] show ?thesis by (auto intro!: psubset_card_mono)
qed

text \<open>The \<open>while (changed)\<close> loop: each pass that changes something blocks an action.\<close>

function cascadeBlockedDependencies :: "platform \<Rightarrow> mutable_plan \<Rightarrow> mutable_plan" where
  "cascadeBlockedDependencies pf pl =
     (let (pl', changed) = cascade_pass pf pl in
      if changed then cascadeBlockedDependencies pf pl' else pl')"
  by pat_completeness auto
termination
  by (relation "measure (\<lambda>(pf, pl). card (unblocked pl))")
     (auto intro: cascade_pass_unblocked dest: sym)

declare cascadeBlockedDependencies.simps [simp del]

section \<open>Batches\<close>

definition make_batch :: "platform \<Rightarrow> nat \<Rightarrow> mutable_action list \<Rightarrow> batch" where
  "make_batch pf n chosen =
     \<lparr>bat_id = ''batch-'' @ pad_left 3 (show_nat (n + 1)),
      bat_actions = sort_by (compareText pf) (map ma_id chosen),
      bat_parallel = list_all (\<lambda>a. cap_parallel (ma_cap a)) chosen,
      bat_cost = sum_list (map (\<lambda>a. cap_cost (ma_cap a)) chosen),
      bat_duration = Max (set (map (\<lambda>a. cap_duration (ma_cap a)) chosen))\<rparr>"

definition ready_actions :: "string list \<Rightarrow> mutable_action list \<Rightarrow> mutable_action list" where
  "ready_actions completed eligible =
     filter (\<lambda>a. ma_id a \<notin> set completed
               \<and> list_all (\<lambda>d. d \<in> set completed)
                    (filter (\<lambda>d. d \<in> set (map ma_id eligible)) (ma_deps a))) eligible"

definition select_ready :: "mutable_action list \<Rightarrow> mutable_action list" where
  "select_ready ready =
     (let parallel = filter (\<lambda>a. cap_parallel (ma_cap a)) ready in
      if parallel \<noteq> [] then parallel else [hd ready])"

definition mark_completed :: "string list \<Rightarrow> mutable_action list \<Rightarrow> string list" where
  "mark_completed completed chosen = foldl (\<lambda>s a. sadd (ma_id a) s) completed chosen"

lemma set_foldl_sadd_id: "set (foldl (\<lambda>s a. sadd (f a) s) c xs) = set c \<union> f ` set xs"
  by (induction xs arbitrary: c) auto

lemma set_mark_completed [simp]: "set (mark_completed c chosen) = set c \<union> ma_id ` set chosen"
  by (simp add: mark_completed_def set_foldl_sadd_id)

lemma select_ready_subset: "ready \<noteq> [] \<Longrightarrow> set (select_ready ready) \<subseteq> set ready"
  by (auto simp: select_ready_def Let_def)

lemma select_ready_not_Nil [simp]: "select_ready ready \<noteq> []"
  by (simp add: select_ready_def Let_def)

function batch_loop ::
  "platform \<Rightarrow> mutable_action list \<Rightarrow> string list \<Rightarrow> batch list \<Rightarrow> (director_error, batch list) result"
where
  "batch_loop pf eligible completed acc =
     (if \<not> length completed < length eligible then Inr acc
      else let ready = ready_actions completed eligible in
        if ready = [] then Inl Action_cycle
        else let chosen = select_ready ready in
          batch_loop pf eligible (mark_completed completed chosen) (acc @ [make_batch pf (length acc) chosen]))"
  by pat_completeness auto
termination
proof (relation "measure (\<lambda>(pf, el, c, acc). card (ma_id ` set el - set c))", goal_cases)
  case 1
  show ?case by simp
next
  case (2 pf el c acc ready chosen)
  from 2 have "chosen \<noteq> []" by simp
  then obtain a where a: "a \<in> set chosen" by (cases chosen) auto
  then have "a \<in> set el \<and> ma_id a \<notin> set c"
    using 2 select_ready_subset [of ready] by (auto simp: ready_actions_def)
  with a have "ma_id ` set el - (set c \<union> ma_id ` set chosen) \<subset> ma_id ` set el - set c" by auto
  then show ?case by (simp add: psubset_card_mono)
qed

declare batch_loop.simps [simp del]

definition eligible_actions :: "platform \<Rightarrow> (string, mutable_action) jmap \<Rightarrow> mutable_action list" where
  "eligible_actions pf m =
     sort_by (\<lambda>x y. compareText pf (ma_id x) (ma_id y)) (filter (\<lambda>a. ma_blocked a = []) (jvals m))"

definition createReadyBatches ::
  "platform \<Rightarrow> (string, mutable_action) jmap \<Rightarrow> (director_error, batch list) result" where
  "createReadyBatches pf m = batch_loop pf (eligible_actions pf m) [] []"

section \<open>The plan record\<close>

definition freeze_action :: "platform \<Rightarrow> mutable_action \<Rightarrow> action" where
  "freeze_action pf a =
     \<lparr>act_id = ma_id a, act_capability = cap_id (ma_cap a), act_tool = cap_tool (ma_cap a),
      act_operation = cap_operation (ma_cap a), act_intent = ma_intent a,
      act_inputs = sort_by (compareRefKeys pf) (jvals (ma_inputs a)),
      act_targets = sort_by (compareRefKeys pf) (jvals (ma_targets a)),
      act_findings = sort_by (compareRefKeys pf) (jvals (ma_findings a)),
      act_produces = cap_produces (ma_cap a),
      act_depends = sort_by (compareText pf) (ma_deps a),
      act_parallel = cap_parallel (ma_cap a), act_cost = cap_cost (ma_cap a),
      act_duration = cap_duration (ma_cap a),
      act_confirmation = inferConfirmationBoundary (ma_cap a),
      act_blocked = sort_by (compareText pf) (ma_blocked a)\<rparr>"

definition freezeActions :: "platform \<Rightarrow> (string, mutable_action) jmap \<Rightarrow> action list" where
  "freezeActions pf m =
     map (freeze_action pf) (sort_by (\<lambda>x y. compareText pf (ma_id x) (ma_id y)) (jvals m))"

text \<open>Everything between the proposal of the actions and the frozen plan.\<close>

definition schedule_actions ::
  "platform \<Rightarrow> budget \<Rightarrow> mutable_plan \<Rightarrow> (director_error, mutable_plan \<times> batch list) result" where
  "schedule_actions pf bud pl0 =
     (let pl1 = cascadeBlockedDependencies pf pl0 in
      rbind (createReadyBatches pf (mp_actions pl1)) (\<lambda>b1.
      let pl2 = applyCostBudget pf b1 (bud_limit bud - bud_spent bud) pl1;
          pl3 = cascadeBlockedDependencies pf pl2 in
      rbind (createReadyBatches pf (mp_actions pl3)) (\<lambda>b2.
      case (bud_limit_ms bud, bud_spent_ms bud) of
        (Some limit, Some spent) \<Rightarrow>
          let pl4 = applyDurationBudget pf b2 (limit - spent) pl3;
              pl5 = cascadeBlockedDependencies pf pl4 in
          rbind (createReadyBatches pf (mp_actions pl5)) (\<lambda>b3. Inr (pl5, b3))
      | _ \<Rightarrow> Inr (pl3, b2))))"

definition missing_parent_boundary :: "platform \<Rightarrow> mutable_plan \<Rightarrow> artifact_ref \<Rightarrow> mutable_plan" where
  "missing_parent_boundary pf pl r = snd (addBoundary pf
     \<lparr>bv_kind = Missing_dependency,
      bv_detail = ''Artifact graph is missing referenced parent '' @ refKey r @ ''.'',
      bv_capability = None, bv_action = None, bv_confirmation = None,
      bv_artifacts = [r], bv_findings = []\<rparr> pl)"

definition propose_actions ::
  "platform \<Rightarrow> permissions \<Rightarrow> approval list \<Rightarrow> capability list \<Rightarrow> envelope list \<Rightarrow> artifact_ref list
     \<Rightarrow> (director_error, mutable_plan) result" where
  "propose_actions pf perms apprs caps latest missing =
     (let latestByKey = of_keys envelope_key latest;
          active = groupActiveArtifactsByKind latest;
          stale = filter (\<lambda>a. art_status a = Stale) latest;
          findings = findUnresolvedFindings latest;
          producers = producersByKind pf caps perms apprs;
          pl0 = foldl (missing_parent_boundary pf) \<lparr>mp_actions = [], mp_boundaries = []\<rparr> missing in
      rbind (if stale \<noteq> [] \<or> findings \<noteq> []
             then addRepairActions pf stale findings latestByKey producers pl0
             else Inr (addAdvanceActions pf caps active pl0)) (\<lambda>pl1.
        Inr (applyCapabilityBoundaries pf apprs perms
               (linkArtifactAndCapabilityDependencies pf active caps latestByKey pl1))))"

definition lift_graph :: "(graph_error, 'a) result \<Rightarrow> (director_error, 'a) result" where
  "lift_graph m = (case m of Inl e \<Rightarrow> Inl (Graph_rejected e) | Inr x \<Rightarrow> Inr x)"

definition director_hash :: "platform \<Rightarrow> js \<Rightarrow> (director_error, string) result" where
  "director_hash pf v = lift_director (hashResearchArtifactContent pf v)"

definition state_json :: "goal \<Rightarrow> envelope list \<Rightarrow> artifact_ref list \<Rightarrow> js" where
  "state_json g latest findings = JObj
     [(''goal'', goal_json g),
      (''artifacts'', JArr (map (\<lambda>a. JObj [(''ref'', ref_json (toResearchArtifactRef a)),
                                       (''status'', JStr (status_text (art_status a)))]) latest)),
      (''unresolvedFindingRefs'', refs_json findings)]"

text \<open>The hashes, the identifier and the frozen record at the end of \<open>createResearchDirectorPlan\<close>.\<close>

definition project_budget :: "budget \<Rightarrow> action list \<Rightarrow> batch list \<Rightarrow> projection" where
  "project_budget bud actions batches =
     \<lparr>proj_available = bud_limit bud - bud_spent bud,
      proj_planned = sum_list (map act_cost (filter (\<lambda>a. act_blocked a = []) actions)),
      proj_available_ms = (case (bud_limit_ms bud, bud_spent_ms bud) of
         (Some l, Some s) \<Rightarrow> Some (l - s) | _ \<Rightarrow> None),
      proj_planned_ms = sum_list (map bat_duration batches)\<rparr>"

definition assemble_plan ::
  "platform \<Rightarrow> plan_input \<Rightarrow> goal \<Rightarrow> capability list \<Rightarrow> budget \<Rightarrow> permissions \<Rightarrow> approval list
     \<Rightarrow> envelope list \<Rightarrow> mutable_plan \<Rightarrow> batch list \<Rightarrow> (director_error, plan) result" where
  "assemble_plan pf inp g caps bud perms apprs latest pl batches =
     (let stale = filter (\<lambda>a. art_status a = Stale) latest;
          findings = findUnresolvedFindings latest;
          actions = freezeActions pf (mp_actions pl);
          sort_refs = (\<lambda>as. sort_by (compareRefKeys pf) (map toResearchArtifactRef as)) in
      rbind (director_hash pf (JArr (map capability_json caps))) (\<lambda>caps_hash.
      rbind (director_hash pf (state_json g latest (sort_refs findings))) (\<lambda>state_hash.
      rbind (case pi_id inp of
               None \<Rightarrow> Inr (directorRecordId pf ''director-plan'' (JObj
                 [(''goal'', goal_json g), (''stateHash'', JStr state_hash),
                  (''capabilitySnapshotHash'', JStr caps_hash), (''budget'', budget_json bud),
                  (''permissions'', permissions_json perms),
                  (''approvals'', JArr (map approval_json apprs))]))
             | Some i \<Rightarrow> safeIdentifier i ''planId'') (\<lambda>pid.
        lift_director (sealDirectorPlanRecord pf
          \<lparr>plan_id = pid, plan_created = iso_string (pi_now inp),
           plan_mode = (if stale \<noteq> [] \<or> findings \<noteq> [] then Repair_mode else Advance_mode),
           plan_goal = g, plan_state_hash = state_hash, plan_capability_hash = caps_hash,
           plan_artifacts = sort_refs latest, plan_stale = sort_refs stale,
           plan_findings = sort_refs findings, plan_actions = actions, plan_batches = batches,
           plan_boundaries = sort_by (\<lambda>x y. compareText pf (bv_id x) (bv_id y)) (jvals (mp_boundaries pl)),
           plan_projection = project_budget bud actions batches\<rparr>)))))"

definition createResearchDirectorPlan ::
  "platform \<Rightarrow> (string \<Rightarrow> int option) \<Rightarrow> plan_input \<Rightarrow> (director_error, plan) result" where
  "createResearchDirectorPlan pf dp inp =
     rbind (normalizeGoal (pi_goal inp)) (\<lambda>g.
     rbind (normalizeCapabilities pf (pi_capabilities inp)) (\<lambda>caps.
     rbind (normalizeBudget (pi_budget inp)) (\<lambda>bud.
     rbind (normalizePermissions pf (pi_permissions inp)) (\<lambda>perms.
     rbind (normalizeApprovalReceipts dp (pi_approvals inp)) (\<lambda>apprs.
     rbind (mergeArtifacts pf (pi_artifacts inp) (or_empty (pi_findings inp))) (\<lambda>artifacts.
     rbind (lift_graph (buildResearchArtifactGraph (pf_le pf) artifacts)) (\<lambda>graph.
     let latest = latestResearchArtifactRevisions (pf_le pf) artifacts in
     rbind (propose_actions pf perms apprs caps latest (g_missing graph)) (\<lambda>pl0.
     rbind (schedule_actions pf bud pl0) (\<lambda>(pl, batches).
       assemble_plan pf inp g caps bud perms apprs latest pl batches)))))))))"

end
