(* ===== verification/Director_Schedule.thy ===== *)
theory Director_Schedule
  imports Director_Planner
begin

text \<open>
  The batches of \<open>createReadyBatches\<close>: the loop is described as a schedule of rounds, every
  eligible action is in exactly one round and after its dependencies, the loop ends in the
  cycle error exactly when the dependencies are cyclic, and the schedule of a
  dependency-closed part of the actions is the part of the schedule.
\<close>

section \<open>The loop as a relation\<close>

definition action_ids :: "mutable_action list \<Rightarrow> string set" where
  "action_ids as = ma_id ` set as"

definition needs :: "mutable_action list \<Rightarrow> mutable_action \<Rightarrow> string set" where
  "needs el a = set (ma_deps a) \<inter> action_ids el"

inductive rounds :: "mutable_action list \<Rightarrow> string set \<Rightarrow> mutable_action list list \<Rightarrow> bool" for el where
  rounds_done: "action_ids el \<subseteq> c \<Longrightarrow> rounds el c []"
| rounds_step: "\<not> action_ids el \<subseteq> c \<Longrightarrow>
     ready = filter (\<lambda>a. ma_id a \<notin> c \<and> needs el a \<subseteq> c) el \<Longrightarrow> ready \<noteq> [] \<Longrightarrow>
     rounds el (c \<union> action_ids (select_ready ready)) rs \<Longrightarrow>
     rounds el c (select_ready ready # rs)"

inductive_cases rounds_NilE: "rounds el c []"
inductive_cases rounds_ConsE: "rounds el c (ch # rs)"

fun make_batches :: "platform \<Rightarrow> nat \<Rightarrow> mutable_action list list \<Rightarrow> batch list" where
  "make_batches pf n [] = []"
| "make_batches pf n (ch # rs) = make_batch pf n ch # make_batches pf (Suc n) rs"

lemma length_make_batches [simp]: "length (make_batches pf n rs) = length rs"
  by (induction rs arbitrary: n) auto

lemma ready_actions_set:
  "ready_actions c el = filter (\<lambda>a. ma_id a \<notin> set c \<and> needs el a \<subseteq> set c) el"
  unfolding ready_actions_def needs_def action_ids_def
  by (rule filter_cong) (auto simp: list_all_iff)

lemma card_length_less:
  assumes "distinct (map ma_id el)" "distinct c" "set c \<subseteq> action_ids el"
  shows "length c < length el \<longleftrightarrow> \<not> action_ids el \<subseteq> set c"
proof -
  have "card (action_ids el) = length el"
    using distinct_card [OF assms(1)] by (simp add: action_ids_def)
  moreover have "card (set c) = length c" using assms(2) by (rule distinct_card)
  moreover have "finite (action_ids el)" by (simp add: action_ids_def)
  ultimately show ?thesis
    using assms(3) by (metis card_mono card_subset_eq le_less_linear less_irrefl order_le_less psubset_card_mono subset_antisym)
qed

lemma distinct_mark_completed [simp]: "distinct c \<Longrightarrow> distinct (mark_completed c ch)"
  unfolding mark_completed_def by (induction ch arbitrary: c) auto

lemma chosen_in_eligible:
  "ready_actions c el \<noteq> [] \<Longrightarrow> set (select_ready (ready_actions c el)) \<subseteq> set el"
  using select_ready_subset [of "ready_actions c el"] by (auto simp: ready_actions_def)

text \<open>The loop returns batches exactly when there is a schedule, and never another error.\<close>

lemma batch_loop_rounds:
  assumes "distinct (map ma_id el)" "distinct c" "set c \<subseteq> action_ids el"
  shows "batch_loop pf el c acc = Inr bs \<longleftrightarrow>
           (\<exists>rs. rounds el (set c) rs \<and> bs = acc @ make_batches pf (length acc) rs)"
  using assms
proof (induction pf el c acc rule: batch_loop.induct)
  case (1 pf el c acc)
  note less = card_length_less [OF "1.prems"]
  show ?case
  proof (cases "length c < length el")
    case False
    then have "action_ids el \<subseteq> set c" using less by simp
    then show ?thesis using False
      by (subst batch_loop.simps)
         (auto elim: rounds.cases intro: rounds_done)
  next
    case True
    let ?r = "ready_actions c el"
    show ?thesis
    proof (cases "?r = []")
      case nil: True
      then have "\<not> rounds el (set c) rs" for rs
        using less True by (auto elim: rounds.cases simp: ready_actions_set)
      then show ?thesis using True nil by (subst batch_loop.simps) simp
    next
      case False
      let ?ch = "select_ready ?r"
      have sub: "set (mark_completed c ?ch) \<subseteq> action_ids el"
        using "1.prems"(3) chosen_in_eligible [OF False] by (auto simp: action_ids_def)
      have st: "set (mark_completed c ?ch) = set c \<union> action_ids ?ch"
        by (simp add: action_ids_def)
      have "batch_loop pf el c acc = Inr bs \<longleftrightarrow>
          batch_loop pf el (mark_completed c ?ch) (acc @ [make_batch pf (length acc) ?ch]) = Inr bs"
        using True False by (subst batch_loop.simps) (simp add: Let_def)
      also have "\<dots> \<longleftrightarrow> (\<exists>rs. rounds el (set c \<union> action_ids ?ch) rs \<and>
           bs = acc @ make_batch pf (length acc) ?ch # make_batches pf (Suc (length acc)) rs)"
        using "1.IH" [OF _ refl False refl "1.prems"(1) distinct_mark_completed [OF "1.prems"(2)] sub] True
        by (simp add: action_ids_def)
      also have "\<dots> \<longleftrightarrow> (\<exists>rs. rounds el (set c) rs \<and> bs = acc @ make_batches pf (length acc) rs)"
        (is "?L \<longleftrightarrow> ?R")
      proof
        assume ?L
        then obtain rs where rs: "rounds el (set c \<union> action_ids ?ch) rs"
          "bs = acc @ make_batch pf (length acc) ?ch # make_batches pf (Suc (length acc)) rs" by blast
        have "rounds el (set c) (?ch # rs)"
          using rounds_step [OF _ refl _ rs(1) [unfolded ready_actions_set]] less True False
          by (simp add: ready_actions_set)
        then show ?R using rs(2) by (intro exI [of _ "?ch # rs"]) simp
      next
        assume ?R
        then obtain rs where rs: "rounds el (set c) rs"
          "bs = acc @ make_batches pf (length acc) rs" by blast
        from rs(1) obtain rs' where "rs = ?ch # rs'" "rounds el (set c \<union> action_ids ?ch) rs'"
          using less True by cases (auto simp: ready_actions_set)
        then show ?L using rs(2) by auto
      qed
      finally show ?thesis .
    qed
  qed
qed

lemma batch_loop_error: "batch_loop pf el c acc = Inl e \<Longrightarrow> e = Action_cycle"
proof (induction pf el c acc rule: batch_loop.induct)
  case (1 pf el c acc)
  from "1.prems" show ?case
    by (subst (asm) batch_loop.simps) (auto simp: Let_def split: if_splits dest: "1.IH" [rotated -1])
qed

section \<open>Every eligible action once, after its dependencies\<close>

lemma select_ready_distinct:
  "distinct (map ma_id ready) \<Longrightarrow> distinct (map ma_id (select_ready ready))"
  by (simp add: select_ready_def Let_def distinct_map_filter)

lemma rounds_subset: "rounds el c rs \<Longrightarrow> set (concat rs) \<subseteq> set el"
proof (induction rule: rounds.induct)
  case (rounds_step c ready rs)
  then show ?case using select_ready_subset [of ready] by auto
qed simp

lemma action_ids_Cons [simp]:
  "action_ids (ch @ concat rs) = action_ids ch \<union> action_ids (concat rs)"
  by (auto simp: action_ids_def)

lemma rounds_ids:
  "rounds el c rs \<Longrightarrow> action_ids (concat rs) = action_ids el - c"
proof (induction rule: rounds.induct)
  case (rounds_step c ready rs)
  have "set (select_ready ready) \<subseteq> set ready" using select_ready_subset rounds_step by blast
  with rounds_step have "action_ids (select_ready ready) \<subseteq> action_ids el - c"
    by (auto simp: action_ids_def)
  with rounds_step.IH show ?case by auto
qed (auto simp: action_ids_def)

lemma rounds_distinct:
  "rounds el c rs \<Longrightarrow> distinct (map ma_id el) \<Longrightarrow> distinct (map ma_id (concat rs))"
proof (induction rule: rounds.induct)
  case (rounds_step c ready rs)
  have "distinct (map ma_id ready)" using rounds_step by (simp add: distinct_map_filter)
  then have d: "distinct (map ma_id (select_ready ready))" by (rule select_ready_distinct)
  have "action_ids (concat rs) \<inter> action_ids (select_ready ready) = {}"
    using rounds_ids [OF rounds_step(4)] by auto
  with d rounds_step.IH [OF rounds_step.prems] show ?case
    by (auto simp: action_ids_def)
qed simp

fun ordered :: "mutable_action list \<Rightarrow> string set \<Rightarrow> mutable_action list list \<Rightarrow> bool" where
  "ordered el c [] \<longleftrightarrow> True"
| "ordered el c (ch # rs) \<longleftrightarrow>
     (\<forall>a \<in> set ch. needs el a \<subseteq> c) \<and> ordered el (c \<union> action_ids ch) rs"

lemma rounds_ordered: "rounds el c rs \<Longrightarrow> ordered el c rs"
proof (induction rule: rounds.induct)
  case (rounds_step c ready rs)
  then show ?case using select_ready_subset [of ready] by auto
qed simp

lemma ordered_nth:
  assumes "ordered el c rs" "i < length rs" "a \<in> set (rs ! i)" "d \<in> needs el a"
  shows "d \<in> c \<or> (\<exists>j < i. d \<in> action_ids (rs ! j))"
  using assms
proof (induction rs arbitrary: c i)
  case (Cons ch rs)
  show ?case
  proof (cases i)
    case 0
    with Cons.prems show ?thesis by auto
  next
    case (Suc k)
    with Cons.prems have "d \<in> c \<union> action_ids ch \<or> (\<exists>j < k. d \<in> action_ids (rs ! j))"
      by (intro Cons.IH) auto
    then show ?thesis
    proof (elim disjE exE conjE UnE)
      assume "d \<in> action_ids ch"
      with Suc show ?thesis by (intro disjI2 exI [of _ 0]) simp
    next
      fix j assume "j < k" "d \<in> action_ids (rs ! j)"
      with Suc show ?thesis by (intro disjI2 exI [of _ "Suc j"]) simp
    qed simp
  qed
qed simp

section \<open>Schedules and cycles\<close>

definition dependency :: "mutable_action list \<Rightarrow> (string \<times> string) set" where
  "dependency el = {(d, i). \<exists>a \<in> set el. i = ma_id a \<and> d \<in> needs el a}"

lemma dependency_ids: "(d, i) \<in> dependency el \<Longrightarrow> d \<in> action_ids el \<and> i \<in> action_ids el"
  by (auto simp: dependency_def needs_def action_ids_def)

lemma finite_dependency [simp]: "finite (dependency el)"
  by (rule finite_subset [of _ "action_ids el \<times> action_ids el"])
     (auto dest: dependency_ids simp: action_ids_def)

lemma acyclic_rounds_exist:
  assumes "acyclic (dependency el)"
  shows "\<exists>rs. rounds el c rs"
proof (induction "card (action_ids el - c)" arbitrary: c rule: less_induct)
  case less
  show ?case
  proof (cases "action_ids el \<subseteq> c")
    case True
    then show ?thesis by (blast intro: rounds_done)
  next
    case False
    let ?r = "filter (\<lambda>a. ma_id a \<notin> c \<and> needs el a \<subseteq> c) el"
    have "wf (dependency el)" using assms by (simp add: finite_acyclic_wf)
    with False obtain i where i: "i \<in> action_ids el - c"
      and min: "\<And>d. (d, i) \<in> dependency el \<Longrightarrow> d \<notin> action_ids el - c"
      by (metis DiffI subsetI wfE_min)
    then obtain a where a: "a \<in> set el" "ma_id a = i" by (auto simp: action_ids_def)
    have "needs el a \<subseteq> c"
    proof
      fix d assume "d \<in> needs el a"
      with a have "(d, i) \<in> dependency el" by (auto simp: dependency_def)
      with min dependency_ids show "d \<in> c" by blast
    qed
    with a i have r: "?r \<noteq> []" by (auto simp: filter_empty_conv)
    let ?c' = "c \<union> action_ids (select_ready ?r)"
    obtain b where b: "b \<in> set (select_ready ?r)"
      using select_ready_not_Nil [of ?r] by (cases "select_ready ?r") auto
    then have "b \<in> set ?r" using select_ready_subset [OF r] by blast
    with b have "action_ids el - ?c' \<subset> action_ids el - c" by (auto simp: action_ids_def)
    then have "card (action_ids el - ?c') < card (action_ids el - c)"
      by (simp add: psubset_card_mono action_ids_def)
    from less.hyps [OF this] show ?thesis using rounds_step [OF False refl r] by blast
  qed
qed

lemma in_concat_nth: "x \<in> set (concat rs) \<Longrightarrow> \<exists>k < length rs. x \<in> set (rs ! k)"
  by (auto simp: in_set_conv_nth [of _ rs])

lemma rounds_acyclic:
  assumes R: "rounds el {} rs" and D: "distinct (map ma_id el)"
  shows "acyclic (dependency el)"
proof -
  let ?in = "\<lambda>i k. k < length rs \<and> i \<in> action_ids (rs ! k)"
  define f where "f i = (LEAST k. ?in i k)" for i
  have "f d < f i" if e: "(d, i) \<in> dependency el" for d i
  proof -
    from e obtain a where a: "a \<in> set el" "ma_id a = i" "d \<in> needs el a"
      by (auto simp: dependency_def)
    then have "i \<in> action_ids (concat rs)" using rounds_ids [OF R] by (auto simp: action_ids_def)
    then obtain b where "b \<in> set (concat rs)" "ma_id b = i" by (auto simp: action_ids_def)
    then have "\<exists>k. ?in i k" using in_concat_nth [of b rs] by (auto simp: action_ids_def)
    then have k: "?in i (f i)" unfolding f_def by (rule LeastI_ex)
    then obtain b where b: "b \<in> set (rs ! f i)" "ma_id b = i" by (auto simp: action_ids_def)
    with k have "b \<in> set el" using rounds_subset [OF R] by fastforce
    with a b D have "b = a" by (auto simp: distinct_map inj_on_def)
    with ordered_nth [OF rounds_ordered [OF R], of "f i" b d] k b a
    obtain j where j: "j < f i" "d \<in> action_ids (rs ! j)" by auto
    with k have "f d \<le> j" unfolding f_def by (intro Least_le) auto
    with j show ?thesis by simp
  qed
  then have "dependency el \<subseteq> measure f" by auto
  then show ?thesis by (meson acyclic_subset wf_acyclic wf_measure)
qed

lemma rounds_exist_iff:
  "distinct (map ma_id el) \<Longrightarrow> (\<exists>rs. rounds el {} rs) \<longleftrightarrow> acyclic (dependency el)"
  using rounds_acyclic acyclic_rounds_exist by blast

section \<open>The schedule of a dependency-closed part\<close>

lemma select_ready_filter:
  assumes "filter K (select_ready ready) \<noteq> []" "ready \<noteq> []"
  shows "select_ready (filter K ready) = filter K (select_ready ready)"
proof (cases "filter (\<lambda>a. cap_parallel (ma_cap a)) ready = []")
  case True
  then have s: "select_ready ready = [hd ready]" by (simp add: select_ready_def)
  with assms(1) have k: "K (hd ready)" by (simp split: if_splits)
  then have "filter K ready \<noteq> []" using assms(2) by (cases ready) auto
  moreover have "hd (filter K ready) = hd ready" using k assms(2) by (cases ready) auto
  moreover have "filter (\<lambda>a. cap_parallel (ma_cap a)) (filter K ready) = []"
    using True by (auto simp: filter_empty_conv)
  ultimately show ?thesis using s k by (simp add: select_ready_def)
next
  case False
  then have s: "select_ready ready = filter (\<lambda>a. cap_parallel (ma_cap a)) ready"
    by (simp add: select_ready_def Let_def)
  have "filter (\<lambda>a. cap_parallel (ma_cap a)) (filter K ready)
          = filter K (filter (\<lambda>a. cap_parallel (ma_cap a)) ready)"
    by (simp add: conj_commute)
  with s assms(1) show ?thesis by (simp add: select_ready_def Let_def del: filter_filter)
qed

definition closed_part :: "mutable_action list \<Rightarrow> (mutable_action \<Rightarrow> bool) \<Rightarrow> bool" where
  "closed_part el K \<longleftrightarrow> (\<forall>a \<in> set el. K a \<longrightarrow> needs el a \<subseteq> action_ids (filter K el))"

lemma needs_part:
  assumes "closed_part el K" "a \<in> set el" "K a"
  shows "needs (filter K el) a = needs el a"
  using assms by (fastforce simp: closed_part_def needs_def action_ids_def)

lemma rounds_part:
  assumes "rounds el c rs" "distinct (map ma_id el)" "closed_part el K"
  shows "rounds (filter K el) (c \<inter> action_ids (filter K el))
           (filter (\<lambda>r. r \<noteq> []) (map (filter K) rs))"
  using assms
proof (induction rule: rounds.induct)
  case (rounds_done c)
  then have "action_ids (filter K el) \<subseteq> c" by (auto simp: action_ids_def)
  then show ?case by (auto intro: rounds.rounds_done)
next
  case (rounds_step c ready rs)
  let ?el = "filter K el"
  let ?c = "c \<inter> action_ids ?el"
  let ?ch = "select_ready ready"
  have inj: "\<And>a b. a \<in> set el \<Longrightarrow> b \<in> set el \<Longrightarrow> ma_id a = ma_id b \<Longrightarrow> a = b"
    using rounds_step.prems(1) by (auto simp: distinct_map inj_on_def)
  have sub: "set ?ch \<subseteq> set el" using rounds_step select_ready_subset [of ready] by auto
  have "action_ids ?ch \<inter> action_ids ?el = action_ids (filter K ?ch)"
    using sub by (auto simp: action_ids_def dest: inj)
  then have c': "(c \<union> action_ids ?ch) \<inter> action_ids ?el = ?c \<union> action_ids (filter K ?ch)" by blast
  have IH: "rounds ?el (?c \<union> action_ids (filter K ?ch)) (filter (\<lambda>r. r \<noteq> []) (map (filter K) rs))"
    using rounds_step.IH [OF rounds_step.prems] c' by simp
  have ready': "filter (\<lambda>a. ma_id a \<notin> ?c \<and> needs ?el a \<subseteq> ?c) ?el = filter K ready"
    unfolding rounds_step(2) filter_filter
  proof (rule filter_cong [OF refl])
    fix a assume a: "a \<in> set el"
    show "(K a \<and> ma_id a \<notin> ?c \<and> needs ?el a \<subseteq> ?c) = ((ma_id a \<notin> c \<and> needs el a \<subseteq> c) \<and> K a)"
    proof (cases "K a")
      case True
      with a have "ma_id a \<in> action_ids ?el" by (auto simp: action_ids_def)
      moreover have "needs ?el a = needs el a" using needs_part [OF rounds_step.prems(2) a True] .
      moreover have "needs el a \<subseteq> action_ids ?el"
        using rounds_step.prems(2) a True by (auto simp: closed_part_def)
      ultimately show ?thesis using True by auto
    qed simp
  qed
  show ?case
  proof (cases "filter K ?ch = []")
    case True
    with IH show ?thesis by (simp add: action_ids_def)
  next
    case False
    then have s: "select_ready (filter K ready) = filter K ?ch"
      using select_ready_filter rounds_step(3) by blast
    from False obtain b where b: "b \<in> set ?ch" "K b" by (auto simp: filter_empty_conv)
    with sub select_ready_subset [OF rounds_step(3)] rounds_step(2)
    have "b \<in> set ready" "ma_id b \<notin> c" "ma_id b \<in> action_ids ?el"
      by (auto simp: action_ids_def)
    then have "\<not> action_ids ?el \<subseteq> ?c" "filter K ready \<noteq> []" using b by (auto simp: filter_empty_conv)
    from rounds.rounds_step [OF this(1) ready' [symmetric] this(2)] IH s False
    show ?thesis by simp
  qed
qed

end
