(* ===== verification/Director_Blocking.thy ===== *)
theory Director_Blocking
  imports Director_Schedule
begin

text \<open>
  The passes that block actions: the capability boundaries, the cascade along dependencies
  and the two budgets only ever add blocked boundaries. The locale states that contract,
  the passes of the code are its interpretations, and the budgets' arithmetic follows.
\<close>

section \<open>Blocking more\<close>

definition keyed :: "mutable_plan \<Rightarrow> bool" where
  "keyed pl \<longleftrightarrow> distinct (map fst (mp_actions pl)) \<and> (\<forall>e \<in> set (mp_actions pl). ma_id (snd e) = fst e)"

abbreviation act :: "mutable_plan \<Rightarrow> string \<Rightarrow> mutable_action option" where
  "act pl \<equiv> jget (mp_actions pl)"

definition blocks_more :: "mutable_plan \<Rightarrow> mutable_plan \<Rightarrow> bool" where
  "blocks_more pl pl' \<longleftrightarrow>
     map fst (mp_actions pl') = map fst (mp_actions pl) \<and>
     (\<forall>i a. act pl i = Some a \<longrightarrow>
        (\<exists>b. act pl' i = Some (a\<lparr>ma_blocked := b\<rparr>) \<and> (ma_blocked a \<noteq> [] \<longrightarrow> b \<noteq> [])))"

lemma ma_blocked_same [simp]: "a\<lparr>ma_blocked := ma_blocked a\<rparr> = a"
  by simp

lemma blocks_more_refl [simp]: "blocks_more pl pl"
  unfolding blocks_more_def by (metis ma_blocked_same)

lemma blocks_more_trans:
  assumes "blocks_more pl pl1" "blocks_more pl1 pl2"
  shows "blocks_more pl pl2"
  unfolding blocks_more_def
proof (intro conjI allI impI)
  show "map fst (mp_actions pl2) = map fst (mp_actions pl)"
    using assms by (simp add: blocks_more_def)
  fix i a
  assume "act pl i = Some a"
  with assms(1) obtain b where b: "act pl1 i = Some (a\<lparr>ma_blocked := b\<rparr>)" "ma_blocked a \<noteq> [] \<longrightarrow> b \<noteq> []"
    unfolding blocks_more_def by blast
  with assms(2) obtain c where c: "act pl2 i = Some (a\<lparr>ma_blocked := b\<rparr>\<lparr>ma_blocked := c\<rparr>)" "b \<noteq> [] \<longrightarrow> c \<noteq> []"
    unfolding blocks_more_def by fastforce
  with b show "\<exists>b. act pl2 i = Some (a\<lparr>ma_blocked := b\<rparr>) \<and> (ma_blocked a \<noteq> [] \<longrightarrow> b \<noteq> [])"
    by (intro exI [of _ c]) auto
qed

lemma map_fst_jset: "k \<in> fst ` set m \<Longrightarrow> map fst (jset k v m) = map fst m"
  by (induction m) auto

lemma update_action_map_fst [simp]:
  "map fst (mp_actions (update_action aid f pl)) = map fst (mp_actions pl)"
  by (auto simp: update_action_def split: option.splits dest!: jget_in_keys intro!: map_fst_jset)

lemma blocks_more_blockAction [intro]: "blocks_more pl (blockAction pf aid v pl)"
  unfolding blocks_more_def
proof (intro conjI allI impI)
  show "map fst (mp_actions (blockAction pf aid v pl)) = map fst (mp_actions pl)"
    by (simp add: blockAction_def split_beta)
  fix i a
  assume i: "act pl i = Some a"
  show "\<exists>b. act (blockAction pf aid v pl) i = Some (a\<lparr>ma_blocked := b\<rparr>) \<and> (ma_blocked a \<noteq> [] \<longrightarrow> b \<noteq> [])"
  proof (cases "i = aid")
    case True
    with i show ?thesis by (auto simp: blockAction_get)
  next
    case False
    with i show ?thesis by (intro exI [of _ "ma_blocked a"]) (simp add: blockAction_get)
  qed
qed

lemma blocks_more_foldl:
  "(\<And>s x. blocks_more (g s) (g (f s x))) \<Longrightarrow> blocks_more (g s) (g (foldl f s xs))"
proof (induction xs arbitrary: s)
  case (Cons x xs)
  then have "blocks_more (g s) (g (f s x))" "blocks_more (g (f s x)) (g (foldl f (f s x) xs))" by blast+
  then show ?case using blocks_more_trans by simp
qed simp

lemma blocks_more_get:
  assumes "blocks_more pl pl'" "act pl' i = Some b"
  obtains a where "act pl i = Some a" "b = a\<lparr>ma_blocked := ma_blocked b\<rparr>"
    "ma_blocked a \<noteq> [] \<longrightarrow> ma_blocked b \<noteq> []"
proof -
  from assms have "i \<in> set (map fst (mp_actions pl'))" using jget_in_keys by force
  then have "i \<in> fst ` set (mp_actions pl)" using assms(1) unfolding blocks_more_def by simp
  then obtain a where a: "act pl i = Some a" by (auto simp: in_keys_jget)
  with assms(1) obtain c where "act pl' i = Some (a\<lparr>ma_blocked := c\<rparr>)" "ma_blocked a \<noteq> [] \<longrightarrow> c \<noteq> []"
    unfolding blocks_more_def by blast
  with a assms(2) show thesis by (intro that [of a]) auto
qed

lemma keyed_get: "keyed pl \<Longrightarrow> act pl i = Some a \<Longrightarrow> ma_id a = i"
  by (auto simp: keyed_def dest!: map_of_SomeD)

lemma keyed_blocks_more:
  assumes "keyed pl" "blocks_more pl pl'"
  shows "keyed pl'"
  unfolding keyed_def
proof (intro conjI ballI)
  show d: "distinct (map fst (mp_actions pl'))" using assms by (simp add: keyed_def blocks_more_def)
  fix e
  assume "e \<in> set (mp_actions pl')"
  then have "act pl' (fst e) = Some (snd e)" using d by simp
  then obtain a where "act pl (fst e) = Some a" "snd e = a\<lparr>ma_blocked := ma_blocked (snd e)\<rparr>"
    using blocks_more_get [OF assms(2)] by blast
  with keyed_get [OF assms(1)] show "ma_id (snd e) = fst e"
    by (metis mutable_action.select_convs(1) mutable_action.surjective mutable_action.update_convs(8))
qed

lemma blocked_in_more: "blocks_more pl pl' \<Longrightarrow> blocked_in pl i \<Longrightarrow> blocked_in pl' i"
  by (cases "act pl i") (fastforce simp: blocked_in_def blocks_more_def)+

lemma unblocked_more: "blocks_more pl pl' \<Longrightarrow> unblocked pl' \<subseteq> unblocked pl"
  unfolding unblocked_def
  by (metis (mono_tags, lifting) Collect_mono blocked_in_more blocks_more_def image_set)

text \<open>What an action costs and how long it takes does not depend on its boundaries.\<close>

definition cost_of :: "mutable_plan \<Rightarrow> string \<Rightarrow> int" where
  "cost_of pl i = (case act pl i of None \<Rightarrow> 0 | Some a \<Rightarrow> cap_cost (ma_cap a))"

definition time_of :: "mutable_plan \<Rightarrow> string \<Rightarrow> int" where
  "time_of pl i = (case act pl i of None \<Rightarrow> 0 | Some a \<Rightarrow> cap_duration (ma_cap a))"

lemma keys_more: "blocks_more pl pl' \<Longrightarrow> fst ` set (mp_actions pl') = fst ` set (mp_actions pl)"
  unfolding blocks_more_def by (metis image_set)

lemma cap_more:
  assumes "blocks_more pl pl'"
  shows "map_option ma_cap (act pl' i) = map_option ma_cap (act pl i)"
proof (cases "act pl i")
  case None
  then have "i \<notin> fst ` set (mp_actions pl')" using keys_more [OF assms] by (simp add: map_of_eq_None_iff)
  with None show ?thesis by (simp add: map_of_eq_None_iff [symmetric])
next
  case (Some a)
  with assms obtain b where "act pl' i = Some (a\<lparr>ma_blocked := b\<rparr>)"
    unfolding blocks_more_def by blast
  with Some show ?thesis by simp
qed

lemma cost_of_cap: "cost_of pl i = (case map_option ma_cap (act pl i) of None \<Rightarrow> 0 | Some c \<Rightarrow> cap_cost c)"
  by (cases "act pl i") (simp_all add: cost_of_def)

lemma time_of_cap: "time_of pl i = (case map_option ma_cap (act pl i) of None \<Rightarrow> 0 | Some c \<Rightarrow> cap_duration c)"
  by (cases "act pl i") (simp_all add: time_of_def)

lemma cost_of_more: "blocks_more pl pl' \<Longrightarrow> cost_of pl' i = cost_of pl i"
  by (simp only: cost_of_cap cap_more)

lemma time_of_more: "blocks_more pl pl' \<Longrightarrow> time_of pl' i = time_of pl i"
  by (simp only: time_of_cap cap_more)

section \<open>The contract of a blocking pass\<close>

locale blocking_pass =
  fixes pass :: "mutable_plan \<Rightarrow> mutable_plan"
  assumes pass_blocks: "blocks_more pl (pass pl)"
begin

lemma pass_keyed: "keyed pl \<Longrightarrow> keyed (pass pl)"
  by (rule keyed_blocks_more [OF _ pass_blocks])

lemma pass_unblocked: "unblocked (pass pl) \<subseteq> unblocked pl"
  by (rule unblocked_more [OF pass_blocks])

lemma pass_keeps: "act (pass pl) i = Some b \<Longrightarrow> ma_blocked b = [] \<Longrightarrow> act pl i = Some b"
  by (rule blocks_more_get [OF pass_blocks]) auto

lemma pass_lifts:
  "(\<And>a. act pl i = Some a \<Longrightarrow> ma_blocked a = [] \<Longrightarrow> P a) \<Longrightarrow>
     act (pass pl) i = Some b \<Longrightarrow> ma_blocked b = [] \<Longrightarrow> P b"
  using pass_keeps by blast

end

lemma cascade_action_blocks: "blocks_more (fst s) (fst (cascade_action pf s aid))"
  by (cases s) (rule cascade_action_cases [of pf "fst s" "snd s" aid], auto)

lemma cascade_pass_blocks: "blocks_more pl (fst (cascade_pass pf pl))"
  unfolding cascade_pass_def
  using blocks_more_foldl [of fst "cascade_action pf" "(pl, False)"] cascade_action_blocks by simp

lemma cascade_blocks: "blocks_more pl (cascadeBlockedDependencies pf pl)"
proof (induction pf pl rule: cascadeBlockedDependencies.induct)
  case (1 pf pl)
  obtain pl' ch where p: "cascade_pass pf pl = (pl', ch)" by fastforce
  with cascade_pass_blocks [of pl pf] have b: "blocks_more pl pl'" by simp
  show ?case
  proof (cases ch)
    case True
    with 1 p have "blocks_more pl' (cascadeBlockedDependencies pf pl')" by simp
    with b p True show ?thesis
      by (subst cascadeBlockedDependencies.simps) (auto intro: blocks_more_trans)
  next
    case False
    with p b show ?thesis by (subst cascadeBlockedDependencies.simps) simp
  qed
qed

lemma charge_blocks: "blocks_more (fst s) (fst (charge_action pf s aid))"
  by (cases s) (auto simp: charge_action_def split: option.splits)

lemma cost_budget_blocks: "blocks_more pl (applyCostBudget pf bs n pl)"
  unfolding applyCostBudget_def
  using blocks_more_foldl [of fst "charge_action pf" "(pl, n)"] charge_blocks by simp

lemma fit_blocks: "blocks_more (fst s) (fst (fit_action pf n s aid))"
  by (cases s) (auto simp: fit_action_def split: option.splits)

lemma fit_batch_blocks: "blocks_more (fst s) (fst (fit_batch pf s b))"
proof -
  have "blocks_more (fst s) (fst (foldl (fit_action pf (snd s)) (fst s, []) (bat_actions b)))"
    using blocks_more_foldl [of fst "fit_action pf (snd s)" "(fst s, [])"] fit_blocks by simp
  then show ?thesis by (simp add: fit_batch_def split_beta)
qed

lemma duration_budget_blocks: "blocks_more pl (applyDurationBudget pf bs n pl)"
  unfolding applyDurationBudget_def
  using blocks_more_foldl [of fst "fit_batch pf" "(pl, n)"] fit_batch_blocks by simp

interpretation cascade: blocking_pass "cascadeBlockedDependencies pf" for pf
  by unfold_locales (rule cascade_blocks)

interpretation cost_budget: blocking_pass "applyCostBudget pf bs n" for pf bs n
  by unfold_locales (rule cost_budget_blocks)

interpretation duration_budget: blocking_pass "applyDurationBudget pf bs n" for pf bs n
  by unfold_locales (rule duration_budget_blocks)

section \<open>The cascade reaches a fixed point\<close>

lemma cascade_flag_stays: "snd (foldl (cascade_action pf) (pl, True) ids)"
proof (induction ids arbitrary: pl)
  case (Cons i ids)
  obtain pl1 where "cascade_action pf (pl, True) i = (pl1, True)"
    by (rule cascade_action_cases [of pf pl True i]) auto
  with Cons show ?case by simp
qed simp

lemma cascade_unchanged:
  "foldl (cascade_action pf) (pl, False) ids = (pl', False) \<Longrightarrow>
     pl' = pl \<and> (\<forall>i \<in> set ids. cascade_action pf (pl, False) i = (pl, False))"
proof (induction ids)
  case (Cons i ids)
  obtain pl1 ch where s: "cascade_action pf (pl, False) i = (pl1, ch)" by fastforce
  show ?case
  proof (cases ch)
    case True
    with s Cons.prems cascade_flag_stays [of pf pl1 ids] show ?thesis by simp
  next
    case False
    with s have "pl1 = pl" by (cases rule: cascade_action_cases [of pf pl False i]) auto
    with s False Cons show ?thesis by simp
  qed
qed simp

definition deps_clear :: "mutable_plan \<Rightarrow> bool" where
  "deps_clear pl \<longleftrightarrow> (\<forall>i a. act pl i = Some a \<longrightarrow> ma_blocked a = [] \<longrightarrow>
     (\<forall>d \<in> set (ma_deps a). \<not> blocked_in pl d))"

lemma cascade_deps_clear: "deps_clear (cascadeBlockedDependencies pf pl)"
proof (induction pf pl rule: cascadeBlockedDependencies.induct)
  case (1 pf pl)
  obtain pl' ch where p: "cascade_pass pf pl = (pl', ch)" by fastforce
  show ?case
  proof (cases ch)
    case True
    with 1 p show ?thesis by (subst cascadeBlockedDependencies.simps) simp
  next
    case False
    with p cascade_unchanged [of pf pl "jkeys (mp_actions pl)" pl']
    have same: "pl' = pl" "\<And>i. i \<in> set (jkeys (mp_actions pl)) \<Longrightarrow> cascade_action pf (pl, False) i = (pl, False)"
      by (auto simp: cascade_pass_def)
    have "deps_clear pl"
      unfolding deps_clear_def
    proof (intro allI impI ballI)
      fix i a d
      assume a: "act pl i = Some a" "ma_blocked a = []" "d \<in> set (ma_deps a)"
      then have "i \<in> set (jkeys (mp_actions pl))" by (auto simp: jkeys_def dest: jget_in_keys)
      from same(2) [OF this] a show "\<not> blocked_in pl d"
        by (auto simp: cascade_action_def find_None_iff split: option.splits)
    qed
    with False p same show ?thesis by (subst cascadeBlockedDependencies.simps) simp
  qed
qed

end
