(* ===== verification/Director_Budgets.thy ===== *)
theory Director_Budgets
  imports Director_Blocking
begin

text \<open>
  The arithmetic of the two budgets: what the cost pass leaves unblocked fits the units,
  and the batches recomputed after the duration pass fit the time.
\<close>

section \<open>Eligible actions after more blocking\<close>

lemma filter_insort_by:
  assumes "total_preorder le" "sorted_wrt le xs"
  shows "filter P (insort_by le x xs) = (if P x then insort_by le x (filter P xs) else filter P xs)"
  using assms(2)
proof (induction xs)
  case (Cons y ys)
  have tr: "\<And>z. le x y \<Longrightarrow> le y z \<Longrightarrow> le x z"
    using assms(1) unfolding total_preorder_def by blast
  have hd: "insort_by le x zs = x # zs" if "\<forall>z \<in> set zs. le x z" for zs
    using that by (cases zs) auto
  show ?case
  proof (cases "le x y")
    case True
    with Cons.prems tr have "\<forall>z \<in> set (filter P (y # ys)). le x z" by auto
    with True show ?thesis by (simp only: insort_by.simps if_True filter.simps hd split: if_split)
  next
    case False
    with Cons show ?thesis by auto
  qed
qed simp

lemma filter_sort_by:
  "total_preorder le \<Longrightarrow> filter P (sort_by le xs) = sort_by le (filter P xs)"
  unfolding sort_by_def
proof (induction xs)
  case (Cons x xs)
  have "sorted_wrt le (foldr (insort_by le) xs [])"
    using sorted_sort_by [OF Cons.prems] by (simp add: sort_by_def)
  with Cons show ?case by (simp add: filter_insort_by)
qed simp

lemma total_preorder_ids: "total_preorder (pf_le pf) \<Longrightarrow>
    total_preorder (\<lambda>x y. compareText pf (ma_id x) (ma_id y))"
  unfolding compareText_def by (rule total_preorder_key)

lemma jvals_keyed: "distinct (map fst m) \<Longrightarrow> jvals m = map (\<lambda>k. the (jget m k)) (map fst m)"
  by (auto simp: jvals_def)

lemma live_after:
  assumes "keyed pl" "blocks_more pl pl'"
  shows "filter (\<lambda>a. ma_blocked a = []) (jvals (mp_actions pl')) =
         filter (\<lambda>a. \<not> blocked_in pl' (ma_id a)) (filter (\<lambda>a. ma_blocked a = []) (jvals (mp_actions pl)))"
proof -
  let ?g = "\<lambda>k. the (act pl k)" and ?g' = "\<lambda>k. the (act pl' k)"
  let ?ks = "map fst (mp_actions pl)"
  have k': "map fst (mp_actions pl') = ?ks" using assms(2) by (simp add: blocks_more_def)
  have d: "distinct ?ks" using assms(1) by (simp add: keyed_def)
  have v: "jvals (mp_actions pl) = map ?g ?ks" using jvals_keyed [OF d] .
  have v': "jvals (mp_actions pl') = map ?g' ?ks" using jvals_keyed [of "mp_actions pl'"] d k' by simp
  have each: "?g' k = ?g k \<and> ma_blocked (?g k) = [] \<and> \<not> blocked_in pl' (ma_id (?g k))
      \<longleftrightarrow> ma_blocked (?g' k) = []" "ma_blocked (?g' k) = [] \<longleftrightarrow>
      ma_blocked (?g k) = [] \<and> \<not> blocked_in pl' (ma_id (?g k))" if k: "k \<in> set ?ks" for k
  proof -
    from k obtain a where a: "act pl k = Some a" by (force simp: in_keys_jget [symmetric])
    with assms(2) obtain b where b: "act pl' k = Some (a\<lparr>ma_blocked := b\<rparr>)" "ma_blocked a \<noteq> [] \<longrightarrow> b \<noteq> []"
      unfolding blocks_more_def by blast
    have i: "ma_id a = k" using keyed_get [OF assms(1) a] .
    from a b i show "ma_blocked (?g' k) = [] \<longleftrightarrow>
        ma_blocked (?g k) = [] \<and> \<not> blocked_in pl' (ma_id (?g k))"
      by (auto simp: blocked_in_def)
    from a b i show "?g' k = ?g k \<and> ma_blocked (?g k) = [] \<and> \<not> blocked_in pl' (ma_id (?g k))
      \<longleftrightarrow> ma_blocked (?g' k) = []"
      by (cases "b = []") (auto simp: blocked_in_def)
  qed
  have "filter (\<lambda>a. ma_blocked a = []) (map ?g' ?ks) = map ?g' (filter (\<lambda>k. ma_blocked (?g' k) = []) ?ks)"
    by (simp add: filter_map comp_def)
  also have "\<dots> = map ?g (filter (\<lambda>k. ma_blocked (?g' k) = []) ?ks)"
    using each(1) by (intro map_cong [OF refl]) (auto simp del: map_map)
  also have "\<dots> = map ?g (filter (\<lambda>k. \<not> blocked_in pl' (ma_id (?g k)) \<and> ma_blocked (?g k) = []) ?ks)"
    using each(2) by (intro arg_cong [of _ _ "map ?g"] filter_cong [OF refl]) auto
  also have "\<dots> = filter (\<lambda>a. \<not> blocked_in pl' (ma_id a) \<and> ma_blocked a = []) (map ?g ?ks)"
    by (simp add: filter_map comp_def)
  finally show ?thesis by (simp add: v v' conj_commute)
qed

lemma eligible_after:
  assumes "total_preorder (pf_le pf)" "keyed pl" "blocks_more pl pl'"
  shows "eligible_actions pf (mp_actions pl') =
           filter (\<lambda>a. \<not> blocked_in pl' (ma_id a)) (eligible_actions pf (mp_actions pl))"
  unfolding eligible_actions_def
  by (simp only: live_after [OF assms(2,3)] filter_sort_by [OF total_preorder_ids [OF assms(1)]])

lemma eligible_set:
  assumes "keyed pl"
  shows "set (eligible_actions pf (mp_actions pl)) = {a. \<exists>i. act pl i = Some a \<and> ma_blocked a = []}"
    and "distinct (map ma_id (eligible_actions pf (mp_actions pl)))"
    and "action_ids (eligible_actions pf (mp_actions pl)) = unblocked pl"
proof -
  let ?m = "mp_actions pl"
  have d: "distinct (map fst ?m)" using assms by (simp add: keyed_def)
  have ids: "map ma_id (jvals ?m) = map fst ?m" using assms by (auto simp: keyed_def jvals_def)
  show s: "set (eligible_actions pf ?m) = {a. \<exists>i. act pl i = Some a \<and> ma_blocked a = []}"
    using d by (auto simp: eligible_actions_def jvals_def map_of_eq_Some_iff) force
  have "distinct (map ma_id (filter (\<lambda>a. ma_blocked a = []) (jvals ?m)))"
    using d ids by (intro distinct_map_filter) simp
  then have "distinct (map ma_id (eligible_actions pf ?m))"
    unfolding eligible_actions_def
    using mset_sort_by by (metis (no_types, lifting) mset_eq_imp_distinct_iff mset_map)
  then show "distinct (map ma_id (eligible_actions pf ?m))" .
  show "action_ids (eligible_actions pf ?m) = unblocked pl"
    unfolding action_ids_def s unblocked_def
  proof (intro set_eqI iffI)
    fix k
    assume "k \<in> ma_id ` {a. \<exists>i. act pl i = Some a \<and> ma_blocked a = []}"
    then obtain a i where a: "k = ma_id a" "act pl i = Some a" "ma_blocked a = []" by blast
    then have "k = i" using keyed_get [OF assms] by blast
    with a show "k \<in> {i \<in> fst ` set ?m. \<not> blocked_in pl i}"
      by (auto simp: blocked_in_def dest: jget_in_keys)
  next
    fix k
    assume k: "k \<in> {i \<in> fst ` set ?m. \<not> blocked_in pl i}"
    then obtain b where b: "act pl k = Some b" by (auto simp: in_keys_jget)
    with k have "ma_blocked b = []" by (auto simp: blocked_in_def)
    with b keyed_get [OF assms b] show "k \<in> ma_id ` {a. \<exists>i. act pl i = Some a \<and> ma_blocked a = []}"
      by blast
  qed
qed

section \<open>Units\<close>

lemma rounds_unique: "rounds el c rs \<Longrightarrow> rounds el c rs' \<Longrightarrow> rs = rs'"
proof (induction arbitrary: rs' rule: rounds.induct)
  case (rounds_done c)
  then show ?case by (auto elim: rounds.cases)
next
  case (rounds_step c ready rs)
  from rounds_step.prems rounds_step(1,2) obtain qs where
    "rs' = select_ready ready # qs" "rounds el (c \<union> action_ids (select_ready ready)) qs"
    by cases auto
  with rounds_step.IH show ?case by simp
qed

definition amounts_ok :: "mutable_plan \<Rightarrow> bool" where
  "amounts_ok pl \<longleftrightarrow> (\<forall>i. 0 \<le> cost_of pl i \<and> 0 \<le> time_of pl i)"

lemma amounts_more: "blocks_more pl pl' \<Longrightarrow> amounts_ok pl \<Longrightarrow> amounts_ok pl'"
  by (simp add: amounts_ok_def cost_of_more time_of_more)

definition spend :: "mutable_plan \<Rightarrow> string set \<Rightarrow> int" where
  "spend pl ids = (\<Sum>i \<in> ids \<inter> unblocked pl. cost_of pl i)"

lemma unblocked_get: "i \<in> unblocked pl \<longleftrightarrow> (\<exists>a. act pl i = Some a \<and> ma_blocked a = [])"
  by (auto simp: unblocked_def blocked_in_def in_keys_jget)

lemma charge_fold:
  "foldl (charge_action pf) (pl, n) ids = (pl', r) \<Longrightarrow> 0 \<le> n \<Longrightarrow> amounts_ok pl \<Longrightarrow>
     0 \<le> r \<and> spend pl' (set ids) \<le> n - r"
proof (induction ids arbitrary: pl n)
  case (Cons i ids)
  obtain pl1 n1 where s: "charge_action pf (pl, n) i = (pl1, n1)" by fastforce
  have b1: "blocks_more pl pl1" using charge_blocks [of "(pl, n)" pf i] s by simp
  have f1: "foldl (charge_action pf) (pl1, n1) ids = (pl', r)" using Cons.prems(1) s by simp
  have b2: "blocks_more pl1 pl'"
    using blocks_more_foldl [of fst "charge_action pf" "(pl1, n1)" ids, OF charge_blocks] f1 by simp
  have n1: "0 \<le> n1 \<and> (i \<in> unblocked pl1 \<longrightarrow> n1 = n - cost_of pl i) \<and> n1 \<le> n"
  proof (cases "act pl i")
    case None
    with s Cons.prems show ?thesis by (auto simp: charge_action_def unblocked_get)
  next
    case (Some a)
    have "0 \<le> cost_of pl i" using Cons.prems(3) by (simp add: amounts_ok_def)
    with Some s Cons.prems(2) show ?thesis
      by (auto simp: charge_action_def cost_of_def unblocked_get blockAction_get split: if_splits)
  qed
  have IH: "0 \<le> r" "spend pl' (set ids) \<le> n1 - r"
    using Cons.IH [OF f1] n1 amounts_more [OF b1 Cons.prems(3)] by auto
  have c: "cost_of pl' i = cost_of pl i"
    using cost_of_more [OF blocks_more_trans [OF b1 b2]] .
  have c0: "0 \<le> cost_of pl i" using Cons.prems(3) by (simp add: amounts_ok_def)
  have "spend pl' (set (i # ids)) \<le> n - r"
  proof (cases "i \<in> unblocked pl' \<and> i \<notin> set ids")
    case True
    then have "spend pl' (set (i # ids)) = cost_of pl i + spend pl' (set ids)"
      using c by (simp add: spend_def Int_insert_left)
    moreover have "i \<in> unblocked pl1" using True unblocked_more [OF b2] by blast
    ultimately show ?thesis using IH n1 by simp
  next
    case False
    then have "spend pl' (set (i # ids)) = spend pl' (set ids)"
      by (auto simp: spend_def Int_insert_left insert_absorb intro: arg_cong2 [of _ _ _ _ sum])
    then show ?thesis using IH n1 by simp
  qed
  with IH show ?case by simp
qed (simp add: spend_def)

lemma sum_unblocked_mono:
  "amounts_ok pl \<Longrightarrow> A \<subseteq> unblocked pl \<Longrightarrow> (\<Sum>i \<in> A. cost_of pl i) \<le> (\<Sum>i \<in> unblocked pl. cost_of pl i)"
  by (rule sum_mono2) (auto simp: amounts_ok_def)

lemma cost_budget_bound:
  assumes "0 \<le> n" "amounts_ok pl" "unblocked pl \<subseteq> set (concat (map bat_actions bs))"
    "blocks_more (applyCostBudget pf bs n pl) pl'"
  shows "(\<Sum>i \<in> unblocked pl'. cost_of pl' i) \<le> n"
proof -
  let ?ids = "concat (map bat_actions bs)" and ?pl1 = "applyCostBudget pf bs n pl"
  obtain r where f: "foldl (charge_action pf) (pl, n) ?ids = (?pl1, r)"
    unfolding applyCostBudget_def by (metis prod.collapse)
  from charge_fold [OF f assms(1,2)] have "spend ?pl1 (set ?ids) \<le> n" by linarith
  moreover have "unblocked ?pl1 \<subseteq> set ?ids" using cost_budget.pass_unblocked assms(3) by blast
  then have "set ?ids \<inter> unblocked ?pl1 = unblocked ?pl1" by blast
  ultimately have "(\<Sum>i \<in> unblocked ?pl1. cost_of ?pl1 i) \<le> n" by (simp only: spend_def)
  moreover have "(\<Sum>i \<in> unblocked pl'. cost_of ?pl1 i) \<le> (\<Sum>i \<in> unblocked ?pl1. cost_of ?pl1 i)"
    by (rule sum_unblocked_mono)
       (use amounts_more [OF cost_budget_blocks assms(2)] unblocked_more [OF assms(4)] in auto)
  ultimately show ?thesis by (simp add: cost_of_more [OF assms(4)])
qed

section \<open>Time\<close>

definition longest :: "mutable_plan \<Rightarrow> string set \<Rightarrow> int" where
  "longest pl ids = Max (insert 0 (time_of pl ` (ids \<inter> unblocked pl)))"

lemma longest_mono: "blocks_more pl pl' \<Longrightarrow> longest pl' ids \<le> longest pl ids"
  unfolding longest_def time_of_more [of pl pl']
  by (intro Max_mono) (use unblocked_more [of pl pl'] time_of_more [of pl pl'] in auto)

lemma fit_fold:
  "foldl (fit_action pf n) (pl, fs) ids = (pl', fs') \<Longrightarrow>
     set fs \<subseteq> set fs' \<and> (\<forall>f \<in> set fs'. f \<in> set fs \<or> (f \<le> n \<and> (\<exists>i. f = time_of pl i)))
     \<and> time_of pl ` (set ids \<inter> unblocked pl') \<subseteq> set fs'"
proof (induction ids arbitrary: pl fs)
  case (Cons i ids)
  obtain pl1 fs1 where s: "fit_action pf n (pl, fs) i = (pl1, fs1)" by fastforce
  have b1: "blocks_more pl pl1" using fit_blocks [of "(pl, fs)" pf n i] s by simp
  have f1: "foldl (fit_action pf n) (pl1, fs1) ids = (pl', fs')" using Cons.prems s by simp
  have b2: "blocks_more pl1 pl'"
    using blocks_more_foldl [of fst "fit_action pf n" "(pl1, fs1)" ids, OF fit_blocks] f1 by simp
  have one: "set fs \<subseteq> set fs1 \<and> (\<forall>f \<in> set fs1. f \<in> set fs \<or> (f \<le> n \<and> f = time_of pl i))
      \<and> (i \<in> unblocked pl1 \<longrightarrow> time_of pl i \<in> set fs1)"
    using s by (cases "act pl i")
      (auto simp: fit_action_def unblocked_get time_of_def blockAction_get split: if_splits)
  from Cons.IH [OF f1] one unblocked_more [OF b2] show ?case
    by (auto simp: time_of_more [OF b1])
qed simp

lemma fit_batch_fits:
  assumes "fit_batch pf (pl, n) b = (pl', r)" "0 \<le> n" "amounts_ok pl"
  shows "0 \<le> r \<and> longest pl' (set (bat_actions b)) \<le> n - r"
proof -
  obtain fs where f: "foldl (fit_action pf n) (pl, []) (bat_actions b) = (pl', fs)"
    and r: "r = (if fs \<noteq> [] then n - Max (set fs) else n)"
    using assms(1) by (auto simp: fit_batch_def split_beta prod_eq_iff)
  have b: "blocks_more pl pl'" using fit_batch_blocks [of "(pl, n)" pf b] assms(1) by simp
  have fs: "\<forall>f \<in> set fs. 0 \<le> f \<and> f \<le> n"
    "time_of pl ` (set (bat_actions b) \<inter> unblocked pl') \<subseteq> set fs"
    using fit_fold [OF f] assms(3) by (auto simp: amounts_ok_def)
  show ?thesis
  proof (cases "fs = []")
    case True
    with fs r assms(2) show ?thesis by (auto simp: longest_def)
  next
    case False
    have m: "Max (set fs) \<in> set fs" using False by simp
    have "x \<le> Max (set fs)" if "x \<in> insert 0 (time_of pl ` (set (bat_actions b) \<inter> unblocked pl'))" for x
      using that m fs by (cases "x = 0") (auto intro!: Max_ge)
    then have "longest pl' (set (bat_actions b)) \<le> Max (set fs)"
      unfolding longest_def time_of_more [OF b] by (intro Max.boundedI) auto
    with m fs r False show ?thesis by auto
  qed
qed

lemma fit_batches_fit:
  "foldl (fit_batch pf) (pl, n) bs = (pl', r) \<Longrightarrow> 0 \<le> n \<Longrightarrow> amounts_ok pl \<Longrightarrow>
     0 \<le> r \<and> sum_list (map (\<lambda>b. longest pl' (set (bat_actions b))) bs) \<le> n - r"
proof (induction bs arbitrary: pl n)
  case (Cons b bs)
  obtain pl1 n1 where s: "fit_batch pf (pl, n) b = (pl1, n1)" by fastforce
  have b1: "blocks_more pl pl1" using fit_batch_blocks [of "(pl, n)" pf b] s by simp
  have f1: "foldl (fit_batch pf) (pl1, n1) bs = (pl', r)" using Cons.prems(1) s by simp
  have b2: "blocks_more pl1 pl'"
    using blocks_more_foldl [of fst "fit_batch pf" "(pl1, n1)" bs, OF fit_batch_blocks] f1 by simp
  have one: "0 \<le> n1" "longest pl1 (set (bat_actions b)) \<le> n - n1"
    using fit_batch_fits [OF s Cons.prems(2,3)] by auto
  with Cons.IH [OF f1 one(1) amounts_more [OF b1 Cons.prems(3)]] longest_mono [OF b2, of "set (bat_actions b)"]
  show ?case by simp
qed simp

lemma durations_make_batches:
  "map bat_duration (make_batches pf n rs) = map (\<lambda>ch. Max ((\<lambda>a. cap_duration (ma_cap a)) ` set ch)) rs"
  by (induction rs arbitrary: n) (simp_all add: make_batch_def)

lemma ids_make_batches:
  "map (\<lambda>b. set (bat_actions b)) (make_batches pf n rs) = map action_ids rs"
  by (induction rs arbitrary: n) (simp_all add: make_batch_def action_ids_def)

lemma sum_parts:
  fixes D :: "mutable_action list \<Rightarrow> int"
  shows "(\<And>ch. ch \<in> set rs \<Longrightarrow> 0 \<le> L ch \<and> (filter K ch \<noteq> [] \<longrightarrow> D (filter K ch) \<le> L ch)) \<Longrightarrow>
     sum_list (map D (filter (\<lambda>r. r \<noteq> []) (map (filter K) rs))) \<le> sum_list (map L rs)"
proof (induction rs)
  case (Cons ch rs)
  from Cons.prems [of ch] Cons.IH Cons.prems show ?case by fastforce
qed simp

text \<open>
  The batches \<open>b2\<close> before the duration pass and \<open>b3\<close> after it and any further blocking that
  leaves a dependency-closed set of actions.
\<close>

lemma duration_budget_bound:
  assumes T: "total_preorder (pf_le pf)" and n: "0 \<le> n" and ok: "amounts_ok pl" and k: "keyed pl"
    and b2: "createReadyBatches pf (mp_actions pl) = Inr b2"
    and more: "blocks_more (applyDurationBudget pf b2 n pl) pl'" and clear: "deps_clear pl'"
    and b3: "createReadyBatches pf (mp_actions pl') = Inr b3"
  shows "sum_list (map bat_duration b3) \<le> n"
proof -
  let ?pl4 = "applyDurationBudget pf b2 n pl"
  let ?el = "eligible_actions pf (mp_actions pl)" and ?el' = "eligible_actions pf (mp_actions pl')"
  let ?K = "\<lambda>a. \<not> blocked_in pl' (ma_id a)" and ?D = "\<lambda>ch. Max ((\<lambda>a. cap_duration (ma_cap a)) ` set ch)"
  have B: "blocks_more pl pl'" using blocks_more_trans [OF duration_budget_blocks more] .
  have k': "keyed pl'" using keyed_blocks_more [OF k B] .
  have el': "?el' = filter ?K ?el" using eligible_after [OF T k B] .
  obtain rs where rs: "rounds ?el {} rs" "b2 = make_batches pf 0 rs"
    using b2 batch_loop_rounds [OF eligible_set(2) [OF k], where c = "[]" and pf = pf and acc = "[]" and bs = b2]
    by (auto simp: createReadyBatches_def)
  obtain rs' where rs': "rounds ?el' {} rs'" "b3 = make_batches pf 0 rs'"
    using b3 batch_loop_rounds [OF eligible_set(2) [OF k'], where c = "[]" and pf = pf and acc = "[]" and bs = b3]
    by (auto simp: createReadyBatches_def)
  have closed: "closed_part ?el ?K"
    unfolding closed_part_def
  proof (intro ballI impI subsetI)
    fix a d
    assume a: "a \<in> set ?el" "?K a" "d \<in> needs ?el a"
    then have "a \<in> set ?el'" using el' by simp
    then obtain i where i: "act pl' i = Some a" "ma_blocked a = []" using eligible_set(1) [OF k'] by blast
    with clear a(3) have "\<not> blocked_in pl' d" by (auto simp: deps_clear_def needs_def)
    with a(3) show "d \<in> action_ids (filter ?K ?el)" by (auto simp: needs_def action_ids_def)
  qed
  have part: "rounds ?el' {} (filter (\<lambda>r. r \<noteq> []) (map (filter ?K) rs))"
    using rounds_part [OF rs(1) eligible_set(2) [OF k] closed] el' by simp
  have same: "rs' = filter (\<lambda>r. r \<noteq> []) (map (filter ?K) rs)"
    by (rule rounds_unique [OF rs'(1) part])
  obtain r where f: "foldl (fit_batch pf) (pl, n) b2 = (?pl4, r)"
    unfolding applyDurationBudget_def by (metis prod.collapse)
  have "sum_list (map (\<lambda>b. longest ?pl4 (set (bat_actions b))) b2) \<le> n"
    using fit_batches_fit [OF f n ok] by linarith
  moreover have "map (\<lambda>b. longest ?pl4 (set (bat_actions b))) b2 = map (\<lambda>ch. longest ?pl4 (action_ids ch)) rs"
    using arg_cong [OF ids_make_batches [of pf 0 rs], of "map (longest ?pl4)"] rs(2) by (simp add: comp_def)
  moreover have "sum_list (map ?D rs') \<le> sum_list (map (\<lambda>ch. longest ?pl4 (action_ids ch)) rs)"
    unfolding same
  proof (rule sum_parts, intro conjI impI)
    fix ch
    assume ch: "ch \<in> set rs"
    show "0 \<le> longest ?pl4 (action_ids ch)" unfolding longest_def by simp
    assume ne: "filter ?K ch \<noteq> []"
    have "cap_duration (ma_cap a) \<in> time_of ?pl4 ` (action_ids ch \<inter> unblocked ?pl4)"
      if a: "a \<in> set (filter ?K ch)" for a
    proof -
      have "a \<in> set ?el" using a ch rounds_subset [OF rs(1)] by auto
      then obtain i where i: "act pl i = Some a" using eligible_set(1) [OF k] by blast
      then have ia: "ma_id a = i" using keyed_get [OF k] by blast
      have "i \<in> unblocked pl'" using a i ia keys_more [OF B] by (auto simp: unblocked_def dest: jget_in_keys)
      then have "i \<in> unblocked ?pl4" using unblocked_more [OF more] by blast
      moreover have "time_of ?pl4 i = cap_duration (ma_cap a)"
        unfolding time_of_more [OF duration_budget_blocks] using i by (simp add: time_of_def)
      ultimately show ?thesis using a ia by (force simp: action_ids_def)
    qed
    then show "?D (filter ?K ch) \<le> longest ?pl4 (action_ids ch)"
      unfolding longest_def using ne by (intro Max_mono) (auto simp: filter_empty_conv)
  qed
  ultimately show ?thesis by (simp add: rs'(2) durations_make_batches)
qed

end
