(* ===== verification/Director_Plans.thy ===== *)
theory Director_Plans
  imports Director_Budgets
begin

text \<open>
  What a plan promises: its batches, its budget projection and the permissions of the
  actions it leaves unblocked. The lemmas follow \<open>createResearchDirectorPlan\<close> step by step,
  carrying the shape of the plan under construction to the frozen record.
\<close>

section \<open>Proposing\<close>

definition proposed :: "capability set \<Rightarrow> mutable_plan \<Rightarrow> bool" where
  "proposed C pl \<longleftrightarrow> keyed pl \<and>
     (\<forall>i a. act pl i = Some a \<longrightarrow> ma_cap a \<in> C \<and> ma_deps a = [] \<and> ma_blocked a = [])"

lemma keyed_put_action: "keyed pl \<Longrightarrow> keyed (put_action a pl)"
  by (auto simp: keyed_def put_action_def dest: in_set_jset)

lemma proposed_put_action:
  "proposed C pl \<Longrightarrow> ma_cap a \<in> C \<Longrightarrow> ma_deps a = [] \<Longrightarrow> ma_blocked a = [] \<Longrightarrow> proposed C (put_action a pl)"
  using keyed_put_action [of pl a]
  by (auto simp: proposed_def put_action_def split: if_splits)

lemma proposed_actions: "mp_actions pl' = mp_actions pl \<Longrightarrow> proposed C pl' = proposed C pl"
  by (simp add: proposed_def keyed_def)

lemma proposed_addBoundary [simp]: "proposed C (snd (addBoundary pf v pl)) = proposed C pl"
  by (rule proposed_actions) simp

lemma foldl_invariant: "P s \<Longrightarrow> (\<And>s x. x \<in> set xs \<Longrightarrow> P s \<Longrightarrow> P (f s x)) \<Longrightarrow> P (foldl f s xs)"
  by (induction xs arbitrary: s) auto

lemma proposed_advance: "proposed C pl \<Longrightarrow> set cs \<subseteq> C \<Longrightarrow> proposed C (addAdvanceActions pf cs active pl)"
  unfolding addAdvanceActions_def
  by (rule foldl_invariant)
     (auto simp: add_advance_action_def createMutableAction_def intro!: proposed_put_action)

definition group_members :: "('k, 'v list) jmap \<Rightarrow> 'v set" where
  "group_members g = {v. \<exists>k vs. jget g k = Some vs \<and> v \<in> set vs}"

lemma group_members_push: "group_members (group_push k v g) \<subseteq> insert v (group_members g)"
proof
  fix w assume "w \<in> group_members (group_push k v g)"
  then obtain k' vs where "jget (group_push k v g) k' = Some vs" "w \<in> set vs"
    by (auto simp: group_members_def)
  then show "w \<in> insert v (group_members g)"
    by (cases "jget g k") (auto simp: group_push_def group_members_def or_empty_def split: if_splits)
qed

lemma group_members_foldl:
  assumes "group_members g \<subseteq> A" "\<And>g x. x \<in> set xs \<Longrightarrow> group_members g \<subseteq> A \<Longrightarrow> group_members (f g x) \<subseteq> A"
  shows "group_members (foldl f g xs) \<subseteq> A"
  using assms by (rule foldl_invariant)

lemma group_members_Nil [simp]: "group_members [] = {}"
  by (simp add: group_members_def)

lemma group_members_push_in: "group_members g \<subseteq> A \<Longrightarrow> v \<in> A \<Longrightarrow> group_members (group_push k v g) \<subseteq> A"
  using group_members_push by fastforce

lemma or_empty_members: "set (or_empty (jget g k)) \<subseteq> group_members g"
  by (cases "jget g k") (auto simp: or_empty_def group_members_def)

lemma producers_members: "group_members (producersByKind pf cs p as) \<subseteq> set cs"
proof -
  let ?g = "foldl (\<lambda>m c. foldl (\<lambda>m k. group_push k c m) m (cap_produces c)) [] cs"
  have g: "group_members ?g \<subseteq> set cs"
    by (intro group_members_foldl group_members_push_in) auto
  have m: "map_of (map (\<lambda>e. (fst e, h (snd e))) m) k = map_option h (map_of m k)"
    for h :: "capability list \<Rightarrow> capability list" and m k
    by (induction m) auto
  have "group_members (producersByKind pf cs p as) \<subseteq> group_members ?g"
    unfolding producersByKind_def group_members_def m by fastforce
  with g show ?thesis by blast
qed

lemma preferred_producer_in: "preferred_producer m k = Some c \<Longrightarrow> c \<in> group_members m"
  using or_empty_members [of m k] by (auto simp: preferred_producer_def split: list.splits)

lemma proposed_recompute:
  "proposed C pl \<Longrightarrow> group_members producers \<subseteq> C \<Longrightarrow> proposed C (add_recompute_action pf producers pl a)"
  by (auto simp: add_recompute_action_def createMutableAction_def Let_def split: option.splits
      intro!: proposed_put_action dest: preferred_producer_in)

lemma jvals_act: "keyed pl \<Longrightarrow> x \<in> set (jvals (mp_actions pl)) \<Longrightarrow> \<exists>i. act pl i = Some x"
  by (force simp: jvals_def keyed_def)

lemma proposed_revise:
  assumes "proposed C pl" "group_members producers \<subseteq> C"
  shows "proposed C (add_revise_action pf lb producers fr pl t)"
proof -
  let ?e = "effective_target lb t"
  show ?thesis
  proof (cases "case ref_kind ?e of Claim_node \<Rightarrow> None | Stored k \<Rightarrow> preferred_producer producers k")
    case None
    then show ?thesis using assms by (simp add: add_revise_action_def Let_def)
  next
    case (Some c)
    then have c: "c \<in> C" using assms(2) by (auto split: ref_kind.splits dest: preferred_producer_in)
    let ?P = "\<lambda>x. cap_id (ma_cap x) = cap_id c \<and> refKey ?e \<in> fst ` set (ma_targets x)"
    show ?thesis
    proof (cases "find ?P (jvals (mp_actions pl))")
      case None
      with Some c assms show ?thesis
        by (simp add: add_revise_action_def Let_def createMutableAction_def proposed_put_action)
    next
      case find: (Some x)
      then have "x \<in> set (jvals (mp_actions pl))" by (auto simp: find_Some_iff)
      then obtain i where "act pl i = Some x" using jvals_act [of pl x] assms(1) by (auto simp: proposed_def)
      with assms(1) have "ma_cap x \<in> C" "ma_deps x = []" "ma_blocked x = []"
        by (auto simp: proposed_def)
      with Some find assms show ?thesis
        by (simp add: add_revise_action_def Let_def proposed_put_action)
    qed
  qed
qed

lemma proposed_foldl_revise:
  "proposed C pl \<Longrightarrow> group_members producers \<subseteq> C \<Longrightarrow>
     proposed C (foldl (add_revise_action pf lb producers fr) pl ts)"
  by (rule foldl_invariant) (auto intro: proposed_revise)

lemma proposed_repair:
  assumes "proposed C pl" "group_members producers \<subseteq> C"
    and "addRepairActions pf stale findings lb producers pl = Inr pl'"
  shows "proposed C pl'"
proof -
  have "proposed C (foldl (add_recompute_action pf producers) pl stale)"
    using assms(1,2) by (auto intro!: foldl_invariant proposed_recompute)
  then show ?thesis
  proof (rule rfold_invariant [OF assms(3) [unfolded addRepairActions_def]])
    fix s x s'
    assume "proposed C s" "add_finding_actions pf lb producers s x = Inr s'"
    then show "proposed C s'"
      using assms(2) proposed_foldl_revise [of C s producers]
      unfolding add_finding_actions_def Let_def rbind_eq_Inr
      by (elim exE conjE, simp only: sum.inject split: if_splits) auto
  qed
qed

section \<open>Linking\<close>

definition links :: "string set \<Rightarrow> mutable_plan \<Rightarrow> mutable_plan \<Rightarrow> bool" where
  "links K pl pl' \<longleftrightarrow> map fst (mp_actions pl') = map fst (mp_actions pl) \<and>
     (\<forall>i a. act pl i = Some a \<longrightarrow> (\<exists>b. act pl' i = Some b \<and> ma_id b = ma_id a \<and> ma_cap b = ma_cap a
        \<and> set (ma_deps b) \<subseteq> set (ma_deps a) \<union> K))"

lemma links_refl [simp]: "links K pl pl"
  by (simp add: links_def)

lemma links_trans:
  assumes "links K pl pl1" "links K pl1 pl2"
  shows "links K pl pl2"
  unfolding links_def
proof (intro conjI allI impI)
  show "map fst (mp_actions pl2) = map fst (mp_actions pl)" using assms by (simp add: links_def)
  fix i a
  assume "act pl i = Some a"
  with assms(1) obtain b where "act pl1 i = Some b" "ma_id b = ma_id a" "ma_cap b = ma_cap a"
    "set (ma_deps b) \<subseteq> set (ma_deps a) \<union> K" unfolding links_def by blast
  moreover from this(1) assms(2) obtain c where "act pl2 i = Some c" "ma_id c = ma_id b" "ma_cap c = ma_cap b"
    "set (ma_deps c) \<subseteq> set (ma_deps b) \<union> K" unfolding links_def by blast
  ultimately show "\<exists>c. act pl2 i = Some c \<and> ma_id c = ma_id a \<and> ma_cap c = ma_cap a
        \<and> set (ma_deps c) \<subseteq> set (ma_deps a) \<union> K" by auto
qed

lemma links_foldl: "(\<And>s x. x \<in> set xs \<Longrightarrow> links K s (f s x)) \<Longrightarrow> links K s (foldl f s xs)"
proof (induction xs arbitrary: s)
  case (Cons x xs)
  then have "links K s (f s x)" "links K (f s x) (foldl f (f s x) xs)" by auto
  then show ?case using links_trans by simp
qed simp

lemma links_update:
  "(\<And>a. ma_id (f a) = ma_id a \<and> ma_cap (f a) = ma_cap a \<and> set (ma_deps (f a)) \<subseteq> set (ma_deps a) \<union> K)
     \<Longrightarrow> links K pl (update_action aid f pl)"
  by (auto simp: links_def update_action_get)

lemma links_blocks: "blocks_more pl pl' \<Longrightarrow> links K pl pl'"
  unfolding links_def blocks_more_def by fastforce

lemma links_add_inputs: "links K pl (update_action aid (add_inputs rs) pl)"
  by (rule links_update) (simp add: add_inputs_def)

lemma set_add_deps: "set (ma_deps (add_deps ids a)) = set (ma_deps a) \<union> set ids"
  using set_foldl_sadd_id [of "\<lambda>i. i" "ma_deps a" ids] by (simp add: add_deps_def)

lemma links_add_deps: "set ids \<subseteq> K \<Longrightarrow> links K pl (update_action aid (add_deps ids) pl)"
  by (rule links_update) (auto simp: set_add_deps, simp_all add: add_deps_def)

lemma links_if: "(c \<Longrightarrow> links K p q) \<Longrightarrow> (\<not> c \<Longrightarrow> links K p r) \<Longrightarrow> links K p (if c then q else r)"
  by simp

lemma links_kind: "group_members byKind \<subseteq> K \<Longrightarrow> links K pl (link_kind pf active byKind aid pl k)"
proof -
  assume "group_members byKind \<subseteq> K"
  with or_empty_members [of byKind k]
  have K: "set (filter (\<lambda>i. i \<noteq> aid) (or_empty (jget byKind k))) \<subseteq> K" by auto
  let ?pl = "update_action aid (add_inputs (map toResearchArtifactRef (or_empty (jget active k)))) pl"
  show ?thesis
  proof (cases "or_empty (jget active k) \<noteq> [] \<or> act ?pl aid = None")
    case True
    then show ?thesis
      unfolding link_kind_def Let_def with_action_def using links_add_inputs by auto
  next
    case False
    then obtain a where a: "act ?pl aid = Some a" and False': "\<not> or_empty (jget active k) \<noteq> []" by blast
    show ?thesis
      unfolding link_kind_def Let_def with_action_def a option.case if_not_P [OF False']
      by (rule links_trans [OF links_add_inputs [of K pl aid "map toResearchArtifactRef (or_empty (jget active k))"]],
          intro links_if links_add_inputs links_add_deps [OF K] links_blocks [OF blocks_more_blockAction])
  qed
qed

lemma links_capability: "group_members byCap \<subseteq> K \<Longrightarrow> links K pl (link_capability pf active cb byCap aid pl d)"
  using or_empty_members [of byCap d]
  by (auto simp: link_capability_def Let_def with_action_def split: option.splits
      intro!: links_blocks links_add_deps)

lemma links_target_parent: "snd ` set byTarget \<subseteq> K \<Longrightarrow> links K pl (link_target_parent lb byTarget aid pl p)"
  by (auto simp: link_target_parent_def Let_def split: option.splits
      intro!: links_add_inputs links_add_deps dest!: map_of_SomeD)

lemma links_target: "snd ` set byTarget \<subseteq> K \<Longrightarrow> links K pl (link_target lb byTarget aid pl r)"
  by (auto simp: link_target_def split: option.splits intro!: links_foldl links_target_parent)

lemma ids_of_keyed: "keyed pl \<Longrightarrow> ma_id ` set (jvals (mp_actions pl)) = fst ` set (mp_actions pl)"
  by (force simp: keyed_def jvals_def image_image)

lemma links_link:
  assumes "keyed pl"
  shows "links (fst ` set (mp_actions pl)) pl (linkArtifactAndCapabilityDependencies pf active cs lb pl)"
proof -
  let ?K = "fst ` set (mp_actions pl)"
  have K: "\<And>a. a \<in> set (jvals (mp_actions pl)) \<Longrightarrow> ma_id a \<in> ?K" using ids_of_keyed [OF assms] by blast
  have c: "group_members (groupActionsByCapability (mp_actions pl)) \<subseteq> ?K"
    unfolding groupActionsByCapability_def
    by (intro group_members_foldl group_members_push_in K) auto
  have k: "group_members (groupActionsByProducedKind (mp_actions pl)) \<subseteq> ?K"
    unfolding groupActionsByProducedKind_def
    by (intro group_members_foldl group_members_push_in K) auto
  have t: "snd ` set (groupActionsByTarget (mp_actions pl)) \<subseteq> ?K"
    unfolding groupActionsByTarget_def
    by (intro foldl_invariant [where P = "\<lambda>g. snd ` set g \<subseteq> ?K"])
       (auto dest!: in_set_jset intro: K)
  show ?thesis
    unfolding linkArtifactAndCapabilityDependencies_def Let_def for_actions_def
  proof (rule links_foldl)
    fix s i
    show "links ?K s (with_action (\<lambda>a pl'. update_action (ma_id a)
        (\<lambda>x. x\<lparr>ma_deps := removeAll (ma_id a) (ma_deps x)\<rparr>)
        (foldl (link_target lb (groupActionsByTarget (mp_actions pl)) (ma_id a))
          (foldl (link_capability pf active (of_keys cap_id cs) (groupActionsByCapability (mp_actions pl)) (ma_id a))
            (foldl (link_kind pf active (groupActionsByProducedKind (mp_actions pl)) (ma_id a)) pl'
              (cap_accepts (ma_cap a))) (cap_needs (ma_cap a))) (jvals (ma_targets a)))) s i)"
    proof (cases "act s i")
      case (Some a)
      show ?thesis
        unfolding with_action_def Some option.case
        by (rule links_trans, rule links_trans, rule links_trans, rule links_foldl, rule links_kind [OF k],
            rule links_foldl, rule links_capability [OF c], rule links_foldl, rule links_target [OF t],
            rule links_update, auto)
    qed (simp add: with_action_def)
  qed
qed

section \<open>Capability boundaries\<close>

definition cleared :: "platform \<Rightarrow> permissions \<Rightarrow> approval list \<Rightarrow> capability \<Rightarrow> bool" where
  "cleared pf p as c \<longleftrightarrow> cap_available c \<and> capabilityIsAllowed (cap_id c) p \<and>
     (\<forall>b. inferConfirmationBoundary c = Some b \<longrightarrow>
        (\<exists>r. approvalFor pf (cap_id c) b as = Some r \<and> appr_status r = Approved))"

lemma blocks_if: "blocks_more q (if c then blockAction pf i v q else q)"
  by (simp add: blocks_more_blockAction)

lemma blocks_option:
  "blocks_more q (case m of None \<Rightarrow> q | Some b \<Rightarrow> if c b then blockAction pf i (v b) q else q)"
  by (cases m) (simp_all add: blocks_more_blockAction)

lemma block_for_capability_blocks: "blocks_more pl (block_for_capability pf as p a pl)"
  unfolding block_for_capability_def Let_def
  by (rule blocks_more_trans [OF blocks_more_trans [OF blocks_if blocks_if] blocks_option])

lemma for_actions_blocks:
  assumes "\<And>a pl. blocks_more pl (f a pl)"
  shows "blocks_more pl (for_actions f pl)"
proof -
  have "blocks_more s (with_action f s i)" for s i
    using assms by (simp add: with_action_def split: option.split)
  then show ?thesis
    unfolding for_actions_def using blocks_more_foldl [of "\<lambda>s. s" "with_action f" pl] by simp
qed

lemma capability_boundaries_block: "blocks_more pl (applyCapabilityBoundaries pf as p pl)"
  unfolding applyCapabilityBoundaries_def
  by (rule for_actions_blocks) (rule block_for_capability_blocks)

interpretation capability_boundaries: blocking_pass "applyCapabilityBoundaries pf as p" for pf as p
  by unfold_locales (rule capability_boundaries_block)

lemma blocked_after_blockAction:
  assumes "blocks_more (blockAction pf i v pl) pl'" "act pl' i = Some b"
  shows "ma_blocked b \<noteq> []"
  by (rule blocks_more_get [OF assms]) (auto simp: blockAction_get)

lemma block_for_capability_clears:
  assumes "ma_id a = i" "act (block_for_capability pf as p a pl) i = Some b" "ma_blocked b = []"
  shows "cleared pf p as (ma_cap a)"
proof -
  let ?c = "ma_cap a"
  have no: False if "blocks_more (blockAction pf i v q) (block_for_capability pf as p a pl)" for v q
    using blocked_after_blockAction [OF that assms(2)] assms(3) by simp
  have av: "cap_available ?c"
  proof (rule ccontr)
    assume n: "\<not> cap_available ?c"
    show False
      by (rule no, unfold block_for_capability_def Let_def if_P [OF n] assms(1))
         (rule blocks_more_trans [OF blocks_if blocks_option])
  qed
  have al: "capabilityIsAllowed (cap_id ?c) p"
  proof (rule ccontr)
    assume n: "\<not> capabilityIsAllowed (cap_id ?c) p"
    show False
      by (rule no, unfold block_for_capability_def Let_def if_P [OF n] assms(1)) (rule blocks_option)
  qed
  have "\<exists>r. approvalFor pf (cap_id ?c) bd as = Some r \<and> appr_status r = Approved"
    if bd: "inferConfirmationBoundary ?c = Some bd" for bd
  proof (rule ccontr)
    assume n: "\<not> ?thesis"
    then have n': "approvalFor pf (cap_id ?c) bd as = None \<or>
        map_option appr_status (approvalFor pf (cap_id ?c) bd as) \<noteq> Some Approved" by auto
    show False
      by (rule no, unfold block_for_capability_def Let_def bd option.case if_P [OF n'] assms(1))
         (rule blocks_more_refl)
  qed
  with av al show ?thesis by (auto simp: cleared_def)
qed

lemma capability_boundaries_clear:
  assumes k: "keyed pl" and b: "act (applyCapabilityBoundaries pf as p pl) i = Some b" "ma_blocked b = []"
  shows "cleared pf p as (ma_cap b)"
proof -
  let ?f = "with_action (block_for_capability pf as p)"
  let ?fin = "applyCapabilityBoundaries pf as p pl"
  have step: "blocks_more s (?f s j)" for s j
    by (simp add: with_action_def block_for_capability_blocks split: option.split)
  have steps: "blocks_more s (foldl ?f s js)" for s js
    using blocks_more_foldl [of "\<lambda>s. s" ?f s js] step by simp
  have "i \<in> set (jkeys (mp_actions pl))"
    using capability_boundaries.pass_keeps [OF b] by (auto simp: jkeys_def dest: jget_in_keys)
  then obtain xs ys where "jkeys (mp_actions pl) = xs @ i # ys" by (meson split_list)
  then have e: "?fin = foldl ?f (?f (foldl ?f pl xs) i) ys"
    by (simp add: applyCapabilityBoundaries_def for_actions_def)
  let ?s = "foldl ?f pl xs"
  from b(1) have "act (foldl ?f (?f ?s i) ys) i = Some b" using e by simp
  then obtain c where c: "act (?f ?s i) i = Some c" "b = c\<lparr>ma_blocked := ma_blocked b\<rparr>"
    "ma_blocked c \<noteq> [] \<longrightarrow> ma_blocked b \<noteq> []"
    by (rule blocks_more_get [OF steps])
  with b(2) have cb: "ma_blocked c = []" "ma_cap c = ma_cap b" by auto
  obtain a where a: "act ?s i = Some a" "c = a\<lparr>ma_blocked := ma_blocked c\<rparr>"
    using blocks_more_get [OF step c(1)] by blast
  have "ma_id a = i" using keyed_get [OF keyed_blocks_more [OF k steps] a(1)] .
  moreover have "act (block_for_capability pf as p a ?s) i = Some c" using c(1) a(1) by (simp add: with_action_def)
  ultimately have "cleared pf p as (ma_cap a)" using block_for_capability_clears cb(1) by blast
  moreover have "ma_cap a = ma_cap c" using a(2) by (metis mutable_action.select_convs(2) mutable_action.surjective mutable_action.update_convs(8))
  ultimately show ?thesis using cb by simp
qed

end
