(* ===== verification/Director_Decision.thy ===== *)
theory Director_Decision
  imports Director_Planner
begin

text \<open>
  The decision half of \<open>src/research/director/planner.ts\<close>: a plan record is checked, its
  execution receipts are normalised against it, and one decision is derived with the sets
  of completed, retried, discarded and next actions.
\<close>

section \<open>Fixed stage fields\<close>

definition stage_key :: "string \<Rightarrow> bool" where
  "stage_key k \<longleftrightarrow> k = ''currentStage'' \<or> k = ''nextStageId''"

function (sequential) assertNoFixedStageFields :: "js \<Rightarrow> (director_error, unit) result" where
  "assertNoFixedStageFields (JArr vs) =
     rmap (\<lambda>_. ()) (traverse assertNoFixedStageFields vs)"
| "assertNoFixedStageFields (JObj es) =
     rmap (\<lambda>_. ()) (traverse (\<lambda>e. if stage_key (fst e) then Inl (Fixed_stage_field (fst e))
                                  else assertNoFixedStageFields (snd e)) es)"
| "assertNoFixedStageFields _ = Inr ()"
  by pat_completeness auto
termination
proof (relation "measure size", goal_cases)
  case 1
  show ?case by simp
next
  case (2 vs x)
  then show ?case by (induction vs) auto
next
  case (3 es e)
  then have "(fst e, snd e) \<in> set es" by simp
  from size_list_entry [OF this] show ?case by simp
qed

fun stage_free :: "js \<Rightarrow> bool" where
  "stage_free (JArr vs) \<longleftrightarrow> list_all stage_free vs"
| "stage_free (JObj es) \<longleftrightarrow> list_all (\<lambda>e. \<not> stage_key (fst e) \<and> stage_free (snd e)) es"
| "stage_free _ \<longleftrightarrow> True"

lemma traverse_unit_iff:
  "(\<exists>ys. traverse f xs = Inr ys) \<longleftrightarrow> (\<forall>x \<in> set xs. \<exists>y. f x = Inr y)"
  by (induction xs) (auto simp: rbind_eq_Inr)

lemma stage_free_iff: "assertNoFixedStageFields v = Inr () \<longleftrightarrow> stage_free v"
proof (induction v rule: assertNoFixedStageFields.induct)
  case (1 vs)
  have "assertNoFixedStageFields (JArr vs) = Inr () \<longleftrightarrow>
          (\<exists>ys. traverse assertNoFixedStageFields vs = Inr ys)"
    by (auto simp: rmap_eq_Inr)
  then show ?case using 1 by (simp add: traverse_unit_iff list_all_iff)
next
  case (2 es)
  have "assertNoFixedStageFields (JObj es) = Inr () \<longleftrightarrow>
          (\<exists>ys. traverse (\<lambda>e. if stage_key (fst e) then Inl (Fixed_stage_field (fst e))
                              else assertNoFixedStageFields (snd e)) es = Inr ys)"
    by (auto simp: rmap_eq_Inr)
  also have "\<dots> \<longleftrightarrow> (\<forall>e \<in> set es. \<not> stage_key (fst e) \<and> assertNoFixedStageFields (snd e) = Inr ())"
    by (auto simp: traverse_unit_iff)
  finally show ?case using 2 by (auto simp: list_all_iff)
qed auto

definition hasApprovedDirectorReceipt :: "js \<Rightarrow> bool" where
  "hasApprovedDirectorReceipt v =
     (case array_items (entry ''approvals'' v) of None \<Rightarrow> False
      | Some rs \<Rightarrow> list_ex (\<lambda>r. is_record r \<and> entry ''status'' r = JStr ''approved'') rs)"

section \<open>The decision\<close>

fun retryable :: "receipt \<Rightarrow> bool option" where
  "retryable r = map_option rerr_retryable (rec_error r)"

definition decide :: "receipt list \<Rightarrow> 'a plan_body_scheme \<Rightarrow> decision_kind" where
  "decide rs p =
     (if list_ex (\<lambda>r. rec_status r = Failed \<and> retryable r = Some True) rs
         \<or> list_ex (\<lambda>r. rec_status r = Blocked) rs then Recover
      else if list_ex (\<lambda>r. rec_status r = Failed \<and> retryable r = Some False) rs then Eliminate
      else if list_ex (\<lambda>r. rec_outcome r = Some Artifact_revision_required) rs then Revise
      else if list_ex (\<lambda>r. rec_outcome r = Some Evidence_incomplete) rs then Rescan
      else if list_ex (\<lambda>r. rec_outcome r = Some Candidate_rejected) rs then Eliminate
      else if list_ex (\<lambda>r. rec_outcome r = Some Candidate_supported) rs then Branch
      else if list_ex (\<lambda>r. rec_status r = Cancelled \<or> rec_outcome r = Some Objective_satisfied) rs then Stop
      else if list_ex (\<lambda>a. act_blocked a = [] \<and> act_id a \<notin> set (map rec_action rs)) (plan_actions p)
      then Branch else Stop)"

fun rationale_text :: "decision_kind \<Rightarrow> nat \<Rightarrow> string" where
  "rationale_text Branch n = ''Continue along dependency-safe alternatives; '' @ show_nat n
     @ '' planned action(s) remain.''"
| "rationale_text Eliminate n =
     ''Stop investing in the rejected or non-recoverable alternative recorded by the receipts.''"
| "rationale_text Rescan n = ''Refresh the evidence boundary before choosing another research action.''"
| "rationale_text Revise n = ''Revise the affected artifact contract before resuming dependent work.''"
| "rationale_text Recover n =
     ''Retry only blocked or explicitly retryable failed actions after resolving their recorded boundary.''"
| "rationale_text Stop n = ''No further action is justified by the current receipts and plan boundary.''"

definition decisionRationale :: "decision_kind \<Rightarrow> receipt list \<Rightarrow> nat \<Rightarrow> string" where
  "decisionRationale d rs n =
     rationale_text d n @ '' Consumed '' @ show_nat (length rs) @ '' execution receipt(s).''"

definition uniqueSorted :: "platform \<Rightarrow> string list \<Rightarrow> string list" where
  "uniqueSorted pf vs = sort_by (compareText pf) (foldl (\<lambda>s v. sadd v s) [] vs)"

definition mergeRefs :: "platform \<Rightarrow> artifact_ref list list \<Rightarrow> artifact_ref list" where
  "mergeRefs pf groups =
     sort_by (compareRefKeys pf) (jvals (foldl (\<lambda>m r. jset (refKey r) r m) [] (concat groups)))"

definition retried :: "receipt \<Rightarrow> bool" where
  "retried r \<longleftrightarrow> rec_status r = Blocked \<or> (rec_status r = Failed \<and> retryable r = Some True)"

definition discarded :: "receipt \<Rightarrow> bool" where
  "discarded r \<longleftrightarrow> rec_status r = Cancelled \<or> (rec_status r = Failed \<and> retryable r = Some False)
     \<or> rec_outcome r = Some Candidate_rejected"

definition pending_actions :: "'a plan_body_scheme \<Rightarrow> receipt list \<Rightarrow> string list" where
  "pending_actions p rs = map act_id
     (filter (\<lambda>a. act_blocked a = [] \<and> act_id a \<notin> set (map rec_action rs)) (plan_actions p))"

definition next_actions ::
  "platform \<Rightarrow> decision_kind \<Rightarrow> 'a plan_body_scheme \<Rightarrow> receipt list \<Rightarrow> string list" where
  "next_actions pf d p rs =
     (if d = Recover then uniqueSorted pf (map rec_action (filter retried rs))
      else if d \<in> {Branch, Rescan, Revise} then uniqueSorted pf (pending_actions p rs)
      else [])"

definition receipt_identity_json :: "receipt \<Rightarrow> js" where
  "receipt_identity_json r = JObj
     [(''receiptId'', JStr (rec_id r)), (''status'', JStr (receipt_status_text (rec_status r))),
      (''outcome'', case rec_outcome r of None \<Rightarrow> JNull | Some x \<Rightarrow> JStr (outcome_text x)),
      (''retryable'', case retryable r of None \<Rightarrow> JNull | Some b \<Rightarrow> JBool b)]"

definition createResearchDirectorDecision ::
  "platform \<Rightarrow> (string \<Rightarrow> int option) \<Rightarrow> decision_input \<Rightarrow> (director_error, decision) result" where
  "createResearchDirectorDecision pf dp inp =
     rbind (assertPlanRecord pf dp (di_plan inp)) (\<lambda>p.
     rbind (assertNoFixedStageFields (plan_json p)) (\<lambda>_.
     rbind (normalizeExecutionReceipts pf dp (di_receipts inp) p) (\<lambda>rs.
     rbind (normalizeApprovalReceipts dp (di_approvals inp)) (\<lambda>_.
     let d = decide rs p in
     rbind (case di_id inp of
              None \<Rightarrow> Inr (directorRecordId pf ''director-decision'' (JObj
                [(''planId'', JStr (plan_id p)),
                 (''receipts'', JArr (map receipt_identity_json rs))]))
            | Some i \<Rightarrow> safeIdentifier i ''decisionId'') (\<lambda>did.
       lift_director (sealDirectorDecisionRecord pf
         \<lparr>dec_id = did, dec_plan = plan_id p, dec_created = iso_string (di_now inp), dec_kind = d,
          dec_rationale = decisionRationale d rs (length (pending_actions p rs)),
          dec_receipts = sort_by (compareText pf) (map rec_id rs),
          dec_completed = uniqueSorted pf (map rec_action (filter (\<lambda>r. rec_status r = Succeeded) rs)),
          dec_retry = uniqueSorted pf (map rec_action (filter retried rs)),
          dec_discarded = uniqueSorted pf (map rec_action (filter discarded rs)),
          dec_next = next_actions pf d p rs,
          dec_outputs = mergeRefs pf (map rec_outputs rs),
          dec_findings = plan_findings p, dec_boundaries = plan_boundaries p,
          dec_cost = sum_list (map rec_cost rs), dec_duration = sum_list (map rec_duration rs)\<rparr>))))))"

end
