(* ===== verification/Director_Promises.thy ===== *)
theory Director_Promises
  imports Director_Plans Director_Decision
begin

text \<open>
  The promises of \<open>createResearchDirectorPlan\<close> about the plan record it returns, and of
  \<open>createResearchDirectorDecision\<close> about the decision.
\<close>

section \<open>What normalisation guarantees\<close>

lemma traverse_set: "traverse f xs = Inr ys \<Longrightarrow> y \<in> set ys \<Longrightarrow> \<exists>x \<in> set xs. f x = Inr y"
  by (induction xs arbitrary: ys) (auto simp: rbind_eq_Inr)

lemma map_indexed_set: "map_indexed f xs = Inr ys \<Longrightarrow> y \<in> set ys \<Longrightarrow> \<exists>i x. x \<in> set xs \<and> f i x = Inr y"
  unfolding map_indexed_def by (drule (1) traverse_set) (auto dest: set_zip_rightD)

lemma nonNegative_Inr: "nonNegativeNumber v l = Inr w \<longleftrightarrow> w = v \<and> 0 \<le> v"
  by (auto simp: nonNegativeNumber_def)

lemma normalizeCapability_amounts:
  "normalizeCapability pf i v = Inr c \<Longrightarrow> 0 \<le> cap_cost c \<and> 0 \<le> cap_duration c"
  unfolding normalizeCapability_def by (auto simp only: rbind_eq_Inr nonNegative_Inr sum.inject capability.simps)

lemma normalizeCapabilities_amounts:
  assumes "normalizeCapabilities pf vs = Inr caps" "c \<in> set caps"
  shows "0 \<le> cap_cost c \<and> 0 \<le> cap_duration c"
proof -
  from assms obtain cs where "map_indexed (normalizeCapability pf) vs = Inr cs" "c \<in> set cs"
    by (auto simp: normalizeCapabilities_def rbind_eq_Inr split: if_splits)
  from map_indexed_set [OF this] show ?thesis using normalizeCapability_amounts by blast
qed

lemma optional_Inr: "optional f m = Inr n \<longleftrightarrow>
    (case m of None \<Rightarrow> n = None | Some x \<Rightarrow> (\<exists>y. f x = Inr y \<and> n = Some y))"
  by (cases m) (auto simp: optional_def rmap_eq_Inr)

lemma normalizeBudget_available:
  assumes "normalizeBudget b = Inr bud"
  shows "0 \<le> bud_limit bud - bud_spent bud"
    and "bud_limit_ms bud = Some l \<Longrightarrow> bud_spent_ms bud = Some s \<Longrightarrow> 0 \<le> l - s"
  using assms unfolding normalizeBudget_def
  by (auto simp: rbind_eq_Inr nonNegative_Inr optional_Inr split: option.splits)

section \<open>Scheduling\<close>

lemma batches_rounds:
  assumes "keyed pl" "createReadyBatches pf (mp_actions pl) = Inr bs"
  obtains rs where "rounds (eligible_actions pf (mp_actions pl)) {} rs" "bs = make_batches pf 0 rs"
  using assms(2) batch_loop_rounds [OF eligible_set(2) [OF assms(1)], where c = "[]" and pf = pf and acc = "[]" and bs = bs]
  by (auto simp: createReadyBatches_def)

lemma set_bat_ids: "set (concat (map bat_actions (make_batches pf n rs))) = action_ids (concat rs)"
  by (induction rs arbitrary: n) (auto simp: make_batch_def action_ids_def)

lemma bat_ids_nth:
  "i < length rs \<Longrightarrow> set (bat_actions (make_batches pf n rs ! i)) = action_ids (rs ! i)"
  using arg_cong [OF ids_make_batches [of pf n rs], of "\<lambda>l. l ! i"] by simp

lemma mset_bat_ids:
  "mset (concat (map bat_actions (make_batches pf n rs))) = mset (map ma_id (concat rs))"
  by (induction rs arbitrary: n) (simp_all add: make_batch_def)

lemma batches_ids:
  assumes "keyed pl" "createReadyBatches pf (mp_actions pl) = Inr bs"
  shows "set (concat (map bat_actions bs)) = unblocked pl" "distinct (concat (map bat_actions bs))"
proof -
  obtain rs where r: "rounds (eligible_actions pf (mp_actions pl)) {} rs" "bs = make_batches pf 0 rs"
    using batches_rounds [OF assms] .
  show "set (concat (map bat_actions bs)) = unblocked pl"
    using set_bat_ids [of pf 0 rs] rounds_ids [OF r(1)] eligible_set(3) [OF assms(1), of pf] r(2) by simp
  have "distinct (map ma_id (concat rs))" using rounds_distinct [OF r(1) eligible_set(2) [OF assms(1)]] .
  then show "distinct (concat (map bat_actions bs))"
    using mset_eq_imp_distinct_iff [OF mset_bat_ids [of pf 0 rs]] r(2) by simp
qed

lemma batches_in_order:
  assumes "keyed pl" "createReadyBatches pf (mp_actions pl) = Inr bs"
    and "i < length bs" "x \<in> set (bat_actions (bs ! i))" "act pl x = Some a"
    and "d \<in> set (ma_deps a)" "d \<in> unblocked pl"
  shows "\<exists>j < i. d \<in> set (bat_actions (bs ! j))"
proof -
  let ?el = "eligible_actions pf (mp_actions pl)"
  obtain rs where r: "rounds ?el {} rs" "bs = make_batches pf 0 rs" using batches_rounds [OF assms(1,2)] .
  have i: "i < length rs" using assms(3) r(2) by simp
  have "x \<in> action_ids (rs ! i)" using assms(4) bat_ids_nth [OF i] r(2) by simp
  then obtain b where b: "b \<in> set (rs ! i)" "ma_id b = x" by (auto simp: action_ids_def)
  then have "b \<in> set ?el" using rounds_subset [OF r(1)] i by fastforce
  then obtain k where "act pl k = Some b" using eligible_set(1) [OF assms(1)] by blast
  then have "b = a" using keyed_get [OF assms(1), of k b] b(2) assms(5) by simp
  then have "d \<in> needs ?el b" using assms(6,7) eligible_set(3) [OF assms(1), of pf] by (simp add: needs_def)
  from ordered_nth [OF rounds_ordered [OF r(1)] i b(1) this]
  obtain j where "j < i" "d \<in> action_ids (rs ! j)" by auto
  then show ?thesis using bat_ids_nth [of j rs pf 0] i r(2) by auto
qed

lemma schedule_InrE:
  assumes "schedule_actions pf bud pl0 = Inr (pl, bs)"
  obtains (units) b1 pl1 where "bud_limit_ms bud = None \<or> bud_spent_ms bud = None"
      "pl1 = cascadeBlockedDependencies pf pl0" "createReadyBatches pf (mp_actions pl1) = Inr b1"
      "pl = cascadeBlockedDependencies pf (applyCostBudget pf b1 (bud_limit bud - bud_spent bud) pl1)"
      "createReadyBatches pf (mp_actions pl) = Inr bs"
  | (both) b1 b2 pl1 pl3 l s where "bud_limit_ms bud = Some l" "bud_spent_ms bud = Some s"
      "pl1 = cascadeBlockedDependencies pf pl0" "createReadyBatches pf (mp_actions pl1) = Inr b1"
      "pl3 = cascadeBlockedDependencies pf (applyCostBudget pf b1 (bud_limit bud - bud_spent bud) pl1)"
      "createReadyBatches pf (mp_actions pl3) = Inr b2"
      "pl = cascadeBlockedDependencies pf (applyDurationBudget pf b2 (l - s) pl3)"
      "createReadyBatches pf (mp_actions pl) = Inr bs"
proof -
  let ?pl1 = "cascadeBlockedDependencies pf pl0"
  let ?pl3 = "\<lambda>b1. cascadeBlockedDependencies pf (applyCostBudget pf b1 (bud_limit bud - bud_spent bud) ?pl1)"
  from assms obtain b1 b2 where b: "createReadyBatches pf (mp_actions ?pl1) = Inr b1"
    "createReadyBatches pf (mp_actions (?pl3 b1)) = Inr b2"
    and rest: "(case (bud_limit_ms bud, bud_spent_ms bud) of
        (Some limit, Some spent) \<Rightarrow>
          rbind (createReadyBatches pf (mp_actions (cascadeBlockedDependencies pf
              (applyDurationBudget pf b2 (limit - spent) (?pl3 b1)))))
            (\<lambda>b3. Inr (cascadeBlockedDependencies pf (applyDurationBudget pf b2 (limit - spent) (?pl3 b1)), b3))
      | _ \<Rightarrow> Inr (?pl3 b1, b2)) = Inr (pl, bs)"
    unfolding schedule_actions_def Let_def rbind_eq_Inr by blast
  show thesis
  proof (cases "bud_limit_ms bud")
    case None
    with rest b show thesis by (intro units [OF _ refl b(1)]) auto
  next
    case l: (Some l)
    show thesis
    proof (cases "bud_spent_ms bud")
      case None
      with l rest b show thesis by (intro units [OF _ refl b(1)]) auto
    next
      case s: (Some s)
      from rest [unfolded l s] show thesis
        by (intro both [OF l s refl b(1) refl b(2)]) (auto simp: rbind_eq_Inr)
    qed
  qed
qed

lemma schedule_result:
  assumes "schedule_actions pf bud pl0 = Inr (pl, bs)"
  shows "blocks_more pl0 pl" "deps_clear pl" "createReadyBatches pf (mp_actions pl) = Inr bs"
proof -
  note c = cascade_blocks and u = cost_budget_blocks and d = duration_budget_blocks
  show "blocks_more pl0 pl"
    using assms
  proof (cases rule: schedule_InrE)
    case units
    then show ?thesis using blocks_more_trans [OF blocks_more_trans [OF c u] c] by simp
  next
    case both
    then show ?thesis
      using blocks_more_trans [OF blocks_more_trans [OF blocks_more_trans [OF blocks_more_trans [OF c u] c] d] c]
      by simp
  qed
  show "deps_clear pl" "createReadyBatches pf (mp_actions pl) = Inr bs"
    using assms cascade_deps_clear by (cases rule: schedule_InrE; simp)+
qed

lemma schedule_units:
  assumes "schedule_actions pf bud pl0 = Inr (pl, bs)" "keyed pl0" "amounts_ok pl0"
    and "0 \<le> bud_limit bud - bud_spent bud"
  shows "(\<Sum>i \<in> unblocked pl. cost_of pl i) \<le> bud_limit bud - bud_spent bud"
proof -
  obtain b1 pl1 where p: "pl1 = cascadeBlockedDependencies pf pl0" "createReadyBatches pf (mp_actions pl1) = Inr b1"
    and more: "blocks_more (applyCostBudget pf b1 (bud_limit bud - bud_spent bud) pl1) pl"
    using assms(1)
  proof (cases rule: schedule_InrE)
    case (units b1 pl1)
    then show thesis using that [of pl1 b1] cascade_blocks by simp
  next
    case (both b1 b2 pl1 pl3 l s)
    note m = blocks_more_trans [OF blocks_more_trans [OF cascade_blocks duration_budget_blocks] cascade_blocks]
    from both show thesis using that [of pl1 b1] m by simp
  qed
  have "keyed pl1" using p(1) cascade.pass_keyed [OF assms(2)] by simp
  moreover have "amounts_ok pl1" using p(1) amounts_more [OF cascade_blocks assms(3)] by simp
  ultimately show ?thesis
    using cost_budget_bound [OF assms(4) _ _ more] batches_ids(1) [OF _ p(2)] by simp
qed

lemma schedule_time:
  assumes "schedule_actions pf bud pl0 = Inr (pl, bs)" "keyed pl0" "amounts_ok pl0" "total_preorder (pf_le pf)"
    and "bud_limit_ms bud = Some l" "bud_spent_ms bud = Some s" "0 \<le> l - s"
  shows "sum_list (map bat_duration bs) \<le> l - s"
  using assms(1)
proof (cases rule: schedule_InrE)
  case units
  then show ?thesis using assms by simp
next
  case (both b1 b2 pl1 pl3 l' s')
  note m = blocks_more_trans [OF blocks_more_trans [OF cascade_blocks cost_budget_blocks] cascade_blocks]
  have m3: "blocks_more pl0 pl3" using both m by simp
  show ?thesis
    by (rule duration_budget_bound [OF assms(4,7) amounts_more [OF m3 assms(3)] keyed_blocks_more [OF assms(2) m3] both(6)])
       (use both assms cascade_blocks cascade_deps_clear in auto)
qed

section \<open>From the input to the record\<close>

lemma blocked_update_fields:
  "a = b\<lparr>ma_blocked := x\<rparr> \<Longrightarrow> ma_id a = ma_id b \<and> ma_cap a = ma_cap b \<and> ma_deps a = ma_deps b"
  by simp

lemma propose_result:
  assumes "propose_actions pf perms apprs caps latest missing = Inr pl"
  shows "keyed pl"
    and "act pl i = Some a \<Longrightarrow> ma_cap a \<in> set caps"
    and "act pl i = Some a \<Longrightarrow> set (ma_deps a) \<subseteq> fst ` set (mp_actions pl)"
    and "act pl i = Some a \<Longrightarrow> ma_blocked a = [] \<Longrightarrow> cleared pf perms apprs (ma_cap a)"
proof -
  let ?lb = "of_keys envelope_key latest" and ?ac = "groupActiveArtifactsByKind latest"
  let ?p0 = "foldl (missing_parent_boundary pf) \<lparr>mp_actions = [], mp_boundaries = []\<rparr> missing"
  have p0: "proposed (set caps) ?p0"
  proof (rule foldl_invariant)
    show "proposed (set caps) \<lparr>mp_actions = [], mp_boundaries = []\<rparr>" by (simp add: proposed_def keyed_def)
  qed (simp add: missing_parent_boundary_def)
  from assms obtain p1 where
    i: "(if filter (\<lambda>a. art_status a = Stale) latest \<noteq> [] \<or> findUnresolvedFindings latest \<noteq> []
         then addRepairActions pf (filter (\<lambda>a. art_status a = Stale) latest) (findUnresolvedFindings latest) ?lb
                (producersByKind pf caps perms apprs) ?p0
         else Inr (addAdvanceActions pf caps ?ac ?p0)) = Inr p1"
    and pl: "pl = applyCapabilityBoundaries pf apprs perms (linkArtifactAndCapabilityDependencies pf ?ac caps ?lb p1)"
    unfolding propose_actions_def Let_def rbind_eq_Inr by (elim exE conjE) (simp only: sum.inject)
  have p1: "proposed (set caps) p1"
  proof (cases "filter (\<lambda>a. art_status a = Stale) latest \<noteq> [] \<or> findUnresolvedFindings latest \<noteq> []")
    case True
    from i [unfolded if_P [OF True]] show ?thesis by (rule proposed_repair [OF p0 producers_members])
  next
    case False
    from i [unfolded if_not_P [OF False]] have "p1 = addAdvanceActions pf caps ?ac ?p0" by simp
    then show ?thesis using proposed_advance [OF p0 subset_refl] by simp
  qed
  let ?p2 = "linkArtifactAndCapabilityDependencies pf ?ac caps ?lb p1"
  have k1: "keyed p1" using p1 by (simp add: proposed_def)
  have L: "links (fst ` set (mp_actions p1)) p1 ?p2" using links_link [OF k1] .
  have keys2: "fst ` set (mp_actions ?p2) = fst ` set (mp_actions p1)"
    using L unfolding links_def by (metis image_set)
  have two: "ma_id b = j \<and> ma_cap b \<in> set caps \<and> set (ma_deps b) \<subseteq> fst ` set (mp_actions p1)"
    if "act ?p2 j = Some b" for j b
  proof -
    have "j \<in> fst ` set (mp_actions p1)" using jget_in_keys [OF that] unfolding keys2 .
    then obtain a where a: "act p1 j = Some a" unfolding in_keys_jget by blast
    with L obtain b' where b': "act ?p2 j = Some b'" "ma_id b' = ma_id a" "ma_cap b' = ma_cap a"
      "set (ma_deps b') \<subseteq> set (ma_deps a) \<union> fst ` set (mp_actions p1)"
      unfolding links_def by blast
    have "b' = b" using that b'(1) by simp
    moreover have "ma_cap a \<in> set caps" "ma_deps a = []" using p1 a by (auto simp: proposed_def)
    ultimately show ?thesis using b' keyed_get [OF k1 a] by simp
  qed
  have k2: "keyed ?p2"
    unfolding keyed_def
  proof
    show d: "distinct (map fst (mp_actions ?p2))" using k1 L by (simp add: keyed_def links_def)
    show "\<forall>e \<in> set (mp_actions ?p2). ma_id (snd e) = fst e"
      using two d by (auto simp: )
  qed
  show k: "keyed pl" using capability_boundaries.pass_keyed [OF k2] pl by simp
  have B: "blocks_more ?p2 pl" using capability_boundaries_block pl by simp
  show "ma_cap a \<in> set caps" if a: "act pl i = Some a"
    by (rule blocks_more_get [OF B a]) (metis blocked_update_fields two)
  show "set (ma_deps a) \<subseteq> fst ` set (mp_actions pl)" if a: "act pl i = Some a"
  proof -
    from blocks_more_get [OF B a] obtain b where b: "act ?p2 i = Some b" "a = b\<lparr>ma_blocked := ma_blocked a\<rparr>" by blast
    then have "ma_deps a = ma_deps b" by (metis blocked_update_fields)
    with two [OF b(1)] keys2 keys_more [OF B] show ?thesis by simp
  qed
  show "cleared pf perms apprs (ma_cap a)" if "act pl i = Some a" "ma_blocked a = []"
    using capability_boundaries_clear [OF k2] that pl by blast
qed

lemma seal_plan_Inr:
  assumes "lift_director (sealDirectorPlanRecord pf b) = Inr p"
  shows "\<exists>h. p = plan_body.extend b (plan.fields h)"
  using assms unfolding lift_director_def sealDirectorPlanRecord_def
  by (auto simp: rmap_eq_Inr split: sum.splits)

lemma seal_plan_fields:
  assumes "lift_director (sealDirectorPlanRecord pf b) = Inr p"
  shows "plan_actions p = plan_actions b" "plan_batches p = plan_batches b"
    "plan_projection p = plan_projection b" "plan_boundaries p = plan_boundaries b" "plan_mode p = plan_mode b"
  using seal_plan_Inr [OF assms] by (auto simp: plan_body.extend_def plan.fields_def)

lemma assemble_plan_fields:
  assumes "assemble_plan pf inp g caps bud perms apprs latest pl batches = Inr p"
  shows "plan_actions p = freezeActions pf (mp_actions pl)" "plan_batches p = batches"
    "plan_projection p = project_budget bud (freezeActions pf (mp_actions pl)) batches"
    "plan_boundaries p = sort_by (\<lambda>x y. compareText pf (bv_id x) (bv_id y)) (jvals (mp_boundaries pl))"
proof -
  from assms obtain b where "lift_director (sealDirectorPlanRecord pf b) = Inr p"
    "plan_actions b = freezeActions pf (mp_actions pl)" "plan_batches b = batches"
    "plan_projection b = project_budget bud (freezeActions pf (mp_actions pl)) batches"
    "plan_boundaries b = sort_by (\<lambda>x y. compareText pf (bv_id x) (bv_id y)) (jvals (mp_boundaries pl))"
    unfolding assemble_plan_def Let_def rbind_eq_Inr by (elim exE conjE) simp
  with seal_plan_fields show "plan_actions p = freezeActions pf (mp_actions pl)" "plan_batches p = batches"
    "plan_projection p = project_budget bud (freezeActions pf (mp_actions pl)) batches"
    "plan_boundaries p = sort_by (\<lambda>x y. compareText pf (bv_id x) (bv_id y)) (jvals (mp_boundaries pl))"
    by metis+
qed

lemma plan_InrE:
  assumes "createResearchDirectorPlan pf dp inp = Inr p"
  obtains g caps bud perms apprs latest missing pl0 pl bs where
    "normalizeCapabilities pf (pi_capabilities inp) = Inr caps"
    "normalizeBudget (pi_budget inp) = Inr bud"
    "normalizePermissions pf (pi_permissions inp) = Inr perms"
    "normalizeApprovalReceipts dp (pi_approvals inp) = Inr apprs"
    "propose_actions pf perms apprs caps latest missing = Inr pl0"
    "schedule_actions pf bud pl0 = Inr (pl, bs)"
    "assemble_plan pf inp g caps bud perms apprs latest pl bs = Inr p"
proof -
  from assms obtain g caps bud perms apprs artifacts missing pl0 r where
    "normalizeCapabilities pf (pi_capabilities inp) = Inr caps"
    "normalizeBudget (pi_budget inp) = Inr bud"
    "normalizePermissions pf (pi_permissions inp) = Inr perms"
    "normalizeApprovalReceipts dp (pi_approvals inp) = Inr apprs"
    "propose_actions pf perms apprs caps (latestResearchArtifactRevisions (pf_le pf) artifacts) missing
       = Inr pl0"
    "schedule_actions pf bud pl0 = Inr r"
    "(case r of (pl, bs) \<Rightarrow> assemble_plan pf inp g caps bud perms apprs
        (latestResearchArtifactRevisions (pf_le pf) artifacts) pl bs) = Inr p"
    unfolding createResearchDirectorPlan_def Let_def rbind_eq_Inr by (elim exE conjE) (rule that)
  then show thesis by (cases r) (auto intro: that)
qed

lemma in_plan_actions:
  assumes "keyed pl"
  shows "a \<in> set (freezeActions pf (mp_actions pl)) \<longleftrightarrow> (\<exists>i m. act pl i = Some m \<and> a = freeze_action pf m)"
proof -
  have "m \<in> set (jvals (mp_actions pl)) \<longleftrightarrow> (\<exists>i. act pl i = Some m)" for m
    using assms jvals_act [OF assms] by (auto simp: jvals_def keyed_def dest: map_of_SomeD intro: rev_image_eqI)
  then show ?thesis by (auto simp: freezeActions_def) blast
qed

lemma act_blocked_Nil: "act_blocked (freeze_action pf m) = [] \<longleftrightarrow> ma_blocked m = []"
  by (simp add: freeze_action_def)

lemma frozen_fields [simp]:
  "act_id (freeze_action pf m) = ma_id m" "set (act_depends (freeze_action pf m)) = set (ma_deps m)"
  "act_cost (freeze_action pf m) = cap_cost (ma_cap m)" "act_capability (freeze_action pf m) = cap_id (ma_cap m)"
  by (simp_all add: freeze_action_def)

lemma unblocked_frozen:
  assumes "keyed pl"
  shows "act_id ` {a \<in> set (freezeActions pf (mp_actions pl)). act_blocked a = []} = unblocked pl"
proof (intro set_eqI iffI)
  fix i
  assume "i \<in> act_id ` {a \<in> set (freezeActions pf (mp_actions pl)). act_blocked a = []}"
  then obtain k m where "act pl k = Some m" "ma_blocked m = []" "i = ma_id m"
    unfolding in_plan_actions [OF assms] by (auto simp: act_blocked_Nil)
  then show "i \<in> unblocked pl" using keyed_get [OF assms] by (auto simp: unblocked_get)
next
  fix i
  assume "i \<in> unblocked pl"
  then obtain m where "act pl i = Some m" "ma_blocked m = []" by (auto simp: unblocked_get)
  then show "i \<in> act_id ` {a \<in> set (freezeActions pf (mp_actions pl)). act_blocked a = []}"
    using keyed_get [OF assms, of i m] in_plan_actions [OF assms]
    by (intro image_eqI [of _ _ "freeze_action pf m"]) (auto simp: act_blocked_Nil)
qed

text \<open>
  C9: In every plan the ready batches hold exactly the unblocked actions, each once, and an
  action's dependencies, all of them, are in strictly earlier batches.
\<close>

theorem plan_batches_ordered:
  assumes "createResearchDirectorPlan pf dp inp = Inr p"
  shows "distinct (concat (map bat_actions (plan_batches p))) \<and>
    set (concat (map bat_actions (plan_batches p))) = act_id ` {a \<in> set (plan_actions p). act_blocked a = []} \<and>
    (\<forall>i < length (plan_batches p). \<forall>a \<in> set (plan_actions p). act_id a \<in> set (bat_actions (plan_batches p ! i)) \<longrightarrow>
       (\<forall>d \<in> set (act_depends a). \<exists>j < i. d \<in> set (bat_actions (plan_batches p ! j))))"
proof -
  from assms obtain g caps bud perms apprs latest missing pl0 pl bs where
    P: "propose_actions pf perms apprs caps latest missing = Inr pl0" and
    S: "schedule_actions pf bud pl0 = Inr (pl, bs)" and
    A: "assemble_plan pf inp g caps bud perms apprs latest pl bs = Inr p" by (rule plan_InrE)
  note B = schedule_result(1) [OF S] and fields = assemble_plan_fields [OF A]
  have k: "keyed pl" using keyed_blocks_more [OF propose_result(1) [OF P] B] .
  note ids = batches_ids [OF k schedule_result(3) [OF S]]
  have "\<exists>j < i. d \<in> set (bat_actions (bs ! j))"
    if "i < length bs" "a \<in> set (plan_actions p)" "act_id a \<in> set (bat_actions (bs ! i))" "d \<in> set (act_depends a)"
    for i a d
  proof -
    from that(2) fields(1) obtain x m where m: "act pl x = Some m" "a = freeze_action pf m"
      using in_plan_actions [OF k] by auto
    then have x: "act_id a = x" using keyed_get [OF k m(1)] by simp
    have "act_id a \<in> unblocked pl" using that(3) ids(1) nth_mem [OF that(1)] by auto
    with m x have "ma_blocked m = []" by (simp add: unblocked_get)
    moreover have d: "d \<in> set (ma_deps m)" using that(4) m by simp
    ultimately have "\<not> blocked_in pl d" using schedule_result(2) [OF S] m(1) by (auto simp: deps_clear_def)
    moreover from blocks_more_get [OF B m(1)] obtain c where
      "act pl0 x = Some c" "m = c\<lparr>ma_blocked := ma_blocked m\<rparr>" by blast
    then have "set (ma_deps m) \<subseteq> fst ` set (mp_actions pl0)"
      using propose_result(3) [OF P] blocked_update_fields by metis
    ultimately have "d \<in> unblocked pl" using d keys_more [OF B] by (auto simp: unblocked_def)
    from batches_in_order [OF k schedule_result(3) [OF S] that(1) _ m(1) d this] that(3) x
    show ?thesis by simp
  qed
  then show ?thesis using ids unblocked_frozen [OF k] fields by auto
qed

lemma planned_units:
  assumes "keyed pl"
  shows "sum_list (map act_cost (filter (\<lambda>a. act_blocked a = []) (freezeActions pf (mp_actions pl))))
           = (\<Sum>i \<in> unblocked pl. cost_of pl i)"
proof -
  let ?el = "eligible_actions pf (mp_actions pl)" and ?c = "\<lambda>a. cap_cost (ma_cap a)"
  have "mset (map act_cost (filter (\<lambda>a. act_blocked a = []) (freezeActions pf (mp_actions pl)))) = mset (map ?c ?el)"
    by (simp add: freezeActions_def eligible_actions_def filter_map comp_def act_blocked_Nil mset_filter)
  then have "sum_list (map act_cost (filter (\<lambda>a. act_blocked a = []) (freezeActions pf (mp_actions pl))))
      = sum_list (map ?c ?el)" by (metis sum_mset_sum_list)
  also have "\<dots> = (\<Sum>a \<in> set ?el. ?c a)"
    using eligible_set(2) [OF assms, of pf] by (simp add: sum_list_distinct_conv_sum_set distinct_map)
  also have "\<dots> = (\<Sum>a \<in> set ?el. cost_of pl (ma_id a))"
  proof (rule sum.cong [OF refl])
    fix a assume "a \<in> set ?el"
    then obtain i where "act pl i = Some a" using eligible_set(1) [OF assms] by blast
    then show "?c a = cost_of pl (ma_id a)" using keyed_get [OF assms, of i a] by (simp add: cost_of_def)
  qed
  also have "\<dots> = (\<Sum>i \<in> ma_id ` set ?el. cost_of pl i)"
    using eligible_set(2) [OF assms, of pf] by (simp add: sum.reindex distinct_map)
  also have "ma_id ` set ?el = unblocked pl"
    using eligible_set(3) [OF assms, of pf] by (simp add: action_ids_def)
  finally show ?thesis .
qed

lemma proposed_amounts:
  assumes "normalizeCapabilities pf vs = Inr caps" "propose_actions pf perms apprs caps latest missing = Inr pl"
  shows "amounts_ok pl"
  unfolding amounts_ok_def
proof
  fix i
  show "0 \<le> cost_of pl i \<and> 0 \<le> time_of pl i"
  proof (cases "act pl i")
    case (Some a)
    with propose_result(2) [OF assms(2)] have "ma_cap a \<in> set caps" by blast
    with normalizeCapabilities_amounts [OF assms(1)] Some show ?thesis by (simp add: cost_of_def time_of_def)
  qed (simp add: cost_of_def time_of_def)
qed


text \<open>
  An action a plan leaves unblocked uses a supplied capability that is available, that
  the permission snapshot allows and, where it crosses a confirmation boundary, whose
  deciding approval receipt approves it.
\<close>

lemma plan_actions_cleared:
  assumes "createResearchDirectorPlan pf dp inp = Inr p" "a \<in> set (plan_actions p)" "act_blocked a = []"
  shows "\<exists>caps perms apprs c. normalizeCapabilities pf (pi_capabilities inp) = Inr caps
    \<and> normalizePermissions pf (pi_permissions inp) = Inr perms
    \<and> normalizeApprovalReceipts dp (pi_approvals inp) = Inr apprs
    \<and> c \<in> set caps \<and> cap_id c = act_capability a \<and> cleared pf perms apprs c"
proof -
  from assms(1) obtain g caps bud perms apprs latest missing pl0 pl bs where
    C: "normalizeCapabilities pf (pi_capabilities inp) = Inr caps"
      "normalizePermissions pf (pi_permissions inp) = Inr perms"
      "normalizeApprovalReceipts dp (pi_approvals inp) = Inr apprs" and
    P: "propose_actions pf perms apprs caps latest missing = Inr pl0" and
    S: "schedule_actions pf bud pl0 = Inr (pl, bs)" and
    A: "assemble_plan pf inp g caps bud perms apprs latest pl bs = Inr p" by (rule plan_InrE)
  note B = schedule_result(1) [OF S]
  have k: "keyed pl" using keyed_blocks_more [OF propose_result(1) [OF P] B] .
  from assms(2) obtain i m where m: "act pl i = Some m" "a = freeze_action pf m"
    unfolding assemble_plan_fields(1) [OF A] in_plan_actions [OF k] by blast
  with assms(3) have u: "ma_blocked m = []" by (simp add: act_blocked_Nil)
  have "act pl0 i = Some m" by (rule blocks_more_get [OF B m(1)]) (use u in auto)
  from propose_result(2,4) [OF P this] u have "ma_cap m \<in> set caps" "cleared pf perms apprs (ma_cap m)" by auto
  with C m(2) show ?thesis by (intro exI [of _ caps] exI [of _ perms] exI [of _ apprs] exI [of _ "ma_cap m"]) simp
qed

text \<open>
  C12: Where the plan under construction is keyed by its action identifiers, the batch loop
  ends in the cycle error exactly when the dependencies among the unblocked actions are
  cyclic, and returns batches otherwise.
\<close>

theorem batches_or_cycle:
  assumes "keyed pl"
  shows "if acyclic (dependency (eligible_actions pf (mp_actions pl)))
    then \<exists>bs. createReadyBatches pf (mp_actions pl) = Inr bs
    else createReadyBatches pf (mp_actions pl) = Inl Action_cycle"
proof -
  let ?el = "eligible_actions pf (mp_actions pl)"
  have ex: "(\<exists>bs. createReadyBatches pf (mp_actions pl) = Inr bs) \<longleftrightarrow> acyclic (dependency ?el)"
    using batch_loop_rounds [OF eligible_set(2) [OF assms], where c = "[]" and pf = pf and acc = "[]"]
      rounds_exist_iff [OF eligible_set(2) [OF assms], of pf]
    by (auto simp: createReadyBatches_def)
  show ?thesis
  proof (cases "createReadyBatches pf (mp_actions pl)")
    case (Inl e)
    then have "e = Action_cycle" by (auto simp: createReadyBatches_def dest: batch_loop_error)
    with Inl ex show ?thesis by auto
  next
    case (Inr bs)
    with ex show ?thesis by auto
  qed
qed

section \<open>The cascade\<close>

definition depends_on :: "mutable_plan \<Rightarrow> (string \<times> string) set" where
  "depends_on pl = {(i, d). \<exists>a. act pl i = Some a \<and> d \<in> set (ma_deps a)}"

lemma depends_on_more: "blocks_more pl pl' \<Longrightarrow> depends_on pl' = depends_on pl"
proof (intro set_eqI iffI; clarify)
  assume B: "blocks_more pl pl'"
  fix i d
  show "(i, d) \<in> depends_on pl" if "(i, d) \<in> depends_on pl'"
  proof -
    from that obtain b where b: "act pl' i = Some b" "d \<in> set (ma_deps b)" by (auto simp: depends_on_def)
    from blocks_more_get [OF B b(1)] obtain a where a: "act pl i = Some a" "b = a\<lparr>ma_blocked := ma_blocked b\<rparr>"
      by blast
    then have "ma_deps b = ma_deps a" by (metis blocked_update_fields)
    with a(1) b(2) show ?thesis by (auto simp: depends_on_def)
  qed
  show "(i, d) \<in> depends_on pl'" if "(i, d) \<in> depends_on pl"
  proof -
    from that obtain a where a: "act pl i = Some a" "d \<in> set (ma_deps a)" by (auto simp: depends_on_def)
    with B obtain c where "act pl' i = Some (a\<lparr>ma_blocked := c\<rparr>)" unfolding blocks_more_def by blast
    with a(2) show ?thesis by (auto simp: depends_on_def)
  qed
qed

lemma cascade_pass_sound:
  assumes "\<And>i. blocked_in pl i \<Longrightarrow> i \<in> R" "\<And>i d. (i, d) \<in> depends_on pl \<Longrightarrow> d \<in> R \<Longrightarrow> i \<in> R"
    and "blocked_in (fst (cascade_pass pf pl)) i"
  shows "i \<in> R"
proof -
  have "blocks_more pl (fst (cascade_pass pf pl)) \<and> (\<forall>i. blocked_in (fst (cascade_pass pf pl)) i \<longrightarrow> i \<in> R)"
    unfolding cascade_pass_def
  proof (rule foldl_invariant [where P = "\<lambda>s. blocks_more pl (fst s) \<and> (\<forall>i. blocked_in (fst s) i \<longrightarrow> i \<in> R)"])
    show "blocks_more pl (fst (pl, False)) \<and> (\<forall>i. blocked_in (fst (pl, False)) i \<longrightarrow> i \<in> R)"
      using assms(1) by simp
    fix s :: "mutable_plan \<times> bool" and j
    assume s: "blocks_more pl (fst s) \<and> (\<forall>i. blocked_in (fst s) i \<longrightarrow> i \<in> R)"
    obtain q ch where q: "s = (q, ch)" by fastforce
    show "blocks_more pl (fst (cascade_action pf s j)) \<and> (\<forall>i. blocked_in (fst (cascade_action pf s j)) i \<longrightarrow> i \<in> R)"
    proof
      show "blocks_more pl (fst (cascade_action pf s j))"
        using s blocks_more_trans cascade_action_blocks by blast
      show "\<forall>i. blocked_in (fst (cascade_action pf s j)) i \<longrightarrow> i \<in> R"
      proof (cases rule: cascade_action_cases [of pf q ch j])
        case 1
        with s q show ?thesis by simp
      next
        case (2 a v d)
        then have "(j, d) \<in> depends_on q" by (auto simp: depends_on_def)
        then have "(j, d) \<in> depends_on pl" using depends_on_more [of pl q] s q by simp
        moreover have "d \<in> R" using 2(4) s q by simp
        ultimately have "j \<in> R" by (rule assms(2))
        with 2 s q show ?thesis by (auto simp: blocked_in_blockAction)
      qed
    qed
  qed
  with assms(3) show ?thesis by blast
qed

lemma cascade_sound:
  "(\<And>i. blocked_in pl i \<Longrightarrow> i \<in> R) \<Longrightarrow> (\<And>i d. (i, d) \<in> depends_on pl \<Longrightarrow> d \<in> R \<Longrightarrow> i \<in> R) \<Longrightarrow>
     blocked_in (cascadeBlockedDependencies pf pl) i \<Longrightarrow> i \<in> R"
proof (induction pf pl rule: cascadeBlockedDependencies.induct)
  case (1 pf pl)
  obtain pl' ch where p: "cascade_pass pf pl = (pl', ch)" by fastforce
  have sound: "\<And>i. blocked_in pl' i \<Longrightarrow> i \<in> R" using cascade_pass_sound [OF 1(2,3), where pf = pf] p by simp
  have e: "depends_on pl' = depends_on pl" using depends_on_more cascade_pass_blocks [of pl pf] p by simp
  show ?case
  proof (cases ch)
    case True
    have "blocked_in (cascadeBlockedDependencies pf pl') i"
      using 1(4) p True by (subst (asm) cascadeBlockedDependencies.simps) simp
    then show ?thesis using 1(1) [OF p [symmetric] refl True sound] 1(3) e by simp
  next
    case False
    then have "blocked_in pl' i" using 1(4) p by (subst (asm) cascadeBlockedDependencies.simps) simp
    then show ?thesis by (rule sound)
  qed
qed

text \<open>
  The cascade blocks exactly the actions from which a chain of dependencies leads to an
  action that was blocked before it.
\<close>

lemma cascade_blocks_exactly:
  "blocked_in (cascadeBlockedDependencies pf pl) i \<longleftrightarrow>
     (\<exists>d. blocked_in pl d \<and> (i, d) \<in> (depends_on pl)\<^sup>*)"
proof
  assume "blocked_in (cascadeBlockedDependencies pf pl) i"
  then have "i \<in> {i. \<exists>d. blocked_in pl d \<and> (i, d) \<in> (depends_on pl)\<^sup>*}"
    by (rule cascade_sound [rotated 2]) (auto intro: converse_rtrancl_into_rtrancl)
  then show "\<exists>d. blocked_in pl d \<and> (i, d) \<in> (depends_on pl)\<^sup>*" by simp
next
  let ?fin = "cascadeBlockedDependencies pf pl"
  assume "\<exists>d. blocked_in pl d \<and> (i, d) \<in> (depends_on pl)\<^sup>*"
  then obtain d where d: "blocked_in pl d" "(i, d) \<in> (depends_on pl)\<^sup>*" by blast
  from d(2) show "blocked_in ?fin i"
  proof (induction rule: converse_rtrancl_induct)
    case base
    show ?case using blocked_in_more [OF cascade_blocks d(1)] .
  next
    case (step i j)
    then have "(i, j) \<in> depends_on ?fin" using depends_on_more [OF cascade_blocks, of pf pl] by simp
    then obtain b where "act ?fin i = Some b" "j \<in> set (ma_deps b)" by (auto simp: depends_on_def)
    with step(3) cascade_deps_clear [of pf pl] show ?case by (auto simp: deps_clear_def blocked_in_def)
  qed
qed

section \<open>Which approval decides\<close>

lemma approval_order_total: "total_preorder (pf_le pf) \<Longrightarrow> total_preorder (approval_order pf)"
  unfolding approval_order_def compareText_def
  by (intro total_preorder_then_by) (auto simp: total_preorder_def)

text \<open>
  The receipt that decides a confirmation covers the capability and the boundary, no
  covering receipt is newer, and among those of the same instant a denial decides.
\<close>

lemma approval_decides:
  assumes "total_preorder (pf_le pf)" "approvalFor pf cid b as = Some r"
  shows "r \<in> set as \<and> approval_covers cid b r \<and>
    (\<forall>q \<in> set as. approval_covers cid b q \<longrightarrow> pf_le pf (appr_at q) (appr_at r) \<and>
       (pf_le pf (appr_at r) (appr_at q) \<and> appr_status q = Denied \<longrightarrow> appr_status r = Denied))"
proof -
  let ?xs = "filter (approval_covers cid b) as"
  from assms(2) obtain rs where s: "sort_by (approval_order pf) ?xs = r # rs"
    by (auto simp: approvalFor_def split: list.splits)
  then have "r \<in> set (sort_by (approval_order pf) ?xs)" by simp
  then have "r \<in> set as" "approval_covers cid b r" by simp_all
  moreover have "approval_order pf r q" if "q \<in> set ?xs" for q
    using hd_sort_by_least [OF approval_order_total [OF assms(1)] that] s by simp
  then have "pf_le pf (appr_at q) (appr_at r) \<and>
       (pf_le pf (appr_at r) (appr_at q) \<and> appr_status q = Denied \<longrightarrow> appr_status r = Denied)"
    if "q \<in> set as" "approval_covers cid b q" for q
    using that by (fastforce simp: approval_order_def then_by_def compareText_def)
  ultimately show ?thesis by blast
qed

section \<open>Findings that affect a claim\<close>

lemma claim_is_no_kind: "kind_of_text ''claim'' = None"
  by (simp add: kind_of_text_def all_kinds_def)

lemma unique_ref_values_claim:
  "v \<in> set vs \<Longrightarrow> entry ''kind'' v = JStr ''claim'' \<Longrightarrow> \<exists>e. unique_ref_values l i m vs = Inl e"
proof (induction vs arbitrary: i m)
  case (Cons w ws)
  show ?case
  proof (cases "normalizeRefValue w (at_index l i)")
    case (Inr r)
    with Cons.prems have "w \<noteq> v" by (auto simp: normalizeRefValue_def claim_is_no_kind)
    with Cons Inr show ?thesis by auto
  qed simp
qed simp

text \<open>
  The reference check of the planner knows no claims, so a finding that affects a claim
  node does not reach the boundary \<open>addRepairActions\<close> has for it: planning fails.
\<close>

lemma claim_target_rejected:
  assumes "is_record (art_payload a)" "entry ''affectedArtifactRefs'' (art_payload a) = JArr vs"
    and "v \<in> set vs" "isArtifactRef v" "entry ''kind'' v = JStr ''claim''"
  shows "\<exists>e. addRepairActions pf [] [a] lb producers pl = Inl e"
proof -
  have "v \<in> set (filter isArtifactRef vs)" using assms(3,4) by simp
  from unique_ref_values_claim [OF this assms(5)]
  obtain e where "unique_ref_values (''finding '' @ art_id a @ '' affectedArtifactRefs'') 0 []
      (filter isArtifactRef vs) = Inl e"
    by blast
  then have "findingAffectedRefs pf a = Inl e"
    unfolding findingAffectedRefs_def uniqueRefValues_def rmap_def by (simp add: assms(1,2) del: append.simps)
  then show ?thesis by (auto simp: addRepairActions_def add_finding_actions_def Let_def)
qed

end
