(* ===== verification/Director_Verdicts.thy ===== *)
theory Director_Verdicts
  imports Director_Promises
begin

text \<open>
  What \<open>createResearchDirectorDecision\<close> promises: the receipts it consumes belong to the
  plan's unblocked actions, its retry and next sets stay inside them, and a fresh plan is
  always accepted.
\<close>

section \<open>Receipts\<close>

definition receipt_fits :: "'a plan_body_scheme \<Rightarrow> receipt \<Rightarrow> bool" where
  "receipt_fits p r \<longleftrightarrow> rec_plan r = plan_id p \<and>
     (\<exists>a \<in> set (plan_actions p). act_id a = rec_action r \<and> act_blocked a = [] \<and> act_capability a = rec_capability r)"

definition same_receipt :: "receipt \<Rightarrow> receipt \<Rightarrow> bool" where
  "same_receipt v r \<longleftrightarrow> rec_id r = rec_id v \<and> rec_action r = rec_action v \<and> rec_plan r = rec_plan v
     \<and> rec_capability r = rec_capability v \<and> rec_status r = rec_status v \<and> rec_outcome r = rec_outcome v
     \<and> retryable r = retryable v \<and> rec_cost r = rec_cost v \<and> rec_duration r = rec_duration v"

lemma safeIdentifier_Inr: "safeIdentifier v l = Inr w \<longleftrightarrow> w = v \<and> id_pattern v \<and> length v \<le> 256"
  by (auto simp: safeIdentifier_def)

lemma receipt_error_Inr:
  "optional (normalize_receipt_error l) m = Inr n \<Longrightarrow> map_option rerr_retryable n = map_option rerr_retryable m"
  by (cases m) (auto simp: optional_Inr normalize_receipt_error_def rbind_eq_Inr)

lemma normalize_receipt_Inr:
  assumes "normalize_receipt pf dp p i ids aids v = Inr r"
  shows "same_receipt v r \<and> receipt_fits p v \<and> rec_id v \<notin> set ids \<and> rec_action v \<notin> set aids
    \<and> (rec_status v = Failed \<longrightarrow> retryable v \<noteq> None)"
proof -
  let ?m = "of_keys act_id (plan_actions p)"
  show ?thesis
  proof (cases "jget ?m (rec_action v)")
    case None
    with assms show ?thesis unfolding normalize_receipt_def Let_def
      by (auto simp: rbind_eq_Inr safeIdentifier_Inr)
  next
    case (Some a)
    from map_of_of_keysD [OF Some] have a: "a \<in> set (plan_actions p)" "act_id a = rec_action v" by auto
    from assms obtain err outs dones where
      G: "rec_id v \<notin> set ids" "rec_plan v = plan_id p" "rec_action v \<notin> set aids" "act_blocked a = []"
        "rec_capability v = act_capability a" "\<not> (rec_status v = Failed \<and> rec_error v = None)"
      and E: "optional (normalize_receipt_error (at_index ''receipts'' i)) (rec_error v) = Inr err"
      and R: "r = \<lparr>rec_id = rec_id v, rec_plan = plan_id p, rec_action = rec_action v,
                 rec_capability = act_capability a, rec_status = rec_status v,
                 rec_outcome = rec_outcome v, rec_outputs = outs, rec_cost = rec_cost v,
                 rec_duration = rec_duration v, rec_completed = dones, rec_error = err\<rparr>"
      unfolding normalize_receipt_def Let_def rbind_eq_Inr require_eq_Inr safeIdentifier_Inr nonNegative_Inr
      by (elim exE conjE) (simp add: Some rbind_eq_Inr nonNegative_Inr; blast)
    have "same_receipt v r"
      using R G receipt_error_Inr [OF E] by (simp add: same_receipt_def)
    moreover have "receipt_fits p v" using G a by (auto simp: receipt_fits_def)
    ultimately show ?thesis using G by auto
  qed
qed

lemma normalize_receipts_Inr:
  "normalize_receipts pf dp p i ids aids vs = Inr rs \<Longrightarrow>
     list_all2 same_receipt vs rs \<and> list_all (receipt_fits p) vs \<and> distinct (map rec_id vs)
     \<and> distinct (map rec_action vs) \<and> set (map rec_id vs) \<inter> set ids = {} \<and> set (map rec_action vs) \<inter> set aids = {}
     \<and> (\<forall>v \<in> set vs. rec_status v = Failed \<longrightarrow> retryable v \<noteq> None)"
proof (induction vs arbitrary: i ids aids rs)
  case (Cons v vs)
  from Cons.prems obtain r rs' where r: "normalize_receipt pf dp p i ids aids v = Inr r"
    and rs: "normalize_receipts pf dp p (Suc i) (sadd (rec_id r) ids) (sadd (rec_action r) aids) vs = Inr rs'"
    and e: "rs = r # rs'" by (auto simp: rbind_eq_Inr)
  from normalize_receipt_Inr [OF r] have s: "same_receipt v r" "receipt_fits p v" "rec_id v \<notin> set ids"
    "rec_action v \<notin> set aids" "rec_status v = Failed \<longrightarrow> retryable v \<noteq> None"
    "rec_id r = rec_id v" "rec_action r = rec_action v" by (auto simp: same_receipt_def)
  from Cons.IH [OF rs] s e show ?case by auto
qed simp

section \<open>From the decision input to the record\<close>

lemma seal_decision_fields:
  assumes "lift_director (sealDirectorDecisionRecord pf b) = Inr d"
  shows "dec_kind d = dec_kind b \<and> dec_receipts d = dec_receipts b \<and> dec_retry d = dec_retry b
    \<and> dec_next d = dec_next b \<and> dec_cost d = dec_cost b \<and> dec_duration d = dec_duration b
    \<and> dec_completed d = dec_completed b \<and> dec_discarded d = dec_discarded b"
  using assms unfolding lift_director_def sealDirectorDecisionRecord_def
  by (auto simp: rmap_eq_Inr decision_body.extend_def decision.fields_def split: sum.splits)

lemma assertPlanRecord_Inr: "assertPlanRecord pf dp p = Inr q \<Longrightarrow> q = p"
  unfolding assertPlanRecord_def rbind_eq_Inr by blast

lemma decision_InrE:
  assumes "createResearchDirectorDecision pf dp inp = Inr d"
  obtains rs where "normalizeExecutionReceipts pf dp (di_receipts inp) (di_plan inp) = Inr rs"
    "dec_kind d = decide rs (di_plan inp)" "dec_receipts d = sort_by (compareText pf) (map rec_id rs)"
    "dec_retry d = uniqueSorted pf (map rec_action (filter retried rs))"
    "dec_next d = next_actions pf (decide rs (di_plan inp)) (di_plan inp) rs"
    "dec_cost d = sum_list (map rec_cost rs)" "dec_duration d = sum_list (map rec_duration rs)"
    "dec_completed d = uniqueSorted pf (map rec_action (filter (\<lambda>r. rec_status r = Succeeded) rs))"
    "dec_discarded d = uniqueSorted pf (map rec_action (filter discarded rs))"
proof -
  from assms obtain q rs did where "assertPlanRecord pf dp (di_plan inp) = Inr q"
    and n: "normalizeExecutionReceipts pf dp (di_receipts inp) q = Inr rs"
    and s: "lift_director (sealDirectorDecisionRecord pf
         \<lparr>dec_id = did, dec_plan = plan_id q, dec_created = iso_string (di_now inp), dec_kind = decide rs q,
          dec_rationale = decisionRationale (decide rs q) rs (length (pending_actions q rs)),
          dec_receipts = sort_by (compareText pf) (map rec_id rs),
          dec_completed = uniqueSorted pf (map rec_action (filter (\<lambda>r. rec_status r = Succeeded) rs)),
          dec_retry = uniqueSorted pf (map rec_action (filter retried rs)),
          dec_discarded = uniqueSorted pf (map rec_action (filter discarded rs)),
          dec_next = next_actions pf (decide rs q) q rs,
          dec_outputs = mergeRefs pf (map rec_outputs rs),
          dec_findings = plan_findings q, dec_boundaries = plan_boundaries q,
          dec_cost = sum_list (map rec_cost rs), dec_duration = sum_list (map rec_duration rs)\<rparr>) = Inr d"
    unfolding createResearchDirectorDecision_def Let_def rbind_eq_Inr by (elim exE conjE) (rule that)
  then have "q = di_plan inp" using assertPlanRecord_Inr by blast
  with n seal_decision_fields [OF s] show thesis by (intro that [of rs]) simp_all
qed

lemma set_uniqueSorted [simp]: "set (uniqueSorted pf vs) = set vs"
proof -
  have "set (foldl (\<lambda>s v. sadd v s) acc vs) = set acc \<union> set vs" for acc
    by (induction vs arbitrary: acc) auto
  then show ?thesis by (simp add: uniqueSorted_def)
qed

lemma uniqueSorted_Nil [simp]: "uniqueSorted pf vs = [] \<longleftrightarrow> vs = []"
  by (metis set_empty set_uniqueSorted)

lemma executed_receipts:
  assumes "normalizeExecutionReceipts pf dp vs p = Inr rs"
  obtains rs' where "list_all2 same_receipt vs rs'" "mset rs = mset rs'" "list_all (receipt_fits p) vs"
    "distinct (map rec_id vs)" "distinct (map rec_action vs)"
    "\<forall>v \<in> set vs. rec_status v = Failed \<longrightarrow> retryable v \<noteq> None"
proof -
  from assms obtain rs' where n: "normalize_receipts pf dp p 0 [] [] vs = Inr rs'"
    and s: "rs = sort_by (\<lambda>x y. compareText pf (rec_id x) (rec_id y)) rs'"
    by (auto simp: normalizeExecutionReceipts_def rmap_eq_Inr split: if_splits)
  from normalize_receipts_Inr [OF n] s show thesis by (intro that [of rs']) auto
qed

lemma same_receipt_map:
  "list_all2 same_receipt vs rs \<Longrightarrow> (\<And>v r. same_receipt v r \<Longrightarrow> f r = f v) \<Longrightarrow> map f rs = map f vs"
  by (induction rule: list_all2_induct) auto

lemma same_receipt_fits: "same_receipt v r \<Longrightarrow> receipt_fits p r = receipt_fits p v"
  by (simp add: same_receipt_def receipt_fits_def)

text \<open>
  A decision is only made when every receipt belongs to the plan, names one of its unblocked
  actions with that action's capability, and no receipt or action occurs twice; it then
  consumes exactly the supplied receipts and adds up their costs and durations.
\<close>

lemma decision_receipts_belong:
  assumes "createResearchDirectorDecision pf dp inp = Inr d"
  shows "list_all (receipt_fits (di_plan inp)) (di_receipts inp)
    \<and> distinct (map rec_id (di_receipts inp)) \<and> distinct (map rec_action (di_receipts inp))
    \<and> mset (dec_receipts d) = mset (map rec_id (di_receipts inp))
    \<and> dec_cost d = sum_list (map rec_cost (di_receipts inp))
    \<and> dec_duration d = sum_list (map rec_duration (di_receipts inp))"
proof -
  from assms obtain rs where n: "normalizeExecutionReceipts pf dp (di_receipts inp) (di_plan inp) = Inr rs"
    and d: "dec_receipts d = sort_by (compareText pf) (map rec_id rs)"
      "dec_cost d = sum_list (map rec_cost rs)" "dec_duration d = sum_list (map rec_duration rs)"
    by (rule decision_InrE) simp
  from n obtain rs' where e: "list_all2 same_receipt (di_receipts inp) rs'" "mset rs = mset rs'"
    and ok: "list_all (receipt_fits (di_plan inp)) (di_receipts inp)"
      "distinct (map rec_id (di_receipts inp))" "distinct (map rec_action (di_receipts inp))"
    by (rule executed_receipts) simp
  have f: "mset (map f rs) = mset (map f (di_receipts inp))"
    if "\<And>v r. same_receipt v r \<Longrightarrow> f r = f v" for f :: "receipt \<Rightarrow> 'b"
    using arg_cong [OF same_receipt_map [where f = f, OF e(1) that], of mset] e(2) by simp
  have "mset (map rec_id rs) = mset (map rec_id (di_receipts inp))" by (rule f) (simp add: same_receipt_def)
  moreover have "mset (map rec_cost rs) = mset (map rec_cost (di_receipts inp))" by (rule f) (simp add: same_receipt_def)
  then have "sum_list (map rec_cost rs) = sum_list (map rec_cost (di_receipts inp))" by (metis sum_mset_sum_list)
  moreover have "mset (map rec_duration rs) = mset (map rec_duration (di_receipts inp))"
    by (rule f) (simp add: same_receipt_def)
  then have "sum_list (map rec_duration rs) = sum_list (map rec_duration (di_receipts inp))"
    by (metis sum_mset_sum_list)
  ultimately show ?thesis using ok d by simp
qed

lemma decide_recover: "decide rs p = Recover \<longleftrightarrow> filter retried rs \<noteq> []"
proof -
  have "(list_ex (\<lambda>r. rec_status r = Failed \<and> retryable r = Some True) rs \<or> list_ex (\<lambda>r. rec_status r = Blocked) rs)
      \<longleftrightarrow> filter retried rs \<noteq> []"
    by (auto simp: list_ex_iff retried_def filter_empty_conv)
  then show ?thesis by (simp add: decide_def)
qed

text \<open>
  The next actions of a decision are unblocked actions of the plan. The decision is to
  recover exactly when some action is to be retried, and then those are the next actions;
  otherwise no next action has a receipt yet, and stopping or eliminating names none.
\<close>

lemma decision_next_safe:
  assumes "createResearchDirectorDecision pf dp inp = Inr d"
  shows "set (dec_next d) \<subseteq> act_id ` {a \<in> set (plan_actions (di_plan inp)). act_blocked a = []}
    \<and> (dec_kind d = Recover \<longleftrightarrow> dec_retry d \<noteq> [])
    \<and> (dec_kind d = Recover \<longrightarrow> dec_next d = dec_retry d)
    \<and> (dec_kind d \<noteq> Recover \<longrightarrow> set (dec_next d) \<inter> set (map rec_action (di_receipts inp)) = {})
    \<and> (dec_kind d \<in> {Stop, Eliminate} \<longrightarrow> dec_next d = [])"
proof -
  let ?p = "di_plan inp"
  from assms obtain rs where n: "normalizeExecutionReceipts pf dp (di_receipts inp) ?p = Inr rs"
    and k: "dec_kind d = decide rs ?p" and r: "dec_retry d = uniqueSorted pf (map rec_action (filter retried rs))"
    and x: "dec_next d = next_actions pf (decide rs ?p) ?p rs"
    by (rule decision_InrE) simp
  from n obtain rs' where e: "list_all2 same_receipt (di_receipts inp) rs'" "mset rs = mset rs'"
    and ok: "list_all (receipt_fits ?p) (di_receipts inp)" by (rule executed_receipts) simp
  have same: "set rs = set rs'" using e(2) by (rule mset_eq_setD)
  have "map (receipt_fits ?p) rs' = map (receipt_fits ?p) (di_receipts inp)"
    using e(1) same_receipt_fits by (rule same_receipt_map)
  then have "\<forall>v \<in> set rs'. receipt_fits ?p v" using ok by (metis (no_types, lifting) image_iff list.set_map list_all_iff)
  then have fits: "receipt_fits ?p v" if "v \<in> set rs" for v using that same by blast
  have "map rec_action rs' = map rec_action (di_receipts inp)"
    by (rule same_receipt_map [OF e(1)]) (simp add: same_receipt_def)
  then have acts: "rec_action ` set rs = rec_action ` set (di_receipts inp)" using same by (metis list.set_map)
  have pend: "set (pending_actions ?p rs) \<subseteq> act_id ` {a \<in> set (plan_actions ?p). act_blocked a = []}"
    "set (pending_actions ?p rs) \<inter> rec_action ` set rs = {}"
    by (auto simp: pending_actions_def)
  have "set (map rec_action (filter retried rs)) \<subseteq> act_id ` {a \<in> set (plan_actions ?p). act_blocked a = []}"
  proof
    fix i assume "i \<in> set (map rec_action (filter retried rs))"
    then obtain v where "v \<in> set rs" "i = rec_action v" by auto
    with fits [of v] obtain a where "a \<in> set (plan_actions ?p)" "i = act_id a" "act_blocked a = []"
      by (auto simp: receipt_fits_def)
    then show "i \<in> act_id ` {a \<in> set (plan_actions ?p). act_blocked a = []}" by blast
  qed
  then have "set (dec_next d) \<subseteq> act_id ` {a \<in> set (plan_actions ?p). act_blocked a = []}"
    using pend(1) by (auto simp: x next_actions_def)
  moreover have "dec_kind d = Recover \<longleftrightarrow> dec_retry d \<noteq> []" by (simp add: k r decide_recover)
  moreover have "dec_kind d = Recover \<longrightarrow> dec_next d = dec_retry d" by (simp add: k r x next_actions_def)
  moreover have "dec_kind d \<noteq> Recover \<longrightarrow> set (dec_next d) \<inter> set (map rec_action (di_receipts inp)) = {}"
    using pend(2) acts by (auto simp: k x next_actions_def)
  moreover have "dec_kind d \<in> {Stop, Eliminate} \<longrightarrow> dec_next d = []" by (auto simp: k x next_actions_def)
  ultimately show ?thesis by blast
qed

section \<open>A fresh plan is accepted\<close>

lemma stage_free_refs [simp]: "stage_free (refs_json rs)"
  by (simp add: refs_json_def list_all_iff ref_json_def stage_key_def)

lemma stage_free_texts [simp]: "stage_free (texts_json ts)"
  by (simp add: texts_json_def list_all_iff)

abbreviation entries_free :: "(string \<times> js) list \<Rightarrow> bool" where
  "entries_free es \<equiv> list_all (\<lambda>e. \<not> stage_key (fst e) \<and> stage_free (snd e)) es"

lemma stage_free_entries [simp]:
  "\<not> stage_key k \<Longrightarrow> entries_free (opt_entry k m)"
  "\<not> stage_key k \<Longrightarrow> entries_free (opt_list_entry k l)"
  "\<not> stage_key k \<Longrightarrow> entries_free (opt_int_entry k i)"
  by (cases m; cases l; cases i; simp add: opt_entry_def opt_list_entry_def opt_int_entry_def list_all_iff)+

lemma stage_key_Cons: "stage_key (c # cs) \<longleftrightarrow> c # cs = ''currentStage'' \<or> c # cs = ''nextStageId''"
  by (simp add: stage_key_def)

lemma stage_free_parts [simp]:
  "stage_free (goal_json g)" "stage_free (action_json a)" "stage_free (batch_json b)"
  "entries_free (boundary_entries v)" "stage_free (projection_json q)"
  by (simp_all add: goal_json_def action_json_def batch_json_def boundary_entries_def projection_json_def stage_key_Cons)

lemma stage_free_plan: "stage_free (plan_json p)"
  by (simp add: plan_json_def plan_entries_def stage_key_Cons boundary_json_def list_all_iff [of _ "map _ _"])

lemma hash_hex:
  assumes "platform_ok pf" "hashResearchArtifactContent pf v = Inr h"
  shows "hash_ok h" "list_all is_hex (take 24 (drop 7 h))" "length (take 24 (drop 7 h)) = 24"
proof -
  from hash_InrD [OF assms(2)] obtain t where h: "h = ''sha256:'' @ pf_sha256 pf t" by blast
  then show "hash_ok h" using platform_hash_ok [OF assms(1)] by simp
  then have "list_all is_hex (drop 7 h)" "length (drop 7 h) = 64" by (auto simp: hash_ok_def)
  then show "list_all is_hex (take 24 (drop 7 h))" "length (take 24 (drop 7 h)) = 24"
    by (auto simp: list_all_iff dest: in_set_takeD)
qed

lemma hex_id_chars: "list_all is_hex s \<Longrightarrow> list_all id_char s"
  by (auto simp: list_all_iff is_hex_def id_char_def is_alnum_def is_lower_def)

lemma record_id_safe:
  assumes "platform_ok pf" "js_ok v" "id_pattern (tag @ ''-'')" "length tag \<le> 200"
  shows "id_pattern (directorRecordId pf tag v)" "length (directorRecordId pf tag v) \<le> 256"
proof -
  obtain h where h: "hashResearchArtifactContent pf v = Inr h"
    "directorRecordId pf tag v = (tag @ ''-'') @ take 24 (drop 7 h)"
    by (rule record_id_defined [OF assms(2), of pf tag]) simp
  note hx = hash_hex [OF assms(1) h(1)]
  show "id_pattern (directorRecordId pf tag v)"
    using assms(3) hex_id_chars [OF hx(2)] unfolding h(2) id_pattern_def
    by (cases tag) auto
  show "length (directorRecordId pf tag v) \<le> 256" using assms(4) hx(3) h(2) by simp
qed

lemma goal_json_ok [simp]: "js_ok (goal_json g)"
  by (simp add: goal_json_def)

lemma parts_json_ok [simp]:
  "js_ok (capability_json c)" "js_ok (budget_json b)" "js_ok (permissions_json q)" "js_ok (approval_json r)"
  by (simp_all add: capability_json_def budget_json_def permissions_json_def approval_json_def)

lemma assemble_plan_record:
  assumes "platform_ok pf" "assemble_plan pf inp g caps bud perms apprs latest pl bs = Inr p"
  shows "id_pattern (plan_id p) \<and> length (plan_id p) \<le> 256 \<and> plan_created p = iso_string (pi_now inp)
    \<and> hashResearchArtifactContent pf (JObj (plan_entries p)) = Inr (plan_audit p)"
proof -
  from assms(2) obtain b ch sh where
    S: "lift_director (sealDirectorPlanRecord pf b) = Inr p" and
    I: "(case pi_id inp of
               None \<Rightarrow> Inr (directorRecordId pf ''director-plan'' (JObj
                 [(''goal'', goal_json g), (''stateHash'', JStr sh),
                  (''capabilitySnapshotHash'', JStr ch), (''budget'', budget_json bud),
                  (''permissions'', permissions_json perms),
                  (''approvals'', JArr (map approval_json apprs))]))
             | Some i \<Rightarrow> safeIdentifier i ''planId'') = Inr (plan_id b)" and
    N: "plan_created b = iso_string (pi_now inp)"
    unfolding assemble_plan_def Let_def rbind_eq_Inr by (elim exE conjE) simp
  from S obtain h where h: "hashResearchArtifactContent pf (JObj (plan_entries b)) = Inr h"
    "p = plan_body.extend b (plan.fields h)"
    unfolding lift_director_def sealDirectorPlanRecord_def by (auto simp: rmap_eq_Inr split: sum.splits)
  then have e: "plan_entries p = plan_entries b" "plan_audit p = h" "plan_id p = plan_id b" "plan_created p = plan_created b"
    by (auto simp: plan_body.extend_def plan.fields_def plan_entries_def)
  have "id_pattern (plan_id b) \<and> length (plan_id b) \<le> 256"
  proof (cases "pi_id inp")
    case None
    then have "plan_id b = directorRecordId pf ''director-plan'' (JObj
                 [(''goal'', goal_json g), (''stateHash'', JStr sh),
                  (''capabilitySnapshotHash'', JStr ch), (''budget'', budget_json bud),
                  (''permissions'', permissions_json perms),
                  (''approvals'', JArr (map approval_json apprs))])" using I by simp
    moreover have "id_pattern (''director-plan'' @ ''-'')" by code_simp
    ultimately show ?thesis using record_id_safe [OF assms(1), of _ "''director-plan''"]
      by (simp add: list_all_iff)
  next
    case (Some i)
    with I show ?thesis by (simp add: safeIdentifier_Inr)
  qed
  with e h N show ?thesis by simp
qed

lemma decision_entries_ok: "js_ok (JObj (decision_entries b))"
proof -
  have "js_ok (boundary_json q)" for q
    using boundary_entries_ok [of q] by (simp add: boundary_json_def)
  then show ?thesis by (simp add: decision_entries_def list_all_iff [of _ "map _ _"])
qed

lemma decision_total:
  assumes "assertPlanRecord pf dp p = Inr p" "normalizeExecutionReceipts pf dp vs p = Inr rs"
  shows "\<exists>d. createResearchDirectorDecision pf dp
    \<lparr>di_plan = p, di_receipts = vs, di_approvals = None, di_id = None, di_now = now\<rparr> = Inr d"
proof -
  have sealed: "\<exists>d. lift_director (sealDirectorDecisionRecord pf b) = Inr d" for b
    using hash_total [OF decision_entries_ok, of pf b]
    by (auto simp: lift_director_def sealDirectorDecisionRecord_def rmap_def)
  have "assertNoFixedStageFields (plan_json p) = Inr ()" by (simp add: stage_free_iff stage_free_plan)
  moreover have "normalizeApprovalReceipts dp None = Inr []"
    by (simp add: normalizeApprovalReceipts_def or_empty_def)
  ultimately show ?thesis
    using assms sealed unfolding createResearchDirectorDecision_def Let_def by simp
qed

lemma fresh_plan_accepted:
  assumes "platform_ok pf" "\<And>ms. dp (iso_string ms) \<noteq> None"
    and "createResearchDirectorPlan pf dp inp = Inr p"
  shows "assertPlanRecord pf dp p = Inr p"
proof -
  from assms(3) obtain g caps bud perms apprs latest missing pl0 pl bs where
    A: "assemble_plan pf inp g caps bud perms apprs latest pl bs = Inr p" by (rule plan_InrE)
  note P = assemble_plan_record [OF assms(1) A]
  have h: "hash_ok (plan_audit p)" using P hash_hex(1) [OF assms(1)] by blast
  obtain ms where "dp (plan_created p) = Some ms" using assms(2) P by auto
  then show ?thesis
    using P h unfolding assertPlanRecord_def
    by (simp add: safeIdentifier_def isoDate_def lift_director_def)
qed

text \<open>
  C11: A plan the director has just made is accepted by the decision step, whatever it holds:
  its identifier, time and audit hash pass the checks and no fixed stage field occurs in
  it. With no receipts yet the decision is to branch into the unblocked actions, or to
  stop when there are none. The platform is as documented, and \<open>Date.parse\<close> reads what
  \<open>toISOString\<close> writes.
\<close>

theorem fresh_plan_decides:
  assumes "platform_ok pf" "\<And>ms. dp (iso_string ms) \<noteq> None"
    and "createResearchDirectorPlan pf dp inp = Inr p"
  shows "\<exists>d. createResearchDirectorDecision pf dp
       \<lparr>di_plan = p, di_receipts = [], di_approvals = None, di_id = None, di_now = now\<rparr> = Inr d
     \<and> set (dec_next d) = act_id ` {a \<in> set (plan_actions p). act_blocked a = []}
     \<and> dec_kind d = (if \<exists>a \<in> set (plan_actions p). act_blocked a = [] then Branch else Stop)"
proof -
  have none: "normalizeExecutionReceipts pf dp [] p = Inr []"
    by (simp add: normalizeExecutionReceipts_def rmap_def sort_by_def)
  obtain d where d: "createResearchDirectorDecision pf dp
      \<lparr>di_plan = p, di_receipts = [], di_approvals = None, di_id = None, di_now = now\<rparr> = Inr d"
    using decision_total [OF fresh_plan_accepted [OF assms] none] by blast
  then obtain rs where "normalizeExecutionReceipts pf dp [] p = Inr rs" "dec_kind d = decide rs p"
    "dec_next d = next_actions pf (decide rs p) p rs" by (rule decision_InrE) simp
  then have "dec_kind d = decide [] p" "dec_next d = next_actions pf (decide [] p) p []" using none by auto
  moreover have "decide [] p = (if \<exists>a \<in> set (plan_actions p). act_blocked a = [] then Branch else Stop)"
    by (auto simp: decide_def list_ex_iff)
  ultimately show ?thesis
    using d by (intro exI [of _ d]) (auto simp: next_actions_def pending_actions_def)
qed

end
