(* ===== verification/Director_Samples.thy ===== *)
theory Director_Samples
  imports Director_Verdicts Sample_Platform
begin

text \<open>
  Concrete inputs for the director's theorems: a run that gathers evidence and exports a
  document, whose plan is computed step by step, and the properties of the director
  applied to it.
\<close>

section \<open>A plan with two actions\<close>

definition sample_dates :: "string \<Rightarrow> int option" where
  "sample_dates s = Some 0"

definition gather :: capability where
  "gather = \<lparr>cap_id = ''gather'', cap_tool = ''search'', cap_operation = ''run'', cap_available = True,
     cap_reason = None, cap_parallel = True, cap_accepts = [], cap_produces = [Evidence_pack],
     cap_depends = Some [], cap_cost = 3, cap_duration = 20, cap_boundary = None\<rparr>"

definition publish :: capability where
  "publish = \<lparr>cap_id = ''publish'', cap_tool = ''writer'', cap_operation = ''export_pdf'', cap_available = True,
     cap_reason = None, cap_parallel = False, cap_accepts = [Evidence_pack], cap_produces = [Render_run],
     cap_depends = Some [''gather''], cap_cost = 4, cap_duration = 50, cap_boundary = None\<rparr>"

definition consent :: approval where
  "consent = \<lparr>appr_id = ''r1'', appr_boundary = Export, appr_capability = None,
     appr_status = Approved, appr_by = ''user'', appr_at = ''1970-01-01T00:00:00.000Z''\<rparr>"

definition open_access :: permissions where
  "open_access = \<lparr>perm_default = Allow, perm_allowed = Some [], perm_denied = Some []\<rparr>"

definition sample_budget :: budget where
  "sample_budget = \<lparr>bud_limit = 10, bud_spent = 2, bud_limit_ms = Some 100, bud_spent_ms = Some 10\<rparr>"

definition sample_goal :: goal where
  "sample_goal = \<lparr>goal_objective = ''test'', goal_constraints = None, goal_criteria = None\<rparr>"

definition sample_input :: plan_input where
  "sample_input = \<lparr>pi_goal = sample_goal, pi_artifacts = [], pi_findings = None,
     pi_capabilities = [publish, gather], pi_budget = sample_budget,
     pi_permissions = \<lparr>perm_default = Allow, perm_allowed = None, perm_denied = None\<rparr>,
     pi_approvals = Some [consent], pi_id = Some ''plan-1'', pi_now = 0\<rparr>"

definition gather_id :: string where
  "gather_id = ''action-advance-000e00a0000d000000ba0ac0''"

definition publish_id :: string where
  "publish_id = ''action-advance-000000b00000d000000ba0ac''"

definition gather_action :: mutable_action where
  "gather_action = \<lparr>ma_id = gather_id, ma_cap = gather, ma_intent = Advance_intent, ma_inputs = [],
     ma_targets = [], ma_findings = [], ma_deps = [], ma_blocked = []\<rparr>"

definition publish_action :: mutable_action where
  "publish_action = \<lparr>ma_id = publish_id, ma_cap = publish, ma_intent = Advance_intent, ma_inputs = [],
     ma_targets = [], ma_findings = [], ma_deps = [gather_id], ma_blocked = []\<rparr>"

definition sample_plan :: mutable_plan where
  "sample_plan = \<lparr>mp_actions = [(gather_id, gather_action), (publish_id, publish_action)], mp_boundaries = []\<rparr>"

definition sample_batches :: "batch list" where
  "sample_batches =
     [\<lparr>bat_id = ''batch-001'', bat_actions = [gather_id], bat_parallel = True, bat_cost = 3, bat_duration = 20\<rparr>,
      \<lparr>bat_id = ''batch-002'', bat_actions = [publish_id], bat_parallel = False, bat_cost = 4, bat_duration = 50\<rparr>]"

lemma sample_goal_ok: "normalizeGoal sample_goal = Inr sample_goal"
  by code_simp

lemma sample_capabilities_ok: "normalizeCapabilities text_platform [publish, gather] = Inr [gather, publish]"
  by code_simp

lemma sample_budget_ok: "normalizeBudget sample_budget = Inr sample_budget"
  by code_simp

lemma sample_permissions_ok:
  "normalizePermissions text_platform \<lparr>perm_default = Allow, perm_allowed = None, perm_denied = None\<rparr> = Inr open_access"
  by code_simp

lemma sample_approvals_ok: "normalizeApprovalReceipts sample_dates (Some [consent]) = Inr [consent]"
  by code_simp

lemma sample_artifacts_ok:
  "mergeArtifacts text_platform [] (or_empty None) = Inr []"
  "buildResearchArtifactGraph (pf_le text_platform) [] =
     Inr \<lparr>g_artifacts = [], g_children = [], g_inval_children = [], g_roots = [], g_missing = []\<rparr>"
  "latestResearchArtifactRevisions (pf_le text_platform) [] = []"
  by code_simp+

lemma sample_proposed:
  "propose_actions text_platform open_access [consent] [gather, publish] [] [] = Inr sample_plan"
  by code_simp

lemma sample_scheduled:
  "schedule_actions text_platform sample_budget sample_plan = Inr (sample_plan, sample_batches)"
  by code_simp

lemma plan_entries_ok: "js_ok (JObj (plan_entries b))"
proof -
  have "js_ok (action_json a)" for a by (simp add: action_json_def)
  moreover have "js_ok (batch_json q)" for q by (simp add: batch_json_def)
  moreover have "js_ok (boundary_json q)" for q
    using boundary_entries_ok [of q] by (simp add: boundary_json_def)
  ultimately show ?thesis
    by (simp add: plan_entries_def projection_json_def list_all_iff [of _ "map _ _"])
qed

lemma director_hash_total: "js_ok v \<Longrightarrow> \<exists>h. director_hash pf v = Inr h"
  using hash_total [of v pf] by (auto simp: director_hash_def lift_director_def)

lemma seal_plan_total: "\<exists>p. lift_director (sealDirectorPlanRecord pf b) = Inr p"
  using hash_total [OF plan_entries_ok, of pf b]
  by (auto simp: lift_director_def sealDirectorPlanRecord_def rmap_def)

lemma assemble_plan_total:
  assumes "pi_id inp = Some i" "safeIdentifier i ''planId'' = Inr i"
  shows "\<exists>p. assemble_plan pf inp g caps bud perms apprs latest pl bs = Inr p"
proof -
  obtain ch where ch: "director_hash pf (JArr (map capability_json caps)) = Inr ch"
    using director_hash_total [of "JArr (map capability_json caps)" pf] by (auto simp: list_all_iff)
  obtain sh where sh: "director_hash pf (state_json g latest (sort_by (compareRefKeys pf)
      (map toResearchArtifactRef (findUnresolvedFindings latest)))) = Inr sh"
    using director_hash_total by (fastforce simp: state_json_def list_all_iff [of _ "map _ _"] ref_json_def)
  show ?thesis
    unfolding assemble_plan_def Let_def by (simp add: ch sh assms seal_plan_total)
qed

lemma assemble_plan_id:
  assumes "assemble_plan pf inp g caps bud perms apprs latest pl bs = Inr p"
    and "pi_id inp = Some i" "safeIdentifier i ''planId'' = Inr i"
  shows "plan_id p = i"
proof -
  from assms(1) obtain b where S: "lift_director (sealDirectorPlanRecord pf b) = Inr p"
    and "(case pi_id inp of None \<Rightarrow> Inr n | Some i \<Rightarrow> safeIdentifier i ''planId'') = Inr (plan_id b)" for n
    unfolding assemble_plan_def Let_def rbind_eq_Inr by (elim exE conjE) (simp add: assms(2))
  then have "plan_id b = i" using assms(2,3) by simp
  then show ?thesis using seal_plan_Inr [OF S] by (auto simp: plan_body.extend_def plan.fields_def)
qed

lemma sample_plan_made:
  "\<exists>p. createResearchDirectorPlan text_platform sample_dates sample_input = Inr p
     \<and> plan_batches p = sample_batches \<and> plan_actions p = freezeActions text_platform (mp_actions sample_plan)
     \<and> plan_id p = ''plan-1'' \<and> proj_planned (plan_projection p) = 7 \<and> proj_available_ms (plan_projection p) = Some 90"
proof -
  have id: "pi_id sample_input = Some ''plan-1''" "safeIdentifier ''plan-1'' ''planId'' = Inr ''plan-1''"
    by (simp add: sample_input_def) code_simp
  obtain p where A: "assemble_plan text_platform sample_input sample_goal [gather, publish] sample_budget
      open_access [consent] [] sample_plan sample_batches = Inr p"
    using assemble_plan_total [OF id] by blast
  have "createResearchDirectorPlan text_platform sample_dates sample_input = Inr p"
    unfolding createResearchDirectorPlan_def sample_input_def plan_input.select_convs
      sample_goal_ok sample_capabilities_ok sample_budget_ok sample_permissions_ok sample_approvals_ok
      sample_artifacts_ok lift_graph_def sum.case rbind_simps Let_def artifact_graph.select_convs
      sample_proposed sample_scheduled prod.case
    using A by (simp add: sample_input_def)
  moreover have "project_budget sample_budget (freezeActions text_platform (mp_actions sample_plan)) sample_batches
      = \<lparr>proj_available = 8, proj_planned = 7, proj_available_ms = Some 90, proj_planned_ms = 70\<rparr>"
    by code_simp
  ultimately show ?thesis
    using assemble_plan_fields [OF A] assemble_plan_id [OF A id] by (intro exI [of _ p]) simp
qed


definition sample_receipt :: receipt where
  "sample_receipt = \<lparr>rec_id = ''e1'', rec_plan = ''plan-1'', rec_action = gather_id, rec_capability = ''gather'',
     rec_status = Succeeded, rec_outcome = Some Progressed, rec_outputs = [], rec_cost = 3, rec_duration = 15,
     rec_completed = ''1970-01-01T00:00:00.000Z'', rec_error = None\<rparr>"

definition sample_frozen :: "action list" where
  "sample_frozen = freezeActions text_platform (mp_actions sample_plan)"

lemma sample_receipt_ok:
  assumes "plan_actions p = sample_frozen" "plan_id p = ''plan-1''"
  shows "normalizeExecutionReceipts text_platform sample_dates [sample_receipt] p = Inr [sample_receipt]"
proof -
  have g: "map_option act_capability (jget (of_keys act_id sample_frozen) gather_id) = Some ''gather''"
    "map_option act_blocked (jget (of_keys act_id sample_frozen) gather_id) = Some []"
    by code_simp+
  then obtain a where a: "jget (of_keys act_id sample_frozen) gather_id = Some a" "act_capability a = ''gather''"
    "act_blocked a = []" by (cases "jget (of_keys act_id sample_frozen) gather_id") auto
  have s: "safeIdentifier ''e1'' l = Inr ''e1''" "safeIdentifier gather_id l = Inr gather_id" for l
    by (simp_all add: safeIdentifier_def id_pattern_def id_char_def is_alnum_def is_upper_def is_lower_def
        is_digit_def gather_id_def)
  have iso: "iso_string 0 = ''1970-01-01T00:00:00.000Z''" by code_simp
  have "normalize_receipt text_platform sample_dates p 0 [] [] sample_receipt = Inr sample_receipt"
    unfolding normalize_receipt_def
    by (simp add: sample_receipt_def s assms a optional_def uniqueRefValues_def rmap_def sort_by_def jvals_def
        nonNegativeNumber_def isoDate_def sample_dates_def iso)
  then show ?thesis by (simp add: normalizeExecutionReceipts_def rmap_def sort_by_def)
qed

text \<open>The plan and the decision after the first action succeeded.\<close>

lemma sample_decision_made:
  obtains p d where "createResearchDirectorPlan text_platform sample_dates sample_input = Inr p"
    "plan_actions p = sample_frozen"
    "createResearchDirectorDecision text_platform sample_dates
       \<lparr>di_plan = p, di_receipts = [sample_receipt], di_approvals = None, di_id = None, di_now = 0\<rparr> = Inr d"
proof -
  obtain p where p: "createResearchDirectorPlan text_platform sample_dates sample_input = Inr p"
    "plan_actions p = sample_frozen" "plan_id p = ''plan-1''"
    using sample_plan_made by (auto simp: sample_frozen_def)
  have "assertPlanRecord text_platform sample_dates p = Inr p"
    by (rule fresh_plan_accepted [OF platform_ok_text _ p(1)]) (simp add: sample_dates_def)
  from decision_total [OF this sample_receipt_ok [OF p(2,3)]] p that show thesis by blast
qed

section \<open>The properties on the sample\<close>

theorem plan_batches_ordered_witness:
  "\<exists>p. createResearchDirectorPlan text_platform sample_dates sample_input = Inr p
    \<and> plan_batches p = sample_batches
    \<and> set (concat (map bat_actions (plan_batches p))) = act_id ` {a \<in> set (plan_actions p). act_blocked a = []}"
proof -
  obtain p where p: "createResearchDirectorPlan text_platform sample_dates sample_input = Inr p"
    "plan_batches p = sample_batches" using sample_plan_made by blast
  with plan_batches_ordered [OF p(1)] show ?thesis by blast
qed


theorem plan_actions_cleared_witness:
  "\<exists>p a caps perms apprs c. createResearchDirectorPlan text_platform sample_dates sample_input = Inr p
    \<and> a \<in> set (plan_actions p) \<and> act_capability a = ''publish''
    \<and> c \<in> set caps \<and> cap_id c = ''publish'' \<and> cleared text_platform perms apprs c"
proof -
  obtain p where p: "createResearchDirectorPlan text_platform sample_dates sample_input = Inr p"
    "plan_actions p = sample_frozen" using sample_plan_made by (auto simp: sample_frozen_def)
  have a: "freeze_action text_platform publish_action \<in> set sample_frozen"
    by (simp add: sample_frozen_def freezeActions_def sample_plan_def jvals_def)
  have b: "act_blocked (freeze_action text_platform publish_action) = []"
    "act_capability (freeze_action text_platform publish_action) = ''publish''"
    by (simp_all add: freeze_action_def publish_action_def sort_by_def publish_def)
  from plan_actions_cleared [OF p(1) _ b(1)] a b p show ?thesis by metis
qed

lemma sample_keyed: "keyed sample_plan"
  by (simp add: keyed_def sample_plan_def gather_action_def publish_action_def gather_id_def publish_id_def)

theorem batches_or_cycle_witness:
  "keyed sample_plan \<and> acyclic (dependency (eligible_actions text_platform (mp_actions sample_plan)))"
proof -
  have "createReadyBatches text_platform (mp_actions sample_plan) = Inr sample_batches" by code_simp
  with batches_or_cycle [OF sample_keyed, of text_platform] sample_keyed show ?thesis by (auto split: if_splits)
qed

definition refusal :: approval where
  "refusal = \<lparr>appr_id = ''r2'', appr_boundary = Export, appr_capability = Some ''publish'',
     appr_status = Denied, appr_by = ''user'', appr_at = ''1970-01-02T00:00:00.000Z''\<rparr>"

theorem approval_decides_witness:
  "approvalFor text_platform ''publish'' Export [consent, refusal] = Some refusal
    \<and> pf_le text_platform (appr_at consent) (appr_at refusal)"
proof -
  have e: "approvalFor text_platform ''publish'' Export [consent, refusal] = Some refusal" by code_simp
  have "total_preorder (pf_le text_platform)" using platform_ok_text by (simp add: platform_ok_def)
  from approval_decides [OF this e] have "approval_covers ''publish'' Export consent \<longrightarrow>
      pf_le text_platform (appr_at consent) (appr_at refusal)" by simp
  moreover have "approval_covers ''publish'' Export consent" by (simp add: approval_covers_def consent_def)
  ultimately show ?thesis using e by blast
qed

theorem decision_receipts_belong_witness:
  "\<exists>p d. createResearchDirectorDecision text_platform sample_dates
       \<lparr>di_plan = p, di_receipts = [sample_receipt], di_approvals = None, di_id = None, di_now = 0\<rparr> = Inr d
     \<and> receipt_fits p sample_receipt \<and> dec_cost d = 3"
proof -
  obtain p d where d: "createResearchDirectorDecision text_platform sample_dates
       \<lparr>di_plan = p, di_receipts = [sample_receipt], di_approvals = None, di_id = None, di_now = 0\<rparr> = Inr d"
    by (rule sample_decision_made)
  from decision_receipts_belong [OF d] have "receipt_fits p sample_receipt" "dec_cost d = 3"
    by (simp_all add: sample_receipt_def)
  with d show ?thesis by blast
qed

theorem decision_next_safe_witness:
  "\<exists>p d. createResearchDirectorDecision text_platform sample_dates
       \<lparr>di_plan = p, di_receipts = [sample_receipt], di_approvals = None, di_id = None, di_now = 0\<rparr> = Inr d
     \<and> plan_actions p = sample_frozen \<and> set (dec_next d) \<subseteq> act_id ` set sample_frozen
     \<and> (dec_kind d \<noteq> Recover \<longrightarrow> gather_id \<notin> set (dec_next d))"
proof -
  obtain p d where p: "plan_actions p = sample_frozen" and d: "createResearchDirectorDecision text_platform sample_dates
       \<lparr>di_plan = p, di_receipts = [sample_receipt], di_approvals = None, di_id = None, di_now = 0\<rparr> = Inr d"
    by (rule sample_decision_made)
  from decision_next_safe [OF d] p have "set (dec_next d) \<subseteq> act_id ` set sample_frozen"
    "dec_kind d \<noteq> Recover \<longrightarrow> gather_id \<notin> set (dec_next d)"
    by (auto simp: sample_receipt_def)
  with p d show ?thesis by blast
qed

theorem fresh_plan_decides_witness:
  "\<exists>p d. createResearchDirectorPlan text_platform sample_dates sample_input = Inr p
     \<and> createResearchDirectorDecision text_platform sample_dates
         \<lparr>di_plan = p, di_receipts = [], di_approvals = None, di_id = None, di_now = 0\<rparr> = Inr d
     \<and> dec_kind d = Branch"
proof -
  obtain p where p: "createResearchDirectorPlan text_platform sample_dates sample_input = Inr p"
    "plan_actions p = sample_frozen" using sample_plan_made by (auto simp: sample_frozen_def)
  have "\<exists>a \<in> set sample_frozen. act_blocked a = []"
    by (rule bexI [of _ "freeze_action text_platform gather_action"])
       (simp_all add: sample_frozen_def freezeActions_def sample_plan_def jvals_def freeze_action_def
          gather_action_def sort_by_def)
  moreover have "sample_dates (iso_string ms) \<noteq> None" for ms by (simp add: sample_dates_def)
  ultimately show ?thesis
    using fresh_plan_decides [OF platform_ok_text _ p(1), of 0] p by auto
qed

definition claim_finding :: envelope where
  "claim_finding = \<lparr>art_id = ''f1'', art_revision = 1, art_kind = Finding, art_status = Active,
      art_created = 0, art_updated = 0, art_hash = ''sha256:'' @ sample_digest,
      art_producer = \<lparr>prod_kind = User, prod_id = None, prod_tool = None\<rparr>, art_parents = [], art_sources = [],
      art_invalidation = None,
      art_payload = JObj [(''assessment'', JStr ''concern''), (''affectedArtifactRefs'', JArr
        [ref_json \<lparr>ref_id = ''c1'', ref_revision = 1, ref_kind = Claim_node, ref_hash = ''sha256:'' @ sample_digest\<rparr>])]\<rparr>"

theorem claim_target_rejected_witness:
  "findUnresolvedFindings [claim_finding] = [claim_finding] \<and>
     (\<exists>e. addRepairActions text_platform [] [claim_finding] [] [] \<lparr>mp_actions = [], mp_boundaries = []\<rparr> = Inl e)"
proof
  show "findUnresolvedFindings [claim_finding] = [claim_finding]"
    by (simp add: findUnresolvedFindings_def resolved_keys_def claim_finding_def)
  let ?v = "ref_json \<lparr>ref_id = ''c1'', ref_revision = 1, ref_kind = Claim_node, ref_hash = ''sha256:'' @ sample_digest\<rparr>"
  have p: "is_record (art_payload claim_finding)"
    "entry ''affectedArtifactRefs'' (art_payload claim_finding) = JArr [?v]"
    by (simp_all add: claim_finding_def)
  have v: "isArtifactRef ?v" "entry ''kind'' ?v = JStr ''claim''"
    by (simp_all add: ref_json_def isArtifactRef_def)
  show "\<exists>e. addRepairActions text_platform [] [claim_finding] [] []
      \<lparr>mp_actions = [], mp_boundaries = []\<rparr> = Inl e"
    by (rule claim_target_rejected [OF p _ v]) (rule list.set_intros(1))
qed

end
