(* ===== verification/Permission_Paths.thy ===== *)
theory Permission_Paths
  imports Artifact_Types
begin

text \<open>
  The part of \<open>node:path\<close> (POSIX) that the permission policy uses: \<open>isAbsolute\<close>, \<open>resolve\<close>,
  \<open>join\<close> and \<open>relative\<close>, on segments. \<open>pcwd\<close> is \<open>process.cwd()\<close>, an absolute path.
\<close>

definition isAbsolutePath :: "string \<Rightarrow> bool" where
  "isAbsolutePath p \<longleftrightarrow> (case p of [] \<Rightarrow> False | c # _ \<Rightarrow> c = CHR ''/'')"

text \<open>The non-empty segments between slashes.\<close>

function path_segments :: "string \<Rightarrow> string list" where
  "path_segments [] = []"
| "path_segments (c # cs) =
     (if c = CHR ''/'' then path_segments cs
      else (c # takeWhile (\<lambda>d. d \<noteq> CHR ''/'') cs) # path_segments (dropWhile (\<lambda>d. d \<noteq> CHR ''/'') cs))"
  by pat_completeness auto
termination
  by (relation "measure length") (auto simp: less_Suc_eq_le length_dropWhile_le)

fun slash_join :: "string list \<Rightarrow> string" where
  "slash_join [] = []"
| "slash_join [s] = s"
| "slash_join (s # ss) = s @ CHR ''/'' # slash_join ss"

text \<open>\<open>normalizeString\<close>: the stack of segments, innermost first.\<close>

definition normalize_step :: "bool \<Rightarrow> string list \<Rightarrow> string \<Rightarrow> string list" where
  "normalize_step allowAboveRoot st s =
     (if s = ''.'' then st
      else if s = ''..'' then
        (case st of
           [] \<Rightarrow> if allowAboveRoot then [''..''] else []
         | t # ts \<Rightarrow> if t = ''..'' then ''..'' # st else ts)
      else s # st)"

definition normalize_segments :: "bool \<Rightarrow> string list \<Rightarrow> string list" where
  "normalize_segments allowAboveRoot ss = rev (foldl (normalize_step allowAboveRoot) [] ss)"

definition resolved_segments :: "string \<Rightarrow> string list \<Rightarrow> string list" where
  "resolved_segments pcwd ps =
     normalize_segments False (path_segments
       (foldl (\<lambda>acc p. if p = [] then acc else if isAbsolutePath p then p else acc @ CHR ''/'' # p) pcwd ps))"

definition resolvePath :: "string \<Rightarrow> string list \<Rightarrow> string" where
  "resolvePath pcwd ps = CHR ''/'' # slash_join (resolved_segments pcwd ps)"

definition joinPath :: "string \<Rightarrow> string \<Rightarrow> string" where
  "joinPath a b =
     (let p = (if a = [] then b else if b = [] then a else a @ CHR ''/'' # b);
          ss = normalize_segments (\<not> isAbsolutePath p) (path_segments p);
          body = (if ss = [] \<and> \<not> isAbsolutePath p then ''.'' else slash_join ss);
          tail = (if p \<noteq> [] \<and> last p = CHR ''/'' \<and> (ss \<noteq> [] \<or> \<not> isAbsolutePath p) then ''/'' else [])
      in (if isAbsolutePath p then CHR ''/'' # body else body) @ tail)"

fun strip_common :: "string list \<Rightarrow> string list \<Rightarrow> string list \<times> string list" where
  "strip_common (x # xs) (y # ys) = (if x = y then strip_common xs ys else (x # xs, y # ys))"
| "strip_common xs ys = (xs, ys)"

definition relativePath :: "string \<Rightarrow> string \<Rightarrow> string \<Rightarrow> string" where
  "relativePath pcwd from to =
     (case strip_common (resolved_segments pcwd [from]) (resolved_segments pcwd [to]) of
        (up, down) \<Rightarrow> slash_join (replicate (length up) ''..'' @ down))"

section \<open>Facts about segments\<close>

definition plain_segment :: "string \<Rightarrow> bool" where
  "plain_segment s \<longleftrightarrow> s \<noteq> [] \<and> CHR ''/'' \<notin> set s \<and> s \<noteq> ''.'' \<and> s \<noteq> ''..''"

lemma path_segments_plain: "s \<in> set (path_segments p) \<Longrightarrow> s \<noteq> [] \<and> CHR ''/'' \<notin> set s"
  by (induction p rule: path_segments.induct) (auto split: if_splits dest: set_takeWhileD)

lemma normalize_step_plain:
  "list_all plain_segment st \<Longrightarrow> s \<noteq> [] \<and> CHR ''/'' \<notin> set s \<Longrightarrow> list_all plain_segment (normalize_step False st s)"
  by (auto simp: normalize_step_def plain_segment_def split: list.splits)

lemma normalize_segments_plain:
  assumes "\<forall>s \<in> set ss. s \<noteq> [] \<and> CHR ''/'' \<notin> set s"
  shows "list_all plain_segment (normalize_segments False ss)"
proof -
  have "list_all plain_segment st \<Longrightarrow> \<forall>s \<in> set ss. s \<noteq> [] \<and> CHR ''/'' \<notin> set s \<Longrightarrow>
      list_all plain_segment (foldl (normalize_step False) st ss)" for st
    by (induction ss arbitrary: st) (auto simp: normalize_step_plain)
  from this [of "[]"] assms show ?thesis by (simp add: normalize_segments_def list_all_iff)
qed

lemma resolved_plain: "list_all plain_segment (resolved_segments pcwd ps)"
  unfolding resolved_segments_def using path_segments_plain by (intro normalize_segments_plain) blast

lemma slash_join_segments: "list_all plain_segment ss \<Longrightarrow> path_segments (slash_join ss) = ss"
proof (induction ss rule: slash_join.induct)
  case (2 s)
  then obtain c cs where s: "s = c # cs" "c \<noteq> CHR ''/''" "CHR ''/'' \<notin> set cs"
    by (cases s) (auto simp: plain_segment_def)
  then have td: "takeWhile (\<lambda>d. d \<noteq> CHR ''/'') cs = cs" "dropWhile (\<lambda>d. d \<noteq> CHR ''/'') cs = []"
    by (auto simp: takeWhile_eq_all_conv dropWhile_eq_Nil_conv)
  show ?case
    unfolding s(1) slash_join.simps(2) path_segments.simps(2) if_not_P [OF s(2)] td by simp
next
  case (3 s t ts)
  then obtain c cs where s: "s = c # cs" "c \<noteq> CHR ''/''" "CHR ''/'' \<notin> set cs"
    by (cases s) (auto simp: plain_segment_def)
  then have "\<forall>x \<in> set cs. x \<noteq> CHR ''/''" by auto
  then have t: "takeWhile (\<lambda>d. d \<noteq> CHR ''/'') (cs @ CHR ''/'' # slash_join (t # ts)) = cs"
    and d: "dropWhile (\<lambda>d. d \<noteq> CHR ''/'') (cs @ CHR ''/'' # slash_join (t # ts)) = CHR ''/'' # slash_join (t # ts)"
    by (simp_all add: takeWhile_append2 dropWhile_append2)
  have "slash_join (s # t # ts) = c # (cs @ CHR ''/'' # slash_join (t # ts))" using s by simp
  then have "path_segments (slash_join (s # t # ts)) = s # path_segments (CHR ''/'' # slash_join (t # ts))"
    using s(1,2) t d by (simp only: path_segments.simps if_False)
  moreover have "path_segments (CHR ''/'' # slash_join (t # ts)) = path_segments (slash_join (t # ts))" by simp
  ultimately show ?case using 3 by simp
qed simp

lemma normalize_plain_id: "list_all plain_segment ss \<Longrightarrow> normalize_segments False ss = ss"
proof -
  have "list_all plain_segment ss \<Longrightarrow> foldl (normalize_step False) st ss = rev ss @ st" for st
    by (induction ss arbitrary: st) (auto simp: normalize_step_def plain_segment_def)
  from this [of "[]"] show "list_all plain_segment ss \<Longrightarrow> normalize_segments False ss = ss"
    by (simp add: normalize_segments_def)
qed

lemma resolve_resolved [simp]:
  "resolved_segments pcwd [resolvePath pcwd' ps] = resolved_segments pcwd' ps"
proof -
  have "path_segments (resolvePath pcwd' ps) = resolved_segments pcwd' ps"
    using slash_join_segments [OF resolved_plain] by (simp add: resolvePath_def)
  then have "normalize_segments False (path_segments (resolvePath pcwd' ps)) = resolved_segments pcwd' ps"
    using normalize_plain_id [OF resolved_plain] by simp
  then show ?thesis by (simp add: resolved_segments_def [of pcwd] resolvePath_def isAbsolutePath_def)
qed

lemma strip_common_prefix: "strip_common xs ys = (us, vs) \<Longrightarrow> \<exists>p. xs = p @ us \<and> ys = p @ vs"
proof (induction xs ys arbitrary: us vs rule: strip_common.induct)
  case (1 x xs y ys)
  show ?case
  proof (cases "x = y")
    case True
    with 1 obtain p where "xs = p @ us" "ys = p @ vs" by auto
    with True show ?thesis by (intro exI [of _ "x # p"]) simp
  next
    case False
    with 1(2) show ?thesis by (intro exI [of _ "[]"]) auto
  qed
qed auto

lemma slash_join_prefix: "ss \<noteq> [] \<Longrightarrow> \<exists>r. slash_join ss = hd ss @ r"
  by (cases ss rule: slash_join.cases) auto

text \<open>A relative path that neither is empty nor starts with two dots stays below its origin.\<close>

lemma relative_below:
  assumes "take 2 (relativePath pcwd from to) \<noteq> ''..''"
  shows "\<exists>rest. resolved_segments pcwd [to] = resolved_segments pcwd [from] @ rest"
proof -
  obtain up down where s: "strip_common (resolved_segments pcwd [from]) (resolved_segments pcwd [to]) = (up, down)"
    by fastforce
  then obtain p where p: "resolved_segments pcwd [from] = p @ up" "resolved_segments pcwd [to] = p @ down"
    using strip_common_prefix by blast
  have "up = []"
  proof (rule ccontr)
    assume "up \<noteq> []"
    then obtain u us where "up = u # us" by (cases up) auto
    then have "\<exists>r. relativePath pcwd from to = ''..'' @ r"
      using s slash_join_prefix [of "''..'' # replicate (length us) ''..'' @ down"]
      by (simp add: relativePath_def)
    with assms show False by auto
  qed
  with p show ?thesis by simp
qed

end
