(* ===== verification/Permission_Rules.thy ===== *)
theory Permission_Rules
  imports Permission_Paths
begin

text \<open>
  \<open>src/permission/protocol/types.ts\<close> and \<open>policy/matchPermissionRule.ts\<close>: rules, contexts
  and the matching of a rule against a tool call. The regular expression
  \<open>wildcardToRegExp\<close> builds is a list of tokens with a backtracking matcher.
\<close>

section \<open>Rules and contexts\<close>

datatype permission_mode = Default_mode | Plan_only | Bypass_permissions

datatype rule_behavior = Allow_rule | Deny_rule | Ask_rule

datatype rule_source = From_user | From_project | From_session | From_policy | From_cli

record permission_rule =
  pr_source :: rule_source
  pr_behavior :: rule_behavior
  pr_tool :: string
  pr_pattern :: "string option"

record rule_set =
  rs_allow :: "permission_rule list"
  rs_deny :: "permission_rule list"
  rs_ask :: "permission_rule list"

record permission_context =
  pc_mode :: permission_mode
  pc_rules :: rule_set
  pc_cwd :: string
  pc_dirs :: "string list"
  pc_can_prompt :: bool
  pc_bypass_available :: bool
  pc_plan_dir :: "string option"

definition emptyPermissionRuleSet :: rule_set where
  "emptyPermissionRuleSet = \<lparr>rs_allow = [], rs_deny = [], rs_ask = []\<rparr>"

definition protect :: "string \<Rightarrow> string \<Rightarrow> permission_rule" where
  "protect tool pattern =
     \<lparr>pr_source = From_policy, pr_behavior = Deny_rule, pr_tool = tool, pr_pattern = Some pattern\<rparr>"

definition BUILTIN_PROTECTED_PATH_RULES :: "permission_rule list" where
  "BUILTIN_PROTECTED_PATH_RULES =
     [protect ''write_file'' ''**/.git/**'', protect ''edit_file'' ''**/.git/**'',
      protect ''write_file'' ''**/.rigorium/**'', protect ''edit_file'' ''**/.rigorium/**'']"

text \<open>The options of a new context; \<open>None\<close> is an option left out.\<close>

record context_options =
  co_cwd :: string
  co_mode :: "permission_mode option"
  co_can_prompt :: "bool option"
  co_bypass :: "bool option"
  co_dirs :: "string list option"
  co_plan_dir :: "string option"
  co_allow :: "permission_rule list option"
  co_deny :: "permission_rule list option"
  co_ask :: "permission_rule list option"

definition given :: "'a \<Rightarrow> 'a option \<Rightarrow> 'a" where
  "given d m = (case m of None \<Rightarrow> d | Some x \<Rightarrow> x)"

definition createDefaultPermissionContext :: "context_options \<Rightarrow> permission_context" where
  "createDefaultPermissionContext o' =
     \<lparr>pc_mode = given Default_mode (co_mode o'),
      pc_rules = \<lparr>rs_allow = given [] (co_allow o'),
                  rs_deny = given [] (co_deny o') @ BUILTIN_PROTECTED_PATH_RULES,
                  rs_ask = given [] (co_ask o')\<rparr>,
      pc_cwd = co_cwd o', pc_dirs = given [] (co_dirs o'),
      pc_can_prompt = given False (co_can_prompt o'),
      pc_bypass_available = given False (co_bypass o'),
      pc_plan_dir = (case co_plan_dir o' of None \<Rightarrow> None | Some d \<Rightarrow> if d = [] then None else Some d)\<rparr>"

section \<open>Wildcards\<close>

datatype glob_token =
    Dirs          \<comment> \<open>any number of segments, each followed by a slash\<close>
  | Within        \<comment> \<open>any characters but slashes\<close>
  | Any_one       \<comment> \<open>one character that is no slash\<close>
  | Exactly char

fun wildcardToRegExp :: "string \<Rightarrow> glob_token list" where
  "wildcardToRegExp [] = []"
| "wildcardToRegExp (c # r) =
     (if c = CHR ''*'' then
        (case r of
           d # r2 \<Rightarrow>
             if d = CHR ''*'' then
               (case r2 of
                  e # r3 \<Rightarrow> if e = CHR ''/'' then Dirs # wildcardToRegExp r3
                           else Dirs # Within # wildcardToRegExp r2
                | [] \<Rightarrow> Dirs # Within # wildcardToRegExp r2)
             else Within # wildcardToRegExp r
         | [] \<Rightarrow> Within # wildcardToRegExp r)
      else if c = CHR ''?'' then Any_one # wildcardToRegExp r
      else Exactly c # wildcardToRegExp r)"

lemma shorter_rest: "dropWhile P r = x # r2 \<Longrightarrow> length r2 < length r"
  by (metis length_Cons length_dropWhile_le less_eq_Suc_le)

function (sequential) glob_match :: "glob_token list \<Rightarrow> string \<Rightarrow> bool" where
  "glob_match [] s \<longleftrightarrow> s = []"
| "glob_match (Exactly c # ts) [] \<longleftrightarrow> False"
| "glob_match (Exactly c # ts) (d # r) \<longleftrightarrow> d = c \<and> glob_match ts r"
| "glob_match (Any_one # ts) [] \<longleftrightarrow> False"
| "glob_match (Any_one # ts) (d # r) \<longleftrightarrow> d \<noteq> CHR ''/'' \<and> glob_match ts r"
| "glob_match (Within # ts) [] \<longleftrightarrow> glob_match ts []"
| "glob_match (Within # ts) (d # r) \<longleftrightarrow>
     glob_match ts (d # r) \<or> (d \<noteq> CHR ''/'' \<and> glob_match (Within # ts) r)"
| "glob_match (Dirs # ts) [] \<longleftrightarrow> glob_match ts []"
| "glob_match (Dirs # ts) (d # r) \<longleftrightarrow>
     glob_match ts (d # r)
     \<or> (d \<noteq> CHR ''/'' \<and> (case dropWhile (\<lambda>e. e \<noteq> CHR ''/'') r of
                           [] \<Rightarrow> False | _ # r2 \<Rightarrow> glob_match (Dirs # ts) r2))"
  by pat_completeness auto
termination
  by (relation "measures [\<lambda>(ts, s). length ts, \<lambda>(ts, s). length s]") (auto dest: shorter_rest intro: less_SucI)

definition wildcard_test :: "string \<Rightarrow> string \<Rightarrow> bool" where
  "wildcard_test pattern s \<longleftrightarrow> glob_match (wildcardToRegExp pattern) s"

section \<open>Matching a rule\<close>

fun field :: "string \<Rightarrow> js \<Rightarrow> js" where
  "field k (JObj es) = (case jget es k of None \<Rightarrow> JUndefined | Some v \<Rightarrow> v)"
| "field k _ = JUndefined"

fun text_of :: "js \<Rightarrow> string option" where
  "text_of (JStr s) = Some s"
| "text_of _ = None"

definition nullish :: "js \<Rightarrow> bool" where
  "nullish v \<longleftrightarrow> v = JNull \<or> v = JUndefined"

definition path_field :: "js \<Rightarrow> js" where
  "path_field v = (if nullish (field ''file_path'' v) then field ''filePath'' v else field ''file_path'' v)"

definition readCommand :: "js \<Rightarrow> string" where
  "readCommand v = (case text_of (field ''command'' v) of None \<Rightarrow> [] | Some c \<Rightarrow> js_trim c)"

definition readFilePath :: "js \<Rightarrow> string" where
  "readFilePath v = (case text_of (path_field v) of None \<Rightarrow> [] | Some p \<Rightarrow> js_trim p)"

text \<open>\<open>pattern.replace(/:\*$/, "*")\<close>\<close>

definition bash_pattern :: "string \<Rightarrow> string" where
  "bash_pattern p = (if 2 \<le> length p \<and> drop (length p - 2) p = '':*'' then take (length p - 2) p @ ''*'' else p)"

definition matchBashPattern :: "string \<Rightarrow> js \<Rightarrow> bool" where
  "matchBashPattern pattern input =
     (let command = readCommand input in command \<noteq> [] \<and> wildcard_test (bash_pattern pattern) command)"

definition normalizePathForPattern :: "string \<Rightarrow> string" where
  "normalizePathForPattern s = map (\<lambda>c. if c = CHR 0x5C then CHR ''/'' else c) s"

definition resolveInputFilePath :: "string \<Rightarrow> js \<Rightarrow> permission_context \<Rightarrow> string option" where
  "resolveInputFilePath pcwd input ctx =
     (let p = readFilePath input in
      if p = [] \<or> CHR 0x00 \<in> set p then None
      else Some (resolvePath pcwd [if isAbsolutePath p then p else joinPath (pc_cwd ctx) p]))"

definition matchFilePathPattern :: "string \<Rightarrow> string \<Rightarrow> js \<Rightarrow> permission_context \<Rightarrow> bool" where
  "matchFilePathPattern pcwd pattern input ctx =
     (case resolveInputFilePath pcwd input ctx of None \<Rightarrow> False
      | Some p \<Rightarrow> wildcard_test (normalizePathForPattern pattern) (normalizePathForPattern p))"

definition isPathWithinRoot :: "string \<Rightarrow> string \<Rightarrow> string \<Rightarrow> bool" where
  "isPathWithinRoot pcwd candidate root =
     (let r = relativePath pcwd root candidate in
      r = [] \<or> (take 2 r \<noteq> ''..'' \<and> \<not> isAbsolutePath r))"

definition isFileInputInsideWorkspace :: "string \<Rightarrow> js \<Rightarrow> permission_context \<Rightarrow> bool" where
  "isFileInputInsideWorkspace pcwd input ctx =
     (case resolveInputFilePath pcwd input ctx of None \<Rightarrow> False
      | Some p \<Rightarrow> list_ex (\<lambda>root. isPathWithinRoot pcwd p (resolvePath pcwd [root])) (pc_cwd ctx # pc_dirs ctx))"

definition rule_pattern :: "permission_rule \<Rightarrow> string option" where
  "rule_pattern r = (case pr_pattern r of None \<Rightarrow> None | Some p \<Rightarrow> if p = [] then None else Some p)"

definition matchesToolName :: "string \<Rightarrow> string \<Rightarrow> bool" where
  "matchesToolName ruleTool tool \<longleftrightarrow>
     ruleTool = tool \<or> (CHR ''*'' \<in> set ruleTool \<and> wildcard_test ruleTool tool)"

definition matchRulePattern ::
  "string \<Rightarrow> permission_rule \<Rightarrow> string \<Rightarrow> js \<Rightarrow> permission_context \<Rightarrow> bool" where
  "matchRulePattern pcwd rule tool input ctx =
     (case rule_pattern rule of None \<Rightarrow> True
      | Some p \<Rightarrow>
          if tool = ''bash'' then matchBashPattern p input
          else if tool \<in> {''read_file'', ''send_attachment'', ''write_file'', ''edit_file''}
          then matchFilePathPattern pcwd p input ctx
          else True)"

definition matchPermissionRule ::
  "string \<Rightarrow> permission_rule \<Rightarrow> string \<Rightarrow> js \<Rightarrow> permission_context \<Rightarrow> bool" where
  "matchPermissionRule pcwd rule tool input ctx =
     (if \<not> matchesToolName (pr_tool rule) tool then False
      else if tool \<in> {''write_file'', ''edit_file''} \<and> rule_pattern rule = None
      then isFileInputInsideWorkspace pcwd input ctx
      else if rule_pattern rule \<noteq> None then matchRulePattern pcwd rule tool input ctx
      else True)"

section \<open>The language of a pattern\<close>

text \<open>What the expression means: the concatenation of the texts each token stands for.\<close>

fun token_texts :: "glob_token \<Rightarrow> string set" where
  "token_texts (Exactly c) = {[c]}"
| "token_texts Any_one = {[d] | d. d \<noteq> CHR ''/''}"
| "token_texts Within = {w. CHR ''/'' \<notin> set w}"
| "token_texts Dirs = {concat (map (\<lambda>s. s @ ''/'') ss) | ss. \<forall>s \<in> set ss. s \<noteq> [] \<and> CHR ''/'' \<notin> set s}"

fun pattern_texts :: "glob_token list \<Rightarrow> string set" where
  "pattern_texts [] = {[]}"
| "pattern_texts (t # ts) = {u @ v | u v. u \<in> token_texts t \<and> v \<in> pattern_texts ts}"

lemma Nil_Within: "[] \<in> token_texts Within"
  by simp

lemma Nil_Dirs: "[] \<in> token_texts Dirs"
  by simp

lemma pattern_texts_Cons:
  "u \<in> token_texts t \<Longrightarrow> v \<in> pattern_texts ts \<Longrightarrow> u @ v \<in> pattern_texts (t # ts)"
  by (simp only: pattern_texts.simps) blast

lemma pattern_texts_ConsE:
  assumes "s \<in> pattern_texts (t # ts)"
  obtains u v where "s = u @ v" "u \<in> token_texts t" "v \<in> pattern_texts ts"
  using assms by (simp only: pattern_texts.simps) blast

lemma pattern_texts_skip: "[] \<in> token_texts t \<Longrightarrow> v \<in> pattern_texts ts \<Longrightarrow> v \<in> pattern_texts (t # ts)"
  using pattern_texts_Cons [of "[]"] by simp

lemma Dirs_Cons:
  assumes "s \<noteq> []" "CHR ''/'' \<notin> set s" "w \<in> token_texts Dirs"
  shows "s @ ''/'' @ w \<in> token_texts Dirs"
proof -
  from assms(3) obtain ss where "w = concat (map (\<lambda>s. s @ ''/'') ss)"
    "\<forall>s \<in> set ss. s \<noteq> [] \<and> CHR ''/'' \<notin> set s" by auto
  with assms(1,2) have "s @ ''/'' @ w = concat (map (\<lambda>s. s @ ''/'') (s # ss)) \<and>
    (\<forall>s \<in> set (s # ss). s \<noteq> [] \<and> CHR ''/'' \<notin> set s)" by simp
  then show ?thesis unfolding token_texts.simps mem_Collect_eq by (rule exI)
qed

lemma drop_to_slash: "dropWhile (\<lambda>e. e \<noteq> CHR ''/'') r = x # r2 \<Longrightarrow>
    r = takeWhile (\<lambda>e. e \<noteq> CHR ''/'') r @ CHR ''/'' # r2"
  by (induction r) (auto split: if_splits)

lemma glob_match_sound: "glob_match ts s \<Longrightarrow> s \<in> pattern_texts ts"
proof (induction ts s rule: glob_match.induct)
  case (3 c ts d r)
  then show ?case using pattern_texts_Cons [of "[c]" "Exactly c"] by simp
next
  case (5 ts d r)
  then show ?case using pattern_texts_Cons [of "[d]" Any_one] by simp
next
  case (6 ts)
  then show ?case using pattern_texts_skip [OF Nil_Within] by simp
next
  case (7 ts d r)
  then consider "d # r \<in> pattern_texts ts" | "d \<noteq> CHR ''/''" "r \<in> pattern_texts (Within # ts)" by auto
  then show ?case
  proof cases
    case 1
    then show ?thesis by (rule pattern_texts_skip [OF Nil_Within])
  next
    case 2
    from 2(2) obtain u v where u: "r = u @ v" "u \<in> token_texts Within" "v \<in> pattern_texts ts"
      by (rule pattern_texts_ConsE)
    then have "d # u \<in> token_texts Within" using 2(1) by simp
    from pattern_texts_Cons [OF this u(3)] u(1) show ?thesis by simp
  qed
next
  case (8 ts)
  then show ?case using pattern_texts_skip [OF Nil_Dirs] by simp
next
  case (9 ts d r)
  show ?case
  proof (cases "glob_match ts (d # r)")
    case True
    then have "d # r \<in> pattern_texts ts" by (rule 9(1))
    then show ?thesis by (rule pattern_texts_skip [OF Nil_Dirs])
  next
    case False
    with 9(3) obtain x r2 where d: "d \<noteq> CHR ''/''" and w: "dropWhile (\<lambda>e. e \<noteq> CHR ''/'') r = x # r2"
      and m: "glob_match (Dirs # ts) r2" by (auto split: list.splits)
    from 9(2) [OF w m] obtain u v where v: "r2 = u @ v" "u \<in> token_texts Dirs" "v \<in> pattern_texts ts"
      by (rule pattern_texts_ConsE)
    let ?s = "d # takeWhile (\<lambda>e. e \<noteq> CHR ''/'') r"
    have "CHR ''/'' \<notin> set ?s" using d by (auto dest: set_takeWhileD)
    then have "?s @ ''/'' @ u \<in> token_texts Dirs" using v(2) by (intro Dirs_Cons) simp_all
    from pattern_texts_Cons [OF this v(3)] show ?thesis using drop_to_slash [OF w] v(1) by simp
  qed
qed simp_all

lemma glob_Within:
  "CHR ''/'' \<notin> set u \<Longrightarrow> glob_match ts v \<Longrightarrow> glob_match (Within # ts) (u @ v)"
  by (induction u) (auto, cases v, auto)

lemma glob_Dirs:
  assumes "\<forall>s \<in> set ss. s \<noteq> [] \<and> CHR ''/'' \<notin> set s" "glob_match ts v"
  shows "glob_match (Dirs # ts) (concat (map (\<lambda>s. s @ ''/'') ss) @ v)"
  using assms(1)
proof (induction ss)
  case Nil
  then show ?case using assms(2) by (cases v) auto
next
  case (Cons s ss)
  then obtain d w where s: "s = d # w" by (cases s) auto
  let ?r = "concat (map (\<lambda>s. s @ ''/'') ss) @ v"
  have "dropWhile (\<lambda>e. e \<noteq> CHR ''/'') (w @ CHR ''/'' # ?r) = CHR ''/'' # ?r"
    using Cons.prems s by (subst dropWhile_append2) auto
  moreover have "d \<noteq> CHR ''/''" using Cons.prems s by auto
  ultimately show ?case using Cons s by simp
qed


end
