(* ===== verification/Permission_Runtime.thy ===== *)
theory Permission_Runtime
  imports Permission_Rules
begin

text \<open>
  \<open>src/permission/decision/PermissionRuntime.ts\<close> and the plan mode messages of
  \<open>src/tool/planModeConstraints.ts\<close>: the decision on one tool call. A tool is given by its
  name, its kind and its two callbacks on the input, \<open>isReadOnly\<close> and
  \<open>checkPermissions\<close> (\<open>None\<close>: not there, or nothing returned), already applied to the
  runtime context.
\<close>

section \<open>Decisions\<close>

datatype decision_reason =
    Mode_reason permission_mode string
  | Rule_reason rule_behavior permission_rule string
  | Tool_reason string string
  | Safety_reason string
  | Runtime_reason string

fun reason_message :: "decision_reason \<Rightarrow> string" where
  "reason_message (Mode_reason _ m) = m"
| "reason_message (Rule_reason _ _ m) = m"
| "reason_message (Tool_reason _ m) = m"
| "reason_message (Safety_reason m) = m"
| "reason_message (Runtime_reason m) = m"

datatype request_option =
    Allow_once_option string
  | Allow_session_option string "permission_rule list option"
  | Deny_option string
  | Cancel_option string

record permission_request =
  rq_call :: string
  rq_tool :: string
  rq_summary :: string
  rq_reason :: decision_reason
  rq_options :: "request_option list"
  rq_metadata :: "(string \<times> js) list option"

datatype permission_decision =
    Permit decision_reason "js option"
  | Refuse decision_reason string
  | Prompt decision_reason permission_request
  | Abort decision_reason string

text \<open>What a tool's own check returns; \<open>Unrecognized\<close> is a result of no known type.\<close>

datatype permission_result =
    Decided permission_decision
  | Pass_through "decision_reason option"
  | Unrecognized

record tool =
  tl_name :: string
  tl_kind :: string
  tl_read_only :: "js \<Rightarrow> bool"
  tl_check :: "js \<Rightarrow> permission_result option"

definition mode_text :: "permission_mode \<Rightarrow> string" where
  "mode_text m = (case m of Default_mode \<Rightarrow> ''default'' | Plan_only \<Rightarrow> ''plan''
     | Bypass_permissions \<Rightarrow> ''bypassPermissions'')"

definition allow_decision :: "decision_reason \<Rightarrow> permission_decision" where
  "allow_decision rn = Permit rn None"

definition deny_decision :: "decision_reason \<Rightarrow> permission_decision" where
  "deny_decision rn = Refuse rn (reason_message rn)"

section \<open>Summaries\<close>

text \<open>\<open>JSON.stringify\<close> without indentation.\<close>

fun compact_json :: "js \<Rightarrow> string" where
  "compact_json JNull = ''null''"
| "compact_json (JBool b) = (if b then ''true'' else ''false'')"
| "compact_json (JInt i) = show_int i"
| "compact_json JNegZero = ''0''"
| "compact_json (JDec s) = s"
| "compact_json JNonFinite = ''null''"
| "compact_json (JStr s) = json_quote s"
| "compact_json (JArr vs) = CHR ''['' # join_comma (map compact_json vs) @ [CHR '']'']"
| "compact_json (JObj es) =
     CHR ''{'' # join_comma (map (\<lambda>e. json_quote (fst e) @ CHR '':'' # compact_json (snd e))
                  (filter (\<lambda>e. \<not> omitted (snd e)) es)) @ [CHR ''}'']"
| "compact_json JUndefined = ''null''"
| "compact_json JOther = ''null''"

definition readInputString :: "js \<Rightarrow> string \<Rightarrow> string option" where
  "readInputString input key = text_of (field key input)"

definition countInputChars :: "js \<Rightarrow> string \<Rightarrow> nat" where
  "countInputChars input key = (case text_of (field key input) of None \<Rightarrow> 0 | Some s \<Rightarrow> length s)"

definition json_summary :: "js \<Rightarrow> string" where
  "json_summary input =
     (if input = JUndefined then ''undefined''
      else if input = JOther then ''[unserializable input]''
      else let json = compact_json input in
        if 500 < length json then take 500 json @ ''...'' else json)"

definition input_path :: "js \<Rightarrow> string option" where
  "input_path input =
     (case readInputString input ''file_path'' of None \<Rightarrow> readInputString input ''filePath'' | Some p \<Rightarrow> Some p)"

definition nonempty :: "string option \<Rightarrow> string option" where
  "nonempty m = (case m of None \<Rightarrow> None | Some s \<Rightarrow> if s = [] then None else Some s)"

definition summarizeInput :: "js \<Rightarrow> string \<Rightarrow> string" where
  "summarizeInput input toolName =
     (case (if toolName = ''bash'' then nonempty (readInputString input ''command'') else None) of
        Some command \<Rightarrow> ''command: '' @ command
      | None \<Rightarrow>
          (case (if toolName = ''write_file'' \<or> toolName = ''edit_file'' then nonempty (input_path input) else None) of
             Some filePath \<Rightarrow>
               (if toolName = ''write_file'' then ''write'' else ''edit'') @ '' '' @ filePath @
               (if toolName = ''write_file''
                then '' ('' @ show_nat (countInputChars input ''content'') @ '' chars)'' else [])
           | None \<Rightarrow> json_summary input))"

definition createPermissionRequest ::
  "tool \<Rightarrow> js \<Rightarrow> string \<Rightarrow> decision_reason \<Rightarrow> permission_request" where
  "createPermissionRequest tool input toolCallId rn =
     \<lparr>rq_call = toolCallId, rq_tool = tl_name tool, rq_summary = summarizeInput input (tl_name tool),
      rq_reason = rn,
      rq_options = [Allow_once_option ''Allow once'', Deny_option ''Deny'', Cancel_option ''Cancel''],
      rq_metadata = None\<rparr>"

definition ask_decision :: "tool \<Rightarrow> js \<Rightarrow> string \<Rightarrow> decision_reason \<Rightarrow> permission_decision" where
  "ask_decision tool input toolCallId rn = Prompt rn (createPermissionRequest tool input toolCallId rn)"

definition denyFromRule :: "permission_rule \<Rightarrow> permission_decision" where
  "denyFromRule r = deny_decision (Rule_reason Deny_rule r (''Deny rule blocks '' @ pr_tool r @ ''.''))"

definition askFromRule :: "tool \<Rightarrow> js \<Rightarrow> string \<Rightarrow> permission_rule \<Rightarrow> permission_decision" where
  "askFromRule tool input toolCallId r =
     ask_decision tool input toolCallId
       (Rule_reason Ask_rule r (''Ask rule requires confirmation for '' @ tl_name tool @ ''.''))"

section \<open>Plan mode\<close>

text \<open>
  The two messages of \<open>planModeConstraints.ts\<close>. Their ellipsis and dash lie beyond code unit
  255 and stand here as the characters 0x85 and 0x97.
\<close>

definition PLAN_MODE_VIOLATION_HEADER :: string where
  "PLAN_MODE_VIOLATION_HEADER = ''[PLAN_MODE_VIOLATION]''"

definition join_lines :: "string list \<Rightarrow> string" where
  "join_lines ls = concat (case ls of [] \<Rightarrow> [] | l # r \<Rightarrow> l # map (\<lambda>x. CHR 0x0A # x) r)"

definition buildPlanModeViolationMessage :: "string \<Rightarrow> string" where
  "buildPlanModeViolationMessage toolName = join_lines
     [PLAN_MODE_VIOLATION_HEADER @ '' Tool '' @ CHR 0x22 # toolName @ CHR 0x22 # '' is BLOCKED in plan mode.'',
      [],
      ''You are in READ-ONLY plan mode. This tool cannot be executed.'',
      [],
      ''What you should do instead:'',
      ''1. Use read-only tools (read_file, grep, glob, bash with read-only commands) to explore'',
      ''2. Write your plan as markdown under .rigorium/plans/'',
      ''3. Call exit_plan_mode when your plan is ready'',
      [],
      ''Do NOT retry this tool. It will fail again.'']"

definition buildPlanModeBashViolationMessage :: "string \<Rightarrow> string" where
  "buildPlanModeBashViolationMessage command =
     (let truncated = (if 120 < length command then take 120 command @ [CHR 0x85] else command) in
      join_lines
        [PLAN_MODE_VIOLATION_HEADER @ '' bash command '' @ CHR 0x22 # truncated @ CHR 0x22 #
           '' is BLOCKED '' @ CHR 0x97 # '' write/modify commands are not allowed in plan mode.'',
         [],
         ''In plan mode, bash is restricted to READ-ONLY commands only (ls, cat, git status, git log, git diff, pwd, find, head, wc, etc.).'',
         [],
         ''Rewrite your command as a read-only operation, or use read_file/grep/glob instead.''])"

definition isPlanModeViolationText :: "string \<Rightarrow> bool" where
  "isPlanModeViolationText s = sublist PLAN_MODE_VIOLATION_HEADER s"

definition buildPlanModeDenyMessage :: "string \<Rightarrow> js \<Rightarrow> string" where
  "buildPlanModeDenyMessage toolName input =
     (if toolName = ''bash''
      then buildPlanModeBashViolationMessage (given [] (text_of (field ''command'' input)))
      else buildPlanModeViolationMessage toolName)"

definition lower_char :: "char \<Rightarrow> char" where
  "lower_char c =
     (let n = (of_char c :: nat) in
      if 65 \<le> n \<and> n \<le> 90 \<or> 192 \<le> n \<and> n \<le> 222 \<and> n \<noteq> 215 then char_of (n + 32) else c)"

definition ends_with :: "string \<Rightarrow> string \<Rightarrow> bool" where
  "ends_with e s \<longleftrightarrow> length e \<le> length s \<and> drop (length s - length e) s = e"

definition isPlanDirectoryWrite :: "string \<Rightarrow> tool \<Rightarrow> js \<Rightarrow> permission_context \<Rightarrow> bool" where
  "isPlanDirectoryWrite pcwd tool input ctx =
     (if tl_kind tool \<noteq> ''filesystem'' then False
      else case nonempty (pc_plan_dir ctx) of None \<Rightarrow> False
      | Some dir \<Rightarrow>
          (case text_of (path_field input) of None \<Rightarrow> False
           | Some filePath \<Rightarrow>
               let absolute = resolvePath pcwd [pc_cwd ctx, filePath];
                   r = relativePath pcwd dir absolute
               in ends_with ''.md'' (map lower_char absolute)
                  \<and> r \<noteq> [] \<and> \<not> isAbsolutePath r \<and> take 2 r \<noteq> ''..'' \<and> take 3 r \<noteq> ''../''))"

section \<open>The decision\<close>

definition findMatchingRule ::
  "string \<Rightarrow> permission_rule list \<Rightarrow> string \<Rightarrow> js \<Rightarrow> permission_context \<Rightarrow> permission_rule option" where
  "findMatchingRule pcwd rules toolName input ctx =
     find (\<lambda>r. matchPermissionRule pcwd r toolName input ctx) rules"

definition finalizeAsk :: "permission_decision \<Rightarrow> permission_context \<Rightarrow> permission_decision" where
  "finalizeAsk d ctx =
     (case d of
        Prompt rn rq \<Rightarrow>
          if pc_mode ctx = Bypass_permissions
          then Permit (Mode_reason Bypass_permissions ''bypassPermissions mode skips permission prompts.'') None
          else if \<not> pc_can_prompt ctx
          then Refuse (Runtime_reason ''Permission prompt denied because prompts are disabled for this session.'')
                 ''Permission prompt denied because prompts are disabled for this session.''
          else d
      | _ \<Rightarrow> d)"

definition normalizeToolPermission ::
  "permission_result option \<Rightarrow> tool \<Rightarrow> js \<Rightarrow> string \<Rightarrow> permission_context \<Rightarrow> permission_decision option" where
  "normalizeToolPermission res tool input toolCallId ctx =
     (case res of
        None \<Rightarrow> None
      | Some (Pass_through _) \<Rightarrow> None
      | Some (Decided (Prompt rn rq)) \<Rightarrow>
          Some (Prompt rn (rq\<lparr>rq_call := toolCallId, rq_tool := tl_name tool\<rparr>))
      | Some (Decided d) \<Rightarrow> Some d
      | Some Unrecognized \<Rightarrow>
          Some (ask_decision tool input toolCallId
            (Runtime_reason (''Permission result for '' @ tl_name tool @ '' was not recognized in mode '' @
               mode_text (pc_mode ctx) @ ''.''))))"

definition decideByMode ::
  "string \<Rightarrow> tool \<Rightarrow> js \<Rightarrow> string \<Rightarrow> permission_context \<Rightarrow> permission_decision" where
  "decideByMode pcwd tool input toolCallId ctx =
     (if pc_mode ctx = Plan_only then
        if tl_read_only tool input
        then allow_decision (Mode_reason Plan_only (''Plan mode allows read-only tool '' @ tl_name tool @ ''.''))
        else if isPlanDirectoryWrite pcwd tool input ctx
        then allow_decision (Mode_reason Plan_only ''Plan mode allows writing markdown plans under the plan directory.'')
        else deny_decision (Mode_reason Plan_only (buildPlanModeDenyMessage (tl_name tool) input))
      else if tl_read_only tool input
      then allow_decision (Mode_reason (pc_mode ctx)
             (''Mode '' @ mode_text (pc_mode ctx) @ '' allows read-only tool '' @ tl_name tool @ ''.''))
      else ask_decision tool input toolCallId (Mode_reason (pc_mode ctx)
             (''Mode '' @ mode_text (pc_mode ctx) @ '' requires permission for '' @ tl_name tool @ ''.'')))"

definition is_prompt :: "permission_decision \<Rightarrow> bool" where
  "is_prompt d = (case d of Prompt _ _ \<Rightarrow> True | _ \<Rightarrow> False)"

definition allowSessionRule ::
  "tool \<Rightarrow> js \<Rightarrow> string \<Rightarrow> permission_rule \<Rightarrow> permission_context \<Rightarrow> permission_decision" where
  "allowSessionRule tool input toolCallId r ctx =
     (case normalizeToolPermission (tl_check tool input) tool input toolCallId ctx of
        Some d \<Rightarrow> if is_prompt d
                  then allow_decision (Rule_reason Allow_rule r (''Session allow rule permits '' @ tl_name tool @ ''.''))
                  else d
      | None \<Rightarrow> allow_decision (Rule_reason Allow_rule r (''Session allow rule permits '' @ tl_name tool @ ''.'')))"

text \<open>What is left once no rule has decided: the tool's own check, then the mode.\<close>

definition decide_tool ::
  "string \<Rightarrow> tool \<Rightarrow> js \<Rightarrow> string \<Rightarrow> permission_context \<Rightarrow> permission_decision" where
  "decide_tool pcwd tool input toolCallId ctx =
     (case normalizeToolPermission (tl_check tool input) tool input toolCallId ctx of
        Some d \<Rightarrow>
          if is_prompt d then
            if pc_mode ctx = Bypass_permissions
            then allow_decision (Mode_reason (pc_mode ctx) (''Permission mode '' @ mode_text (pc_mode ctx) @
                   '' overrides '' @ tl_name tool @ ''.checkPermissions ask.''))
            else if pc_mode ctx = Plan_only \<and> tl_read_only tool input
            then allow_decision (Mode_reason Plan_only (''Plan mode allows read-only tool '' @ tl_name tool @
                   '' despite .checkPermissions ask.''))
            else if pc_mode ctx = Plan_only \<and> \<not> isPlanDirectoryWrite pcwd tool input ctx
            then deny_decision (Mode_reason Plan_only (buildPlanModeDenyMessage (tl_name tool) input))
            else finalizeAsk d ctx
          else d
      | None \<Rightarrow>
          if pc_mode ctx = Bypass_permissions
          then allow_decision (Mode_reason (pc_mode ctx)
                 (''Permission mode '' @ mode_text (pc_mode ctx) @ '' allows '' @ tl_name tool @ ''.''))
          else let d = decideByMode pcwd tool input toolCallId ctx in
               if is_prompt d then finalizeAsk d ctx else d)"

definition session_rule ::
  "string \<Rightarrow> tool \<Rightarrow> js \<Rightarrow> permission_context \<Rightarrow> permission_rule option" where
  "session_rule pcwd tool input ctx =
     findMatchingRule pcwd (filter (\<lambda>r. pr_source r = From_session) (rs_allow (pc_rules ctx)))
       (tl_name tool) input ctx"

definition decide_permission ::
  "string \<Rightarrow> tool \<Rightarrow> js \<Rightarrow> permission_context \<Rightarrow> string \<Rightarrow> permission_decision" where
  "decide_permission pcwd tool input ctx toolCallId =
     (case findMatchingRule pcwd (rs_deny (pc_rules ctx)) (tl_name tool) input ctx of
        Some d \<Rightarrow>
          (case session_rule pcwd tool input ctx of
             Some s \<Rightarrow> if pr_source d = From_user then allowSessionRule tool input toolCallId s ctx else denyFromRule d
           | None \<Rightarrow> denyFromRule d)
      | None \<Rightarrow>
     (case findMatchingRule pcwd (rs_ask (pc_rules ctx)) (tl_name tool) input ctx of
        Some a \<Rightarrow> finalizeAsk (askFromRule tool input toolCallId a) ctx
      | None \<Rightarrow>
     (case session_rule pcwd tool input ctx of
        Some s \<Rightarrow> allowSessionRule tool input toolCallId s ctx
      | None \<Rightarrow>
     (case findMatchingRule pcwd (rs_allow (pc_rules ctx)) (tl_name tool) input ctx of
        Some r \<Rightarrow>
          if pc_mode ctx = Plan_only \<and> \<not> tl_read_only tool input \<and> \<not> isPlanDirectoryWrite pcwd tool input ctx
          then decide_tool pcwd tool input toolCallId ctx
          else allow_decision (Rule_reason Allow_rule r (''Allow rule permits '' @ tl_name tool @ ''.''))
      | None \<Rightarrow> decide_tool pcwd tool input toolCallId ctx))))"

end
