(* ===== verification/Permission_Promises.thy ===== *)
theory Permission_Promises
  imports Permission_Runtime
begin

text \<open>
  What a permission decision promises: why a call is permitted, when the user is asked,
  what plan mode confines, and which calls the rules about paths reach.
\<close>

named_theorems verdicts \<open>the branches of a decision\<close>

declare allow_decision_def [verdicts] deny_decision_def [verdicts] ask_decision_def [verdicts]
  finalizeAsk_def [verdicts] is_prompt_def [verdicts]

lemma found_rule: "findMatchingRule pcwd rs n i ctx = Some r \<Longrightarrow> r \<in> set rs \<and> matchPermissionRule pcwd r n i ctx"
  unfolding findMatchingRule_def by (auto simp: find_Some_iff)

lemma no_rule: "findMatchingRule pcwd rs n i ctx = None \<longleftrightarrow> (\<forall>r \<in> set rs. \<not> matchPermissionRule pcwd r n i ctx)"
  unfolding findMatchingRule_def by (auto simp: find_None_iff)

section \<open>Paths\<close>

lemma strip_common_append: "strip_common xs (xs @ ys) = ([], ys)"
  by (induction xs) auto

lemma take2_join:
  assumes "plain_segment s"
  shows "take 2 (slash_join (s # ss)) = ''..'' \<longleftrightarrow> take 2 s = ''..''"
proof -
  from assms obtain c cs where s: "s = c # cs" by (cases s) (auto simp: plain_segment_def)
  show ?thesis using assms s by (cases ss; cases cs) (auto simp: plain_segment_def)
qed

lemma join_absolute: "list_all plain_segment ss \<Longrightarrow> \<not> isAbsolutePath (slash_join ss)"
  by (cases ss rule: slash_join.cases) (auto simp: isAbsolutePath_def plain_segment_def neq_Nil_conv split: list.splits)

lemma join_empty: "list_all plain_segment ss \<Longrightarrow> slash_join ss = [] \<longleftrightarrow> ss = []"
  by (cases ss rule: slash_join.cases) (auto simp: plain_segment_def)

lemma relative_tail:
  "resolved_segments pcwd [to] = resolved_segments pcwd [from] @ rest \<Longrightarrow> relativePath pcwd from to = slash_join rest"
  by (simp add: relativePath_def strip_common_append)

lemma rest_plain:
  "resolved_segments pcwd ps = xs @ rest \<Longrightarrow> list_all plain_segment rest"
  using resolved_plain [of pcwd ps] by simp

lemma isPathWithinRoot_iff:
  "isPathWithinRoot pcwd p root \<longleftrightarrow>
     (\<exists>rest. resolved_segments pcwd [p] = resolved_segments pcwd [root] @ rest
           \<and> (rest = [] \<or> take 2 (hd rest) \<noteq> ''..''))"
proof -
  have iff: "isPathWithinRoot pcwd p root \<longleftrightarrow> rest = [] \<or> take 2 (hd rest) \<noteq> ''..''"
    if r: "resolved_segments pcwd [p] = resolved_segments pcwd [root] @ rest" for rest
  proof (cases rest)
    case Nil
    then show ?thesis using relative_tail [OF r] by (simp add: isPathWithinRoot_def Let_def)
  next
    case (Cons s ss)
    have pl: "list_all plain_segment rest" using r by (rule rest_plain)
    then have "plain_segment s" using Cons by simp
    then show ?thesis
      unfolding isPathWithinRoot_def Let_def relative_tail [OF r]
      using join_empty [OF pl] join_absolute [OF pl] take2_join Cons by simp
  qed
  show ?thesis
  proof
    assume w: "isPathWithinRoot pcwd p root"
    then have "take 2 (relativePath pcwd root p) \<noteq> ''..''" by (auto simp: isPathWithinRoot_def Let_def)
    then obtain rest where "resolved_segments pcwd [p] = resolved_segments pcwd [root] @ rest"
      using relative_below by blast
    with iff w show "\<exists>rest. resolved_segments pcwd [p] = resolved_segments pcwd [root] @ rest
        \<and> (rest = [] \<or> take 2 (hd rest) \<noteq> ''..'')" by blast
  qed (use iff in blast)
qed

lemma plan_write_below:
  assumes "isPlanDirectoryWrite pcwd tool input ctx"
  obtains dir filePath rest where "pc_plan_dir ctx = Some dir" "text_of (path_field input) = Some filePath"
    "resolved_segments pcwd [pc_cwd ctx, filePath] = resolved_segments pcwd [dir] @ rest" "rest \<noteq> []"
    "ends_with ''.md'' (map lower_char (resolvePath pcwd [pc_cwd ctx, filePath]))"
proof -
  from assms obtain dir filePath where d: "pc_plan_dir ctx = Some dir" "text_of (path_field input) = Some filePath"
    and e: "ends_with ''.md'' (map lower_char (resolvePath pcwd [pc_cwd ctx, filePath]))"
    and n: "relativePath pcwd dir (resolvePath pcwd [pc_cwd ctx, filePath]) \<noteq> []"
    and t: "take 2 (relativePath pcwd dir (resolvePath pcwd [pc_cwd ctx, filePath])) \<noteq> ''..''"
    unfolding isPlanDirectoryWrite_def Let_def
    by (auto simp: nonempty_def split: if_splits option.splits)
  from relative_below [OF t] obtain rest where r:
    "resolved_segments pcwd [resolvePath pcwd [pc_cwd ctx, filePath]] = resolved_segments pcwd [dir] @ rest" by blast
  moreover have "rest \<noteq> []" using n relative_tail [OF r] by auto
  ultimately show ?thesis using that d e by simp
qed

section \<open>Properties\<close>

text \<open>
  A write rule without a pattern reaches a call exactly when the path of the call is
  given and lies, segment by segment, in the working directory or one of the additional
  directories, the first segment below it not starting with two dots.
\<close>

lemma patternless_write_rule:
  assumes "tool \<in> {''write_file'', ''edit_file''}" "rule_pattern r = None"
  shows "matchPermissionRule pcwd r tool input ctx \<longleftrightarrow>
    matchesToolName (pr_tool r) tool \<and>
    (\<exists>p root rest. resolveInputFilePath pcwd input ctx = Some p \<and> root \<in> set (pc_cwd ctx # pc_dirs ctx)
       \<and> resolved_segments pcwd [p] = resolved_segments pcwd [root] @ rest
       \<and> (rest = [] \<or> take 2 (hd rest) \<noteq> ''..''))"
proof -
  have "isFileInputInsideWorkspace pcwd input ctx \<longleftrightarrow>
      (\<exists>p root rest. resolveInputFilePath pcwd input ctx = Some p \<and> root \<in> set (pc_cwd ctx # pc_dirs ctx)
       \<and> resolved_segments pcwd [p] = resolved_segments pcwd [root] @ rest
       \<and> (rest = [] \<or> take 2 (hd rest) \<noteq> ''..''))"
    unfolding isFileInputInsideWorkspace_def
    by (cases "resolveInputFilePath pcwd input ctx")
      (simp_all only: list_ex_iff isPathWithinRoot_iff resolve_resolved option.case option.inject option.distinct, blast+)
  then show ?thesis using assms by (simp add: matchPermissionRule_def)
qed

lemma protected_test: "\<not> wildcard_test (normalizePathForPattern (''**/.'' @ w)) (normalizePathForPattern (resolvePath pcwd ps))"
  by (simp add: wildcard_test_def normalizePathForPattern_def resolvePath_def)

text \<open>
  C16: On POSIX paths the built-in protected path rules match no call at all: resolved
  paths start with a slash, which the expression of a leading \<open>**/\<close> never matches.
\<close>

theorem protected_rules_inert:
  assumes "r \<in> set BUILTIN_PROTECTED_PATH_RULES"
  shows "\<not> matchPermissionRule pcwd r tool input ctx"
proof -
  from assms obtain w where p: "pr_pattern r = Some (''**/.'' @ w)" and t: "pr_tool r \<in> {''write_file'', ''edit_file''}"
    by (auto simp: BUILTIN_PROTECTED_PATH_RULES_def protect_def)
  have "\<not> matchFilePathPattern pcwd (''**/.'' @ w) input ctx"
    using protected_test [of w]
    by (auto simp: matchFilePathPattern_def resolveInputFilePath_def Let_def simp del: append_Cons split: option.splits if_splits)
  moreover have "matchesToolName (pr_tool r) tool \<Longrightarrow> tool = pr_tool r"
    using t by (auto simp: matchesToolName_def)
  moreover have "rule_pattern r = Some (''**/.'' @ w)" using p by (simp add: rule_pattern_def)
  ultimately show ?thesis
    using t by (cases "matchesToolName (pr_tool r) tool") (auto simp: matchPermissionRule_def matchRulePattern_def)
qed

section \<open>Decisions\<close>

lemma decision_branches:
  obtains (denied) d where "findMatchingRule pcwd (rs_deny (pc_rules ctx)) (tl_name tool) input ctx = Some d"
      "pr_source d \<noteq> From_user \<or> session_rule pcwd tool input ctx = None"
      "decide_permission pcwd tool input ctx cid = denyFromRule d"
  | (overridden) d s where "findMatchingRule pcwd (rs_deny (pc_rules ctx)) (tl_name tool) input ctx = Some d"
      "pr_source d = From_user" "session_rule pcwd tool input ctx = Some s"
      "decide_permission pcwd tool input ctx cid = allowSessionRule tool input cid s ctx"
  | (asked) a where "findMatchingRule pcwd (rs_deny (pc_rules ctx)) (tl_name tool) input ctx = None"
      "findMatchingRule pcwd (rs_ask (pc_rules ctx)) (tl_name tool) input ctx = Some a"
      "decide_permission pcwd tool input ctx cid = finalizeAsk (askFromRule tool input cid a) ctx"
  | (granted) s where "findMatchingRule pcwd (rs_deny (pc_rules ctx)) (tl_name tool) input ctx = None"
      "session_rule pcwd tool input ctx = Some s"
      "decide_permission pcwd tool input ctx cid = allowSessionRule tool input cid s ctx"
  | (allowed) r where "findMatchingRule pcwd (rs_deny (pc_rules ctx)) (tl_name tool) input ctx = None"
      "findMatchingRule pcwd (rs_allow (pc_rules ctx)) (tl_name tool) input ctx = Some r"
      "pc_mode ctx = Plan_only \<Longrightarrow> tl_read_only tool input \<or> isPlanDirectoryWrite pcwd tool input ctx"
      "decide_permission pcwd tool input ctx cid =
         Permit (Rule_reason Allow_rule r (''Allow rule permits '' @ tl_name tool @ ''.'')) None"
  | (unruled) "findMatchingRule pcwd (rs_deny (pc_rules ctx)) (tl_name tool) input ctx = None"
      "findMatchingRule pcwd (rs_ask (pc_rules ctx)) (tl_name tool) input ctx = None"
      "decide_permission pcwd tool input ctx cid = decide_tool pcwd tool input cid ctx"
proof (cases "findMatchingRule pcwd (rs_deny (pc_rules ctx)) (tl_name tool) input ctx")
  case (Some d)
  then show ?thesis
    using that(1,2) by (cases "session_rule pcwd tool input ctx"; cases "pr_source d = From_user")
      (simp_all add: decide_permission_def)
next
  case None
  note deny = None
  show ?thesis
  proof (cases "findMatchingRule pcwd (rs_ask (pc_rules ctx)) (tl_name tool) input ctx")
    case (Some a)
    then show ?thesis using deny that(3) by (simp add: decide_permission_def)
  next
    case ask: None
    show ?thesis
    proof (cases "session_rule pcwd tool input ctx")
      case (Some s)
      then show ?thesis using deny ask that(4) by (simp add: decide_permission_def)
    next
      case session: None
      show ?thesis
      proof (cases "findMatchingRule pcwd (rs_allow (pc_rules ctx)) (tl_name tool) input ctx")
        case None
        then show ?thesis using deny ask session that(6) by (simp add: decide_permission_def)
      next
        case (Some r)
        show ?thesis
        proof (cases "pc_mode ctx = Plan_only \<and> \<not> tl_read_only tool input \<and> \<not> isPlanDirectoryWrite pcwd tool input ctx")
          case True
          then show ?thesis using deny ask session Some that(6) by (simp add: decide_permission_def)
        next
          case False
          then have "decide_permission pcwd tool input ctx cid =
              Permit (Rule_reason Allow_rule r (''Allow rule permits '' @ tl_name tool @ ''.'')) None"
            unfolding decide_permission_def
            by (simp only: deny ask session Some option.case if_not_P [OF False] if_False allow_decision_def)
          with deny Some False show ?thesis using that(5) by blast
        qed
      qed
    qed
  qed
qed

lemma own_decision:
  "normalizeToolPermission c tool input cid ctx = Some d \<Longrightarrow> \<not> is_prompt d \<Longrightarrow> c = Some (Decided d)"
  unfolding normalizeToolPermission_def
  by (auto simp: is_prompt_def ask_decision_def split: option.splits permission_result.splits permission_decision.splits)

lemma own_prompt:
  "normalizeToolPermission c tool input cid ctx = Some (Prompt rn rq) \<Longrightarrow> rq_call rq = cid \<and> rq_tool rq = tl_name tool"
  unfolding normalizeToolPermission_def
  by (auto simp: ask_decision_def createPermissionRequest_def
        split: option.splits permission_result.splits permission_decision.splits)

lemma session_no_prompt: "allowSessionRule tool input cid s ctx \<noteq> Prompt rn rq"
  unfolding allowSessionRule_def
  by (auto simp: is_prompt_def allow_decision_def split: option.splits permission_decision.splits)

lemma finalize_prompt:
  "finalizeAsk d ctx = Prompt rn rq \<longleftrightarrow> d = Prompt rn rq \<and> pc_mode ctx \<noteq> Bypass_permissions \<and> pc_can_prompt ctx"
  by (cases d) (auto simp: finalizeAsk_def)

lemma finalize_permit:
  "finalizeAsk (Prompt rn rq) ctx = Permit rn' u \<Longrightarrow> pc_mode ctx = Bypass_permissions"
  by (auto simp: finalizeAsk_def split: if_splits)

lemma mode_prompt:
  "decideByMode pcwd tool input cid ctx = Prompt rn rq \<Longrightarrow>
     pc_mode ctx \<noteq> Plan_only \<and> \<not> tl_read_only tool input \<and> rq_call rq = cid \<and> rq_tool rq = tl_name tool"
  by (auto simp: decideByMode_def verdicts createPermissionRequest_def split: if_splits)

lemma mode_permit:
  "decideByMode pcwd tool input cid ctx = Permit rn u \<Longrightarrow>
     tl_read_only tool input \<or> (pc_mode ctx = Plan_only \<and> isPlanDirectoryWrite pcwd tool input ctx)"
  by (auto simp: decideByMode_def verdicts split: if_splits)

lemma tool_prompt:
  assumes "decide_tool pcwd tool input cid ctx = Prompt rn rq"
  shows "pc_mode ctx \<noteq> Bypass_permissions \<and> pc_can_prompt ctx \<and> rq_call rq = cid \<and> rq_tool rq = tl_name tool"
proof (cases "normalizeToolPermission (tl_check tool input) tool input cid ctx")
  case None
  with assms have "finalizeAsk (decideByMode pcwd tool input cid ctx) ctx = Prompt rn rq"
    by (auto simp: decide_tool_def Let_def is_prompt_def allow_decision_def split: if_splits permission_decision.splits)
  then show ?thesis using mode_prompt unfolding finalize_prompt by blast
next
  case (Some d)
  with assms have "finalizeAsk d ctx = Prompt rn rq"
    by (auto simp: decide_tool_def Let_def is_prompt_def allow_decision_def deny_decision_def
          split: if_splits permission_decision.splits)
  then show ?thesis using own_prompt Some unfolding finalize_prompt by blast
qed

lemma tool_permit:
  assumes "decide_tool pcwd tool input cid ctx = Permit rn u"
  shows "pc_mode ctx = Bypass_permissions \<or> tl_read_only tool input
    \<or> (pc_mode ctx = Plan_only \<and> isPlanDirectoryWrite pcwd tool input ctx)
    \<or> tl_check tool input = Some (Decided (Permit rn u))"
proof (cases "normalizeToolPermission (tl_check tool input) tool input cid ctx")
  case None
  show ?thesis
  proof (cases "pc_mode ctx = Bypass_permissions")
    case False
    let ?d = "decideByMode pcwd tool input cid ctx"
    have "?d = Permit rn u"
      using None False assms finalize_permit [of _ _ ctx rn u]
      by (cases ?d) (auto simp: decide_tool_def is_prompt_def)
    then show ?thesis using mode_permit by blast
  qed simp
next
  case (Some d)
  show ?thesis
  proof (cases "is_prompt d")
    case True
    then obtain rn' rq where d: "d = Prompt rn' rq" by (auto simp: is_prompt_def split: permission_decision.splits)
    with Some assms finalize_permit [of rn' rq ctx rn u] show ?thesis
      by (auto simp: decide_tool_def is_prompt_def deny_decision_def split: if_splits)
  next
    case False
    then have "d = Permit rn u" using Some assms by (simp add: decide_tool_def)
    then show ?thesis using own_decision [OF Some False] by simp
  qed
qed


text \<open>
  The user is only asked when prompts are possible, outside bypass mode and with no
  deny rule matching, and then about this very call.
\<close>

lemma prompts_only_when_possible:
  assumes "decide_permission pcwd tool input ctx cid = Prompt rn rq"
  shows "pc_can_prompt ctx \<and> pc_mode ctx \<noteq> Bypass_permissions
    \<and> (\<forall>d \<in> set (rs_deny (pc_rules ctx)). \<not> matchPermissionRule pcwd d (tl_name tool) input ctx)
    \<and> rq_call rq = cid \<and> rq_tool rq = tl_name tool"
proof (cases rule: decision_branches [where pcwd = pcwd and ctx = ctx and tool = tool and input = input and cid = cid])
  case (asked a)
  from asked(3) assms have "finalizeAsk (askFromRule tool input cid a) ctx = Prompt rn rq" by (rule subst)
  then have "pc_can_prompt ctx \<and> pc_mode ctx \<noteq> Bypass_permissions \<and> askFromRule tool input cid a = Prompt rn rq"
    unfolding finalize_prompt by blast
  then show ?thesis
    using asked(1) by (auto simp: no_rule askFromRule_def ask_decision_def createPermissionRequest_def)
next
  case unruled
  then show ?thesis using tool_prompt [of pcwd tool input cid ctx rn rq] assms by (simp add: no_rule)
next
  case (overridden d s)
  from overridden(4) assms have "allowSessionRule tool input cid s ctx = Prompt rn rq" by (rule subst)
  then show ?thesis using session_no_prompt by blast
next
  case (granted s)
  from granted(3) assms have "allowSessionRule tool input cid s ctx = Prompt rn rq" by (rule subst)
  then show ?thesis using session_no_prompt by blast
qed (use assms in \<open>simp_all add: denyFromRule_def deny_decision_def\<close>)

text \<open>
  C14: In plan mode a write tool that is not granted by a session rule or by its own check
  is only permitted into the plan directory: the path of the call resolves, against the
  working directory, to a place strictly below it with the extension \<open>.md\<close>.
\<close>

theorem plan_mode_confines:
  assumes "decide_permission pcwd tool input ctx cid = Permit rn u" "pc_mode ctx = Plan_only"
    "\<not> tl_read_only tool input" "session_rule pcwd tool input ctx = None"
    "tl_check tool input \<noteq> Some (Decided (Permit rn u))"
  shows "\<exists>dir filePath rest. pc_plan_dir ctx = Some dir \<and> text_of (path_field input) = Some filePath
    \<and> resolved_segments pcwd [pc_cwd ctx, filePath] = resolved_segments pcwd [dir] @ rest \<and> rest \<noteq> []
    \<and> ends_with ''.md'' (map lower_char (resolvePath pcwd [pc_cwd ctx, filePath]))"
proof -
  have "isPlanDirectoryWrite pcwd tool input ctx"
  proof (cases rule: decision_branches [where pcwd = pcwd and ctx = ctx and tool = tool and input = input and cid = cid])
    case (denied d)
    then show ?thesis using assms(1) by (simp add: denyFromRule_def deny_decision_def)
  next
    case (asked a)
    from asked(3) assms(1) have "finalizeAsk (askFromRule tool input cid a) ctx = Permit rn u" by (rule subst)
    then have "pc_mode ctx = Bypass_permissions"
      unfolding askFromRule_def ask_decision_def by (rule finalize_permit)
    with assms(2) show ?thesis by simp
  next
    case unruled
    then show ?thesis using tool_permit [of pcwd tool input cid ctx rn u] assms by auto
  qed (use assms in auto)
  then show ?thesis by (rule plan_write_below) blast
qed

end
