(* ===== verification/Json_Texts.thy ===== *)
theory Json_Texts
  imports Canonical_Json
begin

text \<open>
  \<open>JSON.parse\<close> reads back what \<open>JSON.stringify\<close> writes. The texts of a value, with any white
  space the grammar allows between tokens, are an inductive relation; the parser accepts
  every one of them, and the printer with indentation writes one of them.
\<close>

section \<open>Strings and numbers\<close>

lemma hex_value_hex_char: "d < 16 \<Longrightarrow> hex_value (hex_char d) = Some d"
  by (auto simp: hex_char_def hex_value_def digit_char_def of_char_of)

lemma parse_escape: "parse_chars (escape_char c @ r) = map_option (\<lambda>(s, q). (c # s, q)) (parse_chars r)"
proof -
  let ?n = "of_char c :: nat"
  have n: "?n < 256" by simp
  have same: "char_of ?n = c" by simp
  have hex: "hex_value (hex_char (?n div 16)) = Some (?n div 16)" "hex_value (hex_char (?n mod 16)) = Some (?n mod 16)"
    using n by (intro hex_value_hex_char; simp add: div_less_iff_less_mult)+
  have dm: "16 * (?n div 16) + ?n mod 16 = ?n" by simp
  have zero: "hex_value (CHR ''0'') = Some 0" by (simp add: hex_value_def)
  show ?thesis
  proof (cases "c \<in> {CHR 0x22, CHR 0x5C, CHR 0x08, CHR 0x09, CHR 0x0A, CHR 0x0C, CHR 0x0D}")
    case True
    then show ?thesis by (auto simp: escape_char_def simple_escape_def)
  next
    case False
    show ?thesis
    proof (cases "?n < 32")
      case True
      then have "escape_char c = [CHR 0x5C, CHR ''u'', CHR ''0'', CHR ''0'', hex_char (?n div 16), hex_char (?n mod 16)]"
        using False by (simp add: escape_char_def)
      then show ?thesis using hex zero n dm same by simp
    next
      case nolow: False
      then have "escape_char c = [c]" using False by (simp add: escape_char_def)
      then show ?thesis using False nolow by simp
    qed
  qed
qed

lemma parse_quoted: "parse_chars (concat (map escape_char s) @ CHR 0x22 # r) = Some (s, r)"
  by (induction s) (simp_all add: parse_escape)

lemma char_48: "char_of (48 :: nat) = CHR ''0''"
  by (simp add: char_of_eq_iff)

lemma digit_char_0: "d < 10 \<Longrightarrow> digit_char d = CHR ''0'' \<Longrightarrow> d = 0"
proof -
  assume d: "d < 10" "digit_char d = CHR ''0''"
  then have "(of_char (CHR ''0'') :: nat) = 48 + d" using of_char_digit [of d] by simp
  then show "d = 0" by simp
qed

lemma hd_show_nat: "0 < n \<Longrightarrow> hd (show_nat n) \<noteq> CHR ''0''"
proof (induction n rule: show_nat.induct)
  case (1 n)
  show ?case
  proof (cases "n < 10")
    case True
    then show ?thesis using 1 by (subst show_nat.simps) (auto dest: digit_char_0)
  next
    case False
    then have "0 < n div 10" by (simp add: div_greater_zero_iff)
    then have "hd (show_nat (n div 10)) \<noteq> CHR ''0''" using 1 False by blast
    then show ?thesis using False by (subst show_nat.simps) simp
  qed
qed

lemma show_nat_0: "show_nat 0 = ''0''"
  by (subst show_nat.simps) (simp add: digit_char_def char_48)

lemma digits_no_minus: "list_all is_digit s \<Longrightarrow> s \<noteq> CHR ''-'' # t"
  by (auto simp: is_digit_def)

lemma read_show_int:
  assumes "\<bar>i\<bar> < 10 ^ 21"
  shows "read_number (show_int i) = Some (JInt i)"
proof -
  have l: "length (show_nat (nat \<bar>i\<bar>)) \<le> 21"
    using show_nat_length [of "nat \<bar>i\<bar>" 21] assms by (simp add: nat_less_iff)
  have dg: "list_all is_digit (show_nat n)" for n by (rule show_nat_digits)
  show ?thesis
  proof (cases "i < 0")
    case True
    then have p: "0 < nat (- i)" by simp
    then have "show_nat (nat (- i)) \<noteq> ''0''" using hd_show_nat [OF p] by auto
    moreover have "\<not> list_all is_digit (CHR ''-'' # show_nat (nat (- i)))" by (simp add: is_digit_def)
    ultimately show ?thesis
      using True l dg [of "nat (- i)"] hd_show_nat [OF p] read_show_nat [of "nat (- i)"]
      by (simp add: read_number_def show_int_def Suc_le_eq del: read_nat.simps)
  next
    case False
    then have s: "show_int i = show_nat (nat i)" by (simp add: show_int_def)
    have "show_nat (nat i) = ''0'' \<or> hd (show_nat (nat i)) \<noteq> CHR ''0''"
      using hd_show_nat [of "nat i"] show_nat_0 by (cases "nat i = 0") auto
    moreover have "show_nat (nat i) \<noteq> ''-0''" using digits_no_minus [OF dg] by blast
    ultimately show ?thesis
      using False l dg [of "nat i"] read_show_nat [of "nat i"] unfolding s
      by (simp add: read_number_def del: read_nat.simps)
  qed
qed

definition dec_ok :: "string \<Rightarrow> bool" where
  "dec_ok s \<longleftrightarrow> s \<noteq> [] \<and> list_all number_char s \<and> (CHR ''.'' \<in> set s \<or> CHR ''e'' \<in> set s \<or> CHR ''E'' \<in> set s)"

lemma digits_no_dec: "list_all is_digit s \<Longrightarrow> CHR ''.'' \<notin> set s \<and> CHR ''e'' \<notin> set s \<and> CHR ''E'' \<notin> set s"
  by (auto simp: list_all_iff is_digit_def)

lemma read_dec: "dec_ok s \<Longrightarrow> read_number s = Some (JDec s)"
proof -
  assume d: "dec_ok s"
  then have "\<not> list_all is_digit s" using digits_no_dec by (auto simp: dec_ok_def)
  moreover have "\<not> (hd s = CHR ''-'' \<and> list_all is_digit (tl s))"
    using d digits_no_dec [of "tl s"] by (cases s) (auto simp: dec_ok_def)
  moreover have "s \<noteq> ''-0''" using d by (auto simp: dec_ok_def)
  ultimately show ?thesis using d by (auto simp: read_number_def dec_ok_def)
qed

lemma show_int_number: "list_all number_char (show_int i) \<and> show_int i \<noteq> []"
  using show_nat_digits by (auto simp: show_int_def number_char_def list_all_iff)

section \<open>Texts of a value\<close>

definition blank :: "string \<Rightarrow> bool" where
  "blank w \<longleftrightarrow> list_all json_space w"

definition ordered_keys :: "(string \<times> js) list \<Rightarrow> bool" where
  "ordered_keys es \<longleftrightarrow> distinct (map fst es) \<and> property_order es = es"

inductive json_text :: "js \<Rightarrow> string \<Rightarrow> bool"
  and elements_text :: "js list \<Rightarrow> string \<Rightarrow> bool"
  and members_text :: "(string \<times> js) list \<Rightarrow> string \<Rightarrow> bool" where
  text_null: "json_text JNull ''null''"
| text_true: "json_text (JBool True) ''true''"
| text_false: "json_text (JBool False) ''false''"
| text_int: "\<bar>i\<bar> < 10 ^ 21 \<Longrightarrow> json_text (JInt i) (show_int i)"
| text_dec: "dec_ok s \<Longrightarrow> json_text (JDec s) s"
| text_str: "json_text (JStr s) (json_quote s)"
| text_empty_arr: "json_text (JArr []) ''[]''"
| text_arr: "elements_text vs s \<Longrightarrow> blank w \<Longrightarrow> json_text (JArr vs) (CHR ''['' # s @ w @ '']'')"
| text_empty_obj: "json_text (JObj []) ''{}''"
| text_obj: "members_text es s \<Longrightarrow> blank w \<Longrightarrow> ordered_keys es \<Longrightarrow>
     json_text (JObj es) (CHR ''{'' # s @ w @ ''}'')"
| text_one: "blank w \<Longrightarrow> json_text v s \<Longrightarrow> elements_text [v] (w @ s)"
| text_more: "blank w \<Longrightarrow> json_text v s \<Longrightarrow> elements_text vs t \<Longrightarrow> elements_text (v # vs) (w @ s @ CHR '','' # t)"
| text_entry: "blank w \<Longrightarrow> blank x \<Longrightarrow> json_text v s \<Longrightarrow> members_text [(k, v)] (w @ json_quote k @ CHR '':'' # x @ s)"
| text_entries: "blank w \<Longrightarrow> blank x \<Longrightarrow> json_text v s \<Longrightarrow> members_text es t \<Longrightarrow>
     members_text ((k, v) # es) (w @ json_quote k @ CHR '':'' # x @ s @ CHR '','' # t)"

lemma skip_blank [simp]: "blank w \<Longrightarrow> skip_ws (w @ s) = skip_ws s"
  by (induction w) (simp_all add: blank_def skip_ws_def)

definition starts_token :: "string \<Rightarrow> bool" where
  "starts_token s \<longleftrightarrow> s \<noteq> [] \<and> \<not> json_space (hd s) \<and> hd s \<notin> {CHR '']'', CHR ''}'', CHR '','', CHR '':''}"

lemma skip_token: "starts_token s \<Longrightarrow> skip_ws (s @ r) = s @ r"
  by (cases s) (simp_all add: starts_token_def skip_ws_def)

lemma number_char_token: "number_char c \<Longrightarrow> \<not> json_space c \<and> c \<notin> {CHR '']'', CHR ''}'', CHR '','', CHR '':''}"
  by (auto simp: number_char_def json_space_def is_digit_def)

lemma number_token: "s \<noteq> [] \<Longrightarrow> list_all number_char s \<Longrightarrow> starts_token s"
  using number_char_token by (cases s) (auto simp: starts_token_def)

lemma text_token: "json_text v s \<Longrightarrow> starts_token s"
proof (induction rule: json_text.cases)
  case (text_int i)
  then show ?case using show_int_number number_token by blast
next
  case (text_dec s)
  then show ?case using number_token by (auto simp: dec_ok_def)
qed (simp_all add: starts_token_def json_space_def json_quote_def)

definition number_ends :: "string \<Rightarrow> bool" where
  "number_ends r \<longleftrightarrow> (case r of [] \<Rightarrow> True | c # _ \<Rightarrow> \<not> number_char c)"

lemma take_number:
  assumes "list_all number_char s" "number_ends r"
  shows "takeWhile number_char (s @ r) = s" "dropWhile number_char (s @ r) = r"
proof -
  have "takeWhile number_char r = [] \<and> dropWhile number_char r = r"
    using assms(2) by (cases r) (simp_all add: number_ends_def)
  then show "takeWhile number_char (s @ r) = s" "dropWhile number_char (s @ r) = r"
    using assms(1) by (simp_all add: list_all_iff takeWhile_append2 dropWhile_append2)
qed

lemma parse_number:
  assumes "s \<noteq> []" "list_all number_char s" "number_ends r" "read_number s = Some v"
  shows "parse_value (Suc n) (s @ r) = Some (v, r)"
proof -
  have sk: "skip_ws (s @ r) = s @ r" using number_token [OF assms(1,2)] by (rule skip_token)
  obtain c cs where s: "s = c # cs" using assms(1) by (cases s) auto
  have "number_char c" using assms(2) s by simp
  then have c: "c \<notin> {CHR ''n'', CHR ''t'', CHR ''f'', CHR 0x22, CHR ''['', CHR ''{''}"
    by (auto simp: number_char_def is_digit_def)
  then have "take 4 (s @ r) \<noteq> ''null''" "take 4 (s @ r) \<noteq> ''true''" "take 5 (s @ r) \<noteq> ''false''" using s by auto
  then have "parse_value (Suc n) (s @ r) =
      map_option (\<lambda>v. (v, dropWhile number_char (s @ r))) (read_number (takeWhile number_char (s @ r)))"
    unfolding parse_value.simps Let_def sk using s c by simp
  then show ?thesis using take_number [OF assms(2,3)] assms(4) by simp
qed

lemma number_ends_blank: "blank w \<Longrightarrow> c \<in> {CHR '','', CHR '']'', CHR ''}''} \<Longrightarrow> number_ends (w @ c # r)"
  by (cases w) (auto simp: number_ends_def blank_def number_char_def json_space_def is_digit_def)

lemma parse_value_skip: "blank w \<Longrightarrow> parse_value n (w @ s) = parse_value n s"
  by (cases n) simp_all

lemma foldl_jset_distinct:
  "distinct (map fst (m @ es)) \<Longrightarrow> foldl (\<lambda>m e. jset (fst e) (snd e) m) m es = m @ es"
proof (induction es arbitrary: m)
  case (Cons e es)
  then have "fst e \<notin> fst ` set m" by auto
  then have "jset (fst e) (snd e) m = m @ [e]" by (simp add: jset_new)
  then show ?case using Cons by simp
qed simp

lemma elements_start:
  assumes "elements_text vs s"
  obtains c r where "\<And>q. skip_ws (s @ q) = c # r @ q" "c \<noteq> CHR '']''"
  using assms
proof (cases rule: elements_text.cases)
  case (text_one w v t)
  from text_token [OF text_one(4)] obtain c cs where "t = c # cs" "c \<noteq> CHR '']''"
    by (cases t) (auto simp: starts_token_def)
  then show ?thesis using that [of c cs] text_one skip_token [OF text_token [OF text_one(4)]] by simp
next
  case (text_more w v t vs' u)
  from text_token [OF text_more(4)] obtain c cs where "t = c # cs" "c \<noteq> CHR '']''"
    by (cases t) (auto simp: starts_token_def)
  then show ?thesis
    using that [of c "cs @ CHR '','' # u"] text_more skip_token [OF text_token [OF text_more(4)]] by simp
qed

lemma skip_char: "\<not> json_space c \<Longrightarrow> skip_ws (c # r) = c # r"
  by (simp add: skip_ws_def)

lemma skip_quote: "skip_ws (json_quote k @ r) = CHR 0x22 # concat (map escape_char k) @ CHR 0x22 # r"
  by (simp add: json_quote_def skip_ws_def json_space_def)

lemma members_start:
  assumes "members_text es s"
  obtains r where "\<And>q. skip_ws (s @ q) = CHR 0x22 # r @ q"
  using assms by (cases rule: members_text.cases) (auto simp: skip_quote)

lemma punctuation [simp]:
  "\<not> json_space (CHR '','')" "\<not> json_space (CHR '']'')" "\<not> json_space (CHR ''}'')" "\<not> json_space (CHR '':'')"
  by (simp_all add: json_space_def)

lemma parse_str: "parse_value (Suc n) (json_quote s @ r) = Some (JStr s, r)"
  unfolding parse_value.simps Let_def skip_quote by (simp add: parse_quoted)

lemma parse_arr:
  assumes "elements_text vs s" "parse_elements n (s @ w @ CHR '']'' # r) = Some (vs, r)"
  shows "parse_value (Suc n) (CHR ''['' # s @ w @ CHR '']'' # r) = Some (JArr vs, r)"
proof -
  from assms(1) obtain c q where st: "\<And>q'. skip_ws (s @ q') = c # q @ q'" "c \<noteq> CHR '']''"
    by (rule elements_start) blast
  have "skip_ws (CHR ''['' # s @ w @ CHR '']'' # r) = CHR ''['' # s @ w @ CHR '']'' # r"
    by (simp add: skip_ws_def json_space_def)
  then show ?thesis unfolding parse_value.simps Let_def using st assms(2) by (simp split: char.split bool.split)
qed

lemma parse_obj:
  assumes "members_text es s" "ordered_keys es" "parse_members n (s @ w @ CHR ''}'' # r) = Some (es, r)"
  shows "parse_value (Suc n) (CHR ''{'' # s @ w @ CHR ''}'' # r) = Some (JObj es, r)"
proof -
  from assms(1) obtain q where st: "\<And>q'. skip_ws (s @ q') = CHR 0x22 # q @ q'"
    by (rule members_start) blast
  have sk: "skip_ws (CHR ''{'' # s @ w @ CHR ''}'' # r) = CHR ''{'' # s @ w @ CHR ''}'' # r"
    by (simp add: skip_ws_def json_space_def)
  have "property_order (foldl (\<lambda>m e. jset (fst e) (snd e) m) [] es) = es"
    using foldl_jset_distinct [of "[]" es] assms(2) by (simp add: ordered_keys_def)
  then show ?thesis unfolding parse_value.simps Let_def sk using st assms(3) by simp
qed

lemma parse_elements_step:
  assumes "blank w" "parse_value n (s @ r) = Some (v, r)"
  shows "parse_elements (Suc n) (w @ s @ r) =
     (case skip_ws r of
        CHR '','' # q \<Rightarrow> map_option (\<lambda>(vs, z). (v # vs, z)) (parse_elements n q)
      | CHR '']'' # q \<Rightarrow> Some ([v], q)
      | _ \<Rightarrow> None)"
  using assms by (simp add: parse_value_skip del: parse_value.simps)

lemma parse_members_step:
  assumes "blank w" "blank x" "parse_value n (s @ r) = Some (v, r)"
  shows "parse_members (Suc n) (w @ json_quote k @ CHR '':'' # x @ s @ r) =
     (case skip_ws r of
        CHR '','' # y \<Rightarrow> map_option (\<lambda>(es, x). ((k, v) # es, x)) (parse_members n y)
      | CHR ''}'' # y \<Rightarrow> Some ([(k, v)], y)
      | _ \<Rightarrow> None)"
  using assms by (simp add: skip_quote parse_quoted parse_value_skip skip_char del: parse_value.simps)

lemma fuel_Suc: "Suc k \<le> n \<Longrightarrow> \<exists>m. n = Suc m \<and> k \<le> m"
  by (cases n) auto

lemma parse_reads:
  shows "json_text v s \<Longrightarrow> 2 * length s \<le> n \<Longrightarrow> number_ends r \<Longrightarrow> parse_value n (s @ r) = Some (v, r)"
    and "elements_text vs s \<Longrightarrow> 2 * length s < n \<Longrightarrow> blank w \<Longrightarrow>
      parse_elements n (s @ w @ CHR '']'' # r) = Some (vs, r)"
    and "members_text es s \<Longrightarrow> 2 * length s < n \<Longrightarrow> blank w \<Longrightarrow>
      parse_members n (s @ w @ CHR ''}'' # r) = Some (es, r)"
proof (induction arbitrary: n r and n w r and n w r rule: json_text_elements_text_members_text.inducts)
  case (text_int i)
  then obtain m where "n = Suc m" using show_int_number [of i] by (cases n) auto
  then show ?case
    using parse_number [of "show_int i" r "JInt i" m] text_int show_int_number read_show_int by simp
next
  case (text_dec s)
  then obtain m where "n = Suc m" by (cases n) (auto simp: dec_ok_def)
  then show ?case using parse_number [of s r "JDec s" m] text_dec read_dec by (simp add: dec_ok_def)
next
  case (text_str s)
  then obtain m where "n = Suc m" by (cases n) (auto simp: json_quote_def)
  then show ?case using parse_str by simp
next
  case (text_arr vs s w)
  then obtain m where n: "n = Suc m" "2 * length s < m" by (cases n) auto
  then have "parse_elements m (s @ w @ CHR '']'' # r) = Some (vs, r)" using text_arr by blast
  then show ?case using parse_arr [OF text_arr(1)] n by simp
next
  case (text_obj es s w)
  then obtain m where n: "n = Suc m" "2 * length s < m" by (cases n) auto
  then have "parse_members m (s @ w @ CHR ''}'' # r) = Some (es, r)" using text_obj by blast
  then show ?case using parse_obj [OF text_obj(1,3)] n by simp
next
  case (text_one w' v s)
  then obtain m where n: "n = Suc m" "2 * length s \<le> m" by (cases n) auto
  have "number_ends (w @ CHR '']'' # r)" using text_one.prems(2) number_ends_blank by simp
  then have "parse_value m (s @ w @ CHR '']'' # r) = Some (v, w @ CHR '']'' # r)" using text_one.IH n by blast
  from parse_elements_step [OF text_one.hyps(1) this] show ?case
    using n(1) text_one.prems(2) by (simp add: skip_char)
next
  case (text_more w' v s vs t)
  then obtain m where n: "n = Suc m" "2 * length s \<le> m" "2 * length t < m" by (cases n) auto
  let ?r = "CHR '','' # t @ w @ CHR '']'' # r"
  have "number_ends ?r" using number_ends_blank [of "[]"] by (simp add: blank_def)
  then have "parse_value m (s @ ?r) = Some (v, ?r)" using text_more.IH(1) n by blast
  from parse_elements_step [OF text_more.hyps(1) this] show ?case
    using n(1) text_more.IH(2) [OF n(3) text_more.prems(2)] by (simp add: skip_char)
next
  case (text_entry w' x v s k)
  then obtain m where n: "n = Suc m" "2 * length s \<le> m" by (cases n) auto
  have "number_ends (w @ CHR ''}'' # r)" using text_entry.prems(2) number_ends_blank by simp
  then have "parse_value m (s @ w @ CHR ''}'' # r) = Some (v, w @ CHR ''}'' # r)" using text_entry.IH n by blast
  from parse_members_step [OF text_entry.hyps(1,2) this] show ?case
    using n(1) text_entry.prems(2) by (simp add: skip_char)
next
  case (text_entries w' x v s es t k)
  then obtain m where n: "n = Suc m" "2 * length s \<le> m" "2 * length t < m" by (cases n) auto
  let ?r = "CHR '','' # t @ w @ CHR ''}'' # r"
  have "number_ends ?r" using number_ends_blank [of "[]"] by (simp add: blank_def)
  then have "parse_value m (s @ ?r) = Some (v, ?r)" using text_entries.IH(1) n by blast
  from parse_members_step [OF text_entries.hyps(1,2) this] show ?case
    using n(1) text_entries.IH(2) [OF n(3) text_entries.prems(2)] by (simp add: skip_char)
qed (auto dest!: fuel_Suc simp: skip_ws_def json_space_def numeral_eq_Suc)

text \<open>Every text of a value is read back to it, with white space around it too.\<close>

lemma json_parse_text:
  assumes "json_text v s" "blank w"
  shows "json_parse (s @ w) = Some v"
proof -
  have "number_ends w"
    using assms(2) by (cases w) (auto simp: number_ends_def blank_def number_char_def json_space_def is_digit_def)
  then have "parse_value (2 * length (s @ w) + 2) (s @ w) = Some (v, w)"
    by (intro parse_reads(1) [OF assms(1)]) simp_all
  then show ?thesis using skip_blank [OF assms(2), of "[]"] by (simp add: json_parse_def skip_ws_def)
qed

section \<open>What the printers write\<close>

text \<open>The values whose texts determine them.\<close>

fun json_data :: "js \<Rightarrow> bool" where
  "json_data JNull \<longleftrightarrow> True"
| "json_data (JBool _) \<longleftrightarrow> True"
| "json_data (JInt i) \<longleftrightarrow> \<bar>i\<bar> < 10 ^ 21"
| "json_data JNegZero \<longleftrightarrow> False"
| "json_data (JDec s) \<longleftrightarrow> dec_ok s"
| "json_data JNonFinite \<longleftrightarrow> False"
| "json_data (JStr _) \<longleftrightarrow> True"
| "json_data (JArr vs) \<longleftrightarrow> list_all json_data vs"
| "json_data (JObj es) \<longleftrightarrow> ordered_keys es \<and> list_all (\<lambda>e. json_data (snd e)) es"
| "json_data JUndefined \<longleftrightarrow> False"
| "json_data JOther \<longleftrightarrow> False"

lemma data_not_omitted: "json_data v \<Longrightarrow> \<not> omitted v"
  by (cases v) simp_all

lemma elements_joined:
  assumes "blank w" "vs \<noteq> []" "\<And>v. v \<in> set vs \<Longrightarrow> json_text v (f v)"
  shows "elements_text vs (join_comma (map (\<lambda>v. w @ f v) vs))"
  using assms(2,3)
proof (induction vs rule: induct_list012)
  case (2 v)
  then show ?case using text_one [OF assms(1), of v "f v"] by (simp add: join_comma_def)
next
  case (3 v u vs)
  from text_more [OF assms(1), of v "f v" "u # vs"] 3 show ?case by (simp add: join_comma_def)
qed simp

lemma members_joined:
  assumes "blank w" "blank x" "es \<noteq> []" "\<And>e. e \<in> set es \<Longrightarrow> json_text (snd e) (f (snd e))"
  shows "members_text es (join_comma (map (\<lambda>e. w @ json_quote (fst e) @ CHR '':'' # x @ f (snd e)) es))"
  using assms(3,4)
proof (induction es rule: induct_list012)
  case (2 e)
  then show ?case using text_entry [OF assms(1,2), of "snd e" "f (snd e)" "fst e"] by (simp add: join_comma_def)
next
  case (3 e e' es)
  from text_entries [OF assms(1,2), of "snd e" "f (snd e)" "e' # es" _ "fst e"] 3
  show ?case by (simp add: join_comma_def)
qed simp

lemma blank_newline: "blank (newline_indent d)"
  by (simp add: blank_def newline_indent_def json_space_def list_all_iff)

lemma pretty_text: "json_data v \<Longrightarrow> json_text v (pretty d v)"
proof (induction d v rule: pretty.induct)
  case (8 d vs)
  show ?case
  proof (cases "vs = []")
    case False
    have "elements_text vs (join_comma (map (\<lambda>v. newline_indent (Suc d) @ pretty (Suc d) v) vs))"
      using 8 False by (intro elements_joined) (auto simp: blank_newline list_all_iff)
    from text_arr [OF this blank_newline] show ?thesis using False by simp
  qed (simp add: text_empty_arr)
next
  case (9 d es)
  have sp: "blank '' ''" by (simp add: blank_def json_space_def)
  have all: "filter (\<lambda>e. \<not> omitted (snd e)) es = es"
    using 9(2) data_not_omitted by (auto simp: list_all_iff filter_id_conv)
  show ?case
  proof (cases "es = []")
    case False
    have "members_text es (join_comma (map (\<lambda>e. newline_indent (Suc d) @ json_quote (fst e) @ CHR '':'' # '' '' @ pretty (Suc d) (snd e)) es))"
      using 9 all False sp by (intro members_joined [OF blank_newline]) (auto simp: list_all_iff)
    from text_obj [OF this blank_newline] show ?thesis using False 9(2) all by (simp add: Let_def)
  qed (simp add: text_empty_obj)
qed (simp_all add: json_text_elements_text_members_text.intros)

lemma pretty_round_trip:
  assumes "json_data v" "blank w"
  shows "json_parse (pretty d v @ w) = Some v"
  by (rule json_parse_text [OF pretty_text [OF assms(1)] assms(2)])

end
