(* ===== verification/Permission_Settings.thy ===== *)
theory Permission_Settings
  imports Permission_Promises Json_Texts
begin

text \<open>
  \<open>src/permission/settings.ts\<close>: the permission settings file. The file is its text,
  \<open>None\<close> when it cannot be read; a \<open>Partial<PermissionSettings>\<close> is the list of the
  entries given.
\<close>

section \<open>Entries\<close>

definition TOOL_NAME_ALIASES :: "(string \<times> string) list" where
  "TOOL_NAME_ALIASES =
     [(''Read'', ''read_file''), (''Write'', ''write_file''), (''Edit'', ''edit_file''),
      (''NotebookEdit'', ''edit_notebook''), (''MultiEdit'', ''edit_file''), (''Glob'', ''glob''),
      (''Grep'', ''grep''), (''Bash'', ''bash''), (''Task'', ''agent''), (''TodoWrite'', ''todo_write''),
      (''WebFetch'', ''web_fetch''), (''WebSearch'', ''web_search''),
      (''DeepSeekNativeSearch'', ''deepseek_native_search'')]"

text \<open>\<open>/^Bash\((.*)\)$/\<close>: the group, which spans no line end.\<close>

definition bash_group :: "string \<Rightarrow> string option" where
  "bash_group s =
     (let inner = butlast (drop 5 s) in
      if take 5 s = ''Bash('' \<and> 6 \<le> length s \<and> last s = CHR '')''
         \<and> CHR 0x0A \<notin> set inner \<and> CHR 0x0D \<notin> set inner then Some inner else None)"

definition normalizePermissionEntry :: "string \<Rightarrow> string" where
  "normalizePermissionEntry entry =
     (let trimmed = js_trim entry in
      if trimmed = [] then []
      else case bash_group trimmed of
        Some g \<Rightarrow> let p = js_trim g in if p \<noteq> [] then ''bash:'' @ p else ''bash''
      | None \<Rightarrow> (case map_of TOOL_NAME_ALIASES trimmed of Some a \<Rightarrow> a | None \<Rightarrow> trimmed))"

definition permissionEntryToRule :: "string \<Rightarrow> rule_behavior \<Rightarrow> rule_source \<Rightarrow> permission_rule" where
  "permissionEntryToRule entry behavior source =
     (let normalized = normalizePermissionEntry entry;
          toolName = takeWhile (\<lambda>c. c \<noteq> CHR '':'') normalized;
          pattern = js_trim (drop 1 (dropWhile (\<lambda>c. c \<noteq> CHR '':'') normalized))
      in \<lparr>pr_source = source, pr_behavior = behavior,
          pr_tool = (if toolName = [] then normalized else toolName),
          pr_pattern = (if pattern = [] then None else Some pattern)\<rparr>)"

section \<open>Settings\<close>

record settings =
  ps_allowed :: "string list"
  ps_disallowed :: "string list"
  ps_skip :: bool
  ps_updated :: "string option"

definition DEFAULT_PERMISSION_SETTINGS :: settings where
  "DEFAULT_PERMISSION_SETTINGS = \<lparr>ps_allowed = [], ps_disallowed = [], ps_skip = True, ps_updated = None\<rparr>"

fun normalizeStringArray :: "js \<Rightarrow> string list" where
  "normalizeStringArray (JArr vs) =
     foldl (\<lambda>acc v. case text_of v of None \<Rightarrow> acc
              | Some s \<Rightarrow> let n = normalizePermissionEntry s in if n = [] \<or> n \<in> set acc then acc else acc @ [n])
       [] vs"
| "normalizeStringArray _ = []"

text \<open>
  \<open>Boolean(_)\<close>; a text of \<open>JDec\<close> is a number that is not zero, and the only non-finite
  number a JSON text gives is infinite.
\<close>

fun js_truthy :: "js \<Rightarrow> bool" where
  "js_truthy JNull = False"
| "js_truthy JUndefined = False"
| "js_truthy (JBool b) = b"
| "js_truthy (JInt i) = (i \<noteq> 0)"
| "js_truthy JNegZero = False"
| "js_truthy (JStr s) = (s \<noteq> [])"
| "js_truthy _ = True"

definition normalizePermissionSettings :: "js \<Rightarrow> settings" where
  "normalizePermissionSettings v =
     \<lparr>ps_allowed = normalizeStringArray (field ''allowedTools'' v),
      ps_disallowed = normalizeStringArray (field ''disallowedTools'' v),
      ps_skip = js_truthy (field ''skipPermissions'' v),
      ps_updated = text_of (field ''lastUpdated'' v)\<rparr>"

definition settings_entries :: "settings \<Rightarrow> (string \<times> js) list" where
  "settings_entries s =
     [(''version'', JInt 1), (''allowedTools'', JArr (map JStr (ps_allowed s))),
      (''disallowedTools'', JArr (map JStr (ps_disallowed s))), (''skipPermissions'', JBool (ps_skip s)),
      (''lastUpdated'', case ps_updated s of None \<Rightarrow> JUndefined | Some t \<Rightarrow> JStr t)]"

definition readPermissionSettings :: "string option \<Rightarrow> settings" where
  "readPermissionSettings file =
     (case file of None \<Rightarrow> DEFAULT_PERMISSION_SETTINGS
      | Some raw \<Rightarrow> (case json_parse raw of None \<Rightarrow> DEFAULT_PERMISSION_SETTINGS
                    | Some v \<Rightarrow> normalizePermissionSettings v))"

text \<open>\<open>now\<close> is the text of the current instant; the result comes with the file written.\<close>

definition writePermissionSettings ::
  "(string \<times> js) list \<Rightarrow> string \<Rightarrow> string option \<Rightarrow> settings \<times> string" where
  "writePermissionSettings given_entries now file =
     (let base = settings_entries (readPermissionSettings file);
          merged = jset ''lastUpdated'' (JStr now) (foldl (\<lambda>m e. jset (fst e) (snd e) m) base given_entries);
          next_settings = normalizePermissionSettings (JObj merged)
      in (next_settings, pretty 0 (JObj (settings_entries next_settings)) @ [CHR 0x0A]))"

definition permissionSettingsToRuleSet :: "settings \<Rightarrow> rule_set" where
  "permissionSettingsToRuleSet s =
     \<lparr>rs_allow = map (\<lambda>e. permissionEntryToRule e Allow_rule From_user) (ps_allowed s),
      rs_deny = map (\<lambda>e. permissionEntryToRule e Deny_rule From_user) (ps_disallowed s),
      rs_ask = []\<rparr>"

section \<open>Entries are in normal form\<close>

lemma dropWhile_hd: "xs = [] \<or> \<not> P (hd xs) \<Longrightarrow> dropWhile P xs = xs"
  by (cases xs) auto

lemma trim_ends: "js_trim s \<noteq> [] \<Longrightarrow> \<not> is_space (hd (js_trim s)) \<and> \<not> is_space (last (js_trim s))"
proof -
  assume n: "js_trim s \<noteq> []"
  let ?d = "dropWhile is_space s"
  have l: "\<not> is_space (last (js_trim s))"
    using n hd_dropWhile [of is_space "rev ?d"] by (auto simp: js_trim_def last_rev)
  have "?d = js_trim s @ rev (takeWhile is_space (rev ?d))"
    unfolding js_trim_def by (metis rev_append rev_rev_ident takeWhile_dropWhile_id)
  then have h: "hd ?d = hd (js_trim s)" and d: "?d \<noteq> []" using n by (metis hd_append2, metis append_is_Nil_conv)
  have "\<not> is_space (hd ?d)" using d by (rule hd_dropWhile)
  then show ?thesis using l h by simp
qed

lemma trim_fixed: "s = [] \<or> (\<not> is_space (hd s) \<and> \<not> is_space (last s)) \<Longrightarrow> js_trim s = s"
  unfolding js_trim_def using dropWhile_hd [of s is_space] dropWhile_hd [of "rev s" is_space]
  by (auto simp: hd_rev)

lemma trim_trim [simp]: "js_trim (js_trim s) = js_trim s"
  using trim_ends trim_fixed by blast

lemma no_group: "hd s \<noteq> CHR ''B'' \<Longrightarrow> bash_group s = None"
  by (cases s) (auto simp: bash_group_def)

lemma entry_bash:
  assumes "p \<noteq> []" "js_trim p = p"
  shows "normalizePermissionEntry (''bash:'' @ p) = ''bash:'' @ p"
proof -
  have "\<not> is_space (last p)" using trim_ends [of p] assms by simp
  then have "js_trim (''bash:'' @ p) = ''bash:'' @ p"
    using assms(1) by (intro trim_fixed) (simp add: is_space_def)
  moreover have "bash_group (''bash:'' @ p) = None" by (intro no_group) simp
  ultimately show ?thesis by (simp add: normalizePermissionEntry_def TOOL_NAME_ALIASES_def Let_def)
qed

lemma entry_alias:
  "map_of TOOL_NAME_ALIASES s = Some a \<Longrightarrow> normalizePermissionEntry a = a"
  by (auto simp: TOOL_NAME_ALIASES_def normalizePermissionEntry_def bash_group_def js_trim_def is_space_def
        split: if_splits)

lemma entry_normal: "normalizePermissionEntry (normalizePermissionEntry e) = normalizePermissionEntry e"
proof (cases "js_trim e = []")
  case True
  then show ?thesis by (simp add: normalizePermissionEntry_def js_trim_def)
next
  case ne: False
  show ?thesis
  proof (cases "bash_group (js_trim e)")
    case (Some g)
    show ?thesis
    proof (cases "js_trim g = []")
      case True
      then have "normalizePermissionEntry e = ''bash''" using Some ne by (simp add: normalizePermissionEntry_def Let_def)
      then show ?thesis using entry_alias [of "''Bash''"] by (simp add: TOOL_NAME_ALIASES_def)
    next
      case False
      then have "normalizePermissionEntry e = ''bash:'' @ js_trim g"
        using Some ne by (simp add: normalizePermissionEntry_def Let_def)
      then show ?thesis using entry_bash [OF False] by simp
    qed
  next
    case None
    show ?thesis
    proof (cases "map_of TOOL_NAME_ALIASES (js_trim e)")
      case (Some a)
      then have "normalizePermissionEntry e = a" using None ne by (simp add: normalizePermissionEntry_def Let_def)
      then show ?thesis using entry_alias [OF Some] by simp
    next
      case al: None
      then have "normalizePermissionEntry e = js_trim e" using None ne by (simp add: normalizePermissionEntry_def Let_def)
      then show ?thesis using None al ne by (simp add: normalizePermissionEntry_def Let_def)
    qed
  qed
qed

section \<open>Round trips\<close>

lemma normalized_array:
  "distinct (normalizeStringArray v) \<and>
     (\<forall>e \<in> set (normalizeStringArray v). e \<noteq> [] \<and> normalizePermissionEntry e = e)"
proof (cases v)
  case (JArr vs)
  define step where "step = (\<lambda>acc v. case text_of v of None \<Rightarrow> acc
      | Some s \<Rightarrow> let n = normalizePermissionEntry s in if n = [] \<or> n \<in> set acc then acc else acc @ [n])"
  have "distinct acc \<and> (\<forall>e \<in> set acc. e \<noteq> [] \<and> normalizePermissionEntry e = e) \<Longrightarrow>
      distinct (foldl step acc vs) \<and> (\<forall>e \<in> set (foldl step acc vs). e \<noteq> [] \<and> normalizePermissionEntry e = e)" for acc
  proof (induction vs arbitrary: acc)
    case (Cons u us)
    have "distinct (step acc u) \<and> (\<forall>e \<in> set (step acc u). e \<noteq> [] \<and> normalizePermissionEntry e = e)"
      using Cons.prems entry_normal by (auto simp: step_def Let_def split: option.splits)
    from Cons.IH [OF this] show ?case by simp
  qed simp
  from this [of "[]"] show ?thesis by (simp add: JArr step_def)
qed simp_all

lemma array_fixed:
  assumes "distinct es" "\<forall>e \<in> set es. e \<noteq> [] \<and> normalizePermissionEntry e = e"
  shows "normalizeStringArray (JArr (map JStr es)) = es"
proof -
  define step where "step = (\<lambda>acc v. case text_of v of None \<Rightarrow> acc
      | Some s \<Rightarrow> let n = normalizePermissionEntry s in if n = [] \<or> n \<in> set acc then acc else acc @ [n])"
  have "distinct (acc @ es) \<Longrightarrow> \<forall>e \<in> set es. e \<noteq> [] \<and> normalizePermissionEntry e = e \<Longrightarrow>
      foldl step acc (map JStr es) = acc @ es" for acc
    by (induction es arbitrary: acc) (auto simp: step_def)
  from this [of "[]"] assms show ?thesis by (simp add: step_def)
qed

lemma settings_normal:
  "normalizePermissionSettings (JObj (settings_entries (normalizePermissionSettings v))) = normalizePermissionSettings v"
proof -
  have "normalizeStringArray (JArr (map JStr (normalizeStringArray u))) = normalizeStringArray u" for u
    using normalized_array [of u] by (intro array_fixed) auto
  then show ?thesis
    by (simp add: normalizePermissionSettings_def settings_entries_def split: option.split)
qed

lemma settings_data:
  assumes "ps_updated s = Some t"
  shows "json_data (JObj (settings_entries s))"
proof -
  have "ordered_keys (settings_entries s)"
    by (simp add: ordered_keys_def settings_entries_def property_order_def is_index_key_def is_digit_def sort_by_def)
  then show ?thesis using assms by (simp add: settings_entries_def list_all_iff)
qed

text \<open>
  Whatever is in the settings file and whatever entries are written, the settings
  returned by the writer are the ones the next reader finds in the file it left.
\<close>

lemma settings_round_trip:
  "readPermissionSettings (Some (snd (writePermissionSettings given_entries now file)))
     = fst (writePermissionSettings given_entries now file)"
proof -
  let ?m = "jset ''lastUpdated'' (JStr now) (foldl (\<lambda>m e. jset (fst e) (snd e) m)
      (settings_entries (readPermissionSettings file)) given_entries)"
  let ?s = "normalizePermissionSettings (JObj ?m)"
  have "ps_updated ?s = Some now" by (simp add: normalizePermissionSettings_def)
  then have "json_parse (pretty 0 (JObj (settings_entries ?s)) @ [CHR 0x0A]) = Some (JObj (settings_entries ?s))"
    by (intro json_parse_text pretty_text settings_data) (auto simp: blank_def json_space_def)
  moreover have "writePermissionSettings given_entries now file = (?s, pretty 0 (JObj (settings_entries ?s)) @ [CHR 0x0A])"
    by (simp only: writePermissionSettings_def Let_def)
  ultimately show ?thesis
    by (simp only: readPermissionSettings_def [of "Some _"] fst_conv snd_conv option.case settings_normal)
qed

end
