(* ===== verification/Permission_Samples.thy ===== *)
theory Permission_Samples
  imports Permission_Settings
begin

text \<open>
  Concrete permission contexts and tool calls on which the properties of the permission
  component apply.
\<close>

definition sample_context :: "permission_mode \<Rightarrow> permission_rule list \<Rightarrow> permission_context" where
  "sample_context mode rules = createDefaultPermissionContext
     \<lparr>co_cwd = ''/w'', co_mode = Some mode, co_can_prompt = Some True, co_bypass = None, co_dirs = None,
      co_plan_dir = Some ''/w/.rigorium/plans'', co_allow = Some rules, co_deny = None, co_ask = None\<rparr>"

definition write_tool :: tool where
  "write_tool = \<lparr>tl_name = ''write_file'', tl_kind = ''filesystem'', tl_read_only = (\<lambda>_. False), tl_check = (\<lambda>_. None)\<rparr>"

definition write_input :: "string \<Rightarrow> js" where
  "write_input p = JObj [(''file_path'', JStr p), (''content'', JStr ''text'')]"

definition user_write_rule :: permission_rule where
  "user_write_rule = permissionEntryToRule ''Write'' Allow_rule From_user"

text \<open>The user's rule for writing permits a write to \<open>.git/config\<close> that the protected rules name.\<close>

lemma git_write_permitted:
  "decide_permission ''/'' write_tool (write_input ''.git/config'')
     (sample_context Default_mode [user_write_rule]) ''c1'' =
   Permit (Rule_reason Allow_rule user_write_rule ''Allow rule permits write_file.'') None"
  by code_simp

lemma protected_rules_inert_witness:
  "\<not> matchPermissionRule ''/'' (protect ''write_file'' ''**/.git/**'') ''write_file'' (write_input ''.git/config'')
       (sample_context Default_mode [user_write_rule])
   \<and> decide_permission ''/'' write_tool (write_input ''.git/config'')
       (sample_context Default_mode [user_write_rule]) ''c1'' =
     Permit (Rule_reason Allow_rule user_write_rule ''Allow rule permits write_file.'') None"
  using protected_rules_inert [of "protect ''write_file'' ''**/.git/**''"] git_write_permitted
  by (simp add: BUILTIN_PROTECTED_PATH_RULES_def)

lemma user_rule: "rule_pattern user_write_rule = None \<and> matchesToolName (pr_tool user_write_rule) ''write_file''"
  by code_simp

lemma sample_match:
  "matchPermissionRule ''/'' user_write_rule ''write_file'' (write_input ''src/a.ts'') (sample_context Default_mode [])"
  by code_simp

lemma patternless_write_rule_witness:
  "\<exists>p root rest. resolveInputFilePath ''/'' (write_input ''src/a.ts'') (sample_context Default_mode []) = Some p
     \<and> root \<in> set (pc_cwd (sample_context Default_mode []) # pc_dirs (sample_context Default_mode []))
     \<and> resolved_segments ''/'' [p] = resolved_segments ''/'' [root] @ rest
     \<and> (rest = [] \<or> take 2 (hd rest) \<noteq> ''..'')"
  using patternless_write_rule [of "''write_file''" user_write_rule "''/''" "write_input ''src/a.ts''"
      "sample_context Default_mode []"] user_rule sample_match by simp

definition sample_reason :: decision_reason where
  "sample_reason = Mode_reason Default_mode ''Mode default requires permission for write_file.''"

lemma sample_prompt:
  "decide_permission ''/'' write_tool (write_input ''a.md'') (sample_context Default_mode []) ''c1'' =
     Prompt sample_reason (createPermissionRequest write_tool (write_input ''a.md'') ''c1'' sample_reason)"
  by code_simp

lemma prompts_only_when_possible_witness:
  "pc_can_prompt (sample_context Default_mode [])
   \<and> rq_call (createPermissionRequest write_tool (write_input ''a.md'') ''c1'' sample_reason) = ''c1''"
  using prompts_only_when_possible [OF sample_prompt] by simp

lemma plan_write:
  "decide_permission ''/'' write_tool (write_input ''.rigorium/plans/a.md'') (sample_context Plan_only []) ''c1'' =
     Permit (Mode_reason Plan_only ''Plan mode allows writing markdown plans under the plan directory.'') None"
  by code_simp

lemma plan_sides:
  "pc_mode (sample_context Plan_only []) = Plan_only \<and> \<not> tl_read_only write_tool i
   \<and> session_rule ''/'' write_tool i (sample_context Plan_only []) = None \<and> tl_check write_tool i = None"
  by (simp add: sample_context_def createDefaultPermissionContext_def given_def write_tool_def session_rule_def
      findMatchingRule_def)


lemma plan_mode_confines_witness:
  "\<exists>dir filePath rest. pc_plan_dir (sample_context Plan_only []) = Some dir
     \<and> text_of (path_field (write_input ''.rigorium/plans/a.md'')) = Some filePath
     \<and> resolved_segments ''/'' [pc_cwd (sample_context Plan_only []), filePath] = resolved_segments ''/'' [dir] @ rest
     \<and> rest \<noteq> []
     \<and> ends_with ''.md'' (map lower_char (resolvePath ''/'' [pc_cwd (sample_context Plan_only []), filePath]))"
  by (rule plan_mode_confines [OF plan_write]) (use plan_sides in simp_all)

end
