(* ===== verification/Repository_Lock.thy ===== *)
theory Repository_Lock
  imports Main
begin

text \<open>
  \<open>withRepositoryLock\<close> and \<open>reclaimStaleRepositoryLock\<close> of
  \<open>src/research/artifacts/repository.ts\<close> as a transition system of operations, each in a
  process of its own, that share one lock file. A step is one file system call with the
  branch taken on its result: the exclusive \<open>open\<close>, the inspection of a lock found in the
  way, the \<open>rename\<close> of a stale one, the final \<open>unlink\<close>. The age of the file is left
  open (a lock may be judged young at any time); its owner is stale only when its process
  is gone.
\<close>

definition LOCK_RETRIES :: nat where
  "LOCK_RETRIES = 120"

datatype lock_phase =
    Lock_idle
  | Trying nat            \<comment> \<open>about to open the lock file in this attempt\<close>
  | Blocked nat           \<comment> \<open>the file exists, about to inspect it\<close>
  | Reclaiming nat        \<comment> \<open>its owner was found gone, about to rename it\<close>
  | Holding               \<comment> \<open>running with a handle\<close>
  | Unguarded             \<comment> \<open>running without one\<close>
  | Gave_up               \<comment> \<open>\<open>repository_busy\<close> or an input/output error\<close>
  | Gone                  \<comment> \<open>the process died\<close>

text \<open>The lock file is absent or was created by an operation.\<close>

record lock_world =
  lw_file :: "nat option"
  lw_phase :: "nat \<Rightarrow> lock_phase"

definition lock_start :: lock_world where
  "lock_start = \<lparr>lw_file = None, lw_phase = (\<lambda>_. Lock_idle)\<rparr>"

definition move :: "nat \<Rightarrow> lock_phase \<Rightarrow> lock_world \<Rightarrow> lock_world" where
  "move p ph w = w\<lparr>lw_phase := (lw_phase w)(p := ph)\<rparr>"

definition put_file :: "nat option \<Rightarrow> lock_world \<Rightarrow> lock_world" where
  "put_file f w = w\<lparr>lw_file := f\<rparr>"

inductive lock_step :: "lock_world \<Rightarrow> lock_world \<Rightarrow> bool" where
  enter: "lw_phase w p = Lock_idle \<Longrightarrow> lock_step w (move p (Trying 0) w)"
| create: "lw_phase w p = Trying k \<Longrightarrow> k < LOCK_RETRIES \<Longrightarrow> lw_file w = None \<Longrightarrow>
    lock_step w (move p Holding (put_file (Some p) w))"
| exists: "lw_phase w p = Trying k \<Longrightarrow> k < LOCK_RETRIES \<Longrightarrow> lw_file w \<noteq> None \<Longrightarrow>
    lock_step w (move p (Blocked k) w)"
| open_fails: "lw_phase w p = Trying k \<Longrightarrow> k < LOCK_RETRIES \<Longrightarrow> lock_step w (move p Gave_up w)"
| vanished: "lw_phase w p = Blocked k \<Longrightarrow> lw_file w = None \<Longrightarrow> lock_step w (move p (Trying (Suc k)) w)"
| busy: "lw_phase w p = Blocked k \<Longrightarrow> lw_file w \<noteq> None \<Longrightarrow>
    lock_step w (move p (if k = LOCK_RETRIES - 1 then Gave_up else Trying (Suc k)) w)"
| stale: "lw_phase w p = Blocked k \<Longrightarrow> lw_file w = Some q \<Longrightarrow> lw_phase w q = Gone \<Longrightarrow>
    lock_step w (move p (Reclaiming k) w)"
| rename_away: "lw_phase w p = Reclaiming k \<Longrightarrow>
    lock_step w (move p (Trying (Suc k)) (put_file None w))"
| loop_ends: "lw_phase w p = Trying LOCK_RETRIES \<Longrightarrow> lock_step w (move p Unguarded w)"
| unlock: "lw_phase w p = Holding \<Longrightarrow> lock_step w (move p Lock_idle (put_file None w))"
| unlink_fails: "lw_phase w p = Holding \<Longrightarrow> lock_step w (move p Lock_idle w)"
| leave: "lw_phase w p \<in> {Unguarded, Gave_up} \<Longrightarrow> lock_step w (move p Lock_idle w)"

inductive lock_crash :: "lock_world \<Rightarrow> lock_world \<Rightarrow> bool" where
  dies: "lock_crash w (move p Gone w)"

inductive_cases lock_stepE: "lock_step w w'"

lemma lw_simps [simp]:
  "lw_phase (move p ph w) = (lw_phase w)(p := ph)" "lw_file (move p ph w) = lw_file w"
  "lw_file (put_file f w) = f" "lw_phase (put_file f w) = lw_phase w"
  by (simp_all add: move_def put_file_def)

section \<open>Without crashes\<close>

definition lock_inv :: "lock_world \<Rightarrow> bool" where
  "lock_inv w \<longleftrightarrow> (\<forall>p. lw_phase w p \<noteq> Gone \<and> (\<forall>k. lw_phase w p \<noteq> Reclaiming k)
     \<and> (lw_phase w p = Holding \<longrightarrow> lw_file w = Some p))"

lemma lock_inv_step: "lock_step w w' \<Longrightarrow> lock_inv w \<Longrightarrow> lock_inv w'"
  by ((induction rule: lock_step.induct; auto simp: lock_inv_def split: if_splits), (metis option.inject)+)

lemma inv_holding: "lock_inv w \<Longrightarrow> lw_phase w p = Holding \<Longrightarrow> lw_file w = Some p"
  by (simp add: lock_inv_def)

lemma lock_inv_reach: "lock_step\<^sup>*\<^sup>* lock_start w \<Longrightarrow> lock_inv w"
  by (induction rule: rtranclp_induct) (auto simp: lock_inv_step, simp add: lock_inv_def lock_start_def)


section \<open>Where exclusion ends\<close>

lemma lock_more: "r\<^sup>*\<^sup>* a b \<Longrightarrow> r b c \<Longrightarrow> r\<^sup>*\<^sup>* a c"
  by (rule rtranclp.rtrancl_into_rtrancl)

text \<open>Another operation that comes and goes between the opening and the inspection.\<close>

lemma one_round:
  assumes "lw_phase w = (\<lambda>_. Lock_idle)(0 := Trying k)" "lw_file w = None" "k < LOCK_RETRIES"
  shows "\<exists>w'. lock_step\<^sup>*\<^sup>* w w' \<and> lw_phase w' = (\<lambda>_. Lock_idle)(0 := Trying (Suc k)) \<and> lw_file w' = None"
proof -
  have r: "0 < LOCK_RETRIES" by (simp add: LOCK_RETRIES_def)
  let ?a = "move 1 (Trying 0) w"
  let ?b = "move 1 Holding (put_file (Some 1) ?a)"
  let ?c = "move 0 (Blocked k) ?b"
  let ?d = "move 1 Lock_idle (put_file None ?c)"
  let ?e = "move 0 (Trying (Suc k)) ?d"
  have "lock_step w ?a" by (rule enter) (simp add: assms)
  moreover have "lock_step ?a ?b" by (rule create [of _ _ 0]) (simp_all add: assms r)
  moreover have "lock_step ?b ?c" by (rule exists) (simp_all add: assms)
  moreover have "lock_step ?c ?d" by (rule unlock) simp
  moreover have "lock_step ?d ?e" by (rule vanished) simp_all
  ultimately have "lock_step\<^sup>*\<^sup>* w ?e" by (meson lock_more rtranclp.rtrancl_refl)
  moreover have "lw_phase ?e = (\<lambda>_. Lock_idle)(0 := Trying (Suc k))" using assms by auto
  ultimately show ?thesis by (intro exI [of _ ?e]) simp
qed

lemma many_rounds:
  "k \<le> LOCK_RETRIES \<Longrightarrow>
     \<exists>w. lock_step\<^sup>*\<^sup>* lock_start w \<and> lw_phase w = (\<lambda>_. Lock_idle)(0 := Trying k) \<and> lw_file w = None"
proof (induction k)
  case 0
  have "lock_step lock_start (move 0 (Trying 0) lock_start)" by (rule enter) (simp add: lock_start_def)
  then show ?case by (intro exI [of _ "move 0 (Trying 0) lock_start"]) (simp add: lock_start_def)
next
  case (Suc k)
  then obtain w where "lock_step\<^sup>*\<^sup>* lock_start w" "lw_phase w = (\<lambda>_. Lock_idle)(0 := Trying k)" "lw_file w = None"
    by (meson Suc_leD)
  with one_round [of w k] Suc.prems show ?case by (meson Suc_le_lessD rtranclp_trans)
qed

lemma falls_through:
  "\<exists>w. lock_step\<^sup>*\<^sup>* lock_start w \<and> lw_phase w 0 = Unguarded \<and> lw_phase w 1 = Holding"
proof -
  obtain w where w: "lock_step\<^sup>*\<^sup>* lock_start w" "lw_phase w = (\<lambda>_. Lock_idle)(0 := Trying LOCK_RETRIES)" "lw_file w = None"
    using many_rounds [of LOCK_RETRIES] by auto
  let ?a = "move 0 Unguarded w"
  let ?b = "move 1 (Trying 0) ?a"
  let ?c = "move 1 Holding (put_file (Some 1) ?b)"
  have "lock_step w ?a" by (rule loop_ends) (simp add: w)
  moreover have "lock_step ?a ?b" by (rule enter) (simp add: w)
  moreover have "lock_step ?b ?c" by (rule create [of _ _ 0]) (simp_all add: w LOCK_RETRIES_def)
  ultimately have "lock_step\<^sup>*\<^sup>* lock_start ?c" using w(1) by (meson lock_more)
  then show ?thesis by (intro exI [of _ ?c]) simp
qed

abbreviation "lock_or_crash \<equiv> sup lock_step lock_crash"

lemma reclaim_race:
  "\<exists>w. lock_or_crash\<^sup>*\<^sup>* lock_start w \<and> lw_phase w 1 = Holding \<and> lw_phase w 2 = Holding"
proof -
  have r: "0 < LOCK_RETRIES" "Suc 0 < LOCK_RETRIES" by (simp_all add: LOCK_RETRIES_def)
  let ?a = "move 0 (Trying 0) lock_start"
  let ?b = "move 0 Holding (put_file (Some 0) ?a)"
  let ?c = "move 0 Gone ?b"
  let ?d = "move 1 (Trying 0) ?c"
  let ?e = "move 1 (Blocked 0) ?d"
  let ?f = "move 1 (Reclaiming 0) ?e"
  let ?g = "move 2 (Trying 0) ?f"
  let ?h = "move 2 (Blocked 0) ?g"
  let ?i = "move 2 (Reclaiming 0) ?h"
  let ?j = "move 2 (Trying (Suc 0)) (put_file None ?i)"
  let ?k = "move 2 Holding (put_file (Some 2) ?j)"
  let ?l = "move 1 (Trying (Suc 0)) (put_file None ?k)"
  let ?m = "move 1 Holding (put_file (Some 1) ?l)"
  have "lock_step lock_start ?a" by (rule enter) (simp add: lock_start_def)
  moreover have "lock_step ?a ?b" by (rule create [of _ _ 0]) (simp_all add: lock_start_def r)
  moreover have "lock_crash ?b ?c" by (rule dies)
  moreover have "lock_step ?c ?d" by (rule enter) (simp add: lock_start_def)
  moreover have "lock_step ?d ?e" by (rule exists) (simp_all add: r)
  moreover have "lock_step ?e ?f" by (rule stale [of _ _ _ 0]) simp_all
  moreover have "lock_step ?f ?g" by (rule enter) (simp add: lock_start_def)
  moreover have "lock_step ?g ?h" by (rule exists) (simp_all add: r)
  moreover have "lock_step ?h ?i" by (rule stale [of _ _ _ 0]) simp_all
  moreover have "lock_step ?i ?j" by (rule rename_away) simp
  moreover have "lock_step ?j ?k" by (rule create [of _ _ "Suc 0"]) (simp_all add: r)
  moreover have "lock_step ?k ?l" by (rule rename_away [of _ _ 0]) simp
  moreover have "lock_step ?l ?m" by (rule create [of _ _ "Suc 0"]) (simp_all add: r)
  ultimately have "lock_or_crash\<^sup>*\<^sup>* lock_start ?m"
    by (meson sup2I1 sup2I2 lock_more rtranclp.rtrancl_refl)
  then show ?thesis by (intro exI [of _ ?m]) simp
qed

text \<open>
  C2: The lock does not always exclude: an operation whose every attempt finds the lock file
  gone again runs without a lock beside one that holds it; and when a process has died with
  the lock, two operations that both find it stale can both come to hold it.
\<close>

theorem lock_not_exclusive:
  "(\<exists>w. lock_step\<^sup>*\<^sup>* lock_start w \<and> lw_phase w 0 = Unguarded \<and> lw_phase w 1 = Holding)
   \<and> (\<exists>w. lock_or_crash\<^sup>*\<^sup>* lock_start w \<and> lw_phase w 1 = Holding \<and> lw_phase w 2 = Holding)"
  using falls_through reclaim_race by (rule conjI)

text \<open>An operation that holds the lock, reached from the start.\<close>

lemma held_world: "lock_step\<^sup>*\<^sup>* lock_start (move 0 Holding (put_file (Some 0) (move 0 (Trying 0) lock_start)))"
proof -
  have "lock_step lock_start (move 0 (Trying 0) lock_start)" by (rule enter) (simp add: lock_start_def)
  moreover have "lock_step (move 0 (Trying 0) lock_start)
      (move 0 Holding (put_file (Some 0) (move 0 (Trying 0) lock_start)))"
    by (rule create [of _ _ 0]) (simp_all add: lock_start_def LOCK_RETRIES_def)
  ultimately show ?thesis by (meson lock_more rtranclp.rtrancl_refl)
qed


end
