(* ===== verification/Router_Gate.thy ===== *)
theory Router_Gate
  imports Prelude
begin

text \<open>
  \<open>src/router/execution/providerConcurrency.ts\<close>: the per-provider concurrency gate. The
  callbacks of a promise are the events of the gate: a call of \<open>acquire\<close>, a call of the
  release function, the timer and the abort signal of a waiter. A waiter is named by a
  number; times and counts are integers.
\<close>

section \<open>State\<close>

record gate_config =
  gc_enabled :: "bool option"
  gc_max :: "int option"
  gc_wait :: "int option"

record slot =
  sl_active :: int
  sl_waiters :: "nat list"

record gate =
  gt_enabled :: bool
  gt_max :: int
  gt_wait :: int
  gt_slots :: "(string, slot) jmap"
  gt_suppressed :: "(string, int) jmap"

definition or_default :: "'a option \<Rightarrow> 'a \<Rightarrow> 'a" where
  "or_default m d = (case m of None \<Rightarrow> d | Some x \<Rightarrow> x)"

definition newGate :: "gate_config \<Rightarrow> gate" where
  "newGate c =
     \<lparr>gt_enabled = or_default (gc_enabled c) False,
      gt_max = max 1 (or_default (gc_max c) 4),
      gt_wait = max 1 (or_default (gc_wait c) 30000),
      gt_slots = [], gt_suppressed = []\<rparr>"

record gate_error =
  ge_provider :: string
  ge_code :: string
  ge_message :: string
  ge_retryable :: bool
  ge_hint :: string

text \<open>\<open>Math.round(waitTimeoutMs / 1000)\<close> rounds halves up.\<close>

definition providerConcurrencyLimitError :: "string \<Rightarrow> int \<Rightarrow> gate_error" where
  "providerConcurrencyLimitError provider wait_ms =
     \<lparr>ge_provider = provider, ge_code = ''provider_concurrency_limit'',
      ge_message = ''Provider '' @ CHR 0x22 # provider @ CHR 0x22 # '' is at its concurrency limit (waited ''
        @ show_int ((wait_ms + 500) div 1000) @ ''s for a free slot).'',
      ge_retryable = True,
      ge_hint = ''Retry shortly, reduce parallel subagents, or raise router.concurrency.maxPerProvider.''\<rparr>"

section \<open>Operations\<close>

definition effectiveCap :: "gate \<Rightarrow> string \<Rightarrow> int \<Rightarrow> int" where
  "effectiveCap g provider now =
     (case jget (gt_suppressed g) provider of
        None \<Rightarrow> gt_max g
      | Some until \<Rightarrow> if until \<le> now then gt_max g else max 1 ((gt_max g + 1) div 2))"

definition recordProviderFeedback ::
  "string \<Rightarrow> string \<Rightarrow> int option \<Rightarrow> int \<Rightarrow> int option \<Rightarrow> gate \<Rightarrow> gate" where
  "recordProviderFeedback provider code retry_after now max_suppression g =
     (if \<not> gt_enabled g then g
      else if code \<noteq> ''rate_limit_error'' \<and> code \<noteq> ''overloaded_error'' then g
      else let window = min (max 1 (or_default retry_after 5000)) (or_default max_suppression 60000)
           in g\<lparr>gt_suppressed := jset provider (now + window) (gt_suppressed g)\<rparr>)"

definition activeCount :: "gate \<Rightarrow> string \<Rightarrow> int" where
  "activeCount g provider = (case jget (gt_slots g) provider of None \<Rightarrow> 0 | Some s \<Rightarrow> sl_active s)"

definition waitingCount :: "gate \<Rightarrow> string \<Rightarrow> nat" where
  "waitingCount g provider = (case jget (gt_slots g) provider of None \<Rightarrow> 0 | Some s \<Rightarrow> length (sl_waiters s))"

definition put_slot :: "string \<Rightarrow> slot \<Rightarrow> gate \<Rightarrow> gate" where
  "put_slot provider s g = g\<lparr>gt_slots := jset provider s (gt_slots g)\<rparr>"

datatype acquire_result =
    Passes        \<comment> \<open>the gate is disabled\<close>
  | Granted
  | Queued
  | Rejected      \<comment> \<open>the signal was already aborted\<close>

definition getOrCreateSlot :: "gate \<Rightarrow> string \<Rightarrow> slot" where
  "getOrCreateSlot g provider =
     (case jget (gt_slots g) provider of None \<Rightarrow> \<lparr>sl_active = 0, sl_waiters = []\<rparr> | Some s \<Rightarrow> s)"

definition acquire :: "string \<Rightarrow> nat \<Rightarrow> bool \<Rightarrow> int \<Rightarrow> gate \<Rightarrow> gate \<times> acquire_result" where
  "acquire provider w aborted now g =
     (if \<not> gt_enabled g then (g, Passes)
      else if aborted then (g, Rejected)
      else let s = getOrCreateSlot g provider in
        if sl_active s < effectiveCap g provider now
        then (put_slot provider (s\<lparr>sl_active := sl_active s + 1\<rparr>) g, Granted)
        else (put_slot provider (s\<lparr>sl_waiters := sl_waiters s @ [w]\<rparr>) g, Queued))"

text \<open>\<open>release\<close> returns the waiter it woke.\<close>

definition release :: "string \<Rightarrow> gate \<Rightarrow> gate \<times> nat option" where
  "release provider g =
     (case jget (gt_slots g) provider of
        None \<Rightarrow> (g, None)
      | Some s \<Rightarrow>
          if sl_active s \<le> 0 then (g, None)
          else (case sl_waiters s of
             w # ws \<Rightarrow> (put_slot provider (s\<lparr>sl_active := sl_active s - 1 + 1, sl_waiters := ws\<rparr>) g, Some w)
           | [] \<Rightarrow>
               if sl_active s - 1 = 0 then (g\<lparr>gt_slots := jdel provider (gt_slots g)\<rparr>, None)
               else (put_slot provider (s\<lparr>sl_active := sl_active s - 1\<rparr>) g, None)))"

text \<open>The timer and the abort listener of a waiter: both only act on one still queued.\<close>

definition withdraw :: "string \<Rightarrow> nat \<Rightarrow> gate \<Rightarrow> gate \<times> bool" where
  "withdraw provider w g =
     (case jget (gt_slots g) provider of
        None \<Rightarrow> (g, False)
      | Some s \<Rightarrow>
          if w \<in> set (sl_waiters s)
          then (put_slot provider (s\<lparr>sl_waiters := remove1 w (sl_waiters s)\<rparr>) g, True)
          else (g, False))"

definition wait_expires :: "string \<Rightarrow> nat \<Rightarrow> gate \<Rightarrow> gate \<times> gate_error option" where
  "wait_expires provider w g =
     (case withdraw provider w g of
        (g', True) \<Rightarrow> (g', Some (providerConcurrencyLimitError provider (gt_wait g)))
      | (g', False) \<Rightarrow> (g', None))"

section \<open>Runs\<close>

datatype gate_event =
    Acquires string nat bool int
  | Releases string
  | Expires string nat
  | Aborts string nat
  | Feedback string string "int option" int "int option"

fun gate_op :: "gate_event \<Rightarrow> gate \<Rightarrow> gate" where
  "gate_op (Acquires p w ab now) g = fst (acquire p w ab now g)"
| "gate_op (Releases p) g = fst (release p g)"
| "gate_op (Expires p w) g = fst (wait_expires p w g)"
| "gate_op (Aborts p w) g = fst (withdraw p w g)"
| "gate_op (Feedback p c r now m) g = recordProviderFeedback p c r now m g"

text \<open>The waiters woken in a run, in order.\<close>

fun woken_by :: "gate_event \<Rightarrow> gate \<Rightarrow> nat list" where
  "woken_by (Releases p) g = (case snd (release p g) of None \<Rightarrow> [] | Some w \<Rightarrow> [w])"
| "woken_by _ g = []"

fun woken :: "gate \<Rightarrow> gate_event list \<Rightarrow> nat list" where
  "woken g [] = []"
| "woken g (e # es) = woken_by e g @ woken (gate_op e g) es"

section \<open>In-flight requests\<close>

definition slot_ok :: "int \<Rightarrow> slot \<Rightarrow> bool" where
  "slot_ok m s \<longleftrightarrow> 1 \<le> sl_active s \<and> sl_active s \<le> m"

definition gate_inv :: "gate \<Rightarrow> bool" where
  "gate_inv g \<longleftrightarrow> 1 \<le> gt_max g \<and> (\<forall>p s. jget (gt_slots g) p = Some s \<longrightarrow> slot_ok (gt_max g) s)"

lemma gate_inv_slot: "gate_inv g \<Longrightarrow> jget (gt_slots g) p = Some s \<Longrightarrow> slot_ok (gt_max g) s"
  by (simp add: gate_inv_def)

lemma cap_bounds: "1 \<le> gt_max g \<Longrightarrow> 1 \<le> effectiveCap g p now \<and> effectiveCap g p now \<le> gt_max g"
  by (auto simp: effectiveCap_def split: option.splits)

lemma put_slot_inv: "gate_inv g \<Longrightarrow> slot_ok (gt_max g) s \<Longrightarrow> gate_inv (put_slot p s g) \<and> gt_max (put_slot p s g) = gt_max g"
  by (auto simp: gate_inv_def put_slot_def)

lemma acquire_inv:
  assumes "gate_inv g"
  shows "gate_inv (fst (acquire p w ab now g)) \<and> gt_max (fst (acquire p w ab now g)) = gt_max g"
proof -
  have m: "1 \<le> gt_max g" using assms by (simp add: gate_inv_def)
  let ?s = "getOrCreateSlot g p"
  have s: "?s = \<lparr>sl_active = 0, sl_waiters = []\<rparr> \<or> slot_ok (gt_max g) ?s"
    using gate_inv_slot [OF assms] by (auto simp: getOrCreateSlot_def split: option.splits)
  show ?thesis
  proof (cases "sl_active ?s < effectiveCap g p now")
    case True
    then have "slot_ok (gt_max g) (?s\<lparr>sl_active := sl_active ?s + 1\<rparr>)"
      using s cap_bounds [OF m, of p now] by (auto simp: slot_ok_def)
    then show ?thesis using True assms put_slot_inv by (simp add: acquire_def Let_def)
  next
    case False
    then have "slot_ok (gt_max g) (?s\<lparr>sl_waiters := sl_waiters ?s @ [w]\<rparr>)"
      using s cap_bounds [OF m, of p now] by (auto simp: slot_ok_def)
    then show ?thesis using False assms put_slot_inv by (simp add: acquire_def Let_def)
  qed
qed

lemma release_inv:
  assumes "gate_inv g"
  shows "gate_inv (fst (release p g)) \<and> gt_max (fst (release p g)) = gt_max g"
proof (cases "jget (gt_slots g) p")
  case None
  then show ?thesis using assms by (simp add: release_def)
next
  case (Some s)
  then have s: "slot_ok (gt_max g) s" using assms gate_inv_slot by blast
  show ?thesis
  proof (cases "sl_waiters s = [] \<and> sl_active s = 1")
    case True
    then show ?thesis using Some assms by (auto simp: release_def gate_inv_def delete_conv' split: if_splits)
  next
    case False
    show ?thesis
    proof (cases "sl_waiters s")
      case Nil
      then have "slot_ok (gt_max g) (s\<lparr>sl_active := sl_active s - 1\<rparr>)" using s False by (auto simp: slot_ok_def)
      from put_slot_inv [OF assms this] show ?thesis using Some Nil False s by (simp add: release_def slot_ok_def)
    next
      case (Cons w ws)
      then have "slot_ok (gt_max g) (s\<lparr>sl_active := sl_active s - 1 + 1, sl_waiters := ws\<rparr>)"
        using s by (simp add: slot_ok_def)
      from put_slot_inv [OF assms this] show ?thesis using Some Cons s by (simp add: release_def slot_ok_def)
    qed
  qed
qed

lemma withdraw_inv:
  assumes "gate_inv g"
  shows "gate_inv (fst (withdraw p w g)) \<and> gt_max (fst (withdraw p w g)) = gt_max g"
proof (cases "jget (gt_slots g) p")
  case (Some s)
  then have "slot_ok (gt_max g) (s\<lparr>sl_waiters := remove1 w (sl_waiters s)\<rparr>)"
    using gate_inv_slot [OF assms Some] by (simp add: slot_ok_def)
  then show ?thesis using Some assms put_slot_inv by (simp add: withdraw_def)
qed (use assms in \<open>simp add: withdraw_def\<close>)

lemma wait_expires_gate: "fst (wait_expires p w g) = fst (withdraw p w g)"
  by (simp add: wait_expires_def split: prod.split bool.split)

lemma gate_op_inv: "gate_inv g \<Longrightarrow> gate_inv (gate_op e g) \<and> gt_max (gate_op e g) = gt_max g"
  by (cases e) (simp_all add: acquire_inv release_inv withdraw_inv wait_expires_gate,
      simp add: recordProviderFeedback_def gate_inv_def Let_def)

interpretation gates: machine "newGate c" "\<lambda>e g. (Inr (gate_op e g) :: unit + gate)" "\<lambda>_. True"
  "\<lambda>g. gate_inv g \<and> gt_max g = gt_max (newGate c)" for c
  by unfold_locales (auto simp: gate_op_inv, simp add: gate_inv_def newGate_def)

definition gate_run :: "gate_config \<Rightarrow> gate_event list \<Rightarrow> gate" where
  "gate_run c es = foldl (\<lambda>g e. gate_op e g) (newGate c) es"

lemma gate_run_inv: "gate_inv (gate_run c es) \<and> gt_max (gate_run c es) = gt_max (newGate c)"
proof -
  have "gates.after = (\<lambda>g e. gate_op e g)" by (intro ext) (simp add: gates.after_def)
  then show ?thesis using gates.run_inv [of es c] by (simp add: gate_run_def list_all_iff)
qed


section \<open>Waiters\<close>

definition waiting :: "gate \<Rightarrow> string \<Rightarrow> nat list" where
  "waiting g p = (case jget (gt_slots g) p of None \<Rightarrow> [] | Some s \<Rightarrow> sl_waiters s)"

fun release_of :: "string \<Rightarrow> gate_event \<Rightarrow> bool" where
  "release_of p (Releases q) \<longleftrightarrow> q = p"
| "release_of p _ \<longleftrightarrow> False"

fun withdraws :: "string \<Rightarrow> nat \<Rightarrow> gate_event \<Rightarrow> bool" where
  "withdraws p w (Expires q v) \<longleftrightarrow> q = p \<and> v = w"
| "withdraws p w (Aborts q v) \<longleftrightarrow> q = p \<and> v = w"
| "withdraws p w _ \<longleftrightarrow> False"

lemma waiting_release_other: "q \<noteq> p \<Longrightarrow> waiting (fst (release q g)) p = waiting g p"
  by (auto simp: waiting_def release_def put_slot_def delete_conv' split: option.splits list.splits)

lemma waiting_withdraw:
  "waiting (fst (withdraw q v g)) p = (if q = p then remove1 v (waiting g p) else waiting g p)"
  by (auto simp: waiting_def withdraw_def put_slot_def remove1_idem split: option.splits)

lemma waiting_acquire: "\<exists>zs. waiting (fst (acquire q v ab now g)) p = waiting g p @ zs"
  by (auto simp: waiting_def acquire_def put_slot_def getOrCreateSlot_def Let_def split: option.splits)

lemma waiting_feedback: "waiting (recordProviderFeedback q c r now m g) p = waiting g p"
  by (simp add: waiting_def recordProviderFeedback_def Let_def)

lemma release_wakes:
  assumes "gate_inv g" "waiting g p = w # ws"
  shows "snd (release p g) = Some w \<and> waiting (fst (release p g)) p = ws
    \<and> activeCount (fst (release p g)) p = activeCount g p"
proof -
  from assms(2) obtain s where s: "jget (gt_slots g) p = Some s" "sl_waiters s = w # ws"
    by (auto simp: waiting_def split: option.splits)
  then have "1 \<le> sl_active s" using gate_inv_slot [OF assms(1)] by (simp add: slot_ok_def)
  then show ?thesis using s by (simp add: release_def waiting_def activeCount_def put_slot_def)
qed

lemma remove1_before:
  "v \<noteq> w \<Longrightarrow> \<exists>xs' ys'. remove1 v (xs @ w # ys) = xs' @ w # ys' \<and> length xs' \<le> length xs"
  by (cases "v \<in> set xs") (auto simp: remove1_append length_remove1)

text \<open>One event moves a waiter at most one place, forwards, or wakes it.\<close>

lemma event_keeps_waiter:
  assumes "gate_inv g" "waiting g p = xs @ w # ys" "\<not> withdraws p w e"
  obtains (woken) "release_of p e" "xs = []" "woken_by e g = [w]"
  | (moved) xs' ys' where "waiting (gate_op e g) p = xs' @ w # ys'"
      "length xs' + (if release_of p e then 1 else 0) \<le> length xs"
proof (cases e)
  case (Acquires q v ab now)
  then show ?thesis using moved [of xs] waiting_acquire [of q v ab now g p] assms(2) by auto
next
  case (Feedback q c r now m)
  then show ?thesis using moved [of xs ys] assms(2) by (simp add: waiting_feedback)
next
  case (Expires q v)
  show ?thesis
  proof (cases "q = p")
    case True
    then have "v \<noteq> w" using Expires assms(3) by simp
    then obtain xs' ys' where "remove1 v (xs @ w # ys) = xs' @ w # ys'" "length xs' \<le> length xs"
      using remove1_before [of v w xs ys] by blast
    then show ?thesis by (intro moved [of xs' ys']) (simp_all add: assms(2) Expires True wait_expires_gate waiting_withdraw)
  next
    case False
    then show ?thesis by (intro moved [of xs ys]) (simp_all add: assms(2) Expires wait_expires_gate waiting_withdraw)
  qed
next
  case (Aborts q v)
  show ?thesis
  proof (cases "q = p")
    case True
    then have "v \<noteq> w" using Aborts assms(3) by simp
    then obtain xs' ys' where "remove1 v (xs @ w # ys) = xs' @ w # ys'" "length xs' \<le> length xs"
      using remove1_before [of v w xs ys] by blast
    then show ?thesis by (intro moved [of xs' ys']) (simp_all add: assms(2) Aborts True waiting_withdraw)
  next
    case False
    then show ?thesis by (intro moved [of xs ys]) (simp_all add: assms(2) Aborts waiting_withdraw)
  qed
next
  case (Releases q)
  show ?thesis
  proof (cases "q = p")
    case False
    then show ?thesis using moved [of xs ys] assms(2) Releases by (simp add: waiting_release_other)
  next
    case True
    show ?thesis
    proof (cases xs)
      case Nil
      then show ?thesis using woken release_wakes [OF assms(1)] assms(2) Releases True by simp
    next
      case (Cons x xs')
      then show ?thesis using moved [of xs' ys] release_wakes [OF assms(1)] assms(2) Releases True by simp
    qed
  qed
qed

text \<open>
  C20: A waiter is served: if its timer and its signal stay silent, then the run in which
  its provider is released more often than there are waiters before it wakes it, whatever
  else happens in between.
\<close>

theorem waiters_served:
  assumes "waiting (gate_run c es0) p = xs @ w # ys" "\<forall>e \<in> set es. \<not> withdraws p w e"
    "length xs < length (filter (release_of p) es)"
  shows "w \<in> set (woken (gate_run c es0) es)"
proof -
  have "gate_inv g \<Longrightarrow> waiting g p = xs @ w # ys \<Longrightarrow> \<forall>e \<in> set es. \<not> withdraws p w e \<Longrightarrow>
      length xs < length (filter (release_of p) es) \<Longrightarrow> w \<in> set (woken g es)" for g
  proof (induction es arbitrary: g xs ys)
    case (Cons e es)
    have inv: "gate_inv (gate_op e g)" using gate_op_inv [OF Cons.prems(1)] by blast
    from Cons.prems(3) have ne: "\<not> withdraws p w e" by simp
    from Cons.prems(1,2) ne show ?case
    proof (cases rule: event_keeps_waiter)
      case woken
      then show ?thesis by simp
    next
      case (moved xs' ys')
      then have "length xs' < length (filter (release_of p) es)"
        using Cons.prems(4) by (auto split: if_splits)
      from Cons.IH [OF inv moved(1) _ this] Cons.prems(3) show ?thesis by simp
    qed
  qed simp
  then show ?thesis using assms gate_run_inv by blast
qed

text \<open>
  C3: A release that finds a waiter hands the slot over whatever the effective cap is: the
  number of requests in flight stays as it was, also while feedback of the provider has
  halved the cap below it.
\<close>

theorem release_ignores_cap:
  assumes "waiting (gate_run c es) p = w # ws"
  shows "activeCount (fst (release p (gate_run c es))) p = activeCount (gate_run c es) p"
  using release_wakes [OF _ assms] gate_run_inv by blast

definition busy_config :: gate_config where
  "busy_config = \<lparr>gc_enabled = Some True, gc_max = Some 4, gc_wait = None\<rparr>"

definition busy_events :: "gate_event list" where
  "busy_events = map (\<lambda>w. Acquires ''p'' w False 0) [1, 2, 3, 4, 5, 6]
     @ [Feedback ''p'' ''rate_limit_error'' None 0 None]"

lemma busy_waiting: "waiting (gate_run busy_config busy_events) ''p'' = [5, 6]"
  by code_simp

lemma release_ignores_cap_witness:
  "activeCount (fst (release ''p'' (gate_run busy_config busy_events))) ''p'' = 4
   \<and> effectiveCap (gate_run busy_config busy_events) ''p'' 0 = 2"
proof -
  have "activeCount (gate_run busy_config busy_events) ''p'' = 4"
    "effectiveCap (gate_run busy_config busy_events) ''p'' 0 = 2" by code_simp+
  then show ?thesis using release_ignores_cap [OF busy_waiting] by simp
qed

lemma waiters_served_witness:
  "6 \<in> set (woken (gate_run busy_config busy_events) [Releases ''p'', Acquires ''p'' 7 False 1, Releases ''p''])"
  by (rule waiters_served [of _ _ "''p''" "[5]" _ "[]"]) (simp_all add: busy_waiting)

text \<open>A newcomer overtakes those who wait once the suppression has ended.\<close>

lemma newcomer_overtakes:
  "snd (acquire ''p'' 9 False 5000 (gate_run busy_config
     (Feedback ''p'' ''rate_limit_error'' None 0 None # map (\<lambda>w. Acquires ''p'' w False 0) [1, 2, 3]))) = Granted"
  by code_simp

end
