(* ===== verification/Router_Health.thy ===== *)
theory Router_Health
  imports Complex_Main Prelude
begin

text \<open>
  \<open>src/router/health/ProviderHealthTracker.ts\<close>: the circuit breaker of the router. Times are
  integers, the failure ratio is a rational number, and the clock does not move within one
  synchronous call. A query may change the state (an open circuit turns half-open when its
  time is over), so every operation returns the records.
\<close>

section \<open>State\<close>

datatype health_state = Healthy | Degraded | Opened | Half_open

record provider_record =
  hr_state :: health_state
  hr_failures :: nat
  hr_opened :: int
  hr_window :: "bool list"
  hr_opens :: nat
  hr_good :: nat
  hr_bad :: nat

record health_options =
  ho_degrade :: "int option"
  ho_open :: "int option"
  ho_duration :: "int option"
  ho_max :: "int option"
  ho_window :: "int option"
  ho_probes :: "int option"
  ho_ratio :: "rat option"

record health_config =
  hc_degrade :: int
  hc_open :: int
  hc_duration :: int
  hc_max :: int
  hc_window :: int
  hc_probes :: int
  hc_ratio :: rat

definition value_or :: "'a option \<Rightarrow> 'a \<Rightarrow> 'a" where
  "value_or m d = (case m of None \<Rightarrow> d | Some x \<Rightarrow> x)"

definition newTracker :: "health_options \<Rightarrow> health_config" where
  "newTracker o' =
     \<lparr>hc_degrade = value_or (ho_degrade o') 3, hc_open = value_or (ho_open o') 5,
      hc_duration = value_or (ho_duration o') 30000, hc_max = value_or (ho_max o') 300000,
      hc_window = value_or (ho_window o') 20, hc_probes = max 1 (value_or (ho_probes o') 3),
      hc_ratio = value_or (ho_ratio o') (1 / 2)\<rparr>"

type_synonym health = "(string, provider_record) jmap"

definition fresh_record :: provider_record where
  "fresh_record = \<lparr>hr_state = Healthy, hr_failures = 0, hr_opened = 0, hr_window = [], hr_opens = 0,
     hr_good = 0, hr_bad = 0\<rparr>"

definition record_of :: "string \<Rightarrow> health \<Rightarrow> provider_record" where
  "record_of p m = (case jget m p of None \<Rightarrow> fresh_record | Some r \<Rightarrow> r)"

section \<open>Transitions of a record\<close>

definition effectiveOpenDurationMs :: "health_config \<Rightarrow> provider_record \<Rightarrow> int" where
  "effectiveOpenDurationMs c r = min (hc_duration c * 2 ^ (hr_opens r - 1)) (hc_max c)"

definition maybeTransitionToHalfOpen :: "health_config \<Rightarrow> int \<Rightarrow> provider_record \<Rightarrow> provider_record" where
  "maybeTransitionToHalfOpen c now r =
     (if hr_state r = Opened \<and> effectiveOpenDurationMs c r \<le> now - hr_opened r
      then r\<lparr>hr_state := Half_open, hr_good := 0, hr_bad := 0\<rparr> else r)"

definition probeWindowComplete :: "health_config \<Rightarrow> provider_record \<Rightarrow> bool" where
  "probeWindowComplete c r \<longleftrightarrow> hc_probes c \<le> int (hr_good r + hr_bad r)"

definition open_circuit :: "int \<Rightarrow> provider_record \<Rightarrow> provider_record" where
  "open_circuit now r =
     (if hr_state r \<noteq> Opened then r\<lparr>hr_state := Opened, hr_opened := now, hr_opens := hr_opens r + 1\<rparr> else r)"

definition resolveProbeWindow :: "health_config \<Rightarrow> int \<Rightarrow> provider_record \<Rightarrow> provider_record" where
  "resolveProbeWindow c now r =
     (let total = hr_good r + hr_bad r;
          ratio = (if 0 < total then rat_of_nat (hr_bad r) / rat_of_nat total else 0);
          r' = (if hc_ratio c \<le> ratio then open_circuit now r else r\<lparr>hr_state := Healthy, hr_opens := 0\<rparr>)
      in r'\<lparr>hr_good := 0, hr_bad := 0\<rparr>)"

definition push_result :: "health_config \<Rightarrow> bool \<Rightarrow> provider_record \<Rightarrow> provider_record" where
  "push_result c b r =
     (let w = hr_window r @ [b] in r\<lparr>hr_window := (if hc_window c < int (length w) then tl w else w)\<rparr>)"

definition success_record :: "health_config \<Rightarrow> int \<Rightarrow> provider_record \<Rightarrow> provider_record" where
  "success_record c now r0 =
     (let r = push_result c True ((maybeTransitionToHalfOpen c now r0)\<lparr>hr_failures := 0\<rparr>) in
      if hr_state r = Half_open then
        let r' = r\<lparr>hr_good := hr_good r + 1\<rparr> in
        if probeWindowComplete c r' then resolveProbeWindow c now r' else r'
      else if hr_state r = Degraded \<or> hr_state r = Opened then r\<lparr>hr_state := Healthy\<rparr>
      else r)"

definition STRESS_CODES :: "string set" where
  "STRESS_CODES = {''rate_limit_error'', ''overloaded_error''}"

definition stress_step :: "string option \<Rightarrow> provider_record \<Rightarrow> provider_record" where
  "stress_step code r =
     (case code of None \<Rightarrow> r
      | Some e \<Rightarrow> if e \<in> STRESS_CODES \<and> hr_state r = Healthy then r\<lparr>hr_state := Degraded\<rparr> else r)"

definition failure_record ::
  "health_config \<Rightarrow> int \<Rightarrow> string option \<Rightarrow> provider_record \<Rightarrow> provider_record" where
  "failure_record c now code r0 =
     (let r1 = maybeTransitionToHalfOpen c now r0;
          r = push_result c False (r1\<lparr>hr_failures := hr_failures r1 + 1\<rparr>) in
      if hr_state r = Half_open then
        let r' = r\<lparr>hr_bad := hr_bad r + 1\<rparr> in
        if probeWindowComplete c r' then resolveProbeWindow c now r' else r'
      else
        let s = stress_step code r in
        if hc_open c \<le> int (hr_failures s) then open_circuit now s
        else if hc_degrade c \<le> int (hr_failures s) \<and> hr_state s = Healthy then s\<lparr>hr_state := Degraded\<rparr>
        else s)"

section \<open>Operations\<close>

definition recordSuccess :: "health_config \<Rightarrow> int \<Rightarrow> string \<Rightarrow> health \<Rightarrow> health" where
  "recordSuccess c now p m = jset p (success_record c now (record_of p m)) m"

definition recordFailure :: "health_config \<Rightarrow> int \<Rightarrow> string \<Rightarrow> string option \<Rightarrow> health \<Rightarrow> health" where
  "recordFailure c now p code m = jset p (failure_record c now code (record_of p m)) m"

definition getState :: "health_config \<Rightarrow> int \<Rightarrow> string \<Rightarrow> health \<Rightarrow> health \<times> health_state" where
  "getState c now p m =
     (case jget m p of None \<Rightarrow> (m, Healthy)
      | Some r \<Rightarrow> let r' = maybeTransitionToHalfOpen c now r in (jset p r' m, hr_state r'))"

definition shouldSkip :: "health_config \<Rightarrow> int \<Rightarrow> string \<Rightarrow> health \<Rightarrow> health \<times> bool" where
  "shouldSkip c now p m =
     (case getState c now p m of (m', s) \<Rightarrow>
        (m', if s = Opened then True
             else if s = Half_open then probeWindowComplete c (record_of p m') else False))"

definition isAvailable :: "health_config \<Rightarrow> int \<Rightarrow> string \<Rightarrow> health \<Rightarrow> health \<times> bool" where
  "isAvailable c now p m = (case shouldSkip c now p m of (m', b) \<Rightarrow> (m', \<not> b))"

definition getSuccessRate :: "string \<Rightarrow> health \<Rightarrow> rat" where
  "getSuccessRate p m =
     (case jget m p of None \<Rightarrow> 1
      | Some r \<Rightarrow> if hr_window r = [] then 1
                 else rat_of_nat (length (filter id (hr_window r))) / rat_of_nat (length (hr_window r)))"

definition snapshot_health :: "health \<Rightarrow> (string, health_state \<times> nat \<times> nat) jmap" where
  "snapshot_health m = map (\<lambda>(p, r). (p, (hr_state r, hr_failures r, hr_opens r))) m"

definition reset_provider :: "string \<Rightarrow> health \<Rightarrow> health" where
  "reset_provider p m = jdel p m"

definition resetAll :: "health \<Rightarrow> health" where
  "resetAll m = []"

datatype health_event =
    Succeeds int string
  | Fails int string "string option"
  | Asks int string
  | Resets string
  | Resets_all

fun health_op :: "health_config \<Rightarrow> health_event \<Rightarrow> health \<Rightarrow> health" where
  "health_op c (Succeeds now p) m = recordSuccess c now p m"
| "health_op c (Fails now p code) m = recordFailure c now p code m"
| "health_op c (Asks now p) m = fst (getState c now p m)"
| "health_op c (Resets p) m = reset_provider p m"
| "health_op c Resets_all m = resetAll m"

definition health_run :: "health_options \<Rightarrow> health_event list \<Rightarrow> health" where
  "health_run o' es = foldl (\<lambda>m e. health_op (newTracker o') e m) [] es"

section \<open>What every record keeps\<close>

definition record_ok :: "health_config \<Rightarrow> provider_record \<Rightarrow> bool" where
  "record_ok c r \<longleftrightarrow> (hr_state r = Half_open \<longrightarrow> \<not> probeWindowComplete c r)
     \<and> int (length (hr_window r)) \<le> max 0 (hc_window c)
     \<and> (hr_state r = Opened \<longrightarrow> 0 < hr_opens r)"

definition health_inv :: "health_config \<Rightarrow> health \<Rightarrow> bool" where
  "health_inv c m \<longleftrightarrow> (\<forall>p r. jget m p = Some r \<longrightarrow> record_ok c r)"

lemma half_open_ok: "1 \<le> hc_probes c \<Longrightarrow> record_ok c r \<Longrightarrow> record_ok c (maybeTransitionToHalfOpen c now r)"
  by (simp add: record_ok_def maybeTransitionToHalfOpen_def probeWindowComplete_def)

lemma push_simps [simp]:
  "hr_state (push_result c b r) = hr_state r" "hr_opens (push_result c b r) = hr_opens r"
  "hr_good (push_result c b r) = hr_good r" "hr_bad (push_result c b r) = hr_bad r"
  "hr_failures (push_result c b r) = hr_failures r" "hr_opened (push_result c b r) = hr_opened r"
  by (simp_all add: push_result_def Let_def)

lemma push_window: "int (length (hr_window r)) \<le> max 0 w \<Longrightarrow> hc_window c = w \<Longrightarrow>
    int (length (hr_window (push_result c b r))) \<le> max 0 w"
  by (auto simp: push_result_def Let_def)

lemma resolved_ok:
  "1 \<le> hc_probes c \<Longrightarrow> int (length (hr_window r)) \<le> max 0 (hc_window c) \<Longrightarrow> hr_state r = Half_open \<Longrightarrow>
     record_ok c (resolveProbeWindow c now r)"
  by (simp add: record_ok_def resolveProbeWindow_def Let_def open_circuit_def probeWindowComplete_def)

lemma success_ok:
  assumes "1 \<le> hc_probes c" "record_ok c r"
  shows "record_ok c (success_record c now r)"
proof -
  let ?r = "push_result c True ((maybeTransitionToHalfOpen c now r)\<lparr>hr_failures := 0\<rparr>)"
  have m: "record_ok c (maybeTransitionToHalfOpen c now r)" using assms by (rule half_open_ok)
  then have w: "int (length (hr_window ?r)) \<le> max 0 (hc_window c)"
    by (intro push_window) (simp_all add: record_ok_def)
  have r: "record_ok c ?r" using m w by (auto simp: record_ok_def probeWindowComplete_def)
  show ?thesis
  proof (cases "hr_state ?r = Half_open \<and> probeWindowComplete c (?r\<lparr>hr_good := hr_good ?r + 1\<rparr>)")
    case True
    then have "record_ok c (resolveProbeWindow c now (?r\<lparr>hr_good := hr_good ?r + 1\<rparr>))"
      using w by (intro resolved_ok [OF assms(1)]) simp_all
    then show ?thesis using True by (simp add: success_record_def Let_def)
  next
    case False
    then show ?thesis using r w by (auto simp: success_record_def Let_def record_ok_def probeWindowComplete_def)
  qed
qed

lemma stress_simps [simp]:
  "hr_failures (stress_step code r) = hr_failures r" "hr_window (stress_step code r) = hr_window r"
  "hr_opens (stress_step code r) = hr_opens r" "hr_state (stress_step code r) = Half_open \<longleftrightarrow> hr_state r = Half_open"
  "hr_state (stress_step code r) = Opened \<longleftrightarrow> hr_state r = Opened" "hr_opened (stress_step code r) = hr_opened r"
  by (auto simp: stress_step_def split: option.split)

lemma failure_ok:
  assumes "1 \<le> hc_probes c" "record_ok c r"
  shows "record_ok c (failure_record c now code r)"
proof -
  let ?m = "maybeTransitionToHalfOpen c now r"
  let ?r = "push_result c False (?m\<lparr>hr_failures := hr_failures ?m + 1\<rparr>)"
  have m: "record_ok c ?m" using assms by (rule half_open_ok)
  then have w: "int (length (hr_window ?r)) \<le> max 0 (hc_window c)"
    by (intro push_window) (simp_all add: record_ok_def)
  show ?thesis
  proof (cases "hr_state ?r = Half_open")
    case True
    show ?thesis
    proof (cases "probeWindowComplete c (?r\<lparr>hr_bad := hr_bad ?r + 1\<rparr>)")
      case c: True
      then have "record_ok c (resolveProbeWindow c now (?r\<lparr>hr_bad := hr_bad ?r + 1\<rparr>))"
        using w True by (intro resolved_ok [OF assms(1)]) simp_all
      then show ?thesis using True c by (simp add: failure_record_def Let_def)
    next
      case False
      then show ?thesis using True w by (simp add: failure_record_def Let_def record_ok_def)
    qed
  next
    case False
    then show ?thesis using m w by (auto simp: failure_record_def Let_def record_ok_def open_circuit_def)
  qed
qed

lemma record_of_ok: "health_inv c m \<Longrightarrow> record_ok c (record_of p m)"
  by (auto simp: health_inv_def record_of_def record_ok_def fresh_record_def split: option.split)

lemma jset_inv: "health_inv c m \<Longrightarrow> record_ok c r \<Longrightarrow> health_inv c (jset p r m)"
  by (auto simp: health_inv_def)

lemma health_op_inv:
  assumes "1 \<le> hc_probes c" "health_inv c m"
  shows "health_inv c (health_op c e m)"
proof (cases e)
  case (Succeeds now p)
  then show ?thesis using assms by (simp add: recordSuccess_def jset_inv success_ok record_of_ok)
next
  case (Fails now p code)
  then show ?thesis using assms by (simp add: recordFailure_def jset_inv failure_ok record_of_ok)
next
  case (Asks now p)
  then show ?thesis
    using assms half_open_ok by (auto simp: getState_def Let_def health_inv_def split: option.split)
next
  case (Resets p)
  then show ?thesis using assms by (auto simp: reset_provider_def health_inv_def delete_conv')
qed (simp add: resetAll_def health_inv_def)

interpretation tracker: machine "[]" "\<lambda>e m. (Inr (health_op (newTracker o') e m) :: unit + health)"
  "\<lambda>_. True" "health_inv (newTracker o')" for o'
proof unfold_locales
  show "health_inv (newTracker o') []" by (simp add: health_inv_def)
  have "1 \<le> hc_probes (newTracker o')" by (simp add: newTracker_def)
  then show "health_inv (newTracker o') m \<Longrightarrow> True \<Longrightarrow> Inr (health_op (newTracker o') x m) = (Inr m' :: unit + health) \<Longrightarrow>
      health_inv (newTracker o') m'" for m x m'
    using health_op_inv by auto
qed

lemma health_run_inv: "health_inv (newTracker o') (health_run o' es)"
proof -
  have "tracker.after o' = (\<lambda>m e. health_op (newTracker o') e m)" by (intro ext) (simp add: tracker.after_def)
  then show ?thesis using tracker.run_inv [of es o'] by (simp add: health_run_def list_all_iff)
qed

section \<open>The circuit\<close>

text \<open>
  The probe budget of a half-open circuit never holds a request back: in every state the
  tracker can reach, a provider is skipped exactly when its circuit is open.
\<close>

lemma half_open_never_blocks:
  "snd (shouldSkip (newTracker o') now p (health_run o' es)) \<longleftrightarrow>
     snd (getState (newTracker o') now p (health_run o' es)) = Opened"
proof (cases "jget (health_run o' es) p")
  case None
  then show ?thesis by (simp add: shouldSkip_def getState_def)
next
  case (Some r)
  have "record_ok (newTracker o') r" using health_run_inv Some by (simp add: health_inv_def)
  moreover have "1 \<le> hc_probes (newTracker o')" by (simp add: newTracker_def)
  ultimately have "record_ok (newTracker o') (maybeTransitionToHalfOpen (newTracker o') now r)"
    by (intro half_open_ok)
  then show ?thesis
    using Some by (auto simp: shouldSkip_def getState_def Let_def record_of_def record_ok_def)
qed

text \<open>The moment an open circuit turns half-open.\<close>

definition open_until :: "health_config \<Rightarrow> provider_record \<Rightarrow> int" where
  "open_until c r = hr_opened r + effectiveOpenDurationMs c r"

text \<open>Events that leave an open circuit of \<open>p\<close> alone until \<open>d\<close>.\<close>

fun quiet_until :: "string \<Rightarrow> int \<Rightarrow> health_event \<Rightarrow> bool" where
  "quiet_until p d (Succeeds now q) \<longleftrightarrow> q \<noteq> p"
| "quiet_until p d (Fails now q _) \<longleftrightarrow> q \<noteq> p \<or> now < d"
| "quiet_until p d (Asks now q) \<longleftrightarrow> q \<noteq> p \<or> now < d"
| "quiet_until p d (Resets q) \<longleftrightarrow> q \<noteq> p"
| "quiet_until p d Resets_all \<longleftrightarrow> False"

definition open_at :: "health_config \<Rightarrow> string \<Rightarrow> int \<Rightarrow> health \<Rightarrow> bool" where
  "open_at c p d m \<longleftrightarrow> (\<exists>r. jget m p = Some r \<and> hr_state r = Opened \<and> open_until c r = d)"

lemma early_transition: "hr_state r = Opened \<Longrightarrow> now < open_until c r \<Longrightarrow> maybeTransitionToHalfOpen c now r = r"
  by (simp add: maybeTransitionToHalfOpen_def open_until_def)

lemma failure_keeps_open:
  assumes "hr_state r = Opened" "now < open_until c r"
  shows "hr_state (failure_record c now code r) = Opened \<and> open_until c (failure_record c now code r) = open_until c r"
proof -
  let ?r = "stress_step code (push_result c False (r\<lparr>hr_failures := hr_failures r + 1\<rparr>))"
  have s: "hr_state ?r = Opened" using assms(1) by simp
  have "failure_record c now code r = ?r"
    unfolding failure_record_def Let_def early_transition [OF assms] open_circuit_def s using assms(1) by simp
  moreover have "hr_opened ?r = hr_opened r" "hr_opens ?r = hr_opens r" by simp_all
  ultimately show ?thesis using s by (simp add: open_until_def effectiveOpenDurationMs_def)
qed

lemma quiet_step:
  assumes "open_at c p d m" "quiet_until p d e"
  shows "open_at c p d (health_op c e m)"
proof (cases e)
  case (Fails now q code)
  then show ?thesis
    using assms failure_keeps_open by (cases "q = p") (auto simp: open_at_def recordFailure_def record_of_def)
next
  case (Asks now q)
  then show ?thesis
    using assms early_transition by (cases "q = p") (auto simp: open_at_def getState_def Let_def split: option.splits)
qed (use assms in \<open>auto simp: open_at_def recordSuccess_def reset_provider_def delete_conv'\<close>)

definition health_after :: "health_config \<Rightarrow> health \<Rightarrow> health_event list \<Rightarrow> health" where
  "health_after c m es = foldl (\<lambda>m e. health_op c e m) m es"

text \<open>
  An open circuit stays open until its time is over, whatever fails meanwhile and
  whatever happens to other providers: before that moment the provider is skipped, from
  then on it is half-open and lets requests through.
\<close>

lemma open_until_deadline:
  assumes "open_at c p d m" "\<forall>e \<in> set es. quiet_until p d e" "1 \<le> hc_probes c"
  shows "(if now < d then snd (shouldSkip c now p (health_after c m es))
          else snd (getState c now p (health_after c m es)) = Half_open
            \<and> \<not> snd (shouldSkip c now p (health_after c m es)))"
proof -
  let ?m = "health_after c m es"
  have "open_at c p d ?m"
    unfolding health_after_def using assms(1,2) by (induction es arbitrary: m) (simp_all add: quiet_step)
  then obtain r where r: "jget ?m p = Some r" "hr_state r = Opened" "open_until c r = d"
    by (auto simp: open_at_def)
  show ?thesis
  proof (cases "now < d")
    case True
    then show ?thesis using r early_transition [of r now c] by (simp add: shouldSkip_def getState_def Let_def)
  next
    case False
    then have "maybeTransitionToHalfOpen c now r = r\<lparr>hr_state := Half_open, hr_good := 0, hr_bad := 0\<rparr>"
      using r by (simp add: maybeTransitionToHalfOpen_def open_until_def)
    then show ?thesis
      using False r assms(3) by (simp add: shouldSkip_def getState_def Let_def record_of_def probeWindowComplete_def)
  qed
qed

text \<open>
  A success that arrives while the circuit is open, from a request sent before, closes it at
  once; the number of openings, and with it the next waiting time, is kept.
\<close>

lemma late_success_closes:
  assumes "hr_state r = Opened" "now < open_until c r"
  shows "hr_state (success_record c now r) = Healthy \<and> hr_opens (success_record c now r) = hr_opens r"
  using assms by (simp add: success_record_def early_transition Let_def)

text \<open>The rate of successes is a share.\<close>

lemma success_rate_bounds: "0 \<le> getSuccessRate p m \<and> getSuccessRate p m \<le> 1"
  by (auto simp: getSuccessRate_def divide_le_eq_1 split: option.split)

definition default_options :: health_options where
  "default_options = \<lparr>ho_degrade = None, ho_open = None, ho_duration = None, ho_max = None, ho_window = None,
     ho_probes = None, ho_ratio = None\<rparr>"

definition five_failures :: health where
  "five_failures = health_run default_options (replicate 5 (Fails 100 ''p'' None))"

lemma five_failures_open: "open_at (newTracker default_options) ''p'' 30100 five_failures"
  unfolding open_at_def five_failures_def health_run_def
  by (simp add: default_options_def newTracker_def value_or_def eval_nat_numeral recordFailure_def record_of_def
      fresh_record_def failure_record_def maybeTransitionToHalfOpen_def push_result_def stress_step_def
      open_circuit_def open_until_def effectiveOpenDurationMs_def Let_def)

lemma open_until_deadline_witness:
  "snd (shouldSkip (newTracker default_options) 30099 ''p'' five_failures)
   \<and> snd (getState (newTracker default_options) 30100 ''p'' five_failures) = Half_open"
  using open_until_deadline [OF five_failures_open, of "[]" 30099] open_until_deadline [OF five_failures_open, of "[]" 30100]
  by (simp add: default_options_def newTracker_def value_or_def health_after_def)

end
