(* ===== verification/Router_Retry.thy ===== *)
theory Router_Retry
  imports Prelude
begin

text \<open>
  What the router's executor is built from: model events and errors
  (\<open>src/model/protocol\<close>), \<open>src/router/retry/zeroUsageRetry.ts\<close>,
  \<open>fallback/runFallbackChain.ts\<close>, the planning of attempts of
  \<open>execution/attemptPlanning.ts\<close> and the error classes of \<open>execution/errors.ts\<close>.
  Fields the router passes through unread (raw payloads, signatures, status codes) are left
  out of events and errors.
\<close>

section \<open>Events and errors\<close>

record model_ref =
  mf_id :: string
  mf_provider :: string
  mf_model :: string

record model_error =
  me_provider :: string
  me_model :: "string option"
  me_code :: string
  me_message :: string
  me_retryable :: bool
  me_compact :: bool
  me_image_strip :: bool
  me_retry_after :: "int option"
  me_hint :: "string option"

record model_usage =
  us_input :: "int option"
  us_output :: "int option"
  us_cache_read :: "int option"
  us_cache_write :: "int option"
  us_total :: "int option"

datatype finish_reason = Stop_finish | Length_finish | Tool_finish | Filter_finish | Error_finish | Unknown_finish

datatype model_event =
    Request_started string string
  | Message_start
  | Text_delta string
  | Thinking_delta string
  | Tool_call_start string string
  | Tool_call_delta string string
  | Tool_call_end string
  | Message_end finish_reason
  | Usage_event model_usage
  | Error_event model_error

fun isContentEvent :: "model_event \<Rightarrow> bool" where
  "isContentEvent (Text_delta _) \<longleftrightarrow> True"
| "isContentEvent (Thinking_delta _) \<longleftrightarrow> True"
| "isContentEvent (Tool_call_start _ _) \<longleftrightarrow> True"
| "isContentEvent (Tool_call_delta _ _) \<longleftrightarrow> True"
| "isContentEvent (Tool_call_end _) \<longleftrightarrow> True"
| "isContentEvent _ \<longleftrightarrow> False"

fun is_error_event :: "model_event \<Rightarrow> bool" where
  "is_error_event (Error_event _) \<longleftrightarrow> True"
| "is_error_event _ \<longleftrightarrow> False"

fun delta_text :: "model_event \<Rightarrow> string" where
  "delta_text (Text_delta t) = t"
| "delta_text _ = []"

definition extractPartialText :: "model_event list \<Rightarrow> string" where
  "extractPartialText buffered = concat (map delta_text buffered)"

section \<open>Empty responses\<close>

record zero_usage_state =
  zu_text :: bool
  zu_finish :: bool
  zu_usage :: "model_usage option"
  zu_error :: bool

definition createZeroUsageState :: zero_usage_state where
  "createZeroUsageState = \<lparr>zu_text = False, zu_finish = False, zu_usage = None, zu_error = False\<rparr>"

fun observeEventForZeroUsage :: "zero_usage_state \<Rightarrow> model_event \<Rightarrow> zero_usage_state" where
  "observeEventForZeroUsage s (Text_delta t) = (if 0 < length t then s\<lparr>zu_text := True\<rparr> else s)"
| "observeEventForZeroUsage s (Tool_call_delta _ d) = (if 0 < length d then s\<lparr>zu_text := True\<rparr> else s)"
| "observeEventForZeroUsage s (Tool_call_end _) = s\<lparr>zu_text := True\<rparr>"
| "observeEventForZeroUsage s (Message_end _) = s\<lparr>zu_finish := True\<rparr>"
| "observeEventForZeroUsage s (Usage_event u) = s\<lparr>zu_usage := Some u\<rparr>"
| "observeEventForZeroUsage s (Error_event _) = s\<lparr>zu_error := True\<rparr>"
| "observeEventForZeroUsage s _ = s"

definition tokens :: "int option \<Rightarrow> int" where
  "tokens m = (case m of None \<Rightarrow> 0 | Some n \<Rightarrow> n)"

definition totalTokens :: "model_usage \<Rightarrow> int" where
  "totalTokens u = tokens (us_total u) + tokens (us_input u) + tokens (us_output u)
     + tokens (us_cache_read u) + tokens (us_cache_write u)"

definition shouldRetryZeroUsage :: "zero_usage_state \<Rightarrow> bool" where
  "shouldRetryZeroUsage s =
     (if zu_error s then False
      else if \<not> zu_finish s then False
      else if zu_text s then False
      else case zu_usage s of None \<Rightarrow> True | Some u \<Rightarrow> totalTokens u = 0)"

definition observed :: "model_event list \<Rightarrow> zero_usage_state" where
  "observed es = foldl observeEventForZeroUsage createZeroUsageState es"

text \<open>What makes a response empty, read off its events.\<close>

fun says_something :: "model_event \<Rightarrow> bool" where
  "says_something (Text_delta t) \<longleftrightarrow> t \<noteq> []"
| "says_something (Tool_call_delta _ d) \<longleftrightarrow> d \<noteq> []"
| "says_something (Tool_call_end _) \<longleftrightarrow> True"
| "says_something _ \<longleftrightarrow> False"

fun usage_of :: "model_event \<Rightarrow> model_usage option" where
  "usage_of (Usage_event u) = Some u"
| "usage_of _ = None"

definition last_usage :: "model_event list \<Rightarrow> model_usage option" where
  "last_usage es = (let us = List.map_filter usage_of es in if us = [] then None else Some (last us))"

definition empty_response :: "model_event list \<Rightarrow> bool" where
  "empty_response es \<longleftrightarrow> (\<exists>r. Message_end r \<in> set es) \<and> \<not> list_ex is_error_event es
     \<and> \<not> list_ex says_something es \<and> (case last_usage es of None \<Rightarrow> True | Some u \<Rightarrow> totalTokens u = 0)"

lemma map_filter_append: "List.map_filter f (xs @ ys) = List.map_filter f xs @ List.map_filter f ys"
  by (simp add: List.map_filter_def)

lemma last_usage_snoc: "last_usage (es @ [e]) = (case usage_of e of Some u \<Rightarrow> Some u | None \<Rightarrow> last_usage es)"
  by (cases "usage_of e") (simp_all add: last_usage_def map_filter_append List.map_filter_def)

lemma observed_state:
  "zu_error (observed es) = list_ex is_error_event es \<and> zu_text (observed es) = list_ex says_something es
   \<and> zu_finish (observed es) = (\<exists>r. Message_end r \<in> set es) \<and> zu_usage (observed es) = last_usage es"
proof (induction es rule: rev_induct)
  case Nil
  then show ?case by (simp add: observed_def createZeroUsageState_def last_usage_def List.map_filter_def)
next
  case (snoc e es)
  have "observed (es @ [e]) = observeEventForZeroUsage (observed es) e" by (simp add: observed_def)
  then show ?case using snoc by (cases e) (auto simp: last_usage_snoc)
qed

text \<open>
  The observer decides to retry exactly the empty responses: one that finished, reported
  no error, said nothing, and whose last usage report, if any, counts no tokens.
\<close>

lemma zero_usage_exact: "shouldRetryZeroUsage (observed es) \<longleftrightarrow> empty_response es"
  using observed_state [of es] by (auto simp: shouldRetryZeroUsage_def empty_response_def split: option.split)

section \<open>Fallback\<close>

datatype scenario = Default_scenario | Subagent_scenario | Explicit_scenario

record fallback_config =
  fb_default :: "model_ref list option"
  fb_subagent :: "model_ref list option"
  fb_explicit :: "model_ref list option"
  fb_max :: "int option"

definition LITELLM_ROUTER_MAX_FALLBACKS :: int where
  "LITELLM_ROUTER_MAX_FALLBACKS = 5"

definition capFallbackAttempts :: "model_ref list \<Rightarrow> int option \<Rightarrow> model_ref list" where
  "capFallbackAttempts attempts max_fallbacks =
     (let cap = (case max_fallbacks of None \<Rightarrow> LITELLM_ROUTER_MAX_FALLBACKS | Some n \<Rightarrow> n) in
      if cap \<le> 0 then [] else take (nat cap) attempts)"

definition first_list :: "model_ref list option \<Rightarrow> model_ref list option \<Rightarrow> model_ref list" where
  "first_list a b = (case a of Some xs \<Rightarrow> xs | None \<Rightarrow> (case b of Some xs \<Rightarrow> xs | None \<Rightarrow> []))"

definition planFallback :: "fallback_config option \<Rightarrow> scenario \<Rightarrow> model_ref list" where
  "planFallback fallback sc =
     (case fallback of None \<Rightarrow> []
      | Some f \<Rightarrow>
          (case sc of
             Explicit_scenario \<Rightarrow> capFallbackAttempts (first_list (fb_default f) None) (fb_max f)
           | Default_scenario \<Rightarrow> capFallbackAttempts (first_list (fb_default f) (fb_default f)) (fb_max f)
           | Subagent_scenario \<Rightarrow> capFallbackAttempts (first_list (fb_subagent f) (fb_default f)) (fb_max f)))"

definition SELF_CORRECTABLE_CODES :: "string list" where
  "SELF_CORRECTABLE_CODES = [''invalid_tool_arguments'']"

definition FALLBACK_ELIGIBLE_NON_RETRYABLE :: "string list" where
  "FALLBACK_ELIGIBLE_NON_RETRYABLE = [''billing'', ''model_not_found'', ''auth_error'', ''provider_not_found'']"

definition isFallbackEligible :: "model_error \<Rightarrow> bool" where
  "isFallbackEligible e =
     (if me_code e \<in> set SELF_CORRECTABLE_CODES then True
      else if me_code e \<in> set FALLBACK_ELIGIBLE_NON_RETRYABLE then True
      else if \<not> me_retryable e then False
      else if me_compact e then False
      else if me_image_strip e then False
      else if me_code e \<in> {''prompt_too_long'', ''request_too_large'', ''context_overflow''} then False
      else True)"

definition PROVIDER_FAULT_CODES :: "string list" where
  "PROVIDER_FAULT_CODES =
     [''timeout'', ''server_error'', ''overloaded_error'', ''connection_reset'', ''connection_refused'',
      ''dns_error'', ''tls_error'', ''proxy_error'', ''unknown'']"

definition isProviderFaultCode :: "string \<Rightarrow> bool" where
  "isProviderFaultCode c \<longleftrightarrow> c \<in> set PROVIDER_FAULT_CODES"

section \<open>Attempt plans\<close>

text \<open>
  \<open>missing r\<close> is what the catalogue says the model lacks of the required modalities, all of
  them for a model it does not know.
\<close>

definition missingForModel :: "(model_ref \<Rightarrow> string list) \<Rightarrow> string list \<Rightarrow> model_ref \<Rightarrow> string list" where
  "missingForModel missing required r = (if required = [] then [] else missing r)"

definition supportsMediaRequirements :: "(model_ref \<Rightarrow> string list) \<Rightarrow> string list \<Rightarrow> model_ref \<Rightarrow> bool" where
  "supportsMediaRequirements missing required r \<longleftrightarrow> missingForModel missing required r = []"

record attempt_plan =
  ap_attempt :: model_ref
  ap_downgrade :: bool

definition buildAttemptPlans :: "model_ref list \<Rightarrow> string list \<Rightarrow> (model_ref \<Rightarrow> string list) \<Rightarrow> attempt_plan list" where
  "buildAttemptPlans candidates required missing =
     (let native = filter (supportsMediaRequirements missing required) candidates;
          downgraded = (if required \<noteq> [] then filter (\<lambda>a. \<not> supportsMediaRequirements missing required a) candidates else [])
      in map (\<lambda>a. \<lparr>ap_attempt = a, ap_downgrade = False\<rparr>) native
         @ map (\<lambda>a. \<lparr>ap_attempt = a, ap_downgrade = True\<rparr>) downgraded)"

text \<open>Candidates keep the first of each provider and model.\<close>

definition same_model :: "model_ref \<Rightarrow> model_ref \<Rightarrow> bool" where
  "same_model a b \<longleftrightarrow> mf_provider a = mf_provider b \<and> mf_model a = mf_model b"

fun keep_first :: "model_ref list \<Rightarrow> model_ref list \<Rightarrow> model_ref list" where
  "keep_first seen [] = []"
| "keep_first seen (a # as) = (if list_ex (same_model a) seen then keep_first seen as else a # keep_first (seen @ [a]) as)"

definition candidate_attempts :: "model_ref \<Rightarrow> model_ref list \<Rightarrow> model_ref list" where
  "candidate_attempts requested fallbacks = keep_first [] (requested # fallbacks)"

lemma plans_cover: "mset (map ap_attempt (buildAttemptPlans cs required missing)) = mset cs"
proof (cases "required = []")
  case True
  then show ?thesis by (simp add: buildAttemptPlans_def comp_def supportsMediaRequirements_def missingForModel_def)
next
  case False
  have "mset (filter P cs) + mset (filter (\<lambda>a. \<not> P a) cs) = mset cs" for P :: "model_ref \<Rightarrow> bool"
    by (induction cs) auto
  then show ?thesis using False by (simp add: buildAttemptPlans_def Let_def comp_def)
qed

end
