(* ===== verification/Router_Execution.thy ===== *)
theory Router_Execution
  imports Router_Health Router_Retry
begin

text \<open>
  \<open>execute\<close> of \<open>src/router/RouterRuntime.ts\<close> with \<open>execution/streamAttempt.ts\<close>, for an enabled
  router and a signal that is not aborted. The providers are a parameter: \<open>answer n r\<close> is
  what the \<open>n\<close>-th call gets for the request \<open>r\<close>, the events in order and the error it throws
  at the end, if any; \<open>clock n\<close> is the time after \<open>n\<close> calls. A request is the turn's own one
  for a model, perhaps with unsupported media replaced, followed by the partial texts it
  continues. Delays, statistics and telemetry do not change the events and are left out.
\<close>

section \<open>Attempts\<close>

record model_request =
  rq_target :: model_ref
  rq_downgraded :: bool
  rq_continues :: "string list"

definition buildContinuation :: "model_request \<Rightarrow> string \<Rightarrow> model_request" where
  "buildContinuation r text = r\<lparr>rq_continues := rq_continues r @ [text]\<rparr>"

type_synonym answers = "nat \<Rightarrow> model_request \<Rightarrow> model_event list \<times> model_error option"

record attempt_outcome =
  ao_buffered :: "model_event list"
  ao_error :: "model_error option"
  ao_usage :: "model_usage option"
  ao_retry_empty :: bool

fun error_of :: "model_event \<Rightarrow> model_error option" where
  "error_of (Error_event e) = Some e"
| "error_of _ = None"

definition last_error :: "model_event list \<Rightarrow> model_error option" where
  "last_error es = (let xs = List.map_filter error_of es in if xs = [] then None else Some (last xs))"

definition streamAttempt :: "model_event list \<times> model_error option \<Rightarrow> attempt_outcome" where
  "streamAttempt a =
     \<lparr>ao_buffered = fst a,
      ao_error = (case snd a of None \<Rightarrow> last_error (fst a) | Some e \<Rightarrow> Some e),
      ao_usage = zu_usage (observed (fst a)),
      ao_retry_empty = shouldRetryZeroUsage (observed (fst a))\<rparr>"

section \<open>The executor\<close>

record exec_config =
  ec_zero_max :: nat
  ec_zero_enabled :: bool
  ec_transient_enabled :: bool
  ec_transient_max :: nat
  ec_budget :: "int option"

record retry_options =
  ro_zero_max :: "nat option"
  ro_zero_enabled :: "bool option"
  ro_transient_max :: "nat option"
  ro_transient_enabled :: "bool option"
  ro_budget :: "int option"

definition exec_config_of :: "retry_options \<Rightarrow> exec_config" where
  "exec_config_of o' =
     \<lparr>ec_zero_max = max 1 (value_or (ro_zero_max o') 5), ec_zero_enabled = value_or (ro_zero_enabled o') True,
      ec_transient_enabled = value_or (ro_transient_enabled o') True,
      ec_transient_max = max 1 (value_or (ro_transient_max o') 2),
      ec_budget = ro_budget o'\<rparr>"

text \<open>What the executor keeps: the tracker, the events yielded, the requests sent.\<close>

record exec_state =
  xs_health :: health
  xs_out :: "model_event list"
  xs_calls :: "model_request list"
  xs_buffered :: "model_event list"
  xs_error :: "model_error option"
  xs_attempt :: "model_ref option"
  xs_yielded :: bool

datatype attempt_end = Falls_back | Breaks | Finishes

definition emit :: "model_event list \<Rightarrow> exec_state \<Rightarrow> exec_state" where
  "emit es s = s\<lparr>xs_out := xs_out s @ es\<rparr>"

text \<open>
  One call: the events go out once the first content event has come, the ones queued
  before it first.
\<close>

definition call_model :: "answers \<Rightarrow> model_request \<Rightarrow> exec_state \<Rightarrow> attempt_outcome \<times> bool \<times> exec_state" where
  "call_model answer r s =
     (let a = answer (length (xs_calls s)) r;
          yielded = list_ex isContentEvent (fst a)
      in (streamAttempt a, yielded,
          emit (if yielded then fst a else []) (s\<lparr>xs_calls := xs_calls s @ [r], xs_buffered := fst a\<rparr>)))"

definition note_failure ::
  "health_config \<Rightarrow> (nat \<Rightarrow> int) \<Rightarrow> model_ref \<Rightarrow> model_error \<Rightarrow> exec_state \<Rightarrow> exec_state" where
  "note_failure hc clock a e s =
     (let now = clock (length (xs_calls s));
          h = recordFailure hc now (mf_provider a) (Some (me_code e)) (xs_health s)
      in s\<lparr>xs_error := Some e, xs_health := fst (getState hc now (mf_provider a) h)\<rparr>)"

definition note_success :: "health_config \<Rightarrow> (nat \<Rightarrow> int) \<Rightarrow> model_ref \<Rightarrow> exec_state \<Rightarrow> exec_state" where
  "note_success hc clock a s =
     s\<lparr>xs_health := recordSuccess hc (clock (length (xs_calls s))) (mf_provider a) (xs_health s)\<rparr>"

text \<open>
  One round of the loop of an attempt: the request, the rounds and the transient retries so
  far, and the state of the next round, or how the attempt ends.
\<close>

definition attempt_round ::
  "exec_config \<Rightarrow> health_config \<Rightarrow> (nat \<Rightarrow> int) \<Rightarrow> answers \<Rightarrow> bool \<Rightarrow> model_ref \<Rightarrow> model_request \<Rightarrow>
     nat \<Rightarrow> nat \<Rightarrow> exec_state \<Rightarrow> (model_request \<times> nat \<times> nat \<times> exec_state) + (exec_state \<times> attempt_end)" where
  "attempt_round c hc clock answer is_last a r zero transient s0 =
     (case call_model answer r s0 of (out, yielded, s1) \<Rightarrow>
       let pending = (if yielded then [] else ao_buffered out) in
       (case ao_error out of
          Some e \<Rightarrow>
            let s = note_failure hc clock a e s1 in
            if \<not> yielded \<and> isFallbackEligible e \<and> \<not> is_last then Inr (s, Falls_back)
            else if \<not> yielded \<and> isFallbackEligible e \<and> ec_transient_enabled c \<and> transient < ec_transient_max c
            then Inl (r, Suc zero, Suc transient, s)
            else if yielded \<and> transient < ec_transient_max c \<and> me_retryable e \<and> extractPartialText (ao_buffered out) \<noteq> []
            then Inl (buildContinuation r (extractPartialText (ao_buffered out)), Suc zero, Suc transient, s)
            else Inr (emit pending (s\<lparr>xs_yielded := yielded\<rparr>), Breaks)
        | None \<Rightarrow>
            if \<not> yielded \<and> ec_zero_enabled c \<and> ao_retry_empty out \<and> Suc zero < ec_zero_max c
            then Inl (r, Suc zero, transient, s1)
            else Inr (emit pending (note_success hc clock a s1), Finishes)))"

definition rounds_left :: "exec_config \<Rightarrow> nat \<Rightarrow> nat \<Rightarrow> nat" where
  "rounds_left c zero transient = (ec_zero_max c - Suc zero) + (ec_transient_max c - transient)"

lemma round_decreases:
  "attempt_round c hc clock answer l a r z t s = Inl (r', z', t', s') \<Longrightarrow> rounds_left c z' t' < rounds_left c z t"
  by (auto simp: attempt_round_def rounds_left_def Let_def split: prod.splits option.splits if_splits)

function attempt_loop ::
  "exec_config \<Rightarrow> health_config \<Rightarrow> (nat \<Rightarrow> int) \<Rightarrow> answers \<Rightarrow> bool \<Rightarrow> model_ref \<Rightarrow> model_request \<Rightarrow>
     nat \<Rightarrow> nat \<Rightarrow> exec_state \<Rightarrow> exec_state \<times> attempt_end" where
  "attempt_loop c hc clock answer is_last a r zero transient s0 =
     (case attempt_round c hc clock answer is_last a r zero transient s0 of
        Inr x \<Rightarrow> x
      | Inl (r', zero', transient', s) \<Rightarrow> attempt_loop c hc clock answer is_last a r' zero' transient' s)"
  by pat_completeness auto
termination
  by (relation "measure (\<lambda>(c, hc, clock, answer, is_last, a, r, zero, transient, s). rounds_left c zero transient)")
    (auto simp: round_decreases)

declare attempt_loop.simps [simp del]

text \<open>\<open>estimate\<close> counts the tokens of a request for the budget of a sub-agent.\<close>

definition budget_error :: "int \<Rightarrow> int \<Rightarrow> model_ref \<Rightarrow> model_error" where
  "budget_error estimated budget a =
     \<lparr>me_provider = mf_provider a, me_model = None, me_code = ''subagent_budget_exceeded'',
      me_message = ''Sub-agent budget exceeded ('' @ show_int estimated @ '' estimated tokens > '' @ show_int budget @ '' limit).'',
      me_retryable = False, me_compact = False, me_image_strip = False, me_retry_after = None,
      me_hint = Some ''Reduce the subagent prompt/context, increase the subagent token budget, or split the task into smaller steps.''\<rparr>"

definition over_budget :: "exec_config \<Rightarrow> bool \<Rightarrow> (model_request \<Rightarrow> int) \<Rightarrow> model_request \<Rightarrow> int option" where
  "over_budget c is_subagent estimate r =
     (case ec_budget c of None \<Rightarrow> None
      | Some b \<Rightarrow> if is_subagent \<and> b \<noteq> 0 \<and> b < estimate r then Some b else None)"

datatype run_end = Failed_run | Finished_run | Stopped_run

definition plan_request :: "attempt_plan \<Rightarrow> model_request" where
  "plan_request p = \<lparr>rq_target = ap_attempt p, rq_downgraded = ap_downgrade p, rq_continues = []\<rparr>"

fun plan_loop ::
  "exec_config \<Rightarrow> health_config \<Rightarrow> (nat \<Rightarrow> int) \<Rightarrow> answers \<Rightarrow> bool \<Rightarrow> (model_request \<Rightarrow> int) \<Rightarrow> bool \<Rightarrow>
     attempt_plan list \<Rightarrow> exec_state \<Rightarrow> exec_state \<times> run_end" where
  "plan_loop c hc clock answer sub estimate is_first [] s = (s, Failed_run)"
| "plan_loop c hc clock answer sub estimate is_first (p # ps) s0 =
     (let a = ap_attempt p;
          look = shouldSkip hc (clock (length (xs_calls s0))) (mf_provider a) (xs_health s0);
          s1 = (if is_first then s0 else s0\<lparr>xs_health := fst look\<rparr>)
      in if \<not> is_first \<and> snd look \<and> ps \<noteq> []
         then plan_loop c hc clock answer sub estimate False ps s1
         else
           let r = plan_request p; s = s1\<lparr>xs_attempt := Some a\<rparr> in
           (case over_budget c sub estimate r of
              Some b \<Rightarrow> (emit [Error_event (budget_error (estimate r) b a)] s, Stopped_run)
            | None \<Rightarrow>
                (case attempt_loop c hc clock answer (ps = []) a r 0 0 s of
                   (s', Falls_back) \<Rightarrow> plan_loop c hc clock answer sub estimate False ps s'
                 | (s', Breaks) \<Rightarrow> (s', Failed_run)
                 | (s', Finishes) \<Rightarrow> (s', Finished_run))))"

text \<open>The failure of the whole plan is reported last.\<close>

definition report_failure :: "exec_state \<Rightarrow> exec_state" where
  "report_failure s =
     (case (xs_error s, xs_attempt s) of
        (Some e, Some a) \<Rightarrow>
          emit ((if xs_yielded s then [] else filter (\<lambda>x. \<not> is_error_event x) (xs_buffered s))
                @ [Error_event (e\<lparr>me_provider := mf_provider a, me_model := Some (mf_model a)\<rparr>)]) s
      | _ \<Rightarrow> s)"

definition start_state :: "health \<Rightarrow> exec_state" where
  "start_state h = \<lparr>xs_health = h, xs_out = [], xs_calls = [], xs_buffered = [], xs_error = None,
     xs_attempt = None, xs_yielded = False\<rparr>"

definition run_plans ::
  "exec_config \<Rightarrow> health_config \<Rightarrow> (nat \<Rightarrow> int) \<Rightarrow> answers \<Rightarrow> bool \<Rightarrow> (model_request \<Rightarrow> int) \<Rightarrow>
     attempt_plan list \<Rightarrow> health \<Rightarrow> exec_state \<times> run_end" where
  "run_plans c hc clock answer sub estimate plans h =
     (case plan_loop c hc clock answer sub estimate True plans (start_state h) of
        (s, Failed_run) \<Rightarrow> (report_failure s, Failed_run)
      | (s, e) \<Rightarrow> (s, e))"

definition createUnsupportedMediaError :: "model_ref \<Rightarrow> string list \<Rightarrow> string list \<Rightarrow> model_error" where
  "createUnsupportedMediaError a required missing =
     (let comma = (\<lambda>xs. case xs of [] \<Rightarrow> [] | x # r \<Rightarrow> x @ concat (map (\<lambda>y. '', '' @ y) r)) in
      \<lparr>me_provider = mf_provider a, me_model = None, me_code = ''unsupported_modality'',
       me_message = ''Router could not find a configured fallback model for '' @ mf_provider a @ ''/'' @ mf_model a
         @ '' that supports required input modalities: '' @ comma required @ ''. Missing: ''
         @ comma (if missing \<noteq> [] then missing else required) @ ''.'',
       me_retryable = False, me_compact = False, me_image_strip = False, me_retry_after = None, me_hint = None\<rparr>)"

definition execute ::
  "exec_config \<Rightarrow> health_config \<Rightarrow> (nat \<Rightarrow> int) \<Rightarrow> answers \<Rightarrow> bool \<Rightarrow> (model_request \<Rightarrow> int) \<Rightarrow>
     (model_ref \<Rightarrow> string list) \<Rightarrow> string list \<Rightarrow> fallback_config option \<Rightarrow> scenario \<Rightarrow> model_ref \<Rightarrow>
     health \<Rightarrow> exec_state \<times> run_end" where
  "execute c hc clock answer sub estimate missing required fallback sc requested h =
     (let plans = buildAttemptPlans (candidate_attempts requested (planFallback fallback sc)) required missing in
      if plans = [] then
        (emit [Error_event (createUnsupportedMediaError requested required (missingForModel missing required requested))]
          (start_state h), Stopped_run)
      else run_plans c hc clock answer sub estimate plans h)"


text \<open>A router that is switched off passes one call through and adds a thrown error.\<close>

definition execute_passthrough :: "model_event list \<times> model_error option \<Rightarrow> model_event list" where
  "execute_passthrough a =
     fst a @ (case ao_error (streamAttempt a) of
        None \<Rightarrow> []
      | Some e \<Rightarrow> if list_ex is_error_event (fst a) then [] else [Error_event e])"

end
