(* ===== verification/Router_Promises.thy ===== *)
theory Router_Promises
  imports Router_Execution
begin

text \<open>
  What an execution of the router promises: how often it calls, how it ends, what it passes
  on, and where it repeats itself.
\<close>

section \<open>One round\<close>

lemma emit_simps [simp]:
  "xs_calls (emit es s) = xs_calls s" "xs_error (emit es s) = xs_error s" "xs_attempt (emit es s) = xs_attempt s"
  "xs_out (emit es s) = xs_out s @ es" "xs_buffered (emit es s) = xs_buffered s" "xs_yielded (emit es s) = xs_yielded s"
  by (simp_all add: emit_def)

lemma note_simps [simp]:
  "xs_calls (note_failure hc clock a e s) = xs_calls s" "xs_error (note_failure hc clock a e s) = Some e"
  "xs_attempt (note_failure hc clock a e s) = xs_attempt s" "xs_out (note_failure hc clock a e s) = xs_out s"
  "xs_buffered (note_failure hc clock a e s) = xs_buffered s" "xs_yielded (note_failure hc clock a e s) = xs_yielded s"
  "xs_calls (note_success hc clock a s) = xs_calls s" "xs_error (note_success hc clock a s) = xs_error s"
  "xs_attempt (note_success hc clock a s) = xs_attempt s" "xs_out (note_success hc clock a s) = xs_out s"
  by (simp_all add: note_failure_def note_success_def Let_def)

text \<open>The call of a round, and what its end says about it.\<close>

definition call_error :: "answers \<Rightarrow> model_request list \<Rightarrow> model_error option" where
  "call_error answer calls = ao_error (streamAttempt (answer (length calls - 1) (last calls)))"

lemma round_calls:
  "attempt_round c hc clock answer l a r z t s = Inl (r', z', t', s') \<Longrightarrow>
     xs_calls s' = xs_calls s @ [r] \<and> xs_attempt s' = xs_attempt s"
  "attempt_round c hc clock answer l a r z t s = Inr (s', e) \<Longrightarrow>
     xs_calls s' = xs_calls s @ [r] \<and> xs_attempt s' = xs_attempt s
     \<and> (e = Finishes \<longrightarrow> call_error answer (xs_calls s') = None)
     \<and> (e \<noteq> Finishes \<longrightarrow> xs_error s' \<noteq> None) \<and> (e = Falls_back \<longrightarrow> \<not> l)"
  by (auto simp: attempt_round_def call_model_def Let_def call_error_def split: option.splits if_splits)

lemma attempt_ends:
  "attempt_loop c hc clock answer l a r z t s = (s', e) \<Longrightarrow>
     length (xs_calls s') \<le> length (xs_calls s) + Suc (rounds_left c z t) \<and> xs_attempt s' = xs_attempt s
     \<and> (e = Finishes \<longrightarrow> xs_calls s' \<noteq> [] \<and> call_error answer (xs_calls s') = None)
     \<and> (e \<noteq> Finishes \<longrightarrow> xs_error s' \<noteq> None) \<and> (e = Falls_back \<longrightarrow> \<not> l)"
proof (induction c hc clock answer l a r z t s rule: attempt_loop.induct)
  case (1 c hc clock answer l a r z t s)
  show ?case
  proof (cases "attempt_round c hc clock answer l a r z t s")
    case (Inr x)
    then have "attempt_round c hc clock answer l a r z t s = Inr (s', e)"
      using 1(2) by (simp add: attempt_loop.simps)
    from round_calls(2) [OF this] show ?thesis by auto
  next
    case (Inl x)
    obtain r' z' t' s1 where x: "x = (r', z', t', s1)" by (cases x)
    note Inl = Inl [unfolded x]
    have "attempt_loop c hc clock answer l a r' z' t' s1 = (s', e)"
      using 1(2) Inl by (simp add: attempt_loop.simps [of _ _ _ _ _ _ r z t s])
    from 1(1) [OF Inl refl refl refl this] round_calls(1) [OF Inl] round_decreases [OF Inl]
    show ?thesis by auto
  qed
qed

text \<open>
  The whole plan: \<open>k\<close> bounds the calls of one attempt; a failed run knows its error, a
  finished one had a last call without one, and a stopped one has said why.
\<close>

definition run_told :: "answers \<Rightarrow> exec_state \<times> run_end \<Rightarrow> bool" where
  "run_told answer x \<longleftrightarrow>
     (case snd x of
        Finished_run \<Rightarrow> xs_calls (fst x) \<noteq> [] \<and> call_error answer (xs_calls (fst x)) = None
      | Stopped_run \<Rightarrow> xs_out (fst x) \<noteq> [] \<and> is_error_event (last (xs_out (fst x)))
      | Failed_run \<Rightarrow> xs_error (fst x) \<noteq> None \<and> xs_attempt (fst x) \<noteq> None)"

lemma plan_loop_skip:
  assumes "\<not> f \<and> snd (shouldSkip hc (clock (length (xs_calls s))) (mf_provider (ap_attempt p)) (xs_health s)) \<and> ps \<noteq> []"
  shows "plan_loop c hc clock answer sub estimate f (p # ps) s =
    plan_loop c hc clock answer sub estimate False ps
      (s\<lparr>xs_health := fst (shouldSkip hc (clock (length (xs_calls s))) (mf_provider (ap_attempt p)) (xs_health s))\<rparr>)"
  using assms by (simp only: plan_loop.simps Let_def if_P if_not_P simp_thms)

lemma plan_loop_go:
  assumes "\<not> (\<not> f \<and> snd (shouldSkip hc (clock (length (xs_calls s))) (mf_provider (ap_attempt p)) (xs_health s)) \<and> ps \<noteq> [])"
  shows "plan_loop c hc clock answer sub estimate f (p # ps) s =
    (let s1 = (if f then s else s\<lparr>xs_health := fst (shouldSkip hc (clock (length (xs_calls s)))
                  (mf_provider (ap_attempt p)) (xs_health s))\<rparr>)\<lparr>xs_attempt := Some (ap_attempt p)\<rparr> in
     case over_budget c sub estimate (plan_request p) of
       Some b \<Rightarrow> (emit [Error_event (budget_error (estimate (plan_request p)) b (ap_attempt p))] s1, Stopped_run)
     | None \<Rightarrow>
         (case attempt_loop c hc clock answer (ps = []) (ap_attempt p) (plan_request p) 0 0 s1 of
            (s', Falls_back) \<Rightarrow> plan_loop c hc clock answer sub estimate False ps s'
          | (s', Breaks) \<Rightarrow> (s', Failed_run)
          | (s', Finishes) \<Rightarrow> (s', Finished_run)))"
  by (simp only: plan_loop.simps Let_def if_not_P [OF assms])

declare plan_loop.simps(2) [simp del]

lemma plan_loop_told:
  assumes "ps \<noteq> []"
  shows "length (xs_calls (fst (plan_loop c hc clock answer sub estimate f ps s)))
           \<le> length (xs_calls s) + length ps * Suc (rounds_left c 0 0)
    \<and> run_told answer (plan_loop c hc clock answer sub estimate f ps s)"
  using assms
proof (induction ps arbitrary: f s)
  case (Cons p ps)
  let ?look = "shouldSkip hc (clock (length (xs_calls s))) (mf_provider (ap_attempt p)) (xs_health s)"
  let ?s1 = "if f then s else s\<lparr>xs_health := fst ?look\<rparr>"
  let ?s = "?s1\<lparr>xs_attempt := Some (ap_attempt p)\<rparr>"
  have c1: "xs_calls ?s1 = xs_calls s" by simp
  show ?case
  proof (cases "\<not> f \<and> snd ?look \<and> ps \<noteq> []")
    case True
    then have "plan_loop c hc clock answer sub estimate f (p # ps) s = plan_loop c hc clock answer sub estimate False ps ?s1"
      using plan_loop_skip [of f hc clock s p ps c answer sub estimate] by simp
    with Cons.IH [of False ?s1] True c1 show ?thesis by simp
  next
    case go: False
    show ?thesis
    proof (cases "over_budget c sub estimate (plan_request p)")
      case (Some b)
      then have "plan_loop c hc clock answer sub estimate f (p # ps) s =
          (emit [Error_event (budget_error (estimate (plan_request p)) b (ap_attempt p))] ?s, Stopped_run)"
        unfolding plan_loop_go [where clock = clock and s = s, OF go] Let_def by simp
      then show ?thesis using c1 by (simp add: run_told_def)
    next
      case None
      obtain s' e where a: "attempt_loop c hc clock answer (ps = []) (ap_attempt p) (plan_request p) 0 0 ?s = (s', e)"
        by (cases "attempt_loop c hc clock answer (ps = []) (ap_attempt p) (plan_request p) 0 0 ?s")
      note ae = attempt_ends [OF a]
      have eq: "plan_loop c hc clock answer sub estimate f (p # ps) s =
          (case e of Falls_back \<Rightarrow> plan_loop c hc clock answer sub estimate False ps s'
           | Breaks \<Rightarrow> (s', Failed_run) | Finishes \<Rightarrow> (s', Finished_run))"
        unfolding plan_loop_go [where clock = clock and s = s, OF go] Let_def using None a by (cases e) simp_all
      show ?thesis
      proof (cases e)
        case Falls_back
        then have "ps \<noteq> []" using ae by simp
        from Cons.IH [OF this, of False s'] show ?thesis using eq Falls_back ae c1 by auto
      qed (use eq ae c1 in \<open>auto simp: run_told_def\<close>)
    qed
  qed
qed simp

lemma report_simps [simp]: "xs_calls (report_failure s) = xs_calls s"
  by (auto simp: report_failure_def split: option.split)

lemma run_plans_calls:
  "ps \<noteq> [] \<Longrightarrow> length (xs_calls (fst (run_plans c hc clock answer sub estimate ps h))) \<le> length ps * Suc (rounds_left c 0 0)"
  using plan_loop_told [of ps c hc clock answer sub estimate True "start_state h"]
  by (auto simp: run_plans_def start_state_def split: prod.splits run_end.splits)

lemma keep_first_length: "length (keep_first seen as) \<le> length as"
  by (induction seen as rule: keep_first.induct) (auto intro: le_SucI)

lemma plans_length: "length (buildAttemptPlans cs required missing) = length cs"
  using arg_cong [OF plans_cover, of size cs required missing] by simp

section \<open>Properties\<close>

text \<open>
  C17: An execution ends after at most one attempt for the requested model and one for each
  fallback of the plan, each of at most as many calls as there are transient retries and
  rounds for empty responses together.
\<close>

theorem execution_calls_bounded:
  "length (xs_calls (fst (execute (exec_config_of o') hc clock answer sub estimate missing required fallback sc requested h)))
     \<le> Suc (length (planFallback fallback sc)) * (ec_transient_max (exec_config_of o') + ec_zero_max (exec_config_of o'))"
proof -
  let ?cs = "candidate_attempts requested (planFallback fallback sc)"
  let ?ps = "buildAttemptPlans ?cs required missing"
  let ?c = "exec_config_of o'"
  have "length ?ps \<le> Suc (length (planFallback fallback sc))"
    using keep_first_length [of "[]" "requested # planFallback fallback sc"]
    by (simp only: plans_length candidate_attempts_def length_Cons)
  then have l: "length ?ps * k \<le> Suc (length (planFallback fallback sc)) * k" for k by (rule mult_le_mono1)
  have r: "Suc (rounds_left ?c 0 0) = ec_transient_max ?c + ec_zero_max ?c"
    by (simp add: rounds_left_def exec_config_of_def)
  have b: "length ?ps * Suc (rounds_left ?c 0 0) \<le>
      Suc (length (planFallback fallback sc)) * (ec_transient_max ?c + ec_zero_max ?c)"
    using l [of "Suc (rounds_left ?c 0 0)"] unfolding r .
  show ?thesis
  proof (cases "?ps = []")
    case True
    then show ?thesis by (simp add: execute_def start_state_def)
  next
    case False
    with run_plans_calls [OF False, of ?c hc clock answer sub estimate h] b show ?thesis
      unfolding execute_def Let_def by simp
  qed
qed


lemma no_last_error: "\<not> list_ex is_error_event es \<Longrightarrow> last_error es = None"
proof -
  have "\<not> list_ex is_error_event es \<Longrightarrow> List.map_filter error_of es = []"
  proof (induction es)
    case (Cons e es)
    then show ?case by (cases e) (simp_all add: List.map_filter_def)
  qed (simp add: List.map_filter_def)
  then show "\<not> list_ex is_error_event es \<Longrightarrow> last_error es = None" by (simp add: last_error_def)
qed

lemma run_first:
  assumes "ec_budget c = None"
  shows "run_plans c hc clock answer sub estimate (p # ps) h =
    (case attempt_loop c hc clock answer (ps = []) (ap_attempt p) (plan_request p) 0 0
            ((start_state h)\<lparr>xs_attempt := Some (ap_attempt p)\<rparr>) of
       (s, Falls_back) \<Rightarrow>
         (case plan_loop c hc clock answer sub estimate False ps s of
            (s', Failed_run) \<Rightarrow> (report_failure s', Failed_run) | (s', e) \<Rightarrow> (s', e))
     | (s, Breaks) \<Rightarrow> (report_failure s, Failed_run)
     | (s, Finishes) \<Rightarrow> (s, Finished_run))"
proof -
  have "over_budget c sub estimate (plan_request p) = None" using assms by (simp add: over_budget_def)
  then show ?thesis
    unfolding run_plans_def by (subst plan_loop_go) (auto simp: Let_def split: prod.split attempt_end.split)
qed

lemma loop_ends: "attempt_round c hc clock answer l a r z t s = Inr x \<Longrightarrow> attempt_loop c hc clock answer l a r z t s = x"
  by (simp add: attempt_loop.simps)

lemma loop_goes_on:
  "attempt_round c hc clock answer l a r z t s = Inl (r', z', t', s') \<Longrightarrow>
     attempt_loop c hc clock answer l a r z t s = attempt_loop c hc clock answer l a r' z' t' s'"
  by (simp add: attempt_loop.simps [of _ _ _ _ _ _ r z t s])

text \<open>
  A first call that succeeds is passed through as it is: its events and nothing else,
  with no further call, when it reports no error and is no empty response.
\<close>

lemma success_passes_through:
  assumes "answer 0 (plan_request p) = (es, None)" "\<not> list_ex is_error_event es" "\<not> empty_response es"
    "ec_budget c = None"
  shows "xs_out (fst (run_plans c hc clock answer sub estimate (p # ps) h)) = es
    \<and> xs_calls (fst (run_plans c hc clock answer sub estimate (p # ps) h)) = [plan_request p]
    \<and> snd (run_plans c hc clock answer sub estimate (p # ps) h) = Finished_run"
proof -
  let ?s = "(start_state h)\<lparr>xs_attempt := Some (ap_attempt p)\<rparr>"
  have "\<exists>s'. attempt_round c hc clock answer (ps = []) (ap_attempt p) (plan_request p) 0 0 ?s = Inr (s', Finishes)
      \<and> xs_out s' = es \<and> xs_calls s' = [plan_request p]"
    using assms(1-3) zero_usage_exact [of es]
    by (simp add: attempt_round_def call_model_def start_state_def streamAttempt_def no_last_error Let_def)
  then obtain s' where "attempt_round c hc clock answer (ps = []) (ap_attempt p) (plan_request p) 0 0 ?s = Inr (s', Finishes)"
    "xs_out s' = es" "xs_calls s' = [plan_request p]" by blast
  then show ?thesis unfolding run_first [OF assms(4)] by (simp add: loop_ends)
qed

text \<open>
  When the first call fails for good before any content, its events reach the consumer
  twice: flushed when the attempt ends, and replayed without the errors when the failure is
  reported, before one more error event.
\<close>

lemma failure_reported_twice:
  assumes "answer 0 (plan_request p) = (es, thrown)" "ao_error (streamAttempt (es, thrown)) = Some e"
    "\<not> list_ex isContentEvent es" "\<not> isFallbackEligible e" "ec_budget c = None"
  shows "xs_out (fst (run_plans c hc clock answer sub estimate (p # ps) h)) =
    es @ filter (\<lambda>x. \<not> is_error_event x) es
       @ [Error_event (e\<lparr>me_provider := mf_provider (ap_attempt p), me_model := Some (mf_model (ap_attempt p))\<rparr>)]"
proof -
  let ?s = "(start_state h)\<lparr>xs_attempt := Some (ap_attempt p)\<rparr>"
  have "\<exists>s'. attempt_round c hc clock answer (ps = []) (ap_attempt p) (plan_request p) 0 0 ?s = Inr (s', Breaks)
      \<and> xs_out s' = es \<and> xs_buffered s' = es \<and> xs_error s' = Some e \<and> xs_attempt s' = Some (ap_attempt p) \<and> \<not> xs_yielded s'"
    using assms(1-4) by (simp add: attempt_round_def call_model_def start_state_def Let_def streamAttempt_def)
  then obtain s' where "attempt_round c hc clock answer (ps = []) (ap_attempt p) (plan_request p) 0 0 ?s = Inr (s', Breaks)"
    "xs_out s' = es" "xs_buffered s' = es" "xs_error s' = Some e" "xs_attempt s' = Some (ap_attempt p)" "\<not> xs_yielded s'"
    by blast
  then show ?thesis unfolding run_first [OF assms(5)] by (simp add: loop_ends report_failure_def)
qed

text \<open>
  Text that has reached the consumer does not rule a fallback out: when a call breaks off
  after text and its continuation fails before any content, the next model gets the turn's
  own request again, and all it says comes after what was said already.
\<close>

lemma text_said_again:
  assumes "answer 0 (plan_request p) = (es0, thrown0)" "ao_error (streamAttempt (es0, thrown0)) = Some e0"
    "list_ex isContentEvent es0" "me_retryable e0" "extractPartialText es0 \<noteq> []"
    "answer 1 (buildContinuation (plan_request p) (extractPartialText es0)) = ([], Some e1)" "isFallbackEligible e1"
    "answer 2 (plan_request q) = (es2, None)" "list_ex isContentEvent es2" "\<not> list_ex is_error_event es2"
    "ec_budget c = None" "0 < ec_transient_max c"
  shows "xs_out (fst (run_plans c hc clock answer sub estimate [p, q] h)) = es0 @ es2"
proof -
  let ?s = "(start_state h)\<lparr>xs_attempt := Some (ap_attempt p)\<rparr>"
  let ?k = "buildContinuation (plan_request p) (extractPartialText es0)"
  have "\<exists>s1. attempt_round c hc clock answer False (ap_attempt p) (plan_request p) 0 0 ?s = Inl (?k, 1, 1, s1)
      \<and> xs_out s1 = es0 \<and> xs_calls s1 = [plan_request p]"
    using assms(1-5,12) by (simp add: attempt_round_def call_model_def start_state_def Let_def streamAttempt_def)
  then obtain s1 where s1: "attempt_round c hc clock answer False (ap_attempt p) (plan_request p) 0 0 ?s = Inl (?k, 1, 1, s1)"
    "xs_out s1 = es0" "xs_calls s1 = [plan_request p]" by blast
  have "\<exists>s2. attempt_round c hc clock answer False (ap_attempt p) ?k 1 1 s1 = Inr (s2, Falls_back)
      \<and> xs_out s2 = es0 \<and> length (xs_calls s2) = 2"
    using assms(6,7) s1(2,3) by (simp add: attempt_round_def call_model_def Let_def streamAttempt_def)
  then obtain s2 where s2: "attempt_round c hc clock answer False (ap_attempt p) ?k 1 1 s1 = Inr (s2, Falls_back)"
    "xs_out s2 = es0" "length (xs_calls s2) = 2" by blast
  have r: "run_plans c hc clock answer sub estimate [p, q] h =
      (case plan_loop c hc clock answer sub estimate False [q] s2 of
         (s', Failed_run) \<Rightarrow> (report_failure s', Failed_run) | (s', e) \<Rightarrow> (s', e))"
    unfolding run_first [OF assms(11)] using loop_goes_on [OF s1(1)] loop_ends [OF s2(1)] by simp
  let ?s3 = "s2\<lparr>xs_health := fst (shouldSkip hc (clock (length (xs_calls s2))) (mf_provider (ap_attempt q)) (xs_health s2)),
    xs_attempt := Some (ap_attempt q)\<rparr>"
  have "\<exists>s4. attempt_round c hc clock answer True (ap_attempt q) (plan_request q) 0 0 ?s3 = Inr (s4, Finishes)
      \<and> xs_out s4 = es0 @ es2"
    using assms(8-10) s2(2,3) by (simp add: attempt_round_def call_model_def Let_def streamAttempt_def no_last_error)
  then obtain s4 where s4: "attempt_round c hc clock answer True (ap_attempt q) (plan_request q) 0 0 ?s3 = Inr (s4, Finishes)"
    "xs_out s4 = es0 @ es2" by blast
  have "plan_loop c hc clock answer sub estimate False [q] s2 = (s4, Finished_run)"
    using loop_ends [OF s4(1)] assms(11)
    by (subst plan_loop_go) (simp_all add: Let_def over_budget_def)
  then show ?thesis using r s4(2) by simp
qed

end
