(* ===== verification/Router_Samples.thy ===== *)
theory Router_Samples
  imports Router_Promises
begin

text \<open>Two models, a provider that fails in the ways the properties speak of, and one that works.\<close>

definition first_model :: model_ref where
  "first_model = \<lparr>mf_id = ''a/m'', mf_provider = ''a'', mf_model = ''m''\<rparr>"

definition second_model :: model_ref where
  "second_model = \<lparr>mf_id = ''b/n'', mf_provider = ''b'', mf_model = ''n''\<rparr>"

definition plan_for :: "model_ref \<Rightarrow> attempt_plan" where
  "plan_for a = \<lparr>ap_attempt = a, ap_downgrade = False\<rparr>"

definition sample_error :: "string \<Rightarrow> bool \<Rightarrow> model_error" where
  "sample_error code retryable = \<lparr>me_provider = ''a'', me_model = None, me_code = code, me_message = ''failed'',
     me_retryable = retryable, me_compact = False, me_image_strip = False, me_retry_after = None, me_hint = None\<rparr>"

definition sample_exec :: exec_config where
  "sample_exec = exec_config_of \<lparr>ro_zero_max = None, ro_zero_enabled = None, ro_transient_max = None,
     ro_transient_enabled = None, ro_budget = None\<rparr>"

definition sample_health_config :: health_config where
  "sample_health_config = newTracker default_options"

definition hello :: "model_event list" where
  "hello = [Message_start, Text_delta ''Hello'', Message_end Stop_finish]"

text \<open>The first call breaks off, its continuation finds the server down, then all is well.\<close>

definition breaking_off :: answers where
  "breaking_off n r = (if n = 0 then ([Message_start, Text_delta ''Hello''], Some (sample_error ''server_error'' True))
     else if n = 1 then ([], Some (sample_error ''server_error'' True)) else (hello, None))"

definition refusing :: answers where
  "refusing n r = ([Message_start, Error_event (sample_error ''invalid_request'' False)], None)"

lemma sample_exec_budget: "ec_budget sample_exec = None \<and> 0 < ec_transient_max sample_exec"
  by (simp add: sample_exec_def exec_config_of_def)

lemma success_passes_through_witness:
  "xs_out (fst (run_plans sample_exec sample_health_config (\<lambda>_. 0) (\<lambda>_ _. (hello, None)) False (\<lambda>_. 0)
     [plan_for first_model, plan_for second_model] [])) = hello"
proof -
  have "\<not> list_ex is_error_event hello" "\<not> empty_response hello"
    by (simp_all add: hello_def empty_response_def)
  then show ?thesis using success_passes_through [of "\<lambda>_ _. (hello, None)"] sample_exec_budget by blast
qed

lemma failure_reported_twice_witness:
  "length (filter (\<lambda>e. e = Message_start) (xs_out (fst (run_plans sample_exec sample_health_config (\<lambda>_. 0) refusing
     False (\<lambda>_. 0) [plan_for first_model] [])))) = 2"
proof -
  let ?es = "[Message_start, Error_event (sample_error ''invalid_request'' False)]"
  have "ao_error (streamAttempt (?es, None)) = Some (sample_error ''invalid_request'' False)"
    by (simp add: streamAttempt_def last_error_def List.map_filter_def)
  moreover have "\<not> isFallbackEligible (sample_error ''invalid_request'' False)"
    by (simp add: isFallbackEligible_def sample_error_def SELF_CORRECTABLE_CODES_def FALLBACK_ELIGIBLE_NON_RETRYABLE_def)
  ultimately show ?thesis
    using sample_exec_budget
    by (subst failure_reported_twice [where es = ?es and thrown = None]) (simp_all add: refusing_def)
qed

lemma text_said_again_witness:
  "extractPartialText (xs_out (fst (run_plans sample_exec sample_health_config (\<lambda>_. 0) breaking_off False (\<lambda>_. 0)
     [plan_for first_model, plan_for second_model] []))) = ''HelloHello''"
proof -
  let ?es = "[Message_start, Text_delta ''Hello'']" and ?e = "sample_error ''server_error'' True"
  have "xs_out (fst (run_plans sample_exec sample_health_config (\<lambda>_. 0) breaking_off False (\<lambda>_. 0)
     [plan_for first_model, plan_for second_model] [])) = ?es @ hello"
  proof (rule text_said_again [of _ _ _ "Some ?e" ?e ?e])
    show "isFallbackEligible ?e"
      by (simp add: isFallbackEligible_def sample_error_def SELF_CORRECTABLE_CODES_def FALLBACK_ELIGIBLE_NON_RETRYABLE_def)
  qed (use sample_exec_budget in \<open>simp_all add: breaking_off_def streamAttempt_def extractPartialText_def sample_error_def hello_def\<close>)
  then show ?thesis by (simp add: extractPartialText_def hello_def)
qed

end
