(* ===== verification/Cron_Schedule.thy ===== *)
theory Cron_Schedule
  imports Artifact_Types
begin

text \<open>
  \<open>src/cron/runtime/CronSchedule.ts\<close>: the next run of a schedule. Instants are milliseconds
  since the epoch. \<open>Intl.DateTimeFormat\<close> and \<open>new Date(text)\<close> are parameters: which time
  zones it knows, the calendar fields it shows for an instant, and the instant of a text.
\<close>

section \<open>Schedules\<close>

record date_parts =
  dp_minute :: int
  dp_hour :: int
  dp_day :: int
  dp_month :: int
  dp_weekday :: int

record calendar =
  cal_valid :: "string \<Rightarrow> bool"
  cal_parts :: "string \<Rightarrow> int \<Rightarrow> date_parts option"
  cal_date :: "string \<Rightarrow> int option"

datatype delay_unit = Second | Minute | Hour | Day

datatype cron_schedule =
    Once string
  | Cron string "string option"
  | Delay int delay_unit

definition MINUTE_MS :: int where
  "MINUTE_MS = 60000"

definition MAX_SEARCH_MINUTES :: nat where
  "MAX_SEARCH_MINUTES = 366 * 24 * 60"

fun DELAY_UNIT_MS :: "delay_unit \<Rightarrow> int" where
  "DELAY_UNIT_MS Second = 1000"
| "DELAY_UNIT_MS Minute = MINUTE_MS"
| "DELAY_UNIT_MS Hour = 60 * MINUTE_MS"
| "DELAY_UNIT_MS Day = 24 * 60 * MINUTE_MS"

definition delayToMilliseconds :: "int \<Rightarrow> delay_unit \<Rightarrow> int option" where
  "delayToMilliseconds amount unit = (if amount \<le> 0 then None else Some (amount * DELAY_UNIT_MS unit))"

section \<open>Expressions\<close>

text \<open>\<open>String.prototype.split\<close> with one character.\<close>

fun split_at :: "char \<Rightarrow> string \<Rightarrow> string list" where
  "split_at c [] = [[]]"
| "split_at c (d # r) =
     (if d = c then [] # split_at c r
      else case split_at c r of [] \<Rightarrow> [[d]] | w # ws \<Rightarrow> (d # w) # ws)"

text \<open>\<open>trim().split(/\s+/)\<close>\<close>

function split_space :: "string \<Rightarrow> string list" where
  "split_space s =
     (let w = takeWhile (\<lambda>c. \<not> is_space c) s; r = dropWhile is_space (dropWhile (\<lambda>c. \<not> is_space c) s) in
      if r = [] then [w] else w # split_space r)"
  by pat_completeness auto
termination
proof (relation "measure length", goal_cases)
  case (2 s w r)
  then have "dropWhile (\<lambda>c. \<not> is_space c) s \<noteq> []" by (metis dropWhile.simps(1))
  then obtain x xs where x: "dropWhile (\<lambda>c. \<not> is_space c) s = x # xs" by (cases "dropWhile (\<lambda>c. \<not> is_space c) s") auto
  then have "is_space x" using hd_dropWhile [of "\<lambda>c. \<not> is_space c" s] by auto
  then have "r = dropWhile is_space xs" using 2 x by simp
  then have "length r \<le> length xs" by (simp add: length_dropWhile_le)
  moreover have "Suc (length xs) \<le> length s" using length_dropWhile_le [of "\<lambda>c. \<not> is_space c" s] x by simp
  ultimately show ?case by simp
qed simp

text \<open>\<open>Number.parseInt(_, 10)\<close>: white space, a sign, the digits that follow; \<open>None\<close> is \<open>NaN\<close>.\<close>

definition parse_int :: "string \<Rightarrow> int option" where
  "parse_int s0 =
     (let s = dropWhile is_space s0;
          neg = (s \<noteq> [] \<and> hd s = CHR ''-'');
          t = (if s \<noteq> [] \<and> (hd s = CHR ''-'' \<or> hd s = CHR ''+'') then tl s else s);
          ds = takeWhile is_digit t
      in if ds = [] then None else Some (if neg then - int (read_nat ds) else int (read_nat ds)))"

text \<open>The loop from start to end by the step.\<close>

definition stepped :: "int \<Rightarrow> int \<Rightarrow> int \<Rightarrow> int list" where
  "stepped start end' step = (if end' < start then [] else
     map (\<lambda>i. start + int i * step) [0..<Suc (nat ((end' - start) div step))])"

definition parse_part :: "string \<Rightarrow> int \<Rightarrow> int \<Rightarrow> int list option" where
  "parse_part part lo hi =
     (let trimmed = js_trim part in
      if trimmed = [] then None
      else let stepParts = split_at (CHR ''/'') trimmed in
        if 2 < length stepParts then None
        else let base = hd stepParts;
                 step = (if length stepParts = 1 then Some 1 else parse_int (stepParts ! 1)) in
          (case step of
             None \<Rightarrow> None
           | Some st \<Rightarrow>
               if st \<le> 0 then None
               else let range = (if base = ''*'' then (Some lo, Some hi)
                                 else if CHR ''-'' \<in> set base
                                 then (parse_int (split_at (CHR ''-'') base ! 0), parse_int (split_at (CHR ''-'') base ! 1))
                                 else (parse_int base, parse_int base)) in
                 (case range of
                    (Some a, Some b) \<Rightarrow> if a < lo \<or> hi < b \<or> b < a then None else Some (stepped a b st)
                  | _ \<Rightarrow> None)))"

fun parse_parts :: "string list \<Rightarrow> int \<Rightarrow> int \<Rightarrow> int list option" where
  "parse_parts [] lo hi = Some []"
| "parse_parts (p # ps) lo hi =
     (case parse_part p lo hi of None \<Rightarrow> None
      | Some vs \<Rightarrow> map_option (\<lambda>ws. vs @ ws) (parse_parts ps lo hi))"

definition parseField :: "string \<Rightarrow> int \<Rightarrow> int \<Rightarrow> int list option" where
  "parseField field lo hi = parse_parts (split_at (CHR '','') field) lo hi"

record parsed_cron =
  pc_minutes :: "int list"
  pc_hours :: "int list"
  pc_days :: "int list"
  pc_months :: "int list"
  pc_weekdays :: "int list"

definition parseCronExpression :: "string \<Rightarrow> parsed_cron option" where
  "parseCronExpression expression =
     (case split_space (js_trim expression) of
        [mi, ho, da, mo, we] \<Rightarrow>
          (case (parseField mi 0 59, parseField ho 0 23, parseField da 1 31, parseField mo 1 12, parseField we 0 7) of
             (Some a, Some b, Some c, Some d, Some e) \<Rightarrow>
               Some \<lparr>pc_minutes = a, pc_hours = b, pc_days = c, pc_months = d,
                     pc_weekdays = (if 7 \<in> set e then filter (\<lambda>x. x \<noteq> 7) e @ [0] else e)\<rparr>
           | _ \<Rightarrow> None)
      | _ \<Rightarrow> None)"

section \<open>The search\<close>

definition matchesCron :: "calendar \<Rightarrow> string \<Rightarrow> parsed_cron \<Rightarrow> int \<Rightarrow> bool" where
  "matchesCron cal tz cron t =
     (case cal_parts cal tz t of None \<Rightarrow> False
      | Some d \<Rightarrow> dp_minute d \<in> set (pc_minutes cron) \<and> dp_hour d \<in> set (pc_hours cron)
          \<and> dp_day d \<in> set (pc_days cron) \<and> dp_month d \<in> set (pc_months cron) \<and> dp_weekday d \<in> set (pc_weekdays cron))"

fun search_minutes :: "(int \<Rightarrow> bool) \<Rightarrow> nat \<Rightarrow> int \<Rightarrow> int option" where
  "search_minutes P 0 t = None"
| "search_minutes P (Suc n) t = (if P t then Some t else search_minutes P n (t + MINUTE_MS))"

definition first_candidate :: "int \<Rightarrow> int" where
  "first_candidate after = after div MINUTE_MS * MINUTE_MS + MINUTE_MS"

definition computeNextCronRunAt :: "calendar \<Rightarrow> string \<Rightarrow> int \<Rightarrow> string \<Rightarrow> int option" where
  "computeNextCronRunAt cal expression after tz =
     (case parseCronExpression expression of None \<Rightarrow> None
      | Some cron \<Rightarrow>
          if \<not> cal_valid cal tz then None
          else search_minutes (matchesCron cal tz cron) MAX_SEARCH_MINUTES (first_candidate after))"

definition computeNextRunAt :: "calendar \<Rightarrow> cron_schedule \<Rightarrow> int \<Rightarrow> string \<Rightarrow> int option" where
  "computeNextRunAt cal schedule after fallback =
     (case schedule of
        Once runAt \<Rightarrow> cal_date cal runAt
      | Delay amount unit \<Rightarrow> map_option (\<lambda>ms. after + ms) (delayToMilliseconds amount unit)
      | Cron expression tz \<Rightarrow>
          computeNextCronRunAt cal expression after (case tz of None \<Rightarrow> fallback | Some z \<Rightarrow> z))"

section \<open>The next run is the first\<close>

lemma search_Some:
  "search_minutes P n t = Some u \<Longrightarrow>
     P u \<and> (\<exists>k < n. u = t + int k * MINUTE_MS \<and> (\<forall>j < k. \<not> P (t + int j * MINUTE_MS)))"
proof (induction P n t rule: search_minutes.induct)
  case (2 P n t)
  show ?case
  proof (cases "P t")
    case True
    then show ?thesis using 2(2) by (auto intro!: exI [of _ 0])
  next
    case False
    with 2 obtain k where k: "P u" "k < n" "u = t + MINUTE_MS + int k * MINUTE_MS"
      "\<forall>j < k. \<not> P (t + MINUTE_MS + int j * MINUTE_MS)" by auto
    have "\<not> P (t + int j * MINUTE_MS)" if "j < Suc k" for j
      using that False k(4) by (cases j) (auto simp: algebra_simps)
    then show ?thesis using k by (intro conjI exI [of _ "Suc k"]) (auto simp: algebra_simps)
  qed
qed simp

lemma search_None: "search_minutes P n t = None \<Longrightarrow> k < n \<Longrightarrow> \<not> P (t + int k * MINUTE_MS)"
proof (induction P n t arbitrary: k rule: search_minutes.induct)
  case (2 P n t)
  then show ?case by (cases k) (auto split: if_splits simp: algebra_simps)
qed simp

lemma candidate_next:
  assumes "u mod MINUTE_MS = 0" "after < u"
  shows "\<exists>k. u = first_candidate after + int k * MINUTE_MS"
proof -
  have m: "MINUTE_MS > 0" by (simp add: MINUTE_MS_def)
  define q where "q = u div MINUTE_MS"
  have u: "u = q * MINUTE_MS" unfolding q_def using assms(1) by (simp add: minus_mod_eq_div_mult [symmetric])
  have "after div MINUTE_MS < q"
  proof (rule ccontr)
    assume "\<not> after div MINUTE_MS < q"
    then have "q * MINUTE_MS \<le> after div MINUTE_MS * MINUTE_MS" using m by simp
    also have "\<dots> \<le> after" using m by (simp add: minus_mod_eq_div_mult [symmetric])
    finally show False using u assms(2) by simp
  qed
  then have "u = first_candidate after + int (nat (q - after div MINUTE_MS - 1)) * MINUTE_MS"
    using u by (simp add: first_candidate_def algebra_simps)
  then show ?thesis by blast
qed

lemma candidate_after: "after < first_candidate after + int k * MINUTE_MS"
proof -
  have "after < after div MINUTE_MS * MINUTE_MS + MINUTE_MS"
  by (simp add: MINUTE_MS_def)
  then show ?thesis by (simp add: first_candidate_def MINUTE_MS_def)
qed


end
