(* ===== verification/Cron_Tasks.thy ===== *)
theory Cron_Tasks
  imports Cron_Schedule
begin

text \<open>
  The cron runtime of one project: \<open>src/cron/storage/CronTaskStore.ts\<close>,
  \<open>runtime/CronScheduler.ts\<close>, \<open>runtime/CronFire.ts\<close> and \<open>runtime/CronRuntime.ts\<close> over the list of
  tasks, the run history and the active runs. The mutations of the task file are queued one
  after the other by the store, so each is one step; a run is the steps of registering it,
  marking its task, ending, and updating the task afterwards, and a tick is the step that reads
  the due tasks and a step for each of them. Instants replace the ISO texts of times, which order alike.
  Sessions, the gateway and telemetry are left out, and so are the fields of a task that are
  only carried along.
\<close>

section \<open>Tasks and runs\<close>

record cron_task =
  ct_id :: string
  ct_message :: string
  ct_schedule :: cron_schedule
  ct_running :: bool
  ct_session :: string
  ct_timezone :: "string option"
  ct_created :: int
  ct_updated :: int
  ct_next :: "int option"
  ct_last :: "string option"
  ct_v2 :: bool

datatype run_outcome = Completed_run | Failed_outcome | Aborted_run | Stopped_outcome

record run_record =
  rr_id :: string
  rr_task :: string
  rr_session :: string
  rr_started :: int
  rr_finished :: "int option"
  rr_outcome :: "run_outcome option"
  rr_error :: "(string \<times> string) option"

record active_run =
  ar_id :: string
  ar_task :: cron_task
  ar_stop :: bool
  ar_marked :: bool
  ar_since :: int

record cron_config =
  cc_enabled :: bool
  cc_timezone :: string
  cc_max_runs :: nat

record cron_state =
  cs_tasks :: "cron_task list"
  cs_runs :: "run_record list"
  cs_active :: "active_run list"
  cs_ticking :: "(int \<times> cron_task list) option"
  cs_ending :: "(cron_task \<times> int) list"

section \<open>The store\<close>

definition next_le :: "cron_task \<Rightarrow> cron_task \<Rightarrow> bool" where
  "next_le a b = (case (ct_next a, ct_next b) of
     (None, _) \<Rightarrow> True | (Some _, None) \<Rightarrow> False | (Some x, Some y) \<Rightarrow> x \<le> y)"

definition sortTasks :: "cron_task list \<Rightarrow> cron_task list" where
  "sortTasks ts = sort_by next_le ts"

definition getTask :: "string \<Rightarrow> cron_task list \<Rightarrow> cron_task option" where
  "getTask tid ts = find (\<lambda>t. ct_id t = tid) ts"

fun replace_first :: "cron_task \<Rightarrow> cron_task list \<Rightarrow> cron_task list" where
  "replace_first t [] = []"
| "replace_first t (u # us) = (if ct_id u = ct_id t then t # us else u # replace_first t us)"

definition putTask :: "cron_task \<Rightarrow> cron_task list \<Rightarrow> cron_task list" where
  "putTask t ts = sortTasks (if ct_id t \<in> ct_id ` set ts then replace_first t ts else ts @ [t])"

definition replaceTask :: "cron_task \<Rightarrow> cron_task list \<Rightarrow> cron_task list \<times> bool" where
  "replaceTask t ts = (if ct_id t \<in> ct_id ` set ts then (sortTasks (replace_first t ts), True) else (ts, False))"

definition updateTask :: "string \<Rightarrow> (cron_task \<Rightarrow> cron_task) \<Rightarrow> cron_task list \<Rightarrow> cron_task list" where
  "updateTask tid f ts = sortTasks (map (\<lambda>t. if ct_id t = tid then f t else t) ts)"

definition deleteTask :: "string \<Rightarrow> cron_task list \<Rightarrow> cron_task list \<times> bool" where
  "deleteTask tid ts =
     (let rest = filter (\<lambda>t. ct_id t \<noteq> tid) ts in
      if length rest = length ts then (ts, False) else (sortTasks rest, True))"

text \<open>\<open>records.slice(-Math.max(0, limit)).reverse()\<close>; \<open>slice(-0)\<close> is the whole list.\<close>

definition listRuns :: "int \<Rightarrow> run_record list \<Rightarrow> run_record list" where
  "listRuns limit rs = (let n = nat (max 0 limit) in rev (if n = 0 then rs else drop (length rs - n) rs))"

section \<open>Time zones and next runs\<close>

fun resolve_first :: "calendar \<Rightarrow> string option list \<Rightarrow> string" where
  "resolve_first cal [] = ''UTC''"
| "resolve_first cal (z # zs) =
     (case z of None \<Rightarrow> resolve_first cal zs
      | Some tz \<Rightarrow> if tz \<noteq> [] \<and> cal_valid cal tz then tz else resolve_first cal zs)"

definition resolveCronTimezone :: "calendar \<Rightarrow> string option \<Rightarrow> string option \<Rightarrow> string option \<Rightarrow> string" where
  "resolveCronTimezone cal a b c = resolve_first cal [a, b, c, Some ''UTC'']"

fun schedule_timezone :: "cron_schedule \<Rightarrow> string option" where
  "schedule_timezone (Cron _ tz) = tz"
| "schedule_timezone _ = None"

fun with_timezone :: "string \<Rightarrow> cron_schedule \<Rightarrow> cron_schedule" where
  "with_timezone tz (Cron e _) = Cron e (Some tz)"
| "with_timezone tz s = s"

fun is_once :: "cron_schedule \<Rightarrow> bool" where
  "is_once (Once _) = True"
| "is_once _ = False"

text \<open>A recurring task with its next run after an instant, in its time zone.\<close>

definition rescheduled :: "calendar \<Rightarrow> cron_config \<Rightarrow> int \<Rightarrow> cron_task \<Rightarrow> cron_task \<Rightarrow> cron_task" where
  "rescheduled cal c after task current =
     (let tz = resolveCronTimezone cal (schedule_timezone (ct_schedule task)) (ct_timezone task) (Some (cc_timezone c));
          s = with_timezone tz (ct_schedule task)
      in current\<lparr>ct_schedule := s, ct_timezone := Some tz, ct_running := False,
                 ct_next := computeNextRunAt cal s after tz, ct_v2 := True, ct_updated := after\<rparr>)"

section \<open>The scheduler\<close>

definition isDue :: "int \<Rightarrow> cron_task \<Rightarrow> bool" where
  "isDue now t \<longleftrightarrow> \<not> ct_running t \<and> (case ct_next t of None \<Rightarrow> False | Some d \<Rightarrow> d \<le> now)"

definition delayTask :: "int \<Rightarrow> cron_task \<Rightarrow> cron_state \<Rightarrow> cron_state" where
  "delayTask now t s = s\<lparr>cs_tasks := putTask (t\<lparr>ct_next := Some (now + 60000), ct_updated := now\<rparr>) (cs_tasks s)\<rparr>"

definition register_run :: "int \<Rightarrow> cron_task \<Rightarrow> string \<Rightarrow> cron_state \<Rightarrow> cron_state" where
  "register_run now t runId s =
     s\<lparr>cs_active := filter (\<lambda>a. ar_id a \<noteq> runId) (cs_active s)
        @ [\<lparr>ar_id = runId, ar_task = t, ar_stop = False, ar_marked = False, ar_since = now\<rparr>]\<rparr>"

text \<open>
  A tick reads the due tasks once (\<open>tick_begin\<close>) and then takes them one by one (\<open>tick_next\<close>),
  with the name for the run and the number of runs that other projects have; storing a delayed
  task is awaited, so other steps can come in between. The timer is set again only when the tick
  is over.
\<close>

definition tick_begin :: "int \<Rightarrow> cron_state \<Rightarrow> cron_state" where
  "tick_begin now s =
     (if cs_ticking s = None then s\<lparr>cs_ticking := Some (now, filter (isDue now) (cs_tasks s))\<rparr> else s)"

definition tick_next :: "cron_config \<Rightarrow> nat \<Rightarrow> string \<Rightarrow> cron_state \<Rightarrow> cron_state" where
  "tick_next c others runId s =
     (case cs_ticking s of
        None \<Rightarrow> s
      | Some (now, []) \<Rightarrow> s\<lparr>cs_ticking := None\<rparr>
      | Some (now, t # ts) \<Rightarrow>
          let s1 = s\<lparr>cs_ticking := Some (now, ts)\<rparr> in
          if cc_max_runs c \<le> others + length (cs_active s) then delayTask now t s1 else register_run now t runId s1)"

definition recalculate_task :: "calendar \<Rightarrow> cron_config \<Rightarrow> int \<Rightarrow> cron_task list \<Rightarrow> cron_task \<Rightarrow> cron_task list" where
  "recalculate_task cal c now ts t =
     (if is_once (ct_schedule t) then
        (if ct_next t \<noteq> None then ts
         else case computeNextRunAt cal (ct_schedule t) now ''UTC'' of
           None \<Rightarrow> fst (deleteTask (ct_id t) ts)
         | Some n \<Rightarrow> putTask (t\<lparr>ct_next := Some n, ct_updated := now\<rparr>) ts)
      else if ct_v2 t \<and> ct_next t \<noteq> None then ts
      else putTask (rescheduled cal c now t t) ts)"

definition recalculateAllNextRuns :: "calendar \<Rightarrow> cron_config \<Rightarrow> int \<Rightarrow> cron_state \<Rightarrow> cron_state" where
  "recalculateAllNextRuns cal c now s = s\<lparr>cs_tasks := foldl (recalculate_task cal c now) (cs_tasks s) (cs_tasks s)\<rparr>"

section \<open>A run\<close>

definition find_run :: "string \<Rightarrow> cron_state \<Rightarrow> active_run option" where
  "find_run runId s = find (\<lambda>a. ar_id a = runId) (cs_active s)"

definition unregister_run :: "string \<Rightarrow> cron_state \<Rightarrow> cron_state" where
  "unregister_run runId s = s\<lparr>cs_active := filter (\<lambda>a. ar_id a \<noteq> runId) (cs_active s)\<rparr>"

text \<open>The task is marked as running; a run whose task is gone ends there, without a record.\<close>

definition mark_run :: "string \<Rightarrow> cron_state \<Rightarrow> cron_state" where
  "mark_run runId s =
     (case find_run runId s of
        None \<Rightarrow> s
      | Some a \<Rightarrow>
          if ar_marked a then s
          else (case replaceTask ((ar_task a)\<lparr>ct_running := True, ct_last := Some runId, ct_updated := ar_since a\<rparr>) (cs_tasks s) of
             (ts, True) \<Rightarrow> s\<lparr>cs_tasks := ts,
                cs_active := map (\<lambda>b. if ar_id b = runId then b\<lparr>ar_marked := True\<rparr> else b) (cs_active s)\<rparr>
           | (_, False) \<Rightarrow> unregister_run runId s))"

definition updateTaskAfterRun :: "calendar \<Rightarrow> cron_config \<Rightarrow> int \<Rightarrow> cron_task \<Rightarrow> cron_task list \<Rightarrow> cron_task list" where
  "updateTaskAfterRun cal c finishedAt t ts =
     (if is_once (ct_schedule t) then fst (deleteTask (ct_id t) ts)
      else updateTask (ct_id t) (rescheduled cal c finishedAt t) ts)"

text \<open>What the events of a turn make of its run; an interaction or a time limit settles that it failed.\<close>

datatype turn_event =
    Text_delta string
  | Interaction string
  | Turn_error "string option" string
  | Other_event

record run_progress =
  rp_outcome :: run_outcome
  rp_error :: "(string \<times> string) option"
  rp_forced :: bool
  rp_aborts :: nat
  rp_text :: string

definition fresh_progress :: run_progress where
  "fresh_progress = \<lparr>rp_outcome = Completed_run, rp_error = None, rp_forced = False, rp_aborts = 0, rp_text = []\<rparr>"

fun turn_event_step :: "run_progress \<Rightarrow> turn_event \<Rightarrow> run_progress" where
  "turn_event_step p (Text_delta t) = p\<lparr>rp_text := rp_text p @ t\<rparr>"
| "turn_event_step p (Interaction kind) =
     p\<lparr>rp_outcome := Failed_outcome, rp_forced := True,
       rp_error := Some (''cron_interaction_required'',
         ''Cron run requested unsupported user interaction through '' @ kind @ ''.''),
       rp_aborts := (if rp_aborts p = 0 then 1 else rp_aborts p)\<rparr>"
| "turn_event_step p (Turn_error code message) =
     (if code = Some ''turn_timeout'' then
        p\<lparr>rp_outcome := Failed_outcome, rp_forced := True, rp_error := Some (''cron_run_timeout'', message)\<rparr>
      else if rp_forced p then p
      else p\<lparr>rp_outcome := (if code = Some ''agent_aborted'' then Aborted_run else Failed_outcome),
             rp_error := Some (case code of None \<Rightarrow> ''cron_run_failed'' | Some k \<Rightarrow> k, message)\<rparr>)"
| "turn_event_step p Other_event = p"

definition turn_progress :: "turn_event list \<Rightarrow> string option \<Rightarrow> run_progress" where
  "turn_progress events caught =
     (let p = foldl turn_event_step fresh_progress events in
      case caught of
        None \<Rightarrow> p
      | Some message \<Rightarrow>
          if rp_forced p then p
          else p\<lparr>rp_outcome := Failed_outcome, rp_error := Some (''cron_run_failed'', message)\<rparr>)"

text \<open>The text delivered; \<open>None\<close> stands for the fixed note that nothing was returned.\<close>

definition delivered_text :: "run_outcome \<Rightarrow> string \<Rightarrow> (string \<times> string) option \<Rightarrow> string option" where
  "delivered_text outcome answer err =
     (let t = (if outcome = Completed_run then js_trim answer
               else case err of
                 Some (_, m) \<Rightarrow> if js_trim m = [] then ''Cron task failed.'' else js_trim m
               | None \<Rightarrow> ''Cron task failed.'')
      in if t = [] then None else Some t)"

text \<open>The end of a marked run: its record, stopped when that was asked for; its task is updated later.\<close>

definition end_run :: "int \<Rightarrow> string \<Rightarrow> turn_event list \<Rightarrow> string option \<Rightarrow> cron_state \<Rightarrow> cron_state" where
  "end_run now runId events caught s =
     (case find_run runId s of
        None \<Rightarrow> s
      | Some a \<Rightarrow>
          if \<not> ar_marked a then s
          else let t = ar_task a;
                   p = turn_progress events caught;
                   r = \<lparr>rr_id = runId, rr_task = ct_id t, rr_session = ct_session t, rr_started = ar_since a,
                        rr_finished = Some now,
                        rr_outcome = Some (if ar_stop a then Stopped_outcome else rp_outcome p),
                        rr_error = rp_error p\<rparr>
               in (unregister_run runId s)\<lparr>cs_runs := cs_runs s @ [r], cs_ending := cs_ending s @ [(t, now)]\<rparr>)"

definition after_run :: "calendar \<Rightarrow> cron_config \<Rightarrow> cron_state \<Rightarrow> cron_state" where
  "after_run cal c s =
     (case cs_ending s of
        [] \<Rightarrow> s
      | (t, finishedAt) # rest \<Rightarrow>
          s\<lparr>cs_ending := rest, cs_tasks := updateTaskAfterRun cal c finishedAt t (cs_tasks s)\<rparr>)"

section \<open>The runtime\<close>

datatype cron_error = Cron_disabled | Bad_timezone string | Bad_delay | No_next_run | Not_in_future

record create_task_input =
  ci_message :: string
  ci_schedule :: cron_schedule
  ci_timezone :: "string option"

text \<open>\<open>stamp\<close> is the text of an instant.\<close>

definition normalizeSchedule ::
  "calendar \<Rightarrow> (int \<Rightarrow> string) \<Rightarrow> create_task_input \<Rightarrow> string \<Rightarrow> int \<Rightarrow> (cron_error, cron_schedule) result" where
  "normalizeSchedule cal stamp i configTimezone now =
     (case ci_schedule i of
        Once runAt \<Rightarrow> Inr (Once runAt)
      | Delay n u \<Rightarrow> (case computeNextRunAt cal (Delay n u) now ''UTC'' of None \<Rightarrow> Inl Bad_delay | Some r \<Rightarrow> Inr (Once (stamp r)))
      | Cron e tz \<Rightarrow>
          let requested = (case tz of None \<Rightarrow> ci_timezone i | Some z \<Rightarrow> Some z) in
          (case requested of
             Some z \<Rightarrow> if z \<noteq> [] \<and> \<not> cal_valid cal z then Inl (Bad_timezone z)
                      else Inr (Cron e (Some (resolveCronTimezone cal requested None (Some configTimezone))))
           | None \<Rightarrow> Inr (Cron e (Some (resolveCronTimezone cal requested None (Some configTimezone))))))"

definition buildCronSessionKey :: "string \<Rightarrow> string" where
  "buildCronSessionKey taskId = ''cron:'' @ taskId"

definition createTask ::
  "calendar \<Rightarrow> (int \<Rightarrow> string) \<Rightarrow> cron_config \<Rightarrow> int \<Rightarrow> string \<Rightarrow> create_task_input \<Rightarrow> cron_state \<Rightarrow>
     (cron_error, cron_state \<times> cron_task) result" where
  "createTask cal stamp c now taskId i s =
     rbind (require (cc_enabled c) Cron_disabled) (\<lambda>_.
     rbind (normalizeSchedule cal stamp i (cc_timezone c) now) (\<lambda>schedule.
       let tz = (case schedule of Cron _ z \<Rightarrow> z
                 | _ \<Rightarrow> Some (case ci_timezone i of None \<Rightarrow> cc_timezone c | Some z \<Rightarrow> z)) in
       (case computeNextRunAt cal schedule now (case tz of None \<Rightarrow> ''UTC'' | Some z \<Rightarrow> z) of
          None \<Rightarrow> Inl No_next_run
        | Some n \<Rightarrow>
            rbind (require (\<not> (is_once schedule \<and> n < now)) Not_in_future) (\<lambda>_.
              let t = \<lparr>ct_id = taskId, ct_message = ci_message i, ct_schedule = schedule, ct_running = False,
                       ct_session = buildCronSessionKey taskId, ct_timezone = tz, ct_created = now, ct_updated = now,
                       ct_next = Some n, ct_last = None, ct_v2 = \<not> is_once schedule\<rparr>
              in Inr (s\<lparr>cs_tasks := putTask t (cs_tasks s)\<rparr>, t)))))"

text \<open>\<open>findActiveRun\<close>: by run, by task or by both; never without either.\<close>

definition findActiveRun :: "string option \<Rightarrow> string option \<Rightarrow> cron_state \<Rightarrow> active_run option" where
  "findActiveRun taskId runId s =
     find (\<lambda>a. (runId = None \<or> runId = Some (ar_id a)) \<and> (taskId = None \<or> taskId = Some (ct_id (ar_task a)))
              \<and> (runId \<noteq> None \<or> taskId \<noteq> None)) (cs_active s)"

definition stopTask :: "string option \<Rightarrow> string option \<Rightarrow> cron_state \<Rightarrow> cron_state \<times> active_run option" where
  "stopTask taskId runId s =
     (case findActiveRun taskId runId s of
        None \<Rightarrow> (s, None)
      | Some a \<Rightarrow>
          (s\<lparr>cs_active := map (\<lambda>b. if ar_id b = ar_id a then b\<lparr>ar_stop := True\<rparr> else b) (cs_active s),
             cs_tasks := (if is_once (ct_schedule (ar_task a)) then fst (deleteTask (ct_id (ar_task a)) (cs_tasks s))
                          else cs_tasks s)\<rparr>, Some a))"

definition stop_runtime :: "cron_state \<Rightarrow> cron_state" where
  "stop_runtime s = s\<lparr>cs_active := map (\<lambda>b. b\<lparr>ar_stop := True\<rparr>) (cs_active s)\<rparr>"

definition delete_task :: "string \<Rightarrow> bool \<Rightarrow> cron_state \<Rightarrow> cron_state \<times> bool" where
  "delete_task taskId stopRunning s =
     (let s1 = (if stopRunning then fst (stopTask (Some taskId) None s) else s);
          d = deleteTask taskId (cs_tasks s1)
      in (s1\<lparr>cs_tasks := fst d\<rparr>, snd d))"

text \<open>\<open>runTaskNow\<close> reads the clock for the run time before \<open>createTask\<close> reads it for the check.\<close>

datatype run_now_result = Started_now string | Not_found | Already_running

definition runTaskNow ::
  "calendar \<Rightarrow> (int \<Rightarrow> string) \<Rightarrow> cron_config \<Rightarrow> int \<Rightarrow> int \<Rightarrow> string \<Rightarrow> string \<Rightarrow> cron_state \<Rightarrow>
     (cron_error, cron_state \<times> run_now_result) result" where
  "runTaskNow cal stamp c now1 now2 newId taskId s =
     (case getTask taskId (cs_tasks s) of
        None \<Rightarrow> Inr (s, Not_found)
      | Some t \<Rightarrow>
          if ct_running t then Inr (s, Already_running)
          else rbind (createTask cal stamp c now2 newId
                 \<lparr>ci_message = ct_message t, ci_schedule = Once (stamp now1), ci_timezone = None\<rparr> s)
               (\<lambda>(s', t'). Inr (s', Started_now (ct_id t'))))"

definition recover_task :: "calendar \<Rightarrow> cron_config \<Rightarrow> int \<Rightarrow> string set \<Rightarrow> cron_state \<Rightarrow> cron_task \<Rightarrow> cron_state" where
  "recover_task cal c now terminal s t =
     (if \<not> ct_running t then s
      else let s1 = (case ct_last t of
                       Some r \<Rightarrow> if r \<in> terminal then s
                         else s\<lparr>cs_runs := cs_runs s @ [\<lparr>rr_id = r, rr_task = ct_id t, rr_session = ct_session t,
                                rr_started = ct_updated t, rr_finished = Some now, rr_outcome = Some Failed_outcome,
                                rr_error = Some (''cron_run_interrupted'',
                                  ''Cron run was interrupted before the runtime restarted.'')\<rparr>]\<rparr>
                     | None \<Rightarrow> s)
           in if is_once (ct_schedule t) then s1\<lparr>cs_tasks := fst (deleteTask (ct_id t) (cs_tasks s1))\<rparr>
              else s1\<lparr>cs_tasks := putTask (rescheduled cal c now t t) (cs_tasks s1)\<rparr>)"

definition recoverInterruptedRuns :: "calendar \<Rightarrow> cron_config \<Rightarrow> int \<Rightarrow> cron_state \<Rightarrow> cron_state" where
  "recoverInterruptedRuns cal c now s =
     foldl (recover_task cal c now (rr_id ` {r \<in> set (cs_runs s). rr_finished r \<noteq> None \<and> rr_outcome r \<noteq> None})) s (cs_tasks s)"

end
