(* ===== verification/Cron_Events.thy ===== *)
theory Cron_Events
  imports Cron_Tasks
begin

text \<open>
  The steps that a cron runtime takes and the projects of a manager
  (\<open>src/cron/runtime/CronManager.ts\<close>) taking them in any order, with the invariant of every
  reachable state.
\<close>

section \<open>Steps\<close>

datatype cron_event =
    Ev_create int string create_task_input
  | Ev_delete string bool
  | Ev_stop "string option" "string option"
  | Ev_run_now int int string string
  | Ev_shutdown
  | Ev_tick int
  | Ev_next string
  | Ev_mark string
  | Ev_end int string "turn_event list" "string option"
  | Ev_after
  | Ev_restart int int

text \<open>A new process starts with nothing active, recovers what was interrupted and fills in next runs.\<close>

definition restart :: "calendar \<Rightarrow> cron_config \<Rightarrow> int \<Rightarrow> int \<Rightarrow> cron_state \<Rightarrow> cron_state" where
  "restart cal c now1 now2 s =
     (let s0 = s\<lparr>cs_active := [], cs_ticking := None, cs_ending := []\<rparr>;
          s1 = recoverInterruptedRuns cal c now1 s0
      in recalculateAllNextRuns cal c now2 s1)"

fun cron_step :: "calendar \<Rightarrow> (int \<Rightarrow> string) \<Rightarrow> cron_config \<Rightarrow> nat \<Rightarrow> cron_event \<Rightarrow> cron_state \<Rightarrow> cron_state" where
  "cron_step cal stamp c others (Ev_create now taskId i) s =
     (case createTask cal stamp c now taskId i s of Inl _ \<Rightarrow> s | Inr (s', _) \<Rightarrow> s')"
| "cron_step cal stamp c others (Ev_delete taskId stopRunning) s = fst (delete_task taskId stopRunning s)"
| "cron_step cal stamp c others (Ev_stop taskId runId) s = fst (stopTask taskId runId s)"
| "cron_step cal stamp c others (Ev_run_now now1 now2 newId taskId) s =
     (case runTaskNow cal stamp c now1 now2 newId taskId s of Inl _ \<Rightarrow> s | Inr (s', _) \<Rightarrow> s')"
| "cron_step cal stamp c others Ev_shutdown s = stop_runtime s"
| "cron_step cal stamp c others (Ev_tick now) s = tick_begin now s"
| "cron_step cal stamp c others (Ev_next runId) s = tick_next c others runId s"
| "cron_step cal stamp c others (Ev_mark runId) s = mark_run runId s"
| "cron_step cal stamp c others (Ev_end now runId events caught) s = end_run now runId events caught s"
| "cron_step cal stamp c others Ev_after s = after_run cal c s"
| "cron_step cal stamp c others (Ev_restart now1 now2) s = restart cal c now1 now2 s"

definition empty_cron :: cron_state where
  "empty_cron = \<lparr>cs_tasks = [], cs_runs = [], cs_active = [], cs_ticking = None, cs_ending = []\<rparr>"

text \<open>Runs are named by \<open>randomUUID\<close>: the name of a new run is not in use.\<close>

fun fresh_event :: "cron_event \<Rightarrow> cron_state \<Rightarrow> bool" where
  "fresh_event (Ev_next runId) s \<longleftrightarrow> find_run runId s = None"
| "fresh_event _ s \<longleftrightarrow> True"

definition activeRunCount :: "cron_state list \<Rightarrow> nat" where
  "activeRunCount ps = sum_list (map (\<lambda>s. length (cs_active s)) ps)"

text \<open>The projects of a manager share the count of active runs.\<close>

inductive manager_reachable :: "calendar \<Rightarrow> (int \<Rightarrow> string) \<Rightarrow> cron_config \<Rightarrow> cron_state list \<Rightarrow> bool"
  for cal stamp c where
  start: "manager_reachable cal stamp c []"
| project: "manager_reachable cal stamp c ps \<Longrightarrow> manager_reachable cal stamp c (ps @ [empty_cron])"
| step: "manager_reachable cal stamp c ps \<Longrightarrow> i < length ps \<Longrightarrow> fresh_event ev (ps ! i) \<Longrightarrow>
    manager_reachable cal stamp c
      (ps[i := cron_step cal stamp c (activeRunCount ps - length (cs_active (ps ! i))) ev (ps ! i)])"

section \<open>Invariants of a project\<close>

definition task_list_ok :: "cron_task list \<Rightarrow> bool" where
  "task_list_ok ts \<longleftrightarrow> distinct (map ct_id ts) \<and> sorted_wrt next_le ts"

text \<open>Ids of the tasks that some run is going to reset.\<close>

definition cared_for :: "cron_state \<Rightarrow> string set" where
  "cared_for s = (\<lambda>a. ct_id (ar_task a)) ` set (filter ar_marked (cs_active s)) \<union> (\<lambda>p. ct_id (fst p)) ` set (cs_ending s)"

definition none_stuck :: "cron_state \<Rightarrow> bool" where
  "none_stuck s \<longleftrightarrow> (\<forall>t \<in> set (cs_tasks s). ct_running t \<longrightarrow> ct_id t \<in> cared_for s)"

definition run_names_ok :: "cron_state \<Rightarrow> bool" where
  "run_names_ok s \<longleftrightarrow> distinct (map ar_id (cs_active s))"

text \<open>The tasks of a tick were read while they were not running.\<close>

definition ticking_ok :: "cron_state \<Rightarrow> bool" where
  "ticking_ok s \<longleftrightarrow> (case cs_ticking s of None \<Rightarrow> True | Some (_, ts) \<Rightarrow> \<forall>t \<in> set ts. \<not> ct_running t)"

lemma next_le_preorder: "total_preorder next_le"
  by (auto simp: total_preorder_def next_le_def split: option.splits)

lemma sorted_sortTasks [simp]: "sorted_wrt next_le (sortTasks ts)"
  by (simp add: sortTasks_def sorted_sort_by next_le_preorder)

lemma set_sortTasks [simp]: "set (sortTasks ts) = set ts"
  by (simp add: sortTasks_def)

lemma mset_sortTasks [simp]: "mset (sortTasks ts) = mset ts"
  by (simp add: sortTasks_def)

lemma distinct_sortTasks [simp]: "distinct (map ct_id (sortTasks ts)) = distinct (map ct_id ts)"
  by (rule mset_eq_imp_distinct_iff) (simp only: mset_map mset_sortTasks)

lemma ids_replace_first [simp]: "map ct_id (replace_first t ts) = map ct_id ts"
  by (induction ts) auto

lemma set_replace_first: "set (replace_first t ts) \<subseteq> insert t (set ts)"
  by (induction ts) auto

lemma set_putTask: "u \<in> set (putTask t ts) \<Longrightarrow> u = t \<or> u \<in> set ts"
  using set_replace_first [of t ts] by (auto simp: putTask_def split: if_splits)

lemma putTask_others:
  "distinct (map ct_id ts) \<Longrightarrow> u \<in> set (putTask t ts) \<Longrightarrow> ct_id u = ct_id t \<Longrightarrow> u = t"
proof -
  have "u = t" if "distinct (map ct_id ts)" "u \<in> set (replace_first t ts)" "ct_id u = ct_id t"
    using that by (induction ts) (auto split: if_splits, metis image_eqI)
  then show "distinct (map ct_id ts) \<Longrightarrow> u \<in> set (putTask t ts) \<Longrightarrow> ct_id u = ct_id t \<Longrightarrow> u = t"
    by (auto simp: putTask_def split: if_splits, metis image_eqI)
qed

lemma task_list_ok_put [simp]: "task_list_ok ts \<Longrightarrow> task_list_ok (putTask t ts)"
  by (auto simp: task_list_ok_def putTask_def)

lemma task_list_ok_delete [simp]: "task_list_ok ts \<Longrightarrow> task_list_ok (fst (deleteTask tid ts))"
  by (auto simp: task_list_ok_def deleteTask_def Let_def distinct_map_filter)

lemma set_delete: "set (fst (deleteTask tid ts)) = {t \<in> set ts. ct_id t \<noteq> tid}"
proof (cases "length (filter (\<lambda>t. ct_id t \<noteq> tid) ts) = length ts")
  case True
  then have "filter (\<lambda>t. ct_id t \<noteq> tid) ts = ts"
    by (metis (mono_tags, lifting) filter_id_conv length_filter_less not_less_iff_gr_or_eq)
  then have "\<forall>t \<in> set ts. ct_id t \<noteq> tid" by (simp add: filter_id_conv)
  then show ?thesis using True by (auto simp: deleteTask_def)
qed (auto simp: deleteTask_def Let_def)

lemma ct_id_rescheduled [simp]: "ct_id (rescheduled cal c now t u) = ct_id u" "\<not> ct_running (rescheduled cal c now t u)"
  by (simp_all add: rescheduled_def Let_def)

lemma task_list_ok_update [simp]: "(\<And>t. ct_id (f t) = ct_id t) \<Longrightarrow> task_list_ok ts \<Longrightarrow> task_list_ok (updateTask tid f ts)"
proof -
  assume a: "\<And>t. ct_id (f t) = ct_id t"
  have "map ct_id (map (\<lambda>t. if ct_id t = tid then f t else t) ts) = map ct_id ts" using a by simp
  then show "task_list_ok ts \<Longrightarrow> task_list_ok (updateTask tid f ts)"
    unfolding task_list_ok_def updateTask_def by (metis distinct_sortTasks sorted_sortTasks)
qed

lemma task_list_ok_replace [simp]: "task_list_ok ts \<Longrightarrow> task_list_ok (fst (replaceTask t ts))"
  by (auto simp: task_list_ok_def replaceTask_def)

lemma task_list_ok_after [simp]: "task_list_ok ts \<Longrightarrow> task_list_ok (updateTaskAfterRun cal c now t ts)"
  by (simp add: updateTaskAfterRun_def)

lemma task_list_ok_recover: "task_list_ok (cs_tasks s) \<Longrightarrow> task_list_ok (cs_tasks (recover_task cal c now X s t))"
  by (auto simp: recover_task_def Let_def split: option.splits)

lemma task_list_ok_recalculate: "task_list_ok ts \<Longrightarrow> task_list_ok (recalculate_task cal c now ts t)"
  by (auto simp: recalculate_task_def split: option.splits)

lemma foldl_keeps: "P s \<Longrightarrow> (\<And>s x. P s \<Longrightarrow> x \<in> set xs \<Longrightarrow> P (f s x)) \<Longrightarrow> P (foldl f s xs)"
  by (induction xs arbitrary: s) auto

lemma task_list_ok_restart: "task_list_ok (cs_tasks s) \<Longrightarrow> task_list_ok (cs_tasks (restart cal c n1 n2 s))"
  unfolding restart_def recalculateAllNextRuns_def recoverInterruptedRuns_def Let_def
  by (auto intro!: foldl_keeps [where P = task_list_ok] task_list_ok_recalculate
      foldl_keeps [where P = "\<lambda>s. task_list_ok (cs_tasks s)"] task_list_ok_recover)

section \<open>Every step keeps the invariants\<close>

definition cron_ok :: "cron_state \<Rightarrow> bool" where
  "cron_ok s \<longleftrightarrow> task_list_ok (cs_tasks s) \<and> none_stuck s \<and> run_names_ok s \<and> ticking_ok s"

lemma task_list_ok_create:
  "createTask cal stamp c now tid i s = Inr (s', t) \<Longrightarrow>
     s' = s\<lparr>cs_tasks := putTask t (cs_tasks s)\<rparr> \<and> \<not> ct_running t \<and> ct_id t = tid"
  by (auto simp: createTask_def rbind_def require_def Let_def split: sum.splits option.splits if_splits)

lemma none_stuck_put:
  "task_list_ok (cs_tasks s) \<Longrightarrow> none_stuck s \<Longrightarrow> \<not> ct_running t \<Longrightarrow> none_stuck (s\<lparr>cs_tasks := putTask t (cs_tasks s)\<rparr>)"
  by (auto simp: none_stuck_def cared_for_def dest!: set_putTask)

lemma none_stuck_delete: "none_stuck s \<Longrightarrow> none_stuck (s\<lparr>cs_tasks := fst (deleteTask tid (cs_tasks s))\<rparr>)"
  by (auto simp: none_stuck_def cared_for_def set_delete)

lemma cron_ok_put:
  "cron_ok s \<Longrightarrow> \<not> ct_running t \<Longrightarrow> cron_ok (s\<lparr>cs_tasks := putTask t (cs_tasks s)\<rparr>)"
  by (simp add: cron_ok_def none_stuck_put run_names_ok_def ticking_ok_def)

lemma cron_ok_delete: "cron_ok s \<Longrightarrow> cron_ok (s\<lparr>cs_tasks := fst (deleteTask tid (cs_tasks s))\<rparr>)"
  by (simp add: cron_ok_def none_stuck_delete run_names_ok_def ticking_ok_def)

lemma cron_ok_delay: "cron_ok s \<Longrightarrow> \<not> ct_running t \<Longrightarrow> cron_ok (delayTask now t s)"
  unfolding delayTask_def by (rule cron_ok_put) simp_all

lemma cron_ok_stop_flags:
  assumes "cron_ok s" "\<And>b. ar_id (f b) = ar_id b \<and> ar_task (f b) = ar_task b \<and> ar_marked (f b) = ar_marked b"
  shows "cron_ok (s\<lparr>cs_active := map f (cs_active s)\<rparr>)"
proof -
  have "cared_for (s\<lparr>cs_active := map f (cs_active s)\<rparr>) = cared_for s"
    using assms(2) by (simp add: cared_for_def filter_map comp_def image_image)
  then show ?thesis using assms(1)
    by (simp add: assms(2) comp_def cron_ok_def none_stuck_def run_names_ok_def ticking_ok_def)
qed

lemma cron_ok_stopTask: "cron_ok s \<Longrightarrow> cron_ok (fst (stopTask tid rid s))"
proof -
  assume ok: "cron_ok s"
  have "cron_ok (fst (stopTask tid rid s))" if a: "findActiveRun tid rid s = Some a" for a
  proof -
    let ?s = "s\<lparr>cs_active := map (\<lambda>b. if ar_id b = ar_id a then b\<lparr>ar_stop := True\<rparr> else b) (cs_active s)\<rparr>"
    have s: "cron_ok ?s" using ok by (rule cron_ok_stop_flags) simp
    have "fst (stopTask tid rid s) = (if is_once (ct_schedule (ar_task a))
        then ?s\<lparr>cs_tasks := fst (deleteTask (ct_id (ar_task a)) (cs_tasks ?s))\<rparr> else ?s)"
      using a by (simp add: stopTask_def)
    then show ?thesis using s cron_ok_delete [OF s] by simp
  qed
  then show ?thesis using ok by (cases "findActiveRun tid rid s") (auto simp: stopTask_def)
qed

lemma cron_ok_delete_task: "cron_ok s \<Longrightarrow> cron_ok (fst (delete_task tid st s))"
  by (simp add: delete_task_def Let_def cron_ok_delete cron_ok_stopTask)

lemma cron_ok_create: "cron_ok s \<Longrightarrow> createTask cal stamp c now tid i s = Inr (s', t) \<Longrightarrow> cron_ok s'"
  using task_list_ok_create [of cal stamp c now tid i s s' t] by (auto intro: cron_ok_put)

lemma cron_ok_run_now: "cron_ok s \<Longrightarrow> runTaskNow cal stamp c n1 n2 nid tid s = Inr (s', r) \<Longrightarrow> cron_ok s'"
  by (auto simp: runTaskNow_def rbind_def split: option.splits if_splits sum.splits intro: cron_ok_create)

lemma cron_ok_tick_begin: "cron_ok s \<Longrightarrow> cron_ok (tick_begin now s)"
  by (auto simp: tick_begin_def cron_ok_def none_stuck_def cared_for_def run_names_ok_def ticking_ok_def isDue_def)

lemma find_run_None: "find_run runId s = None \<longleftrightarrow> runId \<notin> ar_id ` set (cs_active s)"
  by (auto simp: find_run_def find_None_iff image_iff)

lemma cron_ok_register:
  assumes "cron_ok s" "find_run runId s = None"
  shows "cron_ok (register_run now t runId s)"
proof -
  have f: "filter (\<lambda>a. ar_id a \<noteq> runId) (cs_active s) = cs_active s"
    using assms(2) by (auto simp: find_run_None filter_id_conv)
  show ?thesis using assms
    by (auto simp: register_run_def f cron_ok_def none_stuck_def cared_for_def run_names_ok_def ticking_ok_def find_run_None)
qed

lemma cron_ok_tick_next:
  assumes "cron_ok s" "find_run runId s = None"
  shows "cron_ok (tick_next c others runId s)"
proof (cases "cs_ticking s")
  case (Some p)
  obtain now ts where p: "p = (now, ts)" by (cases p)
  have k: "cron_ok (s\<lparr>cs_ticking := Some (now, us)\<rparr>)" if "set us \<subseteq> set ts" for us
    using assms(1) Some p that by (auto simp: cron_ok_def none_stuck_def cared_for_def run_names_ok_def ticking_ok_def)
  have n: "cron_ok (s\<lparr>cs_ticking := None\<rparr>)"
    using assms(1) by (auto simp: cron_ok_def none_stuck_def cared_for_def run_names_ok_def ticking_ok_def)
  show ?thesis
  proof (cases ts)
    case Nil
    then show ?thesis using n Some p by (simp add: tick_next_def)
  next
    case (Cons t us)
    have "\<not> ct_running t" using assms(1) Some p Cons by (simp add: cron_ok_def ticking_ok_def)
    moreover have "find_run runId (s\<lparr>cs_ticking := Some (now, us)\<rparr>) = None" using assms(2) by (simp add: find_run_def)
    moreover have "cron_ok (s\<lparr>cs_ticking := Some (now, us)\<rparr>)" using Cons by (intro k) auto
    ultimately have "cron_ok (delayTask now t (s\<lparr>cs_ticking := Some (now, us)\<rparr>))"
      "cron_ok (register_run now t runId (s\<lparr>cs_ticking := Some (now, us)\<rparr>))"
      by (blast intro: cron_ok_delay cron_ok_register)+
    then show ?thesis using Some p Cons by (simp add: tick_next_def Let_def)
  qed
qed (use assms in \<open>simp add: tick_next_def\<close>)

lemma find_run_Some: "find_run runId s = Some a \<Longrightarrow> a \<in> set (cs_active s) \<and> ar_id a = runId"
  by (auto simp: find_run_def find_Some_iff)

lemma same_run: "run_names_ok s \<Longrightarrow> a \<in> set (cs_active s) \<Longrightarrow> b \<in> set (cs_active s) \<Longrightarrow> ar_id a = ar_id b \<Longrightarrow> a = b"
  unfolding run_names_ok_def by (meson distinct_map inj_onD)

lemma cron_ok_mark: "cron_ok s \<Longrightarrow> cron_ok (mark_run runId s)"
proof -
  assume ok: "cron_ok s"
  show ?thesis
  proof (cases "find_run runId s")
    case (Some a)
    note a = find_run_Some [OF Some]
    show ?thesis
    proof (cases "ar_marked a")
      case False
      let ?t = "(ar_task a)\<lparr>ct_running := True, ct_last := Some runId, ct_updated := ar_since a\<rparr>"
      show ?thesis
      proof (cases "ct_id (ar_task a) \<in> ct_id ` set (cs_tasks s)")
        case True
        let ?m = "\<lambda>b. if ar_id b = runId then b\<lparr>ar_marked := True\<rparr> else b"
        let ?s = "s\<lparr>cs_tasks := sortTasks (replace_first ?t (cs_tasks s)), cs_active := map ?m (cs_active s)\<rparr>"
        have e: "mark_run runId s = ?s" using Some False True by (simp add: mark_run_def replaceTask_def)
        have ids: "map ar_id (map ?m (cs_active s)) = map ar_id (cs_active s)" by simp
        have "\<And>b. ct_id (ar_task (?m b)) = ct_id (ar_task b) \<and> (ar_marked b \<longrightarrow> ar_marked (?m b))" by simp
        then have c: "cared_for s \<subseteq> cared_for ?s" by (force simp: cared_for_def filter_map comp_def image_image)
        have "?m a \<in> set (filter ar_marked (cs_active ?s))" using a by simp
        then have t: "ct_id ?t \<in> cared_for ?s" 
          using imageI [of "?m a" _ "\<lambda>a. ct_id (ar_task a)"] a unfolding cared_for_def by simp
        have "none_stuck ?s" unfolding none_stuck_def
        proof (intro ballI impI)
          fix u assume u: "u \<in> set (cs_tasks ?s)" "ct_running u"
          then have "u = ?t \<or> u \<in> set (cs_tasks s)" using set_replace_first [of ?t "cs_tasks s"] by auto
          then show "ct_id u \<in> cared_for ?s" using t c u(2) ok by (auto simp: cron_ok_def none_stuck_def)
        qed
        moreover have "run_names_ok ?s" using ok ids by (simp add: cron_ok_def run_names_ok_def del: map_map)
        moreover have "task_list_ok (cs_tasks ?s)" using ok by (simp add: cron_ok_def task_list_ok_def)
        ultimately show ?thesis using ok by (simp add: e cron_ok_def ticking_ok_def)
      next
        case no: False
        have e: "mark_run runId s = unregister_run runId s" using Some False no by (simp add: mark_run_def replaceTask_def)
        have "b \<in> set (filter ar_marked (cs_active (unregister_run runId s)))" if "b \<in> set (filter ar_marked (cs_active s))" for b
        proof -
          have "b = a" if "ar_id b = runId" using that \<open>b \<in> _\<close> a ok by (auto simp: cron_ok_def intro: same_run)
          then show ?thesis using that False by (auto simp: unregister_run_def)
        qed
        then have "cared_for s \<subseteq> cared_for (unregister_run runId s)" by (auto simp: cared_for_def unregister_run_def)
        then show ?thesis using ok
          by (auto simp: e cron_ok_def none_stuck_def run_names_ok_def ticking_ok_def unregister_run_def distinct_map_filter)
      qed
    qed (use ok Some in \<open>simp add: mark_run_def\<close>)
  qed (use ok in \<open>simp add: mark_run_def\<close>)
qed

lemma cron_ok_end: "cron_ok s \<Longrightarrow> cron_ok (end_run now runId events caught s)"
proof -
  assume ok: "cron_ok s"
  have "cron_ok (end_run now runId events caught s)" if f: "find_run runId s = Some a" "ar_marked a" for a
  proof -
    note a = find_run_Some [OF f(1)]
    have "cared_for s \<subseteq> cared_for (end_run now runId events caught s)"
    proof
      fix x assume "x \<in> cared_for s"
      then consider (run) b where "b \<in> set (cs_active s)" "ar_marked b" "x = ct_id (ar_task b)"
        | (ending) "x \<in> (\<lambda>p. ct_id (fst p)) ` set (cs_ending s)" by (auto simp: cared_for_def)
      then show "x \<in> cared_for (end_run now runId events caught s)"
      proof cases
        case run
        then show ?thesis using f a ok same_run [of s a b]
          by (cases "ar_id b = runId") (auto simp: cared_for_def end_run_def Let_def unregister_run_def cron_ok_def)
      qed (use f in \<open>auto simp: cared_for_def end_run_def Let_def unregister_run_def\<close>)
    qed
    then show ?thesis using ok f
      by (auto simp: cron_ok_def none_stuck_def run_names_ok_def ticking_ok_def end_run_def Let_def unregister_run_def distinct_map_filter)
  qed
  then show ?thesis using ok by (cases "find_run runId s") (auto simp: end_run_def)
qed

lemma updateTaskAfterRun_running:
  "u \<in> set (updateTaskAfterRun cal c now t ts) \<Longrightarrow> ct_running u \<Longrightarrow> u \<in> set ts \<and> ct_id u \<noteq> ct_id t"
  by (auto simp: updateTaskAfterRun_def set_delete updateTask_def split: if_splits)

lemma cron_ok_after: "cron_ok s \<Longrightarrow> cron_ok (after_run cal c s)"
proof -
  assume ok: "cron_ok s"
  have "cron_ok (after_run cal c s)" if e: "cs_ending s = (t, now) # rest" for t now rest
  proof -
    have "cared_for s \<subseteq> insert (ct_id t) (cared_for (after_run cal c s))"
      using e by (auto simp: cared_for_def after_run_def)
    moreover have "u \<in> set (cs_tasks s) \<and> ct_id u \<noteq> ct_id t"
      if "u \<in> set (cs_tasks (after_run cal c s))" "ct_running u" for u
      using that e updateTaskAfterRun_running by (simp add: after_run_def)
    ultimately have "none_stuck (after_run cal c s)" using ok unfolding cron_ok_def none_stuck_def by blast
    then show ?thesis using ok e by (simp add: cron_ok_def run_names_ok_def ticking_ok_def after_run_def)
  qed
  then show ?thesis using ok by (cases "cs_ending s") (auto simp: after_run_def)
qed

section \<open>A restart\<close>

definition none_running :: "cron_task list \<Rightarrow> bool" where
  "none_running ts \<longleftrightarrow> (\<forall>t \<in> set ts. \<not> ct_running t)"

lemma recover_fold:
  "task_list_ok (cs_tasks s) \<Longrightarrow> \<forall>u \<in> set (cs_tasks s). ct_running u \<longrightarrow> u \<in> set ts \<Longrightarrow>
     none_running (cs_tasks (foldl (recover_task cal c now X) s ts))"
proof (induction ts arbitrary: s)
  case (Cons t ts)
  let ?s = "recover_task cal c now X s t"
  have "u \<in> set ts" if u: "u \<in> set (cs_tasks ?s)" "ct_running u" for u
  proof (cases "ct_running t")
    case False
    then show ?thesis using u Cons.prems(2) by (auto simp: recover_task_def)
  next
    case True
    then have "u \<in> set (cs_tasks s) \<and> ct_id u \<noteq> ct_id t"
      using u Cons.prems(1) putTask_others [of "cs_tasks s" u "rescheduled cal c now t t"]
        set_putTask [of u "rescheduled cal c now t t" "cs_tasks s"]
      by (auto simp: recover_task_def Let_def set_delete task_list_ok_def split: if_splits option.splits)
    then show ?thesis using u Cons.prems(2) by auto
  qed
  then show ?case using Cons.IH [of ?s] task_list_ok_recover [OF Cons.prems(1)] by simp
qed (auto simp: none_running_def)

lemma recover_frame:
  "cs_active (recover_task cal c now X s t) = cs_active s \<and> cs_ticking (recover_task cal c now X s t) = cs_ticking s
     \<and> cs_ending (recover_task cal c now X s t) = cs_ending s"
  by (auto simp: recover_task_def Let_def split: option.splits)

lemma recoverInterruptedRuns_frame:
  "cs_active (recoverInterruptedRuns cal c now s) = cs_active s" "cs_ticking (recoverInterruptedRuns cal c now s) = cs_ticking s"
  "cs_ending (recoverInterruptedRuns cal c now s) = cs_ending s"
proof -
  let ?P = "\<lambda>x. cs_active x = cs_active s \<and> cs_ticking x = cs_ticking s \<and> cs_ending x = cs_ending s"
  have "?P (recoverInterruptedRuns cal c now s)" unfolding recoverInterruptedRuns_def
    by (rule foldl_keeps [where P = ?P]) (simp_all add: recover_frame)
  then show "cs_active (recoverInterruptedRuns cal c now s) = cs_active s"
    "cs_ticking (recoverInterruptedRuns cal c now s) = cs_ticking s"
    "cs_ending (recoverInterruptedRuns cal c now s) = cs_ending s" by simp_all
qed

lemma none_running_recalculate: "none_running ts \<Longrightarrow> \<not> ct_running t \<Longrightarrow> none_running (recalculate_task cal c now ts t)"
  by (auto simp: recalculate_task_def none_running_def set_delete dest!: set_putTask split: option.splits if_splits)

text \<open>After a restart nothing is running and nothing is lost: no task stays marked as running.\<close>

lemma restart_none_running: "task_list_ok (cs_tasks s) \<Longrightarrow> none_running (cs_tasks (restart cal c n1 n2 s))"
proof -
  assume ok: "task_list_ok (cs_tasks s)"
  let ?s = "s\<lparr>cs_active := [], cs_ticking := None, cs_ending := []\<rparr>"
  let ?r = "recoverInterruptedRuns cal c n1 ?s"
  have r: "none_running (cs_tasks ?r)" unfolding recoverInterruptedRuns_def
    using ok by (intro recover_fold) auto
  then have "none_running (foldl (recalculate_task cal c n2) (cs_tasks ?r) (cs_tasks ?r))"
    by (intro foldl_keeps [where P = none_running] none_running_recalculate) (auto simp: none_running_def)
  then show ?thesis by (simp add: restart_def recalculateAllNextRuns_def Let_def)
qed

lemma restart_frame:
  "cs_active (restart cal c n1 n2 s) = []" "cs_ticking (restart cal c n1 n2 s) = None" "cs_ending (restart cal c n1 n2 s) = []"
  by (simp_all add: restart_def recalculateAllNextRuns_def recoverInterruptedRuns_frame Let_def)

lemma cron_ok_restart: "cron_ok s \<Longrightarrow> cron_ok (restart cal c n1 n2 s)"
  using restart_none_running [of s cal c n1 n2] task_list_ok_restart [of s cal c n1 n2]
  by (auto simp: cron_ok_def none_stuck_def run_names_ok_def ticking_ok_def restart_frame none_running_def)

lemma cron_ok_step: "cron_ok s \<Longrightarrow> fresh_event ev s \<Longrightarrow> cron_ok (cron_step cal stamp c others ev s)"
  by (cases ev) (auto split: sum.splits simp: stop_runtime_def
      intro: cron_ok_create cron_ok_run_now cron_ok_delete_task cron_ok_stopTask cron_ok_stop_flags
        cron_ok_tick_begin cron_ok_tick_next cron_ok_mark cron_ok_end cron_ok_after cron_ok_restart)

section \<open>The active runs of all projects\<close>

lemma createTask_active: "createTask cal stamp c now tid i s = Inr (s', t) \<Longrightarrow> cs_active s' = cs_active s"
  using task_list_ok_create [of cal stamp c now tid i s s' t] by auto

lemma runTaskNow_active: "runTaskNow cal stamp c n1 n2 nid tid s = Inr (s', r) \<Longrightarrow> cs_active s' = cs_active s"
  by (auto simp: runTaskNow_def rbind_def split: option.splits if_splits sum.splits dest: createTask_active)

lemma stopTask_active: "length (cs_active (fst (stopTask tid rid s))) = length (cs_active s)"
  by (auto simp: stopTask_def split: option.splits)

lemma length_unregister: "length (cs_active (unregister_run rid s)) \<le> length (cs_active s)"
  by (simp add: unregister_run_def)

lemma tick_next_active:
  "length (cs_active (tick_next c others rid s)) \<le> max (length (cs_active s)) (cc_max_runs c - others)"
proof -
  have "length (filter (\<lambda>a. ar_id a \<noteq> rid) (cs_active s)) \<le> length (cs_active s)" by simp
  then have "others + length (cs_active s) < cc_max_runs c \<Longrightarrow>
      Suc (length (filter (\<lambda>a. ar_id a \<noteq> rid) (cs_active s))) \<le> cc_max_runs c - others" by arith
  then show ?thesis
    by (auto simp: tick_next_def delayTask_def register_run_def Let_def not_le split: option.splits list.splits)
qed

lemma step_active:
  "length (cs_active (cron_step cal stamp c others ev s)) \<le> max (length (cs_active s)) (cc_max_runs c - others)"
proof (cases ev)
  case (Ev_create now tid i)
  then show ?thesis by (auto split: sum.splits dest: createTask_active)
next
  case (Ev_run_now n1 n2 nid tid)
  then show ?thesis by (auto split: sum.splits dest: runTaskNow_active)
next
  case (Ev_mark rid)
  then show ?thesis using length_unregister [of rid s]
    by (auto simp: mark_run_def split: option.splits prod.splits bool.splits)
next
  case (Ev_end now rid evs cau)
  then show ?thesis using length_unregister [of rid s] by (auto simp: end_run_def Let_def split: option.splits)
next
  case (Ev_next rid)
  then show ?thesis using tick_next_active by simp
qed (auto simp: delete_task_def Let_def stopTask_active stop_runtime_def tick_begin_def after_run_def restart_frame
    split: list.splits)

lemma sum_list_update_nat: "i < length xs \<Longrightarrow> sum_list (xs[i := (x::nat)]) = sum_list xs - xs ! i + x"
proof -
  assume i: "i < length xs"
  have "xs ! i \<le> sum_list xs" using i by (simp add: member_le_sum_list)
  then show ?thesis using i by (simp add: sum_list_update)
qed

lemma activeRunCount_update:
  "i < length ps \<Longrightarrow> activeRunCount (ps[i := s]) = activeRunCount ps - length (cs_active (ps ! i)) + length (cs_active s)"
  by (simp add: activeRunCount_def map_update sum_list_update_nat)

lemma activeRunCount_ge: "i < length ps \<Longrightarrow> length (cs_active (ps ! i)) \<le> activeRunCount ps"
  unfolding activeRunCount_def
  by (rule order_trans [OF _ member_le_sum_list [of "map (\<lambda>s. length (cs_active s)) ps ! i"]]) simp_all

lemma manager_state_ok: "manager_reachable cal stamp c ps \<Longrightarrow> \<forall>s \<in> set ps. cron_ok s"
proof (induction rule: manager_reachable.induct)
  case (step ps i ev)
  then show ?case using set_update_subset_insert [of ps i] cron_ok_step [of "ps ! i"] nth_mem [of i ps] by blast
qed (auto simp: empty_cron_def cron_ok_def task_list_ok_def none_stuck_def run_names_ok_def ticking_ok_def)

text \<open>
  C23: Whatever the projects of a manager do in whatever order, no more runs are active in all of
  them together than the configuration allows.
\<close>

theorem runs_bounded: "manager_reachable cal stamp c ps \<Longrightarrow> activeRunCount ps \<le> cc_max_runs c"
proof (induction rule: manager_reachable.induct)
  case (step ps i ev)
  let ?s = "cron_step cal stamp c (activeRunCount ps - length (cs_active (ps ! i))) ev (ps ! i)"
  have "length (cs_active ?s) \<le> max (length (cs_active (ps ! i))) (cc_max_runs c - (activeRunCount ps - length (cs_active (ps ! i))))"
    by (rule step_active)
  then show ?case using step activeRunCount_ge [of i ps] by (simp add: activeRunCount_update)
qed (auto simp: activeRunCount_def empty_cron_def)


end
