(* ===== verification/Cron_Samples.thy ===== *)
theory Cron_Samples
  imports Cron_Events
begin

text \<open>
  The cron runtime on concrete inputs, over a calendar with the one time zone UTC: the witnesses
  of its properties and what the code does at its edges.
\<close>

section \<open>A calendar\<close>

definition utc_parts :: "int \<Rightarrow> date_parts" where
  "utc_parts t =
     (let d = t div 86400000; z = d + 719468; doe = z mod 146097;
          yoe = (doe - doe div 1460 + doe div 36524 - doe div 146096) div 365;
          doy = doe - (365 * yoe + yoe div 4 - yoe div 100);
          mp = (5 * doy + 2) div 153
      in \<lparr>dp_minute = t div 60000 mod 60, dp_hour = t div 3600000 mod 24,
          dp_day = doy - (153 * mp + 2) div 5 + 1, dp_month = (if mp < 10 then mp + 3 else mp - 9),
          dp_weekday = (d + 4) mod 7\<rparr>)"

definition utc :: calendar where
  "utc = \<lparr>cal_valid = (\<lambda>z. z = ''UTC''), cal_parts = (\<lambda>z t. if z = ''UTC'' then Some (utc_parts t) else None),
     cal_date = (\<lambda>s. if s = ''at 1000'' then Some 1000 else if s = ''at 5000'' then Some 5000 else None)\<rparr>"

definition at_text :: "int \<Rightarrow> string" where
  "at_text t = (if t = 1000 then ''at 1000'' else if t = 5000 then ''at 5000'' else ''?'')"

definition one_run :: cron_config where
  "one_run = \<lparr>cc_enabled = True, cc_timezone = ''UTC'', cc_max_runs = 1\<rparr>"

section \<open>Schedules\<close>

lemma search_first: "P t \<Longrightarrow> 0 < n \<Longrightarrow> search_minutes P n t = Some t"
  by (cases n) auto

lemma search_none: "\<forall>k < n. \<not> P (t + int k * MINUTE_MS) \<Longrightarrow> search_minutes P n t = None"
  using search_Some [of P n t] by (cases "search_minutes P n t") auto

definition quarter_hours :: parsed_cron where
  "quarter_hours = \<lparr>pc_minutes = [0, 15, 30, 45], pc_hours = [9, 10], pc_days = [1..31], pc_months = [1..12],
     pc_weekdays = [4, 5]\<rparr>"

lemma quarter_hours_text: "parseCronExpression ''*/15 9-10 * * 4,5'' = Some quarter_hours"
  by code_simp

lemma quarter_hours_next: "computeNextCronRunAt utc ''*/15 9-10 * * 4,5'' 32400001 ''UTC'' = Some 33300000"
proof -
  have "\<not> matchesCron utc ''UTC'' quarter_hours (32460000 + int k * MINUTE_MS)" if "k < 14" for k
  proof -
    have "list_all (\<lambda>k. \<not> matchesCron utc ''UTC'' quarter_hours (32460000 + int k * MINUTE_MS)) [0..<14]" by code_simp
    with that show ?thesis by (simp add: list_all_iff)
  qed
  moreover have "matchesCron utc ''UTC'' quarter_hours (32460000 + int 14 * MINUTE_MS)" by code_simp
  moreover have "search_minutes P (MAX_SEARCH_MINUTES) t = Some (t + int 14 * MINUTE_MS)"
    if "\<And>k. k < 14 \<Longrightarrow> \<not> P (t + int k * MINUTE_MS)" "P (t + int 14 * MINUTE_MS)" for P t
  proof (cases "search_minutes P MAX_SEARCH_MINUTES t")
    case None
    from search_None [OF None, of 14] that(2) show ?thesis by (simp add: MAX_SEARCH_MINUTES_def)
  next
    case (Some u)
    from search_Some [OF Some] obtain k where k: "P u" "u = t + int k * MINUTE_MS" "\<forall>j < k. \<not> P (t + int j * MINUTE_MS)"
      by blast
    have "\<not> k < 14" using that(1) [of k] k(1,2) by auto
    moreover have "\<not> 14 < k" using that(2) k(3) by blast
    ultimately have "k = 14" by simp
    then show ?thesis using Some k(2) by simp
  qed
  ultimately show ?thesis
    by (simp add: computeNextCronRunAt_def quarter_hours_text first_candidate_def MINUTE_MS_def utc_def)
qed


text \<open>
  The window of 366 days is shorter than the time to the next leap day: in the minute before March
  2024 a task for 29 February has no next run.
\<close>

lemma no_leap_day: "computeNextCronRunAt utc ''0 0 29 2 *'' 1709251140000 ''UTC'' = None"
proof -
  have p: "parseCronExpression ''0 0 29 2 *'' = Some \<lparr>pc_minutes = [0], pc_hours = [0], pc_days = [29], pc_months = [2],
      pc_weekdays = [0, 1, 2, 3, 4, 5, 6, 0]\<rparr>" (is "_ = Some ?c") by code_simp
  have days: "\<not> (dp_day (utc_parts (d * 86400000)) = 29 \<and> dp_month (utc_parts (d * 86400000)) = 2)"
    if d: "19783 \<le> d" "d \<le> 20148" for d
  proof -
    define e where "e = d - 11017"
    have e: "(d + 719468) mod 146097 = e" 
      using d mod_mult_self1 [of "d - 11017" 5 146097] mod_pos_pos_trivial [of "d - 11017" 146097]
      by (simp add: e_def add.commute)
    have b: "8766 \<le> e" "e \<le> 9131" using d by (simp_all add: e_def)
    have q: "e div 1460 = 6" "e div 36524 = 0" "e div 146096 = 0"
      using b by (auto intro!: int_div_pos_eq [where r = "e - 8760"])
    show ?thesis
    proof (cases "e = 9131")
      case True
      then show ?thesis unfolding utc_parts_def Let_def by (simp add: e)
    next
      case False
      then have y: "(e - 6) div 365 = 24" using b by (intro int_div_pos_eq [where r = "e - 8766"]) auto
      define mp where "mp = (5 * (e - 8766) + 2) div 153"
      have "dp_day (utc_parts (d * 86400000)) = e - 8766 - (153 * mp + 2) div 5 + 1"
        "dp_month (utc_parts (d * 86400000)) = (if mp < 10 then mp + 3 else mp - 9)"
        unfolding utc_parts_def Let_def mp_def by (simp_all add: e q y)
      moreover have "mp = 11 \<Longrightarrow> e - 8766 - (153 * mp + 2) div 5 + 1 \<le> 28" using b False by simp
      moreover have "0 \<le> mp" using b by (simp add: mp_def)
      ultimately show ?thesis by (auto split: if_splits)
    qed
  qed
  have day: "dp_day (utc_parts t) = dp_day (utc_parts (t div 86400000 * 86400000))
      \<and> dp_month (utc_parts t) = dp_month (utc_parts (t div 86400000 * 86400000))" for t

  proof -
    have q: "t div 86400000 * 86400000 div 86400000 = t div 86400000" by simp
    show ?thesis unfolding utc_parts_def Let_def q by (simp only: date_parts.simps simp_thms)
  qed
  have "\<not> matchesCron utc ''UTC'' ?c (1709251200000 + int k * MINUTE_MS)" if "k < MAX_SEARCH_MINUTES" for k
  proof -
    let ?t = "1709251200000 + int k * MINUTE_MS"
    have "19783 * 86400000 \<le> ?t" "?t \<le> 20149 * 86400000 - 1"
      using that by (simp_all add: MINUTE_MS_def MAX_SEARCH_MINUTES_def)
    then have "19783 \<le> ?t div 86400000" "?t div 86400000 \<le> 20148"
      using zdiv_mono1 [of "19783 * 86400000" ?t 86400000] zdiv_mono1 [of ?t "20149 * 86400000 - 1" 86400000] by simp_all
    with days have "\<not> (dp_day (utc_parts (?t div 86400000 * 86400000)) = 29 \<and> dp_month (utc_parts (?t div 86400000 * 86400000)) = 2)" by blast
    then show ?thesis using day [of ?t] by (auto simp: matchesCron_def utc_def)
  qed
  then show ?thesis
    by (simp add: computeNextCronRunAt_def p first_candidate_def MINUTE_MS_def utc_def search_none)
qed

section \<open>Edges of the store and the runtime\<close>

text \<open>A history of length 0 is the whole history.\<close>

lemma no_runs_are_all_runs: "listRuns 0 rs = rev rs"
  by (simp add: listRuns_def)

text \<open>The clock moves between the two times it is read, and a task cannot be run now.\<close>

definition sample_task :: cron_task where
  "sample_task = \<lparr>ct_id = ''t'', ct_message = ''m'', ct_schedule = Cron ''0 0 * * *'' (Some ''UTC''), ct_running = False,
     ct_session = ''cron:t'', ct_timezone = Some ''UTC'', ct_created = 0, ct_updated = 0, ct_next = Some 500, ct_last = None,
     ct_v2 = True\<rparr>"

lemma run_now_too_late:
  "runTaskNow utc at_text one_run 1000 1001 ''n'' ''t'' (empty_cron\<lparr>cs_tasks := [sample_task]\<rparr>) = Inl Not_in_future"
  by code_simp

text \<open>A task deleted while a tick is going on comes back when its start is delayed.\<close>

lemma deleted_task_returns:
  "map ct_id (cs_tasks (cron_step utc at_text one_run 1 (Ev_next ''r'')
     (cron_step utc at_text one_run 1 (Ev_delete ''t'' False)
     (cron_step utc at_text one_run 1 (Ev_tick 600) (empty_cron\<lparr>cs_tasks := [sample_task]\<rparr>))))) = [''t'']"
  by code_simp

section \<open>A manager with two projects\<close>

fun manager_run :: "(nat \<times> cron_event) list \<Rightarrow> cron_state list \<Rightarrow> cron_state list" where
  "manager_run [] ps = ps"
| "manager_run ((i, ev) # evs) ps = manager_run evs
     (if i < length ps \<and> fresh_event ev (ps ! i)
      then ps[i := cron_step utc at_text one_run (activeRunCount ps - length (cs_active (ps ! i))) ev (ps ! i)] else ps)"

lemma manager_run_reachable:
  "manager_reachable utc at_text one_run ps \<Longrightarrow> manager_reachable utc at_text one_run (manager_run evs ps)"
  proof (induction evs ps rule: manager_run.induct)
  case (2 i ev evs ps)
  then show ?case using manager_reachable.step [OF 2(2), of i ev] by simp
qed simp

lemma two_projects: "manager_reachable utc at_text one_run [empty_cron, empty_cron]"
  using manager_reachable.project [OF manager_reachable.project [OF manager_reachable.start]] by simp

definition sample_input :: create_task_input where
  "sample_input = \<lparr>ci_message = ''m'', ci_schedule = Delay 1 Second, ci_timezone = None\<rparr>"

definition busy_projects :: "cron_state list" where
  "busy_projects = manager_run
     [(0, Ev_create 0 ''a'' sample_input), (1, Ev_create 0 ''b'' sample_input), (0, Ev_tick 2000), (1, Ev_tick 2000),
      (0, Ev_next ''r''), (1, Ev_next ''q''), (0, Ev_mark ''r'')] [empty_cron, empty_cron]"

lemma busy_reachable: "manager_reachable utc at_text one_run busy_projects"
  unfolding busy_projects_def by (rule manager_run_reachable [OF two_projects])

theorem runs_bounded_witness: "activeRunCount busy_projects = 1 \<and> activeRunCount busy_projects \<le> cc_max_runs one_run"
proof
  show "activeRunCount busy_projects = 1" by code_simp
  show "activeRunCount busy_projects \<le> cc_max_runs one_run" by (rule runs_bounded [OF busy_reachable])
qed


end
