(* ===== verification/Conversation.thy ===== *)
theory Conversation
  imports Artifact_Types
begin

text \<open>
  Conversations as \<open>src/model/protocol/canonical.ts\<close> has them, with the helpers that the context
  component shares: the ids of tool calls and results, turns and protected context
  (\<open>src/context/compaction/toolPairIntegrity.ts\<close>, \<open>protectedContext.ts\<close>) and the text of a tool
  result (\<open>src/model/protocol/toolResultContent.ts\<close>). Of a block the fields that this code reads
  are kept; the input of a call is its JSON text, empty for no input.
\<close>

section \<open>Blocks and messages\<close>

datatype result_item =
    Item_text string
  | Item_image bool string string
  | Item_pdf string string nat

datatype content_block =
    Text_block string
  | Thinking_block string
  | Image_block bool string string
  | Pdf_block string string nat
  | Audio_block bool string string
  | Tool_call string string string
  | Tool_result string "result_item list" bool
  | Tool_result_reference string string
  | Media_reference "string option" string

datatype role = User_role | Assistant_role

record message =
  msg_role :: role
  msg_content :: "content_block list"

fun toolResultContentBlockToText :: "result_item \<Rightarrow> string" where
  "toolResultContentBlockToText (Item_text t) = t"
| "toolResultContentBlockToText (Item_image is_url d mime) =
     (if is_url then ''[Image: '' @ mime @ '', '' @ d @ '']''
      else ''[Image: '' @ mime @ '', '' @ show_nat (length d) @ '' base64 characters]'')"
| "toolResultContentBlockToText (Item_pdf d mime pages) =
     ''[PDF: '' @ mime @ '', '' @ show_nat (length d) @ '' base64 characters''
     @ (if pages = 0 then [] else '', '' @ show_nat pages @ '' pages'') @ '']''"

fun join_lines :: "string list \<Rightarrow> string" where
  "join_lines [] = []"
| "join_lines [x] = x"
| "join_lines (x # xs) = x @ CHR 0x0A # join_lines xs"

definition flattenToolResultContentText :: "result_item list \<Rightarrow> string" where
  "flattenToolResultContentText items = join_lines (map toolResultContentBlockToText items)"

section \<open>Calls and results\<close>

fun call_id :: "content_block \<Rightarrow> string option" where
  "call_id (Tool_call i _ _) = Some i"
| "call_id _ = None"

text \<open>\<open>isDirectToolResultBlock\<close> and \<open>isMediaReferenceWithId\<close>, with the id they guard.\<close>

fun direct_result :: "content_block \<Rightarrow> string option" where
  "direct_result (Tool_result i _ _) = Some i"
| "direct_result (Tool_result_reference i _) = Some i"
| "direct_result _ = None"

fun media_with_id :: "content_block \<Rightarrow> string option" where
  "media_with_id (Media_reference (Some i) _) = (if i = [] then None else Some i)"
| "media_with_id _ = None"

definition collectToolCallIds :: "message list \<Rightarrow> string list" where
  "collectToolCallIds ms =
     concat (map (\<lambda>m. if msg_role m = Assistant_role then List.map_filter call_id (msg_content m) else []) ms)"

definition collectToolResultIds :: "message list \<Rightarrow> string list" where
  "collectToolResultIds ms =
     concat (map (\<lambda>m. if msg_role m = User_role then List.map_filter direct_result (msg_content m) else []) ms)"

fun unpaired :: "(content_block \<Rightarrow> string option) \<Rightarrow> string set \<Rightarrow> content_block \<Rightarrow> bool" where
  "unpaired f ids b = (case f b of None \<Rightarrow> False | Some i \<Rightarrow> i \<notin> ids)"

definition stripUnpairedToolCalls :: "message list \<Rightarrow> string set \<Rightarrow> message list" where
  "stripUnpairedToolCalls ms ids = filter (\<lambda>m. msg_content m \<noteq> [])
     (map (\<lambda>m. if msg_role m = Assistant_role
               then m\<lparr>msg_content := filter (\<lambda>b. \<not> unpaired call_id ids b) (msg_content m)\<rparr> else m) ms)"

definition stripUnpairedToolResults :: "message list \<Rightarrow> string set \<Rightarrow> message list" where
  "stripUnpairedToolResults ms ids = filter (\<lambda>m. msg_content m \<noteq> [])
     (map (\<lambda>m. if msg_role m = User_role
               then m\<lparr>msg_content := filter (\<lambda>b. \<not> unpaired direct_result ids b \<and> \<not> unpaired media_with_id ids b) (msg_content m)\<rparr>
               else m) ms)"

definition CONTINUATION_TEXT :: string where
  "CONTINUATION_TEXT =
     ''[system: the conversation above has been compacted. please continue with the current task.]''"

definition ensureTrailingUserMessage :: "message list \<Rightarrow> message list" where
  "ensureTrailingUserMessage ms =
     (if ms = [] then ms
      else if msg_role (last ms) \<noteq> Assistant_role then ms
      else ms @ [\<lparr>msg_role = User_role, msg_content = [Text_block CONTINUATION_TEXT]\<rparr>])"

text \<open>Keep what is paired on both sides: the sequence of steps that snipping and compaction share.\<close>

definition keep_pairs :: "message list \<Rightarrow> message list" where
  "keep_pairs ms =
     (let withoutDanglingCalls = stripUnpairedToolCalls ms (set (collectToolResultIds ms));
          paired = set (collectToolCallIds withoutDanglingCalls)
      in stripUnpairedToolResults withoutDanglingCalls paired)"

section \<open>Turns\<close>

text \<open>
  A turn starts at a user message that is not a result: the messages before the next start are
  grouped. Two callers have their own idea of a result.
\<close>

fun split_turns :: "(message \<Rightarrow> bool) \<Rightarrow> message list \<Rightarrow> message list \<Rightarrow> message list list" where
  "split_turns result_only current [] = (if current \<noteq> [] then [current] else [])"
| "split_turns result_only current (m # ms) =
     (if msg_role m = User_role \<and> \<not> result_only m \<and> current \<noteq> []
      then current # split_turns result_only [m] ms
      else split_turns result_only (current @ [m]) ms)"

text \<open>\<open>isToolResultOnly\<close> of \<open>protectedContext.ts\<close> and of \<open>SnipEngine.ts\<close>\<close>

definition result_only_direct :: "message \<Rightarrow> bool" where
  "result_only_direct m \<longleftrightarrow> msg_content m \<noteq> [] \<and> list_all (\<lambda>b. direct_result b \<noteq> None) (msg_content m)"

definition isToolResultOnly :: "message \<Rightarrow> bool" where
  "isToolResultOnly m \<longleftrightarrow> msg_content m \<noteq> []
     \<and> list_all (\<lambda>b. direct_result b \<noteq> None \<or> media_with_id b \<noteq> None) (msg_content m)"

definition splitMessagesIntoTurns :: "message list \<Rightarrow> message list list" where
  "splitMessagesIntoTurns ms = split_turns result_only_direct [] ms"

definition splitIntoTurns :: "message list \<Rightarrow> message list list" where
  "splitIntoTurns ms = split_turns isToolResultOnly [] ms"

section \<open>Protected context\<close>

definition DEFAULT_PROTECTED_TOOL_RESULT_NAMES :: "string list" where
  "DEFAULT_PROTECTED_TOOL_RESULT_NAMES =
     [''read_skill'', ''ReadSkill'', ''ask_user_question'', ''AskUserQuestion'', ''todo_write'', ''TodoWrite'',
      ''structured_output'', ''StructuredOutput'', ''agent'', ''Agent'', ''Task'', ''task_create'', ''TaskCreate'',
      ''task_list'', ''TaskList'', ''task_output'', ''TaskOutput'', ''task_wait'', ''TaskWait'', ''task_stop'', ''TaskStop'']"

definition protectedToolNameSet :: "string list option \<Rightarrow> string list" where
  "protectedToolNameSet names = (case names of None \<Rightarrow> DEFAULT_PROTECTED_TOOL_RESULT_NAMES | Some ns \<Rightarrow> ns)"

text \<open>\<open>Map.set\<close> keeps the last name of an id.\<close>

fun call_names :: "content_block list \<Rightarrow> (string \<rightharpoonup> string) \<Rightarrow> string \<rightharpoonup> string" where
  "call_names [] names = names"
| "call_names (b # bs) names = call_names bs (case b of Tool_call i n _ \<Rightarrow> names(i \<mapsto> n) | _ \<Rightarrow> names)"

definition collectToolNamesByCallId :: "message list \<Rightarrow> string \<rightharpoonup> string" where
  "collectToolNamesByCallId ms =
     call_names (concat (map (\<lambda>m. if msg_role m = Assistant_role then msg_content m else []) ms)) Map.empty"

definition isProtectedToolCallId :: "string \<Rightarrow> (string \<rightharpoonup> string) \<Rightarrow> string list \<Rightarrow> bool" where
  "isProtectedToolCallId i names protected =
     (case names i of None \<Rightarrow> False | Some n \<Rightarrow> n \<in> set protected)"

definition starts_with :: "string \<Rightarrow> string \<Rightarrow> bool" where
  "starts_with p s \<longleftrightarrow> take (length p) s = p"

definition hasMemoryContext :: "message \<Rightarrow> bool" where
  "hasMemoryContext m \<longleftrightarrow> list_ex (\<lambda>b. case b of
     Text_block t \<Rightarrow> starts_with ''<memory-context>'' (dropWhile is_space t) | _ \<Rightarrow> False) (msg_content m)"

definition isProtectedContextMessage :: "message \<Rightarrow> string list \<Rightarrow> (string \<rightharpoonup> string) \<Rightarrow> bool" where
  "isProtectedContextMessage m protected names \<longleftrightarrow> hasMemoryContext m
     \<or> list_ex (\<lambda>b. (case b of Tool_call _ n _ \<Rightarrow> n \<in> set protected | _ \<Rightarrow> False)
         \<or> (case direct_result b of Some i \<Rightarrow> isProtectedToolCallId i names protected | None \<Rightarrow> False)) (msg_content m)"

text \<open>The indexes refer to the turns of \<open>splitMessagesIntoTurns\<close>.\<close>

definition collectProtectedTurnIndexes :: "message list \<Rightarrow> string list \<Rightarrow> nat list" where
  "collectProtectedTurnIndexes ms protected =
     (let names = collectToolNamesByCallId ms; turns = splitMessagesIntoTurns ms in
      filter (\<lambda>i. list_ex (\<lambda>m. isProtectedContextMessage m protected names) (turns ! i)) [0..<length turns])"

section \<open>Facts about pairs and turns\<close>

definition has_block :: "message list \<Rightarrow> role \<Rightarrow> content_block \<Rightarrow> bool" where
  "has_block ms r b \<longleftrightarrow> (\<exists>m \<in> set ms. msg_role m = r \<and> b \<in> set (msg_content m))"

lemma set_map_filter_ids: "i \<in> set (List.map_filter f bs) \<longleftrightarrow> (\<exists>b \<in> set bs. f b = Some i)"
  by (force simp: List.map_filter_def image_iff)

lemma in_call_ids: "i \<in> set (collectToolCallIds ms) \<longleftrightarrow> (\<exists>b. has_block ms Assistant_role b \<and> call_id b = Some i)"
  by (auto simp: collectToolCallIds_def set_map_filter_ids has_block_def split: if_splits)

lemma in_result_ids: "i \<in> set (collectToolResultIds ms) \<longleftrightarrow> (\<exists>b. has_block ms User_role b \<and> direct_result b = Some i)"
  by (auto simp: collectToolResultIds_def set_map_filter_ids has_block_def split: if_splits)

lemma has_block_filtered:
  assumes "\<And>m. msg_role (f m) = msg_role m \<and> msg_content (f m) = filter (Q (msg_role m)) (msg_content m)"
  shows "has_block (filter (\<lambda>m. msg_content m \<noteq> []) (map f ms)) r b \<longleftrightarrow> has_block ms r b \<and> Q r b"
proof
  assume "has_block (filter (\<lambda>m. msg_content m \<noteq> []) (map f ms)) r b"
  then show "has_block ms r b \<and> Q r b" using assms by (auto simp: has_block_def)
next
  assume "has_block ms r b \<and> Q r b"
  then obtain m where m: "m \<in> set ms" "msg_role m = r" "b \<in> set (msg_content m)" "Q r b" by (auto simp: has_block_def)
  then have "b \<in> set (msg_content (f m))" "msg_role (f m) = r" using assms by auto
  moreover from this have "f m \<in> set (filter (\<lambda>m. msg_content m \<noteq> []) (map f ms))" using m(1) by auto
  ultimately show "has_block (filter (\<lambda>m. msg_content m \<noteq> []) (map f ms)) r b" unfolding has_block_def by blast
qed

lemma strip_calls_block [simp]:
  "has_block (stripUnpairedToolCalls ms ids) r b \<longleftrightarrow>
     has_block ms r b \<and> (r = Assistant_role \<longrightarrow> \<not> unpaired call_id ids b)"
  unfolding stripUnpairedToolCalls_def
  by (subst has_block_filtered [where Q = "\<lambda>r b. r = Assistant_role \<longrightarrow> \<not> unpaired call_id ids b"]) simp_all

lemma strip_results_block [simp]:
  "has_block (stripUnpairedToolResults ms ids) r b \<longleftrightarrow> has_block ms r b
     \<and> (r = User_role \<longrightarrow> \<not> unpaired direct_result ids b \<and> \<not> unpaired media_with_id ids b)"
  unfolding stripUnpairedToolResults_def
  by (subst has_block_filtered [where Q = "\<lambda>r b. r = User_role \<longrightarrow> \<not> unpaired direct_result ids b \<and> \<not> unpaired media_with_id ids b"])
    simp_all

lemma direct_no_media: "direct_result b = Some i \<Longrightarrow> media_with_id b = None"
  by (cases b) auto

lemma strip_calls_ids:
  "set (collectToolCallIds (stripUnpairedToolCalls ms ids)) = set (collectToolCallIds ms) \<inter> ids"
  "set (collectToolResultIds (stripUnpairedToolCalls ms ids)) = set (collectToolResultIds ms)"
  by (auto simp: in_call_ids in_result_ids; force)+

lemma strip_results_ids:
  "set (collectToolResultIds (stripUnpairedToolResults ms ids)) = set (collectToolResultIds ms) \<inter> ids"
  "set (collectToolCallIds (stripUnpairedToolResults ms ids)) = set (collectToolCallIds ms)"
  by (auto simp: in_call_ids in_result_ids direct_no_media; force simp: direct_no_media)+

text \<open>Both sides agree on their ids, and no call or result that had its partner is lost.\<close>

lemma keep_pairs_ids:
  "set (collectToolCallIds (keep_pairs ms)) = set (collectToolCallIds ms) \<inter> set (collectToolResultIds ms)"
  "set (collectToolResultIds (keep_pairs ms)) = set (collectToolCallIds ms) \<inter> set (collectToolResultIds ms)"
  by (auto simp: keep_pairs_def Let_def strip_calls_ids strip_results_ids)

text \<open>What is kept: every block but the calls, results and references without a partner.\<close>

lemma keep_pairs_block:
  "has_block (keep_pairs ms) r b \<longleftrightarrow> has_block ms r b
     \<and> (r = Assistant_role \<longrightarrow> \<not> unpaired call_id (set (collectToolResultIds ms)) b)
     \<and> (r = User_role \<longrightarrow> \<not> unpaired direct_result (set (collectToolCallIds ms) \<inter> set (collectToolResultIds ms)) b
          \<and> \<not> unpaired media_with_id (set (collectToolCallIds ms) \<inter> set (collectToolResultIds ms)) b)"
  by (auto simp: keep_pairs_def Let_def strip_calls_ids)

lemma concat_split_turns: "concat (split_turns P cur ms) = cur @ ms"
  by (induction P cur ms rule: split_turns.induct) auto

lemma split_turns_nonempty: "t \<in> set (split_turns P cur ms) \<Longrightarrow> t \<noteq> []"
  by (induction P cur ms rule: split_turns.induct) (auto split: if_splits)

lemma ensureTrailing_ids [simp]:
  "collectToolCallIds (ensureTrailingUserMessage ms) = collectToolCallIds ms"
  "collectToolResultIds (ensureTrailingUserMessage ms) = collectToolResultIds ms"
  by (auto simp: ensureTrailingUserMessage_def collectToolCallIds_def collectToolResultIds_def List.map_filter_def)

lemma ensureTrailing_last: "ensureTrailingUserMessage ms \<noteq> [] \<Longrightarrow> msg_role (last (ensureTrailingUserMessage ms)) = User_role"
  by (cases "msg_role (last ms)") (auto simp: ensureTrailingUserMessage_def split: if_splits)

end
