(* ===== verification/Context_Projection.thy ===== *)
theory Context_Projection
  imports Conversation
begin

text \<open>
  \<open>src/context/projection/MessageProjector.ts\<close>: the messages as they are sent to a model, with the
  window on recent messages, placeholder results for calls without one and without results whose
  call is gone. The protocol of a model provider is \<open>answered\<close>; the projection always meets it.
\<close>

section \<open>The projector\<close>

datatype projection_warning =
    Context_truncated nat nat
  | Tool_result_orphaned string
  | Tool_result_injected string

definition toolPairSafeTruncate :: "message list \<Rightarrow> nat \<Rightarrow> message list \<times> nat" where
  "toolPairSafeTruncate ms maxMessages =
     (if length ms \<le> maxMessages then (ms, 0)
      else let sliced = dropWhile isToolResultOnly (drop (length ms - maxMessages) ms)
           in (sliced, length ms - length sliced))"

definition placeholder :: "string \<Rightarrow> content_block" where
  "placeholder i = Tool_result i [Item_text ''[result truncated]''] False"

definition injectPlaceholderResults :: "string list \<Rightarrow> message list \<times> projection_warning list" where
  "injectPlaceholderResults ids =
     ([\<lparr>msg_role = User_role, msg_content = map placeholder ids\<rparr>], map Tool_result_injected ids)"

definition flush :: "string list \<Rightarrow> message list \<times> projection_warning list" where
  "flush pending = (if pending \<noteq> [] then injectPlaceholderResults pending else ([], []))"

definition call_ids_of :: "message \<Rightarrow> string list" where
  "call_ids_of m = List.map_filter call_id (msg_content m)"

definition direct_ids_of :: "message \<Rightarrow> string list" where
  "direct_ids_of m = List.map_filter direct_result (msg_content m)"

definition media_ids_of :: "message \<Rightarrow> string list" where
  "media_ids_of m = List.map_filter media_with_id (msg_content m)"

text \<open>The result or reference of a block, when it is not answered for: the id of its warning.\<close>

definition orphan_of :: "string set \<Rightarrow> string list \<Rightarrow> content_block \<Rightarrow> string option" where
  "orphan_of visible pending b =
     (case direct_result b of
        Some i \<Rightarrow> if i \<in> set pending then None else Some i
      | None \<Rightarrow> (case media_with_id b of Some i \<Rightarrow> if i \<in> visible then None else Some i | None \<Rightarrow> None))"

definition emit_before :: "message list \<times> projection_warning list \<Rightarrow> message list \<times> projection_warning list \<Rightarrow>
    message list \<times> projection_warning list" where
  "emit_before a b = (fst a @ fst b, snd a @ snd b)"

fun repair_from :: "string set \<Rightarrow> string list \<Rightarrow> message list \<Rightarrow> message list \<times> projection_warning list" where
  "repair_from visible pending [] = flush pending"
| "repair_from visible pending (m # ms) =
     (if msg_role m = Assistant_role
      then emit_before (flush pending) (emit_before ([m], []) (repair_from visible (call_ids_of m) ms))
      else let seen = direct_ids_of m;
               hasOrphans = (\<not> set seen \<subseteq> set pending \<or> \<not> set (media_ids_of m) \<subseteq> visible);
               kept = filter (\<lambda>b. orphan_of visible pending b = None) (msg_content m);
               warned = map Tool_result_orphaned (List.map_filter (orphan_of visible pending) (msg_content m));
               pending' = filter (\<lambda>i. i \<notin> set seen) pending
           in if hasOrphans \<and> kept = [] then emit_before ([], warned) (repair_from visible pending' ms)
              else if hasOrphans
              then emit_before ([m\<lparr>msg_content := kept\<rparr>], warned) (repair_from visible pending' ms)
              else emit_before ([m], []) (repair_from visible pending' ms))"

definition repairToolResultPairing :: "message list \<Rightarrow> message list \<times> projection_warning list" where
  "repairToolResultPairing ms = repair_from (set (collectToolCallIds ms)) [] ms"

definition project :: "message list \<Rightarrow> nat option \<Rightarrow> message list \<times> nat \<times> projection_warning list" where
  "project messages maxMessages =
     (let (windowed, dropped, w1) =
        (case maxMessages of
           None \<Rightarrow> (messages, 0, [])
         | Some n \<Rightarrow> if n < length messages
                     then (case toolPairSafeTruncate messages n of (ms, d) \<Rightarrow>
                             (ms, d, if 0 < d then [Context_truncated d n] else []))
                     else (messages, 0, []));
          (projected, w2) = repairToolResultPairing windowed
      in (projected, dropped, w1 @ w2))"

section \<open>The protocol\<close>

text \<open>
  Every call is answered before the next assistant message or the end, and a result answers a call
  that waits for it.
\<close>

fun answered :: "string list \<Rightarrow> message list \<Rightarrow> bool" where
  "answered pending [] \<longleftrightarrow> pending = []"
| "answered pending (m # ms) \<longleftrightarrow>
     (if msg_role m = Assistant_role then pending = [] \<and> answered (call_ids_of m) ms
      else list_all (\<lambda>i. i \<in> set pending) (direct_ids_of m)
        \<and> answered (filter (\<lambda>i. i \<notin> set (direct_ids_of m)) pending) ms)"

definition media_known :: "string set \<Rightarrow> message list \<Rightarrow> bool" where
  "media_known visible ms \<longleftrightarrow>
     list_all (\<lambda>m. msg_role m = Assistant_role \<or> list_all (\<lambda>i. i \<in> visible) (media_ids_of m)) ms"

definition wellFormed :: "message list \<Rightarrow> bool" where
  "wellFormed ms \<longleftrightarrow> answered [] ms \<and> media_known (set (collectToolCallIds ms)) ms"

lemma direct_ids_placeholders: "List.map_filter direct_result (map placeholder ids) = ids"
  by (induction ids) (auto simp: placeholder_def List.map_filter_def)

lemma answered_flush: "answered pending (fst (flush pending) @ ms) \<longleftrightarrow> answered [] ms"
proof (cases "pending = []")
  case False
  have "filter (\<lambda>i. i \<notin> set pending) pending = []" by (simp add: filter_empty_conv)
  then show ?thesis using False
    by (simp add: flush_def injectPlaceholderResults_def direct_ids_of_def direct_ids_placeholders list_all_iff)
qed (simp add: flush_def)

lemma direct_ids_kept:
  "List.map_filter direct_result (filter (\<lambda>b. orphan_of visible pending b = None) bs)
     = filter (\<lambda>i. i \<in> set pending) (List.map_filter direct_result bs)"
  by (induction bs) (auto simp: List.map_filter_def orphan_of_def split: option.splits if_splits)

lemma media_ids_kept:
  "List.map_filter media_with_id (filter (\<lambda>b. orphan_of visible pending b = None) bs)
     = filter (\<lambda>i. i \<in> visible) (List.map_filter media_with_id bs)"
  by (induction bs) (auto simp: List.map_filter_def orphan_of_def dest: direct_no_media split: option.splits if_splits)

lemma answered_nothing_kept:
  "filter (\<lambda>b. orphan_of visible pending b = None) bs = [] \<Longrightarrow>
     filter (\<lambda>i. i \<notin> set (List.map_filter direct_result bs)) pending = pending"
proof -
  assume "filter (\<lambda>b. orphan_of visible pending b = None) bs = []"
  then have "filter (\<lambda>i. i \<in> set pending) (List.map_filter direct_result bs) = []"
    using direct_ids_kept [of visible pending bs] by (simp add: List.map_filter_def)
  then show ?thesis by (auto simp: filter_empty_conv filter_id_conv)
qed

lemma repair_answered: "answered pending (fst (repair_from visible pending ms))"
proof (induction ms arbitrary: pending)
  case Nil
  show ?case using answered_flush [of pending "[]"] by simp
next
  case (Cons m ms)
  show ?case
  proof (cases "msg_role m = Assistant_role")
    case True
    then show ?thesis using Cons.IH by (simp add: emit_before_def answered_flush)
  next
    case False
    define seen where "seen = direct_ids_of m"
    define kept where "kept = filter (\<lambda>b. orphan_of visible pending b = None) (msg_content m)"
    have IH: "answered (filter (\<lambda>i. i \<notin> set seen) pending) (fst (repair_from visible (filter (\<lambda>i. i \<notin> set seen) pending) ms))"
      by (rule Cons.IH)
    have dk: "List.map_filter direct_result kept = filter (\<lambda>i. i \<in> set pending) seen"
      by (simp add: kept_def seen_def direct_ids_of_def direct_ids_kept)
    have pk: "filter (\<lambda>i. i \<in> set seen \<longrightarrow> i \<notin> set pending) pending = filter (\<lambda>i. i \<notin> set seen) pending"
      by (rule filter_cong) auto
    have e: "filter (\<lambda>i. i \<notin> set seen) pending = pending" if "kept = []"
      using answered_nothing_kept [of visible pending "msg_content m"] that
      unfolding kept_def seen_def direct_ids_of_def by blast
    show ?thesis
    proof (cases "set seen \<subseteq> set pending \<and> set (media_ids_of m) \<subseteq> visible")
      case True
      then show ?thesis using IH False by (auto simp: emit_before_def Let_def list_all_iff seen_def)
    next
      case orphans: False
      show ?thesis
      proof (cases "kept = []")
        case True
        have "fst (repair_from visible pending (m # ms)) =
            fst (repair_from visible (filter (\<lambda>i. i \<notin> set seen) pending) ms)"
          using False orphans True unfolding seen_def kept_def by (simp add: emit_before_def Let_def)
        then show ?thesis using IH e [OF True] by simp
      next
        case keep: False
        have "direct_ids_of (m\<lparr>msg_content := kept\<rparr>) = filter (\<lambda>i. i \<in> set pending) seen"
          using dk by (simp add: direct_ids_of_def)
        moreover have "fst (repair_from visible pending (m # ms)) =
            m\<lparr>msg_content := kept\<rparr> # fst (repair_from visible (filter (\<lambda>i. i \<notin> set seen) pending) ms)"
          using False orphans keep by (auto simp: emit_before_def Let_def seen_def kept_def)
        ultimately show ?thesis using IH False pk by (simp add: list_all_iff)
      qed
    qed
  qed
qed

lemma repair_media: "media_known visible (fst (repair_from visible pending ms))"
proof (induction ms arbitrary: pending)
  case Nil
  show ?case by (auto simp: flush_def injectPlaceholderResults_def media_known_def media_ids_of_def placeholder_def List.map_filter_def list_all_iff)
next
  case (Cons m ms)
  have f: "media_known visible (fst (flush ids))" for ids
    by (auto simp: flush_def injectPlaceholderResults_def media_known_def media_ids_of_def placeholder_def List.map_filter_def list_all_iff)
  have app: "media_known visible (as @ bs) \<longleftrightarrow> media_known visible as \<and> media_known visible bs" for as bs
    by (simp add: media_known_def)
  have kept: "media_known visible [m\<lparr>msg_content := filter (\<lambda>b. orphan_of visible pending b = None) (msg_content m)\<rparr>]"
    by (auto simp: media_known_def media_ids_of_def media_ids_kept list_all_iff)
  have whole: "set (media_ids_of m) \<subseteq> visible \<Longrightarrow> media_known visible [m]" by (auto simp: media_known_def list_all_iff)
  show ?case
  proof (cases "msg_role m = Assistant_role")
    case True
    then have "media_known visible [m]" by (simp add: media_known_def)
    then have "media_known visible (m # fst (repair_from visible (call_ids_of m) ms))"
      using Cons.IH [of "call_ids_of m"] by (simp add: media_known_def)
    then show ?thesis using True f by (simp add: emit_before_def app)
  next
    case False
    let ?rest = "fst (repair_from visible (filter (\<lambda>i. i \<notin> set (direct_ids_of m)) pending) ms)"
    let ?kept = "m\<lparr>msg_content := filter (\<lambda>b. orphan_of visible pending b = None) (msg_content m)\<rparr>"
    have rest: "media_known visible ?rest" by (rule Cons.IH)
    have "fst (repair_from visible pending (m # ms)) = ?rest \<or> fst (repair_from visible pending (m # ms)) = ?kept # ?rest
      \<or> fst (repair_from visible pending (m # ms)) = m # ?rest \<and> set (media_ids_of m) \<subseteq> visible"
      using False by (simp add: emit_before_def Let_def)
    then consider "fst (repair_from visible pending (m # ms)) = ?rest" | "fst (repair_from visible pending (m # ms)) = ?kept # ?rest"
      | "fst (repair_from visible pending (m # ms)) = m # ?rest \<and> set (media_ids_of m) \<subseteq> visible" by blast
    then show ?thesis
    proof cases
      case 2
      then show ?thesis using rest kept app [of "[?kept]" ?rest] by simp
    next
      case 3
      then show ?thesis using rest whole app [of "[m]" ?rest] by simp
    qed (use rest in simp)
  qed
qed

lemma placeholders_no_calls: "List.map_filter call_id (map placeholder ids) = []"
  by (induction ids) (auto simp: placeholder_def List.map_filter_def)

text \<open>What the assistant said is sent as it is, and what is neither a result nor a reference stays.\<close>

lemma repair_assistant:
  "filter (\<lambda>m. msg_role m = Assistant_role) (fst (repair_from visible pending ms)) = filter (\<lambda>m. msg_role m = Assistant_role) ms"
  by (induction ms arbitrary: pending) (auto simp: emit_before_def flush_def injectPlaceholderResults_def Let_def)

lemma collectToolCallIds_filter:
  "collectToolCallIds ms = concat (map call_ids_of (filter (\<lambda>m. msg_role m = Assistant_role) ms))"
  by (induction ms) (auto simp: collectToolCallIds_def call_ids_of_def)

lemma repair_calls: "collectToolCallIds (fst (repair_from visible pending ms)) = collectToolCallIds ms"
  by (simp add: collectToolCallIds_filter repair_assistant)

lemma repair_wellFormed: "wellFormed (fst (repairToolResultPairing ms))"
  by (simp add: wellFormed_def repairToolResultPairing_def repair_answered repair_media repair_calls)

definition said :: "message list \<Rightarrow> content_block list" where
  "said ms = concat (map (\<lambda>m. if msg_role m = User_role
     then filter (\<lambda>b. direct_result b = None \<and> media_with_id b = None) (msg_content m) else msg_content m) ms)"

lemma said_placeholders: "filter (\<lambda>b. direct_result b = None \<and> media_with_id b = None) (map placeholder ids) = []"
  by (simp add: filter_empty_conv placeholder_def)

lemma said_kept:
  "filter (\<lambda>b. direct_result b = None \<and> media_with_id b = None) (filter (\<lambda>b. orphan_of visible pending b = None) bs)
     = filter (\<lambda>b. direct_result b = None \<and> media_with_id b = None) bs"
  by (induction bs) (auto simp: orphan_of_def)

lemma repair_said: "said (fst (repair_from visible pending ms)) = said ms"
proof (induction ms arbitrary: pending)
  case Nil
  show ?case by (simp add: said_def flush_def injectPlaceholderResults_def said_placeholders)
next
  case (Cons m ms)
  have f: "said (fst (flush ids)) = []" for ids
    by (simp add: said_def flush_def injectPlaceholderResults_def said_placeholders)
  have app: "said (as @ bs) = said as @ said bs" for as bs by (simp add: said_def)
  have none: "filter (\<lambda>b. orphan_of visible pending b = None) (msg_content m) = [] \<Longrightarrow>
      filter (\<lambda>b. direct_result b = None \<and> media_with_id b = None) (msg_content m) = []"
    using said_kept [of visible pending "msg_content m"] by simp
  show ?case
  proof (cases "msg_role m")
    case Assistant_role
    then have "fst (repair_from visible pending (m # ms)) = fst (flush pending) @ m # fst (repair_from visible (call_ids_of m) ms)"
      by (simp add: emit_before_def)
    then show ?thesis using Cons.IH [of "call_ids_of m"] app [of "[m]" "fst (repair_from visible (call_ids_of m) ms)"]
        app [of "[m]" ms] by (simp add: app f)
  next
    case User_role
    then have "said (m # ms) = filter (\<lambda>b. direct_result b = None \<and> media_with_id b = None) (msg_content m) @ said ms"
      by (simp add: said_def)
    moreover have "said (m\<lparr>msg_content := filter (\<lambda>b. orphan_of visible pending b = None) (msg_content m)\<rparr> # as)
        = filter (\<lambda>b. direct_result b = None \<and> media_with_id b = None) (msg_content m) @ said as"
      "said (m # as) = filter (\<lambda>b. direct_result b = None \<and> media_with_id b = None) (msg_content m) @ said as" for as
      using User_role said_kept [of visible pending "msg_content m"] by (simp_all add: said_def)
    moreover have r: "said (fst (repair_from visible (filter (\<lambda>i. i \<notin> set (direct_ids_of m)) pending) ms)) = said ms"
      by (rule Cons.IH)
    ultimately show ?thesis using User_role none by (simp add: emit_before_def Let_def)
  qed
qed

text \<open>Nothing is changed, and nothing reported, when the protocol is met already.\<close>

lemma repair_unchanged:
  "answered pending ms \<Longrightarrow> media_known visible ms \<Longrightarrow> repair_from visible pending ms = (ms, [])"
proof (induction ms arbitrary: pending)
  case Nil
  then show ?case by (simp add: flush_def)
next
  case (Cons m ms)
  show ?case
  proof (cases "msg_role m = Assistant_role")
    case True
    then have "repair_from visible (call_ids_of m) ms = (ms, [])" using Cons by (simp add: media_known_def)
    then show ?thesis using True Cons.prems by (simp add: emit_before_def flush_def)
  next
    case False
    then have "repair_from visible (filter (\<lambda>i. i \<notin> set (direct_ids_of m)) pending) ms = (ms, [])"
      using Cons by (simp add: media_known_def)
    moreover have "set (direct_ids_of m) \<subseteq> set pending" "set (media_ids_of m) \<subseteq> visible"
      using Cons.prems False by (auto simp: media_known_def list_all_iff)
    ultimately show ?thesis using False by (simp add: emit_before_def Let_def)
  qed
qed

section \<open>The window\<close>

lemma window_suffix:
  assumes "toolPairSafeTruncate ms n = (out, d)"
  shows "out = drop d ms \<and> length out \<le> max n (length out) \<and> (d = 0 \<or> length out \<le> n)
    \<and> (d = 0 \<or> out = [] \<or> \<not> isToolResultOnly (hd out))"
proof (cases "length ms \<le> n")
  case True
  then show ?thesis using assms by (simp add: toolPairSafeTruncate_def)
next
  case False
  let ?s = "drop (length ms - n) ms"
  let ?o = "dropWhile isToolResultOnly ?s"
  have o: "out = ?o" "d = length ms - length ?o" using assms False by (auto simp: toolPairSafeTruncate_def Let_def)
  have len: "length ?o \<le> length ?s" by (rule length_dropWhile_le)
  have sp: "takeWhile isToolResultOnly ?s @ ?o = ?s" by simp
  have "?o = drop (length (takeWhile isToolResultOnly ?s)) ?s" by (rule dropWhile_eq_drop)
  also have "length (takeWhile isToolResultOnly ?s) = length ?s - length ?o"
    using arg_cong [OF sp, of length] by (simp del: takeWhile_dropWhile_id)
  finally have "?o = drop (length ?s - length ?o) ?s" .
  also have "\<dots> = drop (length ms - length ?o) ms" using len False by (simp add: drop_drop)
  finally have "out = drop d ms" using o by simp
  moreover have "length out \<le> n" using len o(1) by simp
  moreover have "out = [] \<or> \<not> isToolResultOnly (hd out)" using hd_dropWhile [of isToolResultOnly ?s] o(1) by blast
  ultimately show ?thesis by simp
qed

section \<open>The projection\<close>

text \<open>
  C25: Whatever messages are projected, with whatever window, every tool call that is sent is
  answered before the next assistant message and every result and media reference that is sent has
  its call; what the assistant said and what the user wrote in the window is all sent in order.
\<close>

theorem projection_wellFormed:
  "case project messages maxMessages of (out, dropped, _) \<Rightarrow>
     wellFormed out \<and> said out = said (drop dropped messages)
     \<and> filter (\<lambda>m. msg_role m = Assistant_role) out = filter (\<lambda>m. msg_role m = Assistant_role) (drop dropped messages)"
proof -
  obtain windowed dropped w where w: "(case maxMessages of None \<Rightarrow> (messages, 0, [])
      | Some n \<Rightarrow> if n < length messages then (case toolPairSafeTruncate messages n of (ms, d) \<Rightarrow>
            (ms, d, if 0 < d then [Context_truncated d n] else [])) else (messages, 0, [])) = (windowed, dropped, w)"
    (is "?w = _") by (cases ?w)
  have d: "windowed = drop dropped messages"
    using w window_suffix [of messages] by (auto split: option.splits if_splits prod.splits)
  obtain out w2 where r: "repairToolResultPairing windowed = (out, w2)" by (cases "repairToolResultPairing windowed")
  have "project messages maxMessages = (out, dropped, w @ w2)" unfolding project_def w Let_def by (simp add: r)
  moreover have "wellFormed out" using repair_wellFormed [of windowed] r by simp
  moreover have "said out = said windowed"
    "filter (\<lambda>m. msg_role m = Assistant_role) out = filter (\<lambda>m. msg_role m = Assistant_role) windowed"
    using repair_said [of "set (collectToolCallIds windowed)" "[]" windowed]
      repair_assistant [of "set (collectToolCallIds windowed)" "[]" windowed] r
    by (simp_all add: repairToolResultPairing_def)
  ultimately show ?thesis using d by simp
qed

text \<open>
  Projecting what was projected changes nothing and reports nothing, and so does projecting any
  conversation that meets the protocol of a provider.
\<close>

lemma projection_idempotent:
  "(case repairToolResultPairing ms of (out, _) \<Rightarrow> repairToolResultPairing out = (out, []))
     \<and> (repairToolResultPairing ms = (ms, []) \<longleftrightarrow> wellFormed ms)"
proof -
  have "repairToolResultPairing xs = (xs, [])" if "wellFormed xs" for xs
    using that repair_unchanged by (simp add: wellFormed_def repairToolResultPairing_def)
  then show ?thesis using repair_wellFormed [of ms] by (auto split: prod.splits)
qed

end
