(* ===== verification/Context_Budget.thy ===== *)
theory Context_Budget
  imports Complex_Main Conversation
begin

text \<open>
  The budget of a conversation: \<open>src/context/budget/TokenBudgetManager.ts\<close>,
  \<open>effectiveContext.ts\<close>, the decision of \<open>src/context/compaction/AutoCompactionPolicy.ts\<close>, and the
  size check and preview of \<open>src/context/budget/ToolResultBudget.ts\<close>. The tokenizer is a parameter;
  ratios are rational numbers.
\<close>

section \<open>Estimates\<close>

record budget_manager =
  bm_multimedia :: nat
  bm_warning :: rat
  bm_blocking :: rat
  bm_overhead :: nat

definition IMAGE_MAX_TOKEN_SIZE :: nat where
  "IMAGE_MAX_TOKEN_SIZE = 2000"

definition newBudgetManager :: "nat option \<Rightarrow> rat option \<Rightarrow> rat option \<Rightarrow> nat option \<Rightarrow> budget_manager" where
  "newBudgetManager mm warn block overhead =
     \<lparr>bm_multimedia = case_option IMAGE_MAX_TOKEN_SIZE id mm, bm_warning = case_option (8 / 10) id warn,
      bm_blocking = case_option (95 / 100) id block, bm_overhead = case_option 4 id overhead\<rparr>"

fun estimateForBlock :: "(string \<Rightarrow> nat) \<Rightarrow> budget_manager \<Rightarrow> content_block \<Rightarrow> nat" where
  "estimateForBlock countTokens bm (Text_block t) = countTokens t"
| "estimateForBlock countTokens bm (Thinking_block t) = countTokens t"
| "estimateForBlock countTokens bm (Image_block _ _ _) = bm_multimedia bm"
| "estimateForBlock countTokens bm (Pdf_block _ _ _) = bm_multimedia bm"
| "estimateForBlock countTokens bm (Audio_block _ _ _) = bm_multimedia bm"
| "estimateForBlock countTokens bm (Tool_call _ name input) = countTokens (name @ input)"
| "estimateForBlock countTokens bm (Tool_result _ items _) = countTokens (flattenToolResultContentText items)"
| "estimateForBlock countTokens bm (Tool_result_reference _ preview) = countTokens preview"
| "estimateForBlock countTokens bm (Media_reference _ _) = bm_multimedia bm"

definition estimateForMessage :: "(string \<Rightarrow> nat) \<Rightarrow> budget_manager \<Rightarrow> message \<Rightarrow> nat" where
  "estimateForMessage countTokens bm m = foldl (\<lambda>n b. n + estimateForBlock countTokens bm b) (bm_overhead bm) (msg_content m)"

definition estimateForMessages :: "(string \<Rightarrow> nat) \<Rightarrow> budget_manager \<Rightarrow> message list \<Rightarrow> nat" where
  "estimateForMessages countTokens bm ms = foldl (\<lambda>n m. n + estimateForMessage countTokens bm m) 0 ms"

text \<open>The estimate times 4/3, rounded up.\<close>

definition estimateForMessagesWithPadding :: "(string \<Rightarrow> nat) \<Rightarrow> budget_manager \<Rightarrow> message list \<Rightarrow> nat" where
  "estimateForMessagesWithPadding countTokens bm ms =
     (let raw = estimateForMessages countTokens bm ms in if raw = 0 then 0 else (raw * 4 + 2) div 3)"

section \<open>Snapshots\<close>

datatype warning_state = Budget_ok | Budget_warning | Budget_blocking

record snapshot_budget =
  sb_tokens :: nat
  sb_budget :: nat
  sb_max :: int
  sb_reserved :: nat
  sb_state :: warning_state
  sb_ratio :: rat

definition effectiveInputContextTokens :: "int \<Rightarrow> nat \<Rightarrow> int" where
  "effectiveInputContextTokens maxContextTokens maxOutputTokens =
     (if maxContextTokens \<le> 0 then maxContextTokens else max 1 (maxContextTokens - int maxOutputTokens))"

definition snapshotFromTokens :: "budget_manager \<Rightarrow> nat \<Rightarrow> int \<Rightarrow> nat option \<Rightarrow> nat option \<Rightarrow> snapshot_budget" where
  "snapshotFromTokens bm tokens maxContextTokens reservedOutputTokens budgetTokens0 =
     (let budgetTokens = (case budgetTokens0 of None \<Rightarrow> tokens | Some b \<Rightarrow> max b tokens);
          reserved = (case reservedOutputTokens of None \<Rightarrow> 0 | Some r \<Rightarrow> r);
          promptBudget = effectiveInputContextTokens maxContextTokens reserved;
          ratio = (if 0 < promptBudget then of_nat budgetTokens / of_int promptBudget else 0)
      in \<lparr>sb_tokens = tokens, sb_budget = budgetTokens, sb_max = promptBudget, sb_reserved = reserved,
          sb_state = (if bm_blocking bm \<le> ratio then Budget_blocking
                      else if bm_warning bm \<le> ratio then Budget_warning else Budget_ok),
          sb_ratio = ratio\<rparr>)"

text \<open>What the provider reported of the last request; fractions do not occur.\<close>

definition tokensFromUsage :: "(int option \<times> int option) option \<Rightarrow> nat option" where
  "tokensFromUsage usage =
     (case usage of
        Some (Some i, out) \<Rightarrow>
          if 0 < i then Some (nat (i + (case out of Some n \<Rightarrow> if 0 < n then n else 0 | None \<Rightarrow> 0))) else None
      | _ \<Rightarrow> None)"

definition evaluate_budget ::
  "(string \<Rightarrow> nat) \<Rightarrow> budget_manager \<Rightarrow> int \<Rightarrow> bool \<Rightarrow> nat option \<Rightarrow> (int option \<times> int option) option \<Rightarrow>
     message list \<Rightarrow> snapshot_budget" where
  "evaluate_budget countTokens bm maxContextTokens usePadding reserved lastUsage ms =
     (let estimated = (if usePadding then estimateForMessagesWithPadding countTokens bm ms
                       else estimateForMessages countTokens bm ms);
          tokens = (case tokensFromUsage lastUsage of Some u \<Rightarrow> max u estimated | None \<Rightarrow> estimated)
      in snapshotFromTokens bm tokens maxContextTokens reserved None)"

datatype compaction_reason = Warning_threshold | Blocking_threshold

definition evaluateSnapshot :: "snapshot_budget \<Rightarrow> compaction_reason option" where
  "evaluateSnapshot s =
     (case sb_state s of Budget_blocking \<Rightarrow> Some Blocking_threshold | Budget_warning \<Rightarrow> Some Warning_threshold
      | Budget_ok \<Rightarrow> None)"

section \<open>Previews of tool results\<close>

text \<open>The bytes of a text in UTF-8, whose characters are code units below 256.\<close>

definition char_bytes :: "char \<Rightarrow> nat" where
  "char_bytes c = (if (of_char c :: nat) < 128 then 1 else 2)"

definition byteLength :: "string \<Rightarrow> nat" where
  "byteLength s = sum_list (map char_bytes s)"

text \<open>Cut at a byte count, and back to the beginning of the character that is cut.\<close>

fun truncateToBytes :: "string \<Rightarrow> nat \<Rightarrow> string" where
  "truncateToBytes [] maxBytes = []"
| "truncateToBytes (c # s) maxBytes =
     (if char_bytes c \<le> maxBytes then c # truncateToBytes s (maxBytes - char_bytes c) else [])"

definition js_slice_from :: "int \<Rightarrow> string \<Rightarrow> string" where
  "js_slice_from i s = drop (nat i) s"

definition headTailPreview :: "string \<Rightarrow> nat \<Rightarrow> string" where
  "headTailPreview s budgetBytes =
     (let totalBytes = byteLength s; halfBudget = int (budgetBytes div 2) - 20 in
      if totalBytes \<le> budgetBytes then s
      else if halfBudget \<le> 0 then truncateToBytes s budgetBytes
      else let hd' = truncateToBytes s (nat halfBudget);
               tailStart = int (length s) - halfBudget * 2;
               tl' = (if 0 < tailStart then js_slice_from tailStart s else []);
               omitted = int totalBytes - int (byteLength hd') - int (byteLength tl')
           in hd' @ [CHR 0x0A, CHR 0x0A] @ ''... ['' @ show_int omitted @ '' bytes omitted] ...''
              @ [CHR 0x0A, CHR 0x0A] @ tl')"

section \<open>Facts\<close>

lemma foldl_add_nat: "foldl (\<lambda>n x. n + f x) (a::nat) xs = a + sum_list (map f xs)"
  by (induction xs arbitrary: a) auto

lemma estimateForMessages_append:
  "estimateForMessages ct bm (xs @ ys) = estimateForMessages ct bm xs + estimateForMessages ct bm ys"
  by (simp add: estimateForMessages_def foldl_add_nat)

text \<open>
  A budget state is monotone: more tokens, a smaller context or a larger reserve never lower it.
\<close>

fun state_rank :: "warning_state \<Rightarrow> nat" where
  "state_rank Budget_ok = 0"
| "state_rank Budget_warning = 1"
| "state_rank Budget_blocking = 2"

lemma state_rank_mono:
  assumes "t \<le> t'" "0 < m'" "m' \<le> m" "(case r of None \<Rightarrow> 0 | Some n \<Rightarrow> n) \<le> (case r' of None \<Rightarrow> 0 | Some n \<Rightarrow> n)"
  shows "state_rank (sb_state (snapshotFromTokens bm t m r None)) \<le> state_rank (sb_state (snapshotFromTokens bm t' m' r' None))"
proof -
  define b where "b = effectiveInputContextTokens m ((case r of None \<Rightarrow> 0 | Some n \<Rightarrow> n))"
  define b' where "b' = effectiveInputContextTokens m' ((case r' of None \<Rightarrow> 0 | Some n \<Rightarrow> n))"
  have b: "0 < b'" "b' \<le> b" using assms by (auto simp: b_def b'_def effectiveInputContextTokens_def)
  have "(of_nat t :: rat) / of_int b \<le> of_nat t' / of_int b'"
    using assms(1) b by (intro frac_le) auto
  moreover have "sb_state (snapshotFromTokens bm t m r None) =
      (if bm_blocking bm \<le> of_nat t / of_int b then Budget_blocking
       else if bm_warning bm \<le> of_nat t / of_int b then Budget_warning else Budget_ok)"
    using b by (simp add: snapshotFromTokens_def Let_def b_def)
  moreover have "sb_state (snapshotFromTokens bm t' m' r' None) =
      (if bm_blocking bm \<le> of_nat t' / of_int b' then Budget_blocking
       else if bm_warning bm \<le> of_nat t' / of_int b' then Budget_warning else Budget_ok)"
    using b by (simp add: snapshotFromTokens_def Let_def b'_def)
  ultimately show ?thesis by auto
qed

text \<open>Without a positive context nothing is ever too much.\<close>

lemma no_context_ok: "0 < bm_warning bm \<Longrightarrow> 0 < bm_blocking bm \<Longrightarrow> m \<le> 0 \<Longrightarrow>
    sb_state (snapshotFromTokens bm t m r x) = Budget_ok"
  by (simp add: snapshotFromTokens_def Let_def effectiveInputContextTokens_def)

lemma byteLength_append: "byteLength (a @ b) = byteLength a + byteLength b"
  by (simp add: byteLength_def)

lemma truncateToBytes_bound: "byteLength (truncateToBytes s n) \<le> n"
  by (induction s n rule: truncateToBytes.induct) (auto simp: byteLength_def)

lemma truncateToBytes_take: "\<exists>k. truncateToBytes s n = take k s"
proof (induction s n rule: truncateToBytes.induct)
  case (2 c s n)
  show ?case
  proof (cases "char_bytes c \<le> n")
    case True
    then obtain k where "truncateToBytes s (n - char_bytes c) = take k s" using 2 by blast
    then have "truncateToBytes (c # s) n = take (Suc k) (c # s)" using True by simp
    then show ?thesis by blast
  qed (auto intro: exI [of _ 0])
qed simp

lemma ascii_bytes: "list_all (\<lambda>c. (of_char c :: nat) < 128) s \<Longrightarrow> byteLength s = length s"
  by (induction s) (auto simp: byteLength_def char_bytes_def)

lemma ascii_truncate: "list_all (\<lambda>c. (of_char c :: nat) < 128) s \<Longrightarrow> truncateToBytes s n = take n s"
  by (induction s n rule: truncateToBytes.induct) (auto simp: char_bytes_def take_Cons')

text \<open>
  The preview is longer than its budget: its end is twice the half that the budget has for it.
\<close>

lemma preview_longer_than_budget:
  assumes "list_all (\<lambda>c. (of_char c :: nat) < 128) s" "120 \<le> budget" "budget < length s"
  shows "budget < length (headTailPreview s budget)"
proof -
  define h where "h = budget div 2 - 20"
  have h: "int (budget div 2) - 20 = int h" "40 \<le> h" "budget \<le> 2 * h + 41" using assms(2) by (auto simp: h_def)
  have l: "2 * h < length s" using assms(3) h_def by linarith
  have "length (headTailPreview s budget) \<ge> 3 * h"
    unfolding headTailPreview_def Let_def h(1) ascii_bytes [OF assms(1)] ascii_truncate [OF assms(1)]
    using assms(3) h(2) l by (simp add: js_slice_from_def)
  moreover have "budget < 3 * h + 4" using h by linarith
  moreover have "length (headTailPreview s budget) \<ge> 3 * h + 4"
    unfolding headTailPreview_def Let_def h(1) ascii_bytes [OF assms(1)] ascii_truncate [OF assms(1)]
    using assms(3) h(2) l by (simp add: js_slice_from_def)
  ultimately show ?thesis by linarith
qed

lemma preview_negative_omission:
  "headTailPreview (replicate 121 CHR ''a'') 120 =
     replicate 40 CHR ''a'' @ [CHR 0x0A, CHR 0x0A] @ ''... [1 bytes omitted] ...'' @ [CHR 0x0A, CHR 0x0A] @ replicate 80 CHR ''a''
   \<and> headTailPreview (replicate 201 CHR ''a'') 200 =
     replicate 80 CHR ''a'' @ [CHR 0x0A, CHR 0x0A] @ ''... [-39 bytes omitted] ...'' @ [CHR 0x0A, CHR 0x0A] @ replicate 160 CHR ''a''"
  by code_simp

end
