(* ===== verification/Context_Compaction.thy ===== *)
theory Context_Compaction
  imports Context_Projection Context_Budget
begin

text \<open>
  Making a conversation smaller: \<open>src/context/compaction/SnipEngine.ts\<close> (whole turns),
  \<open>MicroCompactionEngine.ts\<close> (old results), \<open>CachedMicroCompactionEngine.ts\<close> (cache marks),
  \<open>CompactionEngine.ts\<close> (a summary by the model) and the tiers of \<open>tryAutoCompact\<close> in
  \<open>src/context/DefaultContextRuntime.ts\<close>. The answer of the summarizing model is a parameter.
\<close>

section \<open>Snipping\<close>

record snip_engine =
  sn_head :: nat
  sn_tail :: nat
  sn_enabled :: bool
  sn_protected :: "string list"

definition newSnipEngine :: "int option \<Rightarrow> int option \<Rightarrow> bool option \<Rightarrow> string list option \<Rightarrow> snip_engine" where
  "newSnipEngine hd' tl' enabled protected =
     \<lparr>sn_head = nat (max 0 (case hd' of None \<Rightarrow> 2 | Some n \<Rightarrow> n)), sn_tail = nat (max 1 (case tl' of None \<Rightarrow> 4 | Some n \<Rightarrow> n)),
      sn_enabled = (case enabled of None \<Rightarrow> True | Some b \<Rightarrow> b), sn_protected = protectedToolNameSet protected\<rparr>"

record snip_result =
  sr_messages :: "message list"
  sr_applied :: bool
  sr_snipped :: int
  sr_dangling :: "string list"

definition SNIP_BOUNDARY_TEXT_PREFIX :: string where
  "SNIP_BOUNDARY_TEXT_PREFIX = ''<snip-boundary''"

definition quoted :: "nat \<Rightarrow> string" where
  "quoted n = CHR 0x22 # show_nat n @ [CHR 0x22]"

definition createSnipBoundary :: "nat \<Rightarrow> nat \<Rightarrow> nat \<Rightarrow> message" where
  "createSnipBoundary turnsSnipped headTurns tailTurns =
     \<lparr>msg_role = User_role, msg_content = [Text_block (SNIP_BOUNDARY_TEXT_PREFIX @ '' turnsSnipped='' @ quoted turnsSnipped
        @ '' headTurns='' @ quoted headTurns @ '' tailTurns='' @ quoted tailTurns @ '' />'')]\<rparr>"

definition isSnipBoundaryMessage :: "message \<Rightarrow> bool" where
  "isSnipBoundaryMessage m \<longleftrightarrow> msg_role m = User_role \<and>
     (case msg_content m of [Text_block t] \<Rightarrow> starts_with SNIP_BOUNDARY_TEXT_PREFIX t | _ \<Rightarrow> False)"

fun stitch_from :: "nat \<Rightarrow> nat \<Rightarrow> nat list \<Rightarrow> nat \<Rightarrow> nat \<Rightarrow> message list list \<Rightarrow> message list" where
  "stitch_from headTurns tailTurns keep index skipped [] =
     (if 0 < skipped then [createSnipBoundary skipped headTurns tailTurns] else [])"
| "stitch_from headTurns tailTurns keep index skipped (t # ts) =
     (if index \<notin> set keep then stitch_from headTurns tailTurns keep (Suc index) (Suc skipped) ts
      else (if 0 < skipped then [createSnipBoundary skipped headTurns tailTurns] else []) @ t
        @ stitch_from headTurns tailTurns keep (Suc index) 0 ts)"

definition stitchKeptTurnsWithBoundaries :: "message list list \<Rightarrow> nat list \<Rightarrow> nat \<Rightarrow> nat \<Rightarrow> message list" where
  "stitchKeptTurnsWithBoundaries turns keep headTurns tailTurns = stitch_from headTurns tailTurns keep 0 0 turns"

text \<open>The indexes kept, each once.\<close>

definition keepIndexes :: "snip_engine \<Rightarrow> message list \<Rightarrow> nat list" where
  "keepIndexes e ms =
     (let n = length (splitIntoTurns ms) in
      remdups ([0..<min (sn_head e) n] @ [max (sn_head e) (n - sn_tail e)..<n]
        @ collectProtectedTurnIndexes ms (sn_protected e)))"

definition snip :: "snip_engine \<Rightarrow> message list \<Rightarrow> snip_result" where
  "snip e messages =
     (let same = \<lparr>sr_messages = messages, sr_applied = False, sr_snipped = 0, sr_dangling = []\<rparr> in
      if \<not> sn_enabled e then same
      else let turns = splitIntoTurns messages in
        if length turns \<le> sn_head e + sn_tail e then same
        else let keep = keepIndexes e messages in
          if length turns \<le> length keep then same
          else let projected = stitchKeptTurnsWithBoundaries turns keep (sn_head e) (sn_tail e) in
            \<lparr>sr_messages = ensureTrailingUserMessage (keep_pairs projected), sr_applied = True,
             sr_snipped = int (length turns) - int (length keep),
             sr_dangling = filter (\<lambda>i. i \<notin> set (collectToolResultIds projected)) (rev (remdups (rev (collectToolCallIds projected))))\<rparr>)"

section \<open>Old results\<close>

definition COMPACTABLE_TOOL_NAMES :: "string list" where
  "COMPACTABLE_TOOL_NAMES = [''read_file'', ''Read'', ''bash'', ''Bash'', ''grep'', ''Grep'', ''glob'', ''Glob'', ''web_search'',
     ''WebSearch'', ''web_fetch'', ''WebFetch'', ''edit_file'', ''Edit'', ''write_file'', ''Write'']"

definition MICROCOMPACT_CLEARED :: string where
  "MICROCOMPACT_CLEARED = ''[Old tool result content compacted]''"

definition previewBudget :: "nat \<Rightarrow> nat" where
  "previewBudget trimToBytes = max 256 (min trimToBytes 4000)"

text \<open>The last character of a shortened preview is the ellipsis.\<close>

definition compactToolResultText :: "string \<Rightarrow> nat \<Rightarrow> string" where
  "compactToolResultText t trimToBytes =
     (let normalized = js_trim t in
      if normalized = [] then MICROCOMPACT_CLEARED
      else MICROCOMPACT_CLEARED @ [CHR 0x0A, CHR 0x0A] @ ''Preview:'' @ [CHR 0x0A]
        @ (if previewBudget trimToBytes < length normalized then take (previewBudget trimToBytes) normalized @ [CHR 0x85]
           else normalized))"

definition collectCompactableToolCallIds :: "message list \<Rightarrow> string list" where
  "collectCompactableToolCallIds ms = concat (map (\<lambda>m. if msg_role m = Assistant_role
     then List.map_filter (\<lambda>b. case b of Tool_call i n _ \<Rightarrow> if n \<in> set COMPACTABLE_TOOL_NAMES then Some i else None | _ \<Rightarrow> None)
            (msg_content m)
     else []) ms)"

definition has_compactable :: "string list \<Rightarrow> message \<Rightarrow> bool" where
  "has_compactable ids m \<longleftrightarrow> msg_role m = User_role
     \<and> list_ex (\<lambda>b. case b of Tool_result i _ _ \<Rightarrow> i \<in> set ids | _ \<Rightarrow> False) (msg_content m)"

definition collectCompactableToolResultIndices :: "message list \<Rightarrow> string list \<Rightarrow> nat list" where
  "collectCompactableToolResultIndices ms ids = filter (\<lambda>i. has_compactable ids (ms ! i)) [0..<length ms]"

fun item_size :: "result_item \<Rightarrow> nat" where
  "item_size (Item_text t) = length t"
| "item_size (Item_image _ d _) = length d"
| "item_size (Item_pdf d _ _) = length d"

definition estimateToolResultSize :: "result_item list \<Rightarrow> nat" where
  "estimateToolResultSize items = sum_list (map item_size items)"

record micro_result =
  mr_messages :: "message list"
  mr_ids :: "string list"
  mr_bytes :: nat

text \<open>A block of an old user message: what becomes of it, the id of a result and the bytes rewritten.\<close>

definition rewrite_block ::
  "string list \<Rightarrow> (string \<rightharpoonup> string) \<Rightarrow> string list \<Rightarrow> nat \<Rightarrow> content_block \<Rightarrow> content_block \<times> string list \<times> nat" where
  "rewrite_block ids names protected trimToBytes b =
     (case b of
        Image_block _ d _ \<Rightarrow> (Text_block ''[image cleared]'', [], length d)
      | Pdf_block d _ _ \<Rightarrow> (Text_block ''[document cleared]'', [], length d)
      | Tool_result i items err \<Rightarrow>
          if i \<notin> set ids \<or> isProtectedToolCallId i names protected then (b, [], 0)
          else if estimateToolResultSize items \<le> trimToBytes then (b, [], 0)
          else (Tool_result i [Item_text (compactToolResultText (flattenToolResultContentText items) trimToBytes)] err,
                [i], estimateToolResultSize items)
      | _ \<Rightarrow> (b, [], 0))"

text \<open>
  \<open>apply\<close>, with the limits already chosen. Indexes up to the one before the last results to keep
  are rewritten; keeping none makes the bound \<open>NaN\<close>, and every message is rewritten.
\<close>

definition micro_compact :: "string list \<Rightarrow> nat \<Rightarrow> nat \<Rightarrow> message list \<Rightarrow> micro_result" where
  "micro_compact protected trimToBytes keepLatest ms =
     (let names = collectToolNamesByCallId ms;
          ids = collectCompactableToolCallIds ms;
          indices = collectCompactableToolResultIndices ms ids
      in if length indices \<le> keepLatest then \<lparr>mr_messages = ms, mr_ids = [], mr_bytes = 0\<rparr>
         else let old = (\<lambda>i. keepLatest = 0 \<or> int i \<le> int (indices ! (length indices - keepLatest)) - 1);
                  rewritten = map (\<lambda>i. let m = ms ! i in
                    if old i \<and> msg_role m = User_role
                    then map (rewrite_block ids names protected trimToBytes) (msg_content m)
                    else map (\<lambda>b. (b, [], 0)) (msg_content m)) [0..<length ms]
              in \<lparr>mr_messages = map (\<lambda>i. (ms ! i)\<lparr>msg_content := map fst (rewritten ! i)\<rparr>) [0..<length ms],
                  mr_ids = concat (map (\<lambda>r. concat (map (fst \<circ> snd) r)) rewritten),
                  mr_bytes = sum_list (map (\<lambda>r. sum_list (map (snd \<circ> snd) r)) rewritten)\<rparr>)"

definition mr_rewritten :: "micro_result \<Rightarrow> nat" where
  "mr_rewritten r = length (mr_ids r)"

text \<open>The cache marks: before each of the old messages with results.\<close>

record cached_result =
  ca_breakpoints :: "nat list"
  ca_ids :: "string list"
  ca_applied :: bool

definition cached_micro :: "bool \<Rightarrow> nat \<Rightarrow> message list \<Rightarrow> cached_result" where
  "cached_micro enabled liveThreshold ms =
     (let none = \<lparr>ca_breakpoints = [], ca_ids = [], ca_applied = False\<rparr> in
      if \<not> enabled then none
      else let ids = collectCompactableToolCallIds ms in
        if ids = [] then none
        else let indices = collectCompactableToolResultIndices ms ids in
          if length indices \<le> liveThreshold then none
          else let breakpoints = map (\<lambda>i. i - 1) (filter (\<lambda>i. 0 < i) (take (length indices - liveThreshold) indices))
               in \<lparr>ca_breakpoints = breakpoints,
                   ca_ids = concat (map (\<lambda>m. if msg_role m = User_role
                     then List.map_filter (\<lambda>b. case b of Tool_result i _ _ \<Rightarrow> if i \<in> set ids then Some i else None | _ \<Rightarrow> None)
                            (msg_content m) else []) ms),
                   ca_applied = (breakpoints \<noteq> [])\<rparr>)"

section \<open>The summary\<close>

fun strip_item :: "result_item \<Rightarrow> result_item" where
  "strip_item (Item_image _ _ _) = Item_text ''[image]''"
| "strip_item (Item_pdf _ _ _) = Item_text ''[document]''"
| "strip_item i = i"

fun strip_block :: "content_block \<Rightarrow> content_block" where
  "strip_block (Image_block _ _ _) = Text_block ''[image]''"
| "strip_block (Pdf_block _ _ _) = Text_block ''[document]''"
| "strip_block (Tool_result i items err) = Tool_result i (map strip_item items) err"
| "strip_block b = b"

definition stripMultimediaFromMessages :: "message list \<Rightarrow> message list" where
  "stripMultimediaFromMessages ms =
     map (\<lambda>m. if msg_role m \<noteq> User_role then m else m\<lparr>msg_content := map strip_block (msg_content m)\<rparr>) ms"

record compaction_plan =
  cp_summarize :: "message list"
  cp_keep :: "message list"

definition planFullCompactionMessages :: "message list \<Rightarrow> nat \<Rightarrow> string list \<Rightarrow> compaction_plan" where
  "planFullCompactionMessages ms keepCount protected =
     (let limit = length ms - keepCount;
          front = take limit ms;
          turns = splitMessagesIntoTurns front;
          indexes = collectProtectedTurnIndexes front protected;
          chosen = (\<lambda>P. concat (map ((!) turns) (filter P [0..<length turns])))
      in \<lparr>cp_summarize = chosen (\<lambda>i. i \<notin> set indexes),
          cp_keep = keep_pairs (chosen (\<lambda>i. i \<in> set indexes) @ drop limit ms)\<rparr>)"

definition clamp :: "rat \<Rightarrow> rat \<Rightarrow> rat \<Rightarrow> rat" where
  "clamp x lo hi = max lo (min hi x)"

definition keep_count :: "nat \<Rightarrow> rat \<Rightarrow> nat" where
  "keep_count n ratio = max 1 (nat \<lfloor>of_nat n * ratio\<rfloor>)"

definition truncateHead :: "message list \<Rightarrow> rat \<Rightarrow> message list" where
  "truncateHead ms keepRatio =
     (let keep = keep_count (length ms) (clamp keepRatio (5 / 100) 1) in drop (length ms - keep) ms)"

datatype compaction_trigger = Manual_trigger | Auto_trigger | Reactive_trigger

fun trigger_text :: "compaction_trigger \<Rightarrow> string" where
  "trigger_text Manual_trigger = ''manual''"
| "trigger_text Auto_trigger = ''auto''"
| "trigger_text Reactive_trigger = ''reactive''"

definition createBoundaryMarker :: "compaction_trigger \<Rightarrow> nat \<Rightarrow> nat \<Rightarrow> bool \<Rightarrow> message" where
  "createBoundaryMarker trigger preTokens messagesSummarized summarySucceeded =
     \<lparr>msg_role = User_role, msg_content = [Text_block (''<compact-boundary trigger='' @ CHR 0x22 # trigger_text trigger @ [CHR 0x22]
        @ '' preTokens='' @ quoted preTokens @ '' messagesSummarized='' @ quoted messagesSummarized
        @ '' status='' @ CHR 0x22 # (if summarySucceeded then ''ok'' else ''summary_failed'') @ [CHR 0x22] @ '' />'')]\<rparr>"

record compaction_result =
  cr_pre :: nat
  cr_post :: "nat option"
  cr_summary :: "message option"
  cr_boundary :: message
  cr_kept :: "message list"
  cr_attachments :: "message list"
  cr_hooks :: "message list"
  cr_error :: "string option"

definition buildPostCompactMessages :: "compaction_result \<Rightarrow> message list" where
  "buildPostCompactMessages r =
     ensureTrailingUserMessage
       (cr_boundary r # (case cr_summary r of None \<Rightarrow> [] | Some m \<Rightarrow> [m]) @ cr_kept r @ cr_attachments r @ cr_hooks r)"

text \<open>The reply of the model to the messages to summarize: its text or the message of its error.\<close>

definition summary_message :: "string \<Rightarrow> message" where
  "summary_message t = \<lparr>msg_role = Assistant_role,
     msg_content = [Text_block (if js_trim t = [] then ''(empty summary)'' else t)]\<rparr>"

definition run_compaction ::
  "(message list \<Rightarrow> (string, string) result) \<Rightarrow> (message list \<Rightarrow> nat) \<Rightarrow> string list \<Rightarrow> compaction_trigger \<Rightarrow>
     rat option \<Rightarrow> message list \<Rightarrow> message list \<Rightarrow> message list \<Rightarrow> compaction_result" where
  "run_compaction ask estimate protected trigger keepTailRatio messages attachments hookResults =
     (let ratio = clamp (case keepTailRatio of None \<Rightarrow> 35 / 100 | Some r \<Rightarrow> r) 0 1;
          plan = planFullCompactionMessages messages (keep_count (length messages) ratio) protected;
          preTokens = estimate messages;
          reply = (if cp_summarize plan = [] then None
                   else Some (ask (stripMultimediaFromMessages (cp_summarize plan))));
          summary = (case reply of Some (Inr t) \<Rightarrow> Some (summary_message t) | _ \<Rightarrow> None);
          err = (case reply of Some (Inl e) \<Rightarrow> Some e | _ \<Rightarrow> None);
          r = \<lparr>cr_pre = preTokens, cr_post = None, cr_summary = summary,
               cr_boundary = createBoundaryMarker trigger preTokens (length (cp_summarize plan)) (err = None \<and> summary \<noteq> None),
               cr_kept = cp_keep plan, cr_attachments = attachments, cr_hooks = hookResults, cr_error = err\<rparr>
      in if summary = None then r else r\<lparr>cr_post := Some (estimate (buildPostCompactMessages r))\<rparr>)"

section \<open>The tiers\<close>

datatype compaction_tier = Tier_micro | Tier_snip | Tier_full

datatype auto_compact =
    Skipped_compaction snapshot_budget
  | Compacted "message list" compaction_tier snapshot_budget

record context_engines =
  ce_micro :: "(string list \<times> nat \<times> nat) option"
  ce_snip :: "snip_engine option"
  ce_full :: "(message list \<Rightarrow> compaction_result) option"

text \<open>\<open>measure\<close> is the budget evaluator without and \<open>initial\<close> the one with the last usage.\<close>

definition full_tier :: "context_engines \<Rightarrow> (message list \<Rightarrow> snapshot_budget) \<Rightarrow> snapshot_budget \<Rightarrow> message list \<Rightarrow> auto_compact" where
  "full_tier ce gauge first messages =
     (case ce_full ce of
        None \<Rightarrow> Skipped_compaction first
      | Some run \<Rightarrow>
          let r = run messages in
          if cr_error r \<noteq> None \<or> cr_summary r = None then Skipped_compaction first
          else let post = ensureTrailingUserMessage (buildPostCompactMessages r); s = gauge post in
            if sb_state s = Budget_blocking then Skipped_compaction s else Compacted post Tier_full s)"

definition snip_tier :: "context_engines \<Rightarrow> (message list \<Rightarrow> snapshot_budget) \<Rightarrow> snapshot_budget \<Rightarrow> message list \<Rightarrow> auto_compact" where
  "snip_tier ce gauge first messages =
     (case ce_snip ce of
        None \<Rightarrow> full_tier ce gauge first messages
      | Some e \<Rightarrow>
          let r = snip e messages in
          if \<not> sr_applied r then full_tier ce gauge first messages
          else let s = gauge (sr_messages r) in
            if sb_state s \<noteq> Budget_blocking then Compacted (ensureTrailingUserMessage (sr_messages r)) Tier_snip s
            else full_tier ce gauge first (sr_messages r))"

definition tryAutoCompact ::
  "context_engines \<Rightarrow> (message list \<Rightarrow> snapshot_budget) \<Rightarrow> (message list \<Rightarrow> snapshot_budget) \<Rightarrow> message list \<Rightarrow> auto_compact" where
  "tryAutoCompact ce initial gauge messages =
     (let first = initial messages in
      case evaluateSnapshot first of
        None \<Rightarrow> Skipped_compaction first
      | Some reason \<Rightarrow>
          let after_micro = (\<lambda>ms. if reason = Warning_threshold then Skipped_compaction first else snip_tier ce gauge first ms) in
          (case ce_micro ce of
             None \<Rightarrow> after_micro messages
           | Some (protected, trim, keep) \<Rightarrow>
               let r = micro_compact protected trim keep messages in
               if mr_rewritten r = 0 then after_micro messages
               else let s = gauge (mr_messages r) in
                 if sb_state s \<noteq> Budget_blocking then Compacted (ensureTrailingUserMessage (mr_messages r)) Tier_micro s
                 else after_micro (mr_messages r)))"

section \<open>Snipping keeps pairs\<close>

lemma stitch_block:
  "has_block (stitch_from h t keep n k ts) r b \<Longrightarrow> (\<exists>i < length ts. n + i \<in> set keep \<and> has_block (ts ! i) r b)
     \<or> (\<exists>k. has_block [createSnipBoundary k h t] r b)"
proof (induction h t keep n k ts rule: stitch_from.induct)
  case (2 h t keep n k x xs)
  show ?case
  proof (cases "n \<in> set keep")
    case False
    with 2(1) [OF False] 2(3) show ?thesis by fastforce
  next
    case True
    with 2(3) consider "has_block x r b" | "\<exists>k. has_block [createSnipBoundary k h t] r b"
      | "has_block (stitch_from h t keep (Suc n) 0 xs) r b"
      by (auto simp: has_block_def split: if_splits)
    then show ?thesis
    proof cases
      case 3
      with True 2(2) show ?thesis by fastforce
    qed (use True in auto)
  qed
qed (auto simp: has_block_def split: if_splits)

lemma stitch_kept: "i < length ts \<Longrightarrow> n + i \<in> set keep \<Longrightarrow> set (ts ! i) \<subseteq> set (stitch_from h t keep n k ts)"
proof (induction ts arbitrary: i n k)
  case (Cons x xs)
  show ?case
  proof (cases i)
    case 0
    then show ?thesis using Cons.prems by auto
  next
    case (Suc j)
    then have "set (xs ! j) \<subseteq> set (stitch_from h t keep (Suc n) k' xs)" for k'
      using Cons.IH [of j "Suc n" k'] Cons.prems by simp
    then show ?thesis using Suc by auto
  qed
qed simp

lemma stitch_boundary:
  "0 < k \<or> (\<exists>i < length ts. n + i \<notin> set keep) \<Longrightarrow> \<exists>j. createSnipBoundary j h t \<in> set (stitch_from h t keep n k ts)"
proof (induction ts arbitrary: n k)
  case (Cons x xs)
  show ?case
  proof (cases "n \<in> set keep \<and> k = 0")
    case True
    with Cons.prems obtain i where "i < length (x # xs)" "n + i \<notin> set keep" by auto
    with True have "\<exists>i < length xs. Suc n + i \<notin> set keep" by (cases i) auto
    then show ?thesis using Cons.IH [of 0 "Suc n"] True by auto
  next
    case False
    then show ?thesis using Cons.IH [of "Suc k" "Suc n"] by auto
  qed
qed auto

lemma boundary_is_boundary: "isSnipBoundaryMessage (createSnipBoundary k h t)"
  by (simp add: isSnipBoundaryMessage_def createSnipBoundary_def starts_with_def SNIP_BOUNDARY_TEXT_PREFIX_def)

lemma keep_pairs_plain_message:
  assumes "m \<in> set ms" "msg_role m = User_role" "msg_content m = [Text_block t]"
  shows "m \<in> set (keep_pairs ms)"
proof -
  have "m \<in> set (stripUnpairedToolCalls ms ids)" for ids
    using assms unfolding stripUnpairedToolCalls_def by (auto intro: image_eqI [of _ _ m])
  then show ?thesis using assms unfolding keep_pairs_def Let_def
    by (subst stripUnpairedToolResults_def) (auto intro!: image_eqI [of _ _ m])
qed

lemma ensureTrailing_keeps: "m \<in> set ms \<Longrightarrow> m \<in> set (ensureTrailingUserMessage ms)"
  by (auto simp: ensureTrailingUserMessage_def)

lemma ensureTrailing_block: "has_block ms r b \<Longrightarrow> has_block (ensureTrailingUserMessage ms) r b"
  unfolding has_block_def using ensureTrailing_keeps by blast

lemma snip_applied:
  "sr_applied (snip e ms) \<Longrightarrow> sr_messages (snip e ms) = ensureTrailingUserMessage (keep_pairs
      (stitchKeptTurnsWithBoundaries (splitIntoTurns ms) (keepIndexes e ms) (sn_head e) (sn_tail e)))
    \<and> length (keepIndexes e ms) < length (splitIntoTurns ms) \<and> sn_enabled e"
  by (auto simp: snip_def Let_def split: if_splits)

text \<open>
  C26: What a snip leaves has a result for every call and a call for every result, ends with a user
  message and shows where turns are missing; when nothing is snipped nothing is changed.
\<close>

theorem snip_keeps_pairs:
  "let r = snip e ms in
     if sr_applied r
     then set (collectToolCallIds (sr_messages r)) = set (collectToolResultIds (sr_messages r))
       \<and> msg_role (last (sr_messages r)) = User_role \<and> list_ex isSnipBoundaryMessage (sr_messages r)
     else sr_messages r = ms"
proof (cases "sr_applied (snip e ms)")
  case False
  then show ?thesis by (auto simp: snip_def Let_def split: if_splits)
next
  case True
  let ?turns = "splitIntoTurns ms" and ?keep = "keepIndexes e ms"
  let ?p = "stitchKeptTurnsWithBoundaries ?turns ?keep (sn_head e) (sn_tail e)"
  have m: "sr_messages (snip e ms) = ensureTrailingUserMessage (keep_pairs ?p)" and l: "length ?keep < length ?turns"
    using snip_applied [OF True] by auto
  have "\<exists>i < length ?turns. i \<notin> set ?keep"
  proof (rule ccontr)
    assume "\<not> (\<exists>i < length ?turns. i \<notin> set ?keep)"
    then have "{..<length ?turns} \<subseteq> set ?keep" by auto
    then have "card {..<length ?turns} \<le> card (set ?keep)" by (rule card_mono [rotated]) simp
    also have "\<dots> \<le> length ?keep" by (rule card_length)
    finally show False using l by simp
  qed
  then obtain j where j: "createSnipBoundary j (sn_head e) (sn_tail e) \<in> set ?p"
    using stitch_boundary [of 0 ?turns 0 ?keep] unfolding stitchKeptTurnsWithBoundaries_def by auto
  then have k: "createSnipBoundary j (sn_head e) (sn_tail e) \<in> set (keep_pairs ?p)"
    by (intro keep_pairs_plain_message) (auto simp: createSnipBoundary_def)
  then have b: "createSnipBoundary j (sn_head e) (sn_tail e) \<in> set (sr_messages (snip e ms))"
    unfolding m by (rule ensureTrailing_keeps)
  then have "sr_messages (snip e ms) \<noteq> []" by (cases "sr_messages (snip e ms)") auto
  then have "msg_role (last (sr_messages (snip e ms))) = User_role" unfolding m by (rule ensureTrailing_last)
  moreover have "list_ex isSnipBoundaryMessage (sr_messages (snip e ms))"
    using b boundary_is_boundary by (auto simp: list_ex_iff)
  ultimately show ?thesis using True by (simp add: m keep_pairs_ids Let_def)
qed

text \<open>A block whose partner is in the same turn.\<close>

definition self_contained :: "message list \<Rightarrow> content_block \<Rightarrow> bool" where
  "self_contained turn b \<longleftrightarrow> \<not> unpaired call_id (set (collectToolResultIds turn)) b
     \<and> \<not> unpaired direct_result (set (collectToolCallIds turn)) b
     \<and> \<not> unpaired media_with_id (set (collectToolCallIds turn) \<inter> set (collectToolResultIds turn)) b"

lemma unpaired_mono: "X \<subseteq> Y \<Longrightarrow> unpaired f Y b \<Longrightarrow> unpaired f X b"
  by (auto split: option.splits)

lemma ids_mono:
  assumes "set ms \<subseteq> set ns"
  shows "set (collectToolCallIds ms) \<subseteq> set (collectToolCallIds ns)" "set (collectToolResultIds ms) \<subseteq> set (collectToolResultIds ns)"
  using assms by (auto simp: in_call_ids in_result_ids has_block_def; blast)+

lemma keep_pairs_self_contained:
  assumes "set turn \<subseteq> set ms" "m \<in> set turn" "b \<in> set (msg_content m)" "self_contained turn b"
  shows "has_block (keep_pairs ms) (msg_role m) b"
proof -
  note mono = ids_mono [OF assms(1)]
  have "has_block ms (msg_role m) b" using assms by (auto simp: has_block_def)
  moreover have "\<not> unpaired call_id (set (collectToolResultIds ms)) b"
    using assms(4) unpaired_mono [OF mono(2)] by (auto simp: self_contained_def)
  moreover have "\<not> unpaired direct_result (set (collectToolCallIds ms) \<inter> set (collectToolResultIds ms)) b"
    if u: "msg_role m = User_role"
  proof (cases "direct_result b")
    case (Some i)
    then have "i \<in> set (collectToolResultIds ms)" using assms u by (auto simp: in_result_ids has_block_def)
    moreover have "i \<in> set (collectToolCallIds ms)" using assms(4) Some mono(1) by (auto simp: self_contained_def)
    ultimately show ?thesis using Some by simp
  qed simp
  moreover have "\<not> unpaired media_with_id (set (collectToolCallIds ms) \<inter> set (collectToolResultIds ms)) b"
    using assms(4) unpaired_mono [of "set (collectToolCallIds turn) \<inter> set (collectToolResultIds turn)"] mono
    unfolding self_contained_def by blast
  ultimately show ?thesis by (simp add: keep_pairs_block)
qed

text \<open>
  Where the two ways to divide a conversation into turns agree, the blocks of a protected turn
  that have their partner in the turn are all there after a snip.
\<close>

lemma snip_keeps_protected:
  assumes "splitIntoTurns ms = splitMessagesIntoTurns ms" "i \<in> set (collectProtectedTurnIndexes ms (sn_protected e))"
    "m \<in> set (splitMessagesIntoTurns ms ! i)" "b \<in> set (msg_content m)" "self_contained (splitMessagesIntoTurns ms ! i) b"
  shows "has_block (sr_messages (snip e ms)) (msg_role m) b"
proof -
  let ?turns = "splitMessagesIntoTurns ms"
  have i: "i < length ?turns" using assms(2) by (auto simp: collectProtectedTurnIndexes_def Let_def)
  show ?thesis
  proof (cases "sr_applied (snip e ms)")
    case True
    let ?p = "stitchKeptTurnsWithBoundaries ?turns (keepIndexes e ms) (sn_head e) (sn_tail e)"
    have "i \<in> set (keepIndexes e ms)" using assms(2) by (simp add: keepIndexes_def Let_def)
    then have "set (?turns ! i) \<subseteq> set ?p"
      using stitch_kept [of i ?turns 0] i by (simp add: stitchKeptTurnsWithBoundaries_def)
    from keep_pairs_self_contained [OF this assms(3-5)]
    show ?thesis using snip_applied [OF True] assms(1) by (simp add: ensureTrailing_block)
  next
    case False
    then have "sr_messages (snip e ms) = ms" by (auto simp: snip_def Let_def split: if_splits)
    moreover have "m \<in> set ms"
      using assms(3) i concat_split_turns [of result_only_direct "[]" ms] nth_mem [OF i]
      unfolding splitMessagesIntoTurns_def by (metis UN_I append_Nil set_concat)
    ultimately show ?thesis using assms(4) by (auto simp: has_block_def)
  qed
qed

section \<open>Old results keep their place\<close>

definition same_shape :: "message \<Rightarrow> message \<Rightarrow> bool" where
  "same_shape a b \<longleftrightarrow> msg_role a = msg_role b \<and> call_ids_of a = call_ids_of b
     \<and> direct_ids_of a = direct_ids_of b \<and> media_ids_of a = media_ids_of b"

lemma answered_shape: "list_all2 same_shape xs ys \<Longrightarrow> answered p xs = answered p ys"
proof (induction xs ys arbitrary: p rule: list_all2_induct)
  case (Cons x xs y ys)
  then show ?case by (simp add: same_shape_def)
qed simp

lemma calls_shape: "list_all2 same_shape xs ys \<Longrightarrow> collectToolCallIds xs = collectToolCallIds ys"
  by (induction xs ys rule: list_all2_induct) (auto simp: collectToolCallIds_def same_shape_def call_ids_of_def)

lemma results_shape: "list_all2 same_shape xs ys \<Longrightarrow> collectToolResultIds xs = collectToolResultIds ys"
  by (induction xs ys rule: list_all2_induct) (auto simp: collectToolResultIds_def same_shape_def direct_ids_of_def)

lemma media_shape: "list_all2 same_shape xs ys \<Longrightarrow> media_known v xs = media_known v ys"
  by (induction xs ys rule: list_all2_induct) (auto simp: media_known_def same_shape_def)

lemma wellFormed_shape: "list_all2 same_shape xs ys \<Longrightarrow> wellFormed xs = wellFormed ys"
  unfolding wellFormed_def using answered_shape [of xs ys "[]"] calls_shape [of xs ys] media_shape [of xs ys] by simp

lemma rewrite_block_shape:
  "call_id (fst (rewrite_block ids names ps trim b)) = call_id b"
  "direct_result (fst (rewrite_block ids names ps trim b)) = direct_result b"
  "media_with_id (fst (rewrite_block ids names ps trim b)) = media_with_id b"
  by (cases b; simp add: rewrite_block_def)+

lemma map_filter_shape: "(\<And>b. f (g b) = f b) \<Longrightarrow> List.map_filter f (map g bs) = List.map_filter f bs"
  by (induction bs) (auto simp: List.map_filter_def)

lemma same_shape_rewritten: "same_shape (m\<lparr>msg_content := map (fst \<circ> rewrite_block ids names ps trim) (msg_content m)\<rparr>) m"
  unfolding same_shape_def call_ids_of_def direct_ids_of_def media_ids_of_def
  by (simp add: map_filter_shape rewrite_block_shape)

lemma micro_shape: "list_all2 same_shape (mr_messages (micro_compact ps trim keep ms)) ms"
proof -
  have refl: "same_shape m m" for m by (simp add: same_shape_def)
  have id: "m\<lparr>msg_content := map (fst \<circ> (\<lambda>b. (b, [], 0))) (msg_content m)\<rparr> = m" for m :: message by (simp add: comp_def)
  show ?thesis
    by (auto simp: micro_compact_def Let_def list_all2_conv_all_nth refl same_shape_rewritten id)
qed

text \<open>
  Compacting old results keeps every message with its role, its calls and its results in their
  places, so a conversation meets the protocol of a provider afterwards exactly when it did before.
\<close>

lemma micro_keeps_protocol:
  "let out = mr_messages (micro_compact protected trim keep ms) in
     map msg_role out = map msg_role ms \<and> collectToolCallIds out = collectToolCallIds ms
     \<and> collectToolResultIds out = collectToolResultIds ms \<and> wellFormed out = wellFormed ms"
proof -
  note s = micro_shape [of protected trim keep ms]
  have "map msg_role xs = map msg_role ys" if "list_all2 same_shape xs ys" for xs ys
    using that by (induction xs ys rule: list_all2_induct) (auto simp: same_shape_def)
  then show ?thesis using calls_shape [OF s] results_shape [OF s] wellFormed_shape [OF s] s by (simp add: Let_def)
qed

lemma latest_kept:
  assumes "0 < keep" "keep \<le> length (collectCompactableToolResultIndices ms (collectCompactableToolCallIds ms))"
    "collectCompactableToolResultIndices ms (collectCompactableToolCallIds ms) !
       (length (collectCompactableToolResultIndices ms (collectCompactableToolCallIds ms)) - keep) \<le> i" "i < length ms"
  shows "mr_messages (micro_compact protected trim keep ms) ! i = ms ! i"
proof -
  have id: "(ms ! i)\<lparr>msg_content := map (fst \<circ> (\<lambda>b. (b, [], 0))) (msg_content (ms ! i))\<rparr> = ms ! i" by (simp add: comp_def)
  show ?thesis using assms by (auto simp: micro_compact_def Let_def id)
qed

lemma js_trim_prefix: "\<not> is_space c \<Longrightarrow> \<not> is_space d \<Longrightarrow> js_trim (c # s @ [d]) = c # s @ [d]"
  by (simp add: js_trim_def)

text \<open>
  A result that was compacted is longer than the limit again and is rewritten at every later
  pass, the marker in front of the marker, for all limits between 256 and 4000.
\<close>

lemma compacted_again:
  assumes "256 \<le> trim" "trim \<le> 4000" "i \<in> set ids" "\<not> isProtectedToolCallId i names protected"
    "trim < estimateToolResultSize items" "trim < length (js_trim (flattenToolResultContentText items))"
  shows "case rewrite_block ids names protected trim (Tool_result i items err) of
      (b, ids1, _) \<Rightarrow> ids1 = [i] \<and> fst (snd (rewrite_block ids names protected trim b)) = [i]"
proof -
  let ?t = "js_trim (flattenToolResultContentText items)"
  have p: "previewBudget trim = trim" using assms(1,2) by (simp add: previewBudget_def)
  have ne: "?t \<noteq> []" using assms(6) by auto
  have "trim < length (compactToolResultText (flattenToolResultContentText items) trim)"
    using assms(6) ne by (simp add: compactToolResultText_def Let_def p MICROCOMPACT_CLEARED_def)
  then show ?thesis using assms by (simp add: rewrite_block_def estimateToolResultSize_def)
qed

section \<open>Compaction\<close>

lemma chosen_length: "length (concat (map ((!) xs) (filter P [0..<length xs]))) \<le> length (concat xs)"
proof -
  have "sum_list (map length (map ((!) xs) (filter P [0..<length xs]))) \<le> sum_list (map length (map ((!) xs) [0..<length xs]))"
    by (induction "length xs") (auto simp: sum_list_filter_le_nat comp_def)
  then show ?thesis by (simp add: length_concat map_nth)
qed

definition plain_block :: "content_block \<Rightarrow> bool" where
  "plain_block b \<longleftrightarrow> call_id b = None \<and> direct_result b = None \<and> media_with_id b = None"

lemma keep_pairs_plain: "plain_block b \<Longrightarrow> has_block (keep_pairs ms) r b = has_block ms r b"
  by (auto simp: keep_pairs_block plain_block_def)

lemma has_block_append: "has_block (xs @ ys) r b \<longleftrightarrow> has_block xs r b \<or> has_block ys r b"
  by (auto simp: has_block_def)

lemma has_block_chosen:
  "has_block (concat xs) r b \<longleftrightarrow> has_block (concat (map ((!) xs) (filter (\<lambda>i. \<not> P i) [0..<length xs]))) r b
     \<or> has_block (concat (map ((!) xs) (filter P [0..<length xs]))) r b"
proof
  assume "has_block (concat xs) r b"
  then obtain x m where x: "x \<in> set xs" "m \<in> set x" and mb: "msg_role m = r" "b \<in> set (msg_content m)"
    unfolding has_block_def by auto
  from x(1) obtain i where "i < length xs" "x = xs ! i" unfolding in_set_conv_nth by blast
  with x(2) mb have i: "i < length xs" "m \<in> set (xs ! i)" "msg_role m = r" "b \<in> set (msg_content m)" by simp_all
  then show "has_block (concat (map ((!) xs) (filter (\<lambda>i. \<not> P i) [0..<length xs]))) r b
      \<or> has_block (concat (map ((!) xs) (filter P [0..<length xs]))) r b"
    by (cases "P i") (auto simp: has_block_def)
qed (auto simp: has_block_def)

text \<open>
  A full compaction divides the conversation: what it does not keep is summarized, no text is
  lost between the two, and what it keeps has a result for every call and a call for every result.
\<close>

lemma compaction_divides:
  "let p = planFullCompactionMessages ms keepCount protected in
     (plain_block b \<and> has_block ms r b \<longleftrightarrow> plain_block b \<and> (has_block (cp_summarize p) r b \<or> has_block (cp_keep p) r b))
     \<and> set (collectToolCallIds (cp_keep p)) = set (collectToolResultIds (cp_keep p))
     \<and> length (cp_summarize p) \<le> length ms - keepCount"
proof -
  let ?front = "take (length ms - keepCount) ms"
  let ?turns = "splitMessagesIntoTurns ?front"
  let ?P = "\<lambda>i. i \<in> set (collectProtectedTurnIndexes ?front protected)"
  let ?p = "planFullCompactionMessages ms keepCount protected"
  have c: "concat ?turns = ?front" by (simp add: splitMessagesIntoTurns_def concat_split_turns)
  have s: "cp_summarize ?p = concat (map ((!) ?turns) (filter (\<lambda>i. \<not> ?P i) [0..<length ?turns]))"
    and k: "cp_keep ?p = keep_pairs (concat (map ((!) ?turns) (filter ?P [0..<length ?turns])) @ drop (length ms - keepCount) ms)"
    by (simp_all add: planFullCompactionMessages_def Let_def)
  have "has_block ms r b \<longleftrightarrow> has_block (concat ?turns) r b \<or> has_block (drop (length ms - keepCount) ms) r b"
    unfolding c has_block_append [symmetric] by simp
  also have "\<dots> \<longleftrightarrow> has_block (cp_summarize ?p) r b \<or> has_block (concat (map ((!) ?turns) (filter ?P [0..<length ?turns]))
      @ drop (length ms - keepCount) ms) r b"
    unfolding s has_block_append using has_block_chosen [of ?turns r b ?P] by blast
  finally have d: "has_block ms r b \<longleftrightarrow> has_block (cp_summarize ?p) r b \<or> has_block (concat (map ((!) ?turns) (filter ?P [0..<length ?turns]))
      @ drop (length ms - keepCount) ms) r b" .
  have "plain_block b \<Longrightarrow> has_block (cp_keep ?p) r b = has_block (concat (map ((!) ?turns) (filter ?P [0..<length ?turns]))
      @ drop (length ms - keepCount) ms) r b" unfolding k by (rule keep_pairs_plain)
  moreover have "length (cp_summarize ?p) \<le> length ms - keepCount"
    using chosen_length [of ?turns "\<lambda>i. \<not> ?P i"] unfolding s c by simp
  moreover have "set (collectToolCallIds (cp_keep ?p)) = set (collectToolResultIds (cp_keep ?p))"
    unfolding k by (simp add: keep_pairs_ids)
  ultimately show ?thesis using d by (simp add: Let_def) blast
qed

section \<open>The tiers in order\<close>

definition ends_with_user :: "message list \<Rightarrow> bool" where
  "ends_with_user ms \<longleftrightarrow> ms = [] \<or> msg_role (last ms) = User_role"

lemma ends_with_user_ensure: "ends_with_user (ensureTrailingUserMessage ms)"
  using ensureTrailing_last [of ms] by (auto simp: ends_with_user_def)

fun compaction_ok :: "snapshot_budget \<Rightarrow> auto_compact \<Rightarrow> bool" where
  "compaction_ok first (Skipped_compaction s) \<longleftrightarrow> True"
| "compaction_ok first (Compacted out tier s) \<longleftrightarrow> ends_with_user out \<and> sb_state s \<noteq> Budget_blocking
     \<and> (if tier = Tier_micro then sb_state first \<noteq> Budget_ok else sb_state first = Budget_blocking)"

lemma full_tier_ok: "sb_state first = Budget_blocking \<Longrightarrow> compaction_ok first (full_tier ce gauge first ms)"
  by (auto simp: full_tier_def Let_def ends_with_user_ensure split: option.splits)

lemma snip_tier_ok: "sb_state first = Budget_blocking \<Longrightarrow> compaction_ok first (snip_tier ce gauge first ms)"
  by (auto simp: snip_tier_def Let_def ends_with_user_ensure full_tier_ok split: option.splits)

text \<open>
  An automatic compaction that happens ends with a user message and leaves a conversation that
  was measured below the blocking threshold; results are compacted from the warning threshold on,
  turns are snipped or summarized only when the conversation was blocked.
\<close>

lemma compaction_unblocks: "compaction_ok (initial ms) (tryAutoCompact ce initial gauge ms)"
proof -
  have t: "compaction_ok (initial ms) (if reason = Warning_threshold then Skipped_compaction (initial ms) else snip_tier ce gauge (initial ms) xs)"
    if "evaluateSnapshot (initial ms) = Some reason" for reason xs
    using that snip_tier_ok [of "initial ms" ce gauge xs] by (auto simp: evaluateSnapshot_def split: warning_state.splits)
  show ?thesis
  proof (cases "evaluateSnapshot (initial ms)")
    case (Some reason)
    then have "sb_state (initial ms) \<noteq> Budget_ok" by (auto simp: evaluateSnapshot_def)
    then show ?thesis using t [OF Some] Some
      by (auto simp: tryAutoCompact_def Let_def ends_with_user_ensure split: option.splits)
  qed (simp add: tryAutoCompact_def)
qed

end
