(* ===== verification/Context_Samples.thy ===== *)
theory Context_Samples
  imports Context_Compaction
begin

text \<open>Concrete conversations: the witnesses of the context component and what the code does at its edges.\<close>

definition user :: "content_block list \<Rightarrow> message" where
  "user bs = \<lparr>msg_role = User_role, msg_content = bs\<rparr>"

definition assistant :: "content_block list \<Rightarrow> message" where
  "assistant bs = \<lparr>msg_role = Assistant_role, msg_content = bs\<rparr>"

definition one_and_one :: snip_engine where
  "one_and_one = newSnipEngine (Some 1) (Some 1) None None"

section \<open>Projection\<close>

text \<open>
  The placeholder for a missing result comes after what the user wrote next, not immediately after
  the call.
\<close>

lemma placeholder_after_text:
  "fst (repairToolResultPairing [assistant [Tool_call ''c'' ''bash'' []], user [Text_block ''wait'']])
     = [assistant [Tool_call ''c'' ''bash'' []], user [Text_block ''wait''], user [placeholder ''c'']]"
  by code_simp

text \<open>More messages than the maximum can be sent: every unanswered call adds one.\<close>

lemma window_exceeded:
  "length (fst (project [user [Text_block ''q''], assistant [Tool_call ''c'' ''bash'' []], assistant [Tool_call ''d'' ''bash'' []]] (Some 2))) = 4"
  by code_simp

section \<open>Snipping\<close>

definition four_turns :: "content_block list \<Rightarrow> message list" where
  "four_turns extra =
     [user [Text_block ''q1''], assistant [Tool_call ''c1'' ''read_file'' []], user (Tool_result ''c1'' [Item_text ''x''] False # extra),
      user [Text_block ''q2''], assistant [Tool_call ''c2'' ''todo_write'' []], user [Tool_result ''c2'' [Item_text ''y''] False],
      user [Text_block ''q3''], assistant [Text_block ''a3''], user [Text_block ''q4''], assistant [Text_block ''a4'']]"

theorem snip_keeps_protected_witness:
  "sr_applied (snip one_and_one (four_turns []))
     \<and> has_block (sr_messages (snip one_and_one (four_turns []))) Assistant_role (Tool_call ''c2'' ''todo_write'' [])"
proof
  show "sr_applied (snip one_and_one (four_turns []))" by code_simp
  have t: "splitMessagesIntoTurns (four_turns []) ! 1 =
      [user [Text_block ''q2''], assistant [Tool_call ''c2'' ''todo_write'' []], user [Tool_result ''c2'' [Item_text ''y''] False]]"
    by code_simp
  have "splitIntoTurns (four_turns []) = splitMessagesIntoTurns (four_turns [])" by code_simp
  moreover have "collectProtectedTurnIndexes (four_turns []) (sn_protected one_and_one) = [1]" by code_simp
  moreover have "self_contained (splitMessagesIntoTurns (four_turns []) ! 1) (Tool_call ''c2'' ''todo_write'' [])"
    unfolding t by code_simp
  moreover have "assistant [Tool_call ''c2'' ''todo_write'' []] \<in> set (splitMessagesIntoTurns (four_turns []) ! 1)"
    unfolding t by simp
  ultimately show "has_block (sr_messages (snip one_and_one (four_turns []))) Assistant_role (Tool_call ''c2'' ''todo_write'' [])"
    using snip_keeps_protected [of "four_turns []" 1 one_and_one "assistant [Tool_call ''c2'' ''todo_write'' []]" "Tool_call ''c2'' ''todo_write'' []"]
    by (simp add: assistant_def)
qed

text \<open>
  The same conversation with a media reference in the first result: the protected turns are counted
  with one more turn, the turn that is kept is the wrong one, and the protected call is gone.
\<close>

lemma protected_turn_snipped:
  "collectProtectedTurnIndexes (four_turns [Media_reference (Some ''c1'') ''image'']) (sn_protected one_and_one) = [2]
   \<and> collectToolCallIds (sr_messages (snip one_and_one (four_turns [Media_reference (Some ''c1'') ''image'']))) = [''c1'']"
  by code_simp

section \<open>Compaction\<close>

text \<open>A call whose result is kept is sent to the summarizing model without its result.\<close>

lemma summarized_call_unanswered:
  "let p = planFullCompactionMessages [user [Text_block ''q''], assistant [Tool_call ''c'' ''bash'' []],
       user [Tool_result ''c'' [Item_text ''x''] False]] 1 [] in
     collectToolCallIds (cp_summarize p) = [''c''] \<and> collectToolResultIds (cp_summarize p) = [] \<and> cp_keep p = []"
  by code_simp

definition long_result :: content_block where
  "long_result = Tool_result ''c'' [Item_text (replicate 300 CHR ''a'')] False"

theorem compacted_again_witness:
  "(let (b, ids1, n) = rewrite_block [''c''] Map.empty [] 256 long_result in
      ids1 = [''c''] \<and> fst (snd (rewrite_block [''c''] Map.empty [] 256 b)) = [''c''])"
proof -
  have e: "(256::nat) < estimateToolResultSize [Item_text (replicate 300 CHR ''a'')]"
    "256 < length (js_trim (flattenToolResultContentText [Item_text (replicate 300 CHR ''a'')]))" by code_simp+
  show ?thesis unfolding long_result_def Let_def
    using compacted_again [of 256 "''c''" "[''c'']" Map.empty "[]" "[Item_text (replicate 300 CHR ''a'')]" False] e
    by (auto simp: isProtectedToolCallId_def split: prod.splits)
qed

end
