(* ===== verification/Gateway_Socket.thy ===== *)
theory Gateway_Socket
  imports Complex_Main "HOL-Library.Word" Prelude
begin

text \<open>
  \<open>src/gateway/server/websocket.ts\<close>: the WebSocket connection of the gateway server, on bytes. The
  payload of a message is kept as bytes (its text is their UTF-8 decoding). What a handler does
  with the connection is a step of its own. A thrown error is not caught by the socket's callback:
  it ends the process.
\<close>

unbundle bit_operations_syntax

type_synonym bytes = "8 word list"

section \<open>Frames\<close>

text \<open>The \<open>k\<close> bytes of a number, the most significant first.\<close>

fun be_bytes :: "nat \<Rightarrow> nat \<Rightarrow> bytes" where
  "be_bytes 0 n = []"
| "be_bytes (Suc k) n = be_bytes k (n div 256) @ [word_of_nat n]"

definition be_nat :: "bytes \<Rightarrow> nat" where
  "be_nat bs = foldl (\<lambda>n b. n * 256 + unat b) 0 bs"

definition createServerFrameHeader :: "nat \<Rightarrow> 8 word \<Rightarrow> bytes" where
  "createServerFrameHeader payloadLength opcode =
     (if payloadLength < 126 then [0x80 OR opcode, word_of_nat payloadLength]
      else if payloadLength \<le> 0xffff then [0x80 OR opcode, 126] @ be_bytes 2 payloadLength
      else [0x80 OR opcode, 127] @ be_bytes 8 payloadLength)"

datatype frame_error = Frame_too_large | Frame_not_masked

datatype read_frame = Incomplete | Bad_frame frame_error | Frame "8 word" bytes nat

definition unmask :: "bytes \<Rightarrow> bytes \<Rightarrow> bytes" where
  "unmask key payload = map (\<lambda>i. payload ! i XOR key ! (i mod 4)) [0..<length payload]"

definition read_payload :: "bytes \<Rightarrow> nat \<Rightarrow> nat \<Rightarrow> read_frame" where
  "read_payload buffer offset payloadLength =
     (if (buffer ! 1) AND 0x80 = 0 then Bad_frame Frame_not_masked
      else if length buffer < offset + 4 + payloadLength then Incomplete
      else Frame ((buffer ! 0) AND 0x0f)
             (unmask (take 4 (drop offset buffer)) (take payloadLength (drop (offset + 4) buffer)))
             (offset + 4 + payloadLength))"

definition MAX_SAFE_INTEGER :: nat where
  "MAX_SAFE_INTEGER = 9007199254740991"

definition readClientFrame :: "bytes \<Rightarrow> read_frame" where
  "readClientFrame buffer =
     (let payloadLength = unat ((buffer ! 1) AND 0x7f) in
      if payloadLength = 126 then
        (if length buffer < 4 then Incomplete else read_payload buffer 4 (be_nat (take 2 (drop 2 buffer))))
      else if payloadLength = 127 then
        (if length buffer < 10 then Incomplete
         else if MAX_SAFE_INTEGER < be_nat (take 8 (drop 2 buffer)) then Bad_frame Frame_too_large
         else read_payload buffer 10 (be_nat (take 8 (drop 2 buffer))))
      else read_payload buffer 2 payloadLength)"

section \<open>The connection\<close>

record socket =
  so_buffer :: bytes
  so_closed :: bool
  so_written :: "bytes list"
  so_ended :: bool
  so_messages :: "bytes list"
  so_handlers :: nat
  so_crashed :: "frame_error option"

definition fresh_socket :: socket where
  "fresh_socket = \<lparr>so_buffer = [], so_closed = False, so_written = [], so_ended = False, so_messages = [],
     so_handlers = 0, so_crashed = None\<rparr>"

definition sendText :: "bytes \<Rightarrow> socket \<Rightarrow> socket" where
  "sendText payload s =
     (if so_closed s then s else s\<lparr>so_written := so_written s @ [createServerFrameHeader (length payload) 1 @ payload]\<rparr>)"

definition close_socket :: "nat \<Rightarrow> bytes \<Rightarrow> socket \<Rightarrow> socket" where
  "close_socket code reason s =
     (if so_closed s then s
      else s\<lparr>so_closed := True, so_ended := True,
             so_written := so_written s @ [createServerFrameHeader (2 + length reason) 8 @ be_bytes 2 code @ reason]\<rparr>)"

definition emitClose :: "socket \<Rightarrow> socket" where
  "emitClose s = (if so_closed s then s else s\<lparr>so_closed := True, so_handlers := so_handlers s + 1\<rparr>)"

lemma read_payload_consumed: "read_payload b off n = Frame op p c \<Longrightarrow> 0 < c \<and> c \<le> length b"
  by (auto simp: read_payload_def split: if_splits)

lemma readClientFrame_consumed: "readClientFrame b = Frame op p c \<Longrightarrow> 0 < c \<and> c \<le> length b"
  by (auto simp: readClientFrame_def Let_def split: if_splits dest: read_payload_consumed)

function drain :: "socket \<Rightarrow> socket" where
  "drain s =
     (if length (so_buffer s) < 2 then s
      else case readClientFrame (so_buffer s) of
        Incomplete \<Rightarrow> s
      | Bad_frame e \<Rightarrow> s\<lparr>so_crashed := Some e\<rparr>
      | Frame opcode payload consumed \<Rightarrow>
          let s1 = s\<lparr>so_buffer := drop consumed (so_buffer s)\<rparr> in
          if opcode = 8 then close_socket 1000 [] s1
          else if opcode = 9
          then drain (s1\<lparr>so_written := so_written s1 @ [createServerFrameHeader (length payload) 10 @ payload]\<rparr>)
          else if opcode = 1 then drain (s1\<lparr>so_messages := so_messages s1 @ [payload]\<rparr>)
          else drain s1)"
  by pat_completeness auto
termination
  by (relation "measure (\<lambda>s. length (so_buffer s))") (auto dest: readClientFrame_consumed)

declare drain.simps [simp del]

definition handleData :: "bytes \<Rightarrow> socket \<Rightarrow> socket" where
  "handleData chunk s = (if so_crashed s \<noteq> None then s else drain (s\<lparr>so_buffer := so_buffer s @ chunk\<rparr>))"

definition receive :: "bytes list \<Rightarrow> socket \<Rightarrow> socket" where
  "receive chunks s = foldl (\<lambda>s c. handleData c s) s chunks"

section \<open>The frames of a stream\<close>

text \<open>What a sequence of bytes holds, whatever the connection does with it.\<close>

datatype stream_end = Waiting bytes | Closed_by_peer bytes | Broken frame_error bytes

function parse_frames :: "bytes \<Rightarrow> (8 word \<times> bytes) list \<times> stream_end" where
  "parse_frames b =
     (if length b < 2 then ([], Waiting b)
      else case readClientFrame b of
        Incomplete \<Rightarrow> ([], Waiting b)
      | Bad_frame e \<Rightarrow> ([], Broken e b)
      | Frame opcode payload consumed \<Rightarrow>
          if opcode = 8 then ([], Closed_by_peer (drop consumed b))
          else (case parse_frames (drop consumed b) of (fs, e) \<Rightarrow> ((opcode, payload) # fs, e)))"
  by pat_completeness auto
termination
  by (relation "measure length") (auto dest: readClientFrame_consumed)

declare parse_frames.simps [simp del]

fun take_frame :: "socket \<Rightarrow> 8 word \<times> bytes \<Rightarrow> socket" where
  "take_frame s (opcode, payload) =
     (if opcode = 9 then s\<lparr>so_written := so_written s @ [createServerFrameHeader (length payload) 10 @ payload]\<rparr>
      else if opcode = 1 then s\<lparr>so_messages := so_messages s @ [payload]\<rparr> else s)"

fun take_end :: "stream_end \<Rightarrow> socket \<Rightarrow> socket" where
  "take_end (Waiting b) s = s\<lparr>so_buffer := b\<rparr>"
| "take_end (Closed_by_peer b) s = close_socket 1000 [] (s\<lparr>so_buffer := b\<rparr>)"
| "take_end (Broken e b) s = s\<lparr>so_buffer := b, so_crashed := Some e\<rparr>"

lemma take_frame_buffer: "take_frame (s\<lparr>so_buffer := b\<rparr>) f = (take_frame s f)\<lparr>so_buffer := b\<rparr>"
  by (cases f) auto

lemma take_frames_buffer: "foldl take_frame (s\<lparr>so_buffer := b\<rparr>) fs = (foldl take_frame s fs)\<lparr>so_buffer := b\<rparr>"
  by (induction fs arbitrary: s) (simp_all add: take_frame_buffer)

lemma take_end_buffer: "take_end e (s\<lparr>so_buffer := b\<rparr>) = take_end e s"
  by (cases e) auto

lemma drain_parses: "drain s = (case parse_frames (so_buffer s) of (fs, e) \<Rightarrow> take_end e (foldl take_frame s fs))"
proof (induction s rule: drain.induct)
  case (1 s)
  show ?case
  proof (cases "length (so_buffer s) < 2")
    case True
    then show ?thesis by (subst drain.simps, subst parse_frames.simps) simp
  next
    case False
    show ?thesis
    proof (cases "readClientFrame (so_buffer s)")
      case (Frame op p c)
      let ?s = "s\<lparr>so_buffer := drop c (so_buffer s)\<rparr>"
      obtain fs e where r: "parse_frames (drop c (so_buffer s)) = (fs, e)" by (cases "parse_frames (drop c (so_buffer s))")
      show ?thesis
      proof (cases "op = 8")
        case True
        then show ?thesis using False Frame by (subst drain.simps, subst parse_frames.simps) (simp add: Let_def)
      next
        case no_close: False
        have IH: "drain (take_frame ?s (op, p)) = take_end e (foldl take_frame (take_frame ?s (op, p)) fs)"
          using 1 False Frame no_close r by (auto simp: Let_def)
        have d: "drain s = drain (take_frame ?s (op, p))"
          using False Frame no_close by (subst drain.simps) (simp add: Let_def)
        have "parse_frames (so_buffer s) = ((op, p) # fs, e)"
          using False Frame no_close r by (subst parse_frames.simps) simp
        then show ?thesis unfolding d IH
          by (simp add: take_frame_buffer take_frames_buffer take_end_buffer del: take_frame.simps)
      qed
    next
      case Incomplete
      then show ?thesis using False by (subst drain.simps, subst parse_frames.simps) simp
    next
      case (Bad_frame e)
      then show ?thesis using False by (subst drain.simps, subst parse_frames.simps) simp
    qed
  qed
qed

text \<open>A frame that can be read is read the same way when more bytes follow.\<close>

lemma nth_app: "i < length a \<Longrightarrow> (a @ b) ! i = a ! i"
  by (simp add: nth_append)

lemma read_payload_more:
  assumes "2 \<le> length a" "2 \<le> off" "read_payload a off n \<noteq> Incomplete"
  shows "read_payload (a @ b) off n = read_payload a off n"
  using assms by (auto simp: read_payload_def nth_append split: if_splits)

lemma readClientFrame_more:
  assumes "2 \<le> length a" "readClientFrame a \<noteq> Incomplete"
  shows "readClientFrame (a @ b) = readClientFrame a"
  using assms read_payload_more [of a] by (auto simp: readClientFrame_def Let_def nth_append split: if_splits)

fun and_then :: "(8 word \<times> bytes) list \<times> stream_end \<Rightarrow> bytes \<Rightarrow> (8 word \<times> bytes) list \<times> stream_end" where
  "and_then (fs, Waiting r) b = (case parse_frames (r @ b) of (gs, e) \<Rightarrow> (fs @ gs, e))"
| "and_then (fs, Closed_by_peer r) b = (fs, Closed_by_peer (r @ b))"
| "and_then (fs, Broken e r) b = (fs, Broken e (r @ b))"

lemma and_then_Cons: "and_then (f # fs, e) b = (case and_then (fs, e) b of (gs, e) \<Rightarrow> (f # gs, e))"
  by (cases e) (auto split: prod.split)

lemma parse_more: "parse_frames (a @ b) = and_then (parse_frames a) b"
proof (induction a rule: parse_frames.induct)
  case (1 a)
  show ?case
  proof (cases "length a < 2 \<or> readClientFrame a = Incomplete")
    case True
    then have "parse_frames a = ([], Waiting a)" by (subst parse_frames.simps) auto
    then show ?thesis by (simp split: prod.split)
  next
    case False
    then have more: "readClientFrame (a @ b) = readClientFrame a" by (intro readClientFrame_more) auto
    show ?thesis
    proof (cases "readClientFrame a")
      case (Frame op p c)
      have c: "c \<le> length a" using readClientFrame_consumed [OF Frame] by simp
      show ?thesis
      proof (cases "op = 8")
        case True
        have "parse_frames (a @ b) = ([], Closed_by_peer (drop c a @ b))"
          using False Frame more True c by (subst parse_frames.simps) simp
        moreover have "parse_frames a = ([], Closed_by_peer (drop c a))"
          using False Frame True by (subst parse_frames.simps) simp
        ultimately show ?thesis by simp
      next
        case no: False
        have "parse_frames (a @ b) = (case parse_frames (drop c a @ b) of (fs, e) \<Rightarrow> ((op, p) # fs, e))"
          using False Frame more no c by (subst parse_frames.simps) simp
        moreover have "parse_frames (drop c a @ b) = and_then (parse_frames (drop c a)) b"
          using 1 False Frame no by simp
        moreover have "parse_frames a = (case parse_frames (drop c a) of (fs, e) \<Rightarrow> ((op, p) # fs, e))"
          using False Frame no by (subst parse_frames.simps) simp
        ultimately show ?thesis by (cases "parse_frames (drop c a)") (simp add: and_then_Cons)
      qed
    next
      case (Bad_frame e)
      have "parse_frames (a @ b) = ([], Broken e (a @ b))" using False Bad_frame more by (subst parse_frames.simps) simp
      moreover have "parse_frames a = ([], Broken e a)" using False Bad_frame by (subst parse_frames.simps) simp
      ultimately show ?thesis by simp
    qed (use False in simp)
  qed
qed

lemma waiting_rest: "parse_frames a = (fs, Waiting r) \<Longrightarrow> parse_frames r = ([], Waiting r)"
proof (induction a arbitrary: fs rule: parse_frames.induct)
  case (1 a)
  show ?case
  proof (cases "length a < 2 \<or> readClientFrame a = Incomplete")
    case True
    then have "parse_frames a = ([], Waiting a)" by (subst parse_frames.simps) auto
    then show ?thesis using 1(2) by simp
  next
    case False
    then obtain op p c where f: "readClientFrame a = Frame op p c" "op \<noteq> 8"
      using 1(2) by (subst (asm) parse_frames.simps) (cases "readClientFrame a"; auto split: if_splits)
    obtain gs e where g: "parse_frames (drop c a) = (gs, e)" by (cases "parse_frames (drop c a)")
    then have "e = Waiting r" using 1(2) f False by (subst (asm) parse_frames.simps) auto
    then show ?thesis using 1(1) [of op p c gs] f False g by auto
  qed
qed

lemma waiting_prefix: "parse_frames (a @ b) = (fs, Waiting r) \<Longrightarrow> \<exists>gs q. parse_frames a = (gs, Waiting q)"
  using parse_more [of a b] by (cases "parse_frames a"; cases "snd (parse_frames a)") auto

lemma frames_keep: "so_crashed (foldl take_frame s fs) = so_crashed s"
  by (induction fs arbitrary: s) auto

section \<open>Numbers and masks\<close>

lemma be_nat_snoc: "be_nat (bs @ [b]) = be_nat bs * 256 + unat b"
  by (simp add: be_nat_def)

lemma length_be_bytes [simp]: "length (be_bytes k n) = k"
  by (induction k n rule: be_bytes.induct) auto

lemma be_nat_bytes: "n < 256 ^ k \<Longrightarrow> be_nat (be_bytes k n) = n"
proof (induction k n rule: be_bytes.induct)
  case (1 n)
  then show ?case by (simp add: be_nat_def)
next
  case (2 k n)
  have "n div 256 < 256 ^ k" using 2(2) by (simp add: less_mult_imp_div_less mult.commute)
  then have "be_nat (be_bytes k (n div 256)) = n div 256" by (rule 2(1))
  then show ?case by (simp add: be_nat_snoc unsigned_of_nat take_bit_eq_mod)
qed

text \<open>The client's side of masking: the bytes of the key in turn.\<close>

fun masked :: "bytes \<Rightarrow> bytes \<Rightarrow> bytes" where
  "masked key [] = []"
| "masked key (b # bs) = (b XOR hd key) # masked (rotate1 key) bs"

lemma length_masked [simp]: "length (masked key p) = length p"
  by (induction key p rule: masked.induct) auto

lemma nth_masked: "i < length p \<Longrightarrow> key \<noteq> [] \<Longrightarrow> masked key p ! i = p ! i XOR key ! (i mod length key)"
proof (induction key p arbitrary: i rule: masked.induct)
  case (2 key b bs)
  show ?case
  proof (cases i)
    case 0
    then show ?thesis using 2(3) by (simp add: hd_conv_nth)
  next
    case (Suc j)
    have "rotate1 key ! (j mod length key) = key ! (Suc (j mod length key) mod length key)"
      using 2(3) by (simp add: nth_rotate1)
    then show ?thesis using 2 Suc by (simp add: mod_Suc_eq)
  qed
qed simp

lemma unmask_masked: "length key = 4 \<Longrightarrow> unmask key (masked key p) = p"
proof (rule nth_equalityI)
  fix i assume k: "length key = 4" and i: "i < length (unmask key (masked key p))"
  then have "i < length p" "key \<noteq> []" by (auto simp: unmask_def)
  then show "unmask key (masked key p) ! i = p ! i" using k nth_masked [of i p key] by (simp add: unmask_def xor.assoc)
qed (simp add: unmask_def)

lemma length_unmask [simp]: "length (unmask key p) = length p"
  by (simp add: unmask_def)

lemma low_bits: "n < 128 \<Longrightarrow> unat ((word_of_nat n :: 8 word) AND 0x7f) = n"
proof -
  assume n: "n < 128"
  have m: "(127 :: nat) = mask 7" by (simp add: mask_eq_exp_minus_1)
  have "n AND 127 = n" using n unfolding m by (simp add: take_bit_eq_mask [symmetric] take_bit_eq_mod)
  then show ?thesis using n by (simp add: unsigned_and_eq unsigned_of_nat take_bit_eq_mod)
qed

lemma seven_bits: "n < 128 \<Longrightarrow> unat ((0x80 OR word_of_nat n) AND 0x7f :: 8 word) = n"
proof -
  assume n: "n < 128"
  have "(0x80 OR word_of_nat n) AND 0x7f = (word_of_nat n AND 0x7f :: 8 word)"
    by (simp add: bit.conj_disj_distrib2)
  then show ?thesis using low_bits [OF n] by simp
qed

lemma high_bit: "((0x80 OR w) AND 0x80 :: 8 word) \<noteq> 0"
  by (simp add: bit.conj_disj_distrib2)

section \<open>Messages in both directions\<close>

text \<open>
  A text message as a WebSocket client sends it, in one masked frame: the client is the platform's,
  the format is RFC 6455's.
\<close>

definition length_field :: "8 word \<Rightarrow> nat \<Rightarrow> bytes" where
  "length_field flag n =
     (if n < 126 then [flag OR word_of_nat n] else if n \<le> 0xffff then (flag OR 126) # be_bytes 2 n
      else (flag OR 127) # be_bytes 8 n)"

definition client_frame :: "8 word \<Rightarrow> bytes \<Rightarrow> bytes \<Rightarrow> bytes" where
  "client_frame opcode key payload = (0x80 OR opcode) # length_field 0x80 (length payload) @ key @ masked key payload"

lemma read_client_frame:
  assumes "length key = 4" "length payload \<le> MAX_SAFE_INTEGER" "opcode AND 0x0f = opcode"
  shows "readClientFrame (client_frame opcode key payload) =
     Frame opcode payload (length (client_frame opcode key payload))"
proof -
  have op: "(0x80 OR opcode) AND 0x0f = opcode" using assms(3) by (simp add: bit.conj_disj_distrib2)
  let ?n = "length payload"
  have b2: "n < 256 ^ 2 \<Longrightarrow> be_nat (be_bytes 2 n) = n" "n < 256 ^ 8 \<Longrightarrow> be_nat (be_bytes 8 n) = n" for n
    by (simp_all only: be_nat_bytes)
  have s: "unat ((0x80 OR 126) AND 0x7f :: 8 word) = 126" "unat ((0x80 OR 127) AND 0x7f :: 8 word) = 127"
    using seven_bits [of 126] seven_bits [of 127] by simp_all
  consider "?n < 126" | "126 \<le> ?n" "?n \<le> 0xffff" | "0xffff < ?n" by linarith
  then show ?thesis
  proof cases
    case 1
    then have "unat ((0x80 OR word_of_nat ?n) AND 0x7f :: 8 word) = ?n" by (intro seven_bits) simp
    then show ?thesis using 1 assms(1) op high_bit [of "word_of_nat ?n"]
      by (simp add: readClientFrame_def client_frame_def length_field_def Let_def read_payload_def unmask_masked)
  next
    case 2
    then show ?thesis using assms(1) op high_bit [of 126] s b2(1) [of ?n]
      by (simp add: readClientFrame_def client_frame_def length_field_def Let_def read_payload_def unmask_masked)
  next
    case 3
    then have "?n < 256 ^ 8" using assms(2) by (simp add: MAX_SAFE_INTEGER_def)
    then show ?thesis using 3 assms op high_bit [of 127] s b2(2) [of ?n]
      by (simp add: readClientFrame_def client_frame_def length_field_def Let_def read_payload_def unmask_masked)
  qed
qed

lemma parse_client_frames:
  assumes "\<forall>(key, payload) \<in> set ms. length key = 4 \<and> length payload \<le> MAX_SAFE_INTEGER"
  shows "parse_frames (concat (map (\<lambda>(key, payload). client_frame 1 key payload) ms)) = (map (\<lambda>(k, p). (1, p)) ms, Waiting [])"
  using assms
proof (induction ms)
  case Nil
  then show ?case by (subst parse_frames.simps) simp
next
  case (Cons m ms)
  obtain key payload where m: "m = (key, payload)" by (cases m)
  let ?f = "client_frame 1 key payload" and ?r = "concat (map (\<lambda>(key, payload). client_frame 1 key payload) ms)"
  have f: "readClientFrame ?f = Frame 1 payload (length ?f)" using Cons.prems m by (intro read_client_frame) auto
  have l: "2 \<le> length ?f" using Cons.prems m by (simp add: client_frame_def length_field_def)
  have "readClientFrame (?f @ ?r) = Frame 1 payload (length ?f)" using readClientFrame_more [of ?f ?r] f l by simp
  then show ?case using Cons l m by (subst parse_frames.simps) simp
qed

lemma receive_parses:
  assumes "so_crashed s = None" "parse_frames (so_buffer s) = ([], Waiting (so_buffer s))"
    "parse_frames (so_buffer s @ concat chunks) = (fs, Waiting r)"
  shows "receive chunks s = (foldl take_frame s fs)\<lparr>so_buffer := r\<rparr>"
  using assms
proof (induction chunks arbitrary: s fs)
  case Nil
  then have "fs = []" "r = so_buffer s" by simp_all
  then show ?case by (simp add: receive_def)
next
  case (Cons c cs)
  have "parse_frames ((so_buffer s @ c) @ concat cs) = (fs, Waiting r)" using Cons.prems(3) by simp
  then obtain gs q where q: "parse_frames (so_buffer s @ c) = (gs, Waiting q)" using waiting_prefix by blast
  then obtain hs where h: "parse_frames (q @ concat cs) = (hs, Waiting r)" "fs = gs @ hs"
    using Cons.prems(3) parse_more [of "so_buffer s @ c" "concat cs"] by (auto split: prod.splits)
  let ?s = "(foldl take_frame s gs)\<lparr>so_buffer := q\<rparr>"
  have s: "handleData c s = ?s" using Cons.prems(1) q by (simp add: handleData_def drain_parses take_frames_buffer)
  have "receive cs ?s = (foldl take_frame ?s hs)\<lparr>so_buffer := r\<rparr>"
    using Cons.IH [of ?s hs] waiting_rest [OF q] h Cons.prems(1) by (simp add: frames_keep)
  then show ?case by (simp add: receive_def s h(2) take_frames_buffer)
qed

lemma fresh_drained: "parse_frames (so_buffer fresh_socket) = ([], Waiting (so_buffer fresh_socket))"
  by (subst parse_frames.simps) (simp add: fresh_socket_def)

lemma take_messages: "so_messages (foldl take_frame s (map (\<lambda>(k, p). (1, p)) ms)) = so_messages s @ map snd ms"
  by (induction ms arbitrary: s) auto

text \<open>
  C27: The messages a client sends, each in a masked frame of any length up to the limit, arrive once
  each, complete and in order, however the network cuts the bytes into chunks; nothing is left over.
\<close>

theorem messages_arrive:
  assumes "\<forall>(key, payload) \<in> set ms. length key = 4 \<and> length payload \<le> MAX_SAFE_INTEGER"
    "concat chunks = concat (map (\<lambda>(key, payload). client_frame 1 key payload) ms)"
  shows "so_messages (receive chunks fresh_socket) = map snd ms \<and> so_buffer (receive chunks fresh_socket) = []"
proof -
  have "parse_frames (so_buffer fresh_socket @ concat chunks) = (map (\<lambda>(k, p). (1, p)) ms, Waiting [])"
    using parse_client_frames [OF assms(1)] assms(2) by (simp add: fresh_socket_def)
  from receive_parses [OF _ fresh_drained this] show ?thesis by (simp add: fresh_socket_def take_messages)
qed

text \<open>
  For any stream of bytes in which no frame closes the connection and none is refused, the
  connection ends in the same state however the bytes are cut into chunks.
\<close>

lemma chunks_irrelevant:
  assumes "snd (parse_frames (concat chunks)) = Waiting r" "concat chunks = concat chunks'"
  shows "receive chunks fresh_socket = receive chunks' fresh_socket"
proof -
  obtain fs where "parse_frames (concat chunks) = (fs, Waiting r)" using assms(1) by (cases "parse_frames (concat chunks)") auto
  then have "parse_frames (so_buffer fresh_socket @ concat chunks) = (fs, Waiting r)"
    "parse_frames (so_buffer fresh_socket @ concat chunks') = (fs, Waiting r)"
    using assms(2) by (simp_all add: fresh_socket_def)
  with receive_parses [OF _ fresh_drained] show ?thesis by (simp add: fresh_socket_def)
qed

text \<open>What a reader of the format finds in the header of a frame: opcode, length and where the payload is.\<close>

definition announced :: "bytes \<Rightarrow> 8 word \<times> nat \<times> nat" where
  "announced f =
     (let n = unat ((f ! 1) AND 0x7f) in
      ((f ! 0) AND 0x0f,
       (if n = 126 then (be_nat (take 2 (drop 2 f)), 4) else if n = 127 then (be_nat (take 8 (drop 2 f)), 10) else (n, 2))))"

text \<open>
  The header of a frame that the server writes announces its opcode, the length of its payload
  and where it starts, for every length below 2 to the 64, and is not masked.
\<close>

lemma server_header_announces:
  assumes "length payload < 256 ^ 8" "opcode AND 0x0f = opcode"
  shows "announced (createServerFrameHeader (length payload) opcode @ payload)
      = (opcode, length payload, length (createServerFrameHeader (length payload) opcode))
    \<and> ((createServerFrameHeader (length payload) opcode ! 1) AND 0x80 :: 8 word) = 0"
proof -
  have op: "(0x80 OR opcode) AND 0x0f = opcode" using assms(2) by (simp add: bit.conj_disj_distrib2)
  let ?n = "length payload"
  have b2: "n < 256 ^ 2 \<Longrightarrow> be_nat (be_bytes 2 n) = n" "n < 256 ^ 8 \<Longrightarrow> be_nat (be_bytes 8 n) = n" for n
    by (simp_all only: be_nat_bytes)
  have low: "unat ((word_of_nat n :: 8 word) AND 0x7f) = n \<and> (word_of_nat n :: 8 word) AND 0x80 = 0" if "n < 128" for n
  proof -
    have u: "unat ((word_of_nat n :: 8 word) AND 0x7f) = n" using that by (rule low_bits)
    then have "unat ((word_of_nat n :: 8 word) AND 0x7f) = unat (word_of_nat n :: 8 word)"
      using that by (simp add: unsigned_of_nat take_bit_eq_mod)
    then have w: "(word_of_nat n :: 8 word) AND 0x7f = word_of_nat n" by (simp only: word_unat_eq_iff)
    have "(word_of_nat n :: 8 word) AND 0x80 = (word_of_nat n AND 0x7f) AND 0x80" by (simp add: w)
    also have "\<dots> = 0" by (simp add: and.assoc)
    finally show ?thesis using u by blast
  qed
  consider "?n < 126" | "126 \<le> ?n" "?n \<le> 0xffff" | "0xffff < ?n" by linarith
  then show ?thesis
  proof cases
    case 1
    then show ?thesis using op low [of ?n] by (simp add: createServerFrameHeader_def announced_def Let_def)
  next
    case 2
    then show ?thesis using op b2(1) [of ?n] by (simp add: createServerFrameHeader_def announced_def Let_def)
  next
    case 3
    then show ?thesis using op b2(2) [of ?n] assms(1) by (simp add: createServerFrameHeader_def announced_def Let_def)
  qed
qed

section \<open>Edges\<close>

text \<open>A client that closes the connection the regular way: the close handlers are never run.\<close>

lemma close_frame_skips_handlers:
  "so_handlers (emitClose (receive [client_frame 8 [1, 2, 3, 4] [3, 232]] fresh_socket)) = 0"
  by code_simp

text \<open>A frame that is not masked ends the process, before any message was looked at.\<close>

lemma unmasked_frame_crashes: "so_crashed (receive [[0x81, 0x01, 0x61]] fresh_socket) = Some Frame_not_masked"
  by code_simp

text \<open>The first part of a message that is sent in two frames is taken for a message, the rest is lost.\<close>

lemma fragments_not_joined:
  "so_messages (receive [[0x01, 0x81, 0, 0, 0, 0, 0x61], [0x80, 0x81, 0, 0, 0, 0, 0x62]] fresh_socket) = [[0x61]]"
  by code_simp

end
