(* ===== verification/Gateway_Client.thy ===== *)
theory Gateway_Client
  imports Prelude
begin

text \<open>
  Queues with waiting consumers, \<open>src/gateway/util/AsyncQueue.ts\<close> and the \<open>AsyncEventQueue\<close> of
  \<open>src/gateway/client/GatewayWsClient.ts\<close>, and that client: the requests that wait for an answer and
  the streams of events, as the frames of the server settle them
  (\<open>src/gateway/server/GatewayWsConnection.ts\<close> for a turn).
\<close>

section \<open>Queues\<close>

text \<open>A consumer's calls of \<open>next\<close> are numbered; what a call was answered is kept in order.\<close>

datatype ('a, 'e) answer = Value_given 'a | Done_given | Error_given 'e

record ('a, 'e) queue_state =
  aq_buffer :: "'a list"
  aq_waiters :: "nat list"
  aq_closed :: bool
  aq_error :: "'e option"
  aq_answers :: "(nat \<times> ('a, 'e) answer) list"

definition empty_queue :: "('a, 'e) queue_state" where
  "empty_queue = \<lparr>aq_buffer = [], aq_waiters = [], aq_closed = False, aq_error = None, aq_answers = []\<rparr>"

definition enqueue :: "'a \<Rightarrow> ('a, 'e) queue_state \<Rightarrow> ('a, 'e) queue_state" where
  "enqueue x q =
     (if aq_closed q then q
      else case aq_waiters q of
        w # ws \<Rightarrow> q\<lparr>aq_waiters := ws, aq_answers := aq_answers q @ [(w, Value_given x)]\<rparr>
      | [] \<Rightarrow> q\<lparr>aq_buffer := aq_buffer q @ [x]\<rparr>)"

definition close_queue :: "('a, 'e) queue_state \<Rightarrow> ('a, 'e) queue_state" where
  "close_queue q =
     (if aq_closed q then q
      else q\<lparr>aq_closed := True, aq_waiters := [],
             aq_answers := aq_answers q @ map (\<lambda>w. (w, Done_given)) (aq_waiters q)\<rparr>)"

definition fail_queue :: "'e \<Rightarrow> ('a, 'e) queue_state \<Rightarrow> ('a, 'e) queue_state" where
  "fail_queue e q = close_queue (q\<lparr>aq_error := Some e\<rparr>)"

definition next_queue :: "nat \<Rightarrow> ('a, 'e) queue_state \<Rightarrow> ('a, 'e) queue_state" where
  "next_queue k q =
     (case aq_error q of
        Some e \<Rightarrow> q\<lparr>aq_error := None, aq_answers := aq_answers q @ [(k, Error_given e)]\<rparr>
      | None \<Rightarrow>
          (case aq_buffer q of
             x # xs \<Rightarrow> q\<lparr>aq_buffer := xs, aq_answers := aq_answers q @ [(k, Value_given x)]\<rparr>
           | [] \<Rightarrow> if aq_closed q then q\<lparr>aq_answers := aq_answers q @ [(k, Done_given)]\<rparr>
                   else q\<lparr>aq_waiters := aq_waiters q @ [k]\<rparr>))"

text \<open>The queue of the client: its values are event objects, which are never falsy.\<close>

definition push_event :: "'a \<Rightarrow> ('a, 'e) queue_state \<Rightarrow> ('a, 'e) queue_state" where
  "push_event x q =
     (case aq_waiters q of
        w # ws \<Rightarrow> q\<lparr>aq_waiters := ws, aq_answers := aq_answers q @ [(w, Value_given x)]\<rparr>
      | [] \<Rightarrow> q\<lparr>aq_buffer := aq_buffer q @ [x]\<rparr>)"

definition close_events :: "('a, 'e) queue_state \<Rightarrow> ('a, 'e) queue_state" where
  "close_events q = q\<lparr>aq_closed := True, aq_waiters := [],
     aq_answers := aq_answers q @ map (\<lambda>w. (w, Done_given)) (aq_waiters q)\<rparr>"

definition fail_events :: "'e \<Rightarrow> ('a, 'e) queue_state \<Rightarrow> ('a, 'e) queue_state" where
  "fail_events e q = q\<lparr>aq_error := Some e, aq_closed := True, aq_waiters := [],
     aq_answers := aq_answers q @ map (\<lambda>w. (w, Error_given e)) (aq_waiters q)\<rparr>"

definition next_event :: "nat \<Rightarrow> ('a, 'e) queue_state \<Rightarrow> ('a, 'e) queue_state" where
  "next_event k q =
     (case aq_error q of
        Some e \<Rightarrow> q\<lparr>aq_answers := aq_answers q @ [(k, Error_given e)]\<rparr>
      | None \<Rightarrow>
          (case aq_buffer q of
             x # xs \<Rightarrow> q\<lparr>aq_buffer := xs, aq_answers := aq_answers q @ [(k, Value_given x)]\<rparr>
           | [] \<Rightarrow> if aq_closed q then q\<lparr>aq_answers := aq_answers q @ [(k, Done_given)]\<rparr>
                   else q\<lparr>aq_waiters := aq_waiters q @ [k]\<rparr>))"

section \<open>The contract of a queue\<close>

fun values_of :: "(nat \<times> ('a, 'e) answer) list \<Rightarrow> 'a list" where
  "values_of [] = []"
| "values_of ((_, Value_given x) # r) = x # values_of r"
| "values_of (_ # r) = values_of r"

lemma values_of_append [simp]: "values_of (as @ bs) = values_of as @ values_of bs"
  by (induction as rule: values_of.induct) auto

lemma values_of_others [simp]:
  "values_of (map (\<lambda>w. (w, Done_given)) ws) = []" "values_of (map (\<lambda>w. (w, Error_given e)) ws) = []"
  by (induction ws) auto

definition queue_values :: "('a, 'e) queue_state \<Rightarrow> 'a list" where
  "queue_values q = values_of (aq_answers q) @ aq_buffer q"

definition queue_calls :: "('a, 'e) queue_state \<Rightarrow> nat list" where
  "queue_calls q = map fst (aq_answers q) @ aq_waiters q"

definition queue_ok :: "('a, 'e) queue_state \<Rightarrow> bool" where
  "queue_ok q \<longleftrightarrow> (aq_buffer q = [] \<or> aq_waiters q = []) \<and> (aq_closed q \<longrightarrow> aq_waiters q = [])
     \<and> (aq_error q \<noteq> None \<longrightarrow> aq_closed q)"

datatype ('a, 'e) queue_op = Push 'a | Close | Fail 'e | Next nat

locale fifo_queue =
  fixes push :: "'a \<Rightarrow> ('a, 'e) queue_state \<Rightarrow> ('a, 'e) queue_state"
    and finish :: "('a, 'e) queue_state \<Rightarrow> ('a, 'e) queue_state"
    and failed :: "'e \<Rightarrow> ('a, 'e) queue_state \<Rightarrow> ('a, 'e) queue_state"
    and ask :: "nat \<Rightarrow> ('a, 'e) queue_state \<Rightarrow> ('a, 'e) queue_state"
    and accepts :: "('a, 'e) queue_state \<Rightarrow> bool"
  assumes push_law: "queue_ok q \<Longrightarrow> queue_ok (push x q) \<and> queue_calls (push x q) = queue_calls q
      \<and> queue_values (push x q) = queue_values q @ (if accepts q then [x] else [])"
    and finish_law: "queue_ok q \<Longrightarrow> queue_ok (finish q) \<and> queue_calls (finish q) = queue_calls q
      \<and> queue_values (finish q) = queue_values q"
    and fail_law: "queue_ok q \<Longrightarrow> queue_ok (failed e q) \<and> queue_calls (failed e q) = queue_calls q
      \<and> queue_values (failed e q) = queue_values q"
    and ask_law: "queue_ok q \<Longrightarrow> queue_ok (ask k q) \<and> queue_calls (ask k q) = queue_calls q @ [k]
      \<and> queue_values (ask k q) = queue_values q"
begin

fun run :: "('a, 'e) queue_op list \<Rightarrow> ('a, 'e) queue_state \<Rightarrow> ('a, 'e) queue_state" where
  "run [] q = q"
| "run (Push x # ops) q = run ops (push x q)"
| "run (Close # ops) q = run ops (finish q)"
| "run (Fail e # ops) q = run ops (failed e q)"
| "run (Next k # ops) q = run ops (ask k q)"

fun accepted :: "('a, 'e) queue_op list \<Rightarrow> ('a, 'e) queue_state \<Rightarrow> 'a list" where
  "accepted [] q = []"
| "accepted (Push x # ops) q = (if accepts q then x # accepted ops (push x q) else accepted ops (push x q))"
| "accepted (Close # ops) q = accepted ops (finish q)"
| "accepted (Fail e # ops) q = accepted ops (failed e q)"
| "accepted (Next k # ops) q = accepted ops (ask k q)"

fun asked :: "('a, 'e) queue_op list \<Rightarrow> nat list" where
  "asked [] = []"
| "asked (Next k # ops) = k # asked ops"
| "asked (_ # ops) = asked ops"

lemma run_fifo:
  "queue_ok q \<Longrightarrow> queue_ok (run ops q) \<and> queue_values (run ops q) = queue_values q @ accepted ops q
     \<and> queue_calls (run ops q) = queue_calls q @ asked ops"
proof (induction ops q rule: run.induct)
  case (2 x ops q)
  then show ?case using push_law [of q x] by auto
next
  case (3 ops q)
  then show ?case using finish_law [of q] by auto
next
  case (4 e ops q)
  then show ?case using fail_law [of q e] by auto
next
  case (5 k ops q)
  then show ?case using ask_law [of q k] by auto
qed simp

end

lemma queue_ok_empty: "queue_ok empty_queue" "queue_values empty_queue = []" "queue_calls empty_queue = []"
  by (simp_all add: queue_ok_def empty_queue_def queue_values_def queue_calls_def)

interpretation aq: fifo_queue enqueue close_queue fail_queue next_queue "\<lambda>q. \<not> aq_closed q"
  by unfold_locales
    (auto simp: queue_ok_def queue_values_def queue_calls_def enqueue_def close_queue_def fail_queue_def next_queue_def
      comp_def split: list.splits option.splits)

interpretation eq: fifo_queue push_event close_events fail_events next_event "\<lambda>q. True"
  by unfold_locales
    (auto simp: queue_ok_def queue_values_def queue_calls_def push_event_def close_events_def fail_events_def next_event_def
      comp_def split: list.splits option.splits)

text \<open>
  C28: Whatever producers and consumers do with a queue, in whatever order, the values that consumers
  were given and those still held are exactly the accepted values in order, each once; the calls
  that were answered and those still waiting are the calls made, in order; and no call waits while
  a value is held or after the end.
\<close>

theorem queue_is_fifo:
  "let q = aq.run ops empty_queue in
     queue_values q = aq.accepted ops empty_queue \<and> queue_calls q = aq.asked ops
     \<and> (aq_waiters q = [] \<or> (aq_buffer q = [] \<and> \<not> aq_closed q))"
  using aq.run_fifo [OF queue_ok_empty(1), of ops] by (auto simp: queue_ok_empty queue_ok_def Let_def)

text \<open>A consumer that waits when the queue fails is told that the queue has ended.\<close>

lemma waiting_consumer_misses_error:
  "aq_answers (fail_queue e (next_queue 0 empty_queue)) = [(0, Done_given)]"
  by (simp add: fail_queue_def close_queue_def next_queue_def empty_queue_def)

section \<open>The client\<close>

datatype 'v frame =
    Hello_frame
  | Notification_frame string
  | Response_ok string string
  | Response_error string string string
  | Event_frame string bool 'v

datatype settled = Resolved string | Rejected_with string

text \<open>Queues are kept by the id of their stream: the consumer holds on to its queue.\<close>

record 'v ws_client =
  wc_pending :: "string list"
  wc_settled :: "(string \<times> settled) list"
  wc_streams :: "string list"
  wc_queues :: "string \<Rightarrow> ('v, string) queue_state"

definition new_client :: "'v ws_client" where
  "new_client = \<lparr>wc_pending = [], wc_settled = [], wc_streams = [], wc_queues = (\<lambda>_. empty_queue)\<rparr>"

definition client_request :: "string \<Rightarrow> 'v ws_client \<Rightarrow> 'v ws_client" where
  "client_request i c = c\<lparr>wc_pending := wc_pending c @ [i]\<rparr>"

definition client_stream :: "string \<Rightarrow> 'v ws_client \<Rightarrow> 'v ws_client" where
  "client_stream i c = c\<lparr>wc_streams := wc_streams c @ [i], wc_queues := (wc_queues c)(i := empty_queue)\<rparr>"

definition stream_next :: "string \<Rightarrow> nat \<Rightarrow> 'v ws_client \<Rightarrow> 'v ws_client" where
  "stream_next i k c = c\<lparr>wc_queues := (wc_queues c)(i := next_event k (wc_queues c i))\<rparr>"

definition settle :: "string \<Rightarrow> settled \<Rightarrow> 'v ws_client \<Rightarrow> 'v ws_client" where
  "settle i r c =
     (if i \<in> set (wc_pending c)
      then c\<lparr>wc_pending := filter (\<lambda>j. j \<noteq> i) (wc_pending c), wc_settled := wc_settled c @ [(i, r)]\<rparr> else c)"

fun client_message :: "'v frame \<Rightarrow> 'v ws_client \<Rightarrow> 'v ws_client" where
  "client_message Hello_frame c = c"
| "client_message (Notification_frame _) c = c"
| "client_message (Response_ok i result) c = settle i (Resolved result) c"
| "client_message (Response_error i code message) c = settle i (Rejected_with message) c"
| "client_message (Event_frame i final v) c =
     (if i \<notin> set (wc_streams c) then c
      else if \<not> final then c\<lparr>wc_queues := (wc_queues c)(i := push_event v (wc_queues c i))\<rparr>
      else c\<lparr>wc_streams := filter (\<lambda>j. j \<noteq> i) (wc_streams c),
             wc_queues := (wc_queues c)(i := close_events (wc_queues c i))\<rparr>)"

definition closePending :: "string \<Rightarrow> 'v ws_client \<Rightarrow> 'v ws_client" where
  "closePending e c = c\<lparr>wc_pending := [], wc_settled := wc_settled c @ map (\<lambda>i. (i, Rejected_with e)) (wc_pending c),
     wc_streams := [], wc_queues := (\<lambda>i. if i \<in> set (wc_streams c) then fail_events e (wc_queues c i) else wc_queues c i)\<rparr>"

text \<open>
  What the server sends for a turn: its events and a last one, or an error response when the turn
  throws.
\<close>

definition turn_frames :: "string \<Rightarrow> 'v list \<Rightarrow> 'v \<Rightarrow> (string \<times> string) option \<Rightarrow> 'v frame list" where
  "turn_frames i events completed thrown =
     map (Event_frame i False) events
     @ (case thrown of None \<Rightarrow> [Event_frame i True completed] | Some (code, message) \<Rightarrow> [Response_error i code message])"

definition client_messages :: "'v frame list \<Rightarrow> 'v ws_client \<Rightarrow> 'v ws_client" where
  "client_messages frames c = foldl (\<lambda>c f. client_message f c) c frames"

lemma pushed_events:
  "i \<in> set (wc_streams c) \<Longrightarrow>
     wc_queues (client_messages (map (Event_frame i False) vs) c) i = foldl (\<lambda>q v. push_event v q) (wc_queues c i) vs
     \<and> wc_streams (client_messages (map (Event_frame i False) vs) c) = wc_streams c"
  by (induction vs arbitrary: c) (simp_all add: client_messages_def)

lemma next_empty: "queue_ok (next_event k empty_queue) \<and> queue_values (next_event k empty_queue) = []"
  by (simp add: next_event_def empty_queue_def queue_ok_def queue_values_def)

lemma push_all: "queue_ok q \<Longrightarrow> queue_ok (foldl (\<lambda>q v. push_event v q) q vs)
    \<and> queue_values (foldl (\<lambda>q v. push_event v q) q vs) = queue_values q @ vs
    \<and> aq_closed (foldl (\<lambda>q v. push_event v q) q vs) = aq_closed q"
proof (induction vs arbitrary: q)
  case (Cons v vs)
  have "aq_closed (push_event v q) = aq_closed q" by (simp add: push_event_def split: list.split)
  then show ?case using Cons eq.push_law [of q v] by simp
qed simp

text \<open>
  A turn that does not throw reaches the consumer of its stream completely and in order, and
  the stream then ends, whether the consumer asked before or asks later.
\<close>

lemma turn_delivered:
  "let c = client_messages (turn_frames i events completed None) (stream_next i k (client_stream i c0)) in
     queue_values (wc_queues c i) = events \<and> aq_closed (wc_queues c i) \<and> aq_waiters (wc_queues c i) = []"
proof -
  let ?c = "stream_next i k (client_stream i c0)"
  have s: "i \<in> set (wc_streams ?c)" by (simp add: stream_next_def client_stream_def)
  have q: "queue_ok (wc_queues ?c i) \<and> queue_values (wc_queues ?c i) = []"
    using next_empty [of k] by (simp add: stream_next_def client_stream_def)
  note p = push_all [of "wc_queues ?c i" events]
  have f: "client_messages (turn_frames i events completed None) ?c
      = client_message (Event_frame i True completed) (client_messages (map (Event_frame i False) events) ?c)"
    by (simp add: turn_frames_def client_messages_def)
  have "queue_values (close_events x) = queue_values x" for x :: "('a, string) queue_state"
    by (simp add: queue_values_def close_events_def)
  then show ?thesis unfolding f using pushed_events [OF s, of events] s p q by (simp add: Let_def) (simp add: close_events_def)
qed

lemma quiet_events:
  "wc_pending (client_messages (map (Event_frame i False) vs) c) = wc_pending c
     \<and> wc_settled (client_messages (map (Event_frame i False) vs) c) = wc_settled c"
  by (induction vs arbitrary: c) (simp_all add: client_messages_def)

lemma held_events:
  "aq_waiters q = [] \<Longrightarrow> foldl (\<lambda>q v. push_event v q) q vs = q\<lparr>aq_buffer := aq_buffer q @ vs\<rparr>"
  by (induction vs arbitrary: q) (simp_all add: push_event_def)

lemma next_held:
  "aq_error q = None \<Longrightarrow> n \<le> length (aq_buffer q) \<Longrightarrow>
     foldl (\<lambda>q k. next_event k q) q [0..<n] =
       q\<lparr>aq_buffer := drop n (aq_buffer q), aq_answers := aq_answers q @ map (\<lambda>k. (k, Value_given (aq_buffer q ! k))) [0..<n]\<rparr>"
proof (induction n)
  case (Suc n)
  then have "drop n (aq_buffer q) = aq_buffer q ! n # drop (Suc n) (aq_buffer q)" by (simp add: Cons_nth_drop_Suc)
  then show ?case using Suc by (simp add: next_event_def)
qed simp

lemma stream_next_queue: "wc_queues (foldl (\<lambda>c k. stream_next i k c) c ks) i = foldl (\<lambda>q k. next_event k q) (wc_queues c i) ks"
  by (induction ks arbitrary: c) (simp_all add: stream_next_def)

text \<open>A consumer of a stream with some events that takes one more than there are.\<close>

lemma taken_events:
  assumes "wc_queues c i = foldl (\<lambda>q v. push_event v q) empty_queue vs"
  shows "let q = wc_queues (foldl (\<lambda>c k. stream_next i k c) c [0..<length vs + 1]) i in
    aq_answers q = map (\<lambda>k. (k, Value_given (vs ! k))) [0..<length vs] \<and> aq_waiters q = [length vs] \<and> \<not> aq_closed q"
proof -
  let ?q = "empty_queue\<lparr>aq_buffer := vs\<rparr>"
  have "wc_queues c i = ?q" using assms held_events [of empty_queue vs] by (simp add: empty_queue_def)
  then have "wc_queues (foldl (\<lambda>c k. stream_next i k c) c [0..<length vs + 1]) i
      = next_event (length vs) (foldl (\<lambda>q k. next_event k q) ?q [0..<length vs])"
    unfolding stream_next_queue by simp
  also have "\<dots> = ?q\<lparr>aq_buffer := [], aq_answers := map (\<lambda>k. (k, Value_given (vs ! k))) [0..<length vs], aq_waiters := [length vs]\<rparr>"
    by (subst next_held) (simp_all add: next_event_def empty_queue_def)
  finally show ?thesis by (simp add: Let_def empty_queue_def)
qed

text \<open>
  When a turn throws after any number of events, the answer of the server settles nothing: the
  consumer is given the events and then waits on, and its stream stays open.
\<close>

lemma failed_turn_hangs:
  "let c = client_messages (turn_frames i events completed (Some (code, message))) (client_stream i new_client);
       q = wc_queues (foldl (\<lambda>c k. stream_next i k c) c [0..<length events + 1]) i in
     aq_answers q = map (\<lambda>k. (k, Value_given (events ! k))) [0..<length events]
     \<and> aq_waiters q = [length events] \<and> \<not> aq_closed q \<and> i \<in> set (wc_streams c) \<and> wc_settled c = []"
proof -
  let ?c = "client_messages (turn_frames i events completed (Some (code, message))) (client_stream i new_client)"
  let ?p = "client_messages (map (Event_frame i False) events) (client_stream i new_client)"
  have i: "i \<in> set (wc_streams (client_stream i new_client))" by (simp add: client_stream_def)
  have pending: "wc_pending ?p = [] \<and> wc_settled ?p = []"
    using quiet_events [of i events "client_stream i new_client"] by (simp add: client_stream_def new_client_def)
  have c: "?c = ?p" using pending by (simp add: turn_frames_def client_messages_def settle_def)
  have q: "wc_queues ?c i = foldl (\<lambda>q v. push_event v q) empty_queue events"
    using pushed_events [OF i, of events] unfolding c by (simp add: client_stream_def)
  show ?thesis using taken_events [of ?c i events] q pushed_events [OF i, of events] i pending
    unfolding c by (simp add: Let_def)
qed

text \<open>When the connection closes nobody is left waiting.\<close>

lemma closed_connection_settles:
  "i \<in> set (wc_pending c) \<Longrightarrow> (i, Rejected_with e) \<in> set (wc_settled (closePending e c))"
  "i \<in> set (wc_streams c) \<Longrightarrow> aq_waiters (wc_queues (closePending e c) i) = []"
  by (simp_all add: closePending_def fail_events_def)

end
