(* ===== verification/Gateway_Samples.thy ===== *)
theory Gateway_Samples
  imports Gateway_Socket Gateway_Client
begin

text \<open>Witnesses of the gateway's properties on concrete bytes.\<close>

theorem messages_arrive_witness:
  "so_messages (receive [[0x81], [0x82, 1, 2], [3, 4, 73, 107, 0x81, 0x80, 0], [0, 0, 0]] fresh_socket) = [[72, 105], []]"
proof -
  let ?ms = "[([1, 2, 3, 4], [72, 105]), ([0, 0, 0, 0], [])] :: (bytes \<times> bytes) list"
  have e: "concat [[0x81], [0x82, 1, 2], [3, 4, 73, 107, 0x81, 0x80, 0], [0, 0, 0]]
      = concat (map (\<lambda>(key, payload). client_frame 1 key payload) ?ms)" by code_simp
  have "\<forall>(key, payload) \<in> set ?ms. length key = 4 \<and> length payload \<le> MAX_SAFE_INTEGER"
    by (simp add: MAX_SAFE_INTEGER_def)
  from messages_arrive [OF this e] show ?thesis by simp
qed

lemma chunks_irrelevant_sample:
  "receive [[0x81], [0x80, 0, 0], [0, 0]] fresh_socket = receive [[0x81, 0x80, 0, 0, 0, 0]] fresh_socket"
proof (rule chunks_irrelevant)
  show "snd (parse_frames (concat [[0x81], [0x80, 0, 0], [0, 0]])) = Waiting []"
    using parse_client_frames [of "[([0, 0, 0, 0], [])]"]
    by (simp add: client_frame_def length_field_def MAX_SAFE_INTEGER_def)
qed simp

end
