(* ===== verification/Session_Transcript.thy ===== *)
theory Session_Transcript
  imports Conversation
begin

text \<open>
  The transcript of a session: \<open>src/session/transcript/TranscriptReplay.ts\<close> turns its entries into
  the conversation a session resumes with, \<open>TranscriptChain.ts\<close> finds the active chain of linked
  entries. An entry id that is the empty text counts as missing.
\<close>

section \<open>Entries\<close>

record token_usage =
  tu_input :: "int option"
  tu_output :: "int option"
  tu_cache_read :: "int option"
  tu_cache_write :: "int option"
  tu_total :: "int option"

datatype entry_body =
    Accepted_input "message list"
  | Message_entry message
  | Turn_started
  | Turn_result token_usage "string list"
  | Compact_boundary
  | Other_boundary
  | Metadata_entry "string option"
  | Status_message
  | Subagent_entry

record transcript_entry =
  te_id :: string
  te_parent :: string
  te_session :: string
  te_turn :: string
  te_sequence :: nat
  te_created :: string
  te_body :: entry_body

definition classifyDurableMessageEntry :: "message \<Rightarrow> string" where
  "classifyDurableMessageEntry m =
     (if msg_role m = Assistant_role then ''assistant_message''
      else if list_ex (\<lambda>b. case b of Tool_result _ _ _ \<Rightarrow> True | _ \<Rightarrow> False) (msg_content m) then ''tool_result_message''
      else ''durable_message'')"

section \<open>Replay\<close>

definition add_tokens :: "int option \<Rightarrow> int option \<Rightarrow> int option" where
  "add_tokens a b = (case (a, b) of (None, None) \<Rightarrow> None
     | _ \<Rightarrow> Some ((case a of None \<Rightarrow> 0 | Some n \<Rightarrow> n) + (case b of None \<Rightarrow> 0 | Some n \<Rightarrow> n)))"

definition mergeUsage :: "token_usage \<Rightarrow> token_usage \<Rightarrow> token_usage" where
  "mergeUsage a b = \<lparr>tu_input = add_tokens (tu_input a) (tu_input b), tu_output = add_tokens (tu_output a) (tu_output b),
     tu_cache_read = add_tokens (tu_cache_read a) (tu_cache_read b),
     tu_cache_write = add_tokens (tu_cache_write a) (tu_cache_write b), tu_total = add_tokens (tu_total a) (tu_total b)\<rparr>"

definition no_usage :: token_usage where
  "no_usage = \<lparr>tu_input = None, tu_output = None, tu_cache_read = None, tu_cache_write = None, tu_total = None\<rparr>"

datatype replay_event =
    Input_accepted string string "message list"
  | Message_projected string string message
  | Turn_completed string string token_usage "string list"
  | Turn_interrupted string string "string option"

record replay_result =
  re_messages :: "message list"
  re_usage :: token_usage
  re_denials :: "string list"
  re_events :: "replay_event list"
  re_title :: "string option"
  re_skipped :: "string list"

definition is_boundary :: "transcript_entry \<Rightarrow> bool" where
  "is_boundary e \<longleftrightarrow> te_body e = Compact_boundary"

text \<open>The index of the last compact boundary; \<open>None\<close> is \<open>-1\<close>.\<close>

fun findLastCompactBoundaryIndex :: "transcript_entry list \<Rightarrow> nat option" where
  "findLastCompactBoundaryIndex [] = None"
| "findLastCompactBoundaryIndex (e # es) =
     (case findLastCompactBoundaryIndex es of
        Some i \<Rightarrow> Some (Suc i)
      | None \<Rightarrow> if is_boundary e then Some 0 else None)"

definition completed_turns :: "transcript_entry list \<Rightarrow> string list" where
  "completed_turns es = List.map_filter (\<lambda>e. case te_body e of Turn_result _ _ \<Rightarrow> Some (te_turn e) | _ \<Rightarrow> None) es"

definition started_turns :: "transcript_entry list \<Rightarrow> string list" where
  "started_turns es = List.map_filter (\<lambda>e. case te_body e of
     Turn_started \<Rightarrow> Some (te_turn e) | Accepted_input _ \<Rightarrow> Some (te_turn e) | Message_entry _ \<Rightarrow> Some (te_turn e)
   | _ \<Rightarrow> None) es"

definition last_message_at :: "transcript_entry list \<Rightarrow> string \<Rightarrow> string option" where
  "last_message_at es turn =
     (case filter (\<lambda>e. te_turn e = turn \<and> (case te_body e of Message_entry _ \<Rightarrow> True | _ \<Rightarrow> False)) es of
        [] \<Rightarrow> None | xs \<Rightarrow> Some (te_created (last xs)))"

definition replay_entry :: "string set \<Rightarrow> nat option \<Rightarrow> replay_result \<Rightarrow> nat \<times> transcript_entry \<Rightarrow> replay_result" where
  "replay_entry completed boundary r ie =
     (case ie of (i, e) \<Rightarrow>
        let beforeBoundary = (case boundary of None \<Rightarrow> False | Some b \<Rightarrow> i < b) in
        (case te_body e of
           Accepted_input ms \<Rightarrow>
             if beforeBoundary then r
             else r\<lparr>re_messages := re_messages r @ ms, re_events := re_events r @ [Input_accepted (te_session e) (te_turn e) ms]\<rparr>
         | Message_entry m \<Rightarrow>
             if te_turn e \<notin> completed then r\<lparr>re_skipped := re_skipped r @ [te_turn e]\<rparr>
             else if beforeBoundary then r
             else r\<lparr>re_messages := re_messages r @ [m], re_events := re_events r @ [Message_projected (te_session e) (te_turn e) m]\<rparr>
         | Turn_result usage denials \<Rightarrow>
             let r1 = r\<lparr>re_usage := mergeUsage (re_usage r) usage, re_denials := re_denials r @ denials\<rparr> in
             if beforeBoundary then r1
             else r1\<lparr>re_events := re_events r1 @ [Turn_completed (te_session e) (te_turn e) usage denials]\<rparr>
         | Metadata_entry title \<Rightarrow> r\<lparr>re_title := (case title of None \<Rightarrow> re_title r | Some t \<Rightarrow> Some t)\<rparr>
         | _ \<Rightarrow> r))"

definition interruption :: "transcript_entry list \<Rightarrow> string \<Rightarrow> replay_event" where
  "interruption es turn = Turn_interrupted
     (case find (\<lambda>e. te_turn e = turn) es of None \<Rightarrow> [] | Some e \<Rightarrow> te_session e) turn (last_message_at es turn)"

definition replayTranscriptEntries :: "(string \<Rightarrow> string \<Rightarrow> bool) \<Rightarrow> transcript_entry list \<Rightarrow> replay_result" where
  "replayTranscriptEntries unit_le es =
     (let completed = set (completed_turns es);
          r = foldl (replay_entry completed (findLastCompactBoundaryIndex es))
                \<lparr>re_messages = [], re_usage = no_usage, re_denials = [], re_events = [], re_title = None, re_skipped = []\<rparr>
                (zip [0..<length es] es);
          interrupted = sort_by unit_le (filter (\<lambda>t. t \<notin> completed) (rev (remdups (rev (started_turns es)))))
      in r\<lparr>re_events := re_events r @ map (interruption es) interrupted\<rparr>)"

section \<open>What a resumed session knows\<close>

text \<open>The messages of one entry, given the turns that were completed.\<close>

definition entry_messages :: "string set \<Rightarrow> transcript_entry \<Rightarrow> message list" where
  "entry_messages completed e =
     (case te_body e of
        Accepted_input ms \<Rightarrow> ms
      | Message_entry m \<Rightarrow> if te_turn e \<in> completed then [m] else []
      | _ \<Rightarrow> [])"

definition after_boundary :: "transcript_entry list \<Rightarrow> transcript_entry list" where
  "after_boundary es = (case findLastCompactBoundaryIndex es of None \<Rightarrow> es | Some i \<Rightarrow> drop i es)"

lemma replay_fold:
  "re_messages (foldl (replay_entry completed b) r (zip [n..<n + length es] es)) =
     re_messages r @ concat (map (entry_messages completed) (case b of None \<Rightarrow> es | Some k \<Rightarrow> drop (k - n) es))"
proof (induction es arbitrary: r n)
  case (Cons e es)
  have z: "zip [n..<n + length (e # es)] (e # es) = (n, e) # zip [Suc n..<Suc n + length es] es"
  proof -
    have "[n..<n + length (e # es)] = n # [Suc n..<Suc n + length es]" by (simp add: upt_conv_Cons del: upt_Suc)
    then show ?thesis by (simp only: zip_Cons_Cons)
  qed
  have m: "re_messages (replay_entry completed b r (n, e)) =
      re_messages r @ (if (case b of None \<Rightarrow> False | Some k \<Rightarrow> n < k) then [] else entry_messages completed e)"
    by (auto simp: replay_entry_def entry_messages_def Let_def split: entry_body.splits option.splits)
  show ?case unfolding z using Cons.IH [of "replay_entry completed b r (n, e)" "Suc n"] m
    by (auto simp: drop_Cons' split: option.splits)
qed (auto split: option.splits)

text \<open>
  A session resumes with exactly the accepted input and the messages of completed turns that
  stand after the last compact boundary, in order.
\<close>

lemma replay_messages:
  "re_messages (replayTranscriptEntries unit_le es) =
     concat (map (entry_messages (set (completed_turns es))) (after_boundary es))"
  using replay_fold [of "set (completed_turns es)" "findLastCompactBoundaryIndex es" _ 0 es]
  by (simp add: replayTranscriptEntries_def Let_def after_boundary_def split: option.splits)

lemma boundary_append:
  "list_all (\<lambda>e. \<not> is_boundary e) ys \<Longrightarrow> findLastCompactBoundaryIndex (xs @ ys) = findLastCompactBoundaryIndex xs"
proof -
  assume n: "list_all (\<lambda>e. \<not> is_boundary e) ys"
  then have "findLastCompactBoundaryIndex ys = None" by (induction ys) auto
  then show ?thesis by (induction xs) (auto split: option.splits)
qed

lemma boundary_bound: "findLastCompactBoundaryIndex es = Some i \<Longrightarrow> i < length es"
  by (induction es arbitrary: i) (auto split: option.splits if_splits)

text \<open>Entries of a turn that was cut off: no result and no boundary.\<close>

definition cut_off :: "string \<Rightarrow> transcript_entry \<Rightarrow> bool" where
  "cut_off turn e \<longleftrightarrow> te_turn e = turn \<and> (case te_body e of Turn_result _ _ \<Rightarrow> False | Compact_boundary \<Rightarrow> False | _ \<Rightarrow> True)"

text \<open>
  C29: When the process dies within a turn, a session resumes with what it had before that turn and
  the input of the turn, and with nothing of what the turn had said so far, however far it got.
\<close>

theorem crash_keeps_completed:
  assumes "list_all (cut_off turn) partial" "turn \<notin> set (completed_turns es)"
  shows "re_messages (replayTranscriptEntries unit_le (es @ partial)) =
    re_messages (replayTranscriptEntries unit_le es)
      @ concat (map (\<lambda>e. case te_body e of Accepted_input ms \<Rightarrow> ms | _ \<Rightarrow> []) partial)"
proof -
  have c: "completed_turns (es @ partial) = completed_turns es"
    using assms(1) by (induction partial) (auto simp: completed_turns_def List.map_filter_def cut_off_def split: entry_body.splits)
  have "list_all (\<lambda>e. \<not> is_boundary e) partial"
    using assms(1) by (auto simp: list_all_iff cut_off_def is_boundary_def)
  then have b: "findLastCompactBoundaryIndex (es @ partial) = findLastCompactBoundaryIndex es" by (rule boundary_append)
  have a: "after_boundary (es @ partial) = after_boundary es @ partial"
    using boundary_bound [of es] by (auto simp: after_boundary_def b split: option.splits)
  have m: "entry_messages (set (completed_turns es)) e = (case te_body e of Accepted_input ms \<Rightarrow> ms | _ \<Rightarrow> [])"
    if "e \<in> set partial" for e
    using assms that by (auto simp: entry_messages_def list_all_iff cut_off_def split: entry_body.splits)
  then have p: "map (entry_messages (set (completed_turns es))) partial
      = map (\<lambda>e. case te_body e of Accepted_input ms \<Rightarrow> ms | _ \<Rightarrow> []) partial" by simp
  show ?thesis by (simp add: replay_messages a c p)
qed

section \<open>The chain\<close>

text \<open>The children of an id, in the order of their entries; an id stands for the last entry that has it.\<close>

definition chain_ids :: "transcript_entry list \<Rightarrow> string list" where
  "chain_ids es = map te_id (filter (\<lambda>e. te_id e \<noteq> []) es)"

definition chain_children :: "transcript_entry list \<Rightarrow> string \<Rightarrow> string list" where
  "chain_children es p = (if p \<in> set (chain_ids es)
     then map te_id (filter (\<lambda>e. te_id e \<noteq> [] \<and> te_parent e = p) es) else [])"

definition longer :: "string list \<Rightarrow> string list \<Rightarrow> string list" where
  "longer best path = (if length best < length path then path else best)"

text \<open>The recursion has no end on a cycle: \<open>None\<close> is the overflow of a stack of the given depth.\<close>

fun findLongestPath :: "(string \<Rightarrow> string list) \<Rightarrow> nat \<Rightarrow> string \<Rightarrow> string list option" where
  "findLongestPath kids 0 x = None"
| "findLongestPath kids (Suc depth) x =
     (if kids x = [] then Some [x]
      else let paths = map (findLongestPath kids depth) (kids x) in
        if None \<in> set paths then None else Some (x # foldl longer [] (map the paths)))"

definition chain_orphans :: "transcript_entry list \<Rightarrow> transcript_entry list" where
  "chain_orphans es = filter (\<lambda>e. te_id e \<noteq> [] \<and> te_parent e \<noteq> [] \<and> te_parent e \<notin> set (chain_ids es)) es"

definition chain_roots :: "transcript_entry list \<Rightarrow> string list" where
  "chain_roots es =
     (let linked = filter (\<lambda>e. te_id e \<noteq> []) es;
          childIds = map te_id (filter (\<lambda>e. te_parent e \<noteq> [] \<and> te_parent e \<in> set (chain_ids es)) linked);
          roots = map te_id (filter (\<lambda>e. te_id e \<notin> set childIds \<and> te_parent e = []) linked)
      in if roots = [] then (case linked of [] \<Rightarrow> [] | e # _ \<Rightarrow> [te_id e]) else roots)"

definition last_entry :: "transcript_entry list \<Rightarrow> string \<Rightarrow> transcript_entry option" where
  "last_entry es x = find (\<lambda>e. te_id e = x) (rev es)"

definition buildConversationChain :: "nat \<Rightarrow> transcript_entry list \<Rightarrow> transcript_entry list option" where
  "buildConversationChain depth es =
     (if chain_ids es = [] then Some es
      else let paths = map (findLongestPath (chain_children es) depth) (chain_roots es) in
        if None \<in> set paths then None
        else let longest = foldl longer [] (map the paths) in
          Some (List.map_filter (last_entry es) longest @ filter (\<lambda>e. te_id e \<notin> set longest) (chain_orphans es)))"

text \<open>A path from a node down to a leaf.\<close>

fun leaf_path :: "(string \<Rightarrow> string list) \<Rightarrow> string list \<Rightarrow> bool" where
  "leaf_path kids [] \<longleftrightarrow> False"
| "leaf_path kids [x] \<longleftrightarrow> kids x = []"
| "leaf_path kids (x # y # r) \<longleftrightarrow> y \<in> set (kids x) \<and> leaf_path kids (y # r)"

lemma longer_fold:
  "foldl longer b ps \<in> insert b (set ps) \<and> length b \<le> length (foldl longer b ps)
     \<and> (\<forall>p \<in> set ps. length p \<le> length (foldl longer b ps))"
proof (induction ps arbitrary: b)
  case (Cons p ps)
  have "length b \<le> length (longer b p)" "length p \<le> length (longer b p)" "longer b p \<in> {b, p}"
    by (auto simp: longer_def)
  then show ?case using Cons.IH [of "longer b p"] by (auto intro: order_trans)
qed simp

lemma longest_path_sound:
  "findLongestPath kids depth x = Some p \<Longrightarrow> leaf_path kids p \<and> hd p = x
     \<and> (\<forall>q. leaf_path kids q \<and> hd q = x \<longrightarrow> length q \<le> length p)"
proof (induction depth arbitrary: x p)
  case (Suc depth)
  show ?case
  proof (cases "kids x = []")
    case True
    have "length q \<le> 1" if "leaf_path kids q" "hd q = x" for q
      using that True by (cases "(kids, q)" rule: leaf_path.cases) auto
    then show ?thesis using Suc.prems True by auto
  next
    case False
    let ?paths = "map (findLongestPath kids depth) (kids x)"
    let ?ps = "map the ?paths"
    let ?b = "foldl longer [] ?ps"
    have p: "p = x # ?b" and none: "None \<notin> set ?paths" using Suc.prems False by (auto simp: Let_def split: if_splits)
    have each: "leaf_path kids (the (findLongestPath kids depth y)) \<and> hd (the (findLongestPath kids depth y)) = y
        \<and> (\<forall>q. leaf_path kids q \<and> hd q = y \<longrightarrow> length q \<le> length (the (findLongestPath kids depth y)))"
      if "y \<in> set (kids x)" for y
    proof -
      have "findLongestPath kids depth y \<noteq> None" using none that by force
      then show ?thesis using Suc.IH by fastforce
    qed
    obtain y0 where y0: "y0 \<in> set (kids x)" using False by (cases "kids x") auto
    have l: "length (the (findLongestPath kids depth y)) \<le> length ?b" if "y \<in> set (kids x)" for y
      using longer_fold [of "[]" ?ps] that by auto
    have "the (findLongestPath kids depth y0) \<noteq> []" using each [OF y0] by (cases "the (findLongestPath kids depth y0)") auto
    then have "?b \<noteq> []" using l [OF y0] by auto
    then obtain y where y: "y \<in> set (kids x)" "?b = the (findLongestPath kids depth y)"
      using longer_fold [of "[]" ?ps] by auto
    have path: "leaf_path kids p"
      using each [OF y(1)] y p by (cases ?b) auto
    have "length q \<le> length p" if q: "leaf_path kids q" "hd q = x" for q
    proof -
      obtain z r where z: "q = x # z # r" "z \<in> set (kids x)" "leaf_path kids (z # r)"
        using q False by (cases "(kids, q)" rule: leaf_path.cases) auto
      then have "length (z # r) \<le> length (the (findLongestPath kids depth z))" using each [OF z(2)] by force
      then show ?thesis using l [OF z(2)] z(1) p by simp
    qed
    then show ?thesis using path p by simp
  qed
qed simp

lemma longest_path_total:
  assumes "\<And>x y. y \<in> set (kids x) \<Longrightarrow> rank y < (rank x :: nat)"
  shows "rank x < depth \<Longrightarrow> findLongestPath kids depth x \<noteq> None"
proof (induction depth arbitrary: x)
  case (Suc depth)
  have "findLongestPath kids depth y \<noteq> None" if "y \<in> set (kids x)" for y
    using Suc.IH [of y] assms [OF that] Suc.prems by linarith
  then have "None \<notin> set (map (findLongestPath kids depth) (kids x))" by force
  then show ?case by (simp add: Let_def)
qed simp

text \<open>
  When a measure falls along every link from an entry to its children, the search for the
  longest path ends at a depth above the measure, with a path from the entry to a leaf than which
  no other is longer.
\<close>

lemma longest_path_found:
  assumes "\<And>x y. y \<in> set (kids x) \<Longrightarrow> rank y < (rank x :: nat)" "rank x < depth"
  shows "\<exists>p. findLongestPath kids depth x = Some p \<and> leaf_path kids p \<and> hd p = x
    \<and> (\<nexists>q. leaf_path kids q \<and> hd q = x \<and> length p < length q)"
proof -
  obtain p where p: "findLongestPath kids depth x = Some p"
    using longest_path_total [of kids rank x depth] assms by blast
  then show ?thesis using longest_path_sound [OF p] by (auto simp: not_less)
qed

section \<open>Edges\<close>

definition plain_entry :: "string \<Rightarrow> string \<Rightarrow> entry_body \<Rightarrow> transcript_entry" where
  "plain_entry i p b = \<lparr>te_id = i, te_parent = p, te_session = ''s'', te_turn = ''t'', te_sequence = 0, te_created = ''now'', te_body = b\<rparr>"

text \<open>Two entries that name each other as parent: the search has no end at any depth.\<close>

lemma linked_cycle_overflows:
  "buildConversationChain depth [plain_entry ''a'' ''b'' Turn_started, plain_entry ''b'' ''a'' Turn_started] = None"
proof -
  let ?es = "[plain_entry ''a'' ''b'' Turn_started, plain_entry ''b'' ''a'' Turn_started]"
  have k: "chain_children ?es ''a'' = [''b'']" "chain_children ?es ''b'' = [''a'']" by code_simp+
  have "findLongestPath (chain_children ?es) d ''a'' = None \<and> findLongestPath (chain_children ?es) d ''b'' = None" for d
    by (induction d) (simp_all add: k)
  moreover have "chain_roots ?es = [''a'']" "chain_ids ?es = [''a'', ''b'']" by code_simp+
  ultimately show ?thesis by (simp add: buildConversationChain_def Let_def)
qed

definition sample_turn :: "transcript_entry list" where
  "sample_turn = [plain_entry ''1'' [] (Accepted_input [\<lparr>msg_role = User_role, msg_content = [Text_block ''q'']\<rparr>]),
     plain_entry ''2'' ''1'' (Message_entry \<lparr>msg_role = Assistant_role, msg_content = [Text_block ''a'']\<rparr>)]"

theorem crash_keeps_completed_witness:
  "re_messages (replayTranscriptEntries (\<lambda>a b. True) ([] @ sample_turn)) = [\<lparr>msg_role = User_role, msg_content = [Text_block ''q'']\<rparr>]"
proof -
  have c: "list_all (cut_off ''t'') sample_turn" by code_simp
  show ?thesis using crash_keeps_completed [OF c, of "[]" "\<lambda>a b. True"]
    by (simp add: completed_turns_def List.map_filter_def sample_turn_def plain_entry_def replay_messages after_boundary_def)
qed

theorem longest_path_found_witness:
  "\<exists>p. findLongestPath (\<lambda>n. if n = [] then [[CHR ''a'']] else []) 5 [] = Some p \<and> length p = 2"
proof -
  let ?kids = "\<lambda>n :: string. if n = [] then [[CHR ''a'']] else []"
  have r: "y \<in> set (?kids x) \<Longrightarrow> 1 - length y < 1 - length x" for x y :: string by (auto split: if_splits)
  obtain p where p: "findLongestPath ?kids 5 [] = Some p" "leaf_path ?kids p" "hd p = []"
    using longest_path_found [of ?kids "\<lambda>x. 1 - length x" "[]" 5] r by auto
  have "findLongestPath ?kids 5 [] = Some [[], [CHR ''a'']]" by code_simp
  with p show ?thesis by auto
qed

end
