(* ===== verification/Session_Writer.thy ===== *)
theory Session_Writer
  imports Session_Transcript Context_Budget
begin

text \<open>
  Writing and reading a transcript: the writer of \<open>src/session/transcript/JsonlTranscriptWriter.ts\<close>,
  the reader of \<open>TranscriptReader.ts\<close> and the resumption of \<open>src/session/resume/resumeAgentSession.ts\<close>.
  The file is the sequence of what its appends left: a line with an entry, an entry whose line is
  not ended, or a part of one. A part of a JSON object with more text behind it on the line is no
  JSON. An unknown last entry id (\<open>null\<close>) is the empty text; ids come from \<open>randomUUID\<close>.
\<close>

section \<open>Previews\<close>

fun preview_from :: "nat \<Rightarrow> nat \<Rightarrow> string \<Rightarrow> string" where
  "preview_from byteCap bytes [] = []"
| "preview_from byteCap bytes (c # s) =
     (if byteCap < bytes + char_bytes c then [] else c # preview_from byteCap (bytes + char_bytes c) s)"

definition truncatePreview :: "string \<Rightarrow> nat \<Rightarrow> string \<times> bool" where
  "truncatePreview s byteCap = (if byteLength s \<le> byteCap then (s, False) else (preview_from byteCap 0 s, True))"

lemma preview_from_bound: "n \<le> cap \<Longrightarrow> n + byteLength (preview_from cap n s) \<le> cap"
  by (induction s arbitrary: n) (auto simp: byteLength_def add.assoc [symmetric])

lemma preview_within_cap: "byteLength (fst (truncatePreview s cap)) \<le> cap"
  using preview_from_bound [of 0 cap s] by (simp add: truncatePreview_def)

section \<open>The file\<close>

datatype chunk = Line transcript_entry | Unterminated transcript_entry | Cut

datatype append_outcome = Written | Lost | Torn | Unended

fun leftover :: "append_outcome \<Rightarrow> transcript_entry \<Rightarrow> chunk list" where
  "leftover Written e = [Line e]"
| "leftover Lost e = []"
| "leftover Torn e = [Cut]"
| "leftover Unended e = [Unterminated e]"

text \<open>The entries of the lines and the numbers of the lines that are no JSON.\<close>

fun read_lines :: "nat \<Rightarrow> chunk list \<Rightarrow> transcript_entry list \<times> nat list"
and broken_line :: "nat \<Rightarrow> chunk list \<Rightarrow> transcript_entry list \<times> nat list" where
  "read_lines n [] = ([], [])"
| "read_lines n (Line e # r) = (case read_lines (Suc n) r of (es, bad) \<Rightarrow> (e # es, bad))"
| "read_lines n (Unterminated e # r) = (if r = [] then ([e], []) else broken_line n r)"
| "read_lines n (Cut # r) = broken_line n r"
| "broken_line n [] = ([], [n])"
| "broken_line n (Line e # r) = (case read_lines (Suc n) r of (es, bad) \<Rightarrow> (es, n # bad))"
| "broken_line n (Unterminated e # r) = broken_line n r"
| "broken_line n (Cut # r) = broken_line n r"

datatype read_problem = Too_large_transcript | Missing_transcript | Invalid_line nat

definition entry_le :: "(string \<Rightarrow> string \<Rightarrow> bool) \<Rightarrow> transcript_entry \<Rightarrow> transcript_entry \<Rightarrow> bool" where
  "entry_le collate_le a b \<longleftrightarrow>
     (if te_sequence a \<noteq> te_sequence b then te_sequence a < te_sequence b else collate_le (te_created a) (te_created b))"

text \<open>\<open>bytes\<close> is the size of a chunk in the file.\<close>

definition file_size :: "(chunk \<Rightarrow> nat) \<Rightarrow> chunk list \<Rightarrow> nat" where
  "file_size bytes cs = sum_list (map bytes cs)"

definition DEFAULT_MAX_TRANSCRIPT_READ_BYTES :: nat where
  "DEFAULT_MAX_TRANSCRIPT_READ_BYTES = 50 * 1024 * 1024"

definition readTranscript ::
  "(chunk \<Rightarrow> nat) \<Rightarrow> (string \<Rightarrow> string \<Rightarrow> bool) \<Rightarrow> nat option \<Rightarrow> chunk list option \<Rightarrow>
     transcript_entry list \<times> read_problem list" where
  "readTranscript bytes collate_le maxBytes file =
     (case file of
        None \<Rightarrow> ([], [Missing_transcript])
      | Some cs \<Rightarrow>
          if (case maxBytes of None \<Rightarrow> DEFAULT_MAX_TRANSCRIPT_READ_BYTES | Some n \<Rightarrow> n) < file_size bytes cs
          then ([], [Too_large_transcript])
          else (case read_lines 1 cs of (es, bad) \<Rightarrow> (sort_by (entry_le collate_le) es, map Invalid_line bad)))"

section \<open>The writer\<close>

record transcript_writer =
  tw_sequence :: nat
  tw_last :: string
  tw_broken :: bool
  tw_file :: "chunk list option"

definition newWriter :: "chunk list option \<Rightarrow> transcript_writer" where
  "newWriter file = \<lparr>tw_sequence = 0, tw_last = [], tw_broken = False, tw_file = file\<rparr>"

definition restoreState :: "nat \<Rightarrow> string \<Rightarrow> transcript_writer \<Rightarrow> transcript_writer" where
  "restoreState maxSequence lastEntryId w = w\<lparr>tw_sequence := maxSequence, tw_last := lastEntryId\<rparr>"

definition append_chunks :: "chunk list \<Rightarrow> chunk list option \<Rightarrow> chunk list option" where
  "append_chunks cs file = (if cs = [] then file else Some ((case file of None \<Rightarrow> [] | Some old \<Rightarrow> old) @ cs))"

text \<open>
  The appends are a chain of promises: when one is rejected, those behind it are never run. The
  counters are updated at once.
\<close>

definition recordEntry :: "append_outcome \<Rightarrow> transcript_entry \<Rightarrow> transcript_writer \<Rightarrow> transcript_writer" where
  "recordEntry outcome e w = w\<lparr>
     tw_sequence := max (tw_sequence w) (te_sequence e),
     tw_last := (if te_id e = [] then tw_last w else te_id e),
     tw_file := (if tw_broken w then tw_file w else append_chunks (leftover outcome e) (tw_file w)),
     tw_broken := (tw_broken w \<or> outcome \<noteq> Written)\<rparr>"

definition baseEntry :: "string \<Rightarrow> string \<Rightarrow> string \<Rightarrow> string \<Rightarrow> entry_body \<Rightarrow> transcript_writer \<Rightarrow> transcript_entry" where
  "baseEntry sessionId turnId createdAt uuid body w =
     \<lparr>te_id = uuid, te_parent = tw_last w, te_session = sessionId, te_turn = turnId,
      te_sequence = tw_sequence w + 1, te_created = createdAt, te_body = body\<rparr>"

record stamp =
  sp_session :: string
  sp_turn :: string
  sp_created :: string
  sp_uuid :: string
  sp_outcome :: append_outcome

definition record_body :: "stamp \<Rightarrow> entry_body \<Rightarrow> transcript_writer \<Rightarrow> transcript_writer" where
  "record_body p body w =
     recordEntry (sp_outcome p) (baseEntry (sp_session p) (sp_turn p) (sp_created p) (sp_uuid p) body w)
       (w\<lparr>tw_sequence := tw_sequence w + 1\<rparr>)"

definition recordAcceptedInput :: "stamp \<Rightarrow> message list \<Rightarrow> transcript_writer \<Rightarrow> transcript_writer" where
  "recordAcceptedInput p messages = record_body p (Accepted_input messages)"

definition recordTurnStarted :: "stamp \<Rightarrow> transcript_writer \<Rightarrow> transcript_writer" where
  "recordTurnStarted p = record_body p Turn_started"

definition recordDurableMessage :: "stamp \<Rightarrow> message \<Rightarrow> transcript_writer \<Rightarrow> transcript_writer" where
  "recordDurableMessage p m = record_body p (Message_entry m)"

definition recordTurnResult :: "stamp \<Rightarrow> token_usage \<Rightarrow> string list \<Rightarrow> transcript_writer \<Rightarrow> transcript_writer" where
  "recordTurnResult p usage denials = record_body p (Turn_result usage denials)"

definition recordSessionMetadata :: "stamp \<Rightarrow> string option \<Rightarrow> transcript_writer \<Rightarrow> transcript_writer" where
  "recordSessionMetadata p title = record_body p (Metadata_entry title)"

definition recordControlBoundary :: "stamp \<Rightarrow> bool \<Rightarrow> transcript_writer \<Rightarrow> transcript_writer" where
  "recordControlBoundary p isCompact = record_body p (if isCompact then Compact_boundary else Other_boundary)"

text \<open>A new process resumes a session: it reads the file and seeds its counters.\<close>

definition resume_writer ::
  "(chunk \<Rightarrow> nat) \<Rightarrow> (string \<Rightarrow> string \<Rightarrow> bool) \<Rightarrow> transcript_writer \<Rightarrow> transcript_writer" where
  "resume_writer bytes collate_le w =
     (let es = fst (readTranscript bytes collate_le None (tw_file w)); w' = newWriter (tw_file w) in
      if es \<noteq> [] then restoreState (foldl (\<lambda>m e. max m (te_sequence e)) 0 es) (te_id (last es)) w' else w')"

datatype transcript_op = Record stamp entry_body | Resume_process

fun transcript_step ::
  "(chunk \<Rightarrow> nat) \<Rightarrow> (string \<Rightarrow> string \<Rightarrow> bool) \<Rightarrow> transcript_writer \<Rightarrow> transcript_op \<Rightarrow> transcript_writer" where
  "transcript_step bytes collate_le w (Record p body) = record_body p body w"
| "transcript_step bytes collate_le w Resume_process = resume_writer bytes collate_le w"

definition run_transcript ::
  "(chunk \<Rightarrow> nat) \<Rightarrow> (string \<Rightarrow> string \<Rightarrow> bool) \<Rightarrow> transcript_op list \<Rightarrow> transcript_writer" where
  "run_transcript bytes collate_le ops = foldl (transcript_step bytes collate_le) (newWriter None) ops"

section \<open>A linked list of entries\<close>

fun linked :: "string \<Rightarrow> transcript_entry list \<Rightarrow> bool" where
  "linked p [] \<longleftrightarrow> True"
| "linked p (e # es) \<longleftrightarrow> te_parent e = p \<and> te_id e \<noteq> [] \<and> linked (te_id e) es"

lemma linked_ids: "linked p es \<Longrightarrow> e \<in> set es \<Longrightarrow> te_id e \<noteq> []"
  by (induction es arbitrary: p) auto

lemma linked_no_empty: "linked p es \<Longrightarrow> [] \<notin> te_id ` set es"
  by (induction es arbitrary: p) auto

lemma linked_append:
  "linked p (es @ [e]) \<longleftrightarrow> linked p es \<and> te_parent e = (if es = [] then p else te_id (last es)) \<and> te_id e \<noteq> []"
  by (induction es arbitrary: p) auto

lemma linked_parents: "linked p (e # es) \<Longrightarrow> f \<in> set es \<Longrightarrow> te_parent f \<in> te_id ` set (e # es)"
  by (induction es arbitrary: p e) auto

lemma filter_parent:
  "linked p es \<Longrightarrow> distinct (p # map te_id es) \<Longrightarrow> filter (\<lambda>f. te_parent f = q) es =
     (if q = p then take 1 es else case dropWhile (\<lambda>f. te_id f \<noteq> q) es of [] \<Rightarrow> [] | _ # r \<Rightarrow> take 1 r)"
proof (induction es arbitrary: p)
  case (Cons e es)
  have "dropWhile (\<lambda>f. te_id f \<noteq> p) es = []" using Cons.prems(2) by auto
  then show ?case using Cons by (auto simp del: dropWhile_eq_Nil_conv)
qed simp

lemma chain_ids_linked: "linked p es \<Longrightarrow> chain_ids es = map te_id es"
  using linked_ids [of p es] by (auto simp: chain_ids_def filter_id_conv)

lemma children_linked:
  assumes "linked [] es" "distinct (map te_id es)" "es = xs @ e # ys"
  shows "chain_children es (te_id e) = map te_id (take 1 ys)"
proof -
  have n: "te_id e \<noteq> []" "[] \<notin> te_id ` set es"
    using linked_ids [OF assms(1), of e] linked_no_empty [OF assms(1)] assms(3) by simp_all
  have "filter (\<lambda>f. te_id f \<noteq> [] \<and> te_parent f = te_id e) es = filter (\<lambda>f. te_parent f = te_id e) es"
    using linked_ids [OF assms(1)] by (intro filter_cong) auto
  also have "\<dots> = (case dropWhile (\<lambda>f. te_id f \<noteq> te_id e) es of [] \<Rightarrow> [] | _ # r \<Rightarrow> take 1 r)"
    using filter_parent [OF assms(1), of "te_id e"] n assms(2) by simp
  also have "dropWhile (\<lambda>f. te_id f \<noteq> te_id e) es = e # ys"
    using assms(2) unfolding assms(3) by (subst dropWhile_append2) (auto dest: arg_cong [of _ _ te_id] intro: rev_image_eqI)
  moreover have "te_id e \<in> set (chain_ids es)" using chain_ids_linked [OF assms(1)] assms(3) by simp
  ultimately show ?thesis by (simp add: chain_children_def)
qed

lemma longest_linked:
  assumes "linked [] es" "distinct (map te_id es)"
  shows "es = xs @ e # ys \<Longrightarrow> length ys < depth \<Longrightarrow>
    findLongestPath (chain_children es) depth (te_id e) = Some (map te_id (e # ys))"
proof (induction ys arbitrary: xs e depth)
  case Nil
  then show ?case using children_linked [OF assms, of xs e "[]"] by (cases depth) auto
next
  case (Cons y ys)
  obtain d where d: "depth = Suc d" "length ys < d" using Cons.prems(2) by (cases depth) auto
  have "findLongestPath (chain_children es) d (te_id y) = Some (map te_id (y # ys))"
    using Cons.IH [of "xs @ [e]" y d] Cons.prems(1) d by simp
  then show ?case using children_linked [OF assms Cons.prems(1)] d by (simp add: longer_def)
qed

lemma last_entry_found: "distinct (map te_id es) \<Longrightarrow> e \<in> set es \<Longrightarrow> last_entry es (te_id e) = Some e"
proof (induction es rule: rev_induct)
  case (snoc f es)
  then show ?case by (force simp: last_entry_def)
qed simp

text \<open>The chain of a linked list is the whole list.\<close>

lemma chain_linked:
  assumes "linked [] es" "distinct (map te_id es)" "length es < depth"
  shows "buildConversationChain depth es = Some es"
proof (cases es)
  case (Cons e r)
  have f: "filter (\<lambda>e. te_id e \<noteq> []) es = es" using linked_ids [OF assms(1)] by (auto simp: filter_id_conv)
  have pr: "te_parent f \<in> te_id ` set es" if "f \<in> set r" for f
    using linked_parents [of "[]" e r f] that assms(1) Cons by simp
  then have nr: "te_parent f \<noteq> []" if "f \<in> set r" for f
    using linked_ids [OF assms(1)] that by fastforce
  have kids: "filter (\<lambda>e. te_parent e \<noteq> [] \<and> te_parent e \<in> set (chain_ids es)) es = r"
  proof -
    have "filter (\<lambda>e. te_parent e \<noteq> [] \<and> te_parent e \<in> te_id ` set es) r = r" using pr nr by (simp add: filter_id_conv)
    moreover have "te_parent e = []" using assms(1) Cons by simp
    ultimately show ?thesis by (simp add: chain_ids_linked [OF assms(1)]) (simp add: Cons)
  qed
  have roots: "chain_roots es = [te_id e]"
    using nr assms(1,2) by (auto simp: chain_roots_def Let_def f kids) (auto simp: Cons filter_empty_conv)
  have "findLongestPath (chain_children es) depth (te_id e) = Some (map te_id es)"
    using longest_linked [OF assms(1,2), of "[]" e r depth] assms(3) Cons by simp
  moreover have "chain_orphans es = []"
  proof -
    have "te_parent e = []" using assms(1) Cons by simp
    then show ?thesis using pr
      by (auto simp: chain_orphans_def chain_ids_linked [OF assms(1)] filter_empty_conv) (auto simp: Cons)
  qed
  moreover have "List.map_filter (last_entry es) (map te_id es) = es"
  proof -
    have "map (last_entry es) (map te_id es) = map Some es" using last_entry_found [OF assms(2)] by simp
    then show ?thesis by (simp add: List.map_filter_def comp_def filter_map) (simp add: list.map_comp comp_def cong: map_cong)
  qed
  moreover have "chain_ids es \<noteq> []" unfolding chain_ids_linked [OF assms(1)] using Cons by simp
  moreover have "map te_id es \<noteq> []" using Cons by simp
  ultimately show ?thesis by (simp add: buildConversationChain_def Let_def roots longer_def)
qed (simp add: buildConversationChain_def chain_ids_def)

section \<open>What was recorded is read\<close>

lemma read_lines_entries: "read_lines n (map Line es) = (es, [])"
  by (induction es arbitrary: n) auto

lemma foldl_max_sequence: "map te_sequence es = [1..<Suc (length es)] \<Longrightarrow> foldl (\<lambda>m e. max m (te_sequence e)) 0 es = length es"
proof (induction es rule: rev_induct)
  case (snoc e es)
  then show ?case by simp
qed simp

lemma sequence_sorted: "map te_sequence es = [1..<Suc (length es)] \<Longrightarrow> sorted_wrt (entry_le le) es"
proof (induction es rule: rev_induct)
  case (snoc e es)
  have e: "te_sequence e = Suc (length es)" "map te_sequence es = [1..<Suc (length es)]" using snoc.prems by simp_all
  have "te_sequence f < te_sequence e" if "f \<in> set es" for f
  proof -
    have "te_sequence f \<in> set (map te_sequence es)" using that by simp
    then show ?thesis unfolding e by auto
  qed
  then have "entry_le le f e" if "f \<in> set es" for f using that by (simp add: entry_le_def less_imp_neq)
  then show ?case using snoc.IH e(2) by (simp add: sorted_wrt_append)
qed simp

definition recorded :: "transcript_op list \<Rightarrow> (stamp \<times> entry_body) list" where
  "recorded ops = List.map_filter (\<lambda>op. case op of Record p body \<Rightarrow> Some (p, body) | Resume_process \<Rightarrow> None) ops"

definition stored_size :: "(chunk \<Rightarrow> nat) \<Rightarrow> chunk list option \<Rightarrow> nat" where
  "stored_size bytes file = (case file of None \<Rightarrow> 0 | Some cs \<Rightarrow> file_size bytes cs)"

definition entry_of :: "stamp \<times> entry_body \<Rightarrow> transcript_entry \<Rightarrow> bool" where
  "entry_of r e \<longleftrightarrow> te_id e = sp_uuid (fst r) \<and> te_session e = sp_session (fst r) \<and> te_turn e = sp_turn (fst r)
     \<and> te_created e = sp_created (fst r) \<and> te_body e = snd r"

text \<open>The state of a writer whose file holds the given entries and nothing else.\<close>

definition writer_at :: "transcript_writer \<Rightarrow> transcript_entry list \<Rightarrow> bool" where
  "writer_at w es \<longleftrightarrow> \<not> tw_broken w \<and> tw_file w = (if es = [] then None else Some (map Line es))
     \<and> tw_sequence w = length es \<and> tw_last w = (if es = [] then [] else te_id (last es))
     \<and> linked [] es \<and> map te_sequence es = [1..<Suc (length es)]"

lemma writer_at_read:
  assumes "writer_at w es" "stored_size bytes (tw_file w) \<le> DEFAULT_MAX_TRANSCRIPT_READ_BYTES"
  shows "readTranscript bytes le None (tw_file w) = (es, if es = [] then [Missing_transcript] else [])"
  using assms sort_by_sorted [OF sequence_sorted, of es]
  by (cases "es = []") (simp_all add: writer_at_def readTranscript_def stored_size_def read_lines_entries)

lemma writer_at_resume:
  assumes "writer_at w es" "stored_size bytes (tw_file w) \<le> DEFAULT_MAX_TRANSCRIPT_READ_BYTES"
  shows "writer_at (resume_writer bytes le w) es"
  using writer_at_read [OF assms] assms(1) foldl_max_sequence [of es]
  by (simp add: resume_writer_def writer_at_def newWriter_def restoreState_def Let_def)

lemma writer_at_record:
  assumes "writer_at w es" "sp_outcome p = Written" "sp_uuid p \<noteq> []"
  shows "\<exists>e. writer_at (record_body p body w) (es @ [e]) \<and> entry_of (p, body) e"
proof -
  let ?e = "baseEntry (sp_session p) (sp_turn p) (sp_created p) (sp_uuid p) body w"
  have "writer_at (record_body p body w) (es @ [?e])"
    using assms by (auto simp: writer_at_def record_body_def recordEntry_def append_chunks_def linked_append baseEntry_def)
  then show ?thesis by (intro exI [of _ ?e]) (simp add: entry_of_def baseEntry_def)
qed

lemma append_grows: "stored_size bytes file \<le> stored_size bytes (append_chunks cs file)"
  by (auto simp: stored_size_def append_chunks_def file_size_def split: option.splits)

lemma step_grows: "stored_size bytes (tw_file w) \<le> stored_size bytes (tw_file (transcript_step bytes le w op))"
  by (cases op)
    (auto simp: record_body_def recordEntry_def resume_writer_def newWriter_def restoreState_def Let_def append_grows)

lemma run_writer_at:
  assumes "\<forall>(p, body) \<in> set (recorded ops). sp_outcome p = Written \<and> sp_uuid p \<noteq> []"
    "stored_size bytes (tw_file (run_transcript bytes le ops)) \<le> DEFAULT_MAX_TRANSCRIPT_READ_BYTES"
  shows "\<exists>es. writer_at (run_transcript bytes le ops) es \<and> list_all2 entry_of (recorded ops) es"
  using assms
proof (induction ops rule: rev_induct)
  case Nil
  show ?case by (rule exI [of _ "[]"]) (simp add: run_transcript_def writer_at_def newWriter_def recorded_def)
next
  case (snoc op ops)
  have run: "run_transcript bytes le (ops @ [op]) = transcript_step bytes le (run_transcript bytes le ops) op"
    by (simp add: run_transcript_def)
  have r: "recorded (ops @ [op]) = recorded ops @ (case op of Record p body \<Rightarrow> [(p, body)] | Resume_process \<Rightarrow> [])"
    by (simp add: recorded_def List.map_filter_def split: transcript_op.split)
  have size: "stored_size bytes (tw_file (run_transcript bytes le ops)) \<le> DEFAULT_MAX_TRANSCRIPT_READ_BYTES"
    using snoc.prems(2) step_grows [of bytes "run_transcript bytes le ops" le op] unfolding run by linarith
  obtain es where es: "writer_at (run_transcript bytes le ops) es" "list_all2 entry_of (recorded ops) es"
    using snoc.IH snoc.prems(1) size unfolding r by auto
  show ?case
  proof (cases op)
    case (Record p body)
    have now: "run_transcript bytes le (ops @ [op]) = record_body p body (run_transcript bytes le ops)"
      "recorded (ops @ [op]) = recorded ops @ [(p, body)]" using run r Record by simp_all
    from Record obtain e where "writer_at (record_body p body (run_transcript bytes le ops)) (es @ [e])" "entry_of (p, body) e"
      using writer_at_record [OF es(1), of p body] snoc.prems(1) unfolding r by auto
    then show ?thesis using es(2) list_all2_appendI [of entry_of "recorded ops" es "[(p, body)]" "[e]"]
      unfolding now by auto
  next
    case Resume_process
    have now: "run_transcript bytes le (ops @ [op]) = resume_writer bytes le (run_transcript bytes le ops)"
      "recorded (ops @ [op]) = recorded ops" using run r Resume_process by simp_all
    show ?thesis unfolding now using writer_at_resume [OF es(1) size, of le] es(2) by blast
  qed
qed


section \<open>Edges\<close>

lemmas transcript_run_defs = run_transcript_def record_body_def recordEntry_def resume_writer_def readTranscript_def
  restoreState_def newWriter_def append_chunks_def baseEntry_def file_size_def DEFAULT_MAX_TRANSCRIPT_READ_BYTES_def
  sort_by_def entry_le_def

definition stamped :: "string \<Rightarrow> append_outcome \<Rightarrow> stamp" where
  "stamped uuid outcome = \<lparr>sp_session = ''s'', sp_turn = ''t'', sp_created = ''now'', sp_uuid = uuid, sp_outcome = outcome\<rparr>"


text \<open>When an append fails, nothing that the process records afterwards reaches the file.\<close>

lemma failed_append_loses_rest:
  "tw_broken w \<Longrightarrow> tw_file (record_body p body w) = tw_file w \<and> tw_broken (record_body p body w)"
  "outcome \<noteq> Written \<Longrightarrow> tw_broken (recordEntry outcome e w)"
  by (simp_all add: record_body_def recordEntry_def)

text \<open>
  A process dies within an append. The next process writes its first entry behind the torn one, on
  the same line: that entry is lost too, and the one after it is an orphan.
\<close>

lemma torn_line_takes_next:
  "let es = fst (readTranscript (\<lambda>_. 100) (\<lambda>_ _. True) None (tw_file (run_transcript (\<lambda>_. 100) (\<lambda>_ _. True)
       [Record (stamped ''a'' Written) Turn_started, Record (stamped ''b'' Torn) Status_message, Resume_process,
        Record (stamped ''c'' Written) Turn_started, Record (stamped ''d'' Written) Status_message]))) in
     map te_id es = [''a'', ''d''] \<and> map te_id (chain_orphans es) = [''d'']"
  by (auto simp: transcript_run_defs stamped_def chain_orphans_def chain_ids_def)

text \<open>A file that is too large is read as an empty one: the next process numbers its entries from one again.\<close>

lemma too_large_restarts:
  "DEFAULT_MAX_TRANSCRIPT_READ_BYTES < stored_size bytes (tw_file w) \<Longrightarrow> tw_sequence (resume_writer bytes le w) = 0"
  by (auto simp: resume_writer_def readTranscript_def stored_size_def newWriter_def split: option.splits)

end
