(* ===== verification/Recency_Stores.thy ===== *)
theory Recency_Stores
  imports Prelude
begin

text \<open>
  Two stores that drop what was used longest ago: \<open>src/session/worktree/LRUMap.ts\<close> and
  \<open>src/router/session/SessionRouterStore.ts\<close>, with the guard of a session's sticky model
  (\<open>src/router/policy/stickyGuard.ts\<close>). A JavaScript \<open>Map\<close> is the list of its entries in the order
  of insertion; setting a key it has keeps its place.
\<close>

section \<open>Maps in insertion order\<close>

definition map_has :: "'k \<Rightarrow> ('k \<times> 'v) list \<Rightarrow> bool" where
  "map_has k m \<longleftrightarrow> k \<in> fst ` set m"

definition map_get :: "'k \<Rightarrow> ('k \<times> 'v) list \<Rightarrow> 'v option" where
  "map_get k m = map_of m k"

definition map_delete :: "'k \<Rightarrow> ('k \<times> 'v) list \<Rightarrow> ('k \<times> 'v) list" where
  "map_delete k m = filter (\<lambda>e. fst e \<noteq> k) m"

definition map_set :: "'k \<Rightarrow> 'v \<Rightarrow> ('k \<times> 'v) list \<Rightarrow> ('k \<times> 'v) list" where
  "map_set k v m = (if map_has k m then map (\<lambda>e. if fst e = k then (k, v) else e) m else m @ [(k, v)])"

lemma keys_delete [simp]: "map fst (map_delete k m) = filter (\<lambda>x. x \<noteq> k) (map fst m)"
  by (induction m) (auto simp: map_delete_def)

lemma keys_set: "map fst (map_set k v m) = (if map_has k m then map fst m else map fst m @ [k])"
  by (auto simp: map_set_def map_has_def comp_def intro!: map_cong)

lemma get_delete: "map_get j (map_delete k m) = (if j = k then None else map_get j m)"
  by (induction m) (auto simp: map_get_def map_delete_def)

lemma get_set: "map_get j (map_set k v m) = (if j = k then Some v else map_get j m)"
proof (cases "map_has k m")
  case True
  have "map_of (map (\<lambda>e. if fst e = k then (k, v) else e) m) j = (if j = k \<and> k \<in> fst ` set m then Some v else map_of m j)"
  proof (induction m)
    case (Cons e m)
    then show ?case by (cases e) (auto simp: rev_image_eqI)
  qed simp
  then show ?thesis using True by (auto simp: map_set_def map_get_def map_has_def)
next
  case False
  then have "map_of m k = None" by (simp add: map_has_def map_of_eq_None_iff)
  then show ?thesis using False by (auto simp: map_set_def map_get_def map_add_def split: option.splits)
qed

lemma length_delete: "distinct (map fst m) \<Longrightarrow> map_has k m \<Longrightarrow> length (map_delete k m) < length m"
proof -
  assume "map_has k m"
  then obtain b where "(k, b) \<in> set m" by (auto simp: map_has_def)
  then show ?thesis unfolding map_delete_def by (rule length_filter_less) simp
qed

section \<open>LRUMap\<close>

record ('k, 'v) lru =
  lru_capacity :: nat
  lru_map :: "('k \<times> 'v) list"

definition new_lru :: "nat \<Rightarrow> ('k, 'v) lru option" where
  "new_lru capacity = (if capacity = 0 then None else Some \<lparr>lru_capacity = capacity, lru_map = []\<rparr>)"

definition lru_get :: "'k \<Rightarrow> ('k, 'v) lru \<Rightarrow> ('k, 'v) lru \<times> 'v option" where
  "lru_get k l =
     (case map_get k (lru_map l) of
        None \<Rightarrow> (l, None)
      | Some v \<Rightarrow> (l\<lparr>lru_map := map_set k v (map_delete k (lru_map l))\<rparr>, Some v))"

definition lru_set :: "'k \<Rightarrow> 'v \<Rightarrow> ('k, 'v) lru \<Rightarrow> ('k, 'v) lru" where
  "lru_set k v l =
     (let m1 = (if map_has k (lru_map l) then map_delete k (lru_map l)
                else if lru_capacity l \<le> length (lru_map l)
                then (case lru_map l of [] \<Rightarrow> [] | e # _ \<Rightarrow> map_delete (fst e) (lru_map l))
                else lru_map l)
      in l\<lparr>lru_map := map_set k v m1\<rparr>)"

definition lru_delete :: "'k \<Rightarrow> ('k, 'v) lru \<Rightarrow> ('k, 'v) lru \<times> bool" where
  "lru_delete k l = (l\<lparr>lru_map := map_delete k (lru_map l)\<rparr>, map_has k (lru_map l))"

section \<open>SessionRouterStore\<close>

record routing_state =
  rs_session :: string
  rs_subagent :: bool
  rs_provider :: "string option"
  rs_model :: "string option"
  rs_tier :: "string option"
  rs_failures :: "nat option"
  rs_updated :: int

record router_slot =
  sl_state :: routing_state
  sl_expires :: int

record router_store =
  st_capacity :: nat
  st_ttl :: int
  st_map :: "(string \<times> router_slot) list"

definition new_store :: "int option \<Rightarrow> int option \<Rightarrow> router_store" where
  "new_store capacity ttl = \<lparr>st_capacity = nat (max 1 (case capacity of None \<Rightarrow> 500 | Some n \<Rightarrow> n)),
     st_ttl = max 1 (case ttl of None \<Rightarrow> 3600000 | Some t \<Rightarrow> t), st_map = []\<rparr>"

definition makeKey :: "string \<Rightarrow> bool \<Rightarrow> string" where
  "makeKey sessionId isSubagent = (if isSubagent then sessionId @ '':sub'' else sessionId)"

definition store_get :: "int \<Rightarrow> string \<Rightarrow> bool \<Rightarrow> router_store \<Rightarrow> router_store \<times> routing_state option" where
  "store_get now sessionId isSubagent s =
     (let k = makeKey sessionId isSubagent in
      case map_get k (st_map s) of
        None \<Rightarrow> (s, None)
      | Some slot \<Rightarrow>
          if sl_expires slot < now then (s\<lparr>st_map := map_delete k (st_map s)\<rparr>, None)
          else (s\<lparr>st_map := map_set k slot (map_delete k (st_map s))\<rparr>, Some (sl_state slot)))"

text \<open>The oldest entries go until there is room.\<close>

fun evict :: "nat \<Rightarrow> ('k \<times> 'v) list \<Rightarrow> ('k \<times> 'v) list" where
  "evict capacity [] = []"
| "evict capacity (e # m) = (if capacity \<le> length (e # m) then evict capacity m else e # m)"

definition store_set :: "int \<Rightarrow> routing_state \<Rightarrow> router_store \<Rightarrow> router_store" where
  "store_set now state s =
     (let k = makeKey (rs_session state) (rs_subagent state);
          slot = \<lparr>sl_state = state, sl_expires = now + st_ttl s\<rparr>;
          m1 = (if map_has k (st_map s) then map_delete k (st_map s) else evict (st_capacity s) (st_map s))
      in s\<lparr>st_map := map_set k slot m1\<rparr>)"

definition store_delete :: "string \<Rightarrow> bool \<Rightarrow> router_store \<Rightarrow> router_store" where
  "store_delete sessionId isSubagent s = s\<lparr>st_map := map_delete (makeKey sessionId isSubagent) (st_map s)\<rparr>"

definition store_touch :: "int \<Rightarrow> string \<Rightarrow> bool \<Rightarrow> router_store \<Rightarrow> router_store" where
  "store_touch now sessionId isSubagent s =
     (let k = makeKey sessionId isSubagent in
      case map_get k (st_map s) of
        None \<Rightarrow> s
      | Some slot \<Rightarrow> s\<lparr>st_map := map_set k \<lparr>sl_state = (sl_state slot)\<lparr>rs_updated := now\<rparr>, sl_expires = now + st_ttl s\<rparr> (st_map s)\<rparr>)"

definition recordQualityFailure :: "string \<Rightarrow> bool \<Rightarrow> router_store \<Rightarrow> router_store \<times> nat" where
  "recordQualityFailure sessionId isSubagent s =
     (let k = makeKey sessionId isSubagent in
      case map_get k (st_map s) of
        None \<Rightarrow> (s, 0)
      | Some slot \<Rightarrow>
          let count = (case rs_failures (sl_state slot) of None \<Rightarrow> 0 | Some n \<Rightarrow> n) + 1 in
          (s\<lparr>st_map := map_set k (slot\<lparr>sl_state := (sl_state slot)\<lparr>rs_failures := Some count\<rparr>\<rparr>) (st_map s)\<rparr>, count))"

definition resetQualityFailures :: "string \<Rightarrow> bool \<Rightarrow> router_store \<Rightarrow> router_store" where
  "resetQualityFailures sessionId isSubagent s =
     (let k = makeKey sessionId isSubagent in
      case map_get k (st_map s) of
        None \<Rightarrow> s
      | Some slot \<Rightarrow>
          if (case rs_failures (sl_state slot) of None \<Rightarrow> 0 | Some n \<Rightarrow> n) = 0 then s
          else s\<lparr>st_map := map_set k (slot\<lparr>sl_state := (sl_state slot)\<lparr>rs_failures := Some 0\<rparr>\<rparr>) (st_map s)\<rparr>)"

record sticky_config =
  sc_enabled :: "bool option"
  sc_ttl :: "int option"
  sc_max_failures :: "nat option"

definition filled :: "string option \<Rightarrow> bool" where
  "filled t \<longleftrightarrow> (case t of None \<Rightarrow> False | Some s \<Rightarrow> s \<noteq> [])"

definition isStickyUsable :: "sticky_config option \<Rightarrow> int \<Rightarrow> routing_state option \<Rightarrow> bool" where
  "isStickyUsable config now state =
     (let enabled = (case config of None \<Rightarrow> True | Some c \<Rightarrow> sc_enabled c \<noteq> Some False);
          ttl = (case config of None \<Rightarrow> 1800000 | Some c \<Rightarrow> case_option 1800000 id (sc_ttl c));
          maxFailures = (case config of None \<Rightarrow> 2 | Some c \<Rightarrow> case_option 2 id (sc_max_failures c))
      in case state of None \<Rightarrow> False
         | Some s \<Rightarrow> enabled \<and> filled (rs_provider s) \<and> filled (rs_model s) \<and> now - rs_updated s \<le> ttl
             \<and> (case rs_failures s of None \<Rightarrow> 0 | Some n \<Rightarrow> n) < maxFailures)"

section \<open>The contract of a recency store\<close>

text \<open>
  A store puts values under keys and never holds more than its capacity; what was put last is
  there, and whatever else is there was there before.
\<close>

locale recency_store =
  fixes ok :: "'s \<Rightarrow> bool" and contents :: "'s \<Rightarrow> ('k \<times> 'v) list" and capacity :: "'s \<Rightarrow> nat"
    and put :: "'k \<Rightarrow> 'v \<Rightarrow> 's \<Rightarrow> 's"
  assumes ok_contents: "ok s \<Longrightarrow> distinct (map fst (contents s)) \<and> length (contents s) \<le> capacity s"
    and put_ok: "ok s \<Longrightarrow> ok (put k v s) \<and> capacity (put k v s) = capacity s"
    and put_get: "ok s \<Longrightarrow> map_get k (contents (put k v s)) = Some v"
    and put_last: "ok s \<Longrightarrow> last (contents (put k v s)) = (k, v)"
    and put_rest: "ok s \<Longrightarrow> \<exists>n. butlast (contents (put k v s)) = drop n (map_delete k (contents s))
        \<and> (n = 0 \<or> length (contents (put k v s)) = capacity s)"
begin

definition put_all :: "('k \<times> 'v) list \<Rightarrow> 's \<Rightarrow> 's" where
  "put_all kvs s = foldl (\<lambda>s (k, v). put k v s) s kvs"

lemma put_all_ok: "ok s \<Longrightarrow> ok (put_all kvs s) \<and> capacity (put_all kvs s) = capacity s"
  by (induction kvs arbitrary: s) (auto simp: put_all_def put_ok)

lemma put_all_bounded: "ok s \<Longrightarrow> length (contents (put_all kvs s)) \<le> capacity s"
  using put_all_ok [of s kvs] ok_contents [of "put_all kvs s"] by auto

text \<open>What was put stays while fewer other keys than there is room for are put after it.\<close>

lemma put_recent:
  assumes "ok s" "distinct (k # map fst kvs)" "length kvs < capacity s"
  shows "map_get k (contents (put_all kvs (put k v s))) = Some v"
proof -
  have "\<exists>front. contents (put_all kvs (put k v s)) = front @ (k, v) # kvs"
    using assms(2,3)
  proof (induction kvs rule: rev_induct)
    case Nil
    have "contents (put k v s) \<noteq> []" using put_get [OF assms(1), of k v] by (auto simp: map_get_def)
    then have "contents (put k v s) = butlast (contents (put k v s)) @ [(k, v)]"
      using put_last [OF assms(1), of k v] by (metis append_butlast_last_id)
    then show ?case by (auto simp: put_all_def)
  next
    case (snoc kv kvs)
    obtain j w where kv: "kv = (j, w)" by (cases kv)
    let ?t = "put_all kvs (put k v s)"
    obtain front where f: "contents ?t = front @ (k, v) # kvs" using snoc by auto
    have t: "ok ?t" "capacity ?t = capacity s" using put_ok [OF assms(1), of k v] put_all_ok [of "put k v s" kvs] by auto
    have d: "map_delete j (contents ?t) = map_delete j front @ (k, v) # kvs"
      using snoc.prems kv unfolding f by (auto simp: map_delete_def filter_id_conv)
    obtain n where n: "butlast (contents (put j w ?t)) = drop n (map_delete j front @ (k, v) # kvs)"
      "n = 0 \<or> length (contents (put j w ?t)) = capacity s"
      using put_rest [OF t(1), of j w] t(2) d by auto
    have c: "contents (put j w ?t) = butlast (contents (put j w ?t)) @ [(j, w)]"
    proof -
      have "contents (put j w ?t) \<noteq> []" using put_get [OF t(1), of j w] by (auto simp: map_get_def)
      then show ?thesis using put_last [OF t(1), of j w] by (metis append_butlast_last_id)
    qed
    have "n \<le> length (map_delete j front)"
    proof (rule ccontr)
      assume big: "\<not> n \<le> length (map_delete j front)"
      then have "length (contents (put j w ?t)) = capacity s" using n(2) by auto
      then have "length (butlast (contents (put j w ?t))) = capacity s - 1" by simp
      moreover have "length (butlast (contents (put j w ?t))) \<le> length kvs" using big n(1) by simp
      ultimately show False using snoc.prems by simp
    qed
    then have "contents (put j w ?t) = (drop n (map_delete j front)) @ (k, v) # kvs @ [(j, w)]"
      using c n(1) by simp
    then show ?case using kv by (auto simp: put_all_def)
  qed
  then obtain front where f: "contents (put_all kvs (put k v s)) = front @ (k, v) # kvs" by blast
  have "ok (put_all kvs (put k v s))" using put_ok [OF assms(1), of k v] put_all_ok by blast
  then have "distinct (map fst (front @ (k, v) # kvs))" using ok_contents f by metis
  then show ?thesis unfolding f map_get_def by (rule map_of_is_SomeI) simp
qed

end

section \<open>Both stores meet it\<close>

lemma last_map_set: "\<not> map_has k m \<Longrightarrow> map_set k v m = m @ [(k, v)]"
  by (simp add: map_set_def)

lemma not_has_delete [simp]: "\<not> map_has k (map_delete k m)"
  by (auto simp: map_has_def map_delete_def)

lemma has_subset: "set a \<subseteq> set b \<Longrightarrow> \<not> map_has k b \<Longrightarrow> \<not> map_has k a"
  by (auto simp: map_has_def)

lemma delete_absent: "\<not> map_has k m \<Longrightarrow> map_delete k m = m"
  by (auto simp: map_has_def map_delete_def filter_id_conv)

lemma delete_first: "distinct (map fst (e # m)) \<Longrightarrow> map_delete (fst e) (e # m) = m"
proof -
  assume d: "distinct (map fst (e # m))"
  have "fst x \<noteq> fst e" if "x \<in> set m" for x using d that by (metis distinct.simps(2) image_eqI list.simps(9) set_map)
  then show ?thesis by (simp add: map_delete_def filter_id_conv)
qed

lemma evict_drop: "evict c m = drop (Suc (length m) - c) m"
  by (induction c m rule: evict.induct) (auto simp: Suc_diff_le)

lemma evict_length: "0 < c \<Longrightarrow> length (evict c m) < c"
  by (induction c m rule: evict.induct) auto

definition lru_ok :: "('k, 'v) lru \<Rightarrow> bool" where
  "lru_ok l \<longleftrightarrow> 0 < lru_capacity l \<and> distinct (map fst (lru_map l)) \<and> length (lru_map l) \<le> lru_capacity l"

text \<open>One step of making room, as both stores do it.\<close>

lemma room_made:
  assumes "distinct (map fst m)" "length m \<le> c" "0 < c"
    "m1 = (if map_has k m then map_delete k m else drop (Suc (length m) - c) m)"
  shows "map_set k v m1 = m1 @ [(k, v)] \<and> distinct (map fst (m1 @ [(k, v)])) \<and> length (m1 @ [(k, v)]) \<le> c
    \<and> (\<exists>n. m1 = drop n (map_delete k m) \<and> (n = 0 \<or> length (m1 @ [(k, v)]) = c))"
proof -
  have no: "\<not> map_has k m1" using assms(4) has_subset [of "drop (Suc (length m) - c) m" m k] set_drop_subset [of "Suc (length m) - c" m] by auto
  have d: "distinct (map fst m1)"
    using assms(1,4) by (auto simp: drop_map [symmetric] simp del: map_append)
  have l: "length m1 < c"
    using assms length_delete [OF assms(1), of k] by (cases "map_has k m") auto
  define n where "n = (if map_has k m then 0 else Suc (length m) - c)"
  have "m1 = drop n (map_delete k m)" using assms(4) delete_absent [of k m] by (simp add: n_def)
  moreover have "n = 0 \<or> length (m1 @ [(k, v)]) = c" using assms(2,3,4) by (auto simp: n_def)
  ultimately have ex: "\<exists>n. m1 = drop n (map_delete k m) \<and> (n = 0 \<or> length (m1 @ [(k, v)]) = c)" by blast
  have "k \<notin> set (map fst m1)" using no by (simp add: map_has_def)
  then have "distinct (map fst (m1 @ [(k, v)]))" using d by simp
  then show ?thesis using last_map_set [OF no, of v] l ex by simp
qed

lemma lru_set_room:
  assumes "lru_ok l"
  shows "lru_map (lru_set k v l) = map_set k v (if map_has k (lru_map l) then map_delete k (lru_map l)
     else drop (Suc (length (lru_map l)) - lru_capacity l) (lru_map l))"
proof (cases "lru_map l")
  case Nil
  then show ?thesis using assms by (simp add: lru_set_def lru_ok_def map_has_def)
next
  case (Cons e m)
  have "map_delete (fst e) (e # m) = m" using assms Cons by (intro delete_first) (simp add: lru_ok_def)
  then show ?thesis using assms Cons by (auto simp: lru_set_def Let_def lru_ok_def)
qed

definition store_ok :: "router_store \<Rightarrow> bool" where
  "store_ok s \<longleftrightarrow> 0 < st_capacity s \<and> distinct (map fst (st_map s)) \<and> length (st_map s) \<le> st_capacity s"

text \<open>Putting a slot under the key of its state, at a time: the operation of the store behind \<open>set\<close>.\<close>

definition store_put :: "string \<Rightarrow> router_slot \<Rightarrow> router_store \<Rightarrow> router_store" where
  "store_put k slot s = s\<lparr>st_map := map_set k slot
     (if map_has k (st_map s) then map_delete k (st_map s) else evict (st_capacity s) (st_map s))\<rparr>"

lemma store_set_put:
  "store_set now state s =
     store_put (makeKey (rs_session state) (rs_subagent state)) \<lparr>sl_state = state, sl_expires = now + st_ttl s\<rparr> s"
  by (simp add: store_set_def store_put_def Let_def)

interpretation lru: recency_store lru_ok lru_map lru_capacity lru_set
proof unfold_locales
  fix l :: "('k, 'v) lru" and k v assume ok: "lru_ok l"
  note r = room_made [OF _ _ _ refl, of "lru_map l" "lru_capacity l" k v]
  show "distinct (map fst (lru_map l)) \<and> length (lru_map l) \<le> lru_capacity l" using ok by (simp add: lru_ok_def)
  have c: "lru_capacity (lru_set k v l) = lru_capacity l" by (simp add: lru_set_def Let_def)
  show "lru_ok (lru_set k v l) \<and> lru_capacity (lru_set k v l) = lru_capacity l"
    using ok r c lru_set_room [OF ok, of k v] by (simp add: lru_ok_def)
  show "map_get k (lru_map (lru_set k v l)) = Some v" by (simp add: lru_set_room [OF ok] get_set)
  show "last (lru_map (lru_set k v l)) = (k, v)" using ok r lru_set_room [OF ok, of k v] by (simp add: lru_ok_def)
  show "\<exists>n. butlast (lru_map (lru_set k v l)) = drop n (map_delete k (lru_map l))
      \<and> (n = 0 \<or> length (lru_map (lru_set k v l)) = lru_capacity l)"
    using ok r lru_set_room [OF ok, of k v] by (auto simp: lru_ok_def)
qed

interpretation sessions: recency_store store_ok st_map st_capacity store_put
proof unfold_locales
  fix s k v assume ok: "store_ok s"
  note r = room_made [OF _ _ _ refl, of "st_map s" "st_capacity s" k v]
  have e: "st_map (store_put k v s) = map_set k v (if map_has k (st_map s) then map_delete k (st_map s)
      else drop (Suc (length (st_map s)) - st_capacity s) (st_map s))"
    by (simp add: store_put_def evict_drop)
  show "distinct (map fst (st_map s)) \<and> length (st_map s) \<le> st_capacity s" using ok by (simp add: store_ok_def)
  have c: "st_capacity (store_put k v s) = st_capacity s" by (simp add: store_put_def)
  show "store_ok (store_put k v s) \<and> st_capacity (store_put k v s) = st_capacity s" using ok r c e by (simp add: store_ok_def)
  show "map_get k (st_map (store_put k v s)) = Some v" by (simp add: e get_set)
  show "last (st_map (store_put k v s)) = (k, v)" using ok r e by (simp add: store_ok_def)
  show "\<exists>n. butlast (st_map (store_put k v s)) = drop n (map_delete k (st_map s))
      \<and> (n = 0 \<or> length (st_map (store_put k v s)) = st_capacity s)"
    using ok r e by (auto simp: store_ok_def)
qed

text \<open>
  A value put into an LRU map is found again while fewer other keys than the map has room for
  were put after it.
\<close>

lemma lru_keeps_recent:
  assumes "lru_ok l" "distinct (k # map fst kvs)" "length kvs < lru_capacity l"
  shows "snd (lru_get k (lru.put_all kvs (lru_set k v l))) = Some v"
  using lru.put_recent [OF assms] by (simp add: lru_get_def)

lemma store_set_then_get:
  assumes "store_ok s" "now' \<le> now + st_ttl s"
  shows "snd (store_get now' (rs_session state) (rs_subagent state) (store_set now state s)) = Some state"
  using sessions.put_get [OF assms(1)] assms(2) by (simp add: store_set_put store_get_def Let_def)

text \<open>The routing state of a main session that is named like a subagent's key is one with it.\<close>

lemma keys_collide: "makeKey (x @ '':sub'') False = makeKey x True"
  by (simp add: makeKey_def)

text \<open>Touching a slot that has expired but was not asked for brings it back to life.\<close>

lemma touch_revives:
  assumes "map_get (makeKey x b) (st_map s) = Some slot" "0 < st_ttl s"
  shows "snd (store_get now x b (store_touch now x b s)) = Some ((sl_state slot)\<lparr>rs_updated := now\<rparr>)"
  using assms by (simp add: store_touch_def store_get_def Let_def get_set)

text \<open>
  After the configured number of quality failures in a row a sticky model is not used any more,
  whatever else happened to the session's slot before.
\<close>

lemma failures_counted:
  assumes "map_get (makeKey x b) (st_map s) = Some slot"
  shows "map_get (makeKey x b) (st_map (fst (recordQualityFailure x b s))) = Some (slot\<lparr>sl_state := (sl_state slot)
     \<lparr>rs_failures := Some ((case rs_failures (sl_state slot) of None \<Rightarrow> 0 | Some n \<Rightarrow> n) + 1)\<rparr>\<rparr>)"
  using assms by (simp add: recordQualityFailure_def Let_def get_set)

fun fail_times :: "nat \<Rightarrow> string \<Rightarrow> bool \<Rightarrow> router_store \<Rightarrow> router_store" where
  "fail_times 0 x b s = s"
| "fail_times (Suc n) x b s = fail_times n x b (fst (recordQualityFailure x b s))"

lemma fail_times_slot:
  "map_get (makeKey x b) (st_map s) = Some slot \<Longrightarrow> \<exists>slot'. map_get (makeKey x b) (st_map (fail_times n x b s)) = Some slot'
     \<and> n \<le> (case rs_failures (sl_state slot') of None \<Rightarrow> 0 | Some k \<Rightarrow> k)
     \<and> (case rs_failures (sl_state slot) of None \<Rightarrow> 0 | Some k \<Rightarrow> k) + n \<le> (case rs_failures (sl_state slot') of None \<Rightarrow> 0 | Some k \<Rightarrow> k)"
proof (induction n arbitrary: s slot)
  case (Suc n)
  from Suc.IH [OF failures_counted [OF Suc.prems]] show ?case by fastforce
qed auto

lemma failures_release_sticky:
  assumes "map_get (makeKey x b) (st_map s) = Some slot"
  shows "\<not> isStickyUsable None now' (snd (store_get now x b (fail_times (Suc (Suc n)) x b s)))"
proof -
  obtain slot' where "map_get (makeKey x b) (st_map (fail_times (Suc (Suc n)) x b s)) = Some slot'"
    "Suc (Suc n) \<le> (case rs_failures (sl_state slot') of None \<Rightarrow> 0 | Some k \<Rightarrow> k)"
    using fail_times_slot [OF assms] by blast
  then show ?thesis by (auto simp: store_get_def Let_def isStickyUsable_def split: option.splits)
qed

theorem lru_keeps_recent_witness:
  "snd (lru_get (1::nat) (lru.put_all [(2, ''b''), (3, ''c'')] (lru_set 1 ''a'' \<lparr>lru_capacity = 3, lru_map = []\<rparr>))) = Some ''a''"
  by (rule lru_keeps_recent) (simp_all add: lru_ok_def)

end
