(* ===== verification/Claim_Beliefs.thy ===== *)
theory Claim_Beliefs
  imports Complex_Main Artifact_Graph
begin

text \<open>
  \<open>src/research/claims/types.ts\<close> and \<open>beliefPropagation.ts\<close>: claims, the evidence that artifacts
  contribute to them and the belief that follows from it. Weights are exact rationals; the program
  adds them in floating point. The strength of evidence is a datatype, so the check for unknown
  strengths is not needed.
\<close>

section \<open>Claims and evidence\<close>

record claim =
  cl_id :: string
  cl_statement :: string
  cl_falsification :: "string option"
  cl_parents :: "string list option"
  cl_source :: "string option"
  cl_created :: string

datatype claim_status = Claim_active | Claim_challenged | Claim_falsified | Claim_superseded

datatype evidence_strength =
    Replicated_result | Observed_result | Baseline_strength | Review_consensus | Citation_strength

datatype evidence_relation = Supports_claim | Challenges_claim

record contribution =
  ec_source :: string
  ec_kind :: string
  ec_relation :: evidence_relation
  ec_strength :: evidence_strength
  ec_revision :: int

record belief =
  bf_claim :: string
  bf_status :: claim_status
  bf_confidence :: rat
  bf_uncertainty :: rat
  bf_supports :: rat
  bf_challenges :: rat
  bf_count :: nat

fun EVIDENCE_STRENGTH_WEIGHTS :: "evidence_strength \<Rightarrow> rat" where
  "EVIDENCE_STRENGTH_WEIGHTS Replicated_result = 4 / 10"
| "EVIDENCE_STRENGTH_WEIGHTS Observed_result = 25 / 100"
| "EVIDENCE_STRENGTH_WEIGHTS Baseline_strength = 2 / 10"
| "EVIDENCE_STRENGTH_WEIGHTS Review_consensus = 3 / 10"
| "EVIDENCE_STRENGTH_WEIGHTS Citation_strength = 1 / 10"

definition strengthFromArtifactKind :: "string \<Rightarrow> evidence_strength" where
  "strengthFromArtifactKind kind =
     (if kind \<in> {''run_attempt'', ''metric_observation''} then Observed_result
      else if kind = ''baseline_observation'' then Baseline_strength
      else if kind \<in> {''finding'', ''review_round''} then Review_consensus
      else if kind \<in> {''evidence_pack'', ''citation_set''} then Citation_strength
      else Observed_result)"

definition evidenceWeight :: "contribution \<Rightarrow> rat" where
  "evidenceWeight c = EVIDENCE_STRENGTH_WEIGHTS (ec_strength c)"

definition clamp01 :: "rat \<Rightarrow> rat" where
  "clamp01 x = min 1 (max 0 x)"

section \<open>Beliefs\<close>

record belief_options =
  bo_challenge :: "rat option"
  bo_falsification :: "rat option"

definition weigh :: "rat \<times> rat \<Rightarrow> contribution \<Rightarrow> rat \<times> rat" where
  "weigh s c = (case ec_relation c of
     Supports_claim \<Rightarrow> (fst s + evidenceWeight c, snd s)
   | Challenges_claim \<Rightarrow> (fst s, snd s + evidenceWeight c))"

definition status_of :: "belief_options \<Rightarrow> rat \<Rightarrow> rat \<Rightarrow> claim_status" where
  "status_of opts supportsWeight challengesWeight =
     (let challenged = ((case bo_challenge opts of None \<Rightarrow> 5 / 10 | Some t \<Rightarrow> t) \<le> challengesWeight
            \<and> supportsWeight < challengesWeight)
      in if challenged \<and> (case bo_falsification opts of None \<Rightarrow> 1 | Some t \<Rightarrow> t) \<le> challengesWeight then Claim_falsified
         else if challenged then Claim_challenged else Claim_active)"

definition computeBelief :: "belief_options \<Rightarrow> claim \<Rightarrow> contribution list \<Rightarrow> belief" where
  "computeBelief opts c es =
     (let (supportsWeight, challengesWeight) = foldl weigh (0, 0) es;
          delta = supportsWeight - challengesWeight
      in \<lparr>bf_claim = cl_id c, bf_status = status_of opts supportsWeight challengesWeight,
          bf_confidence = clamp01 (1 / 2 + 1 / 2 * (delta / (1 + \<bar>delta\<bar>))),
          bf_uncertainty = clamp01 (1 - 15 / 100 * (supportsWeight + challengesWeight)),
          bf_supports = supportsWeight, bf_challenges = challengesWeight, bf_count = length es\<rparr>)"

section \<open>Harvesting\<close>

record evidence_parent =
  ep_relation :: string
  ep_id :: string
  ep_kind :: string

record evidence_artifact =
  ea_id :: string
  ea_revision :: int
  ea_kind :: string
  ea_status :: "string option"
  ea_parents :: "evidence_parent list option"

definition newer_artifact :: "(string, evidence_artifact) jmap \<Rightarrow> evidence_artifact \<Rightarrow> (string, evidence_artifact) jmap" where
  "newer_artifact m a =
     (case jget m (ea_id a) of
        None \<Rightarrow> jset (ea_id a) a m
      | Some b \<Rightarrow> if ea_revision b < ea_revision a then jset (ea_id a) a m else m)"

definition parent_evidence :: "evidence_artifact \<Rightarrow> evidence_parent \<Rightarrow> evidence_relation \<Rightarrow> contribution" where
  "parent_evidence a p r = \<lparr>ec_source = ea_id a, ec_kind = ea_kind a, ec_relation = r,
     ec_strength = strengthFromArtifactKind (ea_kind a), ec_revision = ea_revision a\<rparr>"

definition relation_of :: "string \<Rightarrow> evidence_relation option" where
  "relation_of r = (if r = ''supports'' then Some Supports_claim
     else if r = ''challenges'' then Some Challenges_claim else None)"

definition add_evidence ::
  "string set \<Rightarrow> evidence_artifact \<Rightarrow> (string, contribution list) jmap \<Rightarrow> evidence_parent \<Rightarrow> (string, contribution list) jmap" where
  "add_evidence claimIds a m p =
     (if ep_kind p \<noteq> ''claim'' then m
      else if ep_id p \<notin> claimIds then m
      else case relation_of (ep_relation p) of
        None \<Rightarrow> m
      | Some r \<Rightarrow> jset (ep_id p) ((case jget m (ep_id p) of None \<Rightarrow> [] | Some es \<Rightarrow> es) @ [parent_evidence a p r]) m)"

definition latest_artifacts :: "evidence_artifact list \<Rightarrow> (string, evidence_artifact) jmap" where
  "latest_artifacts as = foldl newer_artifact [] as"

definition harvest ::
  "string set \<Rightarrow> (string, contribution list) jmap \<Rightarrow> evidence_artifact \<Rightarrow> (string, contribution list) jmap" where
  "harvest claimIds m a =
     (if (case ea_status a of None \<Rightarrow> False | Some s \<Rightarrow> s \<noteq> ''active'') then m
      else foldl (add_evidence claimIds a) m (case ea_parents a of None \<Rightarrow> [] | Some ps \<Rightarrow> ps))"

definition aggregateContributions :: "evidence_artifact list \<Rightarrow> string set \<Rightarrow> (string, contribution list) jmap" where
  "aggregateContributions as claimIds = foldl (harvest claimIds) [] (jvals (latest_artifacts as))"

definition contributions_of :: "(string, contribution list) jmap \<Rightarrow> string \<Rightarrow> contribution list" where
  "contributions_of m k = (case jget m k of None \<Rightarrow> [] | Some es \<Rightarrow> es)"

definition recomputeAllBeliefs :: "belief_options \<Rightarrow> claim list \<Rightarrow> (string, contribution list) jmap \<Rightarrow> belief list" where
  "recomputeAllBeliefs opts cs m = map (\<lambda>c. computeBelief opts c (contributions_of m (cl_id c))) cs"

section \<open>What evidence does to a belief\<close>

fun status_rank :: "claim_status \<Rightarrow> nat" where
  "status_rank Claim_active = 0"
| "status_rank Claim_challenged = 1"
| "status_rank Claim_falsified = 2"
| "status_rank Claim_superseded = 3"

definition weight_for :: "evidence_relation \<Rightarrow> contribution list \<Rightarrow> rat" where
  "weight_for r es = sum_list (map evidenceWeight (filter (\<lambda>e. ec_relation e = r) es))"

lemma evidenceWeight_pos: "0 < evidenceWeight e"
  by (cases "ec_strength e") (simp_all add: evidenceWeight_def)

lemma foldl_weigh: "foldl weigh s es = (fst s + weight_for Supports_claim es, snd s + weight_for Challenges_claim es)"
  by (induction es arbitrary: s) (auto simp: weight_for_def weigh_def split: evidence_relation.splits)

lemma weight_for_nonneg: "0 \<le> weight_for r es"
  unfolding weight_for_def using evidenceWeight_pos by (intro sum_list_nonneg) (auto intro: less_imp_le)

lemma weight_for_insert:
  "weight_for r (xs @ e # ys) = weight_for r (xs @ ys) + (if ec_relation e = r then evidenceWeight e else 0)"
  by (simp add: weight_for_def)

definition leaning :: "rat \<Rightarrow> rat" where
  "leaning delta = delta / (1 + \<bar>delta\<bar>)"

lemma leaning_bounds: "- 1 < leaning d \<and> leaning d < 1"
proof -
  have "0 < 1 + \<bar>d\<bar>" "- (1 + \<bar>d\<bar>) < d" "d < 1 + \<bar>d\<bar>" by linarith+
  then show ?thesis by (simp add: leaning_def pos_less_divide_eq pos_divide_less_eq)
qed

lemma leaning_mono:
  assumes "d < d'"
  shows "leaning d < leaning d'"
proof -
  have p: "0 < 1 + \<bar>d\<bar>" "0 < 1 + \<bar>d'\<bar>" by linarith+
  have "d * (1 + \<bar>d'\<bar>) < d' * (1 + \<bar>d\<bar>)"
  proof (cases "0 \<le> d \<or> d' \<le> 0")
    case True
    then have "d * \<bar>d'\<bar> = d' * \<bar>d\<bar>" using assms by (auto simp: abs_if)
    then show ?thesis using assms by (simp add: algebra_simps)
  next
    case False
    then have "d * (1 + \<bar>d'\<bar>) < 0" "0 < d' * (1 + \<bar>d\<bar>)" using p by (simp_all add: mult_neg_pos)
    then show ?thesis by linarith
  qed
  then show ?thesis using p by (simp add: leaning_def frac_less_eq divide_less_eq less_divide_eq field_simps)
qed

lemma clamp01_leaning: "- 1 < x \<and> x < 1 \<Longrightarrow> clamp01 (1 / 2 + 1 / 2 * x) = 1 / 2 + 1 / 2 * x"
  by (auto simp: clamp01_def)

lemma confidence_eq: "bf_confidence (computeBelief opts c es) =
    1 / 2 + 1 / 2 * leaning (weight_for Supports_claim es - weight_for Challenges_claim es)"
  using clamp01_leaning [OF leaning_bounds, of "weight_for Supports_claim es - weight_for Challenges_claim es"]
  by (simp add: computeBelief_def foldl_weigh Let_def leaning_def)

lemma uncertainty_eq: "bf_uncertainty (computeBelief opts c es) =
    clamp01 (1 - 15 / 100 * (weight_for Supports_claim es + weight_for Challenges_claim es))"
  by (simp add: computeBelief_def foldl_weigh Let_def)

lemma status_eq: "bf_status (computeBelief opts c es) =
    status_of opts (weight_for Supports_claim es) (weight_for Challenges_claim es)"
  by (simp add: computeBelief_def foldl_weigh Let_def)

lemma clamp01_mono: "x \<le> y \<Longrightarrow> clamp01 x \<le> clamp01 y"
  by (simp add: clamp01_def)

lemma clamp01_bounds: "0 \<le> clamp01 x \<and> clamp01 x \<le> 1"
  by (simp add: clamp01_def)

lemma status_mono:
  "s' \<le> s \<Longrightarrow> c \<le> c' \<Longrightarrow> status_rank (status_of opts s c) \<le> status_rank (status_of opts s' c')"
  by (auto simp: status_of_def Let_def split: option.splits)

text \<open>
  Whatever the evidence, confidence lies strictly between 0 and 1 and uncertainty between 0 and
  1. One more piece of evidence, wherever it comes in, never raises uncertainty; support raises
  confidence and never worsens the status, a challenge lowers confidence and never improves it.
\<close>

lemma evidence_moves_belief:
  "let b = computeBelief opts c (xs @ ys); b' = computeBelief opts c (xs @ e # ys) in
     0 < bf_confidence b \<and> bf_confidence b < 1 \<and> 0 \<le> bf_uncertainty b \<and> bf_uncertainty b \<le> 1
     \<and> bf_uncertainty b' \<le> bf_uncertainty b
     \<and> (case ec_relation e of
          Supports_claim \<Rightarrow> bf_confidence b < bf_confidence b' \<and> status_rank (bf_status b') \<le> status_rank (bf_status b)
        | Challenges_claim \<Rightarrow> bf_confidence b' < bf_confidence b \<and> status_rank (bf_status b) \<le> status_rank (bf_status b'))"
proof -
  let ?s = "weight_for Supports_claim (xs @ ys)" and ?c = "weight_for Challenges_claim (xs @ ys)"
  let ?w = "evidenceWeight e"
  have w: "0 < ?w" by (rule evidenceWeight_pos)
  have u: "clamp01 (1 - 15 / 100 * (?s + ?c + ?w)) \<le> clamp01 (1 - 15 / 100 * (?s + ?c))"
    using w by (intro clamp01_mono) simp
  have b: "0 < 1 / 2 + 1 / 2 * leaning (?s - ?c)" "1 / 2 + 1 / 2 * leaning (?s - ?c) < 1"
    using leaning_bounds [of "?s - ?c"] by simp_all
  show ?thesis
  proof (cases "ec_relation e")
    case Supports_claim
    have "leaning (?s - ?c) < leaning (?s + ?w - ?c)" using w by (intro leaning_mono) simp
    moreover have "status_rank (status_of opts (?s + ?w) ?c) \<le> status_rank (status_of opts ?s ?c)"
      using w by (intro status_mono) simp_all
    ultimately show ?thesis using u b clamp01_bounds
      by (simp add: Let_def confidence_eq uncertainty_eq status_eq weight_for_insert Supports_claim add.commute add.left_commute)
  next
    case Challenges_claim
    have "leaning (?s - (?c + ?w)) < leaning (?s - ?c)" using w by (intro leaning_mono) simp
    moreover have "status_rank (status_of opts ?s ?c) \<le> status_rank (status_of opts ?s (?c + ?w))"
      using w by (intro status_mono) simp_all
    ultimately show ?thesis using u b clamp01_bounds
      by (simp add: Let_def confidence_eq uncertainty_eq status_eq weight_for_insert Challenges_claim add.assoc)
  qed
qed

section \<open>What is harvested\<close>

definition piece :: "string \<Rightarrow> evidence_artifact \<Rightarrow> evidence_parent \<Rightarrow> contribution option" where
  "piece k a p = (if ep_kind p = ''claim'' \<and> ep_id p = k then map_option (parent_evidence a p) (relation_of (ep_relation p)) else None)"

definition active_artifact :: "evidence_artifact \<Rightarrow> bool" where
  "active_artifact a \<longleftrightarrow> (case ea_status a of None \<Rightarrow> True | Some s \<Rightarrow> s = ''active'')"

definition parents_of :: "evidence_artifact \<Rightarrow> evidence_parent list" where
  "parents_of a = (case ea_parents a of None \<Rightarrow> [] | Some ps \<Rightarrow> ps)"

lemma contributions_add:
  "contributions_of (add_evidence ids a m p) k =
     contributions_of m k @ (case if k \<in> ids then piece k a p else None of None \<Rightarrow> [] | Some e \<Rightarrow> [e])"
  by (auto simp: contributions_of_def add_evidence_def piece_def split: option.splits)

lemma contributions_fold_add:
  "contributions_of (foldl (add_evidence ids a) m ps) k =
     contributions_of m k @ (if k \<in> ids then List.map_filter (piece k a) ps else [])"
  by (induction ps arbitrary: m) (auto simp: contributions_add List.map_filter_def split: option.splits)

lemma contributions_fold_harvest:
  "contributions_of (foldl (harvest ids) m as) k = contributions_of m k
     @ (if k \<in> ids then concat (map (\<lambda>a. List.map_filter (piece k a) (parents_of a)) (filter active_artifact as)) else [])"
  by (induction as arbitrary: m)
    (auto simp: harvest_def contributions_fold_add active_artifact_def parents_of_def split: option.splits)

text \<open>What the map of latest artifacts holds after some artifacts.\<close>

definition latest_of :: "evidence_artifact set \<Rightarrow> (string, evidence_artifact) jmap \<Rightarrow> bool" where
  "latest_of S m \<longleftrightarrow> distinct (map fst m) \<and> fst ` set m = ea_id ` S
     \<and> (\<forall>i a. map_of m i = Some a \<longrightarrow> a \<in> S \<and> ea_id a = i \<and> (\<forall>b \<in> S. ea_id b = i \<longrightarrow> ea_revision b \<le> ea_revision a))"

lemma latest_of_newer:
  assumes "latest_of S m"
  shows "latest_of (insert b S) (newer_artifact m b)"
proof (cases "map_of m (ea_id b)")
  case None
  then have n: "ea_id b \<notin> ea_id ` S" using assms unfolding latest_of_def by (metis map_of_eq_None_iff)
  then have o: "ea_id x \<noteq> ea_id b" if "x \<in> S" for x using that by (metis imageI)
  show ?thesis using assms None o by (simp add: latest_of_def newer_artifact_def)
next
  case (Some a)
  then have a: "a \<in> S" "ea_id a = ea_id b" "\<forall>x \<in> S. ea_id x = ea_id b \<longrightarrow> ea_revision x \<le> ea_revision a"
    using assms by (auto simp: latest_of_def)
  have i: "insert (ea_id b) (ea_id ` S) = ea_id ` S" using a(1,2) by (metis imageI insert_absorb)
  show ?thesis
  proof (cases "ea_revision a < ea_revision b")
    case True
    then have "\<forall>x \<in> S. ea_id x = ea_id b \<longrightarrow> ea_revision x \<le> ea_revision b" using a(3) by force
    then show ?thesis using assms Some True i by (simp add: latest_of_def newer_artifact_def)
  next
    case False
    then have m: "newer_artifact m b = m" and r: "ea_revision b \<le> ea_revision a" using Some by (simp_all add: newer_artifact_def)
    have "ea_revision b \<le> ea_revision x" if "map_of m i = Some x" "ea_id b = i" for x i
      using that Some r by simp
    then show ?thesis using assms i unfolding m latest_of_def by simp
  qed
qed

lemma latest_artifacts_latest: "latest_of (set as) (latest_artifacts as)"
proof (induction as rule: rev_induct)
  case (snoc b as)
  then show ?case using latest_of_newer [of "set as" _ b] by (simp add: latest_artifacts_def)
qed (simp add: latest_artifacts_def latest_of_def)

lemma in_latest: "a \<in> set (jvals (latest_artifacts as)) \<longleftrightarrow> map_of (latest_artifacts as) (ea_id a) = Some a"
proof -
  note l = latest_artifacts_latest [of as, unfolded latest_of_def]
  have "a \<in> set (jvals (latest_artifacts as)) \<longleftrightarrow> (\<exists>i. map_of (latest_artifacts as) i = Some a)"
    using l by (auto simp: jvals_def map_of_eq_Some_iff rev_image_eqI)
  then show ?thesis using l by auto
qed

text \<open>
  The evidence for a claim: a parent link of an active artifact at its latest revision that supports
  or challenges it, and nothing else.
\<close>

lemma harvested:
  "e \<in> set (contributions_of (aggregateContributions as ids) k) \<longleftrightarrow>
     k \<in> ids \<and> (\<exists>a p. map_of (latest_artifacts as) (ea_id a) = Some a \<and> active_artifact a
       \<and> p \<in> set (parents_of a) \<and> piece k a p = Some e)"
proof -
  have m: "e \<in> set (List.map_filter (piece k a) ps) \<longleftrightarrow> (\<exists>p \<in> set ps. piece k a p = Some e)" for a ps
    by (force simp: List.map_filter_def image_iff)
  have "contributions_of [] k = []" by (simp add: contributions_of_def)
  then have "e \<in> set (contributions_of (aggregateContributions as ids) k) \<longleftrightarrow>
      k \<in> ids \<and> (\<exists>a \<in> set (jvals (latest_artifacts as)). active_artifact a \<and> e \<in> set (List.map_filter (piece k a) (parents_of a)))"
    by (auto simp: aggregateContributions_def contributions_fold_harvest)
  then show ?thesis unfolding m by (simp add: Bex_def in_latest)
qed

end
