(* ===== verification/Claim_Graph.thy ===== *)
theory Claim_Graph
  imports Claim_Beliefs
begin

text \<open>
  \<open>src/research/claims/ClaimGraph.ts\<close>: the claims of a project with their file. The file is what
  reading and parsing it shows; a record that does not have a claim with an id and a statement is
  \<open>None\<close>. Operations are serialized by the write lock. The size of the file and whether it can be
  written are parameters of a save, the time of an operation is its argument.
\<close>

section \<open>State\<close>

record claim_record =
  kr_claim :: claim
  kr_superseded :: bool
  kr_successor :: "string option"
  kr_at :: "string option"

datatype claims_file = No_file | Unreadable | Broken_json | Other_shape | Claims_file "claim_record option list"

record claim_graph =
  kg_claims :: "(string, claim_record) jmap"
  kg_loaded :: bool
  kg_failed :: bool

datatype claim_error =
    Graph_corrupt | Graph_too_large | Write_failed
  | Unknown_claim string | Own_successor string | Unknown_successor string string | Already_superseded string string

definition newClaimGraph :: claim_graph where
  "newClaimGraph = \<lparr>kg_claims = [], kg_loaded = False, kg_failed = False\<rparr>"

definition record_id :: "claim_record \<Rightarrow> string" where
  "record_id r = cl_id (kr_claim r)"

definition salvage :: "claim_record option list \<Rightarrow> (string, claim_record) jmap \<Rightarrow> (string, claim_record) jmap" where
  "salvage rs m = foldl (\<lambda>m r. case r of None \<Rightarrow> m | Some c \<Rightarrow> jset (record_id c) c m) m rs"

definition load_claims :: "claims_file \<Rightarrow> claim_graph \<Rightarrow> claim_graph" where
  "load_claims f g =
     (if kg_loaded g then g
      else (case f of
         Claims_file rs \<Rightarrow> g\<lparr>kg_claims := salvage rs (kg_claims g),
           kg_failed := (kg_failed g \<or> (None \<in> set rs \<and> (\<forall>r \<in> set rs. r = None)))\<rparr>
       | Other_shape \<Rightarrow> g\<lparr>kg_failed := True\<rparr>
       | Broken_json \<Rightarrow> g\<lparr>kg_failed := True\<rparr>
       | _ \<Rightarrow> g)\<lparr>kg_loaded := True\<rparr>)"

definition MAX_CLAIMS_FILE_BYTES :: nat where
  "MAX_CLAIMS_FILE_BYTES = 16 * 1024 * 1024"

definition save_claims ::
  "(claim_record list \<Rightarrow> nat) \<Rightarrow> bool \<Rightarrow> claim_graph \<Rightarrow> (string, claim_record) jmap \<Rightarrow> (claim_error, claims_file) result" where
  "save_claims bytes writable g claims =
     (if kg_failed g then Inl Graph_corrupt
      else if MAX_CLAIMS_FILE_BYTES < bytes (jvals claims) then Inl Graph_too_large
      else if \<not> writable then Inl Write_failed
      else Inr (Claims_file (map Some (jvals claims))))"

text \<open>An operation gives its answer and leaves the file and the graph.\<close>

type_synonym 'a claim_op_result = "(claim_error, 'a) result \<times> claims_file \<times> claim_graph"

definition commit_claims ::
  "(claim_record list \<Rightarrow> nat) \<Rightarrow> bool \<Rightarrow> claims_file \<Rightarrow> claim_graph \<Rightarrow> (string, claim_record) jmap \<Rightarrow> 'a \<Rightarrow> 'a claim_op_result" where
  "commit_claims bytes writable f g claims x =
     (case save_claims bytes writable g claims of
        Inl e \<Rightarrow> (Inl e, f, g)
      | Inr f' \<Rightarrow> (Inr x, f', g\<lparr>kg_claims := claims\<rparr>))"

record claim_input =
  ci_id :: string
  ci_statement :: string
  ci_falsification :: "string option"
  ci_parents :: "string list option"
  ci_source :: "string option"

definition upsertClaim ::
  "(claim_record list \<Rightarrow> nat) \<Rightarrow> bool \<Rightarrow> string \<Rightarrow> claim_input \<Rightarrow> claims_file \<Rightarrow> claim_graph \<Rightarrow> claim claim_op_result" where
  "upsertClaim bytes writable now i f g0 =
     (let g = load_claims f g0;
          existing = jget (kg_claims g) (ci_id i);
          c = \<lparr>cl_id = ci_id i, cl_statement = ci_statement i, cl_falsification = ci_falsification i,
               cl_parents = ci_parents i, cl_source = ci_source i,
               cl_created = (case existing of None \<Rightarrow> now | Some r \<Rightarrow> cl_created (kr_claim r))\<rparr>;
          r = \<lparr>kr_claim = c, kr_superseded = (case existing of None \<Rightarrow> False | Some r \<Rightarrow> kr_superseded r),
               kr_successor = (case existing of None \<Rightarrow> None | Some r \<Rightarrow> kr_successor r),
               kr_at = (case existing of None \<Rightarrow> None | Some r \<Rightarrow> kr_at r)\<rparr>
      in commit_claims bytes writable f g (jset (ci_id i) r (kg_claims g)) c)"

definition listClaims :: "claims_file \<Rightarrow> claim_graph \<Rightarrow> claim list" where
  "listClaims f g = map kr_claim (jvals (kg_claims (load_claims f g)))"

definition getClaim :: "string \<Rightarrow> claims_file \<Rightarrow> claim_graph \<Rightarrow> claim option" where
  "getClaim k f g = map_option kr_claim (jget (kg_claims (load_claims f g)) k)"

section \<open>Descendants\<close>

definition claim_parents :: "claim_record \<Rightarrow> string list" where
  "claim_parents r = (case cl_parents (kr_claim r) of None \<Rightarrow> [] | Some ps \<Rightarrow> ps)"

definition add_child :: "string \<Rightarrow> adjacency \<Rightarrow> string \<Rightarrow> adjacency" where
  "add_child c ch p = jset p (kids ch p @ [c]) ch"

definition children_of :: "claim_record list \<Rightarrow> adjacency" where
  "children_of rs = foldl (\<lambda>ch r. foldl (add_child (record_id r)) ch (claim_parents r)) [] rs"

text \<open>The stack with its top in front: children are pushed in order, so the last comes first.\<close>

function descend :: "adjacency \<Rightarrow> string list \<Rightarrow> string list \<Rightarrow> string list" where
  "descend ch visited [] = visited"
| "descend ch visited (c # stack) =
     (if c \<in> set visited then descend ch visited stack
      else descend ch (visited @ [c]) (rev (kids ch c) @ stack))"
  by pat_completeness auto
termination
proof (relation "measures [\<lambda>(ch, visited, stack). card (fst ` set ch - set visited), \<lambda>(ch, visited, stack). length stack]", goal_cases)
  case (3 ch visited c stack)
  show ?case
  proof (cases "c \<in> fst ` set ch")
    case True
    then have "fst ` set ch - set (visited @ [c]) \<subset> fst ` set ch - set visited" using 3 by auto
    then show ?thesis by (simp add: psubset_card_mono)
  next
    case False
    then have "fst ` set ch - set (visited @ [c]) = fst ` set ch - set visited" by auto
    then show ?thesis using kids_no_key [OF False] by simp
  qed
qed auto

definition collectDescendants :: "(string, claim_record) jmap \<Rightarrow> string \<Rightarrow> string list" where
  "collectDescendants claims k = descend (children_of (jvals claims)) [] [k]"

section \<open>Superseding\<close>

definition supersede_record :: "string \<Rightarrow> string \<Rightarrow> (string, claim_record) jmap \<Rightarrow> string \<Rightarrow> (string, claim_record) jmap" where
  "supersede_record successor now m k =
     (case jget m k of
        None \<Rightarrow> m
      | Some r \<Rightarrow> jset k (r\<lparr>kr_superseded := True, kr_successor := Some successor, kr_at := Some now\<rparr>) m)"

text \<open>An empty successor counts as none.\<close>

definition supersedeClaim ::
  "(claim_record list \<Rightarrow> nat) \<Rightarrow> bool \<Rightarrow> string \<Rightarrow> string \<Rightarrow> string \<Rightarrow> claims_file \<Rightarrow> claim_graph \<Rightarrow> string list claim_op_result" where
  "supersedeClaim bytes writable now claimId successor f g0 =
     (let g = load_claims f g0 in
      case jget (kg_claims g) claimId of
        None \<Rightarrow> (Inl (Unknown_claim claimId), f, g)
      | Some existing \<Rightarrow>
          if claimId = successor then (Inl (Own_successor claimId), f, g)
          else if jget (kg_claims g) successor = None then (Inl (Unknown_successor claimId successor), f, g)
          else if (case kr_successor existing of None \<Rightarrow> False | Some s \<Rightarrow> s \<noteq> [])
          then (Inl (Already_superseded claimId (the (kr_successor existing))), f, g)
          else let affected = collectDescendants (kg_claims g) claimId
               in commit_claims bytes writable f g (foldl (supersede_record successor now) (kg_claims g) affected) affected)"

section \<open>The snapshot of beliefs\<close>

definition recomputeBeliefs ::
  "belief_options \<Rightarrow> evidence_artifact list \<Rightarrow> claims_file \<Rightarrow> claim_graph \<Rightarrow> belief list" where
  "recomputeBeliefs opts as f g0 =
     (let rs = jvals (kg_claims (load_claims f g0));
          m = aggregateContributions as (set (map record_id rs))
      in map (\<lambda>r. let b = computeBelief opts (kr_claim r) (contributions_of m (record_id r)) in
                  if kr_superseded r then b\<lparr>bf_status := Claim_superseded\<rparr> else b) rs)"

definition mostUncertainClaims :: "nat \<Rightarrow> evidence_artifact list \<Rightarrow> claims_file \<Rightarrow> claim_graph \<Rightarrow> belief list" where
  "mostUncertainClaims limit as f g =
     take limit (sort_by (\<lambda>a b. bf_uncertainty b \<le> bf_uncertainty a)
       (filter (\<lambda>b. bf_status b = Claim_active) (recomputeBeliefs \<lparr>bo_challenge = None, bo_falsification = None\<rparr> as f g)))"

section \<open>The claims that are superseded\<close>

text \<open>An edge from a claim to one that is derived from it.\<close>

definition derives :: "(string, claim_record) jmap \<Rightarrow> (string \<times> string) set" where
  "derives claims = {(p, record_id r) | p r. r \<in> set (jvals claims) \<and> p \<in> set (claim_parents r)}"

lemma kids_add_child: "kids (add_child c ch p) q = kids ch q @ (if q = p then [c] else [])"
  by (simp add: add_child_def kids_def)

lemma kids_fold_add_child: "set (kids (foldl (add_child c) ch ps) q) = set (kids ch q) \<union> (if q \<in> set ps then {c} else {})"
  by (induction ps arbitrary: ch) (auto simp: kids_add_child)

lemma kids_children_of: "c \<in> set (kids (children_of rs) p) \<longleftrightarrow> (\<exists>r \<in> set rs. c = record_id r \<and> p \<in> set (claim_parents r))"
proof -
  have "set (kids (foldl (\<lambda>ch r. foldl (add_child (record_id r)) ch (claim_parents r)) ch rs) p) =
      set (kids ch p) \<union> {record_id r | r. r \<in> set rs \<and> p \<in> set (claim_parents r)}" for ch
    by (induction rs arbitrary: ch) (auto simp: kids_fold_add_child)
  then show ?thesis by (auto simp: children_of_def kids_def)
qed

lemma edges_children_of: "adj_edges (children_of (jvals claims)) = derives claims"
  by (auto simp: derives_def kids_children_of)

lemma descend_keeps: "set visited \<subseteq> set (descend ch visited stack) \<and> set stack \<subseteq> set (descend ch visited stack)"
  by (induction ch visited stack rule: descend.induct) auto

lemma descend_distinct: "distinct visited \<Longrightarrow> distinct (descend ch visited stack)"
  by (induction ch visited stack rule: descend.induct) auto

lemma descend_closed:
  "(\<forall>x \<in> set visited. set (kids ch x) \<subseteq> set visited \<union> set stack) \<Longrightarrow>
     \<forall>x \<in> set (descend ch visited stack). set (kids ch x) \<subseteq> set (descend ch visited stack)"
proof (induction ch visited stack rule: descend.induct)
  case (2 ch visited c stack)
  then show ?case by (cases "c \<in> set visited") auto
qed simp

lemma descend_sound: "set (descend ch visited stack) \<subseteq> set visited \<union> (adj_edges ch)\<^sup>* `` set stack"
proof (induction ch visited stack rule: descend.induct)
  case (2 ch visited c stack)
  show ?case
  proof (cases "c \<in> set visited")
    case False
    have "(adj_edges ch)\<^sup>* `` set (kids ch c) \<subseteq> (adj_edges ch)\<^sup>* `` {c}"
      by (auto intro: converse_rtrancl_into_rtrancl)
    then show ?thesis using 2(2) [OF False] False by (auto simp: Image_Un) blast+
  qed (use 2 in auto)
qed simp

lemma collectDescendants_reachable:
  "set (collectDescendants claims k) = (derives claims)\<^sup>* `` {k} \<and> distinct (collectDescendants claims k)"
proof -
  let ?ch = "children_of (jvals claims)" and ?d = "collectDescendants claims k"
  have c: "\<forall>x \<in> set ?d. set (kids ?ch x) \<subseteq> set ?d" and k: "k \<in> set ?d"
    using descend_closed [of "[]" ?ch "[k]"] descend_keeps [of "[]" ?ch "[k]"] by (simp_all add: collectDescendants_def)
  have "y \<in> set ?d" if "(k, y) \<in> (adj_edges ?ch)\<^sup>*" for y
    using that by (induction rule: rtrancl_induct) (use c k in auto)
  then have "(derives claims)\<^sup>* `` {k} \<subseteq> set ?d" by (auto simp: edges_children_of)
  moreover have "set ?d \<subseteq> (derives claims)\<^sup>* `` {k}"
    using descend_sound [of ?ch "[]" "[k]"] by (simp add: collectDescendants_def edges_children_of)
  ultimately show ?thesis using descend_distinct [of "[]" ?ch "[k]"] by (simp add: collectDescendants_def)
qed

lemma supersede_fold_get:
  "map_of (foldl (supersede_record s now) m ks) k =
     (if k \<in> set ks then map_option (\<lambda>r. r\<lparr>kr_superseded := True, kr_successor := Some s, kr_at := Some now\<rparr>) (map_of m k)
      else map_of m k)"
  by (induction ks arbitrary: m) (auto simp: supersede_record_def split: option.splits)

lemma supersede_fold_keys: "map fst (foldl (supersede_record s now) m ks) = map fst m"
proof (induction ks arbitrary: m)
  case (Cons k ks)
  have "map fst (supersede_record s now m k) = map fst m"
    by (auto simp: supersede_record_def jget_in_keys update_keys split: option.split)
  then show ?case using Cons by simp
qed simp

text \<open>
  C31: A claim that is superseded takes exactly the claims derived from it, through any number of
  parent links, with it: they get the successor and the time, every other claim stays as it is, and
  the file then holds just these claims.
\<close>

theorem supersede_exactly_descendants:
  assumes "supersedeClaim bytes writable now claimId successor f g0 = (Inr affected, f', g')"
  shows "let claims = kg_claims (load_claims f g0) in
     set affected = (derives claims)\<^sup>* `` {claimId} \<and> distinct affected
     \<and> (\<forall>k. map_of (kg_claims g') k =
          (if (claimId, k) \<in> (derives claims)\<^sup>*
           then map_option (\<lambda>r. r\<lparr>kr_superseded := True, kr_successor := Some successor, kr_at := Some now\<rparr>) (map_of claims k)
           else map_of claims k))
     \<and> jkeys (kg_claims g') = jkeys claims \<and> f' = Claims_file (map Some (jvals (kg_claims g')))"
proof -
  let ?claims = "kg_claims (load_claims f g0)"
  have "affected = collectDescendants ?claims claimId"
    and "commit_claims bytes writable f (load_claims f g0)
      (foldl (supersede_record successor now) ?claims affected) affected = (Inr affected, f', g')"
    using assms by (auto simp: supersedeClaim_def commit_claims_def Let_def split: option.splits if_splits sum.splits)
  moreover from this(2) have "kg_claims g' = foldl (supersede_record successor now) ?claims affected"
    "f' = Claims_file (map Some (jvals (kg_claims g')))"
    by (auto simp: commit_claims_def save_claims_def split: sum.splits if_splits)
  ultimately show ?thesis using collectDescendants_reachable [of ?claims claimId]
    by (simp add: supersede_fold_get supersede_fold_keys jkeys_def)
qed

section \<open>Memory and file\<close>

datatype claim_op = Upsert claim_input string bool | Supersede string string string bool | Read_claims

fun claim_step :: "(claim_record list \<Rightarrow> nat) \<Rightarrow> claims_file \<times> claim_graph \<Rightarrow> claim_op \<Rightarrow> claims_file \<times> claim_graph" where
  "claim_step bytes (f, g) (Upsert i now writable) = snd (upsertClaim bytes writable now i f g)"
| "claim_step bytes (f, g) (Supersede k successor now writable) = snd (supersedeClaim bytes writable now k successor f g)"
| "claim_step bytes (f, g) Read_claims = (f, load_claims f g)"

definition claims_wf :: "(string, claim_record) jmap \<Rightarrow> bool" where
  "claims_wf m \<longleftrightarrow> distinct (map fst m) \<and> (\<forall>e \<in> set m. record_id (snd e) = fst e)"

lemma claims_wf_set: "claims_wf m \<Longrightarrow> record_id r = k \<Longrightarrow> claims_wf (jset k r m)"
  by (auto simp: claims_wf_def dest!: in_set_jset)

lemma salvage_append: "salvage (xs @ ys) m = salvage ys (salvage xs m)"
  by (simp add: salvage_def)

lemma claims_wf_salvage: "claims_wf m \<Longrightarrow> claims_wf (salvage rs m)"
  by (induction rs arbitrary: m) (auto simp: salvage_def claims_wf_set split: option.splits)

lemma salvage_own: "claims_wf m \<Longrightarrow> salvage (map Some (jvals m)) [] = m"
proof (induction m rule: rev_induct)
  case (snoc e m)
  then have "claims_wf m" "record_id (snd e) = fst e" "fst e \<notin> fst ` set m" by (auto simp: claims_wf_def)
  then show ?case using snoc.IH jset_new [of "fst e" m "snd e"]
    by (simp add: jvals_def salvage_append) (simp add: salvage_def)
qed (simp add: salvage_def jvals_def)

lemma claims_wf_supersede: "claims_wf m \<Longrightarrow> claims_wf (supersede_record s now m k)"
proof -
  assume w: "claims_wf m"
  have "record_id r = k" if "map_of m k = Some r" for r
    using w map_of_SomeD [OF that] by (force simp: claims_wf_def)
  then show ?thesis using w
    by (auto simp: supersede_record_def record_id_def split: option.split intro!: claims_wf_set)
qed

lemma claims_wf_supersede_all: "claims_wf m \<Longrightarrow> claims_wf (foldl (supersede_record s now) m ks)"
  by (induction ks arbitrary: m) (auto simp: claims_wf_supersede)

text \<open>A graph is new or what loading its file gives.\<close>

definition in_step :: "claims_file \<Rightarrow> claim_graph \<Rightarrow> bool" where
  "in_step f g \<longleftrightarrow> claims_wf (kg_claims g) \<and> (g = newClaimGraph \<or> g = load_claims f newClaimGraph)"

lemma load_twice: "load_claims f (load_claims f g) = load_claims f g"
  by (auto simp: load_claims_def)

lemma load_in_step: "in_step f g \<Longrightarrow> load_claims f g = load_claims f newClaimGraph"
  by (auto simp: in_step_def load_twice)

lemma in_step_load: "in_step f g \<Longrightarrow> in_step f (load_claims f g)"
proof -
  assume "in_step f g"
  then have "load_claims f g = load_claims f newClaimGraph" by (rule load_in_step)
  moreover have "claims_wf (kg_claims (load_claims f newClaimGraph))"
    using claims_wf_salvage [of "[]"] by (auto simp: load_claims_def newClaimGraph_def claims_wf_def split: claims_file.split)
  ultimately show ?thesis by (simp add: in_step_def)
qed

lemma in_step_commit:
  assumes "in_step f g" "g1 = load_claims f g" "claims_wf claims"
    "commit_claims bytes writable f g1 claims x = (r, f', g')"
  shows "in_step f' g' \<and> (kg_failed g1 \<longrightarrow> f' = f)"
proof -
  have l: "kg_loaded g1" unfolding assms(2) load_claims_def by (auto split: claims_file.split)
  have "in_step (Claims_file (map Some (jvals claims))) (g1\<lparr>kg_claims := claims\<rparr>)" if "\<not> kg_failed g1"
    using that l assms(3) salvage_own [OF assms(3)]
    by (cases g1) (auto simp: in_step_def load_claims_def newClaimGraph_def)
  then show ?thesis using assms in_step_load [OF assms(1)]
    by (auto simp: commit_claims_def save_claims_def split: sum.splits if_splits)
qed

lemma claim_step_in_step:
  assumes "in_step f g" "claim_step bytes (f, g) op = (f', g')"
  shows "in_step f' g' \<and> (kg_failed (load_claims f newClaimGraph) \<longrightarrow> f' = f)"
proof -
  let ?g = "load_claims f g"
  have w: "claims_wf (kg_claims ?g)" using in_step_load [OF assms(1)] by (simp add: in_step_def)
  have l: "load_claims f newClaimGraph = ?g" using load_in_step [OF assms(1)] by simp
  show ?thesis
  proof (cases op)
    case (Upsert i now writable)
    obtain r c where r: "record_id r = ci_id i"
      "commit_claims bytes writable f ?g (jset (ci_id i) r (kg_claims ?g)) c = (fst (upsertClaim bytes writable now i f g), f', g')"
      using assms(2) Upsert by (simp add: upsertClaim_def Let_def record_id_def prod_eq_iff) (metis (no_types, lifting) claim.select_convs(1) claim_record.select_convs(1) prod.collapse)
    show ?thesis using in_step_commit [OF assms(1) refl claims_wf_set [OF w r(1)] r(2)] l by simp
  next
    case (Supersede k successor now writable)
    have "(f', g') = (f, ?g) \<or> (\<exists>a r. commit_claims bytes writable f ?g
        (foldl (supersede_record successor now) (kg_claims ?g) a) a = (r, f', g'))"
      using assms(2) Supersede
      by (auto simp: supersedeClaim_def Let_def prod_eq_iff split: option.splits if_splits)
    then show ?thesis
    proof
      assume "(f', g') = (f, ?g)"
      then show ?thesis using in_step_load [OF assms(1)] by simp
    next
      assume "\<exists>a r. commit_claims bytes writable f ?g
        (foldl (supersede_record successor now) (kg_claims ?g) a) a = (r, f', g')"
      then obtain a r where "commit_claims bytes writable f ?g
        (foldl (supersede_record successor now) (kg_claims ?g) a) a = (r, f', g')" by blast
      from in_step_commit [OF assms(1) refl claims_wf_supersede_all [OF w] this] l show ?thesis by simp
    qed
  next
    case Read_claims
    then show ?thesis using assms(2) in_step_load [OF assms(1)] by auto
  qed
qed

text \<open>
  C32: After any operations on a claim graph, with failing saves among them, a new graph that reads
  the file has the same claims as the one in memory; and a file that could not be understood at the
  beginning is never changed.
\<close>

theorem claims_memory_is_file:
  "case foldl (claim_step bytes) (f0, newClaimGraph) ops of (f, g) \<Rightarrow>
     load_claims f g = load_claims f newClaimGraph
     \<and> (if kg_failed (load_claims f0 newClaimGraph) then f = f0 else True)"
proof -
  have "in_step f g \<and> (kg_failed (load_claims f0 newClaimGraph) \<longrightarrow> f = f0)"
    if "foldl (claim_step bytes) (f0, newClaimGraph) ops = (f, g)" for f g
    using that
  proof (induction ops arbitrary: f g rule: rev_induct)
    case Nil
    then show ?case by (auto simp: in_step_def newClaimGraph_def claims_wf_def)
  next
    case (snoc op ops)
    obtain f1 g1 where 1: "foldl (claim_step bytes) (f0, newClaimGraph) ops = (f1, g1)" by fastforce
    then have "claim_step bytes (f1, g1) op = (f, g)" using snoc.prems by simp
    then show ?case using snoc.IH [OF 1] claim_step_in_step [of f1 g1 bytes op f g] by auto
  qed
  then show ?thesis using load_in_step by (auto split: prod.split)
qed

section \<open>Edges\<close>

text \<open>A claim that is superseded by one derived from it: the successor is made its own successor.\<close>

lemma successor_supersedes_itself:
  assumes "supersedeClaim bytes writable now claimId successor f g0 = (Inr affected, f', g')"
    "(claimId, successor) \<in> (derives (kg_claims (load_claims f g0)))\<^sup>*"
  shows "\<exists>r. map_of (kg_claims g') successor = Some r \<and> kr_superseded r \<and> kr_successor r = Some successor"
proof -
  have "map_of (kg_claims (load_claims f g0)) successor \<noteq> None"
    using assms(1) by (auto simp: supersedeClaim_def Let_def split: option.splits if_splits)
  moreover have "map_of (kg_claims g') successor =
      map_option (\<lambda>r. r\<lparr>kr_superseded := True, kr_successor := Some successor, kr_at := Some now\<rparr>)
        (map_of (kg_claims (load_claims f g0)) successor)"
  proof -
    have "affected = collectDescendants (kg_claims (load_claims f g0)) claimId"
      "kg_claims g' = foldl (supersede_record successor now) (kg_claims (load_claims f g0)) affected"
      using assms(1) by (auto simp: supersedeClaim_def commit_claims_def Let_def split: option.splits if_splits sum.splits)
    then show ?thesis using assms(2) collectDescendants_reachable by (simp add: supersede_fold_get)
  qed
  ultimately show ?thesis by auto
qed

text \<open>
  A file with some records that are malformed is loaded without a complaint and the next save drops
  them; a file that cannot be read counts as missing and is replaced.
\<close>

lemma malformed_records_dropped:
  "commit_claims bytes writable f g claims x = (Inr y, f', g') \<Longrightarrow> f' = Claims_file (map Some (jvals claims))"
  "\<not> kg_failed (load_claims (Claims_file [None, Some r]) newClaimGraph)"
  "\<not> kg_failed (load_claims Unreadable newClaimGraph)"
  by (auto simp: commit_claims_def save_claims_def load_claims_def newClaimGraph_def split: sum.splits if_splits)

text \<open>A graph that was loaded before another one wrote does not look at the file again.\<close>

lemma loaded_graph_is_stale: "kg_loaded g \<Longrightarrow> load_claims f g = g"
  by (simp add: load_claims_def)

end
