(* ===== verification/Research_Gain.thy ===== *)
theory Research_Gain
  imports Claim_Beliefs
begin

text \<open>
  \<open>src/research/director/eig\<close>: the next research actions by expected information gain per cost
  (\<open>estimate.ts\<close>, \<open>planner.ts\<close>), what a change of beliefs leaves of a plan (\<open>reconcile.ts\<close>) and the
  boost of principle revision by anomalies (\<open>anomalyDetector.ts\<close>). Numbers are exact rationals, so
  the guards against NaN are not needed; the texts of rationales and stop reasons are left out.
\<close>

section \<open>Estimates\<close>

datatype action_type =
    Run_experiment | Literature_search | Review_action | Write_section | Figure_generation | Principle_revision | Stop_action

record eig_action =
  ga_type :: action_type
  ga_claim :: "string option"
  ga_produces :: "string list"

record eig_estimate =
  ge_action :: eig_action
  ge_gain :: rat
  ge_cost :: rat
  ge_score :: rat

record eig_deps =
  gd_costs :: "action_type \<Rightarrow> rat option"
  gd_artifacts :: "string \<Rightarrow> rat option"

record eig_plan =
  gp_ranked :: "eig_estimate list"
  gp_stop :: bool

fun DEFAULT_GAIN_FACTORS :: "action_type \<Rightarrow> rat" where
  "DEFAULT_GAIN_FACTORS Run_experiment = 7 / 10"
| "DEFAULT_GAIN_FACTORS Literature_search = 35 / 100"
| "DEFAULT_GAIN_FACTORS Review_action = 4 / 10"
| "DEFAULT_GAIN_FACTORS Write_section = 0"
| "DEFAULT_GAIN_FACTORS Figure_generation = 1 / 10"
| "DEFAULT_GAIN_FACTORS Principle_revision = 1 / 2"
| "DEFAULT_GAIN_FACTORS Stop_action = 0"

fun DEFAULT_ACTION_COSTS :: "action_type \<Rightarrow> rat" where
  "DEFAULT_ACTION_COSTS Run_experiment = 10"
| "DEFAULT_ACTION_COSTS Literature_search = 2"
| "DEFAULT_ACTION_COSTS Review_action = 3"
| "DEFAULT_ACTION_COSTS Write_section = 4"
| "DEFAULT_ACTION_COSTS Figure_generation = 3"
| "DEFAULT_ACTION_COSTS Principle_revision = 8"
| "DEFAULT_ACTION_COSTS Stop_action = 0"

definition maturity_discount :: "nat \<Rightarrow> rat" where
  "maturity_discount evidenceCount = max (1 / 4) (1 - of_nat evidenceCount * (5 / 100))"

definition expected_gain :: "rat \<Rightarrow> rat \<Rightarrow> eig_action \<Rightarrow> belief option \<Rightarrow> rat" where
  "expected_gain gainFactor aggregate a c =
     (if ga_type a = Principle_revision then gainFactor * aggregate
      else case c of
        None \<Rightarrow> 0
      | Some b \<Rightarrow> if ga_type a = Write_section then 0
                  else bf_uncertainty b * gainFactor * maturity_discount (bf_count b))"

definition estimateEig ::
  "eig_action \<Rightarrow> belief option \<Rightarrow> eig_deps \<Rightarrow> (action_type \<Rightarrow> rat option) \<Rightarrow> rat option \<Rightarrow> eig_estimate" where
  "estimateEig a c deps gainFactors aggregateUncertainty =
     (let gainFactor = (case gainFactors (ga_type a) of None \<Rightarrow> DEFAULT_GAIN_FACTORS (ga_type a) | Some g \<Rightarrow> g);
          baseCost = (case gd_costs deps (ga_type a) of None \<Rightarrow> DEFAULT_ACTION_COSTS (ga_type a) | Some x \<Rightarrow> x);
          gain = expected_gain gainFactor (case aggregateUncertainty of None \<Rightarrow> 0 | Some u \<Rightarrow> u) a c;
          artifactCost = sum_list (map (\<lambda>k. case gd_artifacts deps k of None \<Rightarrow> 0 | Some x \<Rightarrow> x) (ga_produces a));
          costUnits = max (1 / 2) (baseCost + artifactCost)
      in \<lparr>ge_action = a, ge_gain = gain, ge_cost = costUnits, ge_score = gain / costUnits\<rparr>)"

section \<open>The plan\<close>

definition DEFAULT_STOP_SCORE_THRESHOLD :: rat where
  "DEFAULT_STOP_SCORE_THRESHOLD = 5 / 1000"

definition CLAIM_ACTION_TYPES :: "action_type list" where
  "CLAIM_ACTION_TYPES = [Run_experiment, Literature_search, Review_action]"

fun producesFor :: "action_type \<Rightarrow> string list" where
  "producesFor Run_experiment = [''run_attempt'', ''metric_observation'']"
| "producesFor Literature_search = [''evidence_pack'']"
| "producesFor Review_action = [''finding'']"
| "producesFor _ = []"

record eig_options =
  go_threshold :: "rat option"
  go_max :: "nat option"
  go_per_claim :: "nat option"

definition plan_active :: "belief list \<Rightarrow> belief list" where
  "plan_active beliefs = filter (\<lambda>b. bf_status b = Claim_active) beliefs"

definition claim_action :: "belief \<Rightarrow> action_type \<Rightarrow> eig_action" where
  "claim_action b t = \<lparr>ga_type = t, ga_claim = Some (bf_claim b), ga_produces = producesFor t\<rparr>"

definition aggregate_uncertainty :: "belief list \<Rightarrow> rat" where
  "aggregate_uncertainty active =
     (if active = [] then 0 else sum_list (map bf_uncertainty active) / of_nat (length active))"

definition plan_candidates :: "eig_deps \<Rightarrow> belief list \<Rightarrow> eig_estimate list" where
  "plan_candidates deps beliefs =
     concat (map (\<lambda>b. map (\<lambda>t. estimateEig (claim_action b t) (Some b) deps (\<lambda>_. None) None) CLAIM_ACTION_TYPES)
               (plan_active beliefs))
     @ [estimateEig \<lparr>ga_type = Principle_revision, ga_claim = None, ga_produces = []\<rparr> None deps (\<lambda>_. None)
          (Some (aggregate_uncertainty (plan_active beliefs)))]"

definition by_score :: "eig_estimate \<Rightarrow> eig_estimate \<Rightarrow> bool" where
  "by_score a b \<longleftrightarrow> ge_score b \<le> ge_score a"

text \<open>The loop adds an estimate and then looks whether it has enough.\<close>

fun select_batch :: "nat \<Rightarrow> nat \<Rightarrow> (string \<Rightarrow> nat) \<Rightarrow> nat \<Rightarrow> eig_estimate list \<Rightarrow> eig_estimate list" where
  "select_batch maxActions perClaimMax perClaim n [] = []"
| "select_batch maxActions perClaimMax perClaim n (e # es) =
     (case ga_claim (ge_action e) of
        Some c \<Rightarrow>
          if perClaimMax \<le> perClaim c then select_batch maxActions perClaimMax perClaim n es
          else e # (if maxActions \<le> Suc n then []
                    else select_batch maxActions perClaimMax (perClaim(c := perClaim c + 1)) (Suc n) es)
      | None \<Rightarrow> e # (if maxActions \<le> Suc n then [] else select_batch maxActions perClaimMax perClaim (Suc n) es))"

definition top_score :: "eig_estimate list \<Rightarrow> rat" where
  "top_score es = (case es of [] \<Rightarrow> 0 | e # _ \<Rightarrow> ge_score e)"

definition planByInformationGain :: "belief list \<Rightarrow> eig_options \<Rightarrow> eig_deps \<Rightarrow> eig_plan" where
  "planByInformationGain beliefs opts deps =
     (let ranked = sort_by by_score (filter (\<lambda>e. 0 < ge_gain e) (plan_candidates deps beliefs));
          selected = select_batch (case go_max opts of None \<Rightarrow> 6 | Some n \<Rightarrow> n)
            (case go_per_claim opts of None \<Rightarrow> 1 | Some n \<Rightarrow> n) (\<lambda>_. 0) 0 ranked
      in \<lparr>gp_ranked = selected,
          gp_stop = (top_score selected < (case go_threshold opts of None \<Rightarrow> DEFAULT_STOP_SCORE_THRESHOLD | Some t \<Rightarrow> t))\<rparr>)"

section \<open>Reconciliation\<close>

datatype revision_target = Moved_to claim_status | Removed_claim

record belief_revision =
  rv_claim :: string
  rv_from :: claim_status
  rv_to :: revision_target

record reconciled_plan =
  rp_plan :: eig_plan
  rp_revisions :: "belief_revision list"
  rp_backtracking :: bool
  rp_next :: "(action_type \<times> string option) option"

fun isDowngrade :: "claim_status \<Rightarrow> claim_status \<Rightarrow> bool" where
  "isDowngrade Claim_superseded _ = False"
| "isDowngrade Claim_falsified _ = False"
| "isDowngrade from to = (to = Claim_superseded \<or> to = Claim_falsified \<or> (from = Claim_active \<and> to = Claim_challenged))"

definition beliefs_by_claim :: "belief list \<Rightarrow> (string, belief) jmap" where
  "beliefs_by_claim bs = of_keys bf_claim bs"

definition status_revisions :: "belief list \<Rightarrow> belief list \<Rightarrow> belief_revision list" where
  "status_revisions current previous = List.map_filter (\<lambda>b. case jget (beliefs_by_claim previous) (bf_claim b) of
     None \<Rightarrow> None
   | Some p \<Rightarrow> if bf_status p = bf_status b then None
               else Some \<lparr>rv_claim = bf_claim b, rv_from = bf_status p, rv_to = Moved_to (bf_status b)\<rparr>) current"

definition removed_revisions :: "belief list \<Rightarrow> belief list \<Rightarrow> belief_revision list" where
  "removed_revisions current previous =
     map (\<lambda>p. \<lparr>rv_claim = bf_claim p, rv_from = bf_status p, rv_to = Removed_claim\<rparr>)
       (filter (\<lambda>p. jget (beliefs_by_claim current) (bf_claim p) = None) previous)"

definition reconcileWithBeliefs ::
  "belief list \<Rightarrow> belief list option \<Rightarrow> eig_plan \<Rightarrow> rat option \<Rightarrow> reconciled_plan" where
  "reconcileWithBeliefs current previous0 plan threshold =
     (let previous = (case previous0 of None \<Rightarrow> [] | Some bs \<Rightarrow> bs);
          moved = status_revisions current previous;
          removed = removed_revisions current previous;
          activeIds = map bf_claim (plan_active current);
          ranked = filter (\<lambda>e. case ga_claim (ge_action e) of None \<Rightarrow> True | Some c \<Rightarrow> c \<in> set activeIds) (gp_ranked plan);
          stop = (ranked = [] \<or> top_score ranked < (case threshold of None \<Rightarrow> 5 / 1000 | Some t \<Rightarrow> t) \<or> gp_stop plan)
      in \<lparr>rp_plan = \<lparr>gp_ranked = ranked, gp_stop = stop\<rparr>, rp_revisions = moved @ removed,
          rp_backtracking = (list_ex (\<lambda>r. case rv_to r of Moved_to s \<Rightarrow> isDowngrade (rv_from r) s | _ \<Rightarrow> False) moved
            \<or> list_ex (\<lambda>r. rv_from r \<in> {Claim_active, Claim_challenged}) removed),
          rp_next = (case ranked of [] \<Rightarrow> None | e # _ \<Rightarrow> Some (ga_type (ge_action e), ga_claim (ge_action e)))\<rparr>)"

section \<open>Anomalies\<close>

record anomaly =
  an_score :: rat
  an_detected :: bool
  an_count :: nat
  an_supports :: rat
  an_challenges :: rat

definition detectAnomaly :: "belief list \<Rightarrow> rat option \<Rightarrow> nat option \<Rightarrow> anomaly" where
  "detectAnomaly beliefs threshold minClaims =
     (let s = sum_list (map bf_supports beliefs); c = sum_list (map bf_challenges beliefs);
          n = length (filter (\<lambda>b. bf_status b \<in> {Claim_challenged, Claim_falsified}) beliefs);
          score = (if 0 < s + c then c / (s + c) else 0)
      in \<lparr>an_score = score,
          an_detected = ((case minClaims of None \<Rightarrow> 2 | Some k \<Rightarrow> k) \<le> n
            \<and> (case threshold of None \<Rightarrow> 1 / 2 | Some t \<Rightarrow> t) \<le> score),
          an_count = n, an_supports = s, an_challenges = c\<rparr>)"

definition principleRevisionBoost :: "anomaly \<Rightarrow> rat" where
  "principleRevisionBoost a = (if \<not> an_detected a then 1 else 1 + 3 * an_score a)"

definition boost_estimate :: "rat \<Rightarrow> eig_estimate \<Rightarrow> eig_estimate" where
  "boost_estimate boost e =
     (if ga_type (ge_action e) \<noteq> Principle_revision then e
      else e\<lparr>ge_gain := ge_gain e * boost, ge_score := ge_score e * boost\<rparr>)"

definition applyAnomalyBoost :: "eig_plan \<Rightarrow> anomaly \<Rightarrow> rat \<Rightarrow> eig_plan" where
  "applyAnomalyBoost plan a threshold =
     (if \<not> an_detected a then plan
      else let sorted = sort_by by_score (map (boost_estimate (principleRevisionBoost a)) (gp_ranked plan))
           in \<lparr>gp_ranked = sorted, gp_stop = (gp_stop plan \<and> top_score sorted < threshold)\<rparr>)"

section \<open>What a plan takes\<close>

lemma by_score_total: "total_preorder by_score"
  by (auto simp: total_preorder_def by_score_def)

lemma select_batch_set: "set (select_batch m p f n es) \<subseteq> set es"
proof (induction es arbitrary: f n)
  case (Cons e es)
  have "set (select_batch m p f' n' es) \<subseteq> insert e (set es)" for f' n' using Cons.IH by blast
  then show ?case by (auto split: option.split)
qed simp

lemma select_batch_sorted: "sorted_wrt P es \<Longrightarrow> sorted_wrt P (select_batch m p f n es)"
proof (induction es arbitrary: f n)
  case (Cons e es)
  have "sorted_wrt P (select_batch m p f' n' es)" "\<forall>x \<in> set (select_batch m p f' n' es). P e x" for f' n'
    using Cons select_batch_set [of m p f' n' es] by auto
  then show ?case by (auto split: option.split)
qed simp

lemma select_batch_length: "length (select_batch m p f n es) \<le> max 1 (m - n)"
proof (induction es arbitrary: f n)
  case (Cons e es)
  have "\<not> m \<le> Suc n \<Longrightarrow> Suc (length (select_batch m p f' (Suc n) es)) \<le> m - n" for f'
    using Cons.IH [of f' "Suc n"] by simp
  then show ?case using Cons.IH [of f n] by (auto split: option.split)
qed simp

lemma select_batch_per_claim:
  "length (filter (\<lambda>e. ga_claim (ge_action e) = Some c) (select_batch m p f n es)) \<le> p - f c"
proof (induction es arbitrary: f n)
  case (Cons e es)
  have i: "length (filter (\<lambda>e. ga_claim (ge_action e) = Some c) (select_batch m p f' n' es)) \<le> p - f' c" for f' n'
    by (rule Cons.IH)
  show ?case
  proof (cases "ga_claim (ge_action e) = Some c")
    case True
    then show ?thesis using i [of f n] i [of "f(c := f c + 1)" "Suc n"] by (cases "p \<le> f c") auto
  next
    case False
    have "length (filter (\<lambda>e. ga_claim (ge_action e) = Some c) (select_batch m p (f(d := f d + 1)) (Suc n) es)) \<le> p - f c"
      if "d \<noteq> c" for d using i [of "f(d := f d + 1)" "Suc n"] that by simp
    then show ?thesis using False i [of f n] i [of f "Suc n"] by (auto split: option.split)
  qed
qed simp

lemma select_batch_first: "0 < p \<Longrightarrow> es \<noteq> [] \<Longrightarrow> \<exists>r. select_batch m p (\<lambda>_. 0) n es = hd es # r"
  by (cases es) (auto split: option.splits)

lemma candidates_active:
  "e \<in> set (plan_candidates deps beliefs) \<Longrightarrow> ga_claim (ge_action e) = None
     \<or> (\<exists>b \<in> set beliefs. bf_status b = Claim_active \<and> ga_claim (ge_action e) = Some (bf_claim b))"
  by (auto simp: plan_candidates_def estimateEig_def claim_action_def plan_active_def Let_def)

lemma estimate_score_pos: "0 < ge_gain (estimateEig a c deps gf u) \<Longrightarrow> 0 < ge_score (estimateEig a c deps gf u)"
  by (simp add: estimateEig_def Let_def less_max_iff_disj)


text \<open>
  When no claim is active, however strongly the evidence speaks against the claims, the plan is
  empty and says to stop, and the boost for a revision of the principles has nothing to boost.
\<close>

lemma anomaly_cannot_revise:
  assumes "list_all (\<lambda>b. bf_status b \<noteq> Claim_active) beliefs" "go_threshold opts = None"
  shows "let p = planByInformationGain beliefs opts deps in
     p = \<lparr>gp_ranked = [], gp_stop = True\<rparr> \<and> applyAnomalyBoost p (detectAnomaly beliefs d k) DEFAULT_STOP_SCORE_THRESHOLD = p"
proof -
  have "plan_active beliefs = []" using assms(1) by (induction beliefs) (auto simp: plan_active_def)
  then have "filter (\<lambda>e. 0 < ge_gain e) (plan_candidates deps beliefs) = []"
    by (simp add: plan_candidates_def estimateEig_def expected_gain_def aggregate_uncertainty_def Let_def)
  then have "planByInformationGain beliefs opts deps = \<lparr>gp_ranked = [], gp_stop = True\<rparr>"
    using assms(2) by (simp add: planByInformationGain_def sort_by_def top_score_def DEFAULT_STOP_SCORE_THRESHOLD_def)
  then show ?thesis by (simp add: applyAnomalyBoost_def sort_by_def top_score_def DEFAULT_STOP_SCORE_THRESHOLD_def)
qed

text \<open>What a change of beliefs leaves of a plan is in order and for claims that are still active.\<close>

lemma reconciled_valid:
  "let r = reconcileWithBeliefs current previous plan threshold in
     subseq (gp_ranked (rp_plan r)) (gp_ranked plan)
     \<and> list_all (\<lambda>e. case ga_claim (ge_action e) of None \<Rightarrow> True
          | Some c \<Rightarrow> \<exists>b \<in> set current. bf_status b = Claim_active \<and> bf_claim b = c) (gp_ranked (rp_plan r))
     \<and> (gp_stop plan \<longrightarrow> gp_stop (rp_plan r))"
  by (auto simp: reconcileWithBeliefs_def Let_def list_all_iff plan_active_def subseq_filter_left split: option.splits)

text \<open>At least one action is planned even when none is allowed.\<close>

lemma one_action_too_many: "0 < p \<Longrightarrow> es \<noteq> [] \<Longrightarrow> select_batch 0 p (\<lambda>_. 0) n es \<noteq> []"
  by (cases es) (auto split: option.splits)

end
