(* ===== verification/Claim_Samples.thy ===== *)
theory Claim_Samples
  imports Claim_Graph Research_Gain
begin

text \<open>Claims, evidence and plans on concrete inputs: the witnesses of the properties about claims.\<close>

definition claim_of :: "string \<Rightarrow> string list \<Rightarrow> claim" where
  "claim_of i parents = \<lparr>cl_id = i, cl_statement = ''statement'', cl_falsification = None,
     cl_parents = Some parents, cl_source = None, cl_created = ''then''\<rparr>"

definition record_of :: "string \<Rightarrow> string list \<Rightarrow> claim_record option" where
  "record_of i parents = Some \<lparr>kr_claim = claim_of i parents, kr_superseded = False, kr_successor = None, kr_at = None\<rparr>"

text \<open>A claim, one derived from it, one derived from that, and an independent one.\<close>

definition four_claims :: claims_file where
  "four_claims = Claims_file [record_of ''a'' [], record_of ''b'' [''a''], record_of ''c'' [''b''], record_of ''d'' []]"

lemmas claim_run_defs = four_claims_def record_of_def claim_of_def newClaimGraph_def load_claims_def salvage_def record_id_def

lemma four_claims_loaded: "map_of (kg_claims (load_claims four_claims newClaimGraph)) =
    [''a'' \<mapsto> the (record_of ''a'' []), ''b'' \<mapsto> the (record_of ''b'' [''a'']), ''c'' \<mapsto> the (record_of ''c'' [''b'']),
     ''d'' \<mapsto> the (record_of ''d'' [])]"
  by (auto simp: claim_run_defs fun_eq_iff)

lemma four_claims_derive:
  "(''a'', ''c'') \<in> (derives (kg_claims (load_claims four_claims newClaimGraph)))\<^sup>*"
proof -
  have "(''a'', ''b'') \<in> derives (kg_claims (load_claims four_claims newClaimGraph))"
    "(''b'', ''c'') \<in> derives (kg_claims (load_claims four_claims newClaimGraph))"
    by (force simp: derives_def claim_run_defs jvals_def claim_parents_def)+
  then show ?thesis by (rule rtrancl_into_rtrancl [OF r_into_rtrancl])
qed

lemma four_claims_superseded:
  "\<exists>affected f' g'. supersedeClaim (\<lambda>_. 0) True ''now'' ''a'' s four_claims newClaimGraph = (Inr affected, f', g')"
  if "s \<in> {''b'', ''c'', ''d''}"
  using that by (auto simp: supersedeClaim_def four_claims_loaded Let_def commit_claims_def save_claims_def)
    (auto simp: claim_run_defs)

theorem supersede_exactly_descendants_witness:
  "\<exists>affected f' g'. supersedeClaim (\<lambda>_. 0) True ''now'' ''a'' ''d'' four_claims newClaimGraph = (Inr affected, f', g')
     \<and> map_option kr_successor (map_of (kg_claims g') ''c'') = Some (Some ''d'')"
proof -
  obtain affected f' g' where s: "supersedeClaim (\<lambda>_. 0) True ''now'' ''a'' ''d'' four_claims newClaimGraph = (Inr affected, f', g')"
    using four_claims_superseded [of "''d''"] by auto
  from supersede_exactly_descendants [OF s] have "map_option kr_successor (map_of (kg_claims g') ''c'') = Some (Some ''d'')"
    using four_claims_derive by (simp add: Let_def four_claims_loaded)
  with s show ?thesis by blast
qed

text \<open>Superseded by the claim derived from it: the successor of \<open>c\<close> is \<open>c\<close>.\<close>

lemma claim_succeeds_itself:
  "\<exists>affected f' g'. supersedeClaim (\<lambda>_. 0) True ''now'' ''a'' ''c'' four_claims newClaimGraph = (Inr affected, f', g')
     \<and> (\<exists>r. map_of (kg_claims g') ''c'' = Some r \<and> kr_successor r = Some ''c'')"
proof -
  obtain affected f' g' where s: "supersedeClaim (\<lambda>_. 0) True ''now'' ''a'' ''c'' four_claims newClaimGraph = (Inr affected, f', g')"
    using four_claims_superseded [of "''c''"] by auto
  from successor_supersedes_itself [OF s four_claims_derive] s show ?thesis by blast
qed

definition belief_in :: "string \<Rightarrow> claim_status \<Rightarrow> rat \<Rightarrow> belief" where
  "belief_in i s u = \<lparr>bf_claim = i, bf_status = s, bf_confidence = 1 / 2, bf_uncertainty = u, bf_supports = 0,
     bf_challenges = 1, bf_count = 0\<rparr>"

definition no_deps :: eig_deps where
  "no_deps = \<lparr>gd_costs = (\<lambda>_. None), gd_artifacts = (\<lambda>_. None)\<rparr>"


theorem anomaly_cannot_revise_witness:
  "let bs = [belief_in ''a'' Claim_falsified 1, belief_in ''b'' Claim_challenged 1];
       p = planByInformationGain bs \<lparr>go_threshold = None, go_max = None, go_per_claim = None\<rparr> no_deps in
     an_detected (detectAnomaly bs None None) \<and> an_score (detectAnomaly bs None None) = 1
     \<and> gp_ranked (applyAnomalyBoost p (detectAnomaly bs None None) DEFAULT_STOP_SCORE_THRESHOLD) = []"
proof -
  let ?bs = "[belief_in ''a'' Claim_falsified 1, belief_in ''b'' Claim_challenged 1]"
  have "an_detected (detectAnomaly ?bs None None) \<and> an_score (detectAnomaly ?bs None None) = 1"
    by (simp add: detectAnomaly_def belief_in_def Let_def)
  then show ?thesis
    using anomaly_cannot_revise [of ?bs "\<lparr>go_threshold = None, go_max = None, go_per_claim = None\<rparr>" no_deps None None]
    unfolding Let_def by (auto simp: belief_in_def [of _ Claim_falsified] belief_in_def [of _ Claim_challenged] simp del: One_nat_def)
qed

end
