(* ===== verification/File_History.thy ===== *)
theory File_History
  imports Prelude "HOL-Library.Multiset" "HOL-Library.Sublist"
begin

text \<open>
  \<open>src/session/filesystem\<close>: the history of the files that an agent edits. Before an edit the file is
  copied into the backup directory of the session under a name made of a hash of its path and a
  version; a snapshot per message names the copies, and a rewind to the message puts them back.
  Paths are absolute and lie outside the backup directory. The hash is a parameter. Operations are
  atomic, as the mutex of the store makes them, but for the time of modification of a tracked file,
  which is read some time after the call has returned. Warnings are left out; file systems are POSIX.
\<close>

section \<open>Files\<close>

text \<open>A regular file has its bytes, its permission bits, its time of modification and whether it can be read.\<close>

datatype file_node = Regular string nat int bool | Directory int | Denied

record file_disk =
  dk_files :: "string \<Rightarrow> file_node option"
  dk_backups :: "string \<Rightarrow> (string \<times> nat) option"

datatype fs_error = Stat_failed | Copy_failed | Unlink_failed | No_snapshot string

fun mtime_of :: "file_node option \<Rightarrow> (fs_error, int option) result" where
  "mtime_of None = Inr None"
| "mtime_of (Some (Regular content mode t readable)) = Inr (Some t)"
| "mtime_of (Some (Directory t)) = Inr (Some t)"
| "mtime_of (Some Denied) = Inl Stat_failed"

section \<open>Backups\<close>

record backup =
  fb_name :: "string option"
  fb_version :: nat
  fb_time :: int
  fb_mode :: "nat option"

definition getBackupFileName :: "(string \<Rightarrow> string) \<Rightarrow> string \<Rightarrow> nat \<Rightarrow> string" where
  "getBackupFileName sha16 filePath version = sha16 filePath @ ''@v'' @ show_nat version"

fun parseBackupVersion :: "string \<Rightarrow> nat option" where
  "parseBackupVersion [] = None"
| "parseBackupVersion (c # cs) =
     (if take 2 (c # cs) = ''@v'' \<and> drop 2 (c # cs) \<noteq> [] \<and> list_all is_digit (drop 2 (c # cs))
      then let v = read_nat (drop 2 (c # cs)) in if v < 2 ^ 53 then Some v else None
      else parseBackupVersion cs)"

text \<open>The type bits of the mode of a regular file.\<close>

definition stat_mode :: "nat \<Rightarrow> nat" where
  "stat_mode mode = 32768 + mode"

lemma stat_mode_mod [simp]: "stat_mode mode mod 512 = mode mod 512"
  using mod_mult_self3 [of 64 512 mode] by (simp add: stat_mode_def)

definition null_backup :: "nat \<Rightarrow> int \<Rightarrow> backup" where
  "null_backup version now = \<lparr>fb_name = None, fb_version = version, fb_time = now, fb_mode = None\<rparr>"

text \<open>The backup with whether the file was too large, and the disk.\<close>

definition createBackup ::
  "(string \<Rightarrow> string) \<Rightarrow> nat \<Rightarrow> string \<Rightarrow> nat \<Rightarrow> int \<Rightarrow> file_disk \<Rightarrow> (fs_error, backup \<times> bool) result \<times> file_disk" where
  "createBackup sha16 cap filePath version now d =
     (case dk_files d filePath of
        None \<Rightarrow> (Inr (null_backup version now, False), d)
      | Some Denied \<Rightarrow> (Inl Stat_failed, d)
      | Some (Directory t) \<Rightarrow> (Inr (null_backup version now, False), d)
      | Some (Regular content mode t readable) \<Rightarrow>
          if cap < length content then (Inr (null_backup version now, True), d)
          else if \<not> readable then (Inl Copy_failed, d)
          else let n = getBackupFileName sha16 filePath version
               in (Inr (\<lparr>fb_name = Some n, fb_version = version, fb_time = now, fb_mode = Some (stat_mode mode)\<rparr>, False),
                   d\<lparr>dk_backups := (dk_backups d)(n \<mapsto> (content, mode mod 512))\<rparr>))"

datatype restore_outcome = Restored | Deleted | Missing

definition restoreBackup :: "string \<Rightarrow> backup \<Rightarrow> int \<Rightarrow> file_disk \<Rightarrow> (fs_error, restore_outcome) result \<times> file_disk" where
  "restoreBackup filePath b now d =
     (case fb_name b of
        None \<Rightarrow>
          (case dk_files d filePath of
             None \<Rightarrow> (Inr Deleted, d)
           | Some (Regular content mode t readable) \<Rightarrow> (Inr Deleted, d\<lparr>dk_files := (dk_files d)(filePath := None)\<rparr>)
           | Some _ \<Rightarrow> (Inl Unlink_failed, d))
      | Some n \<Rightarrow>
          (case dk_backups d n of
             None \<Rightarrow> (Inr Missing, d)
           | Some (content, copied) \<Rightarrow>
               let put = (\<lambda>mode. (Inr Restored, d\<lparr>dk_files := (dk_files d)(filePath \<mapsto>
                     Regular content (case fb_mode b of None \<Rightarrow> mode | Some m \<Rightarrow> m mod 512) now True)\<rparr>))
               in (case dk_files d filePath of
                     None \<Rightarrow> put copied
                   | Some (Regular old mode t readable) \<Rightarrow> put mode
                   | Some _ \<Rightarrow> (Inl Copy_failed, d))))"

section \<open>The store\<close>

record file_snapshot =
  sn_message :: string
  sn_backups :: "(string, backup) jmap"
  sn_time :: int

datatype record_kind = Create_record | Update_record

text \<open>
  The times of modification that are cached (not yet, no file, a time), the files whose time is still
  to be cached, and the snapshots that were recorded in the transcript.
\<close>

record history =
  fh_snapshots :: "file_snapshot list"
  fh_tracked :: "string list"
  fh_mtimes :: "string \<Rightarrow> int option option"
  fh_pending :: "string list"
  fh_log :: "(file_snapshot \<times> record_kind) list"
  fh_disk :: file_disk

record history_options =
  ho_cap :: nat
  ho_max :: nat

definition newHistory :: "file_disk \<Rightarrow> history" where
  "newHistory d = \<lparr>fh_snapshots = [], fh_tracked = [], fh_mtimes = (\<lambda>_. None), fh_pending = [], fh_log = [], fh_disk = d\<rparr>"

definition findSnapshot :: "string \<Rightarrow> file_snapshot list \<Rightarrow> file_snapshot option" where
  "findSnapshot m ss = List.find (\<lambda>s. sn_message s = m) (rev ss)"

text \<open>A snapshot that is changed where it stands, or added at the end.\<close>

fun replace_newest :: "file_snapshot \<Rightarrow> file_snapshot list \<Rightarrow> file_snapshot list" where
  "replace_newest s [] = []"
| "replace_newest s (x # xs) = (if sn_message x = sn_message s then s # xs else x # replace_newest s xs)"

definition put_snapshot :: "file_snapshot \<Rightarrow> file_snapshot list \<Rightarrow> file_snapshot list" where
  "put_snapshot s ss = (case findSnapshot (sn_message s) ss of None \<Rightarrow> ss @ [s] | Some _ \<Rightarrow> rev (replace_newest s (rev ss)))"

definition findPreviousSnapshot :: "string \<Rightarrow> file_snapshot list \<Rightarrow> file_snapshot option" where
  "findPreviousSnapshot m ss =
     (case dropWhile (\<lambda>s. sn_message s \<noteq> m) (rev ss) of
        [] \<Rightarrow> (case rev ss of [] \<Rightarrow> None | s # _ \<Rightarrow> Some s)
      | _ # [] \<Rightarrow> None
      | _ # s # _ \<Rightarrow> Some s)"

definition recordTranscript :: "file_snapshot \<Rightarrow> record_kind \<Rightarrow> history \<Rightarrow> history" where
  "recordTranscript s kind h = h\<lparr>fh_log := fh_log h @ [(s, kind)]\<rparr>"

definition getOrCreateOpenSnapshot :: "string \<Rightarrow> int \<Rightarrow> history \<Rightarrow> file_snapshot \<times> history" where
  "getOrCreateOpenSnapshot m now h =
     (case findSnapshot m (fh_snapshots h) of
        Some s \<Rightarrow> (s, h)
      | None \<Rightarrow> let s = \<lparr>sn_message = m, sn_backups = [], sn_time = now\<rparr>
                in (s, h\<lparr>fh_snapshots := fh_snapshots h @ [s]\<rparr>))"

definition trackEdit ::
  "(string \<Rightarrow> string) \<Rightarrow> history_options \<Rightarrow> string \<Rightarrow> string \<Rightarrow> int \<Rightarrow> history \<Rightarrow> (fs_error, unit) result \<times> history" where
  "trackEdit sha16 opts absPath m now h0 =
     (let (s, h) = getOrCreateOpenSnapshot m now (h0\<lparr>fh_tracked := sadd absPath (fh_tracked h0)\<rparr>) in
      if jget (sn_backups s) absPath \<noteq> None then (Inr (), h)
      else case createBackup sha16 (ho_cap opts) absPath 1 now (fh_disk h) of
        (Inl e, d) \<Rightarrow> (Inl e, h\<lparr>fh_disk := d\<rparr>)
      | (Inr (b, oversize), d) \<Rightarrow>
          let s' = s\<lparr>sn_backups := jset absPath b (sn_backups s)\<rparr>
          in (Inr (), recordTranscript s' Update_record
               (h\<lparr>fh_disk := d, fh_snapshots := put_snapshot s' (fh_snapshots h), fh_pending := fh_pending h @ [absPath]\<rparr>)))"

definition cacheMtime :: "string \<Rightarrow> history \<Rightarrow> history" where
  "cacheMtime filePath h =
     (if filePath \<notin> set (fh_pending h) then h
      else h\<lparr>fh_pending := remove1 filePath (fh_pending h),
             fh_mtimes := (fh_mtimes h)(filePath \<mapsto>
               (case mtime_of (dk_files (fh_disk h) filePath) of Inl _ \<Rightarrow> None | Inr t \<Rightarrow> t))\<rparr>)"

section \<open>Snapshots\<close>

text \<open>One tracked file of a snapshot under way, which the history does not yet hold.\<close>

definition snapshot_file ::
  "(string \<Rightarrow> string) \<Rightarrow> history_options \<Rightarrow> file_snapshot option \<Rightarrow> int \<Rightarrow> string \<Rightarrow> file_snapshot \<times> history
     \<Rightarrow> fs_error option \<times> file_snapshot \<times> history" where
  "snapshot_file sha16 opts prev now absPath sh =
     (let (s, h) = sh in
      case mtime_of (dk_files (fh_disk h) absPath) of
        Inl e \<Rightarrow> (Some e, s, h)
      | Inr currentMtime \<Rightarrow>
          let previousBackup = (case jget (sn_backups s) absPath of
                Some b \<Rightarrow> Some b
              | None \<Rightarrow> (case prev of None \<Rightarrow> None | Some q \<Rightarrow> jget (sn_backups q) absPath))
          in if fh_mtimes h absPath = Some currentMtime \<and> previousBackup \<noteq> None
             then (None, (if jget (sn_backups s) absPath = None
                          then s\<lparr>sn_backups := jset absPath (the previousBackup) (sn_backups s)\<rparr> else s), h)
             else case createBackup sha16 (ho_cap opts) absPath
                    ((case previousBackup of None \<Rightarrow> 0 | Some b \<Rightarrow> fb_version b) + 1) now (fh_disk h) of
               (Inl e, d) \<Rightarrow> (Some e, s, h\<lparr>fh_disk := d\<rparr>)
             | (Inr (b, oversize), d) \<Rightarrow>
                 (None, s\<lparr>sn_backups := jset absPath b (sn_backups s)\<rparr>,
                  h\<lparr>fh_disk := d, fh_mtimes := (fh_mtimes h)(absPath \<mapsto> currentMtime)\<rparr>))"

fun snapshot_files ::
  "(string \<Rightarrow> string) \<Rightarrow> history_options \<Rightarrow> file_snapshot option \<Rightarrow> int \<Rightarrow> string list \<Rightarrow> file_snapshot \<times> history
     \<Rightarrow> fs_error option \<times> file_snapshot \<times> history" where
  "snapshot_files sha16 opts prev now [] sh = (None, sh)"
| "snapshot_files sha16 opts prev now (p # ps) sh =
     (case snapshot_file sha16 opts prev now p sh of
        (Some e, sh') \<Rightarrow> (Some e, sh')
      | (None, sh') \<Rightarrow> snapshot_files sha16 opts prev now ps sh')"

definition drop_backup :: "file_snapshot list \<Rightarrow> file_disk \<Rightarrow> backup \<Rightarrow> file_disk" where
  "drop_backup remaining d b =
     (case fb_name b of
        None \<Rightarrow> d
      | Some n \<Rightarrow>
          if list_ex (\<lambda>s. list_ex (\<lambda>b. fb_name b = Some n) (jvals (sn_backups s))) remaining then d
          else d\<lparr>dk_backups := (dk_backups d)(n := None)\<rparr>)"

fun evictIfNeeded :: "nat \<Rightarrow> file_snapshot list \<Rightarrow> file_disk \<Rightarrow> file_snapshot list \<times> file_disk" where
  "evictIfNeeded maxSnapshots [] d = ([], d)"
| "evictIfNeeded maxSnapshots (s # ss) d =
     (if length (s # ss) \<le> maxSnapshots then (s # ss, d)
      else evictIfNeeded maxSnapshots ss (foldl (drop_backup ss) d (jvals (sn_backups s))))"

definition makeSnapshot ::
  "(string \<Rightarrow> string) \<Rightarrow> history_options \<Rightarrow> string \<Rightarrow> int \<Rightarrow> history \<Rightarrow> (fs_error, unit) result \<times> history" where
  "makeSnapshot sha16 opts m now h0 =
     (let existing = findSnapshot m (fh_snapshots h0);
          s0 = (case existing of Some s \<Rightarrow> s | None \<Rightarrow> \<lparr>sn_message = m, sn_backups = [], sn_time = now\<rparr>)
      in case snapshot_files sha16 opts (findPreviousSnapshot m (fh_snapshots h0)) now (fh_tracked h0) (s0, h0) of
           (Some e, s, h) \<Rightarrow>
             (Inl e, if existing = None then h else h\<lparr>fh_snapshots := put_snapshot s (fh_snapshots h)\<rparr>)
         | (None, s, h) \<Rightarrow>
             let h1 = recordTranscript s (if existing = None then Create_record else Update_record)
                   (h\<lparr>fh_snapshots := put_snapshot s (fh_snapshots h)\<rparr>);
                 (ss, d) = evictIfNeeded (ho_max opts) (fh_snapshots h1) (fh_disk h1)
             in (Inr (), h1\<lparr>fh_snapshots := ss, fh_disk := d\<rparr>))"

section \<open>Going back\<close>

text \<open>The files changed and those whose backup is missing; an error ends the loop where it is.\<close>

fun restore_all ::
  "int \<Rightarrow> (string \<times> backup) list \<Rightarrow> (string list \<times> string list) \<Rightarrow> file_disk
     \<Rightarrow> (fs_error, string list \<times> string list) result \<times> file_disk" where
  "restore_all now [] r d = (Inr r, d)"
| "restore_all now ((p, b) # es) r d =
     (case restoreBackup p b now d of
        (Inl e, d') \<Rightarrow> (Inl e, d')
      | (Inr Missing, d') \<Rightarrow> restore_all now es (fst r, snd r @ [p]) d'
      | (Inr _, d') \<Rightarrow> restore_all now es (fst r @ [p], snd r) d')"

definition rewind :: "string \<Rightarrow> int \<Rightarrow> history \<Rightarrow> (fs_error, string list \<times> string list) result \<times> history" where
  "rewind m now h =
     (case findSnapshot m (fh_snapshots h) of
        None \<Rightarrow> (Inl (No_snapshot m), h)
      | Some s \<Rightarrow> (case restore_all now (sn_backups s) ([], []) (fh_disk h) of
                    (r, d) \<Rightarrow> (r, h\<lparr>fh_disk := d\<rparr>)))"

fun replace_or_add :: "file_snapshot \<Rightarrow> file_snapshot list \<Rightarrow> file_snapshot list" where
  "replace_or_add s [] = [s]"
| "replace_or_add s (x # xs) = (if sn_message x = sn_message s then s # xs else x # replace_or_add s xs)"

definition replay_snapshot :: "history \<Rightarrow> file_snapshot \<Rightarrow> history" where
  "replay_snapshot h s =
     h\<lparr>fh_tracked := foldl (\<lambda>ps p. sadd p ps) (fh_tracked h) (jkeys (sn_backups s)),
       fh_snapshots := replace_or_add s (fh_snapshots h)\<rparr>"

definition replayFromTranscript :: "file_snapshot list \<Rightarrow> history \<Rightarrow> history" where
  "replayFromTranscript entries h = foldl replay_snapshot h entries"

section \<open>Differences\<close>

definition safeReadText :: "file_node option \<Rightarrow> string option" where
  "safeReadText n = (case n of Some (Regular content mode t True) \<Rightarrow> Some content | _ \<Rightarrow> None)"

fun split_lines :: "string \<Rightarrow> string list" where
  "split_lines [] = [[]]"
| "split_lines (c # cs) =
     (if c = CHR 0x0D \<and> take 1 cs = [CHR 0x0A] then [] # split_lines (tl cs)
      else if c = CHR 0x0A then [] # split_lines cs
      else (case split_lines cs of [] \<Rightarrow> [[c]] | l # ls \<Rightarrow> (c # l) # ls))"

definition countLines :: "string \<Rightarrow> nat" where
  "countLines s = (if s = [] then 0 else length (split_lines s))"

definition count_line :: "(string, nat) jmap \<Rightarrow> string \<Rightarrow> (string, nat) jmap" where
  "count_line m l = jset l (case jget m l of None \<Rightarrow> 1 | Some k \<Rightarrow> k + 1) m"

definition line_count :: "(string, nat) jmap \<Rightarrow> string \<Rightarrow> nat" where
  "line_count m l = (case jget m l of None \<Rightarrow> 0 | Some k \<Rightarrow> k)"

text \<open>Insertions and deletions.\<close>

definition lineDelta :: "string \<Rightarrow> string \<Rightarrow> nat \<times> nat" where
  "lineDelta before after =
     (let b = foldl count_line [] (split_lines before); a = foldl count_line [] (split_lines after);
          seen = foldl (\<lambda>ls l. sadd l ls) [] (jkeys b @ jkeys a)
      in (sum_list (map (\<lambda>l. line_count a l - line_count b l) seen),
          sum_list (map (\<lambda>l. line_count b l - line_count a l) seen)))"

record diff_stats =
  ds_files :: nat
  ds_insertions :: nat
  ds_deletions :: nat

definition diff_file :: "file_disk \<Rightarrow> diff_stats \<Rightarrow> string \<times> backup \<Rightarrow> diff_stats" where
  "diff_file d r e =
     (case (case fb_name (snd e) of None \<Rightarrow> None | Some n \<Rightarrow> map_option fst (dk_backups d n), safeReadText (dk_files d (fst e))) of
        (None, None) \<Rightarrow> r
      | (None, Some t) \<Rightarrow> r\<lparr>ds_insertions := ds_insertions r + countLines t, ds_files := ds_files r + 1\<rparr>
      | (Some t, None) \<Rightarrow> r\<lparr>ds_deletions := ds_deletions r + countLines t, ds_files := ds_files r + 1\<rparr>
      | (Some t, Some t') \<Rightarrow>
          if t = t' then r
          else r\<lparr>ds_insertions := ds_insertions r + fst (lineDelta t t'), ds_deletions := ds_deletions r + snd (lineDelta t t'),
                 ds_files := ds_files r + 1\<rparr>)"

definition getDiffStats :: "string \<Rightarrow> history \<Rightarrow> (fs_error, diff_stats) result" where
  "getDiffStats m h =
     (case findSnapshot m (fh_snapshots h) of
        None \<Rightarrow> Inl (No_snapshot m)
      | Some s \<Rightarrow> Inr (foldl (diff_file (fh_disk h)) \<lparr>ds_files = 0, ds_insertions = 0, ds_deletions = 0\<rparr> (sn_backups s)))"

section \<open>Runs\<close>

text \<open>The operations of the store, the times read late, and what others do to a file.\<close>

datatype history_op =
    Track string string int
  | Snap string int
  | Rewind string int
  | Cache_time string
  | Outside string "file_node option"

fun history_step :: "(string \<Rightarrow> string) \<Rightarrow> history_options \<Rightarrow> history \<Rightarrow> history_op \<Rightarrow> history" where
  "history_step sha16 opts h (Track p m now) = snd (trackEdit sha16 opts p m now h)"
| "history_step sha16 opts h (Snap m now) = snd (makeSnapshot sha16 opts m now h)"
| "history_step sha16 opts h (Rewind m now) = snd (rewind m now h)"
| "history_step sha16 opts h (Cache_time p) = cacheMtime p h"
| "history_step sha16 opts h (Outside p n) = h\<lparr>fh_disk := (fh_disk h)\<lparr>dk_files := (dk_files (fh_disk h))(p := n)\<rparr>\<rparr>"

abbreviation history_run :: "(string \<Rightarrow> string) \<Rightarrow> history_options \<Rightarrow> history \<Rightarrow> history_op list \<Rightarrow> history" where
  "history_run sha16 opts \<equiv> foldl (history_step sha16 opts)"

section \<open>Snapshots by message\<close>

lemma find_replace_newest:
  "List.find (\<lambda>x. sn_message x = m) xs = Some y \<Longrightarrow> sn_message s = m \<Longrightarrow>
     List.find (\<lambda>x. sn_message x = m) (replace_newest s xs) = Some s"
  by (induction xs) (auto split: if_splits)

lemma find_replace_newest_other:
  "sn_message s \<noteq> m \<Longrightarrow> List.find (\<lambda>x. sn_message x = m) (replace_newest s xs) = List.find (\<lambda>x. sn_message x = m) xs"
  by (induction xs) auto

lemma find_put_snapshot [simp]:
  "findSnapshot m (put_snapshot s ss) = (if m = sn_message s then Some s else findSnapshot m ss)"
  by (auto simp: findSnapshot_def put_snapshot_def find_replace_newest find_replace_newest_other split: option.splits)

lemma find_append_snapshot [simp]:
  "findSnapshot m (ss @ [s]) = (if sn_message s = m then Some s else findSnapshot m ss)"
  by (simp add: findSnapshot_def)

lemma findSnapshotD: "findSnapshot m ss = Some s \<Longrightarrow> s \<in> set ss \<and> sn_message s = m"
  by (auto simp: findSnapshot_def find_Some_iff in_set_conv_nth rev_nth)
    (metis diff_less_Suc length_greater_0_conv less_imp_Suc_add list.size(3) not_less_zero diff_Suc_less)

lemma set_replace_newest: "set (replace_newest s xs) \<subseteq> insert s (set xs)"
  by (induction xs) auto

lemma set_put_snapshot: "set (put_snapshot s ss) \<subseteq> insert s (set ss)"
  using set_replace_newest [of s "rev ss"] by (auto simp: put_snapshot_def split: option.splits)

lemma open_snapshot_message:
  "getOrCreateOpenSnapshot m now h = (s, h') \<Longrightarrow> sn_message s = m \<and> findSnapshot m (fh_snapshots h') = Some s
     \<and> fh_disk h' = fh_disk h \<and> fh_log h' = fh_log h"
  by (auto simp: getOrCreateOpenSnapshot_def Let_def dest: findSnapshotD split: option.splits)

section \<open>Disks\<close>

lemma restore_keeps_backups: "dk_backups (snd (restoreBackup p b now d)) = dk_backups d"
  by (auto simp: restoreBackup_def Let_def split: option.split file_node.split)

lemma restore_all_keeps_backups: "dk_backups (snd (restore_all now es r d)) = dk_backups d"
proof (induction es arbitrary: r d)
  case (Cons e es)
  obtain p b where e: "e = (p, b)" by fastforce
  show ?case using Cons.IH restore_keeps_backups [of p b now d] unfolding e
    by (auto split: prod.splits sum.splits restore_outcome.splits)
qed simp

lemma rewind_keeps: "fh_snapshots (snd (rewind m now h)) = fh_snapshots h \<and> fh_log (snd (rewind m now h)) = fh_log h
    \<and> dk_backups (fh_disk (snd (rewind m now h))) = dk_backups (fh_disk h)"
  by (simp add: rewind_def restore_all_keeps_backups split_beta split: option.split)

lemma cache_keeps: "fh_snapshots (cacheMtime p h) = fh_snapshots h \<and> fh_log (cacheMtime p h) = fh_log h \<and> fh_disk (cacheMtime p h) = fh_disk h"
  by (simp add: cacheMtime_def)

lemma createBackup_grows:
  "createBackup sha16 cap p v now d = (r, d') \<Longrightarrow>
     dk_files d' = dk_files d \<and> (\<forall>n. n \<noteq> getBackupFileName sha16 p v \<longrightarrow> dk_backups d' n = dk_backups d n)
     \<and> (\<forall>n. dk_backups d n \<noteq> None \<longrightarrow> dk_backups d' n \<noteq> None)
     \<and> (\<forall>b o' n. r = Inr (b, o') \<longrightarrow> fb_name b = Some n \<longrightarrow> dk_backups d' n \<noteq> None)"
  by (auto simp: createBackup_def null_backup_def Let_def split: option.splits file_node.splits if_splits)

section \<open>Backups do not dangle\<close>

definition backed_up :: "file_disk \<Rightarrow> file_snapshot \<Rightarrow> bool" where
  "backed_up d s \<longleftrightarrow> distinct (map fst (sn_backups s))
     \<and> (\<forall>b \<in> snd ` set (sn_backups s). \<forall>n. fb_name b = Some n \<longrightarrow> dk_backups d n \<noteq> None)"

definition snapshots_ok :: "history \<Rightarrow> bool" where
  "snapshots_ok h \<longleftrightarrow> (\<forall>s \<in> set (fh_snapshots h). backed_up (fh_disk h) s)"

lemma backed_up_grow:
  "backed_up d s \<Longrightarrow> (\<forall>n. dk_backups d n \<noteq> None \<longrightarrow> dk_backups d' n \<noteq> None) \<Longrightarrow> backed_up d' s"
  unfolding backed_up_def by blast

lemma backed_up_add:
  "backed_up d s \<Longrightarrow> (\<forall>n. fb_name b = Some n \<longrightarrow> dk_backups d n \<noteq> None) \<Longrightarrow>
     backed_up d (s\<lparr>sn_backups := jset p b (sn_backups s)\<rparr>)"
  unfolding backed_up_def by (force dest: in_set_jset)

lemma backed_up_empty [simp]: "backed_up d \<lparr>sn_message = m, sn_backups = [], sn_time = t\<rparr>"
  by (simp add: backed_up_def)

lemma snapshots_ok_grow:
  "snapshots_ok h \<Longrightarrow> set (fh_snapshots h') \<subseteq> insert s (set (fh_snapshots h)) \<Longrightarrow> backed_up (fh_disk h') s \<Longrightarrow>
     (\<forall>n. dk_backups (fh_disk h) n \<noteq> None \<longrightarrow> dk_backups (fh_disk h') n \<noteq> None) \<Longrightarrow> snapshots_ok h'"
  unfolding snapshots_ok_def using backed_up_grow by blast

lemma track_ok:
  assumes "snapshots_ok h"
  shows "snapshots_ok (snd (trackEdit sha16 opts p m now h))"
proof -
  let ?h = "h\<lparr>fh_tracked := sadd p (fh_tracked h)\<rparr>"
  obtain s h' where o: "getOrCreateOpenSnapshot m now ?h = (s, h')" by fastforce
  obtain r d where c: "createBackup sha16 (ho_cap opts) p 1 now (fh_disk h') = (r, d)" by fastforce
  have h': "snapshots_ok h'" "s \<in> set (fh_snapshots h')"
    using assms o by (auto simp: getOrCreateOpenSnapshot_def snapshots_ok_def Let_def dest: findSnapshotD split: option.splits)
  have g: "\<forall>n. dk_backups (fh_disk h') n \<noteq> None \<longrightarrow> dk_backups d n \<noteq> None"
    "\<And>b o' n. r = Inr (b, o') \<Longrightarrow> fb_name b = Some n \<Longrightarrow> dk_backups d n \<noteq> None"
    using createBackup_grows [OF c] by blast+
  have s: "backed_up d s" using h' g(1) backed_up_grow unfolding snapshots_ok_def by blast
  show ?thesis
  proof (cases "jget (sn_backups s) p = None")
    case True
    show ?thesis
    proof (cases r)
      case (Inl e)
      then have "snd (trackEdit sha16 opts p m now h) = h'\<lparr>fh_disk := d\<rparr>" using o c True by (simp add: trackEdit_def)
      then show ?thesis using snapshots_ok_grow [OF h'(1), of "h'\<lparr>fh_disk := d\<rparr>" s] s g(1) by auto
    next
      case (Inr x)
      obtain b ov where x: "x = (b, ov)" by fastforce
      let ?s = "s\<lparr>sn_backups := jset p b (sn_backups s)\<rparr>"
      have t: "snd (trackEdit sha16 opts p m now h) = recordTranscript ?s Update_record
          (h'\<lparr>fh_disk := d, fh_snapshots := put_snapshot ?s (fh_snapshots h'), fh_pending := fh_pending h' @ [p]\<rparr>)"
        using o c True Inr x by (simp add: trackEdit_def Let_def)
      have "\<forall>n. fb_name b = Some n \<longrightarrow> dk_backups d n \<noteq> None" using g(2) Inr x by blast
      then have "backed_up d ?s" by (rule backed_up_add [OF s])
      then show ?thesis unfolding t
        by (intro snapshots_ok_grow [OF h'(1), of _ ?s]) (use g(1) set_put_snapshot in \<open>auto simp: recordTranscript_def\<close>)
    qed
  qed (use o h' in \<open>auto simp: trackEdit_def\<close>)
qed

text \<open>What the loop over the tracked files keeps.\<close>

definition snapshot_loop_ok :: "history \<Rightarrow> file_snapshot option \<Rightarrow> string \<Rightarrow> file_snapshot \<times> history \<Rightarrow> bool" where
  "snapshot_loop_ok h0 prev m sh \<longleftrightarrow> backed_up (fh_disk (snd sh)) (fst sh) \<and> sn_message (fst sh) = m
     \<and> fh_snapshots (snd sh) = fh_snapshots h0
     \<and> (\<forall>n. dk_backups (fh_disk h0) n \<noteq> None \<longrightarrow> dk_backups (fh_disk (snd sh)) n \<noteq> None)
     \<and> (\<forall>q. prev = Some q \<longrightarrow> backed_up (fh_disk (snd sh)) q)"

lemma snapshot_file_ok:
  assumes "snapshot_loop_ok h0 prev m (s, h)" "snapshot_file sha16 opts prev now p (s, h) = (e, sh')"
  shows "snapshot_loop_ok h0 prev m sh'"
proof (cases "mtime_of (dk_files (fh_disk h) p)")
  case (Inl x)
  then show ?thesis using assms by (simp add: snapshot_file_def)
next
  case (Inr t)
  define pb where "pb = (case jget (sn_backups s) p of
                Some b \<Rightarrow> Some b
              | None \<Rightarrow> (case prev of None \<Rightarrow> None | Some q \<Rightarrow> jget (sn_backups q) p))"
  obtain r d where c: "createBackup sha16 (ho_cap opts) p ((case pb of None \<Rightarrow> 0 | Some b \<Rightarrow> fb_version b) + 1) now (fh_disk h) = (r, d)"
    by fastforce
  have e: "(e, sh') = (if fh_mtimes h p = Some t \<and> pb \<noteq> None
             then (None, (if jget (sn_backups s) p = None
                          then s\<lparr>sn_backups := jset p (the pb) (sn_backups s)\<rparr> else s), h)
             else (case r of Inl e \<Rightarrow> (Some e, s, h\<lparr>fh_disk := d\<rparr>)
               | Inr (b, oversize) \<Rightarrow> (None, s\<lparr>sn_backups := jset p b (sn_backups s)\<rparr>,
                   h\<lparr>fh_disk := d, fh_mtimes := (fh_mtimes h)(p \<mapsto> t)\<rparr>)))"
    using assms(2) Inr c unfolding pb_def snapshot_file_def by (simp only: Let_def sum.case prod.case)
  note l = assms(1) [unfolded snapshot_loop_ok_def fst_conv snd_conv]
  have g: "\<forall>n. dk_backups (fh_disk h) n \<noteq> None \<longrightarrow> dk_backups d n \<noteq> None"
    "\<And>b o' n. r = Inr (b, o') \<Longrightarrow> fb_name b = Some n \<Longrightarrow> dk_backups d n \<noteq> None"
    using createBackup_grows [OF c] by blast+
  have old: "backed_up (fh_disk h) (s\<lparr>sn_backups := jset p b (sn_backups s)\<rparr>)" if "pb = Some b" for b
  proof (rule backed_up_add)
    have "b \<in> snd ` set (sn_backups s) \<or> (\<exists>q. prev = Some q \<and> b \<in> snd ` set (sn_backups q))"
      using that unfolding pb_def by (force split: option.splits dest!: map_of_SomeD)
    then show "\<forall>n. fb_name b = Some n \<longrightarrow> dk_backups (fh_disk h) n \<noteq> None" using l unfolding backed_up_def by blast
  qed (use l in simp)
  have new: "backed_up d (s\<lparr>sn_backups := jset p b (sn_backups s)\<rparr>)" if "r = Inr (b, o')" for b o'
  proof (rule backed_up_add)
    show "backed_up d s" by (rule backed_up_grow [OF conjunct1 [OF l] g(1)])
    show "\<forall>n. fb_name b = Some n \<longrightarrow> dk_backups d n \<noteq> None" using g(2) [OF that] by simp
  qed
  show ?thesis
  proof (cases "fh_mtimes h p = Some t \<and> pb \<noteq> None")
    case True
    then show ?thesis using e l old by (auto simp: snapshot_loop_ok_def)
  next
    case False
    have "\<forall>q. prev = Some q \<longrightarrow> backed_up (fh_disk h) q" using l by simp
    then have "\<forall>q. prev = Some q \<longrightarrow> backed_up d q" using backed_up_grow [OF _ g(1)] by simp
    moreover have "backed_up d s" by (rule backed_up_grow [OF conjunct1 [OF l] g(1)])
    moreover have "\<forall>n. dk_backups (fh_disk h0) n \<noteq> None \<longrightarrow> dk_backups d n \<noteq> None" using l g(1) by metis
    ultimately show ?thesis using e l new False by (cases r) (auto simp: snapshot_loop_ok_def)
  qed
qed

lemma snapshot_files_ok:
  "snapshot_loop_ok h0 prev m sh \<Longrightarrow> snapshot_files sha16 opts prev now ps sh = (e, sh') \<Longrightarrow> snapshot_loop_ok h0 prev m sh'"
proof (induction ps arbitrary: sh)
  case (Cons p ps)
  obtain x sh1 where x: "snapshot_file sha16 opts prev now p sh = (x, sh1)" by (rule prod.exhaust)
  have "snapshot_loop_ok h0 prev m sh1" using snapshot_file_ok [of h0 prev m "fst sh" "snd sh"] Cons.prems(1) x by simp
  then show ?case using Cons x by (cases x) auto
qed simp

lemma findPrevious_in: "findPreviousSnapshot m ss = Some q \<Longrightarrow> q \<in> set ss"
proof -
  assume a: "findPreviousSnapshot m ss = Some q"
  have "set (dropWhile (\<lambda>s. sn_message s \<noteq> m) (rev ss)) \<subseteq> set ss" using set_dropWhileD by fastforce
  then show ?thesis using a by (auto simp: findPreviousSnapshot_def split: list.splits)
qed

lemma drop_backup_keeps:
  "s \<in> set remaining \<Longrightarrow> backed_up d s \<Longrightarrow> backed_up (foldl (drop_backup remaining) d bs) s"
proof (induction bs arbitrary: d)
  case (Cons b bs)
  have "backed_up (drop_backup remaining d b) s"
    using Cons.prems by (auto simp: backed_up_def drop_backup_def list_ex_iff jvals_def split: option.split)
  then show ?case using Cons by simp
qed simp

lemma evict_ok:
  "evictIfNeeded k ss d = (ss', d') \<Longrightarrow> \<forall>s \<in> set ss. backed_up d s \<Longrightarrow>
     length ss' \<le> k \<and> suffix ss' ss \<and> (\<forall>s \<in> set ss'. backed_up d' s)"
proof (induction k ss d rule: evictIfNeeded.induct)
  case (2 k s ss d)
  show ?case
  proof (cases "length (s # ss) \<le> k")
    case False
    have "\<forall>x \<in> set ss. backed_up (foldl (drop_backup ss) d (jvals (sn_backups s))) x"
      using drop_backup_keeps 2(3) by simp
    then show ?thesis using 2(1) [OF False] 2(2) False by (auto intro: suffix_ConsI)
  qed (use 2 in auto)
qed auto

lemma snapshot_ok:
  assumes "snapshots_ok h"
  shows "snapshots_ok (snd (makeSnapshot sha16 opts m now h))"
    "fst (makeSnapshot sha16 opts m now h) = Inr () \<Longrightarrow> length (fh_snapshots (snd (makeSnapshot sha16 opts m now h))) \<le> ho_max opts"
proof -
  let ?prev = "findPreviousSnapshot m (fh_snapshots h)"
  define s0 where "s0 = (case findSnapshot m (fh_snapshots h) of Some s \<Rightarrow> s | None \<Rightarrow> \<lparr>sn_message = m, sn_backups = [], sn_time = now\<rparr>)"
  obtain e s1 h1 where f: "snapshot_files sha16 opts ?prev now (fh_tracked h) (s0, h) = (e, s1, h1)" by (metis prod.exhaust)
  have "backed_up (fh_disk h) s0" "sn_message s0 = m" "\<forall>q. ?prev = Some q \<longrightarrow> backed_up (fh_disk h) q"
    using assms findPrevious_in findSnapshotD by (auto simp: s0_def snapshots_ok_def split: option.split)
  then have "snapshot_loop_ok h ?prev m (s0, h)" by (simp add: snapshot_loop_ok_def)
  from snapshot_files_ok [OF this f] have l: "backed_up (fh_disk h1) s1" "fh_snapshots h1 = fh_snapshots h"
    "\<forall>n. dk_backups (fh_disk h) n \<noteq> None \<longrightarrow> dk_backups (fh_disk h1) n \<noteq> None"
    by (simp_all add: snapshot_loop_ok_def)
  let ?ss = "put_snapshot s1 (fh_snapshots h1)"
  have ok: "\<forall>s \<in> set (fh_snapshots h1). backed_up (fh_disk h1) s"
    using assms l(2,3) backed_up_grow [of "fh_disk h" _ "fh_disk h1"] by (simp add: snapshots_ok_def)
  then have put: "\<forall>s \<in> set ?ss. backed_up (fh_disk h1) s" using l(1) set_put_snapshot [of s1 "fh_snapshots h1"] by blast
  obtain ss d where v: "evictIfNeeded (ho_max opts) ?ss (fh_disk h1) = (ss, d)" by fastforce
  note r = evict_ok [OF v put]
  have m: "makeSnapshot sha16 opts m now h = (case e of
      Some x \<Rightarrow> (Inl x, if findSnapshot m (fh_snapshots h) = None then h1 else h1\<lparr>fh_snapshots := ?ss\<rparr>)
    | None \<Rightarrow> (Inr (), (recordTranscript s1 (if findSnapshot m (fh_snapshots h) = None then Create_record else Update_record)
          (h1\<lparr>fh_snapshots := ?ss\<rparr>))\<lparr>fh_snapshots := ss, fh_disk := d\<rparr>))"
    using f v by (simp add: makeSnapshot_def s0_def [symmetric] Let_def recordTranscript_def split: option.split)
  show "snapshots_ok (snd (makeSnapshot sha16 opts m now h))"
    unfolding m using ok put r by (auto simp: snapshots_ok_def split: option.split)
  show "fst (makeSnapshot sha16 opts m now h) = Inr () \<Longrightarrow> length (fh_snapshots (snd (makeSnapshot sha16 opts m now h))) \<le> ho_max opts"
    unfolding m using r by (auto split: option.splits)
qed

lemma snapshots_ok_same:
  "snapshots_ok h \<Longrightarrow> fh_snapshots h' = fh_snapshots h \<Longrightarrow> dk_backups (fh_disk h') = dk_backups (fh_disk h) \<Longrightarrow> snapshots_ok h'"
  by (simp add: snapshots_ok_def backed_up_def)

lemma history_step_ok: "snapshots_ok h \<Longrightarrow> snapshots_ok (history_step sha16 opts h op)"
  by (cases op) (auto simp: track_ok snapshot_ok(1) rewind_keeps cache_keeps elim: snapshots_ok_same)

lemma history_run_ok: "snapshots_ok h \<Longrightarrow> snapshots_ok (history_run sha16 opts h ops)"
  by (induction ops arbitrary: h) (simp_all add: history_step_ok)

lemma new_history_ok [simp]: "snapshots_ok (newHistory d)"
  by (simp add: snapshots_ok_def newHistory_def)

lemma restore_all_none_missing:
  "restore_all now es r d = (Inr r', d') \<Longrightarrow> snd r = [] \<Longrightarrow>
     \<forall>b \<in> snd ` set es. \<forall>n. fb_name b = Some n \<longrightarrow> dk_backups d n \<noteq> None \<Longrightarrow> snd r' = []"
proof (induction es arbitrary: r d)
  case (Cons e es)
  obtain q c where e: "e = (q, c)" by fastforce
  obtain x d1 where x: "restoreBackup q c now d = (x, d1)" by fastforce
  have k: "dk_backups d1 = dk_backups d" using restore_keeps_backups [of q c now d] x by simp
  have "x \<noteq> Inr Missing"
    using x Cons.prems(3) e by (auto simp: restoreBackup_def Let_def split: option.splits file_node.splits)
  then obtain r1 where "restore_all now es r1 d1 = (Inr r', d')" "snd r1 = []"
    using Cons.prems(1,2) x unfolding e by (auto split: sum.splits restore_outcome.splits)
  then show ?case using Cons.IH Cons.prems(3) k by simp
qed simp


section \<open>Edits are undone\<close>

text \<open>Whether an operation leaves the backup alone that a message has of a file.\<close>

fun leaves_backup :: "(string \<Rightarrow> string) \<Rightarrow> string \<Rightarrow> string \<Rightarrow> history_op \<Rightarrow> bool" where
  "leaves_backup sha16 m p (Track q m' now) = (if q = p then m' = m else sha16 q \<noteq> sha16 p)"
| "leaves_backup sha16 m p (Snap m' now) = False"
| "leaves_backup sha16 m p op = True"

definition copy_of :: "backup \<Rightarrow> file_disk \<Rightarrow> (string \<times> nat) option \<Rightarrow> bool" where
  "copy_of b d copy \<longleftrightarrow> (\<forall>n. fb_name b = Some n \<longrightarrow> dk_backups d n = copy)"

definition holds_backup :: "string \<Rightarrow> string \<Rightarrow> backup \<Rightarrow> (string \<times> nat) option \<Rightarrow> history \<Rightarrow> bool" where
  "holds_backup m p b copy h \<longleftrightarrow> (\<exists>s. findSnapshot m (fh_snapshots h) = Some s \<and> jget (sn_backups s) p = Some b
     \<and> distinct (map fst (sn_backups s)) \<and> copy_of b (fh_disk h) copy)"

lemma backup_name_inj [simp]: "getBackupFileName sha16 p v = getBackupFileName sha16 q v \<longleftrightarrow> sha16 p = sha16 q"
  by (simp add: getBackupFileName_def)

lemma track_holds_backup:
  assumes "holds_backup m p b copy h" "if q = p then m' = m else sha16 q \<noteq> sha16 p"
    "\<forall>n. fb_name b = Some n \<longrightarrow> n = getBackupFileName sha16 p 1"
  shows "holds_backup m p b copy (snd (trackEdit sha16 opts q m' now h))"
proof -
  let ?h = "h\<lparr>fh_tracked := sadd q (fh_tracked h)\<rparr>"
  obtain s' h' where o: "getOrCreateOpenSnapshot m' now ?h = (s', h')" by fastforce
  obtain r d where c: "createBackup sha16 (ho_cap opts) q 1 now (fh_disk h') = (r, d)" by fastforce
  from assms(1) obtain s where s: "findSnapshot m (fh_snapshots h) = Some s" "jget (sn_backups s) p = Some b"
    "distinct (map fst (sn_backups s))" and d: "copy_of b (fh_disk h) copy"
    by (auto simp: holds_backup_def)
  have h': "fh_disk h' = fh_disk h" "findSnapshot m (fh_snapshots h') = Some s" "m' = m \<longrightarrow> s' = s"
    using o s(1) by (auto simp: getOrCreateOpenSnapshot_def Let_def split: option.splits)
  have g: "copy_of b d copy" if "q \<noteq> p"
    using createBackup_grows [OF c] d assms(2,3) that h'(1) by (auto simp: copy_of_def)
  show ?thesis
  proof (cases "jget (sn_backups s') q")
    case (Some b')
    then show ?thesis using o s d h' by (auto simp: trackEdit_def holds_backup_def)
  next
    case None
    then have q: "q \<noteq> p" using h'(3) s(2) assms(2) by auto
    have "sn_message s' = m'" using open_snapshot_message [OF o] by simp
    then show ?thesis using o c None s(2,3) h' g [OF q] q
      by (auto simp: trackEdit_def holds_backup_def recordTranscript_def Let_def split: sum.splits)
  qed
qed

lemma run_holds_backup:
  assumes "holds_backup m p b copy h" "list_all (leaves_backup sha16 m p) ops"
    "\<forall>n. fb_name b = Some n \<longrightarrow> n = getBackupFileName sha16 p 1"
  shows "holds_backup m p b copy (history_run sha16 opts h ops)"
  using assms(1,2)
proof (induction ops arbitrary: h)
  case (Cons op ops)
  have "holds_backup m p b copy (history_step sha16 opts h op)"
  proof (cases op)
    case (Track q m' now)
    then show ?thesis using track_holds_backup [OF Cons.prems(1) _ assms(3)] Cons.prems(2) by simp
  next
    case (Rewind m' now)
    then show ?thesis using Cons.prems(1) rewind_keeps [of m' now h] by (simp add: holds_backup_def copy_of_def)
  next
    case (Cache_time q)
    then show ?thesis using Cons.prems(1) cache_keeps [of q h] by (simp add: holds_backup_def)
  qed (use Cons.prems in \<open>auto simp: holds_backup_def copy_of_def\<close>)
  then show ?case using Cons by simp
qed simp

text \<open>What a rewind without an error leaves of a file of the snapshot.\<close>

definition restored_node :: "backup \<Rightarrow> (string \<times> nat) option \<Rightarrow> int \<Rightarrow> file_node option" where
  "restored_node b copy now =
     (case fb_name b of None \<Rightarrow> None
      | Some n \<Rightarrow> Some (Regular (fst (the copy)) (case fb_mode b of None \<Rightarrow> snd (the copy) | Some k \<Rightarrow> k mod 512) now True))"

lemma restore_one:
  assumes "restoreBackup p b now d = (Inr out, d')"
    "copy_of b d copy" "\<forall>n. fb_name b = Some n \<longrightarrow> copy \<noteq> None \<and> fb_mode b \<noteq> None"
  shows "out \<noteq> Missing \<and> dk_files d' = (dk_files d)(p := restored_node b copy now)"
  using assms by (auto simp: restoreBackup_def copy_of_def restored_node_def Let_def fun_eq_iff split: option.splits file_node.splits)

lemma restore_other:
  assumes "restoreBackup q b now d = (r, d')" "q \<noteq> p"
  shows "dk_files d' p = dk_files d p"
  using assms by (auto simp: restoreBackup_def Let_def split: option.splits file_node.splits)

lemma restore_all_other:
  "restore_all now es r d = (r', d') \<Longrightarrow> p \<notin> fst ` set es \<Longrightarrow> dk_files d' p = dk_files d p"
proof (induction es arbitrary: r d)
  case (Cons e es)
  obtain q b where e: "e = (q, b)" by fastforce
  obtain x d1 where x: "restoreBackup q b now d = (x, d1)" by fastforce
  have "dk_files d1 p = dk_files d p" using restore_other [OF x] Cons.prems(2) e by auto
  then show ?case using Cons x unfolding e by (auto split: sum.splits restore_outcome.splits)
qed simp

lemma restore_all_changed: "restore_all now es r d = (Inr r', d') \<Longrightarrow> set (fst r) \<subseteq> set (fst r')"
proof (induction es arbitrary: r d)
  case (Cons e es)
  obtain q b where e: "e = (q, b)" by fastforce
  obtain x d1 where x: "restoreBackup q b now d = (x, d1)" by fastforce
  show ?case using Cons.prems Cons.IH [of "(fst r, snd r @ [q])" d1] Cons.IH [of "(fst r @ [q], snd r)" d1] x unfolding e
    by (auto split: sum.splits restore_outcome.splits)
qed simp

lemma restore_all_one:
  assumes "restore_all now es r d = (Inr r', d')" "distinct (map fst es)" "map_of es p = Some b"
    "copy_of b d copy" "\<forall>n. fb_name b = Some n \<longrightarrow> copy \<noteq> None \<and> fb_mode b \<noteq> None"
  shows "dk_files d' p = restored_node b copy now \<and> p \<in> set (fst r')"
  using assms
proof (induction es arbitrary: r d)
  case (Cons e es)
  obtain q c where e: "e = (q, c)" by fastforce
  obtain x d1 where x: "restoreBackup q c now d = (x, d1)" by fastforce
  then obtain out where out: "x = Inr out" using Cons.prems(1) unfolding e
    by (cases x) auto
  let ?r = "if out = Missing then (fst r, snd r @ [q]) else (fst r @ [q], snd r)"
  have rest: "restore_all now es ?r d1 = (Inr r', d')"
    using Cons.prems(1) x out unfolding e by (cases out) auto
  show ?case
  proof (cases "q = p")
    case True
    then have c: "c = b" and p: "p \<notin> fst ` set es" using Cons.prems(2,3) e by auto
    have "out \<noteq> Missing \<and> dk_files d1 = (dk_files d)(p := restored_node b copy now)"
      using restore_one [of q c now d out d1 copy] x out True c Cons.prems(4,5) by blast
    then show ?thesis using restore_all_other [OF rest p] restore_all_changed [OF rest] True by auto
  next
    case False
    have "dk_backups d1 = dk_backups d" using restore_keeps_backups [of q c now d] x by simp
    then show ?thesis using Cons.IH [OF rest] Cons.prems(2-5) e False by (simp add: copy_of_def)
  qed
qed simp

text \<open>A file whose backup is complete: it is not there, or can be read, is not too large and has no special bits.\<close>

definition saveable :: "nat \<Rightarrow> file_node option \<Rightarrow> bool" where
  "saveable cap n \<longleftrightarrow> (case n of None \<Rightarrow> True
     | Some (Regular content mode t readable) \<Rightarrow> length content \<le> cap \<and> readable \<and> mode < 512
     | Some _ \<Rightarrow> False)"

definition touched :: "int \<Rightarrow> file_node option \<Rightarrow> file_node option" where
  "touched now n = (case n of Some (Regular content mode t readable) \<Rightarrow> Some (Regular content mode now readable) | _ \<Rightarrow> n)"

definition first_edit :: "string \<Rightarrow> string \<Rightarrow> history \<Rightarrow> bool" where
  "first_edit p m h \<longleftrightarrow> (case findSnapshot m (fh_snapshots h) of None \<Rightarrow> True | Some s \<Rightarrow> jget (sn_backups s) p = None)"

lemma track_saves:
  assumes "snapshots_ok h" "first_edit p m h" "saveable (ho_cap opts) (dk_files (fh_disk h) p)"
  shows "\<exists>b copy. holds_backup m p b copy (snd (trackEdit sha16 opts p m now h))
    \<and> (\<forall>n. fb_name b = Some n \<longrightarrow> n = getBackupFileName sha16 p 1 \<and> copy \<noteq> None \<and> fb_mode b \<noteq> None)
    \<and> restored_node b copy later = touched later (dk_files (fh_disk h) p)"
proof -
  let ?h = "h\<lparr>fh_tracked := sadd p (fh_tracked h)\<rparr>"
  obtain s h' where o: "getOrCreateOpenSnapshot m now ?h = (s, h')" by fastforce
  have s: "sn_message s = m" "fh_disk h' = fh_disk h" using open_snapshot_message [OF o] by simp_all
  have n: "jget (sn_backups s) p = None" "distinct (map fst (sn_backups s))"
    using assms(1,2) o unfolding first_edit_def
    by (auto simp: getOrCreateOpenSnapshot_def Let_def snapshots_ok_def backed_up_def dest: findSnapshotD split: option.splits)
  show ?thesis
  proof (cases "dk_files (fh_disk h) p")
    case None
    then show ?thesis using o n s
      by (intro exI [of _ "null_backup 1 now"] exI [of _ None])
        (simp add: trackEdit_def createBackup_def recordTranscript_def holds_backup_def null_backup_def restored_node_def
          touched_def copy_of_def Let_def)
  next
    case (Some x)
    then obtain content mode t where x: "x = Regular content mode t True" "length content \<le> ho_cap opts" "mode < 512"
      using assms(3) by (auto simp: saveable_def split: file_node.splits)
    then show ?thesis using o n s Some
      by (intro exI [of _ "\<lparr>fb_name = Some (getBackupFileName sha16 p 1), fb_version = 1, fb_time = now, fb_mode = Some (stat_mode mode)\<rparr>"]
            exI [of _ "Some (content, mode mod 512)"])
        (simp add: trackEdit_def createBackup_def recordTranscript_def holds_backup_def restored_node_def
          touched_def copy_of_def Let_def)
  qed
qed


section \<open>Edits that are not undone\<close>

text \<open>
  C36: A file that is tracked for a second message gets its first version overwritten: a rewind to the
  first message then brings back what the file held before the edit of the second.
\<close>

theorem second_message_overwrites:
  assumes "length a \<le> ho_cap opts" "length b \<le> ho_cap opts" "m \<noteq> m'"
    "dk_files d p = Some (Regular a mode t True)"
  shows "case rewind m 5 (history_run sha16 opts (newHistory d)
       [Track p m 1, Outside p (Some (Regular b mode 2 True)), Track p m' 3, Outside p (Some (Regular c mode 4 True))]) of
     (r, h') \<Rightarrow> r = Inr ([p], []) \<and> dk_files (fh_disk h') p = Some (Regular b (mode mod 512) 5 True)"
proof -
  show ?thesis using assms
    by (auto simp: trackEdit_def getOrCreateOpenSnapshot_def newHistory_def findSnapshot_def createBackup_def recordTranscript_def
          put_snapshot_def sadd_def rewind_def restoreBackup_def Let_def split: option.splits file_node.splits)
qed

text \<open>
  A file that is too large for a backup is recorded like one that was not there: the rewind
  deletes it.
\<close>

lemma large_file_deleted:
  assumes "ho_cap opts < length a" "dk_files d p = Some (Regular a mode t readable)"
  shows "case rewind m 3 (history_run sha16 opts (newHistory d) [Track p m 1, Outside p (Some (Regular b mode 2 True))]) of
     (r, h') \<Rightarrow> r = Inr ([p], []) \<and> dk_files (fh_disk h') p = None"
  using assms
  by (auto simp: trackEdit_def getOrCreateOpenSnapshot_def newHistory_def findSnapshot_def createBackup_def recordTranscript_def
        put_snapshot_def sadd_def rewind_def restoreBackup_def null_backup_def Let_def split: option.splits file_node.splits)

text \<open>The time of modification that is cached after the edit hides the edit from the next snapshot.\<close>

lemma late_cache_hides_edit:
  assumes "length a \<le> ho_cap opts" "0 < ho_max opts" "dk_files d p = Some (Regular a mode t True)"
  shows "case rewind m 5 (history_run sha16 opts (newHistory d)
       [Track p m 1, Outside p (Some (Regular b mode 2 True)), Cache_time p, Snap m 3]) of
     (r, h') \<Rightarrow> r = Inr ([p], []) \<and> dk_files (fh_disk h') p = Some (Regular a (mode mod 512) 5 True)"
  using assms
  by (auto simp: trackEdit_def getOrCreateOpenSnapshot_def newHistory_def findSnapshot_def createBackup_def recordTranscript_def
        put_snapshot_def sadd_def rewind_def restoreBackup_def cacheMtime_def makeSnapshot_def snapshot_file_def
        findPreviousSnapshot_def Let_def split: option.splits file_node.splits)

section \<open>Restarts\<close>

definition backups_in :: "string \<Rightarrow> history \<Rightarrow> (string, backup) jmap" where
  "backups_in m h = (case findSnapshot m (fh_snapshots h) of None \<Rightarrow> [] | Some s \<Rightarrow> sn_backups s)"

definition restarted :: "history \<Rightarrow> history" where
  "restarted h = replayFromTranscript (map fst (fh_log h)) (newHistory (fh_disk h))"

lemma findSnapshot_Cons:
  "findSnapshot m (x # xs) = (case findSnapshot m xs of Some y \<Rightarrow> Some y | None \<Rightarrow> if sn_message x = m then Some x else None)"
proof -
  have "List.find P (ys @ zs) = (case List.find P ys of Some y \<Rightarrow> Some y | None \<Rightarrow> List.find P zs)" for P :: "file_snapshot \<Rightarrow> bool" and ys zs
    by (induction ys) auto
  then show ?thesis by (simp add: findSnapshot_def split: option.split)
qed

lemma findSnapshot_None: "findSnapshot m ss = None \<longleftrightarrow> m \<notin> sn_message ` set ss"
  by (auto simp: findSnapshot_def find_None_iff)

lemma replace_or_add_messages: "sn_message ` set (replace_or_add s ss) = insert (sn_message s) (sn_message ` set ss)"
  by (induction ss) auto

lemma replace_or_add_distinct: "distinct (map sn_message ss) \<Longrightarrow> distinct (map sn_message (replace_or_add s ss))"
proof (induction ss)
  case (Cons x xs)
  then show ?case using replace_or_add_messages [of s xs] by (auto simp del: set_map) (auto simp: set_map)
qed simp

lemma find_replace_or_add:
  "distinct (map sn_message ss) \<Longrightarrow>
     findSnapshot m (replace_or_add s ss) = (if m = sn_message s then Some s else findSnapshot m ss)"
proof (induction ss)
  case Nil
  then show ?case by (simp add: findSnapshot_def)
next
  case (Cons x xs)
  have "findSnapshot (sn_message x) xs = None" using Cons.prems by (simp add: findSnapshot_None)
  then show ?case using Cons by (auto simp: findSnapshot_Cons split: option.split)
qed

lemma replay_history_snoc: "replayFromTranscript (es @ [s]) h = replay_snapshot (replayFromTranscript es h) s"
  by (simp add: replayFromTranscript_def)

lemma replay_distinct: "distinct (map sn_message (fh_snapshots (replayFromTranscript es (newHistory d))))"
proof (induction es rule: rev_induct)
  case Nil
  then show ?case by (simp add: replayFromTranscript_def newHistory_def)
next
  case (snoc s es)
  then show ?case by (simp add: replay_history_snoc replay_snapshot_def replace_or_add_distinct)
qed

lemma replay_disk: "fh_snapshots (replayFromTranscript es (newHistory d)) = fh_snapshots (replayFromTranscript es (newHistory d'))
    \<and> fh_disk (replayFromTranscript es (newHistory d)) = d"
proof (induction es rule: rev_induct)
  case Nil
  then show ?case by (simp add: replayFromTranscript_def newHistory_def)
next
  case (snoc s es)
  then show ?case by (simp add: replay_history_snoc replay_snapshot_def)
qed

definition same_backups :: "history \<Rightarrow> bool" where
  "same_backups h \<longleftrightarrow> (\<forall>m. backups_in m (restarted h) = backups_in m h)"

lemma same_backups_kept:
  "same_backups h \<Longrightarrow> fh_log h' = fh_log h \<Longrightarrow> (\<forall>m. backups_in m h' = backups_in m h) \<Longrightarrow> same_backups h'"
  using replay_disk [of "map fst (fh_log h)" "fh_disk h'" "fh_disk h"] by (simp add: same_backups_def restarted_def backups_in_def)

lemma track_same_backups:
  assumes "same_backups h"
  shows "same_backups (snd (trackEdit sha16 opts p m now h))"
proof -
  let ?h = "h\<lparr>fh_tracked := sadd p (fh_tracked h)\<rparr>"
  obtain s h' where o: "getOrCreateOpenSnapshot m now ?h = (s, h')" by fastforce
  obtain r d where c: "createBackup sha16 (ho_cap opts) p 1 now (fh_disk h') = (r, d)" by fastforce
  have l: "fh_log h' = fh_log h" "\<forall>k. backups_in k h' = backups_in k h" "sn_message s = m"
    using o open_snapshot_message [OF o]
    by (auto simp: getOrCreateOpenSnapshot_def backups_in_def Let_def split: option.splits if_splits)
  have h': "same_backups h'" by (rule same_backups_kept [OF assms l(1,2)])
  show ?thesis
  proof (cases "jget (sn_backups s) p = None \<and> (\<exists>x. r = Inr x)")
    case True
    then obtain b ov where r: "r = Inr (b, ov)" by auto
    let ?s = "s\<lparr>sn_backups := jset p b (sn_backups s)\<rparr>"
    let ?t = "snd (trackEdit sha16 opts p m now h)"
    have t: "?t = recordTranscript ?s Update_record
        (h'\<lparr>fh_disk := d, fh_snapshots := put_snapshot ?s (fh_snapshots h'), fh_pending := fh_pending h' @ [p]\<rparr>)"
      using o c True r by (simp add: trackEdit_def Let_def)
    have "fh_snapshots (restarted ?t) = replace_or_add ?s (fh_snapshots (replayFromTranscript (map fst (fh_log h')) (newHistory d)))"
      unfolding t by (simp add: restarted_def recordTranscript_def replay_history_snoc replay_snapshot_def)
    moreover have "fh_snapshots (replayFromTranscript (map fst (fh_log h')) (newHistory d)) = fh_snapshots (restarted h')"
      using replay_disk [of "map fst (fh_log h')" d "fh_disk h'"] by (simp add: restarted_def)
    ultimately have "backups_in k (restarted ?t) = (if k = m then sn_backups ?s else backups_in k (restarted h'))" for k
      using find_replace_or_add [OF replay_distinct, of k ?s "map fst (fh_log h')" "fh_disk h'"] l(3)
      by (simp add: backups_in_def restarted_def)
    moreover have "backups_in k ?t = (if k = m then sn_backups ?s else backups_in k h')" for k
      unfolding t using l(3) by (simp add: backups_in_def recordTranscript_def)
    ultimately show ?thesis using h' by (simp add: same_backups_def)
  next
    case False
    then have "snd (trackEdit sha16 opts p m now h) = (if jget (sn_backups s) p = None then h'\<lparr>fh_disk := d\<rparr> else h')"
      using o c by (cases r) (auto simp: trackEdit_def)
    then show ?thesis using same_backups_kept [OF h'] h' by (simp add: backups_in_def)
  qed
qed

fun no_snapshot :: "history_op \<Rightarrow> bool" where
  "no_snapshot (Snap m now) = False"
| "no_snapshot op = True"

lemma run_same_backups: "same_backups h \<Longrightarrow> list_all no_snapshot ops \<Longrightarrow> same_backups (history_run sha16 opts h ops)"
proof (induction ops arbitrary: h)
  case (Cons op ops)
  have "same_backups (history_step sha16 opts h op)"
    using Cons.prems same_backups_kept [OF Cons.prems(1)]
    by (cases op) (auto simp: track_same_backups rewind_keeps cache_keeps backups_in_def)
  then show ?case using Cons by simp
qed simp

text \<open>
  A store that replays what was recorded has the backups of every message, so that a rewind to
  a message with backups does the same after a restart, as long as no snapshot was forced.
\<close>

lemma restart_keeps_backups:
  assumes "list_all no_snapshot ops"
  shows "let h = history_run sha16 opts (newHistory d) ops in
     backups_in m (restarted h) = backups_in m h
     \<and> (if backups_in m h = [] then True
        else fst (rewind m now (restarted h)) = fst (rewind m now h)
          \<and> fh_disk (snd (rewind m now (restarted h))) = fh_disk (snd (rewind m now h)))"
proof -
  define h where "h = history_run sha16 opts (newHistory d) ops"
  have "same_backups h" unfolding h_def
    by (rule run_same_backups [OF _ assms]) (simp add: same_backups_def restarted_def replayFromTranscript_def backups_in_def newHistory_def)
  then have b: "backups_in m (restarted h) = backups_in m h" by (simp add: same_backups_def)
  moreover have "fh_disk (restarted h) = fh_disk h" using replay_disk by (simp add: restarted_def)
  ultimately show ?thesis unfolding h_def [symmetric] Let_def
    by (auto simp: rewind_def backups_in_def split: option.splits prod.splits)
qed

section \<open>Names and lines\<close>

lemma parse_digits: "list_all is_digit ds \<Longrightarrow> parseBackupVersion ds = None"
  by (induction ds) (auto simp: is_digit_def)

text \<open>The version of a backup is read back from its name.\<close>

lemma version_round_trip:
  assumes "version < 2 ^ 53"
  shows "parseBackupVersion (getBackupFileName sha16 filePath version) = Some version"
proof -
  have at: "\<not> is_digit CHR ''@''" by (simp add: is_digit_def)
  have "parseBackupVersion (h @ ''@v'' @ show_nat version) = Some version" for h
  proof (induction h)
    case Nil
    then show ?case using assms show_nat_digits [of version] read_show_nat [of version] by simp
  next
    case (Cons c h)
    have "\<not> list_all is_digit (drop 2 (c # h @ ''@v'' @ show_nat version))" if "take 2 (c # h @ ''@v'' @ show_nat version) = ''@v''"
      using that at by (cases h) auto
    then show ?case using Cons by auto
  qed
  then show ?thesis by (simp add: getBackupFileName_def)
qed

lemma line_count_fold: "line_count (foldl count_line m ls) l = line_count m l + count (mset ls) l"
  by (induction ls arbitrary: m) (auto simp: line_count_def count_line_def split: option.splits)

lemma keys_fold_count: "fst ` set (foldl count_line m ls) = fst ` set m \<union> set ls"
  by (induction ls arbitrary: m) (auto simp: count_line_def)

lemma sum_counts:
  assumes "distinct ls" "set_mset M \<subseteq> set ls"
  shows "sum_list (map (count M) ls) = size M"
  using assms by (simp add: sum_list_distinct_conv_sum_set size_multiset_overloaded_eq sum.mono_neutral_cong_right [of "set ls"] not_in_iff)

lemma fold_sadd: "distinct (foldl (\<lambda>ls l. sadd l ls) ks xs) = distinct ks \<and> set (foldl (\<lambda>ls l. sadd l ls) ks xs) = set ks \<union> set xs"
  by (induction xs arbitrary: ks) auto

text \<open>The line counts are the sizes of the two differences of multisets.\<close>

lemma lineDelta_mset:
  "lineDelta before after =
     (size (mset (split_lines after) - mset (split_lines before)), size (mset (split_lines before) - mset (split_lines after)))"
proof -
  let ?b = "foldl count_line [] (split_lines before)" and ?a = "foldl count_line [] (split_lines after)"
  let ?seen = "foldl (\<lambda>ls l. sadd l ls) [] (jkeys ?b @ jkeys ?a)"
  have seen: "distinct ?seen" "set ?seen = set (split_lines before) \<union> set (split_lines after)"
    using fold_sadd [of "[]" "jkeys ?b @ jkeys ?a"] keys_fold_count by (auto simp: jkeys_def)
  have c: "line_count ?a = count (mset (split_lines after))" "line_count ?b = count (mset (split_lines before))"
    by (simp_all add: fun_eq_iff line_count_fold) (simp_all add: line_count_def)
  have d: "sum_list (map (\<lambda>l. count M l - count N l) ?seen) = size (M - N)" if "set_mset M \<subseteq> set ?seen" for M N
  proof -
    have "set_mset (M - N) \<subseteq> set ?seen" using that by (auto dest: in_diffD)
    moreover have "count (M - N) = (\<lambda>l. count M l - count N l)" by (simp add: fun_eq_iff)
    ultimately show ?thesis using sum_counts [OF seen(1), of "M - N"] by (simp only:)
  qed
  show ?thesis unfolding lineDelta_def Let_def c using d seen(2) by simp
qed

end
