(* ===== verification/File_Samples.thy ===== *)
theory File_Samples
  imports File_History
begin

text \<open>Histories of files on concrete disks: the witnesses of their properties and an eviction that a restart forgets.\<close>

definition sample_disk :: file_disk where
  "sample_disk = \<lparr>dk_files = [''/a'' \<mapsto> Regular ''one'' 420 0 True], dk_backups = (\<lambda>_. None)\<rparr>"

definition small_history :: history_options where
  "small_history = \<lparr>ho_cap = 4, ho_max = 1\<rparr>"

lemmas file_run_defs = sample_disk_def small_history_def trackEdit_def getOrCreateOpenSnapshot_def newHistory_def findSnapshot_def
  createBackup_def recordTranscript_def put_snapshot_def sadd_def rewind_def restoreBackup_def null_backup_def
  stat_mode_def getBackupFileName_def

abbreviation edited_run :: history where
  "edited_run \<equiv> history_run id small_history (newHistory sample_disk)
     ([] @ Track ''/a'' ''m1'' 1 # [Outside ''/a'' (Some (Regular ''two'' 420 2 True)), Track ''/b'' ''m2'' 3])"


theorem second_message_overwrites_witness:
  "dk_files (fh_disk (snd (rewind ''m1'' 5 (history_run id small_history (newHistory sample_disk)
     [Track ''/a'' ''m1'' 1, Outside ''/a'' (Some (Regular ''two'' 420 2 True)), Track ''/a'' ''m2'' 3,
      Outside ''/a'' (Some (Regular ''six'' 420 4 True))])))) ''/a'' = Some (Regular ''two'' 420 5 True)"
  using second_message_overwrites [of "''one''" small_history "''two''" "''m1''" "''m2''" sample_disk "''/a''" 420 0 id "''six''"]
  by (simp add: small_history_def sample_disk_def split_beta)

theorem large_file_deleted_witness:
  "dk_files (fh_disk (snd (rewind ''m1'' 3 (history_run id \<lparr>ho_cap = 2, ho_max = 1\<rparr> (newHistory sample_disk)
     [Track ''/a'' ''m1'' 1, Outside ''/a'' (Some (Regular ''two'' 420 2 True))])))) ''/a'' = None"
  using large_file_deleted [of "\<lparr>ho_cap = 2, ho_max = 1\<rparr>" "''one''" sample_disk "''/a''" 420 0 True "''m1''" id "''two''"]
  by (simp add: sample_disk_def split_beta)

theorem restart_keeps_backups_witness:
  "fst (rewind ''m1'' 9 (restarted edited_run)) = Inr ([''/a''], [])"
proof -
  have "list_all no_snapshot ([] @ Track ''/a'' ''m1'' 1 # [Outside ''/a'' (Some (Regular ''two'' 420 2 True)), Track ''/b'' ''m2'' 3])"
    by simp
  moreover have "backups_in ''m1'' edited_run \<noteq> []" "fst (rewind ''m1'' 9 edited_run) = Inr ([''/a''], [])"
    by (simp_all add: file_run_defs backups_in_def Let_def)
  ultimately show ?thesis
    using restart_keeps_backups [of _ id small_history sample_disk "''m1''" 9] unfolding Let_def by metis
qed

text \<open>A snapshot that was evicted is back after a restart, without its backup.\<close>

lemma evicted_snapshot_returns:
  "let h = history_run id small_history (newHistory sample_disk) [Track ''/a'' ''m1'' 1, Outside ''/a'' (Some (Regular ''two'' 420 2 True)), Snap ''m2'' 3] in
     fst (rewind ''m1'' 9 h) = Inl (No_snapshot ''m1'') \<and> fst (rewind ''m1'' 9 (restarted h)) = Inr ([], [''/a''])"
  by (simp add: file_run_defs Let_def makeSnapshot_def snapshot_file_def findPreviousSnapshot_def drop_backup_def jvals_def
      restarted_def replayFromTranscript_def replay_snapshot_def show_nat.simps digit_char_def)

end
