(* ===== verification/Task_Output.thy ===== *)
theory Task_Output
  imports Prelude
begin

text \<open>
  \<open>src/task/storage/TaskOutputStore.ts\<close>: what a background task has printed. The store keeps the last
  bytes in memory, whole chunks at a time, and appends all of them to a file when it has a directory
  for it. The bytes are any type; their decoding as UTF-8 is left to the reader of a slice. The writes
  to the file are asynchronous: each ends in a step that says whether it succeeded.
\<close>

section \<open>The store\<close>

record 'b output_store =
  os_chunks :: "'b list list"
  os_mem :: nat
  os_total :: nat
  os_dropped :: nat
  os_max :: nat
  os_spills :: bool
  os_queue :: "'b list list"
  os_flushing :: "'b list option"
  os_ready :: bool
  os_file :: "'b list"

definition DEFAULT_MEMORY_BYTES :: nat where
  "DEFAULT_MEMORY_BYTES = 1000000"

definition newOutputStore :: "nat \<Rightarrow> bool \<Rightarrow> 'b output_store" where
  "newOutputStore maxMemoryBytes spills =
     \<lparr>os_chunks = [], os_mem = 0, os_total = 0, os_dropped = 0, os_max = maxMemoryBytes, os_spills = spills,
      os_queue = [], os_flushing = None, os_ready = False, os_file = []\<rparr>"

text \<open>The head of the loop that flushes: the next chunk is being written, or the loop is over.\<close>

definition flush_next :: "'b output_store \<Rightarrow> 'b output_store" where
  "flush_next s = (case os_queue s of
     [] \<Rightarrow> s\<lparr>os_flushing := None\<rparr>
   | c # cs \<Rightarrow> s\<lparr>os_queue := cs, os_flushing := Some c\<rparr>)"

definition queueSpill :: "'b list \<Rightarrow> 'b output_store \<Rightarrow> 'b output_store" where
  "queueSpill chunk s =
     (let s' = s\<lparr>os_queue := os_queue s @ [chunk]\<rparr> in if os_flushing s = None then flush_next s' else s')"

text \<open>A write ends: a chunk that was not written is gone, and the rest waits for the next append.\<close>

definition flushSpill :: "bool \<Rightarrow> 'b output_store \<Rightarrow> 'b output_store" where
  "flushSpill ok s =
     (case os_flushing s of
        None \<Rightarrow> s
      | Some c \<Rightarrow> if ok then flush_next (s\<lparr>os_ready := True, os_file := os_file s @ c\<rparr>)
                  else s\<lparr>os_ready := False, os_flushing := None\<rparr>)"

fun shift_oldest :: "'b list list \<Rightarrow> 'b output_store \<Rightarrow> 'b output_store" where
  "shift_oldest [] s = s\<lparr>os_chunks := []\<rparr>"
| "shift_oldest (c # cs) s =
     (if os_max s < os_mem s
      then shift_oldest cs (s\<lparr>os_mem := os_mem s - length c, os_dropped := os_dropped s + length c\<rparr>)
      else s\<lparr>os_chunks := c # cs\<rparr>)"

definition append_chunk :: "'b list \<Rightarrow> 'b output_store \<Rightarrow> 'b output_store" where
  "append_chunk buf s =
     (if buf = [] then s
      else let s1 = s\<lparr>os_total := os_total s + length buf\<rparr>;
               s2 = (if os_spills s1 then queueSpill buf s1 else s1)
           in shift_oldest (os_chunks s2 @ [buf]) (s2\<lparr>os_mem := os_mem s2 + length buf\<rparr>))"

definition close_output :: "'b output_store \<Rightarrow> 'b output_store" where
  "close_output s = s\<lparr>os_chunks := [], os_mem := 0\<rparr>"

section \<open>Slices\<close>

record 'b output_slice =
  sl_content :: "'b list"
  sl_next :: nat
  sl_total :: nat
  sl_truncated :: bool

text \<open>The loop over the chunks, with what is still to be skipped and how much was collected.\<close>

fun collect_slices :: "nat \<Rightarrow> 'b list list \<Rightarrow> nat \<Rightarrow> nat \<Rightarrow> 'b list" where
  "collect_slices wanted [] toSkip collected = []"
| "collect_slices wanted (buf # bufs) toSkip collected =
     (if wanted \<le> collected then []
      else if length buf \<le> toSkip then collect_slices wanted bufs (toSkip - length buf) collected
      else let remaining = wanted - collected;
               end' = min (length buf) (toSkip + remaining);
               piece = take (end' - toSkip) (drop toSkip buf)
           in piece @ collect_slices wanted bufs 0 (collected + (end' - toSkip)))"

definition readSlice :: "int \<Rightarrow> int option \<Rightarrow> 'b output_store \<Rightarrow> 'b output_slice" where
  "readSlice offset maxBytes s =
     (let head = os_total s;
          cursor = nat (max offset (int (os_dropped s)));
          truncated = (offset < int (os_dropped s))
      in if head \<le> cursor
         then \<lparr>sl_content = [], sl_next = head, sl_total = head, sl_truncated = truncated\<rparr>
         else let wanted = (case maxBytes of None \<Rightarrow> head - cursor | Some cap \<Rightarrow> nat (min (int (head - cursor)) cap));
                  content = collect_slices wanted (os_chunks s) (cursor - os_dropped s) 0
              in \<lparr>sl_content = content, sl_next = cursor + length content, sl_total = head, sl_truncated = truncated\<rparr>)"

section \<open>The store holds the end of the stream\<close>

definition output_inv :: "'b list \<Rightarrow> 'b output_store \<Rightarrow> bool" where
  "output_inv stream s \<longleftrightarrow> concat (os_chunks s) = drop (os_dropped s) stream \<and> os_total s = length stream
     \<and> os_dropped s \<le> length stream \<and> os_mem s = length stream - os_dropped s \<and> os_mem s \<le> os_max s"

lemma shift_oldest_inv:
  assumes "concat cs = drop (os_dropped s) stream" "os_dropped s \<le> length stream" "os_mem s = length stream - os_dropped s"
  shows "concat (os_chunks (shift_oldest cs s)) = drop (os_dropped (shift_oldest cs s)) stream
     \<and> os_dropped (shift_oldest cs s) \<le> length stream
     \<and> os_mem (shift_oldest cs s) = length stream - os_dropped (shift_oldest cs s)
     \<and> os_mem (shift_oldest cs s) \<le> os_max s"
  using assms
proof (induction cs arbitrary: s)
  case Nil
  then have "os_mem s = 0" by (metis concat.simps(1) length_drop list.size(3))
  then show ?case using Nil by simp
next
  case (Cons c cs)
  have l: "length c + length (concat cs) = length stream - os_dropped s"
    using arg_cong [OF Cons.prems(1), of length] by simp
  have "concat cs = drop (os_dropped s + length c) stream"
    using arg_cong [OF Cons.prems(1), of "drop (length c)"] by (simp add: add.commute)
  moreover have "os_dropped s + length c \<le> length stream" using l Cons.prems(2) by linarith
  ultimately show ?case
    using Cons.prems(2,3) l Cons.IH [of "s\<lparr>os_mem := os_mem s - length c, os_dropped := os_dropped s + length c\<rparr>"]
      Cons.prems(1) by (cases "os_max s < os_mem s") (auto simp: diff_diff_add)
qed

lemma shift_oldest_keeps [simp]:
  "os_total (shift_oldest cs s) = os_total s" "os_max (shift_oldest cs s) = os_max s" "os_spills (shift_oldest cs s) = os_spills s"
  "os_queue (shift_oldest cs s) = os_queue s" "os_flushing (shift_oldest cs s) = os_flushing s" "os_file (shift_oldest cs s) = os_file s"
  by (induction cs s rule: shift_oldest.induct) auto

lemma flush_next_keeps [simp]:
  "os_chunks (flush_next s) = os_chunks s" "os_mem (flush_next s) = os_mem s" "os_total (flush_next s) = os_total s"
  "os_dropped (flush_next s) = os_dropped s" "os_max (flush_next s) = os_max s" "os_spills (flush_next s) = os_spills s"
  "os_file (flush_next s) = os_file s"
  by (simp_all add: flush_next_def split: list.splits)

lemma queueSpill_keeps [simp]:
  "os_chunks (queueSpill c s) = os_chunks s" "os_mem (queueSpill c s) = os_mem s" "os_total (queueSpill c s) = os_total s"
  "os_dropped (queueSpill c s) = os_dropped s" "os_max (queueSpill c s) = os_max s" "os_spills (queueSpill c s) = os_spills s"
  "os_file (queueSpill c s) = os_file s"
  by (simp_all add: queueSpill_def Let_def)

lemma append_inv: "output_inv stream s \<Longrightarrow> output_inv (stream @ buf) (append_chunk buf s)"
proof (cases "buf = []")
  case False
  assume i: "output_inv stream s"
  let ?s1 = "s\<lparr>os_total := os_total s + length buf\<rparr>"
  let ?s2 = "(if os_spills ?s1 then queueSpill buf ?s1 else ?s1)"
  let ?s3 = "?s2\<lparr>os_mem := os_mem ?s2 + length buf\<rparr>"
  have "concat (os_chunks ?s2 @ [buf]) = drop (os_dropped ?s3) (stream @ buf)"
    "os_dropped ?s3 \<le> length (stream @ buf)" "os_mem ?s3 = length (stream @ buf) - os_dropped ?s3"
    using i by (auto simp: output_inv_def)
  from shift_oldest_inv [OF this] show ?thesis using False i
    by (auto simp: append_chunk_def Let_def output_inv_def)
qed (simp add: append_chunk_def)

lemma flush_inv: "output_inv stream s \<Longrightarrow> output_inv stream (flushSpill ok s)"
  by (auto simp: flushSpill_def output_inv_def split: option.split)

lemma new_inv [simp]: "output_inv [] (newOutputStore k spills)"
  by (simp add: output_inv_def newOutputStore_def)

lemma collect_slices_eq: "collect_slices wanted bufs toSkip collected = take (wanted - collected) (drop toSkip (concat bufs))"
proof (induction bufs arbitrary: toSkip collected)
  case (Cons buf bufs)
  consider "wanted \<le> collected" | "collected < wanted" "length buf \<le> toSkip" | "collected < wanted" "toSkip < length buf" by linarith
  then show ?case
  proof cases
    case 3
    let ?n = "min (length buf) (toSkip + (wanted - collected)) - toSkip"
    have n: "?n = min (length buf - toSkip) (wanted - collected)" using 3 by auto
    have "collect_slices wanted (buf # bufs) toSkip collected =
        take ?n (drop toSkip buf) @ take (wanted - (collected + ?n)) (concat bufs)"
      using 3 Cons.IH by (simp add: Let_def)
    moreover have "take ?n (drop toSkip buf) = take (wanted - collected) (drop toSkip buf)"
      unfolding n by (cases "length buf - toSkip \<le> wanted - collected") simp_all
    moreover have "take (wanted - (collected + ?n)) (concat bufs) = take (wanted - collected - (length buf - toSkip)) (concat bufs)"
      unfolding n by (cases "length buf - toSkip \<le> wanted - collected") auto
    ultimately show ?thesis using 3 by simp
  qed (use Cons in simp_all)
qed simp

section \<open>What readers see\<close>

datatype 'b output_op = Chunk "'b list" | Written bool

fun output_step :: "'b output_store \<Rightarrow> 'b output_op \<Rightarrow> 'b output_store" where
  "output_step s (Chunk buf) = append_chunk buf s"
| "output_step s (Written ok) = flushSpill ok s"

definition chunks_of :: "'b output_op list \<Rightarrow> 'b list list" where
  "chunks_of ops = List.map_filter (\<lambda>op. case op of Chunk buf \<Rightarrow> Some buf | Written ok \<Rightarrow> None) ops"

lemma chunks_of_simps [simp]:
  "chunks_of [] = []" "chunks_of (Chunk buf # ops) = buf # chunks_of ops" "chunks_of (Written ok # ops) = chunks_of ops"
  by (simp_all add: chunks_of_def List.map_filter_def)

lemma run_output_inv: "output_inv stream s \<Longrightarrow> output_inv (stream @ concat (chunks_of ops)) (foldl output_step s ops)"
proof (induction ops arbitrary: stream s)
  case (Cons op ops)
  then show ?case
    by (cases op) (use append_inv flush_inv in \<open>fastforce simp: append_assoc [symmetric] simp del: append_assoc\<close>)+
qed simp

lemma readSlice_eq:
  assumes "output_inv stream s"
  shows "let cursor = nat (max offset (int (os_dropped s))); r = readSlice offset maxBytes s in
     sl_content r = take (case maxBytes of None \<Rightarrow> length stream | Some k \<Rightarrow> nat k) (drop cursor stream)
     \<and> sl_next r = (if length stream \<le> cursor then length stream else cursor + length (sl_content r))
     \<and> sl_total r = length stream \<and> sl_truncated r = (offset < int (os_dropped s))"
proof -
  let ?c = "nat (max offset (int (os_dropped s)))"
  have d: "drop (?c - os_dropped s) (concat (os_chunks s)) = drop ?c stream"
    using assms by (simp add: output_inv_def)
  have t: "os_total s = length stream" using assms by (simp add: output_inv_def)
  have w: "take (nat (min (int (length stream - ?c)) k)) (drop ?c stream) = take (nat k) (drop ?c stream)" for k
    by (cases "k \<le> int (length stream - ?c)") (simp_all add: min_def)
  show ?thesis
  proof (cases "length stream \<le> ?c")
    case True
    then show ?thesis by (simp add: readSlice_def Let_def t)
  next
    case False
    then show ?thesis
      by (cases maxBytes) (simp_all only: readSlice_def Let_def t collect_slices_eq d w option.case if_False diff_zero
          output_slice.select_convs length_drop take_all_iff diff_le_self refl simp_thms, simp_all)
  qed
qed

text \<open>
  C37: Whatever was appended in whatever chunks, and however the writes to the file went, a slice holds
  exactly the bytes of the whole stream from its offset on, up to the maximum asked for, or from the
  first byte still in memory, which it then tells; and memory is within its limit.
\<close>

theorem slice_is_of_stream:
  "let s = foldl output_step (newOutputStore k spills) ops; stream = concat (chunks_of ops);
       r = readSlice offset maxBytes s; cursor = nat (max offset (int (os_dropped s)))
   in sl_content r = take (case maxBytes of None \<Rightarrow> length stream | Some b \<Rightarrow> nat b) (drop cursor stream)
      \<and> sl_next r = (if length stream \<le> cursor then length stream else cursor + length (sl_content r))
      \<and> sl_truncated r = (offset < int (os_dropped s))
      \<and> length (concat (os_chunks s)) = length stream - os_dropped s \<and> length (concat (os_chunks s)) \<le> k"
proof -
  define s where "s = foldl output_step (newOutputStore k spills :: 'a output_store) ops"
  have i: "output_inv (concat (chunks_of ops)) s" using run_output_inv [OF new_inv] by (simp add: s_def)
  have "os_max (output_step t op) = os_max t" for t :: "'a output_store" and op
    by (cases op) (auto simp: append_chunk_def flushSpill_def Let_def split: option.split)
  then have "os_max (foldl output_step t ops) = os_max t" for t :: "'a output_store" by (induction ops arbitrary: t) auto
  then have m: "os_max s = k" by (simp add: s_def newOutputStore_def)
  show ?thesis unfolding s_def [symmetric] using readSlice_eq [OF i, of offset maxBytes] i m
    by (simp add: Let_def output_inv_def)
qed

datatype 'b poll_op = Print "'b list" | Poll "int option"

fun poll_step :: "'b output_store \<times> nat \<times> 'b list \<times> bool \<Rightarrow> 'b poll_op \<Rightarrow> 'b output_store \<times> nat \<times> 'b list \<times> bool" where
  "poll_step (s, offset, got, truncated) (Print buf) = (append_chunk buf s, offset, got, truncated)"
| "poll_step (s, offset, got, truncated) (Poll maxBytes) =
     (let r = readSlice (int offset) maxBytes s
      in (s, sl_next r, got @ sl_content r, truncated \<or> sl_truncated r))"

text \<open>The bytes printed so far.\<close>

definition printed :: "'b poll_op list \<Rightarrow> 'b list" where
  "printed ops = concat (map (\<lambda>op. case op of Print buf \<Rightarrow> buf | Poll m \<Rightarrow> []) ops)"

lemma poll_inv:
  assumes "output_inv stream s" "offset \<le> length stream" "\<not> truncated \<Longrightarrow> got = take offset stream"
    "foldl poll_step (s, offset, got, truncated) ops = (s', offset', got', truncated')"
  shows "offset' \<le> length (stream @ printed ops) \<and> (\<not> truncated' \<longrightarrow> got' = take offset' (stream @ printed ops))"
  using assms
proof (induction ops arbitrary: stream s offset got truncated)
  case (Cons op ops)
  show ?case
  proof (cases op)
    case (Print buf)
    then show ?thesis
      using Cons.IH [of "stream @ buf" "append_chunk buf s" offset truncated got] Cons.prems append_inv [OF Cons.prems(1), of buf]
      by (simp add: printed_def)
  next
    case (Poll m)
    let ?r = "readSlice (int offset) m s"
    note r = readSlice_eq [OF Cons.prems(1), of "int offset" m, unfolded Let_def]
    have next_le: "sl_next ?r \<le> length stream" using r by (auto split: option.splits)
    have got: "got @ sl_content ?r = take (sl_next ?r) stream" if "\<not> (truncated \<or> sl_truncated ?r)"
    proof -
      have c: "nat (max (int offset) (int (os_dropped s))) = offset" using that r by simp
      have "take offset stream @ take n (drop offset stream) = take (offset + length (take n (drop offset stream))) stream" for n
        by (simp add: take_add [symmetric] min_def)
      then show ?thesis using r that Cons.prems(2,3) unfolding c by (auto split: option.splits)
    qed
    have "foldl poll_step (s, sl_next ?r, got @ sl_content ?r, truncated \<or> sl_truncated ?r) ops = (s', offset', got', truncated')"
      using Cons.prems(4) Poll by (simp add: Let_def)
    from Cons.IH [OF Cons.prems(1) next_le got this] show ?thesis using Poll by (simp add: printed_def)
  qed
qed (simp add: printed_def)

text \<open>
  A reader that always asks from the offset it was last given, between any appends and with any
  maxima, has read the stream up to this offset, without gaps and doubles, unless a slice told that
  it was truncated.
\<close>

lemma poll_reads_stream:
  "case foldl poll_step (newOutputStore k spills, 0, [], False) ops of (s, offset, got, truncated) \<Rightarrow>
     offset \<le> length (printed ops) \<and> (if truncated then True else got = take offset (printed ops))"
  using poll_inv [OF new_inv, of 0 False "[]" k spills ops] by (auto split: prod.split)

section \<open>The file\<close>

definition spill_inv :: "'b list \<Rightarrow> 'b output_store \<Rightarrow> bool" where
  "spill_inv stream s \<longleftrightarrow> os_spills s \<and>
     stream = os_file s @ (case os_flushing s of None \<Rightarrow> [] | Some c \<Rightarrow> c) @ concat (os_queue s)
     \<and> (os_flushing s = None \<longrightarrow> os_queue s = [])"

lemma append_spill: "spill_inv stream s \<Longrightarrow> spill_inv (stream @ buf) (append_chunk buf s)"
  by (auto simp: append_chunk_def spill_inv_def queueSpill_def flush_next_def Let_def split: option.splits list.splits)

lemma flush_spill: "spill_inv stream s \<Longrightarrow> spill_inv stream (flushSpill True s)"
  by (auto simp: flushSpill_def spill_inv_def flush_next_def split: option.splits list.splits)

text \<open>While every write succeeds the file and what is on the way to it are the whole stream.\<close>

lemma file_has_stream:
  "spill_inv stream s \<Longrightarrow> list_all (\<lambda>op. op \<noteq> Written False) ops \<Longrightarrow>
     spill_inv (stream @ concat (chunks_of ops)) (foldl output_step s ops)"
proof (induction ops arbitrary: stream s)
  case (Cons op ops)
  show ?case
  proof (cases op)
    case (Chunk buf)
    then show ?thesis using Cons.IH [OF append_spill [OF Cons.prems(1), of buf]] Cons.prems(2) by simp
  next
    case (Written ok)
    then show ?thesis using Cons.IH [OF flush_spill [OF Cons.prems(1)]] Cons.prems(2) by simp
  qed
qed simp

text \<open>A chunk whose write failed is never written again; what waits behind it is.\<close>

lemma failed_write_loses_chunk:
  "os_file (foldl output_step (newOutputStore 9 True) [Chunk [a], Chunk [b], Written False, Chunk [c], Written True, Written True])
     = [b, c]"
  by (simp add: newOutputStore_def append_chunk_def queueSpill_def flush_next_def flushSpill_def Let_def)

text \<open>A chunk longer than the memory is dropped at once.\<close>

lemma long_chunk_dropped: "k < length buf \<Longrightarrow> os_chunks (append_chunk buf (newOutputStore k False)) = []"
  by (simp add: newOutputStore_def append_chunk_def Let_def)

text \<open>After closing, a reader behind the head is given nothing and stays where it is.\<close>

lemma closed_store_is_empty:
  "os_dropped s \<le> n \<Longrightarrow> n < os_total s \<Longrightarrow>
     sl_content (readSlice (int n) m (close_output s)) = [] \<and> sl_next (readSlice (int n) m (close_output s)) = n"
proof -
  assume d: "os_dropped s \<le> n" and n: "n < os_total s"
  have c: "nat (max (int n) (int (os_dropped s))) = n" using d by simp
  show ?thesis using n
    by (simp only: readSlice_def close_output_def Let_def output_store.simps) (simp add: c del: nat_int_comparison)
qed

end
