(* ===== verification/Background_Tasks.thy ===== *)
theory Background_Tasks
  imports Task_Output
begin

text \<open>
  \<open>src/task/runtime/BackgroundTaskRuntime.ts\<close>: shell commands that run in the background. The processes
  are outside: whether one is spawned is an argument of a start, and what it prints, that it fails and
  that it exits are events. A process tells its exit at most once. A host that wants to hear of
  completed tasks is there. The texts of messages are bytes given by the caller.
\<close>

section \<open>Tasks\<close>

datatype task_status = Task_pending | Task_running | Task_completed | Task_failed | Task_cancelled

datatype task_kind = Bash_kind | Monitor_kind

datatype kill_signal = SIGTERM | SIGKILL | Other_signal string

record bash_task =
  bt_id :: string
  bt_agent :: "string option"
  bt_session :: "string option"
  bt_kind :: task_kind
  bt_command :: string
  bt_cwd :: string
  bt_pid :: "nat option"
  bt_status :: task_status
  bt_exit :: "int option option"
  bt_sent :: bool
  bt_interrupted :: bool
  bt_started :: int
  bt_ended :: "int option"
  bt_bytes :: nat

record start_spec =
  ss_command :: string
  ss_cwd :: string
  ss_agent :: "string option"
  ss_session :: "string option"
  ss_kind :: "task_kind option"

record completion_event =
  ce_session :: "string option"
  ce_task :: string
  ce_status :: task_status
  ce_exit :: "int option option"
  ce_preview :: string
  ce_total :: nat
  ce_started :: int
  ce_ended :: int

record runtime_entry =
  en_task :: bash_task
  en_child :: bool
  en_output :: "char output_store"
  en_done :: bool

text \<open>The signals sent, and the calls of stop that wait, each with whether its timer is still set.\<close>

record task_runtime =
  rt_entries :: "(string, runtime_entry) jmap"
  rt_max :: nat
  rt_preview :: int
  rt_spills :: bool
  rt_completions :: "completion_event list"
  rt_signals :: "(string \<times> kill_signal) list"
  rt_stops :: "(string \<times> bool) list"

datatype task_error = Too_many_tasks nat | Unknown_task string

definition DEFAULT_MAX_TASKS :: nat where
  "DEFAULT_MAX_TASKS = 32"

definition DEFAULT_COMPLETION_PREVIEW_BYTES :: int where
  "DEFAULT_COMPLETION_PREVIEW_BYTES = 4000"

definition newTaskRuntime :: "nat option \<Rightarrow> int option \<Rightarrow> bool \<Rightarrow> task_runtime" where
  "newTaskRuntime maxTasks preview spills =
     \<lparr>rt_entries = [], rt_max = (case maxTasks of None \<Rightarrow> DEFAULT_MAX_TASKS | Some n \<Rightarrow> n),
      rt_preview = (case preview of None \<Rightarrow> DEFAULT_COMPLETION_PREVIEW_BYTES | Some n \<Rightarrow> n), rt_spills = spills,
      rt_completions = [], rt_signals = [], rt_stops = []\<rparr>"

section \<open>Completion\<close>

definition notifyCompletion :: "bash_task \<Rightarrow> char output_store \<Rightarrow> task_runtime \<Rightarrow> task_runtime" where
  "notifyCompletion t out rt =
     (case bt_ended t of
        None \<Rightarrow> rt
      | Some ended \<Rightarrow>
          let previewBytes = max 0 (rt_preview rt); total = os_total out;
              slice = readSlice (max 0 (int total - previewBytes)) (Some previewBytes) out
          in rt\<lparr>rt_completions := rt_completions rt @
               [\<lparr>ce_session = bt_session t, ce_task = bt_id t, ce_status = bt_status t, ce_exit = bt_exit t,
                 ce_preview = sl_content slice, ce_total = total, ce_started = bt_started t, ce_ended = ended\<rparr>]\<rparr>)"

definition put_entry :: "runtime_entry \<Rightarrow> task_runtime \<Rightarrow> task_runtime" where
  "put_entry e rt = rt\<lparr>rt_entries := jset (bt_id (en_task e)) e (rt_entries rt)\<rparr>"

definition new_task :: "string \<Rightarrow> start_spec \<Rightarrow> int \<Rightarrow> bash_task" where
  "new_task taskId spec startedAt =
     \<lparr>bt_id = taskId, bt_agent = ss_agent spec, bt_session = ss_session spec,
      bt_kind = (case ss_kind spec of None \<Rightarrow> Bash_kind | Some k \<Rightarrow> k), bt_command = ss_command spec, bt_cwd = ss_cwd spec,
      bt_pid = None, bt_status = Task_pending, bt_exit = None, bt_sent = False, bt_interrupted = False,
      bt_started = startedAt, bt_ended = None, bt_bytes = 0\<rparr>"

text \<open>Spawning throws a message or gives a process that may have an id.\<close>

definition start_task ::
  "string \<Rightarrow> start_spec \<Rightarrow> (string, nat option) result \<Rightarrow> int \<Rightarrow> task_runtime \<Rightarrow> (task_error, bash_task) result \<times> task_runtime" where
  "start_task taskId spec spawned now rt =
     (if rt_max rt \<le> length (rt_entries rt) then (Inl (Too_many_tasks (rt_max rt)), rt)
      else let t = new_task taskId spec now; out = newOutputStore DEFAULT_MEMORY_BYTES (rt_spills rt) in
        case spawned of
          Inl message \<Rightarrow>
            let out' = append_chunk message out;
                t' = t\<lparr>bt_status := Task_failed, bt_sent := True, bt_ended := Some now, bt_bytes := os_total out'\<rparr>
            in (Inr t', notifyCompletion t' out'
                  (put_entry \<lparr>en_task = t', en_child = False, en_output = out', en_done = True\<rparr> rt))
        | Inr pid \<Rightarrow>
            let t' = t\<lparr>bt_status := Task_running, bt_pid := pid\<rparr>
            in (Inr t', put_entry \<lparr>en_task = t', en_child = True, en_output = out, en_done = False\<rparr> rt))"

section \<open>Events of a process\<close>

definition print_output :: "string \<Rightarrow> runtime_entry \<Rightarrow> runtime_entry" where
  "print_output chunk e =
     (let out = append_chunk chunk (en_output e)
      in e\<lparr>en_output := out, en_task := (en_task e)\<lparr>bt_bytes := os_total out\<rparr>\<rparr>)"

definition on_data :: "string \<Rightarrow> string \<Rightarrow> task_runtime \<Rightarrow> task_runtime" where
  "on_data taskId chunk rt =
     (case jget (rt_entries rt) taskId of
        None \<Rightarrow> rt
      | Some e \<Rightarrow> if en_child e then put_entry (print_output chunk e) rt else rt)"

definition exit_status :: "bash_task \<Rightarrow> int option \<Rightarrow> kill_signal option \<Rightarrow> task_status" where
  "exit_status t code signal =
     (if bt_interrupted t \<or> signal = Some SIGTERM \<or> signal = Some SIGKILL then Task_cancelled
      else if code = Some 0 then Task_completed else Task_failed)"

definition on_exit :: "string \<Rightarrow> int option \<Rightarrow> kill_signal option \<Rightarrow> int \<Rightarrow> task_runtime \<Rightarrow> task_runtime" where
  "on_exit taskId code signal now rt =
     (case jget (rt_entries rt) taskId of
        None \<Rightarrow> rt
      | Some e \<Rightarrow>
          if \<not> en_child e \<or> en_done e then rt
          else let t = (en_task e)\<lparr>bt_ended := Some now, bt_exit := Some code, bt_bytes := os_total (en_output e),
                          bt_status := exit_status (en_task e) code signal, bt_sent := True\<rparr>
               in notifyCompletion t (en_output e)
                    (put_entry (e\<lparr>en_task := t, en_done := True\<rparr>)
                      (rt\<lparr>rt_stops := map (\<lambda>(k, timer). (k, timer \<and> k \<noteq> taskId)) (rt_stops rt)\<rparr>)))"

section \<open>Stopping\<close>

definition stop_task :: "string \<Rightarrow> task_runtime \<Rightarrow> (task_error, unit) result \<times> task_runtime" where
  "stop_task taskId rt =
     (case jget (rt_entries rt) taskId of
        None \<Rightarrow> (Inl (Unknown_task taskId), rt)
      | Some e \<Rightarrow>
          if bt_status (en_task e) \<noteq> Task_running then (Inr (), rt)
          else if \<not> en_child e then (Inr (), rt)
          else (Inr (), (put_entry (e\<lparr>en_task := (en_task e)\<lparr>bt_interrupted := True\<rparr>\<rparr>) rt)
                 \<lparr>rt_signals := rt_signals rt @ [(taskId, SIGTERM)], rt_stops := rt_stops rt @ [(taskId, True)]\<rparr>))"

text \<open>The timer of a stop.\<close>

definition grace_over :: "nat \<Rightarrow> task_runtime \<Rightarrow> task_runtime" where
  "grace_over i rt =
     (if i < length (rt_stops rt) \<and> snd (rt_stops rt ! i)
      then rt\<lparr>rt_signals := rt_signals rt @ [(fst (rt_stops rt ! i), SIGKILL)],
              rt_stops := (rt_stops rt)[i := (fst (rt_stops rt ! i), False)]\<rparr>
      else rt)"

text \<open>A stop has returned, or a wait without a time limit, when the process has told its exit.\<close>

definition stop_returned :: "string \<Rightarrow> task_runtime \<Rightarrow> bool" where
  "stop_returned taskId rt = (case jget (rt_entries rt) taskId of None \<Rightarrow> True | Some e \<Rightarrow> en_done e \<or> bt_status (en_task e) \<noteq> Task_running)"

definition killForAgent :: "string \<Rightarrow> task_runtime \<Rightarrow> task_runtime" where
  "killForAgent agentId rt =
     foldl (\<lambda>r e. snd (stop_task (bt_id (en_task e)) r)) rt
       (filter (\<lambda>e. bt_agent (en_task e) = Some agentId \<and> bt_status (en_task e) = Task_running) (jvals (rt_entries rt)))"

definition killAll :: "task_runtime \<Rightarrow> task_runtime" where
  "killAll rt =
     foldl (\<lambda>r e. snd (stop_task (bt_id (en_task e)) r)) rt
       (filter (\<lambda>e. bt_status (en_task e) = Task_running) (jvals (rt_entries rt)))"

section \<open>Queries\<close>

record task_filter =
  tf_agent :: "string option"
  tf_kind :: "task_kind option"
  tf_status :: "task_status list option"

definition list_tasks :: "task_filter \<Rightarrow> task_runtime \<Rightarrow> bash_task list" where
  "list_tasks f rt = filter (\<lambda>t.
       (case tf_agent f of None \<Rightarrow> True | Some a \<Rightarrow> a = [] \<or> bt_agent t = Some a)
     \<and> (case tf_kind f of None \<Rightarrow> True | Some k \<Rightarrow> bt_kind t = k)
     \<and> (case tf_status f of None \<Rightarrow> True | Some ss \<Rightarrow> bt_status t \<in> set ss)) (map en_task (jvals (rt_entries rt)))"

definition get_task :: "string \<Rightarrow> task_runtime \<Rightarrow> bash_task option" where
  "get_task taskId rt = map_option en_task (jget (rt_entries rt) taskId)"

definition getOutput :: "string \<Rightarrow> int \<Rightarrow> int option \<Rightarrow> task_runtime \<Rightarrow> (task_error, char output_slice) result" where
  "getOutput taskId offset maxBytes rt =
     (case jget (rt_entries rt) taskId of
        None \<Rightarrow> Inl (Unknown_task taskId)
      | Some e \<Rightarrow> Inr (readSlice offset maxBytes (en_output e)))"

datatype wait_outcome = Wait_completed | Wait_timeout | Wait_aborted

text \<open>A wait is ends_kept by what was so before, in the order of the race, or else by what happens first.\<close>

fun wait_settled :: "bool \<Rightarrow> bool \<Rightarrow> wait_outcome list \<Rightarrow> wait_outcome option" where
  "wait_settled True aborted events = Some Wait_completed"
| "wait_settled False True events = Some Wait_aborted"
| "wait_settled False False [] = None"
| "wait_settled False False (e # events) = Some e"

definition wait_task :: "string \<Rightarrow> bool \<Rightarrow> wait_outcome list \<Rightarrow> task_runtime \<Rightarrow> (wait_outcome option \<times> bash_task) option" where
  "wait_task taskId aborted events rt =
     map_option (\<lambda>e. (wait_settled (en_done e) aborted events, en_task e)) (jget (rt_entries rt) taskId)"

section \<open>Runs\<close>

datatype task_op =
    Start_task string start_spec "(string, nat option) result" int
  | Child_prints string string
  | Child_exits string "int option" "kill_signal option" int
  | Stop_task string
  | Grace_over nat
  | Kill_for_agent string
  | Kill_all

text \<open>An error of the process only prints its message.\<close>

fun task_step :: "task_runtime \<Rightarrow> task_op \<Rightarrow> task_runtime" where
  "task_step rt (Start_task k spec spawned now) = snd (start_task k spec spawned now rt)"
| "task_step rt (Child_prints k chunk) = on_data k chunk rt"
| "task_step rt (Child_exits k code signal now) = on_exit k code signal now rt"
| "task_step rt (Stop_task k) = snd (stop_task k rt)"
| "task_step rt (Grace_over i) = grace_over i rt"
| "task_step rt (Kill_for_agent a) = killForAgent a rt"
| "task_step rt Kill_all = killAll rt"

definition started :: "task_op list \<Rightarrow> string list" where
  "started ops = List.map_filter (\<lambda>op. case op of Start_task k _ _ _ \<Rightarrow> Some k | _ \<Rightarrow> None) ops"

lemma started_simps [simp]:
  "started [] = []" "started (op # ops) = (case op of Start_task k _ _ _ \<Rightarrow> [k] | _ \<Rightarrow> []) @ started ops"
  "started (xs @ ys) = started xs @ started ys"
  by (auto simp: started_def List.map_filter_def split: task_op.splits)

section \<open>Every end is told once\<close>

definition told :: "task_runtime \<Rightarrow> string \<Rightarrow> completion_event list" where
  "told rt k = filter (\<lambda>c. ce_task c = k) (rt_completions rt)"

definition entry_ok :: "task_runtime \<Rightarrow> string \<Rightarrow> runtime_entry \<Rightarrow> bool" where
  "entry_ok rt k e \<longleftrightarrow> bt_id (en_task e) = k
     \<and> (if en_done e
        then bt_status (en_task e) \<in> {Task_completed, Task_failed, Task_cancelled}
             \<and> map (\<lambda>c. (ce_status c, ce_exit c)) (told rt k) = [(bt_status (en_task e), bt_exit (en_task e))]
        else bt_status (en_task e) = Task_running \<and> en_child e \<and> told rt k = [])"

definition tasks_ok :: "task_runtime \<Rightarrow> bool" where
  "tasks_ok rt \<longleftrightarrow> (\<forall>k. case map_of (rt_entries rt) k of None \<Rightarrow> told rt k = [] | Some e \<Rightarrow> entry_ok rt k e)"

definition final_of :: "runtime_entry \<Rightarrow> task_status \<times> int option option \<times> int option" where
  "final_of e = (bt_status (en_task e), bt_exit (en_task e), bt_ended (en_task e))"

definition ends_kept :: "task_runtime \<Rightarrow> task_runtime \<Rightarrow> bool" where
  "ends_kept rt rt' \<longleftrightarrow> (\<forall>k e. map_of (rt_entries rt) k = Some e \<and> en_done e \<longrightarrow>
     (\<exists>e'. map_of (rt_entries rt') k = Some e' \<and> en_done e' \<and> final_of e' = final_of e))"

lemma ends_kept_refl [simp]: "ends_kept rt rt"
  by (simp add: ends_kept_def)

lemma ends_kept_trans: "ends_kept a b \<Longrightarrow> ends_kept b c \<Longrightarrow> ends_kept a c"
  unfolding ends_kept_def by metis

lemma tasks_okD: "tasks_ok rt \<Longrightarrow> map_of (rt_entries rt) k = Some e \<Longrightarrow> entry_ok rt k e"
  unfolding tasks_ok_def by (metis option.simps(5))

lemma put_entry_sel [simp]:
  "rt_entries (put_entry e rt) = jset (bt_id (en_task e)) e (rt_entries rt)" "rt_completions (put_entry e rt) = rt_completions rt"
  "rt_max (put_entry e rt) = rt_max rt"
  by (simp_all add: put_entry_def)

lemma entry_ok_cong: "told rt' k = told rt k \<Longrightarrow> entry_ok rt' k e = entry_ok rt k e"
  by (simp add: entry_ok_def)

text \<open>A change of one entry.\<close>

lemma change_one:
  assumes "tasks_ok rt" "rt_entries rt' = jset k e (rt_entries rt)" "\<And>j. j \<noteq> k \<Longrightarrow> told rt' j = told rt j" "entry_ok rt' k e"
    "case map_of (rt_entries rt) k of None \<Rightarrow> True | Some e0 \<Rightarrow> en_done e0 \<longrightarrow> en_done e \<and> final_of e = final_of e0"
  shows "tasks_ok rt' \<and> ends_kept rt rt'"
proof
  show "tasks_ok rt'" unfolding tasks_ok_def
  proof
    fix j
    have "case map_of (rt_entries rt) j of None \<Rightarrow> told rt j = [] | Some e \<Rightarrow> entry_ok rt j e"
      using assms(1) unfolding tasks_ok_def by blast
    then show "case map_of (rt_entries rt') j of None \<Rightarrow> told rt' j = [] | Some e \<Rightarrow> entry_ok rt' j e"
      using assms(2,3,4) entry_ok_cong [OF assms(3), of j] by (cases "j = k") (auto split: option.splits)
  qed
  show "ends_kept rt rt'" using assms(2,5) by (auto simp: ends_kept_def)
qed

text \<open>An entry that stays as far along as it was.\<close>

lemma update_ok:
  assumes "tasks_ok rt" "map_of (rt_entries rt) k = Some e" "rt_entries rt' = jset k e' (rt_entries rt)"
    "rt_completions rt' = rt_completions rt" "bt_id (en_task e') = bt_id (en_task e)" "en_child e' = en_child e" "en_done e' = en_done e"
    "final_of e' = final_of e"
  shows "tasks_ok rt' \<and> ends_kept rt rt'"
proof -
  have t: "told rt' j = told rt j" for j using assms(4) by (simp add: told_def)
  have "entry_ok rt k e'" using tasks_okD [OF assms(1,2)] assms(5-8) by (auto simp: entry_ok_def final_of_def)
  then show ?thesis using assms(2,7,8) entry_ok_cong [OF t] t by (intro change_one [OF assms(1,3)]) auto
qed

lemma stop_ok: "tasks_ok rt \<Longrightarrow> tasks_ok (snd (stop_task k rt)) \<and> ends_kept rt (snd (stop_task k rt))"
proof (cases "map_of (rt_entries rt) k")
  case (Some e)
  assume t: "tasks_ok rt"
  have k: "bt_id (en_task e) = k" using tasks_okD [OF t Some] by (simp add: entry_ok_def)
  show ?thesis
  proof (cases "bt_status (en_task e) = Task_running \<and> en_child e")
    case True
    then show ?thesis using Some k
      by (intro update_ok [OF t Some, of _ "e\<lparr>en_task := (en_task e)\<lparr>bt_interrupted := True\<rparr>\<rparr>"])
        (simp_all add: stop_task_def final_of_def)
  qed (use Some t in \<open>auto simp: stop_task_def\<close>)
qed (simp add: stop_task_def)

lemma stop_all_ok:
  "tasks_ok rt \<Longrightarrow> tasks_ok (foldl (\<lambda>r e. snd (stop_task (bt_id (en_task e)) r)) rt es)
     \<and> ends_kept rt (foldl (\<lambda>r e. snd (stop_task (bt_id (en_task e)) r)) rt es)"
proof (induction es arbitrary: rt)
  case (Cons e es)
  then show ?case using stop_ok [OF Cons.prems] ends_kept_trans by fastforce
qed simp

lemma data_ok: "tasks_ok rt \<Longrightarrow> tasks_ok (on_data k chunk rt) \<and> ends_kept rt (on_data k chunk rt)"
proof (cases "map_of (rt_entries rt) k")
  case (Some e)
  assume t: "tasks_ok rt"
  have k: "bt_id (en_task e) = k" using tasks_okD [OF t Some] by (simp add: entry_ok_def)
  show ?thesis
  proof (cases "en_child e")
    case True
    then show ?thesis using Some k
      by (intro update_ok [OF t Some, of _ "print_output chunk e"]) (simp_all add: on_data_def print_output_def final_of_def Let_def)
  qed (use Some t in \<open>simp add: on_data_def\<close>)
qed (simp add: on_data_def)

text \<open>An entry that ends, or begins with its end, and tells it.\<close>

lemma end_ok:
  assumes "tasks_ok rt" "case map_of (rt_entries rt) k of None \<Rightarrow> True | Some e0 \<Rightarrow> \<not> en_done e0"
    "rt_entries rt' = jset k e (rt_entries rt)" "rt_completions rt' = rt_completions rt @ [c]"
    "bt_id (en_task e) = k" "en_done e" "bt_status (en_task e) \<in> {Task_completed, Task_failed, Task_cancelled}"
    "ce_task c = k" "ce_status c = bt_status (en_task e)" "ce_exit c = bt_exit (en_task e)"
  shows "tasks_ok rt' \<and> ends_kept rt rt'"
proof -
  have n: "told rt k = []"
    using assms(1) assms(2) by (auto simp: tasks_ok_def entry_ok_def dest!: spec [of _ k] split: option.splits)
  have c: "told rt' j = (if j = k then [c] else told rt j)" for j using assms(4,8) n by (auto simp: told_def)
  have "entry_ok rt' k e" using assms(5-10) c [of k] by (simp add: entry_ok_def)
  then show ?thesis using assms(2) c by (intro change_one [OF assms(1,3)]) (auto split: option.splits)
qed

lemma notify_tells:
  assumes "bt_ended t = Some ended"
  obtains c where "rt_completions (notifyCompletion t out rt) = rt_completions rt @ [c]"
    "ce_task c = bt_id t" "ce_status c = bt_status t" "ce_exit c = bt_exit t"
  using assms by (auto simp: notifyCompletion_def Let_def)

lemma notify_sel [simp]: "rt_entries (notifyCompletion t out rt) = rt_entries rt" "rt_max (notifyCompletion t out rt) = rt_max rt"
  by (simp_all add: notifyCompletion_def Let_def split: option.split)

lemma exit_ok: "tasks_ok rt \<Longrightarrow> tasks_ok (on_exit k code signal now rt) \<and> ends_kept rt (on_exit k code signal now rt)"
proof (cases "map_of (rt_entries rt) k")
  case (Some e)
  assume t: "tasks_ok rt"
  have k: "bt_id (en_task e) = k" using tasks_okD [OF t Some] by (simp add: entry_ok_def)
  show ?thesis
  proof (cases "en_child e \<and> \<not> en_done e")
    case True
    let ?t = "(en_task e)\<lparr>bt_ended := Some now, bt_exit := Some code, bt_bytes := os_total (en_output e),
                          bt_status := exit_status (en_task e) code signal, bt_sent := True\<rparr>"
    let ?rt = "put_entry (e\<lparr>en_task := ?t, en_done := True\<rparr>)
                      (rt\<lparr>rt_stops := map (\<lambda>(k', timer). (k', timer \<and> k' \<noteq> k)) (rt_stops rt)\<rparr>)"
    have x: "on_exit k code signal now rt = notifyCompletion ?t (en_output e) ?rt"
      using True Some by (simp only: on_exit_def option.case Let_def if_False not_not simp_thms)
    obtain c where c: "rt_completions (notifyCompletion ?t (en_output e) ?rt) = rt_completions ?rt @ [c]"
      "ce_task c = bt_id ?t" "ce_status c = bt_status ?t" "ce_exit c = bt_exit ?t"
      by (rule notify_tells [of ?t now "en_output e" ?rt]) simp
    have "bt_status ?t \<in> {Task_completed, Task_failed, Task_cancelled}" by (simp add: exit_status_def)
    then show ?thesis unfolding x using True Some k c
      by (intro end_ok [OF t, of k _ "e\<lparr>en_task := ?t, en_done := True\<rparr>" c]) simp_all
  qed (use Some t in \<open>auto simp: on_exit_def\<close>)
qed (simp add: on_exit_def)

lemma start_ok:
  assumes "tasks_ok rt" "map_of (rt_entries rt) k = None"
  shows "tasks_ok (snd (start_task k spec spawned now rt)) \<and> ends_kept rt (snd (start_task k spec spawned now rt))"
proof (cases "rt_max rt \<le> length (rt_entries rt)")
  case False
  let ?rt = "snd (start_task k spec spawned now rt)"
  show ?thesis
  proof (cases spawned)
    case (Inl message)
    obtain e c where "rt_entries ?rt = jset k e (rt_entries rt)" "rt_completions ?rt = rt_completions rt @ [c]"
      "bt_id (en_task e) = k" "en_done e" "bt_status (en_task e) = Task_failed" "ce_task c = k" "ce_status c = Task_failed"
      "ce_exit c = bt_exit (en_task e)"
      using False Inl by (simp add: start_task_def notifyCompletion_def new_task_def Let_def)
    then show ?thesis using assms by (intro end_ok [OF assms(1), of k _ e c]) simp_all
  next
    case (Inr pid)
    obtain e where e: "rt_entries ?rt = jset k e (rt_entries rt)" "rt_completions ?rt = rt_completions rt"
      "bt_id (en_task e) = k" "\<not> en_done e" "bt_status (en_task e) = Task_running" "en_child e"
      using False Inr by (simp add: start_task_def new_task_def Let_def)
    have n: "told rt k = []" using assms by (auto simp: tasks_ok_def dest: spec [of _ k])
    have t: "told ?rt j = told rt j" for j using e(2) by (simp add: told_def)
    have "entry_ok ?rt k e" using e n t by (simp add: entry_ok_def)
    then show ?thesis using assms(2) t by (intro change_one [OF assms(1) e(1)]) simp_all
  qed
qed (use assms in \<open>simp add: start_task_def\<close>)

definition same_keys :: "task_runtime \<Rightarrow> task_runtime \<Rightarrow> bool" where
  "same_keys rt rt' \<longleftrightarrow> map fst (rt_entries rt') = map fst (rt_entries rt) \<and> rt_max rt' = rt_max rt"

lemma same_keys_trans: "same_keys a b \<Longrightarrow> same_keys b c \<Longrightarrow> same_keys a c"
  by (simp add: same_keys_def)

lemma put_in_place: "map_of m k = Some x \<Longrightarrow> map fst (jset k e m) = map fst m"
  by (metis update_keys jget_in_keys list.set_map)

lemma stop_same_keys: "tasks_ok rt \<Longrightarrow> same_keys rt (snd (stop_task k rt))"
  using tasks_okD [of rt k]
  by (auto simp: stop_task_def same_keys_def entry_ok_def put_in_place split: option.splits)

lemma stop_all_same_keys:
  "tasks_ok rt \<Longrightarrow> same_keys rt (foldl (\<lambda>r e. snd (stop_task (bt_id (en_task e)) r)) rt es)"
proof (induction es arbitrary: rt)
  case (Cons e es)
  then show ?case using stop_ok [OF Cons.prems] stop_same_keys [OF Cons.prems] same_keys_trans by fastforce
qed (simp add: same_keys_def)

text \<open>Every operation but a start keeps the tasks there are, and a start adds at most its own.\<close>

lemma step_same_keys: "tasks_ok rt \<Longrightarrow> started [op] = [] \<Longrightarrow> same_keys rt (task_step rt op)"
proof -
  assume t: "tasks_ok rt" and s: "started [op] = []"
  have p: "print_output chunk e = e' \<Longrightarrow> bt_id (en_task e') = bt_id (en_task e)" for chunk e e'
    by (auto simp: print_output_def Let_def)
  show ?thesis
  proof (cases op)
    case (Child_prints k chunk)
    then show ?thesis using tasks_okD [OF t, of k] p [OF refl]
      by (auto simp: on_data_def same_keys_def entry_ok_def put_in_place split: option.split)
  next
    case (Child_exits k code signal now)
    then show ?thesis using tasks_okD [OF t, of k]
      by (auto simp: on_exit_def same_keys_def entry_ok_def put_in_place Let_def split: option.split)
  next
    case (Grace_over i)
    then show ?thesis by (simp add: grace_over_def same_keys_def)
  qed (use s t in \<open>auto simp: stop_same_keys stop_all_same_keys killForAgent_def killAll_def\<close>)
qed

lemma start_keys:
  "k \<notin> fst ` set (rt_entries rt) \<Longrightarrow>
     map fst (rt_entries (snd (start_task k spec spawned now rt))) =
       map fst (rt_entries rt) @ (if rt_max rt \<le> length (rt_entries rt) then [] else [k])
     \<and> rt_max (snd (start_task k spec spawned now rt)) = rt_max rt"
  by (auto simp: start_task_def new_task_def jset_new Let_def split: sum.split)

lemma task_step_ok: "tasks_ok rt \<Longrightarrow> set (started [op]) \<inter> fst ` set (rt_entries rt) = {} \<Longrightarrow>
    tasks_ok (task_step rt op) \<and> ends_kept rt (task_step rt op)"
proof -
  assume t: "tasks_ok rt" and f: "set (started [op]) \<inter> fst ` set (rt_entries rt) = {}"
  show ?thesis
  proof (cases op)
    case (Start_task k spec spawned now)
    then have "map_of (rt_entries rt) k = None" using f by (simp add: map_of_eq_None_iff)
    then show ?thesis using start_ok [OF t] Start_task by simp
  next
    case (Grace_over i)
    have "tasks_ok (grace_over i rt) = tasks_ok rt" "ends_kept rt (grace_over i rt)"
      by (simp_all add: grace_over_def tasks_ok_def ends_kept_def entry_ok_def told_def cong: option.case_cong)
    then show ?thesis using t Grace_over by simp
  qed (use t in \<open>auto simp: stop_ok stop_all_ok data_ok exit_ok killForAgent_def killAll_def\<close>)
qed

lemma run_tasks_ok:
  assumes "tasks_ok rt" "distinct (started ops)" "set (started ops) \<inter> fst ` set (rt_entries rt) = {}"
  shows "tasks_ok (foldl task_step rt ops) \<and> ends_kept rt (foldl task_step rt ops)
     \<and> fst ` set (rt_entries (foldl task_step rt ops)) \<subseteq> fst ` set (rt_entries rt) \<union> set (started ops)
     \<and> rt_max (foldl task_step rt ops) = rt_max rt
     \<and> length (rt_entries (foldl task_step rt ops)) = max (length (rt_entries rt)) (min (rt_max rt) (length (rt_entries rt) + length (started ops)))"
  using assms
proof (induction ops arbitrary: rt)
  case (Cons op ops)
  let ?rt = "task_step rt op"
  have 1: "tasks_ok ?rt \<and> ends_kept rt ?rt" using Cons.prems by (intro task_step_ok) auto
  have 2: "map fst (rt_entries ?rt) = map fst (rt_entries rt) @ (if rt_max rt \<le> length (rt_entries rt) then [] else started [op])
      \<and> rt_max ?rt = rt_max rt"
  proof (cases "started [op] = []")
    case True
    then show ?thesis using step_same_keys [OF Cons.prems(1) True] by (simp add: same_keys_def)
  next
    case False
    then obtain k spec spawned now where "op = Start_task k spec spawned now" by (cases op) auto
    then show ?thesis using start_keys [of k rt spec spawned now] Cons.prems(3) by auto
  qed
  have k: "fst ` set (rt_entries ?rt) = fst ` set (rt_entries rt) \<union> (if rt_max rt \<le> length (rt_entries rt) then {} else set (started [op]))"
    using arg_cong [OF conjunct1 [OF 2], of set] by (simp add: image_Un split: if_splits)
  have l: "length (rt_entries ?rt) = length (rt_entries rt) + (if rt_max rt \<le> length (rt_entries rt) then 0 else length (started [op]))"
    using arg_cong [OF conjunct1 [OF 2], of length] by (simp split: if_splits)
  have s: "started (op # ops) = started [op] @ started ops" "length (started [op]) \<le> 1" by (simp_all split: task_op.split)
  have "distinct (started ops)" "set (started ops) \<inter> fst ` set (rt_entries ?rt) = {}"
    using Cons.prems(2,3) unfolding s(1) k by auto
  from Cons.IH [OF conjunct1 [OF 1] this] have ih: "tasks_ok (foldl task_step ?rt ops)" "ends_kept ?rt (foldl task_step ?rt ops)"
    "fst ` set (rt_entries (foldl task_step ?rt ops)) \<subseteq> fst ` set (rt_entries ?rt) \<union> set (started ops)"
    "rt_max (foldl task_step ?rt ops) = rt_max rt"
    "length (rt_entries (foldl task_step ?rt ops)) = max (length (rt_entries ?rt)) (min (rt_max rt) (length (rt_entries ?rt) + length (started ops)))"
    using 2 by simp_all
  have "length (rt_entries (foldl task_step ?rt ops)) = max (length (rt_entries rt)) (min (rt_max rt) (length (rt_entries rt) + length (started (op # ops))))"
    unfolding ih(5) l s(1) length_append using s(2) by (auto simp: max_def min_def)
  moreover have "fst ` set (rt_entries (foldl task_step ?rt ops)) \<subseteq> fst ` set (rt_entries rt) \<union> set (started (op # ops))"
    using ih(3) unfolding k s(1) by (auto split: if_splits)
  ultimately show ?case using ih ends_kept_trans [OF conjunct2 [OF 1] ih(2)] by simp
qed simp

lemma new_tasks_ok [simp]: "tasks_ok (newTaskRuntime n p s)" "rt_entries (newTaskRuntime n p s) = []"
  by (simp_all add: tasks_ok_def newTaskRuntime_def told_def)

lemma in_entries:
  assumes "distinct (map fst m)" "e \<in> set m"
  shows "map_of m (fst e) = Some (snd e)"
  using assms by (cases e) simp

text \<open>
  C38: Whatever is started, printed, killed and stopped, in whatever order the processes tell it: the
  completion of a task is told exactly once, with the status and exit code that the task keeps from
  then on, whatever happens later; a task that has not ended is running and nothing was told of it.
\<close>

theorem ends_told_once:
  assumes "distinct (started (ops @ later))"
  shows "let rt = foldl task_step (newTaskRuntime n p s) ops; rt' = foldl task_step rt later in
     \<forall>k. case map_of (rt_entries rt) k of
       None \<Rightarrow> told rt k = []
     | Some e \<Rightarrow>
         if en_done e
         then bt_status (en_task e) \<in> {Task_completed, Task_failed, Task_cancelled}
           \<and> map (\<lambda>c. (ce_status c, ce_exit c)) (told rt k) = [(bt_status (en_task e), bt_exit (en_task e))]
           \<and> map (\<lambda>c. (ce_status c, ce_exit c)) (told rt' k) = [(bt_status (en_task e), bt_exit (en_task e))]
           \<and> map_option final_of (map_of (rt_entries rt') k) = Some (final_of e)
         else bt_status (en_task e) = Task_running \<and> told rt k = []"
proof -
  define rt where "rt = foldl task_step (newTaskRuntime n p s) ops"
  define rt' where "rt' = foldl task_step rt later"
  have d: "distinct (started ops)" "distinct (started later)" "set (started ops) \<inter> set (started later) = {}"
    using assms by auto
  have a: "tasks_ok rt \<and> fst ` set (rt_entries rt) \<subseteq> set (started ops)"
    using run_tasks_ok [of "newTaskRuntime n p s" ops] d(1) by (simp add: rt_def)
  then have b: "tasks_ok rt' \<and> ends_kept rt rt'"
    using run_tasks_ok [of rt later] d(2,3) unfolding rt'_def by blast
  have "case map_of (rt_entries rt) k of
       None \<Rightarrow> told rt k = []
     | Some e \<Rightarrow>
         if en_done e
         then bt_status (en_task e) \<in> {Task_completed, Task_failed, Task_cancelled}
           \<and> map (\<lambda>c. (ce_status c, ce_exit c)) (told rt k) = [(bt_status (en_task e), bt_exit (en_task e))]
           \<and> map (\<lambda>c. (ce_status c, ce_exit c)) (told rt' k) = [(bt_status (en_task e), bt_exit (en_task e))]
           \<and> map_option final_of (map_of (rt_entries rt') k) = Some (final_of e)
         else bt_status (en_task e) = Task_running \<and> told rt k = []" for k
  proof (cases "map_of (rt_entries rt) k")
    case None
    then show ?thesis using conjunct1 [OF a] by (auto simp: tasks_ok_def dest: spec [of _ k])
  next
    case (Some e)
    note e = tasks_okD [OF conjunct1 [OF a] Some, unfolded entry_ok_def]
    show ?thesis
    proof (cases "en_done e")
      case True
      then obtain e' where e': "map_of (rt_entries rt') k = Some e'" "en_done e'" "final_of e' = final_of e"
        using b Some unfolding ends_kept_def by blast
      from tasks_okD [OF conjunct1 [OF b] e'(1)] have "map (\<lambda>c. (ce_status c, ce_exit c)) (told rt' k) = [(bt_status (en_task e'), bt_exit (en_task e'))]"
        using e'(2) by (simp add: entry_ok_def)
      then show ?thesis using e e' True Some by (simp add: final_of_def)
    qed (use e Some in simp)
  qed
  then show ?thesis unfolding Let_def rt_def [symmetric] rt'_def [symmetric] by blast
qed

text \<open>
  The limit of tasks is one for the whole life of the runtime: once as many have been started,
  every further start is refused, even when all of them have ended.
\<close>

lemma task_limit_is_lifetime:
  assumes "distinct (started ops)" "limit \<le> length (started ops)"
  shows "let rt = foldl task_step (newTaskRuntime (Some limit) p s) ops in
     length (rt_entries rt) = limit \<and> start_task k spec spawned now rt = (Inl (Too_many_tasks limit), rt)"
proof -
  have "rt_max (newTaskRuntime (Some limit) p s) = limit" by (simp add: newTaskRuntime_def)
  then have "length (rt_entries (foldl task_step (newTaskRuntime (Some limit) p s) ops)) = limit
      \<and> rt_max (foldl task_step (newTaskRuntime (Some limit) p s) ops) = limit"
    using run_tasks_ok [of "newTaskRuntime (Some limit) p s" ops] assms by simp
  then show ?thesis by (simp add: start_task_def Let_def)
qed

section \<open>Edges\<close>

text \<open>A task that was told to stop ends as cancelled, whatever its exit code.\<close>

lemma stopped_is_cancelled: "bt_interrupted t \<Longrightarrow> exit_status t code signal = Task_cancelled"
  by (simp add: exit_status_def)

text \<open>A process that tells an error and no exit: its task runs for ever, and a stop never returns.\<close>

lemma error_without_exit:
  "map_of (rt_entries rt) k = Some e \<Longrightarrow> en_child e \<Longrightarrow> \<not> en_done e \<Longrightarrow> bt_id (en_task e) = k \<Longrightarrow> bt_status (en_task e) = Task_running \<Longrightarrow>
     \<not> stop_returned k (snd (stop_task k (on_data k message rt)))"
  by (simp add: on_data_def print_output_def stop_task_def stop_returned_def Let_def)

text \<open>What a process prints after its exit is missing in what was told.\<close>

lemma output_after_exit:
  "map_of (rt_entries rt) k = Some e \<Longrightarrow> rt_completions (on_data k chunk rt) = rt_completions rt"
  by (simp add: on_data_def)

end
