(* ===== verification/Task_Samples.thy ===== *)
theory Task_Samples
  imports Background_Tasks
begin

text \<open>Background tasks on concrete events: the witnesses of their properties.\<close>

definition echo_spec :: start_spec where
  "echo_spec = \<lparr>ss_command = ''echo hi'', ss_cwd = ''/'', ss_agent = None, ss_session = None, ss_kind = None\<rparr>"

definition echo_run :: "task_op list" where
  "echo_run = [Start_task ''t'' echo_spec (Inr (Some 7)) 1, Child_prints ''t'' ''hi'', Child_exits ''t'' (Some 0) None 2]"

definition after_echo :: "task_op list" where
  "after_echo = [Stop_task ''t'', Kill_all, Child_exits ''t'' None (Some SIGKILL) 3]"

lemma echo_ended:
  "\<exists>e. map_of (rt_entries (foldl task_step (newTaskRuntime None None False) echo_run)) ''t'' = Some e \<and> en_done e
     \<and> bt_status (en_task e) = Task_completed \<and> bt_exit (en_task e) = Some (Some 0)"
  by (simp add: echo_run_def newTaskRuntime_def DEFAULT_MAX_TASKS_def start_task_def new_task_def on_data_def print_output_def
      put_entry_def on_exit_def exit_status_def notifyCompletion_def Let_def)

theorem ends_told_once_witness:
  "map (\<lambda>c. (ce_status c, ce_exit c)) (told (foldl task_step (foldl task_step (newTaskRuntime None None False) echo_run) after_echo) ''t'')
     = [(Task_completed, Some (Some 0))]"
proof -
  have "distinct (started (echo_run @ after_echo))" by (simp add: echo_run_def after_echo_def)
  from ends_told_once [OF this, of None None False, unfolded Let_def, rule_format, of "''t''"] echo_ended
  show ?thesis by auto
qed

theorem task_limit_is_lifetime_witness:
  "fst (start_task ''u'' echo_spec (Inr None) 9 (foldl task_step (newTaskRuntime (Some 1) None False) (echo_run @ after_echo)))
     = Inl (Too_many_tasks 1)"
proof -
  have "distinct (started (echo_run @ after_echo))" "1 \<le> length (started (echo_run @ after_echo))"
    by (simp_all add: echo_run_def after_echo_def)
  from task_limit_is_lifetime [OF this] show ?thesis by (simp add: Let_def)
qed

end
