(* ===== verification/Session_Router.thy ===== *)
theory Session_Router
  imports Prelude
begin

text \<open>
  \<open>src/gateway/SessionRouter.ts\<close>: the sessions that a gateway keeps, with the turns in flight. A
  session is any value. Creating and recreating a session is asynchronous: a call of \<open>getOrCreate\<close>
  either answers at once or waits, and other operations come in between until the new session is
  there. Records have an identity, since a waiting call keeps the record it found. The log holds what
  the callbacks for evictions were told.
\<close>

section \<open>State\<close>

record session_context =
  cx_key :: string
  cx_project :: "string option"
  cx_channel :: string

record 's session_record =
  sr_id :: nat
  sr_session :: 's
  sr_used :: int
  sr_context :: session_context
  sr_dirty :: "string option"

datatype evict_reason = Idle | Closed | Dirty_recreate | Shutdown

datatype waiting_call = Creating session_context | Recreating nat

record 's session_router =
  ro_sessions :: "(string, 's session_record) jmap"
  ro_turns :: "(string, string) jmap"
  ro_timeout :: int
  ro_recreates :: bool
  ro_shut :: bool
  ro_next :: nat
  ro_waiting :: "(nat \<times> waiting_call) list"
  ro_evicted :: "(string \<times> evict_reason) list"
  ro_aborted :: "string list"

definition DEFAULT_IDLE_SESSION_TIMEOUT_MS :: int where
  "DEFAULT_IDLE_SESSION_TIMEOUT_MS = 30 * 60 * 1000"

definition newSessionRouter :: "int option \<Rightarrow> bool \<Rightarrow> 's session_router" where
  "newSessionRouter timeout recreates =
     \<lparr>ro_sessions = [], ro_turns = [], ro_timeout = (case timeout of None \<Rightarrow> DEFAULT_IDLE_SESSION_TIMEOUT_MS | Some t \<Rightarrow> t),
      ro_recreates = recreates, ro_shut = False, ro_next = 0, ro_waiting = [], ro_evicted = [], ro_aborted = []\<rparr>"

definition mergeSessionContext :: "session_context \<Rightarrow> session_context \<Rightarrow> session_context" where
  "mergeSessionContext current next =
     \<lparr>cx_key = cx_key next,
      cx_project = (case cx_project current of Some p \<Rightarrow> Some p | None \<Rightarrow> cx_project next),
      cx_channel = (if cx_channel next = [] then cx_channel current else cx_channel next)\<rparr>"

definition emitSessionEvict :: "string \<Rightarrow> evict_reason \<Rightarrow> 's session_router \<Rightarrow> 's session_router" where
  "emitSessionEvict k reason r = r\<lparr>ro_evicted := ro_evicted r @ [(k, reason)]\<rparr>"

text \<open>An empty reason counts as none.\<close>

definition is_dirty :: "'s session_record \<Rightarrow> bool" where
  "is_dirty s = (case sr_dirty s of None \<Rightarrow> False | Some reason \<Rightarrow> reason \<noteq> [])"

section \<open>The sweep\<close>

definition sweep_entry :: "int \<Rightarrow> 's session_router \<Rightarrow> string \<times> 's session_record \<Rightarrow> 's session_router" where
  "sweep_entry now r e =
     (if jget (ro_turns r) (fst e) \<noteq> None then r
      else if ro_timeout r < now - sr_used (snd e)
      then emitSessionEvict (fst e) Idle (r\<lparr>ro_sessions := jdel (fst e) (ro_sessions r)\<rparr>)
      else r)"

definition sweepIdle :: "int \<Rightarrow> 's session_router \<Rightarrow> 's session_router" where
  "sweepIdle now r = (if ro_shut r then r else foldl (sweep_entry now) r (ro_sessions r))"

section \<open>Operations\<close>

text \<open>The session, or nothing while the call waits; the number of a call is given by its caller.\<close>

definition getOrCreate :: "nat \<Rightarrow> session_context \<Rightarrow> int \<Rightarrow> 's session_router \<Rightarrow> 's option \<times> 's session_router" where
  "getOrCreate call cx now r0 =
     (let r = sweepIdle now r0 in
      case jget (ro_sessions r) (cx_key cx) of
        Some cached \<Rightarrow>
          let merged = cached\<lparr>sr_context := mergeSessionContext (sr_context cached) cx\<rparr> in
          if is_dirty cached \<and> ro_recreates r
          then (None, (emitSessionEvict (cx_key cx) Dirty_recreate (r\<lparr>ro_sessions := jset (cx_key cx) merged (ro_sessions r)\<rparr>))
                 \<lparr>ro_waiting := ro_waiting r @ [(call, Recreating (sr_id cached))]\<rparr>)
          else (Some (sr_session cached), r\<lparr>ro_sessions := jset (cx_key cx) (merged\<lparr>sr_used := now\<rparr>) (ro_sessions r)\<rparr>)
      | None \<Rightarrow> (None, r\<lparr>ro_waiting := ro_waiting r @ [(call, Creating cx)]\<rparr>))"

definition recreate_record :: "nat \<Rightarrow> 's \<Rightarrow> int \<Rightarrow> 's session_record \<Rightarrow> 's session_record" where
  "recreate_record i s now x = (if sr_id x = i then x\<lparr>sr_session := s, sr_dirty := None, sr_used := now\<rparr> else x)"

text \<open>The new session of a waiting call, or its failure.\<close>

definition session_ready :: "nat \<Rightarrow> 's option \<Rightarrow> int \<Rightarrow> 's session_router \<Rightarrow> 's session_router" where
  "session_ready call made now r =
     (case map_of (ro_waiting r) call of
        None \<Rightarrow> r
      | Some w \<Rightarrow>
          let r1 = r\<lparr>ro_waiting := filter (\<lambda>x. fst x \<noteq> call) (ro_waiting r)\<rparr> in
          (case made of
             None \<Rightarrow> r1
           | Some s \<Rightarrow>
               (case w of
                  Creating cx \<Rightarrow> r1\<lparr>ro_sessions := jset (cx_key cx)
                      \<lparr>sr_id = ro_next r, sr_session = s, sr_used = now, sr_context = cx, sr_dirty = None\<rparr> (ro_sessions r),
                      ro_next := ro_next r + 1\<rparr>
                | Recreating i \<Rightarrow> r1\<lparr>ro_sessions := map (\<lambda>(k, x). (k, recreate_record i s now x)) (ro_sessions r)\<rparr>)))"

definition beginTurn :: "string \<Rightarrow> string \<Rightarrow> int \<Rightarrow> 's session_router \<Rightarrow> bool \<times> 's session_router" where
  "beginTurn k runId now r0 =
     (let r = sweepIdle now r0 in
      if jget (ro_turns r) k \<noteq> None then (False, r) else (True, r\<lparr>ro_turns := jset k runId (ro_turns r)\<rparr>))"

definition touch_session :: "string \<Rightarrow> int \<Rightarrow> 's session_router \<Rightarrow> 's session_router" where
  "touch_session k now r =
     (case jget (ro_sessions r) k of None \<Rightarrow> r | Some s \<Rightarrow> r\<lparr>ro_sessions := jset k (s\<lparr>sr_used := now\<rparr>) (ro_sessions r)\<rparr>)"

definition endTurn :: "string \<Rightarrow> string option \<Rightarrow> int \<Rightarrow> 's session_router \<Rightarrow> 's session_router" where
  "endTurn k runId now r =
     (let r1 = (if runId = None \<or> runId = Some [] \<or> jget (ro_turns r) k = runId
                then r\<lparr>ro_turns := jdel k (ro_turns r)\<rparr> else r)
      in touch_session k now r1)"

definition abort_session :: "string \<Rightarrow> int \<Rightarrow> 's session_router \<Rightarrow> 's session_router" where
  "abort_session k now r =
     (case jget (ro_sessions r) k of
        None \<Rightarrow> r
      | Some s \<Rightarrow> touch_session k now (r\<lparr>ro_aborted := ro_aborted r @ [k]\<rparr>))"

definition close_session :: "string \<Rightarrow> 's session_router \<Rightarrow> 's session_router" where
  "close_session k r =
     (case jget (ro_sessions r) k of
        None \<Rightarrow> r
      | Some s \<Rightarrow> emitSessionEvict k Closed (r\<lparr>ro_sessions := jdel k (ro_sessions r)\<rparr>))"

definition markAllDirty :: "string \<Rightarrow> 's session_router \<Rightarrow> nat \<times> 's session_router" where
  "markAllDirty reason r =
     (length (ro_sessions r), r\<lparr>ro_sessions := map (\<lambda>(k, s). (k, s\<lparr>sr_dirty := Some reason\<rparr>)) (ro_sessions r)\<rparr>)"

definition markProjectDirty :: "string \<Rightarrow> string \<Rightarrow> 's session_router \<Rightarrow> nat \<times> 's session_router" where
  "markProjectDirty project reason r =
     (length (filter (\<lambda>e. cx_project (sr_context (snd e)) = Some project) (ro_sessions r)),
      r\<lparr>ro_sessions := map (\<lambda>(k, s). (k, if cx_project (sr_context s) = Some project then s\<lparr>sr_dirty := Some reason\<rparr> else s))
          (ro_sessions r)\<rparr>)"

definition sessionCount :: "int \<Rightarrow> 's session_router \<Rightarrow> nat \<times> 's session_router" where
  "sessionCount now r = (length (ro_sessions (sweepIdle now r)), sweepIdle now r)"

definition shutdown_router :: "'s session_router \<Rightarrow> 's session_router" where
  "shutdown_router r =
     (if ro_shut r then r
      else (foldl (\<lambda>r e. emitSessionEvict (fst e) Shutdown r) (r\<lparr>ro_shut := True\<rparr>) (ro_sessions r))
             \<lparr>ro_sessions := [], ro_turns := []\<rparr>)"

definition begins_with :: "string \<Rightarrow> string \<Rightarrow> bool" where
  "begins_with p s \<longleftrightarrow> take (length p) s = p"

definition hasActiveUserTurn :: "string \<Rightarrow> 's session_router \<Rightarrow> bool" where
  "hasActiveUserTurn project r =
     list_ex (\<lambda>k. \<not> begins_with ''always-on/'' k \<and> \<not> begins_with ''cron:'' k
         \<and> (case jget (ro_sessions r) k of None \<Rightarrow> False | Some s \<Rightarrow> cx_project (sr_context s) = Some project))
       (jkeys (ro_turns r))"

section \<open>Runs\<close>

datatype 's router_op =
    Get nat session_context int
  | Ready nat "'s option" int
  | Begin_turn string string int
  | End_turn string "string option" int
  | Abort_session string int
  | Close_session string
  | Mark_all string
  | Mark_project string string
  | Count int
  | Sweep int
  | Shut_down

fun router_step :: "'s session_router \<Rightarrow> 's router_op \<Rightarrow> 's session_router" where
  "router_step r (Get call cx now) = snd (getOrCreate call cx now r)"
| "router_step r (Ready call made now) = session_ready call made now r"
| "router_step r (Begin_turn k runId now) = snd (beginTurn k runId now r)"
| "router_step r (End_turn k runId now) = endTurn k runId now r"
| "router_step r (Abort_session k now) = abort_session k now r"
| "router_step r (Close_session k) = close_session k r"
| "router_step r (Mark_all reason) = snd (markAllDirty reason r)"
| "router_step r (Mark_project p reason) = snd (markProjectDirty p reason r)"
| "router_step r (Count now) = snd (sessionCount now r)"
| "router_step r (Sweep now) = sweepIdle now r"
| "router_step r Shut_down = shutdown_router r"

section \<open>What a sweep does\<close>

definition stays :: "int \<Rightarrow> 's session_router \<Rightarrow> string \<times> 's session_record \<Rightarrow> bool" where
  "stays now r e \<longleftrightarrow> jget (ro_turns r) (fst e) \<noteq> None \<or> now - sr_used (snd e) \<le> ro_timeout r"

lemma emit_sel [simp]:
  "ro_sessions (emitSessionEvict k x r) = ro_sessions r" "ro_turns (emitSessionEvict k x r) = ro_turns r"
  "ro_timeout (emitSessionEvict k x r) = ro_timeout r" "ro_shut (emitSessionEvict k x r) = ro_shut r"
  "ro_evicted (emitSessionEvict k x r) = ro_evicted r @ [(k, x)]"
  by (simp_all add: emitSessionEvict_def)

lemma jdel_absent: "k \<notin> fst ` set m \<Longrightarrow> jdel k m = m"
  by (induction m) auto

lemma jdel_between: "fst e \<notin> fst ` set xs \<Longrightarrow> fst e \<notin> fst ` set ys \<Longrightarrow> jdel (fst e) (xs @ e # ys) = xs @ ys"
  by (induction xs) (auto simp: jdel_absent)

lemma sweep_entries:
  assumes "distinct (map fst (seen @ es))" "ro_sessions r = filter (stays now r0) seen @ es"
    "ro_turns r = ro_turns r0" "ro_timeout r = ro_timeout r0"
  shows "let r' = foldl (sweep_entry now) r es in
     ro_sessions r' = filter (stays now r0) (seen @ es) \<and> ro_turns r' = ro_turns r0
     \<and> ro_evicted r' = ro_evicted r @ map (\<lambda>e. (fst e, Idle)) (filter (\<lambda>e. \<not> stays now r0 e) es)"
  using assms
proof (induction es arbitrary: r seen)
  case (Cons e es)
  let ?r = "sweep_entry now r e"
  have n: "fst e \<notin> fst ` set (filter (stays now r0) seen)" "fst e \<notin> fst ` set es" using Cons.prems(1) by auto
  have d: "jdel (fst e) (filter (stays now r0) seen @ e # es) = filter (stays now r0) seen @ es"
    using n by (rule jdel_between)
  have s: "ro_sessions ?r = filter (stays now r0) (seen @ [e]) @ es"
  proof (cases "stays now r0 e")
    case True
    then have "?r = r" using Cons.prems(3,4) by (auto simp: sweep_entry_def stays_def)
    then show ?thesis using True Cons.prems(2) by simp
  next
    case False
    then have "ro_sessions ?r = jdel (fst e) (ro_sessions r)" using Cons.prems(3,4) by (auto simp: sweep_entry_def stays_def)
    then show ?thesis using False Cons.prems(2) d by simp
  qed
  have t: "ro_turns ?r = ro_turns r0" "ro_timeout ?r = ro_timeout r0"
    "ro_evicted ?r = ro_evicted r @ (if stays now r0 e then [] else [(fst e, Idle)])"
    using Cons.prems(3,4) by (auto simp: sweep_entry_def stays_def)
  show ?case using Cons.IH [of "seen @ [e]" ?r, OF _ s t(1,2)] Cons.prems(1) t(3) by (simp add: Let_def)
qed simp

definition keys_distinct :: "'s session_router \<Rightarrow> bool" where
  "keys_distinct r \<longleftrightarrow> distinct (map fst (ro_sessions r))"

lemma sweep_spec:
  assumes "keys_distinct r" "\<not> ro_shut r"
  shows "ro_sessions (sweepIdle now r) = filter (stays now r) (ro_sessions r)
     \<and> ro_evicted (sweepIdle now r) = ro_evicted r @ map (\<lambda>e. (fst e, Idle)) (filter (\<lambda>e. \<not> stays now r e) (ro_sessions r))"
  using sweep_entries [of "[]" "ro_sessions r" r now r] assms by (simp add: keys_distinct_def sweepIdle_def Let_def)

lemma distinct_jdel: "distinct (map fst m) \<Longrightarrow> distinct (map fst (jdel k m))"
  by (rule distinct_delete)

lemma sweep_fold_distinct: "keys_distinct r \<Longrightarrow> keys_distinct (foldl (sweep_entry now) r es)"
  by (induction es arbitrary: r) (simp_all add: keys_distinct_def sweep_entry_def distinct_jdel)

lemma sweep_distinct: "keys_distinct r \<Longrightarrow> keys_distinct (sweepIdle now r)"
  by (simp add: sweepIdle_def sweep_fold_distinct)

lemma touch_distinct: "keys_distinct r \<Longrightarrow> keys_distinct (touch_session k now r)"
  by (simp add: touch_session_def keys_distinct_def split: option.split)

lemma step_distinct: "keys_distinct r \<Longrightarrow> keys_distinct (router_step r op)"
proof -
  assume d: "keys_distinct r"
  note s = sweep_distinct [OF d, unfolded keys_distinct_def]
  have comp: "map (\<lambda>x. fst (case x of (k, x) \<Rightarrow> (k, g k x))) m = map fst m" for g :: "string \<Rightarrow> 'a session_record \<Rightarrow> 'a session_record" and m
    by (induction m) auto
  show ?thesis
    by (cases op) (use d s in \<open>auto simp: keys_distinct_def getOrCreate_def session_ready_def beginTurn_def endTurn_def abort_session_def
        touch_session_def close_session_def markAllDirty_def markProjectDirty_def sessionCount_def shutdown_router_def
        distinct_jdel comp_def comp Let_def split: option.split waiting_call.split\<close>)
qed

section \<open>Turns\<close>

text \<open>The run that a session key is busy with, by what was done for this key alone.\<close>

fun turn_after :: "string \<Rightarrow> string option \<times> bool \<Rightarrow> 's router_op \<Rightarrow> string option \<times> bool" where
  "turn_after k (run, shut) (Begin_turn j runId now) = ((if j = k \<and> run = None then Some runId else run), shut)"
| "turn_after k (run, shut) (End_turn j runId now) =
     ((if j = k \<and> (runId = None \<or> runId = Some [] \<or> runId = run) then None else run), shut)"
| "turn_after k (run, shut) Shut_down = ((if shut then run else None), True)"
| "turn_after k s op = s"

lemma sweep_turns [simp]: "ro_turns (sweepIdle now r) = ro_turns r" "ro_shut (sweepIdle now r) = ro_shut r"
proof -
  have "ro_turns (foldl (sweep_entry now) r es) = ro_turns r \<and> ro_shut (foldl (sweep_entry now) r es) = ro_shut r" for r :: "'a session_router" and es
    by (induction es arbitrary: r) (auto simp: sweep_entry_def)
  then show "ro_turns (sweepIdle now r) = ro_turns r" "ro_shut (sweepIdle now r) = ro_shut r" by (simp_all add: sweepIdle_def)
qed

lemma touch_turns [simp]: "ro_turns (touch_session k now r) = ro_turns r" "ro_shut (touch_session k now r) = ro_shut r"
  by (simp_all add: touch_session_def split: option.split)

lemma shutdown_fold: "ro_shut (foldl (\<lambda>r e. emitSessionEvict (fst e) Shutdown r) r es) = ro_shut r"
  by (induction es arbitrary: r) auto

lemma step_turns:
  "(jget (ro_turns (router_step r op)) k, ro_shut (router_step r op)) = turn_after k (jget (ro_turns r) k, ro_shut r) op"
proof (cases op)
  case (End_turn j runId now)
  then show ?thesis by (auto simp: endTurn_def delete_conv' Let_def)
next
  case Shut_down
  then show ?thesis by (auto simp: shutdown_router_def shutdown_fold)
qed (auto simp: getOrCreate_def session_ready_def beginTurn_def abort_session_def close_session_def markAllDirty_def
       markProjectDirty_def sessionCount_def emitSessionEvict_def Let_def split: option.split waiting_call.split)

lemma run_turns:
  "(jget (ro_turns (foldl router_step r ops)) k, ro_shut (foldl router_step r ops))
     = foldl (turn_after k) (jget (ro_turns r) k, ro_shut r) ops"
  by (induction ops arbitrary: r) (simp_all add: step_turns [symmetric])

text \<open>
  C39: Whatever sessions are created, recreated, marked, closed and swept meanwhile: a turn of a
  session key begins exactly when no turn of this key is in flight, and ends only by its own run, by
  an end without a run, or by the shutdown; and no sweep evicts a session with a turn in flight or one
  used within the time limit, while it evicts, and tells of, every other one.
\<close>

theorem turns_exclusive:
  "let r = foldl router_step (newSessionRouter timeout recreates) ops;
       turn = foldl (turn_after k) (None, False) ops
   in jget (ro_turns r) k = fst turn
      \<and> fst (beginTurn k runId now r) = (fst turn = None)
      \<and> (if snd turn then ro_sessions (sweepIdle now r) = ro_sessions r
         else ro_sessions (sweepIdle now r) = filter (stays now r) (ro_sessions r)
            \<and> ro_evicted (sweepIdle now r) = ro_evicted r @ map (\<lambda>e. (fst e, Idle)) (filter (\<lambda>e. \<not> stays now r e) (ro_sessions r)))"
proof -
  define r where "r = foldl router_step (newSessionRouter timeout recreates :: 'a session_router) ops"
  have t: "(jget (ro_turns r) k, ro_shut r) = foldl (turn_after k) (None, False) ops"
    using run_turns [of "newSessionRouter timeout recreates" ops k] by (simp add: r_def newSessionRouter_def)
  have "keys_distinct (foldl router_step q ops)" if "keys_distinct q" for q :: "'a session_router"
    using that by (induction ops arbitrary: q) (simp_all add: step_distinct)
  then have d: "keys_distinct r" by (simp add: r_def keys_distinct_def newSessionRouter_def)
  have "ro_shut r \<Longrightarrow> sweepIdle now r = r" by (simp add: sweepIdle_def)
  then show ?thesis unfolding r_def [symmetric] Let_def t [symmetric] using sweep_spec [OF d]
    by (simp add: beginTurn_def Let_def)
qed

section \<open>Edges\<close>

text \<open>Two calls for a new session before it is there: both create one, and the first is lost without an eviction.\<close>

lemma second_creation_loses_first:
  "let r = foldl router_step (newSessionRouter None True) [Get 1 cx 0, Get 2 cx 0, Ready 1 (Some a) 1, Ready 2 (Some b) 2] in
     map (sr_session \<circ> snd) (ro_sessions r) = [b] \<and> ro_evicted r = []"
  by (simp add: newSessionRouter_def getOrCreate_def session_ready_def sweepIdle_def Let_def)

text \<open>A mark that is set while a session is recreated is taken away when it is there.\<close>

lemma mark_during_recreation_lost:
  "let r = foldl router_step (newSessionRouter None True)
       [Get 1 cx 0, Ready 1 (Some a) 1, Mark_all ''first'', Get 2 cx 2, Mark_all ''second'', Ready 2 (Some b) 3] in
     map (sr_dirty \<circ> snd) (ro_sessions r) = [None]"
  by (simp add: newSessionRouter_def getOrCreate_def session_ready_def sweepIdle_def sweep_entry_def markAllDirty_def is_dirty_def
      recreate_record_def emitSessionEvict_def DEFAULT_IDLE_SESSION_TIMEOUT_MS_def Let_def)

text \<open>A session that is there only after the shutdown stays and is never evicted.\<close>

lemma created_after_shutdown:
  "ro_sessions (foldl router_step (newSessionRouter None True) [Get 1 cx 0, Shut_down, Ready 1 (Some a) 1, Sweep t]) \<noteq> []"
  by (simp add: newSessionRouter_def getOrCreate_def session_ready_def sweepIdle_def shutdown_router_def Let_def)

end
