(* ===== verification/Gateway_Prompts.thy ===== *)
theory Gateway_Prompts
  imports Permission_Rules
begin

text \<open>
  \<open>src/gateway/permission\<close>, \<open>src/gateway/elicitation\<close>, the operations of \<open>InProcessGateway.ts\<close> that
  answer them and \<open>src/adapters/channel/protocol/ImPermissionHelper.ts\<close>: questions that a running turn
  asks the user. A call is asked under a request id, waits in the bus of its kind and is settled by a
  decision, an answer, an abort or the end of the turn. Both buses are the same code. A promise is a
  number given by the caller; settling it twice changes nothing. Payloads and texts for the user are
  left out, answers are texts.
\<close>

section \<open>The bus\<close>

record pending_entry =
  pn_request :: string
  pn_call :: string
  pn_tool :: string
  pn_promise :: nat

type_synonym pending_bus = "(string, (string, pending_entry) jmap) jmap"

definition bucket_of :: "pending_bus \<Rightarrow> string \<Rightarrow> (string, pending_entry) jmap" where
  "bucket_of bus s = (case jget bus s of None \<Rightarrow> [] | Some b \<Rightarrow> b)"

definition register_pending :: "string \<Rightarrow> pending_entry \<Rightarrow> pending_bus \<Rightarrow> pending_bus" where
  "register_pending s e bus = jset s (jset (pn_request e) e (bucket_of bus s)) bus"

definition consume_pending :: "string \<Rightarrow> string \<Rightarrow> pending_bus \<Rightarrow> pending_entry option \<times> pending_bus" where
  "consume_pending s i bus =
     (case jget bus s of
        None \<Rightarrow> (None, bus)
      | Some b \<Rightarrow> (case jget b i of
            None \<Rightarrow> (None, bus)
          | Some e \<Rightarrow> (Some e, if jdel i b = [] then jdel s bus else jset s (jdel i b) bus)))"

definition hasPending :: "string \<Rightarrow> string \<Rightarrow> pending_bus \<Rightarrow> bool" where
  "hasPending s i bus \<longleftrightarrow> jget (bucket_of bus s) i \<noteq> None"

definition pendingCount :: "string \<Rightarrow> pending_bus \<Rightarrow> nat" where
  "pendingCount s bus = length (bucket_of bus s)"

section \<open>State\<close>

datatype prompt_kind = Permission_prompt | Elicitation_prompt

datatype prompt_outcome =
    Allowed
  | Denied_because "string option"
  | Answered string
  | Cancelled_answer string
  | Threw string

record rule_candidate =
  ru_tool :: "string option"
  ru_pattern :: "string option"

text \<open>What is suggested with a request: options with an id and rules, which may not be records.\<close>

type_synonym suggestions = "(string \<times> rule_candidate option list option) list"

record prompt_call =
  pc_kind :: prompt_kind
  pc_session :: string
  pc_request :: string
  pc_tool :: string
  pc_suggested :: suggestions

datatype prompt_event = Permission_request string | Elicitation_request string | Elicitation_cancelled string

record prompt_state =
  ps_bus :: "prompt_kind \<Rightarrow> pending_bus"
  ps_calls :: "(nat \<times> prompt_call) list"
  ps_outcomes :: "(nat \<times> prompt_outcome) list"
  ps_rules :: "permission_rule list"
  ps_events :: "prompt_event list"

definition no_prompts :: "permission_rule list \<Rightarrow> prompt_state" where
  "no_prompts rules = \<lparr>ps_bus = (\<lambda>_. []), ps_calls = [], ps_outcomes = [], ps_rules = rules, ps_events = []\<rparr>"

definition settle :: "nat \<Rightarrow> prompt_outcome \<Rightarrow> prompt_state \<Rightarrow> prompt_state" where
  "settle p out st = (if map_of (ps_outcomes st) p \<noteq> None then st else st\<lparr>ps_outcomes := ps_outcomes st @ [(p, out)]\<rparr>)"

definition register_call :: "nat \<Rightarrow> prompt_call \<Rightarrow> string \<Rightarrow> prompt_state \<Rightarrow> prompt_state" where
  "register_call p c toolCallId st =
     st\<lparr>ps_calls := ps_calls st @ [(p, c)],
        ps_bus := (ps_bus st)(pc_kind c := register_pending (pc_session c)
          \<lparr>pn_request = pc_request c, pn_call = toolCallId, pn_tool = pc_tool c, pn_promise = p\<rparr> (ps_bus st (pc_kind c)))\<rparr>"

definition consume_call :: "prompt_kind \<Rightarrow> string \<Rightarrow> string \<Rightarrow> prompt_state \<Rightarrow> pending_entry option \<times> prompt_state" where
  "consume_call k s i st = (case consume_pending s i (ps_bus st k) of (e, bus) \<Rightarrow> (e, st\<lparr>ps_bus := (ps_bus st)(k := bus)\<rparr>))"

definition rejectSession :: "prompt_kind \<Rightarrow> string \<Rightarrow> string \<Rightarrow> prompt_state \<Rightarrow> prompt_state" where
  "rejectSession k s reason st =
     (foldl (\<lambda>st e. settle (pn_promise e) (Threw reason) st) st (jvals (bucket_of (ps_bus st k) s)))
       \<lparr>ps_bus := (ps_bus st)(k := jdel s (ps_bus st k))\<rparr>"

section \<open>Permission requests\<close>

definition HOOK_ABORTED :: string where
  "HOOK_ABORTED = ''Hook aborted before permission decision.''"

definition NOT_DELIVERED :: string where
  "NOT_DELIVERED = ''Permission prompt could not be delivered to the Web UI.''"

definition session_rule :: "string \<Rightarrow> string option \<Rightarrow> permission_rule" where
  "session_rule tool pattern = \<lparr>pr_source = From_session, pr_behavior = Allow_rule, pr_tool = tool, pr_pattern = pattern\<rparr>"

definition candidate_rules :: "string \<Rightarrow> rule_candidate option \<Rightarrow> permission_rule list" where
  "candidate_rules fallback c =
     (case c of
        None \<Rightarrow> []
      | Some r \<Rightarrow>
          let tool = (case ru_tool r of None \<Rightarrow> fallback | Some t \<Rightarrow> if t = [] then fallback else t)
          in if tool = [] then []
             else [session_rule tool (case ru_pattern r of None \<Rightarrow> None | Some q \<Rightarrow> if q = [] then None else Some q)])"

definition extractSessionAllowRules :: "suggestions \<Rightarrow> string \<Rightarrow> permission_rule list" where
  "extractSessionAllowRules sugg fallback =
     (case List.find (\<lambda>x. fst x = ''allow_session'' \<and> snd x \<noteq> None) sugg of
        Some (_, Some rules) \<Rightarrow> concat (map (candidate_rules fallback) rules)
      | _ \<Rightarrow> [])"

definition remember_rule :: "permission_rule list \<Rightarrow> permission_rule \<Rightarrow> permission_rule list" where
  "remember_rule rules r =
     (if list_ex (\<lambda>x. pr_behavior x = Allow_rule \<and> pr_tool x = pr_tool r \<and> pr_pattern x = pr_pattern r) rules
      then rules else rules @ [r])"

definition remember_rules :: "prompt_call \<Rightarrow> permission_rule list \<Rightarrow> permission_rule list" where
  "remember_rules c rules =
     (let found = extractSessionAllowRules (pc_suggested c) (pc_tool c)
      in foldl remember_rule rules (if found = [] then [session_rule (pc_tool c) None] else found))"

text \<open>The hook: what it does until it waits.\<close>

definition ask_permission ::
  "nat \<Rightarrow> prompt_call \<Rightarrow> string \<Rightarrow> bool \<Rightarrow> bool \<Rightarrow> prompt_state \<Rightarrow> prompt_state" where
  "ask_permission p c toolCallId delivered aborted st =
     (if \<not> delivered then settle p (Denied_because (Some NOT_DELIVERED)) st
      else let st1 = register_call p c toolCallId (st\<lparr>ps_events := ps_events st @ [Permission_request (pc_request c)]\<rparr>)
           in if aborted then settle p (Threw HOOK_ABORTED) st1 else st1)"

definition abort_permission :: "nat \<Rightarrow> prompt_state \<Rightarrow> prompt_state" where
  "abort_permission p st =
     (case map_of (ps_calls st) p of
        Some c \<Rightarrow> if pc_kind c = Permission_prompt then settle p (Threw HOOK_ABORTED) st else st
      | None \<Rightarrow> st)"

text \<open>The decision, and what the hook does with it when it still waits.\<close>

definition permissionDecide ::
  "string \<Rightarrow> string \<Rightarrow> bool \<Rightarrow> bool \<Rightarrow> string option \<Rightarrow> prompt_state \<Rightarrow> bool \<times> prompt_state" where
  "permissionDecide s i allow remember reason st =
     (case consume_call Permission_prompt s i st of
        (None, st1) \<Rightarrow> (False, st1)
      | (Some e, st1) \<Rightarrow>
          let p = pn_promise e;
              st2 = (if map_of (ps_outcomes st1) p = None \<and> allow \<and> remember
                     then (case map_of (ps_calls st1) p of
                             None \<Rightarrow> st1
                           | Some c \<Rightarrow> st1\<lparr>ps_rules := remember_rules c (ps_rules st1)\<rparr>)
                     else st1)
          in (True, settle p (if allow then Allowed else Denied_because reason) st2))"

section \<open>Questions\<close>

definition ask_user :: "nat \<Rightarrow> prompt_call \<Rightarrow> string \<Rightarrow> bool \<Rightarrow> prompt_state \<Rightarrow> prompt_state" where
  "ask_user p c toolCallId aborted st =
     (let st1 = register_call p c toolCallId st;
          st2 = st1\<lparr>ps_events := ps_events st1 @ [Elicitation_request (pc_request c)]\<rparr>
      in if aborted
         then (case consume_call (pc_kind c) (pc_session c) (pc_request c) st2 of
                 (e, st3) \<Rightarrow>
                   (case e of None \<Rightarrow> st3 | Some x \<Rightarrow> settle (pn_promise x) (Cancelled_answer ''aborted'') st3)
                     \<lparr>ps_events := ps_events st3 @ [Elicitation_cancelled (pc_request c)]\<rparr>)
         else st2)"

text \<open>The listener of an abort is removed when the call is settled.\<close>

definition abort_user :: "nat \<Rightarrow> prompt_state \<Rightarrow> prompt_state" where
  "abort_user p st =
     (case map_of (ps_calls st) p of
        None \<Rightarrow> st
      | Some c \<Rightarrow>
          if pc_kind c \<noteq> Elicitation_prompt \<or> map_of (ps_outcomes st) p \<noteq> None then st
          else (case consume_call (pc_kind c) (pc_session c) (pc_request c) st of
                  (e, st1) \<Rightarrow>
                    (case e of None \<Rightarrow> st1 | Some x \<Rightarrow> settle (pn_promise x) (Cancelled_answer ''aborted'') st1)
                      \<lparr>ps_events := ps_events st1 @ [Elicitation_cancelled (pc_request c)]\<rparr>))"

definition respondElicitation :: "string \<Rightarrow> string \<Rightarrow> string \<Rightarrow> prompt_state \<Rightarrow> bool \<times> prompt_state" where
  "respondElicitation s i answer st =
     (case consume_call Elicitation_prompt s i st of
        (None, st1) \<Rightarrow> (False, st1)
      | (Some e, st1) \<Rightarrow> (True, settle (pn_promise e) (Answered answer) st1))"

definition end_prompts :: "string \<Rightarrow> string \<Rightarrow> prompt_state \<Rightarrow> prompt_state" where
  "end_prompts s reason st = rejectSession Permission_prompt s reason (rejectSession Elicitation_prompt s reason st)"

section \<open>The chat channel\<close>

text \<open>Per chat the session and request that are asked.\<close>

type_synonym im_pending = "(string, string \<times> string) jmap"

definition im_capture :: "string \<Rightarrow> string \<Rightarrow> string \<Rightarrow> im_pending \<Rightarrow> bool \<times> im_pending" where
  "im_capture chat s i pending = (if jget pending chat \<noteq> None then (False, pending) else (True, jset chat (s, i) pending))"

text \<open>The text is trimmed; an answer that is not understood leaves the question open.\<close>

definition im_answer :: "string \<Rightarrow> string \<Rightarrow> im_pending \<Rightarrow> prompt_state \<Rightarrow> im_pending \<times> prompt_state" where
  "im_answer chat trimmed pending st =
     (case jget pending chat of
        None \<Rightarrow> (pending, st)
      | Some (s, i) \<Rightarrow>
          if trimmed \<notin> {''0'', ''1'', ''2''} then (pending, st)
          else if trimmed = ''0''
          then (jdel chat pending, snd (permissionDecide s i False False (Some ''User denied permission from IM channel.'') st))
          else (jdel chat pending, snd (permissionDecide s i True (trimmed = ''2'') None st)))"

definition im_clear :: "string \<Rightarrow> im_pending \<Rightarrow> im_pending" where
  "im_clear chat pending = jdel chat pending"

section \<open>Runs\<close>

datatype prompt_op =
    Ask_permission nat string string string suggestions bool bool
  | Abort_permission nat
  | Decide string string bool bool "string option"
  | Ask_user nat string string string bool
  | Abort_user nat
  | Respond string string string
  | Turn_over string string

fun prompt_step :: "prompt_state \<Rightarrow> prompt_op \<Rightarrow> prompt_state" where
  "prompt_step st (Ask_permission p s i tool sugg delivered aborted) =
     ask_permission p \<lparr>pc_kind = Permission_prompt, pc_session = s, pc_request = i, pc_tool = tool, pc_suggested = sugg\<rparr> [] delivered aborted st"
| "prompt_step st (Abort_permission p) = abort_permission p st"
| "prompt_step st (Decide s i allow remember reason) = snd (permissionDecide s i allow remember reason st)"
| "prompt_step st (Ask_user p s i tool aborted) =
     ask_user p \<lparr>pc_kind = Elicitation_prompt, pc_session = s, pc_request = i, pc_tool = tool, pc_suggested = []\<rparr> [] aborted st"
| "prompt_step st (Abort_user p) = abort_user p st"
| "prompt_step st (Respond s i answer) = snd (respondElicitation s i answer st)"
| "prompt_step st (Turn_over s reason) = end_prompts s reason st"

section \<open>What becomes of a call\<close>

text \<open>What is done for one call alone.\<close>

datatype prompt_fate = Not_asked | Waiting prompt_kind string string | Settled prompt_outcome

fun fate :: "nat \<Rightarrow> prompt_fate \<Rightarrow> prompt_op \<Rightarrow> prompt_fate" where
  "fate p Not_asked (Ask_permission q s i tool sugg delivered aborted) =
     (if q \<noteq> p then Not_asked else if \<not> delivered then Settled (Denied_because (Some NOT_DELIVERED))
      else if aborted then Settled (Threw HOOK_ABORTED) else Waiting Permission_prompt s i)"
| "fate p Not_asked (Ask_user q s i tool aborted) =
     (if q \<noteq> p then Not_asked else if aborted then Settled (Cancelled_answer ''aborted'') else Waiting Elicitation_prompt s i)"
| "fate p (Waiting k s i) (Abort_permission q) = (if q = p \<and> k = Permission_prompt then Settled (Threw HOOK_ABORTED) else Waiting k s i)"
| "fate p (Waiting k s i) (Abort_user q) = (if q = p \<and> k = Elicitation_prompt then Settled (Cancelled_answer ''aborted'') else Waiting k s i)"
| "fate p (Waiting k s i) (Decide s' i' allow remember reason) =
     (if k = Permission_prompt \<and> s' = s \<and> i' = i then Settled (if allow then Allowed else Denied_because reason) else Waiting k s i)"
| "fate p (Waiting k s i) (Respond s' i' answer) =
     (if k = Elicitation_prompt \<and> s' = s \<and> i' = i then Settled (Answered answer) else Waiting k s i)"
| "fate p (Waiting k s i) (Turn_over s' reason) = (if s' = s then Settled (Threw reason) else Waiting k s i)"
| "fate p f op = f"

text \<open>The promise and the key of what an operation asks.\<close>

fun asks :: "prompt_op \<Rightarrow> (nat \<times> prompt_kind \<times> string \<times> string) list" where
  "asks (Ask_permission p s i tool sugg delivered aborted) = [(p, Permission_prompt, s, i)]"
| "asks (Ask_user p s i tool aborted) = [(p, Elicitation_prompt, s, i)]"
| "asks op = []"

section \<open>Buses\<close>

lemma bucket_register:
  "bucket_of (register_pending s e bus) t = (if t = s then jset (pn_request e) e (bucket_of bus s) else bucket_of bus t)"
  by (simp add: register_pending_def bucket_of_def)

lemma jdel_absent_key: "map_of b i = None \<Longrightarrow> jdel i b = b"
  by (induction b) (auto split: if_splits)

lemma consume_bucket:
  "consume_pending s i bus = (e, bus') \<Longrightarrow> e = jget (bucket_of bus s) i
     \<and> bucket_of bus' t = (if t = s then jdel i (bucket_of bus s) else bucket_of bus t)"
proof (cases "jget bus s")
  case None
  assume "consume_pending s i bus = (e, bus')"
  then show ?thesis using None by (simp add: consume_pending_def bucket_of_def)
next
  case (Some b)
  assume c: "consume_pending s i bus = (e, bus')"
  show ?thesis
  proof (cases "jget b i")
    case None
    then show ?thesis using Some c jdel_absent_key [OF None] by (simp add: consume_pending_def bucket_of_def)
  next
    case (Some x)
    then have "e = Some x" "bus' = (if jdel i b = [] then jdel s bus else jset s (jdel i b) bus)"
      using \<open>jget bus s = Some b\<close> c by (simp_all add: consume_pending_def)
    then show ?thesis using Some \<open>jget bus s = Some b\<close>
      by (cases "jdel i b = []") (simp_all add: bucket_of_def delete_conv')
  qed
qed

lemma in_set_jdel: "x \<in> set (jdel k m) \<Longrightarrow> x \<in> set m"
  by (induction m) (auto split: if_splits)

section \<open>Every call and its entry\<close>

abbreviation bucket :: "prompt_state \<Rightarrow> prompt_kind \<Rightarrow> string \<Rightarrow> (string, pending_entry) jmap" where
  "bucket st k s \<equiv> bucket_of (ps_bus st k) s"

definition call_at :: "prompt_state \<Rightarrow> nat \<Rightarrow> prompt_kind \<Rightarrow> string \<Rightarrow> string \<Rightarrow> bool" where
  "call_at st p k s i \<longleftrightarrow> (\<exists>c. map_of (ps_calls st) p = Some c \<and> pc_kind c = k \<and> pc_session c = s \<and> pc_request c = i)"

definition prompts_ok :: "prompt_state \<Rightarrow> (nat \<times> prompt_kind \<times> string \<times> string) set \<Rightarrow> bool" where
  "prompts_ok st A \<longleftrightarrow>
     (\<forall>k s i e. (i, e) \<in> set (bucket st k s) \<longrightarrow> call_at st (pn_promise e) k s i)
   \<and> (\<forall>p k s i. call_at st p k s i \<longrightarrow> (p, k, s, i) \<in> A)
   \<and> (\<forall>p. map_of (ps_outcomes st) p \<noteq> None \<longrightarrow> p \<in> fst ` A)
   \<and> (\<forall>p k s i. call_at st p k s i \<and> map_of (ps_outcomes st) p = None \<longrightarrow>
        (\<exists>e. map_of (bucket st k s) i = Some e \<and> pn_promise e = p))"

lemma prompts_ok_cong:
  "prompts_ok st A \<Longrightarrow> ps_bus st' = ps_bus st \<Longrightarrow> ps_calls st' = ps_calls st \<Longrightarrow> ps_outcomes st' = ps_outcomes st \<Longrightarrow> prompts_ok st' A"
  by (simp add: prompts_ok_def call_at_def)

lemma call_at_unique: "call_at st p k s i \<Longrightarrow> call_at st p k' s' i' \<Longrightarrow> k' = k \<and> s' = s \<and> i' = i"
  by (auto simp: call_at_def)

lemma settle_outcome:
  "map_of (ps_outcomes (settle q out st)) p = (if map_of (ps_outcomes st) p = None \<and> q = p then Some out else map_of (ps_outcomes st) p)"
  by (auto simp: settle_def map_add_def split: option.splits)

lemma settle_sel [simp]:
  "ps_bus (settle q out st) = ps_bus st" "ps_calls (settle q out st) = ps_calls st" "ps_rules (settle q out st) = ps_rules st"
  by (simp_all add: settle_def)

text \<open>An entry is taken from the bus and its call settled.\<close>

definition take_and_settle :: "prompt_kind \<Rightarrow> string \<Rightarrow> string \<Rightarrow> prompt_outcome \<Rightarrow> prompt_state \<Rightarrow> prompt_state" where
  "take_and_settle k s i out st =
     (case consume_call k s i st of (None, st1) \<Rightarrow> st1 | (Some e, st1) \<Rightarrow> settle (pn_promise e) out st1)"

lemma take_and_settle_ok:
  assumes "prompts_ok st A" and st'_def: "st' = take_and_settle k s i out st"
  shows "prompts_ok st' A" "ps_calls st' = ps_calls st"
    "map_of (ps_outcomes st') p = (if call_at st p k s i \<and> map_of (ps_outcomes st) p = None then Some out else map_of (ps_outcomes st) p)"
proof -
  obtain e bus where c: "consume_pending s i (ps_bus st k) = (e, bus)" by fastforce
  let ?st1 = "st\<lparr>ps_bus := (ps_bus st)(k := bus)\<rparr>"
  have st': "st' = (case e of None \<Rightarrow> ?st1 | Some x \<Rightarrow> settle (pn_promise x) out ?st1)"
    using c by (simp add: st'_def take_and_settle_def consume_call_def split: option.split)
  have e: "e = map_of (bucket st k s) i" using consume_bucket [OF c] by simp
  have b: "bucket st' k' s' = (if k' = k \<and> s' = s then jdel i (bucket st k s) else bucket st k' s')" for k' s'
    using consume_bucket [OF c] by (auto simp: st' split: option.split)
  show calls: "ps_calls st' = ps_calls st" by (simp add: st' split: option.split)
  then have at: "call_at st' q k' s' i' = call_at st q k' s' i'" for q k' s' i' by (simp add: call_at_def)
  have p1: "call_at st (pn_promise x) k' s' i'" if "(i', x) \<in> set (bucket st k' s')" for k' s' i' x
    using assms(1) that unfolding prompts_ok_def by blast
  have p4: "\<exists>e. map_of (bucket st k' s') i' = Some e \<and> pn_promise e = q"
    if "call_at st q k' s' i'" "map_of (ps_outcomes st) q = None" for q k' s' i'
    using assms(1) that unfolding prompts_ok_def by blast
  have o: "map_of (ps_outcomes st') q = (if call_at st q k s i \<and> map_of (ps_outcomes st) q = None then Some out else map_of (ps_outcomes st) q)" for q
  proof (cases e)
    case None
    then show ?thesis using p4 [of q k s i] e by (auto simp: st')
  next
    case (Some x)
    have "call_at st (pn_promise x) k s i" using p1 [OF map_of_SomeD, of k s i x] Some e by simp
    moreover have "st' = settle (pn_promise x) out ?st1" using Some by (simp add: st')
    moreover have "map_of (bucket st k s) i = Some x" using e Some by simp
    ultimately show ?thesis using p4 [of q k s i] by (auto simp: settle_outcome)
  qed
  then show "map_of (ps_outcomes st') p = (if call_at st p k s i \<and> map_of (ps_outcomes st) p = None then Some out else map_of (ps_outcomes st) p)" .
  have A: "\<forall>p k s i. call_at st p k s i \<longrightarrow> (p, k, s, i) \<in> A" "\<forall>p. map_of (ps_outcomes st) p \<noteq> None \<longrightarrow> p \<in> fst ` A"
    using assms(1) unfolding prompts_ok_def by blast+
  show "prompts_ok st' A" unfolding prompts_ok_def
  proof (intro conjI allI impI)
    fix k' s' i' x
    assume "(i', x) \<in> set (bucket st' k' s')"
    then show "call_at st' (pn_promise x) k' s' i'" using p1 by (auto simp: b at split: if_splits dest: in_set_jdel)
  next
    fix q assume "map_of (ps_outcomes st') q \<noteq> None"
    then show "q \<in> fst ` A" using A by (force simp: o split: if_splits)
  next
    fix q k' s' i'
    assume "call_at st' q k' s' i' \<and> map_of (ps_outcomes st') q = None"
    then have q: "call_at st q k' s' i'" "map_of (ps_outcomes st) q = None" "\<not> call_at st q k s i"
      by (auto simp: at o split: if_splits)
    then show "\<exists>e. map_of (bucket st' k' s') i' = Some e \<and> pn_promise e = q"
      using p4 [OF q(1,2)] by (auto simp: b delete_conv')
  qed (use A at in auto)
qed

lemma reject_fold:
  "map_of (ps_outcomes (foldl (\<lambda>st e. settle (pn_promise e) out st) st es)) p =
     (if map_of (ps_outcomes st) p = None \<and> p \<in> pn_promise ` set es then Some out else map_of (ps_outcomes st) p)"
  "ps_bus (foldl (\<lambda>st e. settle (pn_promise e) out st) st es) = ps_bus st"
  "ps_calls (foldl (\<lambda>st e. settle (pn_promise e) out st) st es) = ps_calls st"
  by (induction es arbitrary: st) (auto simp: settle_outcome)

lemma reject_ok:
  assumes "prompts_ok st A" and st'_def: "st' = rejectSession k s reason st"
  shows "prompts_ok st' A" "ps_calls st' = ps_calls st"
    "map_of (ps_outcomes st') p =
       (if (\<exists>i. call_at st p k s i) \<and> map_of (ps_outcomes st) p = None then Some (Threw reason) else map_of (ps_outcomes st) p)"
proof -
  show calls: "ps_calls st' = ps_calls st" by (simp add: st'_def rejectSession_def reject_fold)
  then have at: "call_at st' q k' s' i' = call_at st q k' s' i'" for q k' s' i' by (simp add: call_at_def)
  have b: "bucket st' k' s' = (if k' = k \<and> s' = s then [] else bucket st k' s')" for k' s'
    by (auto simp: st'_def rejectSession_def reject_fold bucket_of_def delete_conv')
  have p1: "call_at st (pn_promise x) k' s' i'" if "(i', x) \<in> set (bucket st k' s')" for k' s' i' x
    using assms(1) that unfolding prompts_ok_def by blast
  have p4: "\<exists>e. map_of (bucket st k' s') i' = Some e \<and> pn_promise e = q"
    if "call_at st q k' s' i'" "map_of (ps_outcomes st) q = None" for q k' s' i'
    using assms(1) that unfolding prompts_ok_def by blast
  have o: "map_of (ps_outcomes st') q =
       (if (\<exists>i. call_at st q k s i) \<and> map_of (ps_outcomes st) q = None then Some (Threw reason) else map_of (ps_outcomes st) q)" for q
  proof (cases "map_of (ps_outcomes st) q")
    case None
    have "q \<in> pn_promise ` set (jvals (bucket st k s)) \<longleftrightarrow> (\<exists>i. call_at st q k s i)"
    proof
      assume "q \<in> pn_promise ` set (jvals (bucket st k s))"
      then obtain i x where "(i, x) \<in> set (bucket st k s)" "q = pn_promise x" by (auto simp: jvals_def)
      then show "\<exists>i. call_at st q k s i" using p1 by blast
    next
      assume "\<exists>i. call_at st q k s i"
      then obtain i x where "map_of (bucket st k s) i = Some x" "pn_promise x = q" using p4 None by blast
      then show "q \<in> pn_promise ` set (jvals (bucket st k s))" by (force simp: jvals_def dest: map_of_SomeD)
    qed
    then show ?thesis using None by (simp add: st'_def rejectSession_def reject_fold)
  qed (simp add: st'_def rejectSession_def reject_fold)
  then show "map_of (ps_outcomes st') p =
       (if (\<exists>i. call_at st p k s i) \<and> map_of (ps_outcomes st) p = None then Some (Threw reason) else map_of (ps_outcomes st) p)" .
  have A: "\<forall>p k s i. call_at st p k s i \<longrightarrow> (p, k, s, i) \<in> A" "\<forall>p. map_of (ps_outcomes st) p \<noteq> None \<longrightarrow> p \<in> fst ` A"
    using assms(1) unfolding prompts_ok_def by blast+
  show "prompts_ok st' A" unfolding prompts_ok_def
  proof (intro conjI allI impI)
    fix q assume "map_of (ps_outcomes st') q \<noteq> None"
    then show "q \<in> fst ` A" using A by (force simp: o split: if_splits)
  next
    fix q k' s' i'
    assume "call_at st' q k' s' i' \<and> map_of (ps_outcomes st') q = None"
    then show "\<exists>e. map_of (bucket st' k' s') i' = Some e \<and> pn_promise e = q"
      using p4 [of q k' s' i'] by (auto simp: b at o split: if_splits)
  qed (use A p1 in \<open>auto simp: b at split: if_splits\<close>)
qed

lemma register_ok:
  assumes "prompts_ok st A" "(pc_kind c, pc_session c, pc_request c) \<notin> snd ` A" "p \<notin> fst ` A"
    and st'_def: "st' = register_call p c toolCallId st"
  shows "prompts_ok st' (insert (p, pc_kind c, pc_session c, pc_request c) A)"
    "ps_outcomes st' = ps_outcomes st"
    "call_at st' q k s i = (call_at st q k s i \<or> q = p \<and> k = pc_kind c \<and> s = pc_session c \<and> i = pc_request c)"
proof -
  let ?e = "\<lparr>pn_request = pc_request c, pn_call = toolCallId, pn_tool = pc_tool c, pn_promise = p\<rparr>"
  show o: "ps_outcomes st' = ps_outcomes st" by (simp add: st'_def register_call_def)
  have b: "bucket st' k s = (if k = pc_kind c \<and> s = pc_session c then jset (pc_request c) ?e (bucket st k s) else bucket st k s)" for k s
    by (auto simp: st'_def register_call_def bucket_register)
  have inA: "(q, k, s, i) \<in> A" if "call_at st q k s i" for q k s i using assms(1) that unfolding prompts_ok_def by blast
  have new: "map_of (ps_calls st) p = None"
  proof (cases "map_of (ps_calls st) p")
    case (Some c')
    then have "call_at st p (pc_kind c') (pc_session c') (pc_request c')" by (simp add: call_at_def)
    then show ?thesis using inA assms(3) by force
  qed simp
  have at: "call_at st' q k s i = (call_at st q k s i \<or> q = p \<and> k = pc_kind c \<and> s = pc_session c \<and> i = pc_request c)" for q k s i
    using new by (auto simp: st'_def register_call_def call_at_def map_add_def split: option.splits)
  then show "call_at st' q k s i = (call_at st q k s i \<or> q = p \<and> k = pc_kind c \<and> s = pc_session c \<and> i = pc_request c)" .
  have p1: "call_at st (pn_promise x) k' s' i'" if "(i', x) \<in> set (bucket st k' s')" for k' s' i' x
    using assms(1) that unfolding prompts_ok_def by blast
  have p4: "\<exists>e. map_of (bucket st k' s') i' = Some e \<and> pn_promise e = q"
    if "call_at st q k' s' i'" "map_of (ps_outcomes st) q = None" for q k' s' i'
    using assms(1) that unfolding prompts_ok_def by blast
  have A: "\<forall>q. map_of (ps_outcomes st) q \<noteq> None \<longrightarrow> q \<in> fst ` A" using assms(1) unfolding prompts_ok_def by blast
  show "prompts_ok st' (insert (p, pc_kind c, pc_session c, pc_request c) A)" unfolding prompts_ok_def
  proof (intro conjI allI impI)
    fix k s i x
    assume "(i, x) \<in> set (bucket st' k s)"
    then show "call_at st' (pn_promise x) k s i"
      using p1 by (auto simp: b at split: if_splits dest!: in_set_jset)
  next
    fix q k s i
    assume q: "call_at st' q k s i \<and> map_of (ps_outcomes st') q = None"
    show "\<exists>e. map_of (bucket st' k s) i = Some e \<and> pn_promise e = q"
    proof (cases "call_at st q k s i")
      case True
      then have "\<not> (k = pc_kind c \<and> s = pc_session c \<and> i = pc_request c)" using inA assms(2) by force
      then show ?thesis using p4 [OF True] q by (auto simp: b o)
    next
      case False
      then show ?thesis using q by (auto simp: b at)
    qed
  qed (use inA A at o in auto)
qed

section \<open>Calls and their fates\<close>

definition fate_is :: "nat \<Rightarrow> prompt_fate \<Rightarrow> prompt_state \<Rightarrow> bool" where
  "fate_is p f st = (case f of
     Not_asked \<Rightarrow> map_of (ps_calls st) p = None \<and> map_of (ps_outcomes st) p = None
   | Waiting k s i \<Rightarrow> call_at st p k s i \<and> map_of (ps_outcomes st) p = None
   | Settled out \<Rightarrow> map_of (ps_outcomes st) p = Some out)"

lemma fate_is_cong:
  "fate_is p f st \<Longrightarrow> ps_calls st' = ps_calls st \<Longrightarrow> map_of (ps_outcomes st') p = map_of (ps_outcomes st) p \<Longrightarrow> fate_is p f st'"
  by (auto simp: fate_is_def call_at_def split: prompt_fate.splits)

lemma settled_stays: "fate p (Settled out) op = Settled out"
  by (cases op) auto

lemma decide_is_take:
  defines "t \<equiv> \<lambda>s i allow reason st. take_and_settle Permission_prompt s i (if allow then Allowed else Denied_because reason) st"
  shows "ps_bus (snd (permissionDecide s i allow remember reason st)) = ps_bus (t s i allow reason st)
     \<and> ps_calls (snd (permissionDecide s i allow remember reason st)) = ps_calls (t s i allow reason st)
     \<and> ps_outcomes (snd (permissionDecide s i allow remember reason st)) = ps_outcomes (t s i allow reason st)"
proof -
  obtain e st1 where c: "consume_call Permission_prompt s i st = (e, st1)" by fastforce
  show ?thesis
  proof (cases e)
    case None
    then show ?thesis using c by (simp add: t_def permissionDecide_def take_and_settle_def)
  next
    case (Some x)
    let ?st2 = "(if map_of (ps_outcomes st1) (pn_promise x) = None \<and> allow \<and> remember
                     then (case map_of (ps_calls st1) (pn_promise x) of
                             None \<Rightarrow> st1
                           | Some c \<Rightarrow> st1\<lparr>ps_rules := remember_rules c (ps_rules st1)\<rparr>)
                     else st1)"
    have "ps_bus ?st2 = ps_bus st1" "ps_calls ?st2 = ps_calls st1" "ps_outcomes ?st2 = ps_outcomes st1"
      by (simp_all split: option.split)
    moreover from this(3) have "ps_outcomes (settle q out ?st2) = ps_outcomes (settle q out st1)" for q out by (simp add: settle_def)
    ultimately show ?thesis using Some c by (simp add: t_def permissionDecide_def take_and_settle_def Let_def)
  qed
qed

lemma respond_is_take: "snd (respondElicitation s i answer st) = take_and_settle Elicitation_prompt s i (Answered answer) st"
  by (simp add: respondElicitation_def take_and_settle_def split: option.split prod.split)

lemma abort_user_is_take:
  "map_of (ps_calls st) p = Some c \<Longrightarrow> pc_kind c = Elicitation_prompt \<Longrightarrow> map_of (ps_outcomes st) p = None \<Longrightarrow>
     ps_bus (abort_user p st) = ps_bus (take_and_settle (pc_kind c) (pc_session c) (pc_request c) (Cancelled_answer ''aborted'') st)
   \<and> ps_calls (abort_user p st) = ps_calls (take_and_settle (pc_kind c) (pc_session c) (pc_request c) (Cancelled_answer ''aborted'') st)
   \<and> ps_outcomes (abort_user p st) = ps_outcomes (take_and_settle (pc_kind c) (pc_session c) (pc_request c) (Cancelled_answer ''aborted'') st)"
  by (simp add: abort_user_def take_and_settle_def split: option.split prod.split)

lemma ask_aborted_is_take:
  "ps_bus (ask_user p c n True st) = ps_bus (take_and_settle (pc_kind c) (pc_session c) (pc_request c) (Cancelled_answer ''aborted'') (register_call p c n st))
   \<and> ps_calls (ask_user p c n True st) = ps_calls (take_and_settle (pc_kind c) (pc_session c) (pc_request c) (Cancelled_answer ''aborted'') (register_call p c n st))
   \<and> ps_outcomes (ask_user p c n True st) = ps_outcomes (take_and_settle (pc_kind c) (pc_session c) (pc_request c) (Cancelled_answer ''aborted'') (register_call p c n st))"
proof -
  obtain e bus where "consume_pending (pc_session c) (pc_request c) (ps_bus (register_call p c n st) (pc_kind c)) = (e, bus)"
    by fastforce
  then show ?thesis
    by (cases e) (simp_all add: ask_user_def take_and_settle_def consume_call_def Let_def settle_def)
qed

text \<open>One operation.\<close>

definition fresh_asks :: "(nat \<times> prompt_kind \<times> string \<times> string) list \<Rightarrow> (nat \<times> prompt_kind \<times> string \<times> string) set \<Rightarrow> bool" where
  "fresh_asks as A \<longleftrightarrow> (\<forall>a \<in> set as. fst a \<notin> fst ` A \<and> snd a \<notin> snd ` A)"

lemma fate_taken:
  assumes "prompts_ok st A" "fate_is p f st" "st' = take_and_settle k s i out st"
  shows "fate_is p (if f = Waiting k s i then Settled out else f) st'"
proof -
  note t = take_and_settle_ok [OF assms(1,3)]
  have "call_at st p k' s' i' \<Longrightarrow> call_at st p k s i \<Longrightarrow> k' = k \<and> s' = s \<and> i' = i" for k' s' i'
    using call_at_unique [of st p k s i k' s' i'] by simp
  moreover have "call_at st' p k' s' i' = call_at st p k' s' i'" for k' s' i' using t(2) by (simp add: call_at_def)
  ultimately show ?thesis using assms(2) t(2) t(3) [of p]
    by (cases f) (auto simp: fate_is_def call_at_def)
qed

lemma fate_rejected:
  assumes "prompts_ok st A" "fate_is p f st" "st' = rejectSession k s reason st"
  shows "fate_is p (case f of Waiting k' s' i' \<Rightarrow> if k' = k \<and> s' = s then Settled (Threw reason) else f | _ \<Rightarrow> f) st'"
proof -
  note t = reject_ok [OF assms(1,3)]
  have "call_at st p k' s' i' \<Longrightarrow> (\<exists>i. call_at st p k s i) = (k' = k \<and> s' = s)" for k' s' i'
    using call_at_unique [of st p k' s' i' k s] by auto
  moreover have "call_at st' p k' s' i' = call_at st p k' s' i'" for k' s' i' using t(2) by (simp add: call_at_def)
  ultimately show ?thesis using assms(2) t(2) t(3) [of p]
    by (cases f) (auto simp: fate_is_def call_at_def)
qed

lemma prompts_ok_more: "prompts_ok st A \<Longrightarrow> A \<subseteq> B \<Longrightarrow> prompts_ok st B"
  unfolding prompts_ok_def by (meson image_mono subset_iff)

lemma settle_asked_ok: "prompts_ok st A \<Longrightarrow> p \<in> fst ` A \<Longrightarrow> prompts_ok (settle p out st) A"
  unfolding prompts_ok_def by (simp add: settle_outcome call_at_def)

lemma fate_settled:
  "fate_is p f st \<Longrightarrow> fate_is p (if q = p \<and> (\<forall>out. f \<noteq> Settled out) then Settled out else f) (settle q out st)"
  by (cases f) (auto simp: fate_is_def settle_outcome call_at_def)

lemma asked_in: "prompts_ok st A \<Longrightarrow> fate_is p f st \<Longrightarrow> f \<noteq> Not_asked \<Longrightarrow> p \<in> fst ` A"
proof -
  assume ok: "prompts_ok st A" and f: "fate_is p f st" "f \<noteq> Not_asked"
  have a: "call_at st p k s i \<Longrightarrow> (p, k, s, i) \<in> A" "map_of (ps_outcomes st) p \<noteq> None \<Longrightarrow> p \<in> fst ` A" for k s i
    using ok unfolding prompts_ok_def by blast+
  show "p \<in> fst ` A"
  proof (cases f)
    case (Waiting k s i)
    then have "(p, k, s, i) \<in> A" using f(1) by (auto simp: fate_is_def intro: a(1))
    then show ?thesis by (rule image_eqI [rotated]) simp
  next
    case (Settled out)
    then show ?thesis using f(1) a(2) by (simp add: fate_is_def)
  qed (use f(2) in simp)
qed

lemma call_asked: "prompts_ok st A \<Longrightarrow> call_at st p k s i \<Longrightarrow> (p, k, s, i) \<in> A"
  unfolding prompts_ok_def by blast

lemma fate_registered:
  assumes "fate_is p f st" "q = p \<Longrightarrow> f = Not_asked"
  shows "fate_is p (if q = p then Waiting (pc_kind c) (pc_session c) (pc_request c) else f) (register_call q c n st)"
  using assms by (cases f) (auto simp: fate_is_def register_call_def call_at_def map_add_def split: option.splits)

lemma ask_ok:
  assumes "prompts_ok st A" "fate_is p f st" "fresh_asks [(q, pc_kind c, pc_session c, pc_request c)] A" "st' = register_call q c n st"
  shows "prompts_ok st' (insert (q, pc_kind c, pc_session c, pc_request c) A)"
    "fate_is p (if q = p then Waiting (pc_kind c) (pc_session c) (pc_request c) else f) st'" "q = p \<Longrightarrow> f = Not_asked"
proof -
  have q: "q \<notin> fst ` A" "(pc_kind c, pc_session c, pc_request c) \<notin> snd ` A" using assms(3) by (simp_all add: fresh_asks_def)
  show "prompts_ok st' (insert (q, pc_kind c, pc_session c, pc_request c) A)" by (rule register_ok(1) [OF assms(1) q(2,1) assms(4)])
  show n: "q = p \<Longrightarrow> f = Not_asked" using asked_in [OF assms(1,2)] q(1) by blast
  show "fate_is p (if q = p then Waiting (pc_kind c) (pc_session c) (pc_request c) else f) st'"
    unfolding assms(4) by (rule fate_registered [OF assms(2) n])
qed

lemma ask_permission_ok:
  assumes "prompts_ok st A" "fate_is p f st" "fresh_asks [(q, Permission_prompt, s, i)] A"
  shows "prompts_ok (prompt_step st (Ask_permission q s i tool sugg delivered aborted)) (insert (q, Permission_prompt, s, i) A)
     \<and> fate_is p (fate p f (Ask_permission q s i tool sugg delivered aborted)) (prompt_step st (Ask_permission q s i tool sugg delivered aborted))"
proof -
  let ?A = "insert (q, Permission_prompt, s, i) A"
  let ?c = "\<lparr>pc_kind = Permission_prompt, pc_session = s, pc_request = i, pc_tool = tool, pc_suggested = sugg\<rparr>"
  let ?st = "st\<lparr>ps_events := ps_events st @ [Permission_request i]\<rparr>"
  have ok: "prompts_ok ?st A" "fate_is p f ?st" using assms(1,2) by (auto intro: prompts_ok_cong fate_is_cong)
  have fr: "fresh_asks [(q, pc_kind ?c, pc_session ?c, pc_request ?c)] A" using assms(3) by simp
  note r' = ask_ok [OF ok fr refl [of "register_call q ?c [] ?st"]]
  have r: "prompts_ok (register_call q ?c [] ?st) ?A"
    "fate_is p (if q = p then Waiting Permission_prompt s i else f) (register_call q ?c [] ?st)" "q = p \<Longrightarrow> f = Not_asked"
    using r'(1) apply simp using r'(2) apply (cases "q = p"; simp) by (rule r'(3))
  have old: "f \<noteq> Not_asked \<Longrightarrow> fate p f (Ask_permission q s i tool sugg delivered aborted) = f" by (cases f) auto
  show ?thesis
  proof (cases delivered)
    case False
    have "prompts_ok (settle q (Denied_because (Some NOT_DELIVERED)) st) ?A"
      by (rule settle_asked_ok [OF prompts_ok_more [OF assms(1)]]) auto
    moreover have "fate_is p (fate p f (Ask_permission q s i tool sugg delivered aborted)) (settle q (Denied_because (Some NOT_DELIVERED)) st)"
      using fate_settled [OF assms(2), of q "Denied_because (Some NOT_DELIVERED)"] False r(3) old
      by (cases "q = p") (cases "f = Not_asked"; force)+
    ultimately show ?thesis using False by (simp add: ask_permission_def)
  next
    case True
    show ?thesis
    proof (cases aborted)
      case False
      have "fate p f (Ask_permission q s i tool sugg delivered aborted) = (if q = p then Waiting Permission_prompt s i else f)"
        using r(3) old False True by (cases "f = Not_asked") auto
      then show ?thesis using r True False by (simp add: ask_permission_def Let_def)
    next
      case aborted: True
      have "fate p f (Ask_permission q s i tool sugg delivered aborted) = (if q = p then Settled (Threw HOOK_ABORTED) else f)"
        using r(3) old aborted True by (cases "f = Not_asked") auto
      moreover have "fate_is p (if q = p then Settled (Threw HOOK_ABORTED) else f) (settle q (Threw HOOK_ABORTED) (register_call q ?c [] ?st))"
        using fate_settled [OF r(2), of q "Threw HOOK_ABORTED"] by (auto split: if_splits)
      moreover have "prompts_ok (settle q (Threw HOOK_ABORTED) (register_call q ?c [] ?st)) ?A"
        by (rule settle_asked_ok [OF r(1)]) simp
      ultimately show ?thesis using True aborted by (simp add: ask_permission_def Let_def)
    qed
  qed
qed

lemma ask_user_ok:
  assumes "prompts_ok st A" "fate_is p f st" "fresh_asks [(q, Elicitation_prompt, s, i)] A"
  shows "prompts_ok (prompt_step st (Ask_user q s i tool aborted)) (insert (q, Elicitation_prompt, s, i) A)
     \<and> fate_is p (fate p f (Ask_user q s i tool aborted)) (prompt_step st (Ask_user q s i tool aborted))"
proof -
  let ?A = "insert (q, Elicitation_prompt, s, i) A"
  let ?c = "\<lparr>pc_kind = Elicitation_prompt, pc_session = s, pc_request = i, pc_tool = tool, pc_suggested = []\<rparr>"
  have fr: "fresh_asks [(q, pc_kind ?c, pc_session ?c, pc_request ?c)] A" using assms(3) by simp
  note r' = ask_ok [OF assms(1,2) fr refl [of "register_call q ?c [] st"]]
  have r: "prompts_ok (register_call q ?c [] st) ?A"
    "fate_is p (if q = p then Waiting Elicitation_prompt s i else f) (register_call q ?c [] st)" "q = p \<Longrightarrow> f = Not_asked"
    using r'(1) apply simp using r'(2) apply (cases "q = p"; simp) by (rule r'(3))
  have old: "f \<noteq> Not_asked \<Longrightarrow> fate p f (Ask_user q s i tool aborted) = f" by (cases f) auto
  show ?thesis
  proof (cases aborted)
    case False
    have "fate p f (Ask_user q s i tool aborted) = (if q = p then Waiting Elicitation_prompt s i else f)"
      using r(3) old False by (cases "f = Not_asked") auto
    moreover have "prompts_ok (ask_user q ?c [] False st) ?A" by (rule prompts_ok_cong [OF r(1)]) (simp_all add: ask_user_def Let_def)
    moreover have "fate_is p (if q = p then Waiting Elicitation_prompt s i else f) (ask_user q ?c [] False st)"
      by (rule fate_is_cong [OF r(2)]) (simp_all add: ask_user_def Let_def)
    ultimately show ?thesis using False by simp
  next
    case True
    let ?t = "take_and_settle Elicitation_prompt s i (Cancelled_answer ''aborted'') (register_call q ?c [] st)"
    note a = ask_aborted_is_take [of q ?c "[]" st, simplified]
    have "prompts_ok (ask_user q ?c [] True st) ?A"
      by (rule prompts_ok_cong [OF take_and_settle_ok(1) [OF r(1) refl]]) (use a in simp_all)
    moreover have "fate_is p (fate p f (Ask_user q s i tool True)) ?t"
    proof (cases "q = p")
      case True
      then show ?thesis using fate_taken [OF r(1,2) refl, of Elicitation_prompt s i "Cancelled_answer ''aborted''"] r(3) by simp
    next
      case False
      have "f \<noteq> Waiting Elicitation_prompt s i"
      proof
        assume "f = Waiting Elicitation_prompt s i"
        then have "(p, Elicitation_prompt, s, i) \<in> A" using assms(1,2) unfolding prompts_ok_def fate_is_def by auto
        then show False using assms(3) by (force simp: fresh_asks_def)
      qed
      moreover have "fate p f (Ask_user q s i tool True) = f" using False True old by (cases "f = Not_asked") auto
      ultimately show ?thesis using fate_taken [OF r(1,2) refl, of Elicitation_prompt s i "Cancelled_answer ''aborted''"] False by simp
    qed
    then have "fate_is p (fate p f (Ask_user q s i tool True)) (ask_user q ?c [] True st)"
      by (rule fate_is_cong) (use a in simp_all)
    ultimately show ?thesis using True by simp
  qed
qed

lemma prompt_step_ok:
  assumes "prompts_ok st A" "fate_is p f st" "fresh_asks (asks op) A"
  shows "prompts_ok (prompt_step st op) (A \<union> set (asks op)) \<and> fate_is p (fate p f op) (prompt_step st op)"
proof (cases op)
  case (Ask_permission q s i tool sugg delivered aborted)
  then show ?thesis using ask_permission_ok [OF assms(1,2), of q s i tool sugg delivered aborted] assms(3) by (simp del: prompt_step.simps fate.simps)
next
  case (Ask_user q s i tool aborted)
  then show ?thesis using ask_user_ok [OF assms(1,2), of q s i tool aborted] assms(3) by (simp del: prompt_step.simps fate.simps)
next
  case (Abort_permission q)
  show ?thesis
  proof (cases "\<exists>c. map_of (ps_calls st) q = Some c \<and> pc_kind c = Permission_prompt")
    case True
    then obtain c where c: "map_of (ps_calls st) q = Some c" "pc_kind c = Permission_prompt" by blast
    then have "call_at st q Permission_prompt (pc_session c) (pc_request c)" by (simp add: call_at_def)
    then have "(q, Permission_prompt, pc_session c, pc_request c) \<in> A" by (rule call_asked [OF assms(1)])
    then have "q \<in> fst ` A" by (rule image_eqI [rotated]) simp
    moreover have "fate p f op = (if q = p \<and> (\<forall>out. f \<noteq> Settled out) then Settled (Threw HOOK_ABORTED) else f)"
      using c assms(2) Abort_permission by (cases f) (auto simp: fate_is_def call_at_def)
    ultimately show ?thesis using c Abort_permission settle_asked_ok [OF assms(1)] fate_settled [OF assms(2), of q "Threw HOOK_ABORTED"]
      by (simp add: abort_permission_def)
  next
    case False
    then have "abort_permission q st = st" by (auto simp: abort_permission_def split: option.split)
    moreover have "fate p f op = f" using False assms(2) Abort_permission by (cases f) (auto simp: fate_is_def call_at_def)
    ultimately show ?thesis using assms(1,2) Abort_permission by simp
  qed
next
  case (Abort_user q)
  show ?thesis
  proof (cases "\<exists>c. map_of (ps_calls st) q = Some c \<and> pc_kind c = Elicitation_prompt \<and> map_of (ps_outcomes st) q = None")
    case True
    then obtain c where c: "map_of (ps_calls st) q = Some c" "pc_kind c = Elicitation_prompt" "map_of (ps_outcomes st) q = None" by blast
    let ?t = "take_and_settle (pc_kind c) (pc_session c) (pc_request c) (Cancelled_answer ''aborted'') st"
    note a = abort_user_is_take [OF c]
    have "call_at st q (pc_kind c) (pc_session c) (pc_request c)" using c by (simp add: call_at_def)
    then obtain e where e: "map_of (bucket st (pc_kind c) (pc_session c)) (pc_request c) = Some e" "pn_promise e = q"
      using assms(1) c(3) unfolding prompts_ok_def by blast
    have same: "p = q" if "call_at st p (pc_kind c) (pc_session c) (pc_request c)" "map_of (ps_outcomes st) p = None"
      using assms(1) that e unfolding prompts_ok_def by fastforce
    have "fate p f op = (if f = Waiting (pc_kind c) (pc_session c) (pc_request c) then Settled (Cancelled_answer ''aborted'') else f)"
    proof (cases f)
      case (Waiting k s i)
      then have w: "call_at st p k s i" "map_of (ps_outcomes st) p = None" using assms(2) by (simp_all add: fate_is_def)
      show ?thesis
      proof (cases "q = p")
        case True
        then show ?thesis using w(1) c Waiting Abort_user by (auto simp: call_at_def)
      next
        case False
        then show ?thesis using same w Waiting Abort_user by auto
      qed
    qed (use Abort_user in auto)
    then have "fate_is p (fate p f op) ?t" using fate_taken [OF assms(1,2) refl] by simp
    then have "fate_is p (fate p f op) (abort_user q st)" by (rule fate_is_cong) (use a in simp_all)
    moreover have "prompts_ok (abort_user q st) A"
      by (rule prompts_ok_cong [OF take_and_settle_ok(1) [OF assms(1) refl]]) (use a in auto)
    ultimately show ?thesis using Abort_user by simp
  next
    case False
    then have "abort_user q st = st" by (auto simp: abort_user_def split: option.split)
    moreover have "fate p f op = f" using False assms(2) Abort_user by (cases f) (auto simp: fate_is_def call_at_def)
    ultimately show ?thesis using assms(1,2) Abort_user by simp
  qed
next
  case (Decide s i allow remember reason)
  let ?out = "if allow then Allowed else Denied_because reason"
  note d = decide_is_take [of s i allow remember reason st]
  have "fate p f op = (if f = Waiting Permission_prompt s i then Settled ?out else f)" using Decide by (cases f) auto
  then have "fate_is p (fate p f op) (take_and_settle Permission_prompt s i ?out st)" using fate_taken [OF assms(1,2) refl] by simp
  then have "fate_is p (fate p f op) (snd (permissionDecide s i allow remember reason st))"
    by (rule fate_is_cong) (use d in simp_all)
  moreover have "prompts_ok (snd (permissionDecide s i allow remember reason st)) A"
    by (rule prompts_ok_cong [OF take_and_settle_ok(1) [OF assms(1) refl]]) (use d in auto)
  ultimately show ?thesis using Decide by simp
next
  case (Respond s i answer)
  have "fate p f op = (if f = Waiting Elicitation_prompt s i then Settled (Answered answer) else f)" using Respond by (cases f) auto
  then show ?thesis using fate_taken [OF assms(1,2) refl] take_and_settle_ok(1) [OF assms(1) refl] Respond
    by (simp add: respond_is_take)
next
  case (Turn_over s reason)
  let ?e = "rejectSession Elicitation_prompt s reason st"
  note e = reject_ok(1) [OF assms(1) refl, of Elicitation_prompt s reason] fate_rejected [OF assms(1,2) refl, of Elicitation_prompt s reason]
  note b = reject_ok(1) [OF e(1) refl, of Permission_prompt s reason] fate_rejected [OF e(1,2) refl, of Permission_prompt s reason]
  have "fate p f op = (case (case f of Waiting k' s' i' \<Rightarrow> if k' = Elicitation_prompt \<and> s' = s then Settled (Threw reason) else f | _ \<Rightarrow> f) of
      Waiting k' s' i' \<Rightarrow> if k' = Permission_prompt \<and> s' = s then Settled (Threw reason)
        else (case f of Waiting k' s' i' \<Rightarrow> if k' = Elicitation_prompt \<and> s' = s then Settled (Threw reason) else f | _ \<Rightarrow> f)
    | _ \<Rightarrow> (case f of Waiting k' s' i' \<Rightarrow> if k' = Elicitation_prompt \<and> s' = s then Settled (Threw reason) else f | _ \<Rightarrow> f))"
  proof (cases f)
    case (Waiting k s2 i)
    then show ?thesis using Turn_over by (cases k) auto
  qed (use Turn_over in auto)
  then show ?thesis using b Turn_over by (simp add: end_prompts_def)
qed

lemma prompt_run_ok:
  assumes "prompts_ok st A" "fate_is p f st" "fresh_asks (concat (map asks ops)) A"
    "distinct (map fst (concat (map asks ops)))" "distinct (map snd (concat (map asks ops)))"
  shows "fate_is p (foldl (fate p) f ops) (foldl prompt_step st ops)"
  using assms
proof (induction ops arbitrary: st f A)
  case (Cons op ops)
  have "fresh_asks (asks op) A" using Cons.prems(3) by (simp add: fresh_asks_def)
  note step = prompt_step_ok [OF Cons.prems(1,2) this]
  have "fresh_asks (concat (map asks ops)) (A \<union> set (asks op))"
    unfolding fresh_asks_def
  proof (intro ballI conjI)
    fix a assume a: "a \<in> set (concat (map asks ops))"
    then have "fst a \<notin> fst ` set (asks op)" "snd a \<notin> snd ` set (asks op)"
      using Cons.prems(4,5) imageI [OF a, of fst] imageI [OF a, of snd] by (auto simp only: list.map concat.simps map_append distinct_append set_append set_map)
    moreover have "fst a \<notin> fst ` A" "snd a \<notin> snd ` A" using Cons.prems(3) a by (auto simp: fresh_asks_def)
    ultimately show "fst a \<notin> fst ` (A \<union> set (asks op))" "snd a \<notin> snd ` (A \<union> set (asks op))" by (simp_all add: image_Un)
  qed
  then show ?case using Cons.IH [of "prompt_step st op" "A \<union> set (asks op)" "fate p f op"] step Cons.prems(4,5) by simp
qed simp

lemma no_prompts_ok: "prompts_ok (no_prompts rules) {}" "fate_is p Not_asked (no_prompts rules)"
  by (simp_all add: prompts_ok_def no_prompts_def call_at_def bucket_of_def fate_is_def)

text \<open>Settled is settled.\<close>

lemma settle_once: "map_of (ps_outcomes st) p = Some out \<Longrightarrow> map_of (ps_outcomes (settle q out' st)) p = Some out"
  by (simp add: settle_outcome)

lemma fate_keeps_settled: "foldl (fate p) (Settled out) ops = Settled out"
  by (induction ops) (simp_all add: settled_stays)

text \<open>A permission call is let through by one decision only: its own, allowed, while it waits.\<close>

lemma allowed_by_own_decision:
  "fate p f op = Settled Allowed \<Longrightarrow> f \<noteq> Settled Allowed \<Longrightarrow>
     \<exists>s i remember reason. f = Waiting Permission_prompt s i \<and> op = Decide s i True remember reason"
  by (cases f; cases op; simp split: if_splits)

lemma turn_over_leaves_none: "fate p f (Turn_over s reason) \<noteq> Waiting k s i"
  by (cases f) auto

section \<open>What is remembered\<close>

lemma rules_only_grow: "set rules \<subseteq> set (foldl remember_rule rules rs)"
proof (induction rs arbitrary: rules)
  case (Cons r rs)
  have "set rules \<subseteq> set (remember_rule rules r)" by (auto simp: remember_rule_def)
  then show ?case using Cons.IH [of "remember_rule rules r"] by simp
qed simp

lemma remembered_after_all:
  "x \<in> set (foldl remember_rule rules rs) \<Longrightarrow> x \<in> set rules \<or> x \<in> set rs"
proof (induction rs arbitrary: rules)
  case (Cons r rs)
  then have "x \<in> set (remember_rule rules r) \<or> x \<in> set rs" by simp
  then show ?case by (auto simp: remember_rule_def split: if_splits)
qed simp

lemma candidates_allow:
  "x \<in> set (candidate_rules tool c) \<Longrightarrow> pr_behavior x = Allow_rule \<and> pr_source x = From_session"
  by (cases c) (simp_all add: candidate_rules_def session_rule_def Let_def split: if_split_asm)

text \<open>Only allow rules of the session are remembered.\<close>

lemma remembered_rules_allow:
  "x \<in> set (remember_rules c rules) \<Longrightarrow> x \<notin> set rules \<Longrightarrow> pr_behavior x = Allow_rule \<and> pr_source x = From_session"
proof -
  assume x: "x \<in> set (remember_rules c rules)" "x \<notin> set rules"
  let ?found = "extractSessionAllowRules (pc_suggested c) (pc_tool c)"
  have "x \<in> set (if ?found = [] then [session_rule (pc_tool c) None] else ?found)"
    using x remembered_after_all [of x rules] by (auto simp: remember_rules_def Let_def)
  then show ?thesis
    by (auto simp: extractSessionAllowRules_def session_rule_def split: option.splits if_splits dest: candidates_allow)
qed

lemma decide_rules:
  "ps_rules (snd (permissionDecide s i allow remember reason st)) =
     (case jget (bucket st Permission_prompt s) i of
        None \<Rightarrow> ps_rules st
      | Some e \<Rightarrow>
          if map_of (ps_outcomes st) (pn_promise e) = None \<and> allow \<and> remember
          then (case map_of (ps_calls st) (pn_promise e) of None \<Rightarrow> ps_rules st | Some c \<Rightarrow> remember_rules c (ps_rules st))
          else ps_rules st)"
proof -
  obtain e bus where c: "consume_pending s i (ps_bus st Permission_prompt) = (e, bus)" by fastforce
  then have "e = jget (bucket st Permission_prompt s) i" using consume_bucket by blast
  then show ?thesis using c by (simp add: permissionDecide_def consume_call_def Let_def split: option.split)
qed

text \<open>A refusal, and an approval that is not to be remembered, add no rule.\<close>

lemma rules_need_remember: "\<not> (allow \<and> remember) \<Longrightarrow> ps_rules (snd (permissionDecide s i allow remember reason st)) = ps_rules st"
  by (auto simp: decide_rules split: option.split)

section \<open>Chats\<close>

lemma capture_drops_second: "jget pending chat = Some old \<Longrightarrow> im_capture chat s i pending = (False, pending)"
  by (simp add: im_capture_def)

lemma other_texts_leave_open: "trimmed \<notin> {''0'', ''1'', ''2''} \<Longrightarrow> im_answer chat trimmed pending st = (pending, st)"
  by (auto simp: im_answer_def split: option.split)

section \<open>Samples\<close>

text \<open>A request is aborted, then decided: the decision is told to be delivered, but nothing becomes of it.\<close>

lemma late_decision_delivered:
  "let st = foldl prompt_step (no_prompts []) [Ask_permission 0 ''s'' ''r'' ''bash'' [] True False, Abort_permission 0]
   in fst (permissionDecide ''s'' ''r'' True False None st)
      \<and> ps_outcomes (snd (permissionDecide ''s'' ''r'' True False None st)) = [(0, Threw HOOK_ABORTED)]"
  by code_simp

text \<open>The second request of a chat is never shown; the chat's answer goes to the first.\<close>

lemma second_request_waits:
  "let st = foldl prompt_step (no_prompts []) [Ask_permission 0 ''s'' ''r0'' ''bash'' [] True False, Ask_permission 1 ''s'' ''r1'' ''bash'' [] True False];
       chats = snd (im_capture ''chat'' ''s'' ''r1'' (snd (im_capture ''chat'' ''s'' ''r0'' [])))
   in case im_answer ''chat'' ''1'' chats st of (left, st') \<Rightarrow>
        left = [] \<and> map_of (ps_outcomes st') 0 = Some Allowed \<and> map_of (ps_outcomes st') 1 = None"
  by code_simp

section \<open>The fate of a call\<close>

text \<open>
  C40: When no request id and no promise is used twice, what becomes of a call in any run of requests,
  decisions, answers, aborts and ends of turns is what its own fate says: it is settled once, by the
  first of the operations that concern it (a permission call by a decision for its own session and
  request, its abort or the end of its turn), and by nothing that is done for another call.
\<close>

theorem prompt_fate:
  assumes "distinct (map fst (concat (map asks ops)))" "distinct (map snd (concat (map asks ops)))"
  shows "map_of (ps_outcomes (foldl prompt_step (no_prompts rules) ops)) p =
    (case foldl (fate p) Not_asked ops of Settled out \<Rightarrow> Some out | _ \<Rightarrow> None)"
proof -
  have "fate_is p (foldl (fate p) Not_asked ops) (foldl prompt_step (no_prompts rules) ops)"
    by (rule prompt_run_ok [OF no_prompts_ok _ assms]) (simp add: fresh_asks_def)
  then show ?thesis by (simp add: fate_is_def split: prompt_fate.splits)
qed

theorem prompt_fate_witness:
  "let ops = [Ask_permission 0 ''s'' ''r'' ''bash'' [] True False, Ask_user 1 ''s'' ''q'' ''ask'' False,
              Ask_permission 2 ''t'' ''r'' ''edit'' [] True False, Respond ''s'' ''r'' ''yes'', Decide ''t'' ''r'' True True None,
              Turn_over ''s'' ''Turn ended'']
   in map (map_of (ps_outcomes (foldl prompt_step (no_prompts []) ops))) [0, 1, 2, 3]
      = [Some (Threw ''Turn ended''), Some (Threw ''Turn ended''), Some Allowed, None]"
proof -
  let ?ops = "[Ask_permission 0 ''s'' ''r'' ''bash'' [] True False, Ask_user 1 ''s'' ''q'' ''ask'' False,
              Ask_permission 2 ''t'' ''r'' ''edit'' [] True False, Respond ''s'' ''r'' ''yes'', Decide ''t'' ''r'' True True None,
              Turn_over ''s'' ''Turn ended'']"
  have "map_of (ps_outcomes (foldl prompt_step (no_prompts []) ?ops)) p =
      (case foldl (fate p) Not_asked ?ops of Settled out \<Rightarrow> Some out | _ \<Rightarrow> None)" for p
    by (rule prompt_fate) simp_all
  then show ?thesis by (simp only: Let_def list.map) simp
qed

end
