(* ===== verification/Spec2Isabelle.thy ===== *)
theory Spec2Isabelle
  imports Repository_Samples Director_Samples Permission_Samples Repository_Lock Router_Gate Router_Samples Cron_Samples
    Context_Samples Gateway_Samples Session_Writer Recency_Stores Claim_Samples
    File_Samples Task_Samples Session_Router Gateway_Prompts
begin

text \<open>
  A verification development for Rigorium, a workbench for research agents written in TypeScript.

  The program and its parts. A gateway (\<open>src/gateway\<close>) accepts clients over WebSockets and runs
  turns of agent sessions. A turn projects the conversation for a model (\<open>src/context\<close>), sends the
  request through a router over several providers (\<open>src/router\<close>), runs the tool calls that the
  permission policy allows (\<open>src/permission\<close>), and is recorded in the transcript of its session
  (\<open>src/session\<close>). Research itself is a project of immutable artifacts in an append-only repository
  (\<open>src/research/artifacts\<close>), in which a director (\<open>src/research/director\<close>) plans and decides
  the next actions. A scheduler (\<open>src/cron\<close>) starts turns on its own. The theories follow these
  parts; each names the files it models and keeps the names of the functions.

  Shared: \<open>Prelude\<close> has results with an error summand, JavaScript maps and sets as lists in
  insertion order, stable sorting and numbers as text.

  Artifacts. \<open>Canonical_Json\<close>, \<open>Artifact_Types\<close>, \<open>Artifact_Graph\<close> and \<open>Artifact_Repository\<close> are the
  operations of the files \<open>types.ts\<close>, \<open>graph.ts\<close> and \<open>repository.ts\<close>; a repository is the value of
  its manifest and log files. \<open>Repository_Log\<close>, \<open>Repository_Transactions\<close>, \<open>Repository_Safety\<close>,
  \<open>Repository_Contract\<close> and \<open>Repository_Runs\<close> show that a replay of what a transaction wrote accepts
  it, that no active artifact depends on a stale one, that a repeated append is idle, that an
  invalidation reaches exactly the active descendants, and that all of this holds along every run of
  transactions, failing ones included. \<open>Repository_Lock\<close> is the lock protocol as interleaved steps of
  processes. \<open>Json_Texts\<close> shows that \<open>JSON.parse\<close> reads back what \<open>JSON.stringify\<close> wrote.

  Director. \<open>Director_Types\<close>, \<open>Director_Validation\<close>, \<open>Director_Planner\<close> and \<open>Director_Decision\<close> are
  \<open>types.ts\<close>, \<open>records.ts\<close>, \<open>validation.ts\<close> and \<open>planner.ts\<close>. \<open>Director_Schedule\<close> shows that the
  batches of a plan exist exactly when dependencies are acyclic and respect them; \<open>Director_Blocking\<close>
  has the contract of the passes that block actions (a locale that every pass interprets),
  \<open>Director_Budgets\<close> the arithmetic of both budgets; \<open>Director_Plans\<close>, \<open>Director_Promises\<close> and
  \<open>Director_Verdicts\<close> put them together for plans and decisions.

  Claims. \<open>Claim_Beliefs\<close> is the evidence that artifacts give to claims and the belief that follows,
  \<open>Claim_Graph\<close> the claims of a project with their file: superseding reaches exactly the derived
  claims, and memory and file agree after any operations. \<open>Research_Gain\<close> is the planner by
  expected information gain with the reconciliation of its plans and the anomaly boost.

  Permissions. \<open>Permission_Paths\<close>, \<open>Permission_Rules\<close>, \<open>Permission_Runtime\<close> and
  \<open>Permission_Settings\<close> are paths, wildcard matching, the decision and the settings file;
  \<open>Permission_Promises\<close> shows what a permitted call was permitted by, what plan mode confines, and
  that the backtracking matcher decides the language of its expression.

  Router. \<open>Router_Gate\<close> (concurrency per provider), \<open>Router_Health\<close> (circuit breaker),
  \<open>Router_Retry\<close> (retries and fallbacks) and \<open>Router_Execution\<close> (the execution of a request) model
  the operations; \<open>Router_Promises\<close> bounds the calls, shows that no execution ends silently and
  where text is said twice. \<open>Recency_Stores\<close> has the two stores that evict by recency, with their
  common contract as a locale interpreted for both.

  Cron. \<open>Cron_Schedule\<close> is the parser of schedules and the search for the next run, \<open>Cron_Tasks\<close> the
  store and the operations of a runtime, \<open>Cron_Events\<close> their interleaving as a step relation over
  all projects, with the invariant of the reachable states.

  Context. \<open>Conversation\<close> has messages, the pairing of calls and results, and turns;
  \<open>Context_Projection\<close> the messages sent to a model and the protocol they meet;
  \<open>Context_Budget\<close> estimates and thresholds; \<open>Context_Compaction\<close> snipping, compaction of old
  results, summaries and the tiers of automatic compaction.

  Gateway. \<open>Gateway_Socket\<close> is the WebSocket connection on lists of bytes, \<open>Gateway_Client\<close> the two
  queues with waiting consumers (one contract, two interpretations) and the client,
  \<open>Session_Router\<close> the sessions that a gateway keeps, with the turns in flight and the idle sweep.
  \<open>Gateway_Prompts\<close> is what a turn asks the user, permissions and questions: what becomes of a call
  among all the others is what its own decision, answer, abort or end of turn makes of it.

  Sessions. \<open>Session_Transcript\<close> replays a transcript and finds its chain; \<open>Session_Writer\<close> writes
  and reads it, through failing appends and resumed processes. \<open>File_History\<close> is the history of the
  files that an agent edits (\<open>src/session/filesystem\<close>): what a rewind undoes, what it does not, that
  no backup dangles, and what a restart keeps.

  Background tasks (\<open>src/task\<close>). \<open>Task_Output\<close> keeps the end of what a task prints: its slices are
  slices of the whole stream. \<open>Background_Tasks\<close> runs them: every end is told once.

  The theories whose names end in \<open>Samples\<close> hold the concrete inputs on which the properties with
  hypotheses are applied, and what the code does at its edges.

  How the code is modelled. Objects are records, unions are datatypes, and what the code throws is
  the error summand of a result or a constructor of a datatype. A component that mutates its state
  returns it; asynchronous code is a sequence of steps, and where steps of several callers interleave
  it is an inductive relation. Numbers of the code are integers or exact rationals: the values in question
  are counts, milliseconds and ratios far below \<open>2 ^ 53\<close>. Bytes of frames are words of eight bits.
  Texts are lists of code units below 256; the ellipsis and the dash, which lie above, are
  the unused code units 0x85 and 0x97. Paths are POSIX paths.

  What is not code of the repository is a parameter: SHA-256, collation of texts, \<open>Date.parse\<close>, the
  working directory, the calendar of a time zone, the tokenizer, what a provider answers, what the
  summarizing model replies, and whether an append to a file succeeds. Assumptions about them are
  premises of the properties and hold for the parameters of the samples.

  Termination and bounds. Recursion is structural or by a measure: the search of a cron expression
  runs over its 366 days of minutes, the batch loop over the actions not yet batched, the attempts of
  an execution over the attempts that its plan has left, the frames of a connection over its buffer.
  The conversation chain recurses over links that may be cyclic: it has the depth of the stack as
  fuel, whose end is the overflow; any depth above the number of entries is enough for a transcript
  that the writer wrote.

  Not modelled, because it is access to systems outside, rendering, or a translation to the formats of
  others: the providers of models, the tools, the channel adapters, the user interface, the memory
  engine, plugins and MCP, telemetry and the command line. Not modelled because it rests on learned
  scores, text heuristics or subprocesses: literature, experimentation, manuscripts and reviews, the
  judge and the learning of the router. The loop of an agent, prompt assembly and the dispatch of gateway
  methods are orchestration over injected services and are left for the parts they call. Inside the
  modelled parts, lifecycle hooks, events for observers and log messages are left out.
\<close>

end
